(* ===== verification/Prelude.thy ===== *)
theory Prelude
  imports Main "HOL-Library.Word"
begin

unbundle bit_operations_syntax

text \<open>
  Shared vocabulary of the development: machine integers, byte order, byte buffers with checked
  accesses, and the result type that every operation of the model returns.

  The host is the little-endian LP64 machine the testbed runs on (x86-64 Ubuntu): an object of type
  \<open>uint16_t\<close> occupies two bytes with the low byte first, \<open>ntohs\<close>/\<open>htons\<close>
  reverse the bytes, and a pointer has eight bytes.

  An operation that reads or writes outside an object, follows a null or a freed pointer, ends the
  process or never returns has no C result; here it returns \<open>Inl\<close> of the reason.
\<close>

section \<open>Collections\<close>

named_theorems res_simps \<open>evaluation of sequences of checked operations\<close>
named_theorems mem_simps \<open>reads over writes of byte buffers\<close>
named_theorems order_simps \<open>byte order conversions\<close>

section \<open>Machine integers\<close>

type_synonym byte = "8 word"
type_synonym u16 = "16 word"
type_synonym u32 = "32 word"
type_synonym u64 = "64 word"
type_synonym buf = "byte list"

section \<open>Results\<close>

datatype stop =
    OutOfBounds      \<comment> \<open>an access outside the object\<close>
  | NullDeref        \<comment> \<open>a null pointer is followed\<close>
  | UseAfterFree     \<comment> \<open>a freed object is accessed\<close>
  | Exit int         \<comment> \<open>the process calls \<open>exit\<close>\<close>
  | Diverges         \<comment> \<open>a loop does not end\<close>

type_synonym 'a res = "stop + 'a"

fun bindE :: "'e + 'a \<Rightarrow> ('a \<Rightarrow> 'e + 'b) \<Rightarrow> 'e + 'b" where
  "bindE (Inl e) f = Inl e"
| "bindE (Inr x) f = f x"

text \<open>The value of a loop that may run forever: \<open>None\<close> is not returning.\<close>

definition run_loop :: "'a res option \<Rightarrow> 'a res" where
  "run_loop r = (case r of None \<Rightarrow> Inl Diverges | Some x \<Rightarrow> x)"

text \<open>Dereferencing what may be a null pointer.\<close>

definition non_null :: "'a option \<Rightarrow> 'a res" where
  "non_null p = (case p of None \<Rightarrow> Inl NullDeref | Some x \<Rightarrow> Inr x)"

declare bindE.simps [res_simps]

lemma run_loop_Some [simp, res_simps]: "run_loop (Some x) = x"
  by (simp add: run_loop_def)

lemma non_null_simps [simp, res_simps]:
  "non_null None = Inl NullDeref" "non_null (Some x) = Inr x"
  by (simp_all add: non_null_def)

lemma bindE_eq_Inr: "bindE m f = Inr y \<longleftrightarrow> (\<exists>x. m = Inr x \<and> f x = Inr y)"
  by (cases m) auto

lemma bindE_eq_Inl: "bindE m f = Inl e \<longleftrightarrow> m = Inl e \<or> (\<exists>x. m = Inr x \<and> f x = Inl e)"
  by (cases m) auto

lemma bindE_assoc: "bindE (bindE m f) g = bindE m (\<lambda>x. bindE (f x) g)"
  by (cases m) auto

lemma bindE_E [elim]:
  assumes "bindE m f = Inr y"
  obtains x where "m = Inr x" "f x = Inr y"
  using assms by (auto simp: bindE_eq_Inr)

lemma bindE_if: "bindE (if b then m else n) f = (if b then bindE m f else bindE n f)"
  by simp

section \<open>Byte order\<close>

definition byte_of :: "nat \<Rightarrow> 'a::len word \<Rightarrow> byte" where
  "byte_of k w = ucast (drop_bit (8 * k) w)"

definition bytes16 :: "u16 \<Rightarrow> buf" where
  "bytes16 w = [byte_of 0 w, byte_of 1 w]"

definition bytes32 :: "u32 \<Rightarrow> buf" where
  "bytes32 w = [byte_of 0 w, byte_of 1 w, byte_of 2 w, byte_of 3 w]"

definition bytes64 :: "u64 \<Rightarrow> buf" where
  "bytes64 w = map (\<lambda>k. byte_of k w) [0, 1, 2, 3, 4, 5, 6, 7]"

definition le16 :: "byte \<Rightarrow> byte \<Rightarrow> u16" where
  "le16 a b = ucast a OR push_bit 8 (ucast b)"

definition le32 :: "byte \<Rightarrow> byte \<Rightarrow> byte \<Rightarrow> byte \<Rightarrow> u32" where
  "le32 a b c d = ucast a OR push_bit 8 (ucast b) OR push_bit 16 (ucast c) OR push_bit 24 (ucast d)"

definition ntohs :: "u16 \<Rightarrow> u16" where
  "ntohs w = le16 (byte_of 1 w) (byte_of 0 w)"

definition htons :: "u16 \<Rightarrow> u16" where
  "htons w = ntohs w"

definition ntohl :: "u32 \<Rightarrow> u32" where
  "ntohl w = le32 (byte_of 3 w) (byte_of 2 w) (byte_of 1 w) (byte_of 0 w)"

definition htonl :: "u32 \<Rightarrow> u32" where
  "htonl w = ntohl w"

lemma byte_of_le16 [simp, order_simps]:
  "byte_of 0 (le16 a b) = a" "byte_of (Suc 0) (le16 a b) = b"
  by (rule bit_word_eqI; auto simp: byte_of_def le16_def bit_simps dest: bit_imp_le_length)+

lemma le16_byte_of [simp, order_simps]: "le16 (byte_of 0 w) (byte_of (Suc 0) w) = w"
  by (rule bit_word_eqI) (auto simp: byte_of_def le16_def bit_simps)

lemma byte_of_le32 [simp, order_simps]:
  "byte_of 0 (le32 a b c d) = a" "byte_of (Suc 0) (le32 a b c d) = b"
  "byte_of 2 (le32 a b c d) = c" "byte_of 3 (le32 a b c d) = d"
  by (rule bit_word_eqI; auto simp: byte_of_def le32_def bit_simps dest: bit_imp_le_length)+

lemma le32_byte_of [simp, order_simps]:
  "le32 (byte_of 0 w) (byte_of (Suc 0) w) (byte_of 2 w) (byte_of 3 w) = w"
proof (rule bit_word_eqI)
  fix n assume "n < LENGTH(32)"
  then consider "n < 8" | "8 \<le> n" "n < 16" | "16 \<le> n" "n < 24" | "24 \<le> n" "n < 32" by force
  then show "bit (le32 (byte_of 0 w) (byte_of (Suc 0) w) (byte_of 2 w) (byte_of 3 w)) n = bit w n"
    by cases (auto simp: byte_of_def le32_def bit_simps)
qed

lemma ntohs_ntohs [simp, order_simps]: "ntohs (ntohs w) = w"
  by (simp add: ntohs_def)

lemma ntohl_ntohl [simp, order_simps]: "ntohl (ntohl w) = w"
  by (simp add: ntohl_def)

lemma ntohs_htons [simp, order_simps]: "ntohs (htons w) = w" "htons (ntohs w) = w"
  by (simp_all add: htons_def)

lemma ntohl_htonl [simp, order_simps]: "ntohl (htonl w) = w" "htonl (ntohl w) = w"
  by (simp_all add: htonl_def)

lemma ntohs_eq_iff [simp]: "ntohs a = ntohs b \<longleftrightarrow> a = b"
  by (metis ntohs_ntohs)

lemma length_bytes [simp]:
  "length (bytes16 w) = 2" "length (bytes32 v) = 4" "length (bytes64 u) = 8"
  by (simp_all add: bytes16_def bytes32_def bytes64_def)

lemma bytes16_le16 [simp, order_simps]: "bytes16 (le16 a b) = [a, b]"
  by (simp add: bytes16_def)

lemma bytes32_le32 [simp, order_simps]: "bytes32 (le32 a b c d) = [a, b, c, d]"
  by (simp add: bytes32_def)

lemma ntohs_le16 [simp, order_simps]: "ntohs (le16 a b) = le16 b a"
  by (simp add: ntohs_def)

lemma ntohl_le32 [simp, order_simps]: "ntohl (le32 a b c d) = le32 d c b a"
  by (simp add: ntohl_def)

lemma le16_inject [simp]: "le16 a b = le16 c d \<longleftrightarrow> a = c \<and> b = d"
  by (metis byte_of_le16)

lemma le32_inject [simp]: "le32 a b c d = le32 a' b' c' d' \<longleftrightarrow> a = a' \<and> b = b' \<and> c = c' \<and> d = d'"
  by (metis byte_of_le32)

lemma le16_add: "le16 a b = ucast a + 256 * ucast b"
proof -
  have "ucast a OR push_bit 8 (ucast b :: u16) = ucast a + push_bit 8 (ucast b :: u16)"
    by (rule disjunctive_add_eq_or [symmetric], rule bit_word_eqI)
      (auto simp: bit_simps dest: bit_imp_le_length)
  then show ?thesis
    by (simp add: le16_def push_bit_eq_mult)
qed

lemma unat_byte_less [simp]: "unat (b :: byte) < 256"
proof -
  have "unat b < 2 ^ LENGTH(8)" by (rule unsigned_less)
  then show ?thesis by simp
qed

lemma unat_byte_le [simp]: "unat (b :: byte) \<le> 255"
  using unat_byte_less [of b] by linarith

lemma unat_u16_less [simp]: "unat (w :: u16) < 65536"
proof -
  have "unat w < 2 ^ LENGTH(16)" by (rule unsigned_less)
  then show ?thesis by simp
qed

lemma unat_le16: "unat (le16 a b) = unat a + 256 * unat b"
proof -
  have "unat a < 256" and "unat b < 256" by simp_all
  then have "unat a + 256 * unat b < 65536" by linarith
  then show ?thesis
    by (simp add: le16_add unat_word_ariths unsigned_ucast_eq take_bit_eq_mod mod_simps)
qed

lemma uint_le16: "uint (le16 a b) = uint a + 256 * uint b"
proof -
  have "uint (le16 a b) = int (unat a + 256 * unat b)"
    by (simp only: uint_nat unat_le16)
  then show ?thesis by simp
qed

section \<open>Byte buffers\<close>

text \<open>
  \<open>slice\<close> and \<open>splice\<close> are the pure read and write of a run of bytes; the checked operations
  below are what the C code does: an access that leaves the object stops.
\<close>

definition slice :: "'a list \<Rightarrow> nat \<Rightarrow> nat \<Rightarrow> 'a list" where
  "slice b i n = take n (drop i b)"

definition splice :: "'a list \<Rightarrow> nat \<Rightarrow> 'a list \<Rightarrow> 'a list" where
  "splice b i xs = take i b @ xs @ drop (i + length xs) b"

definition rd :: "buf \<Rightarrow> nat \<Rightarrow> nat \<Rightarrow> buf res" where
  "rd b i n = (if i + n \<le> length b then Inr (slice b i n) else Inl OutOfBounds)"

definition wr :: "buf \<Rightarrow> nat \<Rightarrow> buf \<Rightarrow> buf res" where
  "wr b i xs = (if i + length xs \<le> length b then Inr (splice b i xs) else Inl OutOfBounds)"

definition ld8 :: "buf \<Rightarrow> nat \<Rightarrow> byte res" where
  "ld8 b i = (if i < length b then Inr (b ! i) else Inl OutOfBounds)"

definition ld16 :: "buf \<Rightarrow> nat \<Rightarrow> u16 res" where
  "ld16 b i = (if i + 2 \<le> length b then Inr (le16 (b ! i) (b ! (i + 1))) else Inl OutOfBounds)"

definition ld32 :: "buf \<Rightarrow> nat \<Rightarrow> u32 res" where
  "ld32 b i = (if i + 4 \<le> length b
     then Inr (le32 (b ! i) (b ! (i + 1)) (b ! (i + 2)) (b ! (i + 3))) else Inl OutOfBounds)"

definition st16 :: "buf \<Rightarrow> nat \<Rightarrow> u16 \<Rightarrow> buf res" where
  "st16 b i w = wr b i (bytes16 w)"

lemma length_slice [simp]: "length (slice b i n) = min n (length b - i)"
  by (simp add: slice_def)

lemma length_splice [simp]: "i + length xs \<le> length b \<Longrightarrow> length (splice b i xs) = length b"
  by (simp add: splice_def)

lemma nth_splice:
  "i + length xs \<le> length b \<Longrightarrow> k < length b \<Longrightarrow>
     splice b i xs ! k = (if i \<le> k \<and> k < i + length xs then xs ! (k - i) else b ! k)"
  by (auto simp: splice_def nth_append min_def) 

lemma nth_slice: "k < n \<Longrightarrow> i + n \<le> length b \<Longrightarrow> slice b i n ! k = b ! (i + k)"
  by (simp add: slice_def)

lemma slice_splice_same [mem_simps]:
  "i + length xs \<le> length b \<Longrightarrow> n = length xs \<Longrightarrow> slice (splice b i xs) i n = xs"
  by (simp add: slice_def splice_def)

lemma slice_splice_other [mem_simps]:
  assumes "i + length xs \<le> length b" "j + n \<le> i \<or> i + length xs \<le> j" "j + n \<le> length b"
  shows "slice (splice b i xs) j n = slice b j n"
  by (rule nth_equalityI) (use assms in \<open>auto simp: nth_slice nth_splice\<close>)

lemma wr_Inr_iff: "wr b i xs = Inr b' \<longleftrightarrow> i + length xs \<le> length b \<and> b' = splice b i xs"
  by (auto simp: wr_def)

lemma length_wr: "wr b i xs = Inr b' \<Longrightarrow> length b' = length b"
  by (auto simp: wr_Inr_iff)

section \<open>Addresses\<close>

text \<open>The C arrays \<open>unsigned char[4]\<close> (IPv4 addresses) and \<open>uint8_t[6]\<close> (MAC addresses).
  \<open>memcmp\<close> over the whole array is equality, \<open>memcpy\<close> of the whole array assignment.\<close>

datatype ip4 = IP4 byte byte byte byte

datatype mac = MAC byte byte byte byte byte byte

fun ip4_bytes :: "ip4 \<Rightarrow> buf" where
  "ip4_bytes (IP4 a b c d) = [a, b, c, d]"

fun mac_bytes :: "mac \<Rightarrow> buf" where
  "mac_bytes (MAC a b c d e f) = [a, b, c, d, e, f]"

definition ld_ip4 :: "buf \<Rightarrow> nat \<Rightarrow> ip4 res" where
  "ld_ip4 b i = (if i + 4 \<le> length b
     then Inr (IP4 (b ! i) (b ! (i + 1)) (b ! (i + 2)) (b ! (i + 3))) else Inl OutOfBounds)"

definition ld_mac :: "buf \<Rightarrow> nat \<Rightarrow> mac res" where
  "ld_mac b i = (if i + 6 \<le> length b
     then Inr (MAC (b ! i) (b ! (i + 1)) (b ! (i + 2)) (b ! (i + 3)) (b ! (i + 4)) (b ! (i + 5)))
     else Inl OutOfBounds)"

lemma length_addr_bytes [simp]: "length (ip4_bytes a) = 4" "length (mac_bytes m) = 6"
  by (cases a, simp) (cases m, simp)

lemma ip4_bytes_inject [simp]: "ip4_bytes a = ip4_bytes b \<longleftrightarrow> a = b"
  by (cases a; cases b) simp

lemma ld_ip4_slice:
  "ld_ip4 b i = Inr a \<longleftrightarrow> i + 4 \<le> length b \<and> slice b i 4 = ip4_bytes a"
proof (cases "i + 4 \<le> length b")
  case True
  then have "slice b i 4 = [b ! i, b ! (i + 1), b ! (i + 2), b ! (i + 3)]"
    by (intro nth_equalityI) (auto simp: nth_slice less_Suc_eq numeral_eq_Suc)
  with True show ?thesis
    by (cases a) (auto simp: ld_ip4_def)
qed (simp add: ld_ip4_def)

lemma ld16_slice:
  "ld16 b i = Inr w \<longleftrightarrow> i + 2 \<le> length b \<and> slice b i 2 = bytes16 w"
proof (cases "i + 2 \<le> length b")
  case True
  then have "slice b i 2 = [b ! i, b ! (i + 1)]"
    by (intro nth_equalityI) (auto simp: nth_slice less_Suc_eq numeral_eq_Suc)
  with True show ?thesis
    by (auto simp: ld16_def bytes16_def)
qed (simp add: ld16_def)

section \<open>The environment\<close>

lemma find_SomeD: "List.find P xs = Some x \<Longrightarrow> x \<in> set xs \<and> P x"
  by (auto simp: find_Some_iff)

text \<open>What the code asks of the C library: whether \<open>calloc\<close> of a number of bytes succeeds.
  Components that use more of their environment extend the record.\<close>

record env =
  calloc_ok :: "nat \<Rightarrow> bool"

end
