(* ===== verification/Layout.thy ===== *)
theory Layout
  imports Prelude
begin

text \<open>
  The layout of C structs on the LP64 machine: sizes, alignments and the offset of every member, and
  the loads and stores of members that the message code consists of.

  A struct is the list of its members. Members are placed in order, each at the next multiple of its
  alignment; the struct is padded to a multiple of the largest alignment. A member of a member is
  named by a path. Shown here: members lie inside the struct at aligned offsets, members of different
  names do not overlap, and a load after a store of a member returns what was stored.
\<close>

named_theorems layout_simps \<open>sizes and offsets of the message structs\<close>

section \<open>Types, sizes and offsets\<close>

datatype ctype =
    U8
  | U16
  | U32
  | U64
  | Pointer
  | Array nat ctype
  | Struct "(string \<times> ctype) list"

definition round_up :: "nat \<Rightarrow> nat \<Rightarrow> nat" where
  "round_up n a = (n + a - 1) div a * a"

fun alignof :: "ctype \<Rightarrow> nat" and max_align :: "(string \<times> ctype) list \<Rightarrow> nat" where
  "alignof U8 = 1"
| "alignof U16 = 2"
| "alignof U32 = 4"
| "alignof U64 = 8"
| "alignof Pointer = 8"
| "alignof (Array n t) = alignof t"
| "alignof (Struct fs) = max_align fs"
| "max_align [] = 1"
| "max_align ((f, t) # fs) = max (alignof t) (max_align fs)"

text \<open>\<open>members_end k fs\<close> is where the members \<open>fs\<close> end when they are placed from offset \<open>k\<close>.\<close>

fun sizeof :: "ctype \<Rightarrow> nat" and members_end :: "nat \<Rightarrow> (string \<times> ctype) list \<Rightarrow> nat" where
  "sizeof U8 = 1"
| "sizeof U16 = 2"
| "sizeof U32 = 4"
| "sizeof U64 = 8"
| "sizeof Pointer = 8"
| "sizeof (Array n t) = n * sizeof t"
| "sizeof (Struct fs) = round_up (members_end 0 fs) (max_align fs)"
| "members_end k [] = k"
| "members_end k ((f, t) # fs) = members_end (round_up k (alignof t) + sizeof t) fs"

fun member_at :: "nat \<Rightarrow> (string \<times> ctype) list \<Rightarrow> string \<Rightarrow> (nat \<times> ctype) option" where
  "member_at k [] n = None"
| "member_at k ((f, t) # fs) n =
     (if f = n then Some (round_up k (alignof t), t)
      else member_at (round_up k (alignof t) + sizeof t) fs n)"

fun locate :: "ctype \<Rightarrow> string list \<Rightarrow> (nat \<times> ctype) option" where
  "locate T [] = Some (0, T)"
| "locate (Struct fs) (n # p) =
     (case member_at 0 fs n of
        None \<Rightarrow> None
      | Some (k, t) \<Rightarrow> (case locate t p of None \<Rightarrow> None | Some (j, u) \<Rightarrow> Some (k + j, u)))"
| "locate T (n # p) = None"

text \<open>The offset of a member; a path that names no member is outside the struct.\<close>

definition offsetof :: "ctype \<Rightarrow> string list \<Rightarrow> nat" where
  "offsetof T p = (case locate T p of None \<Rightarrow> sizeof T | Some (k, t) \<Rightarrow> k)"

section \<open>The layout is sound\<close>

lemma round_up_ge: "0 < a \<Longrightarrow> n \<le> round_up n a"
proof -
  assume a: "0 < a"
  have "n + a - 1 = (n + a - 1) div a * a + (n + a - 1) mod a" by simp
  moreover have "(n + a - 1) mod a < a" using a by simp
  ultimately have "n + a - 1 < round_up n a + a" unfolding round_up_def by linarith
  then show ?thesis using a by linarith
qed

lemma round_up_dvd: "a dvd round_up n a"
  by (simp add: round_up_def)

lemma align_cases:
  "alignof t \<in> {1, 2, 4, 8}" "max_align fs \<in> {1, 2, 4, 8}"
proof (induction t and fs rule: alignof_max_align.induct)
  case (9 f t fs)
  then show ?case by (auto simp: max_def)
qed auto

lemma align_pos [simp]: "0 < alignof t" "0 < max_align fs"
  using align_cases(1) [of t] align_cases(2) [of fs] by auto

lemma members_end_ge: "k \<le> members_end k fs"
proof (induction fs arbitrary: k)
  case (Cons ft fs)
  obtain f t where ft: "ft = (f, t)" by (cases ft)
  have "k \<le> round_up k (alignof t) + sizeof t" using round_up_ge [of "alignof t" k] by simp
  with Cons [of "round_up k (alignof t) + sizeof t"] show ?case by (simp add: ft)
qed simp

lemma member_at_within:
  "member_at k fs n = Some (j, t) \<Longrightarrow> k \<le> j \<and> j + sizeof t \<le> members_end k fs"
proof (induction fs arbitrary: k)
  case (Cons ft fs)
  obtain f u where ft: "ft = (f, u)" by (cases ft)
  let ?k = "round_up k (alignof u) + sizeof u"
  have k: "k \<le> round_up k (alignof u)" using round_up_ge by simp
  show ?case
  proof (cases "f = n")
    case True
    then show ?thesis using Cons.prems ft k members_end_ge [of ?k fs] by auto
  next
    case False
    then show ?thesis using Cons.prems ft k Cons.IH [of ?k] by auto
  qed
qed simp

lemma locate_within: "locate T p = Some (k, t) \<Longrightarrow> k + sizeof t \<le> sizeof T"
proof (induction T p arbitrary: k t rule: locate.induct)
  case (2 fs n p)
  then obtain i u j where m: "member_at 0 fs n = Some (i, u)" "locate u p = Some (j, t)" "k = i + j"
    by (auto split: option.splits)
  have "i + sizeof u \<le> members_end 0 fs" using member_at_within [OF m(1)] by simp
  also have "\<dots> \<le> sizeof (Struct fs)" using round_up_ge by simp
  finally show ?case using 2(1) [OF m(1) refl m(2)] m(3) by simp
qed auto

lemma member_align_le: "member_at k fs n = Some (j, t) \<Longrightarrow> alignof t \<le> max_align fs \<and> alignof t dvd j"
proof (induction fs arbitrary: k)
  case (Cons ft fs)
  obtain f u where "ft = (f, u)" by (cases ft)
  with Cons show ?case by (fastforce simp: round_up_dvd split: if_splits)
qed simp

lemma align_dvd:
  assumes "alignof t \<le> max_align fs"
  shows "alignof t dvd max_align fs"
proof -
  have "alignof t \<in> {1, 2, 4, 8}" "max_align fs \<in> {1, 2, 4, 8}" by (rule align_cases)+
  with assms show ?thesis by auto
qed

lemma locate_aligned: "locate T p = Some (k, t) \<Longrightarrow> alignof t dvd k \<and> alignof t dvd alignof T"
proof (induction T p arbitrary: k t rule: locate.induct)
  case (2 fs n p)
  then obtain i u j where m: "member_at 0 fs n = Some (i, u)" "locate u p = Some (j, t)" "k = i + j"
    by (auto split: option.splits)
  have u: "alignof u dvd i" "alignof u dvd max_align fs"
    using member_align_le [OF m(1)] align_dvd by auto
  then show ?case using 2(1) [OF m(1) refl m(2)] m(3) dvd_trans by (auto intro: dvd_add)
qed auto

lemma members_disjoint:
  assumes "member_at k fs n = Some (i, t)" "member_at k fs m = Some (j, u)" "n \<noteq> m"
  shows "i + sizeof t \<le> j \<or> j + sizeof u \<le> i"
  using assms
proof (induction fs arbitrary: k)
  case (Cons ft fs)
  obtain f v where ft: "ft = (f, v)" by (cases ft)
  let ?k = "round_up k (alignof v) + sizeof v"
  consider "f = n" | "f = m" | "f \<noteq> n" "f \<noteq> m" by blast
  then show ?case
  proof cases
    case 1
    then show ?thesis using Cons.prems ft member_at_within [of ?k fs m j u] by auto
  next
    case 2
    then show ?thesis using Cons.prems ft member_at_within [of ?k fs n i t] by auto
  next
    case 3
    then show ?thesis using Cons.prems ft Cons.IH [of ?k] by auto
  qed
qed simp

lemma locate_disjoint:
  assumes "locate (Struct fs) (n # p) = Some (i, t)" "locate (Struct fs) (m # q) = Some (j, u)" "n \<noteq> m"
  shows "i + sizeof t \<le> j \<or> j + sizeof u \<le> i"
proof -
  obtain i0 t0 i1 where a: "member_at 0 fs n = Some (i0, t0)" "locate t0 p = Some (i1, t)" "i = i0 + i1"
    using assms(1) by (auto split: option.splits)
  obtain j0 u0 j1 where b: "member_at 0 fs m = Some (j0, u0)" "locate u0 q = Some (j1, u)" "j = j0 + j1"
    using assms(2) by (auto split: option.splits)
  show ?thesis
    using members_disjoint [OF a(1) b(1) assms(3)] locate_within [OF a(2)] locate_within [OF b(2)] a(3) b(3)
    by linarith
qed

section \<open>Loads and stores of members\<close>

text \<open>\<open>calloc(1, n)\<close> when it succeeds, and a sequence of assignments through a pointer.\<close>

definition zeroed :: "nat \<Rightarrow> buf" where
  "zeroed n = replicate n 0"

fun puts :: "buf \<Rightarrow> (nat \<times> buf) list \<Rightarrow> buf res" where
  "puts b [] = Inr b"
| "puts b ((i, xs) # ws) = bindE (wr b i xs) (\<lambda>b. puts b ws)"

lemma length_zeroed [simp]: "length (zeroed n) = n"
  by (simp add: zeroed_def)

lemma puts_within:
  "(\<forall>(i, xs) \<in> set ws. i + length xs \<le> length b) \<Longrightarrow> \<exists>b'. puts b ws = Inr b' \<and> length b' = length b"
proof (induction ws arbitrary: b)
  case (Cons w ws)
  obtain i xs where w: "w = (i, xs)" by (cases w)
  have l: "i + length xs \<le> length b" using Cons.prems w by simp
  show ?case using Cons.IH [of "splice b i xs"] Cons.prems l by (simp add: w wr_def)
qed simp

lemma puts_append: "puts b (ws @ vs) = bindE (puts b ws) (\<lambda>b. puts b vs)"
proof (induction ws arbitrary: b)
  case (Cons w ws)
  obtain i xs where "w = (i, xs)" by (cases w)
  with Cons show ?case by (cases "wr b i xs") simp_all
qed simp

text \<open>What a sequence of stores leaves in a run of bytes it does not touch.\<close>

lemma puts_frame:
  assumes "puts b ws = Inr b'" "\<forall>(i, xs) \<in> set ws. i + length xs \<le> j \<or> j + n \<le> i" "j + n \<le> length b"
  shows "slice b' j n = slice b j n"
  using assms
proof (induction ws arbitrary: b)
  case (Cons w ws)
  obtain i xs where w: "w = (i, xs)" by (cases w)
  with Cons.prems(1) have l: "i + length xs \<le> length b" and p: "puts (splice b i xs) ws = Inr b'"
    by (auto simp: wr_Inr_iff bindE_eq_Inr)
  have "slice b' j n = slice (splice b i xs) j n"
    using Cons.prems l by (intro Cons.IH [OF p]) auto
  also have "\<dots> = slice b j n" using Cons.prems l w by (intro slice_splice_other) auto
  finally show ?case .
qed simp

text \<open>The value of the member stored by one assignment, when the later ones do not touch it.\<close>

lemma puts_value:
  assumes "puts b (ws @ (j, ys) # vs) = Inr b'" "\<forall>(i, xs) \<in> set vs. i + length xs \<le> j \<or> j + length ys \<le> i"
  shows "slice b' j (length ys) = ys"
proof -
  obtain c where "puts c ((j, ys) # vs) = Inr b'"
    using assms(1) unfolding puts_append by (rule bindE_E)
  then have c: "j + length ys \<le> length c" "puts (splice c j ys) vs = Inr b'"
    by (simp_all add: wr_def split: if_splits)
  have "slice b' j (length ys) = slice (splice c j ys) j (length ys)"
    using c(1) by (intro puts_frame [OF c(2) assms(2)]) simp
  then show ?thesis using c(1) by (simp add: slice_splice_same)
qed

section \<open>Enumerations\<close>

text \<open>A C enumeration is the list of its constants with their values. \<open>enum_of\<close> is the \<open>case\<close> label
  that an integer selects, \<open>enum_val\<close> the value of a constant.\<close>

definition enum_of :: "('a \<times> nat) list \<Rightarrow> nat \<Rightarrow> 'a option" where
  "enum_of vals n = map_of (map (\<lambda>(c, v). (v, c)) vals) n"

definition enum_val :: "('a \<times> nat) list \<Rightarrow> 'a \<Rightarrow> nat" where
  "enum_val vals c = (case map_of vals c of None \<Rightarrow> 0 | Some v \<Rightarrow> v)"

locale c_enum =
  fixes vals :: "('a \<times> nat) list"
  assumes consts_distinct: "distinct (map fst vals)"
    and vals_distinct: "distinct (map snd vals)"
    and all_constants: "c \<in> fst ` set vals"
begin

lemma val_in: "(c, enum_val vals c) \<in> set vals"
proof -
  obtain v where "(c, v) \<in> set vals" using all_constants [of c] by auto
  then have "map_of vals c = Some v" using consts_distinct by simp
  then show ?thesis using \<open>(c, v) \<in> set vals\<close> by (simp add: enum_val_def)
qed

lemma of_iff: "enum_of vals n = Some c \<longleftrightarrow> enum_val vals c = n"
proof -
  have d: "distinct (map fst (map (\<lambda>(c, v). (v, c)) vals))"
    using vals_distinct by (simp add: comp_def case_prod_unfold)
  have "enum_of vals n = Some c \<longleftrightarrow> (c, n) \<in> set vals"
    unfolding enum_of_def map_of_eq_Some_iff [OF d] by (auto simp: image_iff intro!: bexI [of _ "(c, n)"])
  also have "\<dots> \<longleftrightarrow> enum_val vals c = n"
    using val_in [of c] eq_key_imp_eq_value [OF consts_distinct] by blast
  finally show ?thesis .
qed

lemma of_val [simp]: "enum_of vals (enum_val vals c) = Some c"
  by (simp add: of_iff)

lemma val_inject: "enum_val vals c = enum_val vals d \<longleftrightarrow> c = d"
  using of_val by (metis option.inject)

end

end
