(* ===== verification/Openflow.thy ===== *)
theory Openflow
  imports Layout
begin

text \<open>
  The messages of the control channel (openflow.h, nicira-ext.h, nicira-new.h, ofSwitchAP.h; the
  gateway has the same copies of the first three): the enumerations that select a handler and the
  structs that the handlers overlay on a message.

  Shown here: the sizes that the headers assert at compile time are those of the layout, the
  enumerations are unambiguous, and the messages that the access points and the gateway exchange
  through the controller have the same layout on both sides.
\<close>

section \<open>Enumerations\<close>

datatype ofp_type =
    OFPT_HELLO
  | OFPT_ERROR
  | OFPT_ECHO_REQUEST
  | OFPT_ECHO_REPLY
  | OFPT_VENDOR
  | OFPT_FEATURES_REQUEST
  | OFPT_FEATURES_REPLY
  | OFPT_GET_CONFIG_REQUEST
  | OFPT_GET_CONFIG_REPLY
  | OFPT_SET_CONFIG
  | OFPT_PACKET_IN
  | OFPT_FLOW_REMOVED
  | OFPT_PORT_STATUS
  | OFPT_PACKET_OUT
  | OFPT_FLOW_MOD
  | OFPT_PORT_MOD
  | OFPT_STATS_REQUEST
  | OFPT_STATS_REPLY
  | OFPT_BARRIER_REQUEST
  | OFPT_BARRIER_REPLY
  | OFPT_QUEUE_GET_CONFIG_REQUEST
  | OFPT_QUEUE_GET_CONFIG_REPLY

definition ofp_type_vals :: "(ofp_type \<times> nat) list" where
  "ofp_type_vals = [(OFPT_HELLO, 0), (OFPT_ERROR, 1), (OFPT_ECHO_REQUEST, 2), (OFPT_ECHO_REPLY, 3),
     (OFPT_VENDOR, 4), (OFPT_FEATURES_REQUEST, 5), (OFPT_FEATURES_REPLY, 6),
     (OFPT_GET_CONFIG_REQUEST, 7), (OFPT_GET_CONFIG_REPLY, 8), (OFPT_SET_CONFIG, 9),
     (OFPT_PACKET_IN, 10), (OFPT_FLOW_REMOVED, 11), (OFPT_PORT_STATUS, 12), (OFPT_PACKET_OUT, 13),
     (OFPT_FLOW_MOD, 14), (OFPT_PORT_MOD, 15), (OFPT_STATS_REQUEST, 16), (OFPT_STATS_REPLY, 17),
     (OFPT_BARRIER_REQUEST, 18), (OFPT_BARRIER_REPLY, 19), (OFPT_QUEUE_GET_CONFIG_REQUEST, 20),
     (OFPT_QUEUE_GET_CONFIG_REPLY, 21)]"

datatype ofp_action_type =
    OFPAT_OUTPUT
  | OFPAT_SET_VLAN_VID
  | OFPAT_SET_VLAN_PCP
  | OFPAT_STRIP_VLAN
  | OFPAT_SET_DL_SRC
  | OFPAT_SET_DL_DST
  | OFPAT_SET_NW_SRC
  | OFPAT_SET_NW_DST
  | OFPAT_SET_NW_TOS
  | OFPAT_SET_TP_SRC
  | OFPAT_SET_TP_DST
  | OFPAT_ENQUEUE
  | OFPAT_VENDOR

definition ofp_action_type_vals :: "(ofp_action_type \<times> nat) list" where
  "ofp_action_type_vals = [(OFPAT_OUTPUT, 0), (OFPAT_SET_VLAN_VID, 1), (OFPAT_SET_VLAN_PCP, 2),
     (OFPAT_STRIP_VLAN, 3), (OFPAT_SET_DL_SRC, 4), (OFPAT_SET_DL_DST, 5), (OFPAT_SET_NW_SRC, 6),
     (OFPAT_SET_NW_DST, 7), (OFPAT_SET_NW_TOS, 8), (OFPAT_SET_TP_SRC, 9), (OFPAT_SET_TP_DST, 10),
     (OFPAT_ENQUEUE, 11), (OFPAT_VENDOR, 0xffff)]"

datatype ofp_flow_mod_command =
    OFPFC_ADD
  | OFPFC_MODIFY
  | OFPFC_MODIFY_STRICT
  | OFPFC_DELETE
  | OFPFC_DELETE_STRICT

definition ofp_flow_mod_command_vals :: "(ofp_flow_mod_command \<times> nat) list" where
  "ofp_flow_mod_command_vals = [(OFPFC_ADD, 0), (OFPFC_MODIFY, 1), (OFPFC_MODIFY_STRICT, 2),
     (OFPFC_DELETE, 3), (OFPFC_DELETE_STRICT, 4)]"

datatype ofp_stats_types =
    OFPST_DESC
  | OFPST_FLOW
  | OFPST_AGGREGATE
  | OFPST_TABLE
  | OFPST_PORT
  | OFPST_QUEUE
  | OFPST_VENDOR

definition ofp_stats_types_vals :: "(ofp_stats_types \<times> nat) list" where
  "ofp_stats_types_vals = [(OFPST_DESC, 0), (OFPST_FLOW, 1), (OFPST_AGGREGATE, 2),
     (OFPST_TABLE, 3), (OFPST_PORT, 4), (OFPST_QUEUE, 5), (OFPST_VENDOR, 0xffff)]"

datatype nx_subtype =
    NXT_ROLE_REQUEST
  | NXT_ROLE_REPLY

definition nx_subtype_vals :: "(nx_subtype \<times> nat) list" where
  "nx_subtype_vals = [(NXT_ROLE_REQUEST, 10), (NXT_ROLE_REPLY, 11)]"

datatype exp_type =
    WLAN_AUTH_REQ
  | WLAN_AUTH_RESP
  | WLAN_AUTH_ERROR
  | WLAN_DEAUTH_REQ
  | WLAN_ASSOC_REQ
  | WLAN_ASSOC_RESP
  | WLAN_ASSOC_ERROR
  | WLAN_REASSOC_REQ
  | WLAN_REASSOC_RESP
  | WLAN_REASSOC_ERROR
  | WLAN_DISASSOC_REQ
  | WLAN_BSSID
  | WLAN_PROBE
  | WLAN_ADD_STA
  | WLAN_REC_POW
  | WLAN_LAST_REC_POW
  | WLAN_AP_REC_POW
  | WLAN_UPDATE_STA_ADD
  | WLAN_REMOVE_STA
  | WLAN_NAT_UPDATE
  | WLAN_NAT_ADD
  | WLAN_PORT_TRANSLATION

definition exp_type_vals :: "(exp_type \<times> nat) list" where
  "exp_type_vals = [(WLAN_AUTH_REQ, 0), (WLAN_AUTH_RESP, 1), (WLAN_AUTH_ERROR, 2),
     (WLAN_DEAUTH_REQ, 3), (WLAN_ASSOC_REQ, 4), (WLAN_ASSOC_RESP, 5), (WLAN_ASSOC_ERROR, 6),
     (WLAN_REASSOC_REQ, 7), (WLAN_REASSOC_RESP, 8), (WLAN_REASSOC_ERROR, 9),
     (WLAN_DISASSOC_REQ, 10), (WLAN_BSSID, 11), (WLAN_PROBE, 12), (WLAN_ADD_STA, 13),
     (WLAN_REC_POW, 14), (WLAN_LAST_REC_POW, 15), (WLAN_AP_REC_POW, 16), (WLAN_UPDATE_STA_ADD, 17),
     (WLAN_REMOVE_STA, 18), (WLAN_NAT_UPDATE, 19), (WLAN_NAT_ADD, 20), (WLAN_PORT_TRANSLATION, 21)]"

datatype ofp_vendor_subtype =
    OFPAT_EXPERIMENTER_PUSH_IPH
  | OFPAT_EXPERIMENTER_POP_IPH

definition ofp_vendor_subtype_vals :: "(ofp_vendor_subtype \<times> nat) list" where
  "ofp_vendor_subtype_vals = [(OFPAT_EXPERIMENTER_PUSH_IPH, 0), (OFPAT_EXPERIMENTER_POP_IPH, 1)]"

definition OFP_VERSION :: byte where
  "OFP_VERSION = 0x01"

definition OFPC_FRAG_NORMAL :: u16 where
  "OFPC_FRAG_NORMAL = 0"

definition NX_VENDOR_ID :: u32 where
  "NX_VENDOR_ID = 0x00002320"

definition AP_EXPERIMENTER_ID :: u32 where
  "AP_EXPERIMENTER_ID = 0x00000001"

section \<open>Structs\<close>

definition ofp_header :: ctype where
  "ofp_header = Struct [(''version'', U8), (''type'', U8), (''length'', U16), (''xid'', U32)]"

definition ofp_hello :: ctype where
  "ofp_hello = Struct [(''header'', ofp_header)]"

definition ofp_switch_config :: ctype where
  "ofp_switch_config = Struct [(''header'', ofp_header), (''flags'', U16),
     (''miss_send_len'', U16)]"

definition ofp_phy_port :: ctype where
  "ofp_phy_port = Struct [(''port_no'', U16), (''hw_addr'', Array 6 U8), (''name'', Array 16 U8),
     (''config'', U32), (''state'', U32), (''curr'', U32), (''advertised'', U32),
     (''supported'', U32), (''peer'', U32)]"

definition ofp_switch_features :: ctype where
  "ofp_switch_features = Struct [(''header'', ofp_header), (''datapath_id'', U64),
     (''n_buffers'', U32), (''n_tables'', U8), (''pad'', Array 3 U8), (''capabilities'', U32),
     (''actions'', U32), (''ports'', Array 0 ofp_phy_port)]"

definition ofp_port_status :: ctype where
  "ofp_port_status = Struct [(''header'', ofp_header), (''reason'', U8), (''pad'', Array 7 U8),
     (''desc'', ofp_phy_port)]"

definition ofp_port_mod :: ctype where
  "ofp_port_mod = Struct [(''header'', ofp_header), (''port_no'', U16), (''hw_addr'', Array 6 U8),
     (''config'', U32), (''mask'', U32), (''advertise'', U32), (''pad'', Array 4 U8)]"

definition ofp_packet_in :: ctype where
  "ofp_packet_in = Struct [(''header'', ofp_header), (''buffer_id'', U32), (''total_len'', U16),
     (''in_port'', U16), (''reason'', U8), (''pad'', U8), (''data'', Array 0 U8)]"

definition ofp_action_output :: ctype where
  "ofp_action_output = Struct [(''type'', U16), (''len'', U16), (''port'', U16),
     (''max_len'', U16)]"

definition ofp_action_vlan_vid :: ctype where
  "ofp_action_vlan_vid = Struct [(''type'', U16), (''len'', U16), (''vlan_vid'', U16),
     (''pad'', Array 2 U8)]"

definition ofp_action_vlan_pcp :: ctype where
  "ofp_action_vlan_pcp = Struct [(''type'', U16), (''len'', U16), (''vlan_pcp'', U8),
     (''pad'', Array 3 U8)]"

definition ofp_action_dl_addr :: ctype where
  "ofp_action_dl_addr = Struct [(''type'', U16), (''len'', U16), (''dl_addr'', Array 6 U8),
     (''pad'', Array 6 U8)]"

definition ofp_action_nw_addr :: ctype where
  "ofp_action_nw_addr = Struct [(''type'', U16), (''len'', U16), (''nw_addr'', U32)]"

definition ofp_action_tp_port :: ctype where
  "ofp_action_tp_port = Struct [(''type'', U16), (''len'', U16), (''tp_port'', U16),
     (''pad'', Array 2 U8)]"

definition ofp_action_nw_tos :: ctype where
  "ofp_action_nw_tos = Struct [(''type'', U16), (''len'', U16), (''nw_tos'', U8),
     (''pad'', Array 3 U8)]"

definition ofp_action_vendor_header :: ctype where
  "ofp_action_vendor_header = Struct [(''type'', U16), (''len'', U16), (''vendor'', U32)]"

definition ofp_action_header :: ctype where
  "ofp_action_header = Struct [(''type'', U16), (''len'', U16), (''pad'', Array 4 U8)]"

definition ofp_packet_out :: ctype where
  "ofp_packet_out = Struct [(''header'', ofp_header), (''buffer_id'', U32), (''in_port'', U16),
     (''actions_len'', U16), (''actions'', Array 0 ofp_action_header)]"

definition ofp_match :: ctype where
  "ofp_match = Struct [(''wildcards'', U32), (''in_port'', U16), (''dl_src'', Array 6 U8),
     (''dl_dst'', Array 6 U8), (''dl_vlan'', U16), (''dl_vlan_pcp'', U8), (''pad1'', Array 1 U8),
     (''dl_type'', U16), (''nw_tos'', U8), (''nw_proto'', U8), (''pad2'', Array 2 U8),
     (''nw_src'', U32), (''nw_dst'', U32), (''tp_src'', U16), (''tp_dst'', U16)]"

definition ofp_flow_mod :: ctype where
  "ofp_flow_mod = Struct [(''header'', ofp_header), (''match'', ofp_match), (''cookie'', U64),
     (''command'', U16), (''idle_timeout'', U16), (''hard_timeout'', U16), (''priority'', U16),
     (''buffer_id'', U32), (''out_port'', U16), (''flags'', U16),
     (''actions'', Array 0 ofp_action_header)]"

definition ofp_flow_removed :: ctype where
  "ofp_flow_removed = Struct [(''header'', ofp_header), (''match'', ofp_match), (''cookie'', U64),
     (''priority'', U16), (''reason'', U8), (''pad'', Array 1 U8), (''duration_sec'', U32),
     (''duration_nsec'', U32), (''idle_timeout'', U16), (''pad2'', Array 2 U8),
     (''packet_count'', U64), (''byte_count'', U64)]"

definition ofp_error_msg :: ctype where
  "ofp_error_msg = Struct [(''header'', ofp_header), (''type'', U16), (''code'', U16),
     (''data'', Array 0 U8)]"

definition ofp_stats_request :: ctype where
  "ofp_stats_request = Struct [(''header'', ofp_header), (''type'', U16), (''flags'', U16),
     (''body'', Array 0 U8)]"

definition ofp_stats_reply :: ctype where
  "ofp_stats_reply = Struct [(''header'', ofp_header), (''type'', U16), (''flags'', U16),
     (''body'', Array 0 U8)]"

definition ofp_desc_stats :: ctype where
  "ofp_desc_stats = Struct [(''mfr_desc'', Array 256 U8), (''hw_desc'', Array 256 U8),
     (''sw_desc'', Array 256 U8), (''serial_num'', Array 32 U8), (''dp_desc'', Array 256 U8)]"

definition ofp_flow_stats_request :: ctype where
  "ofp_flow_stats_request = Struct [(''match'', ofp_match), (''table_id'', U8), (''pad'', U8),
     (''out_port'', U16)]"

definition ofp_flow_stats :: ctype where
  "ofp_flow_stats = Struct [(''length'', U16), (''table_id'', U8), (''pad'', U8),
     (''match'', ofp_match), (''duration_sec'', U32), (''duration_nsec'', U32),
     (''priority'', U16), (''idle_timeout'', U16), (''hard_timeout'', U16), (''pad2'', Array 6 U8),
     (''cookie'', U64), (''packet_count'', U64), (''byte_count'', U64),
     (''actions'', Array 0 ofp_action_header)]"

definition ofp_aggregate_stats_request :: ctype where
  "ofp_aggregate_stats_request = Struct [(''match'', ofp_match), (''table_id'', U8), (''pad'', U8),
     (''out_port'', U16)]"

definition ofp_aggregate_stats_reply :: ctype where
  "ofp_aggregate_stats_reply = Struct [(''packet_count'', U64), (''byte_count'', U64),
     (''flow_count'', U32), (''pad'', Array 4 U8)]"

definition ofp_table_stats :: ctype where
  "ofp_table_stats = Struct [(''table_id'', U8), (''pad'', Array 3 U8), (''name'', Array 32 U8),
     (''wildcards'', U32), (''max_entries'', U32), (''active_count'', U32),
     (''lookup_count'', U64), (''matched_count'', U64)]"

definition ofp_port_stats_request :: ctype where
  "ofp_port_stats_request = Struct [(''port_no'', U16), (''pad'', Array 6 U8)]"

definition ofp_port_stats :: ctype where
  "ofp_port_stats = Struct [(''port_no'', U16), (''pad'', Array 6 U8), (''rx_packets'', U64),
     (''tx_packets'', U64), (''rx_bytes'', U64), (''tx_bytes'', U64), (''rx_dropped'', U64),
     (''tx_dropped'', U64), (''rx_errors'', U64), (''tx_errors'', U64), (''rx_frame_err'', U64),
     (''rx_over_err'', U64), (''rx_crc_err'', U64), (''collisions'', U64)]"

definition ofp_vendor_header :: ctype where
  "ofp_vendor_header = Struct [(''header'', ofp_header), (''vendor'', U32)]"

definition ofp_queue_prop_header :: ctype where
  "ofp_queue_prop_header = Struct [(''property'', U16), (''len'', U16), (''pad'', Array 4 U8)]"

definition ofp_queue_prop_min_rate :: ctype where
  "ofp_queue_prop_min_rate = Struct [(''prop_header'', ofp_queue_prop_header), (''rate'', U16),
     (''pad'', Array 6 U8)]"

definition ofp_packet_queue :: ctype where
  "ofp_packet_queue = Struct [(''queue_id'', U32), (''len'', U16), (''pad'', Array 2 U8),
     (''properties'', Array 0 ofp_queue_prop_header)]"

definition ofp_queue_get_config_request :: ctype where
  "ofp_queue_get_config_request = Struct [(''header'', ofp_header), (''port'', U16),
     (''pad'', Array 2 U8)]"

definition ofp_queue_get_config_reply :: ctype where
  "ofp_queue_get_config_reply = Struct [(''header'', ofp_header), (''port'', U16),
     (''pad'', Array 6 U8), (''queues'', Array 0 ofp_packet_queue)]"

definition ofp_action_enqueue :: ctype where
  "ofp_action_enqueue = Struct [(''type'', U16), (''len'', U16), (''port'', U16),
     (''pad'', Array 6 U8), (''queue_id'', U32)]"

definition ofp_queue_stats_request :: ctype where
  "ofp_queue_stats_request = Struct [(''port_no'', U16), (''pad'', Array 2 U8),
     (''queue_id'', U32)]"

definition ofp_queue_stats :: ctype where
  "ofp_queue_stats = Struct [(''port_no'', U16), (''pad'', Array 2 U8), (''queue_id'', U32),
     (''tx_bytes'', U64), (''tx_packets'', U64), (''tx_errors'', U64)]"

definition nicira_header :: ctype where
  "nicira_header = Struct [(''header'', ofp_header), (''vendor'', U32), (''subtype'', U32)]"

definition nx_role_request :: ctype where
  "nx_role_request = Struct [(''role'', U32)]"

definition ofp_wlan_header :: ctype where
  "ofp_wlan_header = Struct [(''header'', ofp_header), (''vendor'', U32), (''subtype'', U32)]"

definition ofp_wlan_msg :: ctype where
  "ofp_wlan_msg = Struct [(''staMacAddress'', Array 6 U8), (''apMacAddress'', Array 6 U8)]"

definition ofp_wlan_auth_msg :: ctype where
  "ofp_wlan_auth_msg = Struct [(''staMacAddress'', Array 6 U8), (''apMacAddress'', Array 6 U8),
     (''auth_alg'', U16)]"

definition ofp_wlan_assoc_msg :: ctype where
  "ofp_wlan_assoc_msg = Struct [(''staMacAddress'', Array 6 U8), (''apMacAddress'', Array 6 U8),
     (''aid'', U16), (''capability'', U16), (''listen_interval'', U16), (''pad1'', Array 2 U8),
     (''supported_rates'', Array 32 U8), (''supported_rates_len'', U32), (''qosinfo'', U8),
     (''pad2'', Array 3 U8)]"

definition ofp_wlan_sta :: ctype where
  "ofp_wlan_sta = Struct [(''staMacAddress'', Array 6 U8)]"

definition ofp_wlan_add_update_msg :: ctype where
  "ofp_wlan_add_update_msg = Struct [(''staMacAddress'', Array 6 U8), (''auth_alg'', U16),
     (''aid'', U16), (''capability'', U16), (''listen_interval'', U16), (''pad1'', Array 2 U8),
     (''supported_rates'', Array 32 U8), (''supported_rates_len'', U32), (''qosinfo'', U8),
     (''pad2'', Array 3 U8)]"

definition ofp_wlan_rssi :: ctype where
  "ofp_wlan_rssi = Struct [(''staMacAddress'', Array 6 U8), (''apMacAddress'', Array 6 U8),
     (''rssi'', U8)]"

definition ofp_action_iph :: ctype where
  "ofp_action_iph = Struct [(''subtype'', U32), (''tunnelEntry'', U32), (''tunnelExit'', U32)]"

definition ofp_nat_entry :: ctype where
  "ofp_nat_entry = Struct [(''staMacAddress'', Array 6 U8), (''pad'', Array 2 U8),
     (''nw_src'', U32), (''nw_dst'', U32), (''tp_src'', U16), (''tp_dst'', U16)]"

definition ofp_nat_port_entry :: ctype where
  "ofp_nat_port_entry = Struct [(''staMacAddress'', Array 6 U8), (''pad'', Array 2 U8),
     (''nw_src'', U32), (''nw_dst'', U32), (''tp_src'', U16), (''tp_dst'', U16), (''tp_new'', U16),
     (''pad2'', Array 2 U8)]"

text \<open>The \<open>OFP_ASSERT\<close> lines of the headers.\<close>

definition ofp_asserts :: "(ctype \<times> nat) list" where
  "ofp_asserts = [(ofp_header, 8), (ofp_switch_config, 12), (ofp_phy_port, 48),
     (ofp_switch_features, 32), (ofp_port_status, 64), (ofp_port_mod, 32), (ofp_packet_in, 20),
     (ofp_action_output, 8), (ofp_action_vlan_vid, 8), (ofp_action_vlan_pcp, 8),
     (ofp_action_dl_addr, 16), (ofp_action_nw_addr, 8), (ofp_action_tp_port, 8),
     (ofp_action_nw_tos, 8), (ofp_action_vendor_header, 8), (ofp_action_header, 8),
     (ofp_packet_out, 16), (ofp_match, 40), (ofp_flow_mod, 72), (ofp_flow_removed, 88),
     (ofp_error_msg, 12), (ofp_stats_request, 12), (ofp_stats_reply, 12), (ofp_desc_stats, 1056),
     (ofp_flow_stats_request, 44), (ofp_flow_stats, 88), (ofp_aggregate_stats_request, 44),
     (ofp_aggregate_stats_reply, 24), (ofp_table_stats, 64), (ofp_port_stats_request, 8),
     (ofp_port_stats, 104), (ofp_vendor_header, 12), (ofp_queue_prop_header, 8),
     (ofp_queue_prop_min_rate, 16), (ofp_packet_queue, 8), (ofp_queue_get_config_request, 12),
     (ofp_queue_get_config_reply, 16), (ofp_action_enqueue, 16), (ofp_queue_stats_request, 8),
     (ofp_queue_stats, 32), (nicira_header, 16), (nx_role_request, 4), (ofp_wlan_header, 16),
     (ofp_wlan_msg, 12), (ofp_wlan_auth_msg, 14), (ofp_wlan_assoc_msg, 60), (ofp_wlan_sta, 6),
     (ofp_wlan_add_update_msg, 56), (ofp_wlan_rssi, 13), (ofp_action_iph, 12), (ofp_nat_entry, 20),
     (ofp_nat_port_entry, 24)]"

section \<open>Enumerations are unambiguous\<close>

interpretation ofp_type_enum: c_enum ofp_type_vals
proof
  fix c show "c \<in> fst ` set ofp_type_vals" by (cases c) (simp_all add: ofp_type_vals_def)
qed (simp_all add: ofp_type_vals_def)

interpretation ofp_action_type_enum: c_enum ofp_action_type_vals
proof
  fix c show "c \<in> fst ` set ofp_action_type_vals" by (cases c) (simp_all add: ofp_action_type_vals_def)
qed (simp_all add: ofp_action_type_vals_def)

interpretation ofp_flow_mod_command_enum: c_enum ofp_flow_mod_command_vals
proof
  fix c show "c \<in> fst ` set ofp_flow_mod_command_vals" by (cases c) (simp_all add: ofp_flow_mod_command_vals_def)
qed (simp_all add: ofp_flow_mod_command_vals_def)

interpretation ofp_stats_types_enum: c_enum ofp_stats_types_vals
proof
  fix c show "c \<in> fst ` set ofp_stats_types_vals" by (cases c) (simp_all add: ofp_stats_types_vals_def)
qed (simp_all add: ofp_stats_types_vals_def)

interpretation nx_subtype_enum: c_enum nx_subtype_vals
proof
  fix c show "c \<in> fst ` set nx_subtype_vals" by (cases c) (simp_all add: nx_subtype_vals_def)
qed (simp_all add: nx_subtype_vals_def)

interpretation exp_type_enum: c_enum exp_type_vals
proof
  fix c show "c \<in> fst ` set exp_type_vals" by (cases c) (simp_all add: exp_type_vals_def)
qed (simp_all add: exp_type_vals_def)

interpretation ofp_vendor_subtype_enum: c_enum ofp_vendor_subtype_vals
proof
  fix c show "c \<in> fst ` set ofp_vendor_subtype_vals" by (cases c) (simp_all add: ofp_vendor_subtype_vals_def)
qed (simp_all add: ofp_vendor_subtype_vals_def)

lemmas struct_defs =
  ofp_header_def ofp_switch_config_def ofp_phy_port_def ofp_switch_features_def
  ofp_port_status_def ofp_port_mod_def ofp_packet_in_def ofp_action_output_def
  ofp_action_vlan_vid_def ofp_action_vlan_pcp_def ofp_action_dl_addr_def ofp_action_nw_addr_def
  ofp_action_tp_port_def ofp_action_nw_tos_def ofp_action_vendor_header_def ofp_action_header_def
  ofp_packet_out_def ofp_match_def ofp_flow_mod_def ofp_flow_removed_def
  ofp_error_msg_def ofp_stats_request_def ofp_stats_reply_def ofp_desc_stats_def
  ofp_flow_stats_request_def ofp_flow_stats_def ofp_aggregate_stats_request_def ofp_aggregate_stats_reply_def
  ofp_table_stats_def ofp_port_stats_request_def ofp_port_stats_def ofp_vendor_header_def
  ofp_queue_prop_header_def ofp_queue_prop_min_rate_def ofp_packet_queue_def ofp_queue_get_config_request_def
  ofp_queue_get_config_reply_def ofp_action_enqueue_def ofp_queue_stats_request_def ofp_queue_stats_def
  nicira_header_def nx_role_request_def ofp_wlan_header_def ofp_wlan_msg_def
  ofp_wlan_auth_msg_def ofp_wlan_assoc_msg_def ofp_wlan_sta_def ofp_wlan_add_update_msg_def
  ofp_wlan_rssi_def ofp_action_iph_def ofp_nat_entry_def ofp_nat_port_entry_def

section \<open>Offsets of the members\<close>

text \<open>The offsets that the handlers use, computed once from the layout.\<close>

lemma offsets_ofp_header [layout_simps]:
  "sizeof ofp_header = 8"
  "offsetof ofp_header [''version''] = 0"
  "offsetof ofp_header [''type''] = 1"
  "offsetof ofp_header [''length''] = 2"
  "offsetof ofp_header [''xid''] = 4"
  by (simp_all add: offsetof_def round_up_def numeral_2_eq_2 [symmetric] ofp_header_def)

lemma offsets_ofp_hello [layout_simps]:
  "sizeof ofp_hello = 8"
  "offsetof ofp_hello [''header'', ''version''] = 0"
  "offsetof ofp_hello [''header'', ''type''] = 1"
  "offsetof ofp_hello [''header'', ''length''] = 2"
  "offsetof ofp_hello [''header'', ''xid''] = 4"
  by (simp_all add: offsetof_def round_up_def numeral_2_eq_2 [symmetric] ofp_hello_def ofp_header_def)

lemma offsets_ofp_switch_features [layout_simps]:
  "sizeof ofp_switch_features = 32"
  "offsetof ofp_switch_features [''header'', ''version''] = 0"
  "offsetof ofp_switch_features [''header'', ''type''] = 1"
  "offsetof ofp_switch_features [''header'', ''length''] = 2"
  "offsetof ofp_switch_features [''header'', ''xid''] = 4"
  "offsetof ofp_switch_features [''datapath_id''] = 8"
  "offsetof ofp_switch_features [''n_buffers''] = 16"
  "offsetof ofp_switch_features [''n_tables''] = 20"
  "offsetof ofp_switch_features [''capabilities''] = 24"
  "offsetof ofp_switch_features [''actions''] = 28"
  by (simp_all add: offsetof_def round_up_def numeral_2_eq_2 [symmetric] ofp_switch_features_def ofp_header_def ofp_phy_port_def)

lemma offsets_ofp_switch_config [layout_simps]:
  "sizeof ofp_switch_config = 12"
  "offsetof ofp_switch_config [''header'', ''version''] = 0"
  "offsetof ofp_switch_config [''header'', ''type''] = 1"
  "offsetof ofp_switch_config [''header'', ''length''] = 2"
  "offsetof ofp_switch_config [''header'', ''xid''] = 4"
  "offsetof ofp_switch_config [''flags''] = 8"
  "offsetof ofp_switch_config [''miss_send_len''] = 10"
  by (simp_all add: offsetof_def round_up_def numeral_2_eq_2 [symmetric] ofp_switch_config_def ofp_header_def)

lemma offsets_ofp_stats_request [layout_simps]:
  "sizeof ofp_stats_request = 12"
  "offsetof ofp_stats_request [''type''] = 8"
  by (simp_all add: offsetof_def round_up_def numeral_2_eq_2 [symmetric] ofp_stats_request_def ofp_header_def)

lemma offsets_ofp_stats_reply [layout_simps]:
  "sizeof ofp_stats_reply = 12"
  "offsetof ofp_stats_reply [''header'', ''version''] = 0"
  "offsetof ofp_stats_reply [''header'', ''type''] = 1"
  "offsetof ofp_stats_reply [''header'', ''length''] = 2"
  "offsetof ofp_stats_reply [''header'', ''xid''] = 4"
  "offsetof ofp_stats_reply [''type''] = 8"
  "offsetof ofp_stats_reply [''flags''] = 10"
  by (simp_all add: offsetof_def round_up_def numeral_2_eq_2 [symmetric] ofp_stats_reply_def ofp_header_def)

lemma offsets_ofp_desc_stats [layout_simps]:
  "sizeof ofp_desc_stats = 1056"
  "offsetof ofp_desc_stats [''mfr_desc''] = 0"
  "offsetof ofp_desc_stats [''hw_desc''] = 256"
  "offsetof ofp_desc_stats [''sw_desc''] = 512"
  "offsetof ofp_desc_stats [''dp_desc''] = 800"
  "offsetof ofp_desc_stats [''serial_num''] = 768"
  by (simp_all add: offsetof_def round_up_def numeral_2_eq_2 [symmetric] ofp_desc_stats_def)

lemma offsets_ofp_vendor_header [layout_simps]:
  "sizeof ofp_vendor_header = 12"
  "offsetof ofp_vendor_header [''vendor''] = 8"
  by (simp_all add: offsetof_def round_up_def numeral_2_eq_2 [symmetric] ofp_vendor_header_def ofp_header_def)

lemma offsets_nicira_header [layout_simps]:
  "sizeof nicira_header = 16"
  "offsetof nicira_header [''header'', ''version''] = 0"
  "offsetof nicira_header [''header'', ''type''] = 1"
  "offsetof nicira_header [''header'', ''length''] = 2"
  "offsetof nicira_header [''header'', ''xid''] = 4"
  "offsetof nicira_header [''vendor''] = 8"
  "offsetof nicira_header [''subtype''] = 12"
  by (simp_all add: offsetof_def round_up_def numeral_2_eq_2 [symmetric] nicira_header_def ofp_header_def)

lemma offsets_nx_role_request [layout_simps]:
  "sizeof nx_role_request = 4"
  "offsetof nx_role_request [''role''] = 0"
  by (simp_all add: offsetof_def round_up_def numeral_2_eq_2 [symmetric] nx_role_request_def)

lemma offsets_ofp_wlan_header [layout_simps]:
  "sizeof ofp_wlan_header = 16"
  "offsetof ofp_wlan_header [''header'', ''version''] = 0"
  "offsetof ofp_wlan_header [''header'', ''type''] = 1"
  "offsetof ofp_wlan_header [''header'', ''length''] = 2"
  "offsetof ofp_wlan_header [''header'', ''xid''] = 4"
  "offsetof ofp_wlan_header [''vendor''] = 8"
  "offsetof ofp_wlan_header [''subtype''] = 12"
  by (simp_all add: offsetof_def round_up_def numeral_2_eq_2 [symmetric] ofp_wlan_header_def ofp_header_def)

lemma offsets_ofp_wlan_msg [layout_simps]:
  "sizeof ofp_wlan_msg = 12"
  "offsetof ofp_wlan_msg [''staMacAddress''] = 0"
  "offsetof ofp_wlan_msg [''apMacAddress''] = 6"
  by (simp_all add: offsetof_def round_up_def numeral_2_eq_2 [symmetric] ofp_wlan_msg_def)

lemma offsets_ofp_wlan_auth_msg [layout_simps]:
  "sizeof ofp_wlan_auth_msg = 14"
  "offsetof ofp_wlan_auth_msg [''staMacAddress''] = 0"
  "offsetof ofp_wlan_auth_msg [''apMacAddress''] = 6"
  "offsetof ofp_wlan_auth_msg [''auth_alg''] = 12"
  by (simp_all add: offsetof_def round_up_def numeral_2_eq_2 [symmetric] ofp_wlan_auth_msg_def)

lemma offsets_ofp_wlan_assoc_msg [layout_simps]:
  "sizeof ofp_wlan_assoc_msg = 60"
  "offsetof ofp_wlan_assoc_msg [''staMacAddress''] = 0"
  "offsetof ofp_wlan_assoc_msg [''apMacAddress''] = 6"
  "offsetof ofp_wlan_assoc_msg [''aid''] = 12"
  "offsetof ofp_wlan_assoc_msg [''capability''] = 14"
  "offsetof ofp_wlan_assoc_msg [''listen_interval''] = 16"
  "offsetof ofp_wlan_assoc_msg [''supported_rates''] = 20"
  "offsetof ofp_wlan_assoc_msg [''supported_rates_len''] = 52"
  "offsetof ofp_wlan_assoc_msg [''qosinfo''] = 56"
  by (simp_all add: offsetof_def round_up_def numeral_2_eq_2 [symmetric] ofp_wlan_assoc_msg_def)

lemma offsets_ofp_wlan_sta [layout_simps]:
  "sizeof ofp_wlan_sta = 6"
  "offsetof ofp_wlan_sta [''staMacAddress''] = 0"
  by (simp_all add: offsetof_def round_up_def numeral_2_eq_2 [symmetric] ofp_wlan_sta_def)

lemma offsets_ofp_wlan_add_update_msg [layout_simps]:
  "sizeof ofp_wlan_add_update_msg = 56"
  "offsetof ofp_wlan_add_update_msg [''staMacAddress''] = 0"
  "offsetof ofp_wlan_add_update_msg [''auth_alg''] = 6"
  "offsetof ofp_wlan_add_update_msg [''aid''] = 8"
  "offsetof ofp_wlan_add_update_msg [''capability''] = 10"
  "offsetof ofp_wlan_add_update_msg [''listen_interval''] = 12"
  "offsetof ofp_wlan_add_update_msg [''supported_rates''] = 16"
  "offsetof ofp_wlan_add_update_msg [''supported_rates_len''] = 48"
  "offsetof ofp_wlan_add_update_msg [''qosinfo''] = 52"
  by (simp_all add: offsetof_def round_up_def numeral_2_eq_2 [symmetric] ofp_wlan_add_update_msg_def)

lemma offsets_ofp_wlan_rssi [layout_simps]:
  "sizeof ofp_wlan_rssi = 13"
  "offsetof ofp_wlan_rssi [''staMacAddress''] = 0"
  "offsetof ofp_wlan_rssi [''apMacAddress''] = 6"
  "offsetof ofp_wlan_rssi [''rssi''] = 12"
  by (simp_all add: offsetof_def round_up_def numeral_2_eq_2 [symmetric] ofp_wlan_rssi_def)

lemma offsets_ofp_action_header [layout_simps]:
  "sizeof ofp_action_header = 8"
  "offsetof ofp_action_header [''type''] = 0"
  "offsetof ofp_action_header [''len''] = 2"
  by (simp_all add: offsetof_def round_up_def numeral_2_eq_2 [symmetric] ofp_action_header_def)

lemma offsets_ofp_action_vendor_header [layout_simps]:
  "sizeof ofp_action_vendor_header = 8"
  "offsetof ofp_action_vendor_header [''vendor''] = 4"
  by (simp_all add: offsetof_def round_up_def numeral_2_eq_2 [symmetric] ofp_action_vendor_header_def)

lemma offsets_ofp_action_iph [layout_simps]:
  "sizeof ofp_action_iph = 12"
  "offsetof ofp_action_iph [''subtype''] = 0"
  "offsetof ofp_action_iph [''tunnelEntry''] = 4"
  "offsetof ofp_action_iph [''tunnelExit''] = 8"
  by (simp_all add: offsetof_def round_up_def numeral_2_eq_2 [symmetric] ofp_action_iph_def)

lemma offsets_ofp_flow_mod [layout_simps]:
  "sizeof ofp_flow_mod = 72"
  "offsetof ofp_flow_mod [''match'', ''dl_dst''] = 20"
  "offsetof ofp_flow_mod [''command''] = 56"
  "offsetof ofp_flow_mod [''actions''] = 72"
  by (simp_all add: offsetof_def round_up_def numeral_2_eq_2 [symmetric] ofp_flow_mod_def ofp_header_def ofp_match_def ofp_action_header_def)

lemma offsets_ofp_nat_entry [layout_simps]:
  "sizeof ofp_nat_entry = 20"
  "offsetof ofp_nat_entry [''staMacAddress''] = 0"
  "offsetof ofp_nat_entry [''nw_src''] = 8"
  "offsetof ofp_nat_entry [''nw_dst''] = 12"
  "offsetof ofp_nat_entry [''tp_src''] = 16"
  "offsetof ofp_nat_entry [''tp_dst''] = 18"
  by (simp_all add: offsetof_def round_up_def numeral_2_eq_2 [symmetric] ofp_nat_entry_def)

lemma offsets_ofp_nat_port_entry [layout_simps]:
  "sizeof ofp_nat_port_entry = 24"
  "offsetof ofp_nat_port_entry [''staMacAddress''] = 0"
  "offsetof ofp_nat_port_entry [''nw_src''] = 8"
  "offsetof ofp_nat_port_entry [''nw_dst''] = 12"
  "offsetof ofp_nat_port_entry [''tp_src''] = 16"
  "offsetof ofp_nat_port_entry [''tp_dst''] = 18"
  "offsetof ofp_nat_port_entry [''tp_new''] = 20"
  by (simp_all add: offsetof_def round_up_def numeral_2_eq_2 [symmetric] ofp_nat_port_entry_def)

section \<open>Properties\<close>

text \<open>Every compile-time assertion on the size of a message struct holds: the members, placed by
  the alignment rules of the machine, give the asserted sizes.\<close>

theorem openflow_sizes: "map (sizeof \<circ> fst) ofp_asserts = map snd ofp_asserts"
  by (simp add: ofp_asserts_def struct_defs round_up_def numeral_2_eq_2 [symmetric])

text \<open>The layout of every struct is sound: a member, or a member of a member, lies inside the
  struct at a multiple of its alignment, and members under different names do not overlap.\<close>

theorem layout_sound:
  assumes "locate (Struct fs) (n # p) = Some (i, t)" "locate (Struct fs) (m # q) = Some (j, u)" "n \<noteq> m"
  shows "i + sizeof t \<le> sizeof (Struct fs) \<and> alignof t dvd i \<and> (i + sizeof t \<le> j \<or> j + sizeof u \<le> i)"
  using locate_within [OF assms(1)] locate_aligned [OF assms(1)] locate_disjoint [OF assms] by simp

theorem layout_sound_witness:
  "\<exists>fs i t j u. ofp_flow_mod = Struct fs \<and> locate (Struct fs) [''match'', ''dl_dst''] = Some (i, t) \<and>
     locate (Struct fs) [''command''] = Some (j, u) \<and>
     i + sizeof t \<le> sizeof (Struct fs) \<and> alignof t dvd i \<and> (i + sizeof t \<le> j \<or> j + sizeof u \<le> i)"
proof -
  have "locate ofp_flow_mod [''match'', ''dl_dst''] = Some (20, Array 6 U8)"
    "locate ofp_flow_mod [''command''] = Some (56, U16)" by code_simp+
  from layout_sound [OF this [unfolded ofp_flow_mod_def]] this [unfolded ofp_flow_mod_def]
  show ?thesis unfolding ofp_flow_mod_def by blast
qed

text \<open>An announcement of a translated flow has the same layout at the gateway, which reads
  \<open>struct ofp_nat_entry\<close>, and at the access points, which read and write
  \<open>struct ofp_nat_port_entry\<close>: the members they share are at the same offsets with the same types.\<close>

theorem nat_entries_compatible:
  "map (\<lambda>n. locate ofp_nat_port_entry [n]) [''staMacAddress'', ''pad'', ''nw_src'', ''nw_dst'', ''tp_src'', ''tp_dst''] =
   map (\<lambda>n. locate ofp_nat_entry [n]) [''staMacAddress'', ''pad'', ''nw_src'', ''nw_dst'', ''tp_src'', ''tp_dst''] \<and>
   list_all (\<lambda>n. locate ofp_nat_entry [n] \<noteq> None)
     [''staMacAddress'', ''pad'', ''nw_src'', ''nw_dst'', ''tp_src'', ''tp_dst'']"
  by code_simp

end
