(* ===== verification/Of_Channel.thy ===== *)
theory Of_Channel
  imports Openflow
begin

text \<open>
  The OpenFlow channel to the controller, which gatewayNAT.c and controller_interface.c contain in
  the same words: the connection, sending and receiving, and the handlers of the standard messages.
  \<open>controller_connection\<close> is the part of the struct that both programs have; the access point
  extends it.

  The operating system is a parameter: \<open>of_env\<close> says whether an allocation succeeds, what each
  \<open>send\<close> returns (by the number of earlier calls) and what \<open>rand\<close> returns; \<open>conn_env\<close> and
  \<open>rx_env\<close> hold the results of the calls that open the connection and receive a message.
  \<open>sent\<close> records what was passed to \<open>send\<close> and its result.

  Shown here: the bytes of every reply, which requests get one, that replies carry the transaction
  id of their request and their own length, and the invariant of the error counter.
\<close>

section \<open>State\<close>

record of_env = env +
  send_ret :: "nat \<Rightarrow> int"
  rand_ret :: u32

record controller_connection =
  sock :: int
  error :: int
  dpid :: u64
  miss_send_len :: u16
  conn_mac :: "mac option"
  sent :: "(buf \<times> int) list"

definition connection_init :: controller_connection where
  "connection_init = \<lparr>sock = -1, error = 0, dpid = 0, miss_send_len = 0, conn_mac = None, sent = []\<rparr>"

section \<open>Sending\<close>

definition after_send :: "int \<Rightarrow> 'c controller_connection_scheme \<Rightarrow> 'c controller_connection_scheme" where
  "after_send t c =
     (if t = -1 then
        (let c = c\<lparr>error := error c + 1\<rparr> in
         if error c = 10 then c\<lparr>error := 0, sock := -1\<rparr> else c)
      else c)"

definition controller_send :: "'e of_env_scheme \<Rightarrow> buf \<Rightarrow> nat \<Rightarrow> 'c controller_connection_scheme \<Rightarrow>
    'c controller_connection_scheme res" where
  "controller_send e msg n c =
     (if sock c \<noteq> -1 then
        bindE (rd msg 0 n) (\<lambda>bytes.
        let t = send_ret e (length (sent c))
        in Inr (after_send t (c\<lparr>sent := sent c @ [(bytes, t)]\<rparr>)))
      else Inr c)"

text \<open>\<open>controller_send(msg, ntohs(rep->header.length))\<close>\<close>

definition send_whole :: "'e of_env_scheme \<Rightarrow> buf \<Rightarrow> 'c controller_connection_scheme \<Rightarrow>
    'c controller_connection_scheme res" where
  "send_whole e msg c = bindE (ld16 msg (offsetof ofp_header [''length''])) (\<lambda>l.
     controller_send e msg (unat (ntohs l)) c)"

section \<open>Handlers\<close>

abbreviation ofpt :: "ofp_type \<Rightarrow> byte" where
  "ofpt c \<equiv> word_of_nat (enum_val ofp_type_vals c)"

definition htonll :: "u64 \<Rightarrow> u64" where
  "htonll n = (if htonl 1 = 1 then n
     else push_bit 32 (ucast (htonl (ucast n))) OR ucast (htonl (ucast (drop_bit 32 n))))"

definition oh_xid :: "buf \<Rightarrow> u32 res" where
  "oh_xid oh = ld32 oh (offsetof ofp_header [''xid''])"

definition handle_hello :: "'e of_env_scheme \<Rightarrow> buf \<Rightarrow> 'c controller_connection_scheme \<Rightarrow>
    'c controller_connection_scheme res" where
  "handle_hello e hello c =
     (if \<not> calloc_ok e (sizeof ofp_hello) then Inr c
      else bindE (oh_xid hello) (\<lambda>xid.
        bindE (puts (zeroed (sizeof ofp_hello))
          [(offsetof ofp_hello [''header'', ''version''], [OFP_VERSION]),
           (offsetof ofp_hello [''header'', ''type''], [ofpt OFPT_HELLO]),
           (offsetof ofp_hello [''header'', ''length''], bytes16 (htons (word_of_nat (sizeof Pointer)))),
           (offsetof ofp_hello [''header'', ''xid''], bytes32 xid)]) (\<lambda>msg.
        controller_send e msg (sizeof ofp_hello) c)))"

definition handle_feature_request :: "'e of_env_scheme \<Rightarrow> buf \<Rightarrow> 'c controller_connection_scheme \<Rightarrow>
    'c controller_connection_scheme res" where
  "handle_feature_request e features_req c =
     (if \<not> calloc_ok e (sizeof ofp_switch_features) then Inr c
      else bindE (oh_xid features_req) (\<lambda>xid.
        bindE (puts (zeroed (sizeof ofp_switch_features))
          [(offsetof ofp_switch_features [''header'', ''type''], [ofpt OFPT_FEATURES_REPLY]),
           (offsetof ofp_switch_features [''header'', ''version''], [OFP_VERSION]),
           (offsetof ofp_switch_features [''header'', ''xid''], bytes32 xid),
           (offsetof ofp_switch_features [''header'', ''length''],
              bytes16 (htons (word_of_nat (sizeof ofp_switch_features)))),
           (offsetof ofp_switch_features [''datapath_id''], bytes64 (htonll (dpid c))),
           (offsetof ofp_switch_features [''n_buffers''], bytes32 (htonl 0)),
           (offsetof ofp_switch_features [''n_tables''], [0]),
           (offsetof ofp_switch_features [''capabilities''], bytes32 (htonl 0)),
           (offsetof ofp_switch_features [''actions''], bytes32 (htonl 0))]) (\<lambda>msg.
        send_whole e msg c)))"

definition handle_set_config :: "buf \<Rightarrow> 'c controller_connection_scheme \<Rightarrow>
    'c controller_connection_scheme res" where
  "handle_set_config set_config c =
     bindE (ld16 set_config (offsetof ofp_switch_config [''miss_send_len''])) (\<lambda>l.
       Inr (c\<lparr>miss_send_len := ntohs l\<rparr>))"

definition handle_barrier_request :: "'e of_env_scheme \<Rightarrow> buf \<Rightarrow> 'c controller_connection_scheme \<Rightarrow>
    'c controller_connection_scheme res" where
  "handle_barrier_request e barrier_req c =
     (if \<not> calloc_ok e (sizeof ofp_header) then Inr c
      else bindE (oh_xid barrier_req) (\<lambda>xid.
        bindE (puts (zeroed (sizeof ofp_header))
          [(offsetof ofp_header [''type''], [ofpt OFPT_BARRIER_REPLY]),
           (offsetof ofp_header [''version''], [OFP_VERSION]),
           (offsetof ofp_header [''xid''], bytes32 xid),
           (offsetof ofp_header [''length''], bytes16 (htons (word_of_nat (sizeof ofp_header))))]) (\<lambda>msg.
        send_whole e msg c)))"

definition handle_get_config_request :: "'e of_env_scheme \<Rightarrow> buf \<Rightarrow> 'c controller_connection_scheme \<Rightarrow>
    'c controller_connection_scheme res" where
  "handle_get_config_request e get_config_req c =
     (if \<not> calloc_ok e (sizeof ofp_switch_config) then Inr c
      else bindE (oh_xid get_config_req) (\<lambda>xid.
        bindE (puts (zeroed (sizeof ofp_switch_config))
          [(offsetof ofp_switch_config [''header'', ''type''], [ofpt OFPT_GET_CONFIG_REPLY]),
           (offsetof ofp_switch_config [''header'', ''version''], [OFP_VERSION]),
           (offsetof ofp_switch_config [''header'', ''xid''], bytes32 xid),
           (offsetof ofp_switch_config [''header'', ''length''],
              bytes16 (htons (word_of_nat (sizeof ofp_switch_config)))),
           (offsetof ofp_switch_config [''flags''], bytes16 (htons OFPC_FRAG_NORMAL)),
           (offsetof ofp_switch_config [''miss_send_len''], bytes16 (htons (miss_send_len c)))]) (\<lambda>msg.
        send_whole e msg c)))"

text \<open>The description is laid over the message after the common header, not after the statistics
  header: \<open>desc_at\<close> are the offsets the code clears.\<close>

definition desc_at :: "string \<Rightarrow> nat" where
  "desc_at f = sizeof ofp_header + offsetof ofp_desc_stats [f]"

definition handle_stats_request :: "'e of_env_scheme \<Rightarrow> buf \<Rightarrow> 'c controller_connection_scheme \<Rightarrow>
    'c controller_connection_scheme res" where
  "handle_stats_request e oh c =
     bindE (ld16 oh (offsetof ofp_stats_request [''type''])) (\<lambda>ty.
     case enum_of ofp_stats_types_vals (unat ty) of
       Some OFPST_DESC \<Rightarrow>
         (let size = sizeof ofp_stats_reply + sizeof ofp_desc_stats in
          if \<not> calloc_ok e size then Inr c
          else bindE (oh_xid oh) (\<lambda>xid.
            bindE (puts (zeroed size)
              [(offsetof ofp_stats_reply [''header'', ''type''], [ofpt OFPT_STATS_REPLY]),
               (offsetof ofp_stats_reply [''header'', ''version''], [OFP_VERSION]),
               (offsetof ofp_stats_reply [''header'', ''xid''], bytes32 xid),
               (offsetof ofp_stats_reply [''header'', ''length''], bytes16 (htons (word_of_nat size))),
               (offsetof ofp_stats_reply [''type''],
                  bytes16 (htons (word_of_nat (enum_val ofp_stats_types_vals OFPST_DESC)))),
               (offsetof ofp_stats_reply [''flags''], bytes16 0),
               (desc_at ''mfr_desc'', zeroed 256),
               (desc_at ''hw_desc'', zeroed 256),
               (desc_at ''sw_desc'', zeroed 256),
               (desc_at ''dp_desc'', zeroed 256),
               (desc_at ''serial_num'', zeroed 32)]) (\<lambda>msg.
            send_whole e msg c)))
     | _ \<Rightarrow> Inr c)"

text \<open>The part of \<open>handle_vendor\<close> for messages of the vendor Nicira.\<close>

definition handle_nicira :: "'e of_env_scheme \<Rightarrow> buf \<Rightarrow> 'c controller_connection_scheme \<Rightarrow>
    'c controller_connection_scheme res" where
  "handle_nicira e oh c =
     bindE (ld32 oh (offsetof nicira_header [''subtype''])) (\<lambda>sub.
     case enum_of nx_subtype_vals (unat (ntohl sub)) of
       Some NXT_ROLE_REQUEST \<Rightarrow>
         (let size = sizeof nicira_header + sizeof nx_role_request in
          if \<not> calloc_ok e size then Inr c
          else bindE (oh_xid oh) (\<lambda>xid.
            bindE (ld32 oh (sizeof nicira_header + offsetof nx_role_request [''role''])) (\<lambda>role.
            bindE (puts (zeroed size)
              [(offsetof nicira_header [''header'', ''version''], [OFP_VERSION]),
               (offsetof nicira_header [''header'', ''type''], [ofpt OFPT_VENDOR]),
               (offsetof nicira_header [''header'', ''xid''], bytes32 xid),
               (offsetof nicira_header [''header'', ''length''], bytes16 (htons (word_of_nat size))),
               (offsetof nicira_header [''vendor''], bytes32 (htonl NX_VENDOR_ID)),
               (offsetof nicira_header [''subtype''],
                  bytes32 (htonl (word_of_nat (enum_val nx_subtype_vals NXT_ROLE_REPLY)))),
               (sizeof nicira_header + offsetof nx_role_request [''role''], bytes32 role)]) (\<lambda>msg.
            send_whole e msg c))))
     | _ \<Rightarrow> Inr c)"

text \<open>The request is answered with a copy of itself, under the type of a reply; the whole length that
  its header claims is copied.\<close>

definition handle_echo_request :: "'e of_env_scheme \<Rightarrow> buf \<Rightarrow> 'c controller_connection_scheme \<Rightarrow>
    'c controller_connection_scheme res" where
  "handle_echo_request e echo_req c =
     bindE (wr echo_req (offsetof ofp_header [''type'']) [ofpt OFPT_ECHO_REPLY]) (\<lambda>echo_req.
     bindE (ld16 echo_req (offsetof ofp_header [''length''])) (\<lambda>l.
     if \<not> calloc_ok e (unat (ntohs l)) then Inr c
     else bindE (rd echo_req 0 (unat (ntohs l))) (\<lambda>bytes.
       bindE (wr (zeroed (unat (ntohs l))) 0 bytes) (\<lambda>msg.
       send_whole e msg c))))"

section \<open>Opening and receiving\<close>

text \<open>\<open>setsockopt\<close> and \<open>fcntl\<close> results are not used by the code. \<open>connect_ret\<close> and \<open>in_progress\<close> are
  the result of \<open>connect\<close> and whether \<open>errno\<close> is \<open>EINPROGRESS\<close>; \<open>perm_addr\<close> is the permanent
  address that the \<open>ioctl\<close> reports.\<close>

record conn_env =
  socket_ret :: int
  connect_ret :: int
  in_progress :: bool
  select_ret :: int
  writable :: bool
  so_error :: int
  ioctl_ret :: int
  perm_addr :: mac

definition ethtool_perm_addr :: ctype where
  "ethtool_perm_addr = Struct [(''cmd'', U32), (''size'', U32), (''data'', Array 0 U8)]"

definition dpid_of :: "mac \<Rightarrow> u64" where
  "dpid_of m = foldl (\<lambda>d b. ucast b OR push_bit 8 d) 0 (mac_bytes m)"

definition conn_open :: "'e of_env_scheme \<Rightarrow> conn_env \<Rightarrow> 'c controller_connection_scheme \<Rightarrow>
    (int \<times> 'c controller_connection_scheme) res" where
  "conn_open e ce c =
     (let c = c\<lparr>sock := socket_ret ce\<rparr> in
      if sock c < 0 then Inr (1, c)
      else if connect_ret ce < 0 then
        if in_progress ce then
          if select_ret ce < 0 then Inl (Exit 1)
          else if writable ce then
            if so_error ce \<noteq> 0 then Inr (1, c)
            else if \<not> calloc_ok e (sizeof ethtool_perm_addr + 32) then Inl NullDeref
            else if ioctl_ret ce < 0 then Inr (1, c)
            else if \<not> calloc_ok e 6 then Inr (1, c\<lparr>conn_mac := None\<rparr>)
            else Inr (0, c\<lparr>conn_mac := Some (perm_addr ce), dpid := dpid_of (perm_addr ce)\<rparr>)
          else Inr (0, c)
        else Inr (1, c)
      else Inr (0, c))"

definition controller_conn_open :: "'e of_env_scheme \<Rightarrow> conn_env \<Rightarrow> 'c controller_connection_scheme \<Rightarrow>
    'c controller_connection_scheme res" where
  "controller_conn_open e ce c =
     (if sock c = -1 then
        bindE (conn_open e ce c) (\<lambda>(r, c). Inr (if r \<noteq> 0 then c\<lparr>sock := -1\<rparr> else c))
      else Inr c)"

text \<open>A \<open>recv\<close> of \<open>n\<close> bytes fails or returns at most \<open>n\<close> bytes (none when the peer closed).
  \<open>rx_str\<close> is what the stack held in \<open>char str[100]\<close> before.\<close>

datatype recv_result = Recv_fails | Recv_bytes buf

record rx_env =
  rx_select :: int
  rx_ready :: bool
  rx_header :: recv_result
  rx_body :: recv_result
  rx_str :: buf

definition STR_LEN :: nat where
  "STR_LEN = 100"

text \<open>\<open>controller_receive\<close> up to the call of \<open>process_controller_msg\<close>: the message buffer, if a
  message was received.\<close>

definition receive_msg :: "rx_env \<Rightarrow> 'c controller_connection_scheme \<Rightarrow>
    (buf option \<times> 'c controller_connection_scheme) res" where
  "receive_msg r c =
     (if sock c \<noteq> -1 then
        if rx_select r < 0 then Inl (Exit 1)
        else if rx_ready r then
          case rx_header r of
            Recv_fails \<Rightarrow> Inr (None, c\<lparr>sock := -1\<rparr>)
          | Recv_bytes h \<Rightarrow>
              let h = take (sizeof ofp_header) h in
              if h = [] then Inr (None, c\<lparr>sock := -1\<rparr>)
              else bindE (wr (rx_str r) 0 h) (\<lambda>str.
                bindE (ld16 str (offsetof ofp_header [''length''])) (\<lambda>l.
                if unat (ntohs l) > sizeof ofp_header then
                  case rx_body r of
                    Recv_fails \<Rightarrow> Inl (Exit 1)
                  | Recv_bytes b \<Rightarrow>
                      bindE (wr str (sizeof ofp_header) (take (unat (ntohs l) - sizeof ofp_header) b)) (\<lambda>str.
                        Inr (Some str, c))
                else Inr (Some str, c)))
        else Inr (None, c)
      else Inr (None, c))"

section \<open>The replies\<close>

text \<open>A message on the wire: version, type, length, transaction id and body.\<close>

definition of_msg :: "ofp_type \<Rightarrow> u32 \<Rightarrow> buf \<Rightarrow> buf" where
  "of_msg ty xid body =
     [OFP_VERSION, ofpt ty] @ bytes16 (htons (word_of_nat (8 + length body))) @ bytes32 xid @ body"

definition xid_of :: "buf \<Rightarrow> u32" where
  "xid_of oh = le32 (oh ! 4) (oh ! 5) (oh ! 6) (oh ! 7)"

text \<open>The connection after a message was passed to \<open>send\<close>.\<close>

definition reply :: "'e of_env_scheme \<Rightarrow> buf \<Rightarrow> 'c controller_connection_scheme \<Rightarrow>
    'c controller_connection_scheme" where
  "reply e m c = (if sock c = -1 then c
     else (let t = send_ret e (length (sent c)) in after_send t (c\<lparr>sent := sent c @ [(m, t)]\<rparr>)))"

lemma length_of_msg [simp]: "length (of_msg ty xid body) = 8 + length body"
  by (simp add: of_msg_def)

lemma controller_send_all: "controller_send e m (length m) c = Inr (reply e m c)"
  by (simp add: controller_send_def reply_def rd_def slice_def Let_def)

lemma oh_xid_eq: "8 \<le> length oh \<Longrightarrow> oh_xid oh = Inr (xid_of oh)"
  by (simp add: oh_xid_def ld32_def xid_of_def layout_simps)

lemma ld16_of_msg:
  "ld16 (of_msg ty xid body) 2 = Inr (htons (word_of_nat (8 + length body)))"
proof -
  have "bytes16 w = [byte_of 0 w, byte_of 1 w]" for w by (simp add: bytes16_def)
  then show ?thesis by (simp add: ld16_def of_msg_def)
qed

lemma send_whole_of_msg:
  "length body < 65528 \<Longrightarrow> send_whole e (of_msg ty xid body) c = Inr (reply e (of_msg ty xid body) c)"
proof -
  assume b: "length body < 65528"
  have "unat (word_of_nat (8 + length body) :: u16) = length (of_msg ty xid body)"
    using b by (simp add: unat_of_nat take_bit_eq_mod del: of_nat_add)
  then show ?thesis
    using controller_send_all [of e "of_msg ty xid body" c]
    by (simp add: send_whole_def layout_simps ld16_of_msg del: of_nat_add)
qed

lemmas build_msg = layout_simps wr_def splice_def zeroed_def of_msg_def

lemma enum_vals [simp]:
  "enum_val ofp_type_vals OFPT_HELLO = 0" "enum_val ofp_type_vals OFPT_ECHO_REQUEST = 2"
  "enum_val ofp_type_vals OFPT_ECHO_REPLY = 3" "enum_val ofp_type_vals OFPT_VENDOR = 4"
  "enum_val ofp_type_vals OFPT_FEATURES_REQUEST = 5" "enum_val ofp_type_vals OFPT_FEATURES_REPLY = 6"
  "enum_val ofp_type_vals OFPT_GET_CONFIG_REQUEST = 7" "enum_val ofp_type_vals OFPT_GET_CONFIG_REPLY = 8"
  "enum_val ofp_type_vals OFPT_SET_CONFIG = 9" "enum_val ofp_type_vals OFPT_FLOW_MOD = 14"
  "enum_val ofp_type_vals OFPT_STATS_REQUEST = 16" "enum_val ofp_type_vals OFPT_STATS_REPLY = 17"
  "enum_val ofp_type_vals OFPT_BARRIER_REQUEST = 18" "enum_val ofp_type_vals OFPT_BARRIER_REPLY = 19"
  "enum_val ofp_stats_types_vals OFPST_DESC = 0" "enum_val nx_subtype_vals NXT_ROLE_REPLY = 11"
  by (simp_all add: enum_val_def ofp_type_vals_def ofp_stats_types_vals_def nx_subtype_vals_def)

lemma ofp_type_small: "enum_val ofp_type_vals t < 256"
  by (cases t) (simp_all add: enum_val_def ofp_type_vals_def)

lemma unat_byte_eq: "k < 256 \<Longrightarrow> unat (w :: byte) = k \<longleftrightarrow> w = word_of_nat k"
  by (auto simp: unat_of_nat take_bit_eq_mod)

text \<open>The type byte of a message selects a case label exactly when it is the value of the label.\<close>

lemma ofp_type_of_iff: "enum_of ofp_type_vals (unat (w :: byte)) = Some t \<longleftrightarrow> w = ofpt t"
  unfolding ofp_type_enum.of_iff using unat_byte_eq [OF ofp_type_small] by metis

lemma ofpt_inject: "ofpt t = ofpt u \<longleftrightarrow> t = u"
  using ofp_type_of_iff by (metis option.inject)

lemma handle_hello_eq:
  assumes "8 \<le> length oh" "calloc_ok e 8"
  shows "handle_hello e oh c = Inr (reply e (of_msg OFPT_HELLO (xid_of oh) []) c)"
  using assms controller_send_all [of e "of_msg OFPT_HELLO (xid_of oh) []" c]
  by (simp add: handle_hello_def oh_xid_eq build_msg)

lemma handle_feature_request_eq:
  assumes "8 \<le> length oh" "calloc_ok e 32"
  shows "handle_feature_request e oh c = Inr (reply e (of_msg OFPT_FEATURES_REPLY (xid_of oh)
    (bytes64 (htonll (dpid c)) @ zeroed 16)) c)"
proof -
  have z: "bytes32 (htonl 0) = [0, 0, 0, 0]"
    by (simp add: htonl_def ntohl_def byte_of_def)
  have "bytes32 (htonl 0) @ 0 # replicate 3 0 @ bytes32 (htonl 0) @ bytes32 (htonl 0) = (replicate 16 0 :: buf)"
    by (simp add: z eval_nat_numeral)
  then show ?thesis
    using assms send_whole_of_msg [of "bytes64 (htonll (dpid c)) @ zeroed 16" e OFPT_FEATURES_REPLY "xid_of oh" c]
    by (simp add: handle_feature_request_def oh_xid_eq build_msg)
qed

lemma handle_barrier_request_eq:
  assumes "8 \<le> length oh" "calloc_ok e 8"
  shows "handle_barrier_request e oh c = Inr (reply e (of_msg OFPT_BARRIER_REPLY (xid_of oh) []) c)"
  using assms send_whole_of_msg [of "[]" e OFPT_BARRIER_REPLY "xid_of oh" c]
  by (simp add: handle_barrier_request_def oh_xid_eq build_msg)

lemma handle_get_config_request_eq:
  assumes "8 \<le> length oh" "calloc_ok e 12"
  shows "handle_get_config_request e oh c = Inr (reply e (of_msg OFPT_GET_CONFIG_REPLY (xid_of oh)
    (bytes16 (htons OFPC_FRAG_NORMAL) @ bytes16 (htons (miss_send_len c)))) c)"
  using assms send_whole_of_msg [of "bytes16 (htons OFPC_FRAG_NORMAL) @ bytes16 (htons (miss_send_len c))" e
      OFPT_GET_CONFIG_REPLY "xid_of oh" c]
  by (simp add: handle_get_config_request_def oh_xid_eq build_msg)

lemma splice_zeros:
  "length a \<le> i \<Longrightarrow> i + k \<le> length a + n \<Longrightarrow> splice (a @ replicate n 0) i (replicate k 0) = a @ replicate n 0"
  by (rule nth_equalityI) (auto simp: nth_splice nth_append)

lemma handle_stats_request_eq:
  assumes "12 \<le> length oh" "calloc_ok e 1068"
  shows "handle_stats_request e oh c =
    (if le16 (oh ! 8) (oh ! 9) = 0 then Inr (reply e (of_msg OFPT_STATS_REPLY (xid_of oh) (zeroed 1060)) c)
     else Inr c)"
proof (cases "le16 (oh ! 8) (oh ! 9) = 0")
  case True
  have z: "bytes16 0 = [0, 0]" "htons 0 = 0" by (simp_all add: bytes16_def byte_of_def htons_def ntohs_def le16_def)
  have d: "desc_at ''mfr_desc'' = 8" "desc_at ''hw_desc'' = 264" "desc_at ''sw_desc'' = 520"
    "desc_at ''serial_num'' = 776" "desc_at ''dp_desc'' = 808"
    by (simp_all add: desc_at_def layout_simps)
  let ?h = "[OFP_VERSION, 17] @ bytes16 (htons 1068) @ bytes32 (xid_of oh)"
  have h: "splice (?h @ replicate 1060 0) i (replicate k 0) = ?h @ replicate 1060 0" if "8 \<le> i" "i + k \<le> 1068" for i k
    using that by (intro splice_zeros) simp_all
  have r: "replicate 1060 0 = [0, 0, 0, 0] @ (replicate 1056 0 :: buf)"
    using replicate_add [of 4 1056 "0 :: byte"] by (simp add: eval_nat_numeral(2,3))
  have p1: "puts (zeroed 1068) [(1, [17]), (0, [OFP_VERSION]), (4, bytes32 (xid_of oh)), (2, bytes16 (htons 1068)),
      (8, [0, 0]), (10, [0, 0])] = Inr (?h @ replicate 1060 0)"
    by (simp add: wr_def splice_def zeroed_def r)
  have p2: "puts (?h @ replicate 1060 0) [(8, zeroed 256), (264, zeroed 256), (520, zeroed 256),
      (808, zeroed 256), (776, zeroed 32)] = Inr (?h @ replicate 1060 0)"
    unfolding zeroed_def puts.simps wr_def by (simp add: h del: append.simps append_assoc)
  have s: "enum_of ofp_stats_types_vals 0 = Some OFPST_DESC"
    by (simp add: enum_of_def ofp_stats_types_vals_def)
  have p: "puts (zeroed 1068) ([(1, [17]), (0, [OFP_VERSION]), (4, bytes32 (xid_of oh)), (2, bytes16 (htons 1068)),
      (8, [0, 0]), (10, [0, 0])] @ [(8, zeroed 256), (264, zeroed 256), (520, zeroed 256),
      (808, zeroed 256), (776, zeroed 32)]) = Inr (of_msg OFPT_STATS_REPLY (xid_of oh) (zeroed 1060))"
    unfolding puts_append p1 using p2 by (simp add: of_msg_def zeroed_def del: puts.simps)
  show ?thesis
    using assms True send_whole_of_msg [of "zeroed 1060" e OFPT_STATS_REPLY "xid_of oh" c] p
    by (simp add: handle_stats_request_def oh_xid_eq layout_simps ld16_def s d z Let_def del: puts.simps)
next
  case False
  then have "unat (le16 (oh ! 8) (oh ! 9)) \<noteq> 0" by (simp add: unat_eq_0)
  then show ?thesis
    using assms False by (auto simp: handle_stats_request_def layout_simps ld16_def enum_of_def
        ofp_stats_types_vals_def split: if_splits)
qed

lemma handle_nicira_eq:
  assumes "20 \<le> length oh" "calloc_ok e 20"
  shows "handle_nicira e oh c =
    (if ntohl (le32 (oh ! 12) (oh ! 13) (oh ! 14) (oh ! 15)) = 10
     then Inr (reply e (of_msg OFPT_VENDOR (xid_of oh) (bytes32 (htonl NX_VENDOR_ID) @ bytes32 (htonl 11) @ slice oh 16 4)) c)
     else Inr c)"
proof -
  let ?s = "ntohl (le32 (oh ! 12) (oh ! 13) (oh ! 14) (oh ! 15))"
  have "slice oh 16 4 = [oh ! 16, oh ! 17, oh ! 18, oh ! 19]"
    using assms(1) by (intro nth_equalityI) (auto simp: nth_slice less_Suc_eq numeral_eq_Suc)
  then have b: "slice oh 16 4 = bytes32 (le32 (oh ! 16) (oh ! 17) (oh ! 18) (oh ! 19))" by simp
  have n: "enum_of nx_subtype_vals (unat ?s) = Some NXT_ROLE_REQUEST \<longleftrightarrow> ?s = 10"
    by (auto simp: enum_of_def nx_subtype_vals_def word_unat_eq_iff)
  show ?thesis
  proof (cases "?s = 10")
    case True
    then show ?thesis
      using assms n send_whole_of_msg [of "bytes32 (htonl NX_VENDOR_ID) @ bytes32 (htonl 11) @ slice oh 16 4" e
          OFPT_VENDOR "xid_of oh" c]
      by (simp add: handle_nicira_def oh_xid_eq build_msg ld32_def b)
  next
    case False
    then show ?thesis
      using assms n by (auto simp: handle_nicira_def layout_simps ld32_def split: option.splits nx_subtype.splits)
  qed
qed

definition len_of :: "buf \<Rightarrow> nat" where
  "len_of oh = unat (ntohs (le16 (oh ! 2) (oh ! 3)))"

lemma handle_echo_request_eq:
  assumes "8 \<le> len_of oh" "len_of oh \<le> length oh" "calloc_ok e (len_of oh)"
  shows "handle_echo_request e oh c = Inr (reply e (take (len_of oh) (oh[1 := ofpt OFPT_ECHO_REPLY])) c)"
proof -
  let ?n = "len_of oh" and ?oh = "oh[1 := 3 :: byte]"
  have u: "splice oh 1 [3] = ?oh"
    using assms by (intro nth_equalityI) (auto simp: nth_splice nth_list_update)
  have l: "ld16 ?oh 2 = Inr (le16 (oh ! 2) (oh ! 3))" "ld16 (take ?n ?oh) 2 = Inr (le16 (oh ! 2) (oh ! 3))"
    using assms by (simp_all add: ld16_def)
  have w: "wr (zeroed ?n) 0 (take ?n ?oh) = Inr (take ?n ?oh)"
    using assms by (simp add: wr_def splice_def zeroed_def)
  show ?thesis
    using assms controller_send_all [of e "take ?n ?oh" c] l(2) w
    by (simp add: handle_echo_request_def layout_simps wr_def [of oh] u [simplified] l(1) [simplified] len_of_def rd_def slice_def
        send_whole_def)
qed

lemma handle_set_config_eq:
  "12 \<le> length oh \<Longrightarrow> handle_set_config oh c = Inr (c\<lparr>miss_send_len := ntohs (le16 (oh ! 10) (oh ! 11))\<rparr>)"
  by (simp add: handle_set_config_def layout_simps ld16_def)

section \<open>The connection under any message\<close>

text \<open>The counter of failed sends stays below the limit at which the connection is given up.\<close>

definition conn_inv :: "'c controller_connection_scheme \<Rightarrow> bool" where
  "conn_inv c \<longleftrightarrow> 0 \<le> error c \<and> error c < 10"

lemma conn_inv_init: "conn_inv connection_init"
  by (simp add: conn_inv_def connection_init_def)

text \<open>What a message handler may do to the connection: nothing, or send one message.\<close>

definition sends :: "'e of_env_scheme \<Rightarrow> 'c controller_connection_scheme \<Rightarrow> 'c controller_connection_scheme \<Rightarrow> bool" where
  "sends e c c' \<longleftrightarrow> c' = c \<or> (\<exists>m. c' = reply e m c)"

lemma controller_send_sends: "controller_send e m n c = Inr c' \<Longrightarrow> sends e c c'"
  by (auto simp: controller_send_def sends_def reply_def Let_def bindE_eq_Inr split: if_splits)

lemma send_whole_sends: "send_whole e m c = Inr c' \<Longrightarrow> sends e c c'"
  by (auto simp: send_whole_def bindE_eq_Inr dest: controller_send_sends)

lemma sends_refl [simp]: "sends e c c"
  by (simp add: sends_def)

lemma handlers_send:
  "handle_hello e oh c = Inr c' \<Longrightarrow> sends e c c'"
  "handle_feature_request e oh c = Inr c' \<Longrightarrow> sends e c c'"
  "handle_barrier_request e oh c = Inr c' \<Longrightarrow> sends e c c'"
  "handle_get_config_request e oh c = Inr c' \<Longrightarrow> sends e c c'"
  "handle_stats_request e oh c = Inr c' \<Longrightarrow> sends e c c'"
  "handle_nicira e oh c = Inr c' \<Longrightarrow> sends e c c'"
  "handle_echo_request e oh c = Inr c' \<Longrightarrow> sends e c c'"
  unfolding handle_hello_def handle_feature_request_def handle_barrier_request_def
    handle_get_config_request_def handle_stats_request_def handle_nicira_def handle_echo_request_def Let_def
  by (auto simp del: puts.simps elim!: bindE_E dest: controller_send_sends send_whole_sends
      split: if_splits option.splits ofp_stats_types.splits nx_subtype.splits)

lemma sends_inv:
  assumes "sends e c c'" "conn_inv c"
  shows "conn_inv c'" "sock c' = sock c \<or> sock c' = -1" "miss_send_len c' = miss_send_len c"
    "dpid c' = dpid c" "conn_mac c' = conn_mac c" "\<exists>ms. sent c' = sent c @ ms \<and> length ms \<le> 1"
  using assms by (auto simp: sends_def reply_def after_send_def conn_inv_def Let_def split: if_splits)

lemma conn_open_outcome:
  assumes "conn_inv c" "controller_conn_open e ce c = Inr c'"
  shows "conn_inv c'" "sent c' = sent c" "miss_send_len c' = miss_send_len c"
  using assms by (auto simp: controller_conn_open_def conn_open_def conn_inv_def Let_def split: if_splits)

lemma receive_msg_outcome:
  assumes "receive_msg r c = Inr (m, c')"
  shows "c' = c \<or> c' = c\<lparr>sock := -1\<rparr>" "m = Some str \<Longrightarrow> length str = length (rx_str r)"
  using assms
  by (auto simp: receive_msg_def Let_def length_wr elim!: bindE_E dest!: length_wr
      split: if_splits recv_result.splits)

section \<open>The datapath id\<close>

lemma byte_of_or: "byte_of k (a OR b) = byte_of k a OR byte_of k b"
  by (rule bit_word_eqI) (auto simp: byte_of_def bit_simps)

lemma byte_of_ucast [simp]:
  "k < 4 \<Longrightarrow> byte_of k (ucast (x :: u32) :: u64) = byte_of k x"
  "4 \<le> k \<Longrightarrow> byte_of k (ucast (x :: u32) :: u64) = 0"
  "k < 4 \<Longrightarrow> byte_of k (ucast (y :: u64) :: u32) = byte_of k y"
  by (rule bit_word_eqI; auto simp: byte_of_def bit_simps dest: bit_imp_le_length)+

lemma byte_of_shift32:
  "k < 4 \<Longrightarrow> byte_of k (push_bit 32 (x :: u64)) = 0"
  "4 \<le> k \<Longrightarrow> k < 8 \<Longrightarrow> byte_of k (push_bit 32 (x :: u64)) = byte_of (k - 4) x"
  "byte_of k (drop_bit 32 (x :: u64)) = byte_of (k + 4) x"
  by (rule bit_word_eqI; auto simp: byte_of_def bit_simps algebra_simps dest: bit_imp_le_length)+

lemma byte_of_htonl:
  "byte_of 0 (htonl w) = byte_of 3 w" "byte_of (Suc 0) (htonl w) = byte_of 2 w"
  "byte_of 2 (htonl w) = byte_of (Suc 0) w" "byte_of 3 (htonl w) = byte_of 0 w"
  by (simp_all add: htonl_def ntohl_def)

lemma htonl_1: "htonl 1 \<noteq> 1"
  by code_simp

lemma bytes64_htonll:
  "bytes64 (htonll w) = map (\<lambda>k. byte_of k w) [7, 6, 5, 4, 3, 2, 1, 0]"
  by (simp add: htonll_def htonl_1 bytes64_def byte_of_or byte_of_shift32 byte_of_htonl)

lemma byte_of_push8:
  "byte_of 0 (ucast (b :: byte) OR push_bit 8 (d :: u64)) = b"
  "k < 7 \<Longrightarrow> byte_of (Suc k) (ucast (b :: byte) OR push_bit 8 (d :: u64)) = byte_of k d"
  by (rule bit_word_eqI; auto simp: byte_of_def bit_simps dest: bit_imp_le_length)+

lemma bytes64_dpid: "bytes64 (htonll (dpid_of m)) = [0, 0] @ mac_bytes m"
proof (cases m)
  case (MAC a b c d e f)
  define st where "st = (\<lambda>(d :: u64) (b :: byte). ucast b OR push_bit 8 d)"
  have "byte_of 0 (st d b) = b" "k < 7 \<Longrightarrow> byte_of (Suc k) (st d b) = byte_of k d" "byte_of k (0 :: u64) = 0" for k d b
    by (simp_all add: st_def byte_of_push8 byte_of_def [of _ 0])
  moreover have "dpid_of m = st (st (st (st (st (st 0 a) b) c) d) e) f" by (simp add: dpid_of_def MAC st_def)
  ultimately show ?thesis by (simp add: bytes64_htonll MAC numeral_eq_Suc)
qed

end
