(* ===== verification/Chains.thy ===== *)
theory Chains
  imports Prelude
begin

text \<open>
  The pointer structure that every table of the program has: an array of list heads
  (\<open>struct natMap **table\<close>, \<open>struct PortData **table\<close>, \<open>struct infoSTA **table\<close>,
  \<open>struct sta_info *sta_hash[]\<close>) and heap nodes linked through a \<open>next\<close> field.

  A pointer is an index into the list of allocated nodes or null; \<open>calloc\<close> appends a node,
  \<open>free\<close> leaves a hole. The while loop that follows the \<open>next\<close> pointers is a
  \<open>partial_function\<close>: on a cyclic list it does not return. \<open>chain\<close> relates a pointer to the
  list it stands for, and the lemmas compute the pointer operations on that list.
\<close>

section \<open>Nodes, heads and the loop\<close>

type_synonym ptr = "nat option"

datatype 'a cell = Cell (item: 'a) (nxt: ptr)

record 'a chains =
  table :: "ptr list"
  cells :: "'a cell option list"

definition chains_init :: "nat \<Rightarrow> 'a chains" where
  "chains_init n = \<lparr>table = replicate n None, cells = []\<rparr>"

definition deref :: "'a chains \<Rightarrow> nat \<Rightarrow> 'a cell res" where
  "deref t q = (if q < length (cells t)
     then (case cells t ! q of None \<Rightarrow> Inl UseAfterFree | Some c \<Rightarrow> Inr c)
     else Inl OutOfBounds)"

definition head :: "'a chains \<Rightarrow> nat \<Rightarrow> ptr res" where
  "head t h = (if h < length (table t) then Inr (table t ! h) else Inl OutOfBounds)"

definition set_head :: "nat \<Rightarrow> ptr \<Rightarrow> 'a chains \<Rightarrow> 'a chains res" where
  "set_head h p t = (if h < length (table t) then Inr (t\<lparr>table := (table t)[h := p]\<rparr>)
     else Inl OutOfBounds)"

definition alloc :: "'a cell \<Rightarrow> 'a chains \<Rightarrow> nat \<times> 'a chains" where
  "alloc c t = (length (cells t), t\<lparr>cells := cells t @ [Some c]\<rparr>)"

definition set_cell :: "nat \<Rightarrow> 'a cell \<Rightarrow> 'a chains \<Rightarrow> 'a chains" where
  "set_cell q c t = t\<lparr>cells := (cells t)[q := Some c]\<rparr>"

definition free_cell :: "nat \<Rightarrow> 'a chains \<Rightarrow> 'a chains" where
  "free_cell q t = t\<lparr>cells := (cells t)[q := None]\<rparr>"

definition upd_item :: "('a \<Rightarrow> 'a) \<Rightarrow> nat \<Rightarrow> 'a chains \<Rightarrow> 'a chains res" where
  "upd_item f q t = bindE (deref t q) (\<lambda>c. Inr (set_cell q (Cell (f (item c)) (nxt c)) t))"

partial_function (option) find_from :: "('a \<Rightarrow> bool) \<Rightarrow> 'a chains \<Rightarrow> ptr \<Rightarrow> ptr res option" where
  "find_from P t p = (case p of
     None \<Rightarrow> Some (Inr None)
   | Some q \<Rightarrow> (case deref t q of
       Inl e \<Rightarrow> Some (Inl e)
     | Inr c \<Rightarrow> if P (item c) then Some (Inr (Some q)) else find_from P t (nxt c)))"

definition find_in :: "('a \<Rightarrow> bool) \<Rightarrow> nat \<Rightarrow> 'a chains \<Rightarrow> ptr res" where
  "find_in P h t = bindE (head t h) (\<lambda>p. run_loop (find_from P t p))"

text \<open>\<open>calloc\<close> of a node, its fields filled in, and the two assignments that make it the head.\<close>

definition push_front :: "'a \<Rightarrow> nat \<Rightarrow> 'a chains \<Rightarrow> (nat \<times> 'a chains) res" where
  "push_front x h t = bindE (head t h) (\<lambda>p. case alloc (Cell x p) t of (q, t1) \<Rightarrow>
     bindE (set_head h (Some q) t1) (\<lambda>t2. Inr (q, t2)))"

section \<open>What a pointer stands for\<close>

primrec chain :: "'a chains \<Rightarrow> ptr \<Rightarrow> (nat \<times> 'a) list \<Rightarrow> bool" where
  "chain t p [] = (p = None)"
| "chain t p (x # xs) = (p = Some (fst x) \<and>
     (\<exists>n. deref t (fst x) = Inr (Cell (snd x) n) \<and> chain t n xs))"

lemma chain_None [simp]: "chain t None xs \<longleftrightarrow> xs = []"
  by (cases xs) auto

lemma chain_Some: "chain t (Some q) xs \<longleftrightarrow>
    (\<exists>x n ys. xs = (q, x) # ys \<and> deref t q = Inr (Cell x n) \<and> chain t n ys)"
  by (cases xs) auto

lemma chain_unique: "chain t p xs \<Longrightarrow> chain t p ys \<Longrightarrow> xs = ys"
proof (induction xs arbitrary: p ys)
  case (Cons x xs)
  then show ?case by (cases ys) (auto intro: prod_eqI)
qed auto

lemma chain_deref: "chain t p xs \<Longrightarrow> (q, x) \<in> set xs \<Longrightarrow> \<exists>n. deref t q = Inr (Cell x n)"
  by (induction xs arbitrary: p) auto

lemma chain_suffix: "chain t p (xs @ (q, x) # ys) \<Longrightarrow> chain t (Some q) ((q, x) # ys)"
  by (induction xs arbitrary: p) auto

lemma chain_distinct: "chain t p xs \<Longrightarrow> distinct (map fst xs)"
proof (induction xs arbitrary: p)
  case (Cons x xs)
  from Cons.prems obtain n where n: "chain t n xs" by auto
  have "fst x \<notin> fst ` set xs"
  proof
    assume "fst x \<in> fst ` set xs"
    then obtain y us vs where xs: "xs = us @ (fst x, y) # vs"
      by (metis imageE split_list prod.collapse)
    have "chain t (Some (fst x)) ((fst x, y) # vs)"
      using n unfolding xs by (rule chain_suffix)
    moreover have "chain t (Some (fst x)) (x # xs)"
      using Cons.prems by auto
    ultimately have "(fst x, y) # vs = x # xs" by (rule chain_unique)
    then show False using xs by auto
  qed
  with Cons.IH [OF n] show ?case by simp
qed simp

text \<open>The loop returns, with the first node of the list that satisfies the predicate.\<close>

lemma find_from_chain:
  "chain t p xs \<Longrightarrow> find_from P t p = Some (Inr (map_option fst (List.find (P \<circ> snd) xs)))"
proof (induction xs arbitrary: p)
  case Nil
  then show ?case by (simp add: find_from.simps)
next
  case (Cons x xs)
  then obtain n where "p = Some (fst x)" "deref t (fst x) = Inr (Cell (snd x) n)" "chain t n xs"
    by auto
  with Cons.IH [of n] show ?case by (simp add: find_from.simps [of P t "Some (fst x)"])
qed

section \<open>Operations on the nodes\<close>

lemma deref_alloc: "q < length (cells t) \<Longrightarrow> deref (snd (alloc c t)) q = deref t q"
  by (simp add: deref_def alloc_def nth_append)

lemma deref_alloc_new: "deref (snd (alloc c t)) (length (cells t)) = Inr c"
  by (simp add: deref_def alloc_def)

lemma deref_table [simp]: "deref (t\<lparr>table := b\<rparr>) q = deref t q"
  by (simp add: deref_def)

lemma deref_less: "deref t q = Inr c \<Longrightarrow> q < length (cells t)"
  by (auto simp: deref_def split: if_splits)

lemma deref_set_cell:
  "deref t q = Inr c \<Longrightarrow> deref (set_cell q d t) r = (if r = q then Inr d else deref t r)"
  by (auto simp: deref_def set_cell_def nth_list_update split: if_splits)

lemma deref_free_cell:
  "q < length (cells t) \<Longrightarrow>
     deref (free_cell q t) r = (if r = q then Inl UseAfterFree else deref t r)"
  by (auto simp: deref_def free_cell_def nth_list_update)

lemma chain_cong: "(\<And>q. q \<in> fst ` set xs \<Longrightarrow> deref t' q = deref t q) \<Longrightarrow> chain t p xs \<Longrightarrow> chain t' p xs"
  by (induction xs arbitrary: p) auto

lemma chain_table [simp]: "chain (t\<lparr>table := b\<rparr>) p xs = chain t p xs"
  by (induction xs arbitrary: p) auto

lemma chain_alloc: "chain t p xs \<Longrightarrow> chain (snd (alloc c t)) p xs"
  by (rule chain_cong [of _ _ t]) (auto dest!: chain_deref deref_less simp: deref_alloc)

lemma chain_upd_item:
  assumes "chain t p xs" "deref t q = Inr (Cell x n)"
  shows "chain (set_cell q (Cell y n) t) p (map (\<lambda>(r, z). (r, if r = q then y else z)) xs)"
  using assms by (induction xs arbitrary: p) (auto simp: deref_set_cell)

section \<open>Well-formed tables\<close>

text \<open>
  Every head leads to a list that ends, and the nodes of head \<open>h\<close> are the ones that hash to
  \<open>h\<close>. \<open>bucket_list\<close> is the list of one head.
\<close>

definition wf_chains :: "('a \<Rightarrow> nat) \<Rightarrow> 'a chains \<Rightarrow> bool" where
  "wf_chains hsh t \<longleftrightarrow> (\<forall>h < length (table t). \<exists>xs. chain t (table t ! h) xs \<and>
     (\<forall>(q, x) \<in> set xs. hsh x = h))"

definition bucket_list :: "'a chains \<Rightarrow> nat \<Rightarrow> (nat \<times> 'a) list" where
  "bucket_list t h = (THE xs. chain t (table t ! h) xs)"

lemma bucket_listI: "chain t (table t ! h) xs \<Longrightarrow> bucket_list t h = xs"
  unfolding bucket_list_def by (blast intro: the_equality chain_unique)

lemma wf_chains_bucket:
  assumes "wf_chains hsh t" "h < length (table t)"
  shows "chain t (table t ! h) (bucket_list t h)"
    and "(q, x) \<in> set (bucket_list t h) \<Longrightarrow> hsh x = h"
proof -
  from assms obtain xs where xs: "chain t (table t ! h) xs" "\<forall>(q, x) \<in> set xs. hsh x = h"
    unfolding wf_chains_def by blast
  then have b: "bucket_list t h = xs" by (intro bucket_listI)
  show "chain t (table t ! h) (bucket_list t h)" using xs(1) b by simp
  show "(q, x) \<in> set (bucket_list t h) \<Longrightarrow> hsh x = h" using xs(2) b by auto
qed

lemma wf_chainsI:
  assumes "\<And>h. h < length (table t) \<Longrightarrow> chain t (table t ! h) (f h)"
    and "\<And>h q x. h < length (table t) \<Longrightarrow> (q, x) \<in> set (f h) \<Longrightarrow> hsh x = h"
  shows "wf_chains hsh t"
  unfolding wf_chains_def using assms by blast

lemma wf_chains_init [simp]: "wf_chains hsh (chains_init n)"
  by (simp add: wf_chains_def chains_init_def)

lemma bucket_list_init [simp]: "h < n \<Longrightarrow> bucket_list (chains_init n) h = []"
  by (rule bucket_listI) (simp add: chains_init_def)

lemma length_table_init [simp]: "length (table (chains_init n)) = n"
  by (simp add: chains_init_def)

lemma find_in_bounds: "\<not> h < length (table t) \<Longrightarrow> find_in P h t = Inl OutOfBounds"
  by (simp add: find_in_def head_def)

lemma find_in_wf:
  assumes "wf_chains hsh t" "h < length (table t)"
  shows "find_in P h t = Inr (map_option fst (List.find (P \<circ> snd) (bucket_list t h)))"
  using assms by (simp add: find_in_def head_def find_from_chain [OF wf_chains_bucket(1)])

lemma bucket_deref:
  assumes "wf_chains hsh t" "h < length (table t)" "(q, x) \<in> set (bucket_list t h)"
  shows "\<exists>n. deref t q = Inr (Cell x n)"
  using chain_deref [OF wf_chains_bucket(1) [OF assms(1,2)] assms(3)] .

text \<open>Adding a node in front: its address is fresh, it is the first of its list, the other lists
  are as before.\<close>

lemma push_front_wf:
  assumes wf: "wf_chains hsh t" and h: "h < length (table t)" and x: "hsh x = h"
  obtains t' where "push_front x h t = Inr (length (cells t), t')" "wf_chains hsh t'"
    "length (table t') = length (table t)" "cells t' = cells t @ [Some (Cell x (table t ! h))]"
    "\<forall>k < length (table t). bucket_list t' k =
       (if k = h then (length (cells t), x) # bucket_list t h else bucket_list t k)"
proof -
  let ?q = "length (cells t)" and ?c = "Cell x (table t ! h)"
  define t' where "t' = (snd (alloc ?c t))\<lparr>table := (table t)[h := Some ?q]\<rparr>"
  define f where "f k = (if k = h then (?q, x) # bucket_list t h else bucket_list t k)" for k
  have push: "push_front x h t = Inr (?q, t')"
    using h by (simp add: push_front_def head_def alloc_def set_head_def t'_def)
  have len: "length (table t') = length (table t)" by (simp add: t'_def)
  have ch: "chain t' (table t' ! k) (f k)" if k: "k < length (table t)" for k
    using wf_chains_bucket(1) [OF wf k] h k
    by (auto simp: t'_def f_def nth_list_update chain_alloc deref_alloc_new)
  have hs: "hsh y = k" if "k < length (table t)" "(q, y) \<in> set (f k)" for k q y
    using wf_chains_bucket(2) [OF wf that(1)] that x by (auto simp: f_def split: if_splits)
  have "wf_chains hsh t'" using ch hs len by (intro wf_chainsI [of _ f]) auto
  moreover have "bucket_list t' k = f k" if "k < length (table t)" for k
    using ch [OF that] by (rule bucket_listI)
  moreover have "cells t' = cells t @ [Some ?c]" by (simp add: t'_def alloc_def)
  ultimately show thesis using that [OF push] len by (simp add: f_def)
qed

lemma push_front_deref_old:
  "push_front x h t = Inr (q, t') \<Longrightarrow> deref t r = Inr c \<Longrightarrow> deref t' r = Inr c"
  by (auto simp: push_front_def bindE_eq_Inr set_head_def alloc_def deref_def nth_append split: if_splits)

text \<open>Changing the fields of a node without changing its hash keeps all lists.\<close>

lemma upd_item_wf:
  assumes wf: "wf_chains hsh t" and q: "deref t q = Inr (Cell x n)" and y: "hsh (f x) = hsh x"
  obtains t' where "upd_item f q t = Inr t'" "wf_chains hsh t'" "table t' = table t"
    "t' = set_cell q (Cell (f x) n) t"
    "\<forall>k < length (table t).
       bucket_list t' k = map (\<lambda>(r, z). (r, if r = q then f x else z)) (bucket_list t k)"
proof -
  define t' where "t' = set_cell q (Cell (f x) n) t"
  define g where "g k = map (\<lambda>(r, z). (r, if r = q then f x else z)) (bucket_list t k)" for k
  have tab: "table t' = table t" by (simp add: t'_def set_cell_def)
  have ch: "chain t' (table t' ! k) (g k)" if k: "k < length (table t)" for k
    using chain_upd_item [OF wf_chains_bucket(1) [OF wf k] q, of "f x"] tab
    by (simp add: t'_def g_def)
  have hs: "hsh z = k" if k: "k < length (table t)" and z: "(r, z) \<in> set (g k)" for k r z
  proof -
    from z obtain w where w: "(r, w) \<in> set (bucket_list t k)" "z = (if r = q then f x else w)"
      by (auto simp: g_def)
    have "hsh w = k" using wf_chains_bucket(2) [OF wf k w(1)] .
    moreover have "r = q \<Longrightarrow> w = x"
      using bucket_deref [OF wf k w(1)] q by auto
    ultimately show ?thesis using w(2) y by auto
  qed
  have "wf_chains hsh t'" using ch hs tab by (intro wf_chainsI [of _ g]) auto
  moreover have "bucket_list t' k = g k" if "k < length (table t)" for k
    using ch [OF that] by (rule bucket_listI)
  moreover have "upd_item f q t = Inr t'" using q by (simp add: upd_item_def t'_def)
  ultimately show thesis using that tab t'_def by (simp add: g_def)
qed

end
