(* ===== verification/Keyed_Table.thy ===== *)
theory Keyed_Table
  imports Chains
begin

text \<open>
  The contract between the tables of the program and the code that uses them: a lookup by key that
  returns the node or null, and an add that returns the node of the key, a new one where there was
  none. The NAT tables of the gateway and of the access point and the station list promise it; the
  packet and message handlers rely on it.

  \<open>view\<close> is the abstract table, a map from keys to nodes. \<open>valid\<close> is the set of keys for
  which the array of list heads has a slot, \<open>room\<close> the tables that accept one more node.
\<close>

locale keyed_table =
  fixes invar :: "'t \<Rightarrow> bool"
    and valid :: "'t \<Rightarrow> 'k \<Rightarrow> bool"
    and room :: "'t \<Rightarrow> bool"
    and view :: "'t \<Rightarrow> 'k \<Rightarrow> ptr"
    and lookup :: "'k \<Rightarrow> 't \<Rightarrow> ptr res"
    and add :: "'k \<Rightarrow> 't \<Rightarrow> (ptr \<times> 't) res"
  assumes lookup_valid: "invar t \<Longrightarrow> valid t k \<Longrightarrow> lookup k t = Inr (view t k)"
    and lookup_invalid: "invar t \<Longrightarrow> \<not> valid t k \<Longrightarrow> lookup k t = Inl OutOfBounds"
    and add_lookup: "lookup k t = Inl e \<Longrightarrow> add k t = Inl e"
    and add_known: "lookup k t = Inr (Some q) \<Longrightarrow> add k t = Inr (Some q, t)"
    and add_full: "lookup k t = Inr None \<Longrightarrow> \<not> room t \<Longrightarrow> add k t = Inr (None, t)"
    and add_new: "invar t \<Longrightarrow> valid t k \<Longrightarrow> view t k = None \<Longrightarrow> room t \<Longrightarrow>
      \<exists>q t'. add k t = Inr (Some q, t') \<and> invar t' \<and> valid t' = valid t \<and>
        (\<forall>k'. valid t k' \<longrightarrow> view t' k' = (if k' = k then Some q else view t k')) \<and>
        (\<forall>k'. valid t k' \<longrightarrow> view t k' \<noteq> Some q)"
begin

text \<open>Every outcome of an add on a well-formed table.\<close>

lemma add_cases:
  assumes "invar t"
  obtains (bounds) "\<not> valid t k" "add k t = Inl OutOfBounds"
    | (known) q where "valid t k" "view t k = Some q" "add k t = Inr (Some q, t)"
    | (full) "valid t k" "view t k = None" "\<not> room t" "add k t = Inr (None, t)"
    | (new) q t' where "valid t k" "view t k = None" "room t" "add k t = Inr (Some q, t')" "invar t'"
        "valid t' = valid t"
        "\<And>k'. valid t k' \<Longrightarrow> view t' k' = (if k' = k then Some q else view t k')"
        "\<And>k'. valid t k' \<Longrightarrow> view t k' \<noteq> Some q"
proof (cases "valid t k")
  case False
  then show thesis using bounds add_lookup lookup_invalid [OF assms] by blast
next
  case True
  note lk = lookup_valid [OF assms True]
  show thesis
  proof (cases "view t k")
    case (Some q)
    then show thesis using known True add_known lk by simp
  next
    case None
    then show thesis using full new add_full lk add_new [OF assms True] True by metis
  qed
qed

lemma add_invar: "invar t \<Longrightarrow> add k t = Inr (p, t') \<Longrightarrow> invar t'"
  by (rule add_cases [of t k]) auto

lemma add_fails_iff: "invar t \<Longrightarrow> (\<exists>e. add k t = Inl e) \<longleftrightarrow> \<not> valid t k"
  by (rule add_cases [of t k]) auto

text \<open>Insert and lookup: the node that was added is the node that is found, by its key; a known
  key keeps its node; the other keys keep theirs.\<close>

lemma lookup_after_add:
  assumes "invar t" "add k t = Inr (Some q, t')"
  shows "lookup k t' = Inr (Some q)"
    and "k' \<noteq> k \<Longrightarrow> lookup k' t' = lookup k' t"
proof -
  show "lookup k t' = Inr (Some q)"
    using assms(1)
  proof (cases rule: add_cases [of t k])
    case (new r u)
    then show ?thesis using assms lookup_valid [of u k] by auto
  qed (use assms lookup_valid in auto)
  show "lookup k' t' = lookup k' t" if "k' \<noteq> k"
    using assms(1)
  proof (cases rule: add_cases [of t k])
    case (new r u)
    then show ?thesis
      using assms that lookup_valid [of _ k'] lookup_invalid [of _ k']
      by (cases "valid t k'") auto
  qed (use assms in auto)
qed

lemma add_twice:
  assumes "invar t" "add k t = Inr (Some q, t')"
  shows "add k t' = Inr (Some q, t')"
  using add_known lookup_after_add(1) [OF assms] by blast

text \<open>A new node is not the node of any other key.\<close>

lemma add_fresh:
  assumes "invar t" "valid t k" "view t k = None" "add k t = Inr (Some q, t')" "valid t k'"
  shows "view t k' \<noteq> Some q"
  using assms(1) by (cases rule: add_cases [of t k]) (use assms in auto)

end

section \<open>Tables of chained nodes keep the contract\<close>

text \<open>The tables look a node up by comparing the fields that make up its key, in the list whose
  number the key hashes to, and add a node in front of that list.\<close>

definition chain_find :: "('a \<Rightarrow> 'k) \<Rightarrow> ('k \<Rightarrow> nat) \<Rightarrow> 'a chains \<Rightarrow> 'k \<Rightarrow> (nat \<times> 'a) option" where
  "chain_find key hash t k = List.find (\<lambda>x. key (snd x) = k) (bucket_list t (hash k))"

definition chain_view :: "('a \<Rightarrow> 'k) \<Rightarrow> ('k \<Rightarrow> nat) \<Rightarrow> 'a chains \<Rightarrow> 'k \<Rightarrow> ptr" where
  "chain_view key hash t k = map_option fst (chain_find key hash t k)"

definition chain_valid :: "('k \<Rightarrow> nat) \<Rightarrow> 'a chains \<Rightarrow> 'k \<Rightarrow> bool" where
  "chain_valid hash t k \<longleftrightarrow> hash k < length (table t)"

definition chain_lookup :: "('a \<Rightarrow> 'k) \<Rightarrow> ('k \<Rightarrow> nat) \<Rightarrow> 'k \<Rightarrow> 'a chains \<Rightarrow> ptr res" where
  "chain_lookup key hash k t = find_in (\<lambda>x. key x = k) (hash k) t"

definition chain_add ::
  "('a \<Rightarrow> 'k) \<Rightarrow> ('k \<Rightarrow> nat) \<Rightarrow> ('k \<Rightarrow> 'a) \<Rightarrow> bool \<Rightarrow> 'k \<Rightarrow> 'a chains \<Rightarrow> (ptr \<times> 'a chains) res" where
  "chain_add key hash mk ok k t = bindE (chain_lookup key hash k t) (\<lambda>p. case p of
     Some q \<Rightarrow> Inr (Some q, t)
   | None \<Rightarrow> if \<not> ok then Inr (None, t)
       else bindE (push_front (mk k) (hash k) t) (\<lambda>(q, t'). Inr (Some q, t')))"

locale chained =
  fixes key :: "'a \<Rightarrow> 'k" and hash :: "'k \<Rightarrow> nat" and mk :: "'k \<Rightarrow> 'a" and ok :: bool
  assumes key_mk: "key (mk k) = k"
begin

lemma find_chain_lookup:
  assumes "wf_chains (hash \<circ> key) t" "chain_valid hash t k"
  shows "chain_lookup key hash k t = Inr (chain_view key hash t k)"
  using assms
  by (simp add: chain_lookup_def chain_valid_def find_in_wf chain_view_def chain_find_def comp_def)

lemma chain_find_in_bucket:
  assumes "chain_find key hash t k = Some (q, x)"
  shows "(q, x) \<in> set (bucket_list t (hash k))" "key x = k"
proof -
  from assms obtain i where "i < length (bucket_list t (hash k))" "(q, x) = bucket_list t (hash k) ! i"
    "key (snd (bucket_list t (hash k) ! i)) = k"
    unfolding chain_find_def by (auto simp: find_Some_iff)
  then show "(q, x) \<in> set (bucket_list t (hash k))" "key x = k"
    by (metis nth_mem, metis snd_conv)
qed

lemma chain_find_deref:
  assumes "wf_chains (hash \<circ> key) t" "chain_valid hash t k" "chain_find key hash t k = Some (q, x)"
  shows "\<exists>n. deref t q = Inr (Cell x n)"
  using bucket_deref [OF assms(1) _ chain_find_in_bucket(1) [OF assms(3)]] assms(2)
  by (simp add: chain_valid_def)

text \<open>A new node in front of its list: found by its own key, no other lookup changes.\<close>

lemma chain_add_new:
  assumes wf: "wf_chains (hash \<circ> key) t" and v: "chain_valid hash t k"
    and n: "chain_view key hash t k = None" and ok: ok
  obtains t' where "chain_add key hash mk ok k t = Inr (Some (length (cells t)), t')"
    "wf_chains (hash \<circ> key) t'" "length (table t') = length (table t)"
    "\<forall>k'. chain_valid hash t k' \<longrightarrow> chain_find key hash t' k' =
       (if k' = k then Some (length (cells t), mk k) else chain_find key hash t k')"
proof -
  have h: "hash k < length (table t)" using v by (simp add: chain_valid_def)
  have hm: "(hash \<circ> key) (mk k) = hash k" by (simp add: key_mk)
  obtain t' where t': "push_front (mk k) (hash k) t = Inr (length (cells t), t')"
    "wf_chains (hash \<circ> key) t'" "length (table t') = length (table t)"
    "cells t' = cells t @ [Some (Cell (mk k) (table t ! hash k))]"
    and b: "\<forall>j < length (table t). bucket_list t' j =
       (if j = hash k then (length (cells t), mk k) # bucket_list t (hash k) else bucket_list t j)"
    by (rule push_front_wf [OF wf h hm])
  have "chain_add key hash mk ok k t = Inr (Some (length (cells t)), t')"
    using find_chain_lookup [OF wf v] n ok t'(1) by (simp add: chain_add_def)
  moreover have "chain_find key hash t' k' =
       (if k' = k then Some (length (cells t), mk k) else chain_find key hash t k')"
    if "chain_valid hash t k'" for k'
    using that key_mk b by (auto simp: chain_find_def chain_valid_def)
  ultimately show thesis using that t'(2,3) by blast
qed

lemma chain_find_less:
  assumes "wf_chains (hash \<circ> key) t" "chain_valid hash t k" "chain_find key hash t k = Some (q, x)"
  shows "q < length (cells t)"
  using chain_find_deref [OF assms] by (auto dest: deref_less)

text \<open>Changing the fields of the node of one key that are not part of the key.\<close>

lemma chain_find_upd_item:
  assumes wf: "wf_chains (hash \<circ> key) t" and v: "chain_valid hash t k"
    and f: "chain_find key hash t k = Some (q, x)" and y: "key (f x) = k"
  obtains t' where "upd_item f q t = Inr t'" "wf_chains (hash \<circ> key) t'" "table t' = table t"
    "length (cells t') = length (cells t)"
    "\<forall>k'. chain_valid hash t k' \<longrightarrow> chain_find key hash t' k' =
       (if k' = k then Some (q, f x) else chain_find key hash t k')"
proof -
  obtain n where q: "deref t q = Inr (Cell x n)" using chain_find_deref [OF wf v f] by blast
  have kx: "key x = k" using chain_find_in_bucket [OF f] by simp
  have hy: "(hash \<circ> key) (f x) = (hash \<circ> key) x" using y kx by simp
  obtain t' where t': "upd_item f q t = Inr t'" "wf_chains (hash \<circ> key) t'" "table t' = table t"
    "t' = set_cell q (Cell (f x) n) t"
    and b: "\<forall>j < length (table t).
       bucket_list t' j = map (\<lambda>(r, z). (r, if r = q then f x else z)) (bucket_list t j)"
    by (rule upd_item_wf [where f = f, OF wf q hy])
  have "chain_find key hash t' k' = (if k' = k then Some (q, f x) else chain_find key hash t k')"
    if v': "chain_valid hash t k'" for k'
  proof -
    have "List.find (\<lambda>z. key (snd z) = k') (map (\<lambda>(r, z). (r, if r = q then f x else z)) xs) =
        map_option (\<lambda>(r, z). (r, if r = q then f x else z)) (List.find (\<lambda>z. key (snd z) = k') xs)"
      if "\<forall>z. (q, z) \<in> set xs \<longrightarrow> z = x" for xs
      using that kx y by (induction xs) auto
    moreover have "\<forall>z. (q, z) \<in> set (bucket_list t (hash k')) \<longrightarrow> z = x"
      using bucket_deref [OF wf _, of "hash k'" q] v' q by (auto simp: chain_valid_def)
    ultimately have eq: "chain_find key hash t' k' =
        map_option (\<lambda>(r, z). (r, if r = q then f x else z)) (chain_find key hash t k')"
      using v' b by (simp add: chain_find_def chain_valid_def)
    show ?thesis
    proof (cases "k' = k")
      case True
      then show ?thesis using eq f by simp
    next
      case False
      have "r \<noteq> q" if "chain_find key hash t k' = Some (r, z)" for r z
        using chain_find_deref [OF wf v' that] chain_find_in_bucket(2) [OF that] q kx False by auto
      then show ?thesis using eq False by (cases "chain_find key hash t k'") auto
    qed
  qed
  moreover have "length (cells t') = length (cells t)" by (simp add: t'(4) set_cell_def)
  ultimately show thesis using that t'(1-3) by blast
qed

end

sublocale chained \<subseteq> table: keyed_table "wf_chains (hash \<circ> key)" "chain_valid hash" "\<lambda>_. ok"
  "chain_view key hash" "chain_lookup key hash" "chain_add key hash mk ok"
proof
  fix t :: "'a chains" and k
  assume wf: "wf_chains (hash \<circ> key) t"
  show "chain_lookup key hash k t = Inr (chain_view key hash t k)" if "chain_valid hash t k"
    using find_chain_lookup [OF wf that] .
  show "chain_lookup key hash k t = Inl OutOfBounds" if "\<not> chain_valid hash t k"
    using that by (simp add: chain_lookup_def chain_valid_def find_in_bounds)
  show "\<exists>q t'. chain_add key hash mk ok k t = Inr (Some q, t') \<and> wf_chains (hash \<circ> key) t' \<and>
      chain_valid hash t' = chain_valid hash t \<and>
      (\<forall>k'. chain_valid hash t k' \<longrightarrow>
         chain_view key hash t' k' = (if k' = k then Some q else chain_view key hash t k')) \<and>
      (\<forall>k'. chain_valid hash t k' \<longrightarrow> chain_view key hash t k' \<noteq> Some q)"
    if v: "chain_valid hash t k" and n: "chain_view key hash t k = None" and ok
  proof -
    have "chain_view key hash t k' \<noteq> Some (length (cells t))" if "chain_valid hash t k'" for k'
      using chain_find_less [OF wf that] by (auto simp: chain_view_def)
    moreover obtain t' where "chain_add key hash mk ok k t = Inr (Some (length (cells t)), t')"
      "wf_chains (hash \<circ> key) t'" "length (table t') = length (table t)"
      "\<forall>k'. chain_valid hash t k' \<longrightarrow> chain_find key hash t' k' =
         (if k' = k then Some (length (cells t), mk k) else chain_find key hash t k')"
      by (rule chain_add_new [OF wf v n \<open>ok\<close>])
    ultimately show ?thesis
      by (auto simp: chain_valid_def chain_view_def fun_eq_iff)
  qed
next
  fix t :: "'a chains" and k e q
  show "chain_lookup key hash k t = Inl e \<Longrightarrow> chain_add key hash mk ok k t = Inl e"
    by (simp add: chain_add_def)
  show "chain_lookup key hash k t = Inr (Some q) \<Longrightarrow>
      chain_add key hash mk ok k t = Inr (Some q, t)"
    by (simp add: chain_add_def)
  show "chain_lookup key hash k t = Inr None \<Longrightarrow> \<not> ok \<Longrightarrow>
      chain_add key hash mk ok k t = Inr (None, t)"
    by (simp add: chain_add_def)
qed

section \<open>One node per key\<close>

text \<open>Adds that are not interleaved keep at most one node for each key. Then every node of a list is
  the node that its key is looked up to.\<close>

definition chain_uniq :: "('a \<Rightarrow> 'k) \<Rightarrow> 'a chains \<Rightarrow> bool" where
  "chain_uniq key t \<longleftrightarrow> (\<forall>h < length (table t). distinct (map (\<lambda>x. key (snd x)) (bucket_list t h)))"

lemma chain_uniq_init [simp]: "chain_uniq key (chains_init n)"
  by (simp add: chain_uniq_def)

lemma find_key_distinct:
  "distinct (map f xs) \<Longrightarrow> x \<in> set xs \<Longrightarrow> List.find (\<lambda>y. f y = f x) xs = Some x"
  by (induction xs) auto

context chained
begin

lemma chain_uniq_find:
  assumes "chain_uniq key t" "hash k < length (table t)" "(q, x) \<in> set (bucket_list t (hash k))" "key x = k"
  shows "chain_find key hash t k = Some (q, x)"
  using find_key_distinct [of "\<lambda>x. key (snd x)" "bucket_list t (hash k)" "(q, x)"] assms
  by (simp add: chain_uniq_def chain_find_def)

lemma chain_uniq_upd:
  assumes u: "chain_uniq key t" and wf: "wf_chains (hash \<circ> key) t" and q: "deref t q = Inr (Cell x n)"
    and y: "key (f x) = key x" and t': "upd_item f q t = Inr t'"
  shows "chain_uniq key t'"
proof -
  have hy: "(hash \<circ> key) (f x) = (hash \<circ> key) x" using y by simp
  obtain t1 where t1: "upd_item f q t = Inr t1" "table t1 = table t"
    and b: "\<forall>j < length (table t).
       bucket_list t1 j = map (\<lambda>(r, z). (r, if r = q then f x else z)) (bucket_list t j)"
    by (rule upd_item_wf [where f = f, OF wf q hy]) auto
  have "map (\<lambda>x. key (snd x)) (bucket_list t1 j) = map (\<lambda>x. key (snd x)) (bucket_list t j)"
    if j: "j < length (table t)" for j
  proof -
    have "z = x" if "(q, z) \<in> set (bucket_list t j)" for z
      using bucket_deref [OF wf j that] q by auto
    then show ?thesis using b j y by auto
  qed
  then show ?thesis using u t1 t' by (simp add: chain_uniq_def)
qed

lemma chain_uniq_add:
  assumes u: "chain_uniq key t" and wf: "wf_chains (hash \<circ> key) t"
    and a: "chain_add key hash mk ok k t = Inr (p, t')"
  shows "chain_uniq key t'"
proof (cases "chain_valid hash t k \<and> chain_view key hash t k = None \<and> ok")
  case True
  then have v: "hash k < length (table t)" and n: "chain_view key hash t k = None" and ok
    by (auto simp: chain_valid_def)
  have hm: "(hash \<circ> key) (mk k) = hash k" by (simp add: key_mk)
  obtain t1 where t1: "push_front (mk k) (hash k) t = Inr (length (cells t), t1)"
    "length (table t1) = length (table t)"
    and b: "\<forall>j < length (table t). bucket_list t1 j =
       (if j = hash k then (length (cells t), mk k) # bucket_list t (hash k) else bucket_list t j)"
    by (rule push_front_wf [OF wf v hm])
  have "t' = t1" using a find_chain_lookup [OF wf] True n t1(1) by (simp add: chain_add_def)
  moreover have "k \<notin> (\<lambda>x. key (snd x)) ` set (bucket_list t (hash k))"
    using n by (force simp: chain_view_def chain_find_def find_None_iff)
  ultimately show ?thesis using u b t1(2) v by (simp add: chain_uniq_def key_mk)
next
  case False
  then have "t' = t"
    by (cases rule: table.add_cases [OF wf, of k]) (use a False in auto)
  then show ?thesis using u by simp
qed

end

end
