(* ===== verification/Gw_Nat.thy ===== *)
theory Gw_Nat
  imports Keyed_Table
begin

text \<open>
  The address translation table of the gateway (Gateway/gatewayNAT.c: \<open>struct natMap\<close>,
  \<open>struct natList\<close>, \<open>lookupNatMap\<close>, \<open>addEntry\<close>). An entry is found by the
  client's port, the remote address and the remote port, and holds the client's address.
  \<open>entryList\<close> and its nodes are one \<open>chains\<close> value; the mutex makes each critical section
  one step, and the last section interleaves the two sections of \<open>addEntry\<close>.

  Shown here: the table refines a map from flows to client addresses, the bounds of its array of
  heads, what it holds after any history, and what concurrent calls of \<open>addEntry\<close> can do.
\<close>

section \<open>Data and operations\<close>

definition MAXENTRY :: nat where
  "MAXENTRY = 0xff"

fun HASH_FUNC :: "ip4 \<Rightarrow> nat" where
  "HASH_FUNC (IP4 a b c d) = unat d"

record natMap =
  nm_port :: u16
  nm_src_addr :: ip4
  nm_dst_addr :: ip4
  nm_src_port :: u16
  nm_dst_port :: u16

type_synonym natList = "natMap chains"

definition sizeof_natMap :: nat where
  "sizeof_natMap = 24"

definition lookupNatMap :: "u16 \<Rightarrow> ip4 \<Rightarrow> u16 \<Rightarrow> natList \<Rightarrow> ptr res" where
  "lookupNatMap src_port dst_addr dst_port entryList =
     find_in (\<lambda>nMap. \<not> (nm_dst_addr nMap \<noteq> dst_addr \<or> nm_src_port nMap \<noteq> src_port
                        \<or> nm_dst_port nMap \<noteq> dst_port))
       (HASH_FUNC dst_addr) entryList"

text \<open>The node \<open>addEntry\<close> links in: what \<open>calloc\<close> clears and the three fields it sets.\<close>

definition new_natMap :: "u16 \<Rightarrow> ip4 \<Rightarrow> u16 \<Rightarrow> natMap" where
  "new_natMap src_port dst_addr dst_port =
     \<lparr>nm_port = 0, nm_src_addr = IP4 0 0 0 0, nm_dst_addr = dst_addr,
      nm_src_port = src_port, nm_dst_port = dst_port\<rparr>"

definition addEntry :: "'e env_scheme \<Rightarrow> u16 \<Rightarrow> ip4 \<Rightarrow> u16 \<Rightarrow> natList \<Rightarrow> (ptr \<times> natList) res" where
  "addEntry e src_port dst_addr dst_port entryList =
     bindE (lookupNatMap src_port dst_addr dst_port entryList) (\<lambda>nMap.
     case nMap of
       Some q \<Rightarrow> Inr (Some q, entryList)
     | None \<Rightarrow>
         if \<not> calloc_ok e sizeof_natMap then Inr (None, entryList)
         else bindE (push_front (new_natMap src_port dst_addr dst_port) (HASH_FUNC dst_addr) entryList)
                (\<lambda>(q, entryList). Inr (Some q, entryList)))"

text \<open>What both the packet handler and the controller's message do with the table: look the flow
  up, add it where it is missing, and copy the client's address into the entry
  (\<open>memcpy(nMap->src_addr, ...)\<close>, which follows a null pointer when the add failed).\<close>

definition learn :: "'e env_scheme \<Rightarrow> u16 \<Rightarrow> ip4 \<Rightarrow> u16 \<Rightarrow> ip4 \<Rightarrow> natList \<Rightarrow> natList res" where
  "learn e src_port dst_addr dst_port src_addr entryList =
     bindE (lookupNatMap src_port dst_addr dst_port entryList) (\<lambda>nMap.
     bindE (case nMap of
              Some q \<Rightarrow> Inr (nMap, entryList)
            | None \<Rightarrow> addEntry e src_port dst_addr dst_port entryList) (\<lambda>(nMap, entryList).
     bindE (non_null nMap) (\<lambda>q.
       upd_item (\<lambda>n. n\<lparr>nm_src_addr := src_addr\<rparr>) q entryList)))"

section \<open>The contract\<close>

type_synonym flow = "u16 \<times> ip4 \<times> u16"

definition flow_of :: "natMap \<Rightarrow> flow" where
  "flow_of n = (nm_src_port n, nm_dst_addr n, nm_dst_port n)"

definition flow_hash :: "flow \<Rightarrow> nat" where
  "flow_hash k = (case k of (sp, d, dp) \<Rightarrow> HASH_FUNC d)"

definition flow_node :: "flow \<Rightarrow> natMap" where
  "flow_node k = (case k of (sp, d, dp) \<Rightarrow> new_natMap sp d dp)"

definition nat_inv :: "natList \<Rightarrow> bool" where
  "nat_inv t \<longleftrightarrow> wf_chains (flow_hash \<circ> flow_of) t \<and> length (table t) = MAXENTRY"

text \<open>The map that the table stands for.\<close>

definition nat_abs :: "natList \<Rightarrow> flow \<Rightarrow> ip4 option" where
  "nat_abs t k = (if chain_valid flow_hash t k
     then map_option (nm_src_addr \<circ> snd) (chain_find flow_of flow_hash t k) else None)"

lemma lookupNatMap_chain: "lookupNatMap sp d dp t = chain_lookup flow_of flow_hash (sp, d, dp) t"
  by (simp add: lookupNatMap_def chain_lookup_def flow_of_def flow_hash_def conj_ac)

lemma addEntry_chain:
  "addEntry e sp d dp t = chain_add flow_of flow_hash flow_node (calloc_ok e sizeof_natMap) (sp, d, dp) t"
  by (simp add: addEntry_def chain_add_def lookupNatMap_chain flow_node_def flow_hash_def
      cong: option.case_cong)

interpretation gwt: chained flow_of flow_hash flow_node ok for ok
  by unfold_locales (auto simp: flow_of_def flow_node_def new_natMap_def)

lemma chain_valid_nat: "nat_inv t \<Longrightarrow> chain_valid flow_hash t (sp, d, dp) \<longleftrightarrow> HASH_FUNC d < MAXENTRY"
  by (simp add: chain_valid_def flow_hash_def nat_inv_def)

lemma nat_inv_init: "nat_inv (chains_init MAXENTRY)"
  by (simp add: nat_inv_def)

lemma nat_abs_init: "nat_abs (chains_init MAXENTRY) k = None"
  by (simp add: nat_abs_def chain_find_def chain_valid_def)

lemma lookupNatMap_eq:
  assumes "nat_inv t" "HASH_FUNC d < MAXENTRY"
  shows "lookupNatMap sp d dp t = Inr (chain_view flow_of flow_hash t (sp, d, dp))"
  using gwt.find_chain_lookup chain_valid_nat [OF assms(1)] assms
  by (simp add: lookupNatMap_chain nat_inv_def)

text \<open>What the entry that a lookup returns holds is what the map says of the flow.\<close>

lemma lookupNatMap_entry:
  assumes "nat_inv t" "HASH_FUNC d < MAXENTRY"
  shows "case lookupNatMap sp d dp t of
      Inl e \<Rightarrow> False
    | Inr None \<Rightarrow> nat_abs t (sp, d, dp) = None
    | Inr (Some q) \<Rightarrow> \<exists>x n. deref t q = Inr (Cell x n) \<and> flow_of x = (sp, d, dp) \<and>
        nat_abs t (sp, d, dp) = Some (nm_src_addr x)"
proof (cases "chain_find flow_of flow_hash t (sp, d, dp)")
  case None
  then show ?thesis using lookupNatMap_eq [OF assms] by (simp add: chain_view_def nat_abs_def)
next
  case (Some y)
  obtain q x where y: "y = (q, x)" by (cases y)
  have v: "chain_valid flow_hash t (sp, d, dp)" using assms by (simp add: chain_valid_nat)
  have "\<exists>n. deref t q = Inr (Cell x n)"
    using gwt.chain_find_deref [OF _ v] Some y assms(1) by (simp add: nat_inv_def)
  moreover have "flow_of x = (sp, d, dp)"
    using gwt.chain_find_in_bucket Some y by blast
  ultimately show ?thesis
    using lookupNatMap_eq [OF assms] Some y v by (auto simp: chain_view_def nat_abs_def)
qed

section \<open>Learning a flow\<close>

lemma nat_abs_known:
  "chain_valid flow_hash t k \<Longrightarrow> nat_abs t k = map_option (nm_src_addr \<circ> snd) (chain_find flow_of flow_hash t k)"
  by (simp add: nat_abs_def)

text \<open>Copying an address into the entry of one flow changes the map at that flow only.\<close>

lemma upd_src_addr:
  assumes inv: "nat_inv t" and f: "chain_find flow_of flow_hash t k = Some (q, x)"
    and v: "chain_valid flow_hash t k"
  shows "\<exists>t'. upd_item (\<lambda>n. n\<lparr>nm_src_addr := a\<rparr>) q t = Inr t' \<and> nat_inv t' \<and>
    nat_abs t' = (nat_abs t)(k \<mapsto> a)"
proof -
  have wf: "wf_chains (flow_hash \<circ> flow_of) t" using inv by (simp add: nat_inv_def)
  have kx: "flow_of (x\<lparr>nm_src_addr := a\<rparr>) = k"
    using gwt.chain_find_in_bucket(2) [OF f] by (simp add: flow_of_def)
  obtain t' where t': "upd_item (\<lambda>n. n\<lparr>nm_src_addr := a\<rparr>) q t = Inr t'"
    "wf_chains (flow_hash \<circ> flow_of) t'" "table t' = table t" "length (cells t') = length (cells t)"
    "\<forall>k'. chain_valid flow_hash t k' \<longrightarrow> chain_find flow_of flow_hash t' k' =
       (if k' = k then Some (q, x\<lparr>nm_src_addr := a\<rparr>) else chain_find flow_of flow_hash t k')"
    by (rule gwt.chain_find_upd_item [OF wf v f, where f = "\<lambda>n. n\<lparr>nm_src_addr := a\<rparr>", OF kx])
  have "nat_abs t' = (nat_abs t)(k \<mapsto> a)"
    using t'(3,5) v by (auto simp: nat_abs_def chain_valid_def fun_eq_iff)
  then show ?thesis using t'(1-3) inv by (auto simp: nat_inv_def)
qed

text \<open>After adding a flow that was missing, the table has an entry for it, and the rest of the map
  is as before.\<close>

lemma addEntry_new:
  assumes inv: "nat_inv t" and d: "HASH_FUNC d < MAXENTRY"
    and n: "chain_view flow_of flow_hash t (sp, d, dp) = None" and ok: "calloc_ok e sizeof_natMap"
  shows "\<exists>q t'. addEntry e sp d dp t = Inr (Some q, t') \<and> nat_inv t' \<and>
    chain_find flow_of flow_hash t' (sp, d, dp) = Some (q, new_natMap sp d dp) \<and>
    nat_abs t' = (nat_abs t)((sp, d, dp) \<mapsto> IP4 0 0 0 0)"
proof -
  have wf: "wf_chains (flow_hash \<circ> flow_of) t" using inv by (simp add: nat_inv_def)
  have v: "chain_valid flow_hash t (sp, d, dp)" using inv d by (simp add: chain_valid_nat)
  obtain t' where t': "chain_add flow_of flow_hash flow_node (calloc_ok e sizeof_natMap) (sp, d, dp) t
      = Inr (Some (length (cells t)), t')"
    "wf_chains (flow_hash \<circ> flow_of) t'" "length (table t') = length (table t)"
    "\<forall>k'. chain_valid flow_hash t k' \<longrightarrow> chain_find flow_of flow_hash t' k' =
       (if k' = (sp, d, dp) then Some (length (cells t), flow_node (sp, d, dp))
        else chain_find flow_of flow_hash t k')"
    by (rule gwt.chain_add_new [OF wf v n ok])
  have "nat_abs t' = (nat_abs t)((sp, d, dp) \<mapsto> IP4 0 0 0 0)"
    using t'(3,4) v
    by (auto simp: nat_abs_def chain_valid_def fun_eq_iff flow_node_def new_natMap_def)
  then show ?thesis using t' v inv by (auto simp: nat_inv_def addEntry_chain flow_node_def)
qed

lemma learn_bounds: "nat_inv t \<Longrightarrow> \<not> HASH_FUNC d < MAXENTRY \<Longrightarrow> learn e sp d dp a t = Inl OutOfBounds"
  by (simp add: learn_def lookupNatMap_def find_in_bounds nat_inv_def)

lemma learn_known:
  assumes inv: "nat_inv t" and d: "HASH_FUNC d < MAXENTRY" and k: "nat_abs t (sp, d, dp) \<noteq> None"
  shows "\<exists>t'. learn e sp d dp a t = Inr t' \<and> nat_inv t' \<and> nat_abs t' = (nat_abs t)((sp, d, dp) \<mapsto> a)"
proof -
  have v: "chain_valid flow_hash t (sp, d, dp)" using inv d by (simp add: chain_valid_nat)
  then obtain q x where y: "chain_find flow_of flow_hash t (sp, d, dp) = Some (q, x)"
    using k by (auto simp: nat_abs_def)
  show ?thesis
    using upd_src_addr [OF inv y v, of a] y lookupNatMap_eq [OF inv d]
    by (auto simp: learn_def chain_view_def)
qed

lemma learn_refines:
  assumes inv: "nat_inv t" and d: "HASH_FUNC d < MAXENTRY" and ok: "calloc_ok e sizeof_natMap"
  shows "\<exists>t'. learn e sp d dp a t = Inr t' \<and> nat_inv t' \<and> nat_abs t' = (nat_abs t)((sp, d, dp) \<mapsto> a)"
proof (cases "chain_find flow_of flow_hash t (sp, d, dp)")
  case None
  then have n: "chain_view flow_of flow_hash t (sp, d, dp) = None" by (simp add: chain_view_def)
  obtain q t1 where t1: "addEntry e sp d dp t = Inr (Some q, t1)" "nat_inv t1"
    "chain_find flow_of flow_hash t1 (sp, d, dp) = Some (q, new_natMap sp d dp)"
    "nat_abs t1 = (nat_abs t)((sp, d, dp) \<mapsto> IP4 0 0 0 0)"
    using addEntry_new [OF inv d n ok] by blast
  have v: "chain_valid flow_hash t1 (sp, d, dp)" using t1(2) d by (simp add: chain_valid_nat)
  show ?thesis
    using upd_src_addr [OF t1(2,3) v, of a] t1 n lookupNatMap_eq [OF inv d]
    by (auto simp: learn_def)
next
  case (Some y)
  then have "nat_abs t (sp, d, dp) \<noteq> None" using inv d by (simp add: chain_valid_nat nat_abs_def)
  then show ?thesis by (rule learn_known [OF inv d])
qed

lemma learn_no_memory:
  assumes "nat_inv t" "HASH_FUNC d < MAXENTRY" "\<not> calloc_ok e sizeof_natMap"
    "nat_abs t (sp, d, dp) = None"
  shows "learn e sp d dp a t = Inl NullDeref"
proof -
  have "chain_view flow_of flow_hash t (sp, d, dp) = None"
    using assms by (simp add: nat_abs_def chain_valid_nat chain_view_def)
  then show ?thesis
    using assms by (simp add: learn_def addEntry_def lookupNatMap_eq)
qed

text \<open>Every outcome of learning a flow.\<close>

lemma learn_outcomes:
  assumes "nat_inv t"
  shows "learn e sp d dp a t = Inl OutOfBounds \<or> learn e sp d dp a t = Inl NullDeref \<or>
    (\<exists>t'. learn e sp d dp a t = Inr t' \<and> nat_inv t' \<and> nat_abs t' = (nat_abs t)((sp, d, dp) \<mapsto> a))"
proof (cases "HASH_FUNC d < MAXENTRY")
  case True
  then show ?thesis
    using learn_refines [OF assms True, of e sp dp a] learn_known [OF assms True, of sp dp e a]
      learn_no_memory [OF assms True, of e sp dp a]
    by (cases "nat_abs t (sp, d, dp) = None"; cases "calloc_ok e sizeof_natMap") auto
qed (simp add: learn_bounds [OF assms])

section \<open>Concurrent calls of addEntry\<close>

text \<open>
  The controller thread and the thread of packet queue 0 both call \<open>addEntry\<close>. Its lookup and
  its insertion are two critical sections of the mutex, so that the sections of several calls
  interleave. Thread \<open>i\<close> adds the flow \<open>w i\<close>, and \<open>ok i\<close> says whether its \<open>calloc\<close> has memory;
  \<open>Checked\<close> is a thread between the two sections, after its lookup found nothing, and \<open>Done\<close> one that
  has returned, with the pointer it returned.
\<close>

datatype add_pc = Start | Checked | Done ptr

type_synonym add_state = "natList \<times> (nat \<Rightarrow> add_pc)"

inductive add_step :: "(nat \<Rightarrow> bool) \<Rightarrow> (nat \<Rightarrow> flow) \<Rightarrow> add_state \<Rightarrow> add_state \<Rightarrow> bool" for ok w where
  check_hit: "pcs i = Start \<Longrightarrow> w i = (sp, d, dp) \<Longrightarrow> lookupNatMap sp d dp t = Inr (Some q) \<Longrightarrow>
     add_step ok w (t, pcs) (t, pcs(i := Done (Some q)))"
| check_miss: "pcs i = Start \<Longrightarrow> w i = (sp, d, dp) \<Longrightarrow> lookupNatMap sp d dp t = Inr None \<Longrightarrow>
     add_step ok w (t, pcs) (t, pcs(i := Checked))"
| no_memory: "pcs i = Checked \<Longrightarrow> \<not> ok i \<Longrightarrow> add_step ok w (t, pcs) (t, pcs(i := Done None))"
| insert_new: "pcs i = Checked \<Longrightarrow> ok i \<Longrightarrow> w i = (sp, d, dp) \<Longrightarrow>
     push_front (new_natMap sp d dp) (HASH_FUNC d) t = Inr (q, t') \<Longrightarrow>
     add_step ok w (t, pcs) (t', pcs(i := Done (Some q)))"

inductive_cases add_stepE: "add_step ok w s s'"

text \<open>Run without interference, the two sections are \<open>addEntry\<close>.\<close>

lemma addEntry_sections:
  assumes "ok i = calloc_ok e sizeof_natMap" "w i = (sp, d, dp)" "addEntry e sp d dp t = Inr (p, t')"
  shows "(add_step ok w)\<^sup>*\<^sup>* (t, pcs(i := Start)) (t', pcs(i := Done p))"
proof -
  obtain l where l: "lookupNatMap sp d dp t = Inr l" using assms(3) by (auto simp: addEntry_def bindE_eq_Inr)
  show ?thesis
  proof (cases l)
    case (Some q)
    then have "add_step ok w (t, pcs(i := Start)) (t, (pcs(i := Start))(i := Done (Some q)))"
      using l assms(2) by (intro check_hit) auto
    with l Some assms(3) show ?thesis by (auto simp: addEntry_def)
  next
    case None
    then have 1: "add_step ok w (t, pcs(i := Start)) (t, (pcs(i := Start))(i := Checked))"
      using l assms(2) by (intro check_miss) auto
    have "add_step ok w (t, pcs(i := Checked)) (t', (pcs(i := Checked))(i := Done p))"
    proof (cases "ok i")
      case True
      then obtain q where "push_front (new_natMap sp d dp) (HASH_FUNC d) t = Inr (q, t')" "p = Some q"
        using l None assms(1,3) by (auto simp: addEntry_def bindE_eq_Inr)
      then show ?thesis using insert_new [of "pcs(i := Checked)" i ok w sp d dp t q t'] True assms(2) by simp
    next
      case False
      then have "p = None" "t' = t" using l None assms(1,3) by (auto simp: addEntry_def)
      then show ?thesis using no_memory [of "pcs(i := Checked)" i ok w t] False by simp
    qed
    with 1 show ?thesis by (simp add: converse_rtranclp_into_rtranclp)
  qed
qed

text \<open>Under every interleaving the table stays well formed and keeps its nodes, a thread that
  returned a node returned one of its flow, and one that returned \<open>NULL\<close> had no memory.\<close>

definition add_inv :: "(nat \<Rightarrow> bool) \<Rightarrow> (nat \<Rightarrow> flow) \<Rightarrow> natList \<Rightarrow> add_state \<Rightarrow> bool" where
  "add_inv ok w t0 s \<longleftrightarrow> nat_inv (fst s) \<and> (\<forall>q c. deref t0 q = Inr c \<longrightarrow> deref (fst s) q = Inr c) \<and>
     (\<forall>i q. snd s i = Done (Some q) \<longrightarrow> (\<exists>x n. deref (fst s) q = Inr (Cell x n) \<and> flow_of x = w i)) \<and>
     (\<forall>i. snd s i = Done None \<longrightarrow> \<not> ok i)"

lemma push_front_new:
  assumes "nat_inv t" "push_front (new_natMap sp d dp) (HASH_FUNC d) t = Inr (q, t')"
  shows "nat_inv t'" "\<exists>n. deref t' q = Inr (Cell (new_natMap sp d dp) n)"
proof -
  have h: "HASH_FUNC d < length (table t)"
    using assms(2) by (auto simp: push_front_def bindE_eq_Inr head_def split: if_splits)
  have hs: "(flow_hash \<circ> flow_of) (new_natMap sp d dp) = HASH_FUNC d"
    by (simp add: flow_hash_def flow_of_def new_natMap_def)
  have wf: "wf_chains (flow_hash \<circ> flow_of) t" using assms(1) by (simp add: nat_inv_def)
  obtain u where u: "push_front (new_natMap sp d dp) (HASH_FUNC d) t = Inr (length (cells t), u)"
    "wf_chains (flow_hash \<circ> flow_of) u" "length (table u) = length (table t)"
    "cells u = cells t @ [Some (Cell (new_natMap sp d dp) (table t ! HASH_FUNC d))]"
    "\<forall>k < length (table t). bucket_list u k = (if k = HASH_FUNC d
       then (length (cells t), new_natMap sp d dp) # bucket_list t (HASH_FUNC d) else bucket_list t k)"
    by (rule push_front_wf [OF wf h hs])
  then have "t' = u" "q = length (cells t)" using assms(2) by auto
  with u assms(1) show "nat_inv t'" "\<exists>n. deref t' q = Inr (Cell (new_natMap sp d dp) n)"
    by (simp_all add: nat_inv_def deref_def)
qed

lemma add_step_inv: "add_step ok w s s' \<Longrightarrow> add_inv ok w t0 s \<Longrightarrow> add_inv ok w t0 s'"
proof (induction rule: add_step.induct)
  case (check_hit pcs i sp d dp t q)
  then have "HASH_FUNC d < MAXENTRY"
    by (auto simp: lookupNatMap_def find_in_def head_def bindE_eq_Inr add_inv_def nat_inv_def split: if_splits)
  then show ?case
    using check_hit lookupNatMap_entry [of t d sp dp] by (auto simp: add_inv_def)
next
  case (insert_new pcs i sp d dp t q t')
  have new: "flow_of (new_natMap sp d dp) = w i" using insert_new(3) by (simp add: flow_of_def new_natMap_def)
  have inv: "nat_inv t" "\<forall>q c. deref t0 q = Inr c \<longrightarrow> deref t q = Inr c" using insert_new(5) by (simp_all add: add_inv_def)
  note old = push_front_deref_old [OF insert_new(4)]
  have keep: "\<exists>x n. deref t' r = Inr (Cell x n) \<and> flow_of x = w j" if j: "pcs j = Done (Some r)" for j r
  proof -
    obtain x n where "deref t r = Inr (Cell x n)" "flow_of x = w j" using insert_new(5) j unfolding add_inv_def fst_conv snd_conv by blast
    then show ?thesis using old by blast
  qed
  have base: "deref t' r = Inr c" if "deref t0 r = Inr c" for r c using inv(2) that old by blast
  show ?case
    using insert_new(5) push_front_new [OF inv(1) insert_new(4)] new keep base by (auto simp: add_inv_def)
qed (auto simp: add_inv_def)

section \<open>Properties\<close>

lemma HASH_FUNC_less: "HASH_FUNC d < 256"
  by (cases d) simp

lemma HASH_FUNC_bound: "HASH_FUNC d < MAXENTRY \<longleftrightarrow> HASH_FUNC d \<noteq> 255"
  using HASH_FUNC_less [of d] by (auto simp: MAXENTRY_def)

text \<open>C15. The gateway's table refines a map from flows to client addresses: recording a client
  for a flow is the update of the map at that flow, for every remote address that does not end in
  255; for one that does, the array of 255 list heads is indexed out of bounds.\<close>

theorem gw_learn_refines:
  assumes "nat_inv t" "calloc_ok e sizeof_natMap"
  shows "case learn e sp d dp a t of
      Inl f \<Rightarrow> f = OutOfBounds \<and> HASH_FUNC d = 255
    | Inr t' \<Rightarrow> HASH_FUNC d \<noteq> 255 \<and> nat_inv t' \<and> nat_abs t' = (nat_abs t)((sp, d, dp) \<mapsto> a)"
proof (cases "HASH_FUNC d < MAXENTRY")
  case True
  with learn_refines [OF assms(1) True assms(2), of sp dp a] show ?thesis
    by (auto simp: HASH_FUNC_bound)
next
  case False
  with learn_bounds [OF assms(1) False, of e sp dp a] show ?thesis
    by (simp add: HASH_FUNC_bound)
qed

theorem gw_learn_refines_witness:
  "case learn \<lparr>calloc_ok = (\<lambda>_. True)\<rparr> 80 (IP4 8 8 8 8) 53 (IP4 192 168 5 2) (chains_init MAXENTRY) of
      Inl f \<Rightarrow> f = OutOfBounds \<and> HASH_FUNC (IP4 8 8 8 8) = 255
    | Inr t' \<Rightarrow> HASH_FUNC (IP4 8 8 8 8) \<noteq> 255 \<and> nat_inv t' \<and>
        nat_abs t' = (nat_abs (chains_init MAXENTRY))((80, IP4 8 8 8 8, 53) \<mapsto> IP4 192 168 5 2)"
  by (rule gw_learn_refines) (simp_all add: nat_inv_init)

text \<open>The node that \<open>addEntry\<close> returns is the node that \<open>lookupNatMap\<close> finds for the
  flow afterwards, and the lookup of every other flow is as before.\<close>

theorem gw_add_then_lookup:
  assumes "nat_inv t" "addEntry e sp d dp t = Inr (Some q, t')"
  shows "nat_inv t' \<and> lookupNatMap sp d dp t' = Inr (Some q) \<and>
    (\<forall>sp' d' dp'. (sp', d', dp') \<noteq> (sp, d, dp) \<longrightarrow>
       lookupNatMap sp' d' dp' t' = lookupNatMap sp' d' dp' t)"
proof -
  let ?ok = "calloc_ok e sizeof_natMap"
  have wf: "wf_chains (flow_hash \<circ> flow_of) t" using assms(1) by (simp add: nat_inv_def)
  have a: "chain_add flow_of flow_hash flow_node ?ok (sp, d, dp) t = Inr (Some q, t')"
    using assms(2) by (simp add: addEntry_chain)
  have "length (table t') = length (table t)"
    using assms(2)
    by (auto simp: addEntry_def bindE_eq_Inr push_front_def set_head_def alloc_def
        split: option.splits if_splits)
  then have "nat_inv t'"
    using gwt.table.add_invar [OF wf a] assms(1) by (simp add: nat_inv_def)
  then show ?thesis
    unfolding lookupNatMap_chain
    using gwt.table.lookup_after_add [OF wf a] by blast
qed

theorem gw_add_then_lookup_witness:
  "\<exists>q t'. addEntry \<lparr>calloc_ok = (\<lambda>_. True)\<rparr> 80 (IP4 8 8 8 8) 53 (chains_init MAXENTRY) = Inr (Some q, t') \<and>
    nat_inv t' \<and> lookupNatMap 80 (IP4 8 8 8 8) 53 t' = Inr (Some q)"
proof -
  have "addEntry \<lparr>calloc_ok = (\<lambda>_. True)\<rparr> 80 (IP4 8 8 8 8) 53 (chains_init MAXENTRY) = Inr (Some 0,
      \<lparr>table = (replicate 255 None)[8 := Some 0], cells = [Some (Cell (new_natMap 80 (IP4 8 8 8 8) 53) None)]\<rparr>)"
    by (simp add: addEntry_def lookupNatMap_def find_in_def head_def chains_init_def MAXENTRY_def
        find_from.simps push_front_def alloc_def set_head_def)
  from gw_add_then_lookup [OF nat_inv_init this] this show ?thesis by blast
qed

text \<open>C21. Under every interleaving of the critical sections of concurrent calls of \<open>addEntry\<close> the table keeps
  its invariant and every node it had, each call that returned a node holds a node of the flow it asked for,
  and a call returned no node only when its \<open>calloc\<close> failed.\<close>

theorem gw_add_interleaved:
  assumes "(add_step ok w)\<^sup>*\<^sup>* (t, \<lambda>_. Start) (t', pcs)" "nat_inv t"
  shows "nat_inv t' \<and> (\<forall>q c. deref t q = Inr c \<longrightarrow> deref t' q = Inr c) \<and>
    (\<forall>i p. pcs i = Done p \<longrightarrow> (case p of
       Some q \<Rightarrow> \<exists>x n. deref t' q = Inr (Cell x n) \<and> flow_of x = w i
     | None \<Rightarrow> \<not> ok i))"
proof -
  have "add_inv ok w t (t, \<lambda>_. Start)" using assms(2) by (simp add: add_inv_def)
  with assms(1) have "add_inv ok w t (t', pcs)"
    by (induction rule: rtranclp_induct) (auto intro: add_step_inv)
  then show ?thesis by (auto simp: add_inv_def split: option.split)
qed

lemma lookup_init: "HASH_FUNC d < MAXENTRY \<Longrightarrow> lookupNatMap sp d dp (chains_init MAXENTRY) = Inr None"
  by (simp add: lookupNatMap_def find_in_def head_def chains_init_def find_from.simps)

lemma lookup_init_8: "lookupNatMap sp (IP4 8 8 8 8) dp (chains_init MAXENTRY) = Inr None"
  by (rule lookup_init) (simp add: MAXENTRY_def)

text \<open>Three threads add one flow to the empty table: all look before any inserts, two insert, and the third has no memory.\<close>

definition demo_flow :: flow where
  "demo_flow = (80, IP4 8 8 8 8, 53)"

definition demo_adders :: "nat \<Rightarrow> add_pc" where
  "demo_adders = (\<lambda>_. Start)(0 := Done (Some 0), 1 := Done (Some 1), 2 := Done None)"

definition demo_added :: natList where
  "demo_added = \<lparr>table = (replicate 255 None)[8 := Some 1],
     cells = [Some (Cell (new_natMap 80 (IP4 8 8 8 8) 53) None), Some (Cell (new_natMap 80 (IP4 8 8 8 8) 53) (Some 0))]\<rparr>"

lemma demo_adders_run:
  "(add_step (\<lambda>i. i \<noteq> 2) (\<lambda>_. demo_flow))\<^sup>*\<^sup>* (chains_init MAXENTRY, \<lambda>_. Start) (demo_added, demo_adders)"
proof -
  let ?S = "add_step (\<lambda>i. i \<noteq> 2) (\<lambda>_. demo_flow)"
  let ?x = "new_natMap 80 (IP4 8 8 8 8) 53"
  define p0 p1 p2 p3 p4 p5 p6 where "p0 = (\<lambda>_ :: nat. Start)" and "p1 = p0(0 := Checked)"
    and "p2 = p1(1 := Checked)" and "p3 = p2(2 := Checked)" and "p4 = p3(0 := Done (Some 0))"
    and "p5 = p4(1 := Done (Some 1))" and "p6 = p5(2 := Done None)"
  note p = p0_def p1_def p2_def p3_def p4_def p5_def p6_def
  define t0 t1 where "t0 = (chains_init MAXENTRY :: natList)"
    and "t1 = \<lparr>table = (replicate 255 None)[8 := Some 0], cells = [Some (Cell ?x None)]\<rparr>"
  have "?S (t0, p0) (t0, p1)" unfolding p1_def
    by (rule check_miss) (auto simp: p t0_def lookup_init_8 demo_flow_def)
  moreover have "?S (t0, p1) (t0, p2)" unfolding p2_def
    by (rule check_miss) (auto simp: p t0_def lookup_init_8 demo_flow_def)
  moreover have "?S (t0, p2) (t0, p3)" unfolding p3_def
    by (rule check_miss) (auto simp: p t0_def lookup_init_8 demo_flow_def)
  moreover have "?S (t0, p3) (t1, p4)" unfolding p4_def
    by (rule insert_new) (auto simp: p t0_def t1_def demo_flow_def push_front_def head_def
        alloc_def set_head_def chains_init_def MAXENTRY_def)
  moreover have "?S (t1, p4) (demo_added, p5)" unfolding p5_def
    by (rule insert_new) (auto simp: p t1_def demo_added_def demo_flow_def push_front_def head_def alloc_def set_head_def)
  moreover have "?S (demo_added, p5) (demo_added, p6)" unfolding p6_def
    by (rule no_memory) (auto simp: p)
  moreover have "p6 = demo_adders" by (auto simp: p demo_adders_def)
  ultimately show ?thesis unfolding t0_def p0_def by (meson converse_rtranclp_into_rtranclp rtranclp.rtrancl_refl)
qed

theorem gw_add_interleaved_witness:
  "(add_step (\<lambda>i. i \<noteq> 2) (\<lambda>_. demo_flow))\<^sup>*\<^sup>* (chains_init MAXENTRY, \<lambda>_. Start) (demo_added, demo_adders) \<and>
    demo_adders 0 = Done (Some 0) \<and> demo_adders 1 = Done (Some 1) \<and> demo_adders 2 = Done None \<and> nat_inv demo_added \<and>
    (\<exists>x n. deref demo_added 0 = Inr (Cell x n) \<and> flow_of x = demo_flow) \<and>
    (\<exists>x n. deref demo_added 1 = Inr (Cell x n) \<and> flow_of x = demo_flow)"
proof -
  have d: "demo_adders 0 = Done (Some 0)" "demo_adders 1 = Done (Some 1)" "demo_adders 2 = Done None"
    by (simp_all add: demo_adders_def)
  note r = gw_add_interleaved [OF demo_adders_run nat_inv_init]
  obtain x n y m where "deref demo_added 0 = Inr (Cell x n)" "flow_of x = demo_flow"
    "deref demo_added 1 = Inr (Cell y m)" "flow_of y = demo_flow"
    using conjunct2 [OF conjunct2 [OF r], rule_format, OF d(1)] conjunct2 [OF conjunct2 [OF r], rule_format, OF d(2)] by auto
  then show ?thesis using demo_adders_run d conjunct1 [OF r]
    by auto
qed

text \<open>The check and the insertion of \<open>addEntry\<close> are not one critical section: two threads
  that add the same flow can end with two nodes for it, of which later lookups see only one.\<close>

theorem gw_add_duplicates:
  "\<exists>t pcs q r. (add_step (\<lambda>i. i \<noteq> 2) (\<lambda>_. (80, IP4 8 8 8 8, 53)))\<^sup>*\<^sup>* (chains_init MAXENTRY, \<lambda>_. Start) (t, pcs) \<and>
    pcs 0 = Done (Some q) \<and> pcs 1 = Done (Some r) \<and> q \<noteq> r \<and> lookupNatMap 80 (IP4 8 8 8 8) 53 t = Inr (Some r)"
proof -
  have "lookupNatMap 80 (IP4 8 8 8 8) 53 demo_added = Inr (Some 1)"
    by (simp add: lookupNatMap_def find_in_def head_def demo_added_def find_from.simps deref_def new_natMap_def)
  with demo_adders_run show ?thesis unfolding demo_flow_def
    by (intro exI [of _ demo_added] exI [of _ demo_adders]) (auto simp: demo_adders_def)
qed

end
