(* ===== verification/Checksum.thy ===== *)
theory Checksum
  imports Prelude
begin

text \<open>
  The Internet checksum as the gateway and the access point compute it
  (\<open>calculateCheckSum\<close>, the same function in Gateway/gatewayNAT.c and in
  hostapd-2.8/src/ofSwitchAP/controller_interface.c), the checksum of RFC 1071 as the reference,
  and exactly when the two agree: the code adds the carries into the sum once, the reference until
  none is left.
\<close>

section \<open>The code\<close>

text \<open>The loop over the 16-bit words of the data at \<open>off\<close>: \<open>k\<close> words from number \<open>num\<close>
  on, leaving out the word number \<open>skip\<close> (the checksum field itself).\<close>

primrec add_words :: "nat \<Rightarrow> buf \<Rightarrow> nat \<Rightarrow> nat \<Rightarrow> nat \<Rightarrow> int \<Rightarrow> int res" where
  "add_words 0 data off num skip headerSum = Inr headerSum"
| "add_words (Suc k) data off num skip headerSum =
     bindE (if num \<noteq> skip
            then bindE (ld16 data (off + 2 * num)) (\<lambda>w. Inr (headerSum + uint (ntohs w)))
            else Inr headerSum)
       (add_words k data off (Suc num) skip)"

definition calculateCheckSum :: "buf \<Rightarrow> nat \<Rightarrow> int \<Rightarrow> int \<Rightarrow> nat \<Rightarrow> bool \<Rightarrow> u16 res" where
  "calculateCheckSum data off last_word headerSum skip odd_len =
     bindE (add_words (nat last_word) data off 0 skip headerSum) (\<lambda>headerSum.
     bindE (if odd_len
            then bindE (ld16 data (off + 2 * nat last_word))
                   (\<lambda>w. Inr (headerSum + uint (ntohs w AND 0xff00)))
            else Inr headerSum) (\<lambda>headerSum.
     let carry = drop_bit 16 headerSum;
         headerSum = headerSum AND 0xffff
     in Inr (word_of_int (NOT (headerSum + carry) AND 0xffff))))"

section \<open>The reference\<close>

text \<open>RFC 1071: the one's complement sum of the words (carries folded in until the sum fits in 16
  bits) and its complement. A receiver accepts data whose words, the checksum included, fold to
  \<open>0xffff\<close>.\<close>

function fold16 :: "nat \<Rightarrow> nat" where
  "fold16 s = (if s < 65536 then s else fold16 (s mod 65536 + s div 65536))"
  by pat_completeness auto
termination
proof (relation "measure id")
  fix s :: nat
  assume "\<not> s < 65536"
  then have "0 < s div 65536" by simp
  moreover have "s mod 65536 + 65536 * (s div 65536) = s" by simp
  ultimately have "s mod 65536 + s div 65536 < s" by linarith
  then show "(s mod 65536 + s div 65536, s) \<in> measure id" by simp
qed simp

declare fold16.simps [simp del]

definition rfc1071 :: "nat \<Rightarrow> nat" where
  "rfc1071 s = 65535 - fold16 s"

text \<open>One fold of the carry, which is what the code does.\<close>

definition fold_once :: "nat \<Rightarrow> nat" where
  "fold_once s = s mod 65536 + s div 65536"

definition single_fold :: "nat \<Rightarrow> bool" where
  "single_fold s \<longleftrightarrow> fold_once s < 65536"

lemma fold16_small: "s < 65536 \<Longrightarrow> fold16 s = s"
  by (subst fold16.simps) simp

lemma fold16_once: "fold16 (fold_once s) = fold16 s"
proof (cases "s < 65536")
  case False
  then show ?thesis by (simp add: fold16.simps [of s] fold_once_def)
qed (simp add: fold_once_def)

lemma fold16_single: "single_fold s \<Longrightarrow> fold16 s = fold_once s"
  using fold16_once [of s] fold16_small [of "fold_once s"] by (simp add: single_fold_def)

lemma fold16_less: "fold16 s < 65536"
  by (induction s rule: fold16.induct) (subst fold16.simps, auto)

lemma mod_65535_fold: "(s mod 65536 + s div 65536) mod 65535 = s mod (65535 :: nat)"
proof -
  have "s mod 65535 = (s mod 65536 + 65536 * (s div 65536)) mod 65535" by (simp only: mod_mult_div_eq)
  also have "\<dots> = ((s mod 65536 + s div 65536) + 65535 * (s div 65536)) mod 65535"
    by (rule arg_cong [where f = "\<lambda>x. x mod 65535"]) linarith
  also have "\<dots> = (s mod 65536 + s div 65536) mod 65535" by (simp only: mod_mult_self2)
  finally show ?thesis by (rule sym)
qed

lemma fold16_mod: "fold16 s mod 65535 = s mod 65535"
proof (induction s rule: fold16.induct)
  case (1 s)
  then show ?case by (subst fold16.simps) (simp add: mod_65535_fold)
qed

lemma fold16_eq_0: "fold16 s = 0 \<longleftrightarrow> s = 0"
proof (induction s rule: fold16.induct)
  case (1 s)
  then show ?case by (subst fold16.simps) auto
qed

text \<open>The receiver's test in closed form.\<close>

lemma fold16_ffff: "fold16 s = 65535 \<longleftrightarrow> s mod 65535 = 0 \<and> s \<noteq> 0"
proof
  assume a: "fold16 s = 65535"
  then have "s mod 65535 = 0" using fold16_mod [of s] by simp
  moreover have "s \<noteq> 0" using a fold16_eq_0 [of s] by simp
  ultimately show "s mod 65535 = 0 \<and> s \<noteq> 0" ..
next
  assume a: "s mod 65535 = 0 \<and> s \<noteq> 0"
  then have "fold16 s mod 65535 = 0" "fold16 s \<noteq> 0" by (simp_all add: fold16_mod fold16_eq_0)
  then obtain k where k: "fold16 s = 65535 * k" and k0: "k \<noteq> 0"
    by (metis mod_0_imp_dvd dvdE mult_0_right)
  then have "k < 2" using fold16_less [of s] by simp
  with k0 have "k = 1" by simp
  with k show "fold16 s = 65535" by simp
qed

section \<open>The sum the loop computes\<close>

definition be16 :: "buf \<Rightarrow> nat \<Rightarrow> nat" where
  "be16 d i = 256 * unat (d ! i) + unat (d ! Suc i)"

definition words_sum :: "buf \<Rightarrow> nat \<Rightarrow> nat list \<Rightarrow> nat" where
  "words_sum d off ns = sum_list (map (\<lambda>i. be16 d (off + 2 * i)) ns)"

definition odd_byte :: "buf \<Rightarrow> nat \<Rightarrow> bool \<Rightarrow> nat" where
  "odd_byte d i odd_len = (if odd_len then 256 * unat (d ! i) else 0)"

lemma int_be16: "int (be16 d i) = 256 * uint (d ! i) + uint (d ! Suc i)"
  by (simp add: be16_def)
lemma ld16_be16: "i + 2 \<le> length d \<Longrightarrow>
    bindE (ld16 d i) (\<lambda>w. Inr (s + uint (ntohs w))) = Inr (s + int (be16 d i))"
  by (simp add: ld16_def int_be16 uint_le16)

lemma add_words_ok:
  assumes "off + 2 * (num + k) \<le> length d"
  shows "add_words k d off num skip s =
    Inr (s + int (words_sum d off (filter (\<lambda>i. i \<noteq> skip) [num..<num + k])))"
  using assms
proof (induction k arbitrary: num s)
  case 0
  then show ?case by (simp add: words_sum_def)
next
  case (Suc k)
  have up: "[num..<num + Suc k] = num # [Suc num..<Suc num + k]"
    by (metis add_Suc_right add_Suc less_add_Suc1 upt_conv_Cons)
  from Suc.prems have "off + 2 * num + 2 \<le> length d" by simp
  then show ?case
    unfolding up using Suc.prems Suc.IH [of "Suc num"]
    by (cases "num = skip") (simp_all del: upt_Suc add: ld16_be16 words_sum_def)
qed

lemma high_byte_mask: "le16 b a AND 0xff00 = le16 0 a"
proof (rule bit_word_eqI)
  fix n assume "n < LENGTH(16)"
  then have n: "n < 16" by simp
  have m: "(0xff00 :: u16) = push_bit 8 (mask 8)" by (simp add: mask_eq_exp_minus_1)
  show "bit (le16 b a AND 0xff00) n = bit (le16 0 a) n"
    using n by (auto simp: le16_def m bit_simps dest: bit_imp_le_length)
qed

lemma uint_high_byte: "uint (ntohs (le16 a b) AND 0xff00) = 256 * uint a"
  unfolding ntohs_le16 high_byte_mask uint_le16 by simp

lemma and_ffff: "(x AND 0xffff) = x mod 65536" for x :: int
proof -
  have "x AND mask 16 = take_bit 16 x" by (simp only: take_bit_eq_mask)
  then show ?thesis by (simp add: take_bit_eq_mod mask_eq_exp_minus_1)
qed

lemma complement_mod: "(- x - 1) mod 65536 = 65535 - x mod 65536" for x :: int
proof -
  define q r where "q = x div 65536" and "r = x mod 65536"
  have x: "x = 65536 * q + r" by (simp add: q_def r_def)
  have "- x - 1 = (65535 - r) + 65536 * (- q - 1)" unfolding x by simp
  then have "(- x - 1) mod 65536 = (65535 - r) mod 65536" by (simp only: mod_mult_self2)
  also have "\<dots> = 65535 - r" unfolding r_def by (rule mod_pos_pos_trivial) simp_all
  finally show ?thesis by (simp only: r_def)
qed

lemma code_fold:
  "(word_of_int (NOT ((int s AND 0xffff) + drop_bit 16 (int s)) AND 0xffff) :: u16) =
     word_of_nat (65535 - fold_once s mod 65536)"
proof -
  let ?x = "int (fold_once s)"
  have 1: "(int s AND 0xffff) + drop_bit 16 (int s) = ?x"
    by (simp add: and_ffff drop_bit_eq_div fold_once_def zmod_int zdiv_int)
  have 2: "NOT ?x AND 0xffff = int (65535 - fold_once s mod 65536)"
    by (simp add: and_ffff not_eq_complement complement_mod of_nat_diff zmod_int)
  show ?thesis
    unfolding 1 2 by simp
qed

section \<open>What the code computes\<close>

text \<open>The words that enter the sum.\<close>

definition checksum_input :: "buf \<Rightarrow> nat \<Rightarrow> nat \<Rightarrow> nat \<Rightarrow> bool \<Rightarrow> nat" where
  "checksum_input d off n skip odd_len =
     words_sum d off (filter (\<lambda>i. i \<noteq> skip) [0..<n]) + odd_byte d (off + 2 * n) odd_len"

lemma calculateCheckSum_eq:
  assumes "off + 2 * n + (if odd_len then 2 else 0) \<le> length d"
  shows "calculateCheckSum d off (int n) (int s) skip odd_len =
    Inr (word_of_nat (65535 - fold_once (s + checksum_input d off n skip odd_len) mod 65536))"
proof -
  let ?w = "words_sum d off (filter (\<lambda>i. i \<noteq> skip) [0..<n])"
  have loop: "add_words n d off 0 skip (int s) = Inr (int (s + ?w))"
    using assms by (subst add_words_ok) (auto split: if_splits)
  have odd: "bindE (if odd_len then bindE (ld16 d (off + 2 * n))
        (\<lambda>w. Inr (int (s + ?w) + uint (ntohs w AND 0xff00))) else Inr (int (s + ?w)))
      f = f (int (s + ?w + odd_byte d (off + 2 * n) odd_len))" for f :: "int \<Rightarrow> u16 res"
    using assms by (auto simp: ld16_def uint_high_byte odd_byte_def simp del: ntohs_le16)
  show ?thesis
    unfolding calculateCheckSum_def Let_def nat_int loop bindE.simps odd code_fold
    by (simp add: checksum_input_def add.assoc)
qed

lemma sum_list_upt_remove:
  "k < n \<Longrightarrow> sum_list (map f [0..<n]) = f k + sum_list (map f (filter (\<lambda>i. i \<noteq> k) [0..<n]))"
  for f :: "nat \<Rightarrow> nat"
proof (induction n)
  case (Suc n)
  show ?case
  proof (cases "k = n")
    case True
    then have "filter (\<lambda>i. i \<noteq> k) [0..<n] = [0..<n]" by (auto intro: filter_True)
    with True show ?thesis by simp
  next
    case False
    with Suc show ?thesis by simp
  qed
qed simp

lemma be16_le: "be16 d i \<le> 65535"
proof -
  have "unat (d ! i) < 256" "unat (d ! Suc i) < 256" by (rule unat_byte_less)+
  then show ?thesis unfolding be16_def by linarith
qed

lemma words_sum_le: "words_sum d off ns \<le> 65535 * length ns"
proof (induction ns)
  case (Cons i ns)
  then show ?case using be16_le [of d "off + 2 * i"] by (simp add: words_sum_def)
qed (simp add: words_sum_def)

lemma checksum_input_le: "checksum_input d off n skip odd_len \<le> 65535 * n + 65280"
proof -
  have "words_sum d off (filter (\<lambda>i. i \<noteq> skip) [0..<n]) \<le> 65535 * length [0..<n]"
    using words_sum_le [of d off "filter (\<lambda>i. i \<noteq> skip) [0..<n]"] length_filter_le
    by (metis le_trans mult_le_mono2)
  moreover have "odd_byte d i odd_len \<le> 65280" for i
    using unat_byte_less [of "d ! i"] by (auto simp: odd_byte_def)
  ultimately show ?thesis
    unfolding checksum_input_def by (metis add_mono diff_zero length_upt)
qed

lemma fold_once_less: "s < 2 ^ 32 \<Longrightarrow> fold_once s < 2 * 65536"
proof -
  assume "s < 2 ^ 32"
  then have "s div 65536 < 65536" by (simp add: div_less_iff_less_mult)
  moreover have "s mod 65536 < 65536" by simp
  ultimately show ?thesis unfolding fold_once_def by linarith
qed

lemma unat_word_of_nat_u16: "k < 65536 \<Longrightarrow> unat (word_of_nat k :: u16) = k"
  by (simp add: unsigned_of_nat take_bit_eq_mod)

lemma fold_once_mod: "fold_once s mod 65535 = s mod 65535"
  unfolding fold_once_def by (rule mod_65535_fold)

lemma fold_complement:
  assumes "s < 2 ^ 32"
  shows "fold16 (s + (65535 - fold_once s mod 65536)) = 65535 \<longleftrightarrow> single_fold s"
proof (cases "single_fold s")
  case True
  then have le: "fold_once s \<le> 65535" and m: "fold_once s mod 65536 = fold_once s"
    by (simp_all add: single_fold_def)
  have "(s + (65535 - fold_once s)) mod 65535 = (fold_once s + (65535 - fold_once s)) mod 65535"
    by (metis fold_once_mod mod_add_left_eq)
  also have "\<dots> = 0" using le by simp
  finally have "(s + (65535 - fold_once s)) mod 65535 = 0" .
  moreover have "s + (65535 - fold_once s) \<noteq> 0"
  proof
    assume "s + (65535 - fold_once s) = 0"
    then have "s = 0" and "65535 \<le> fold_once s" by linarith+
    then show False by (simp add: fold_once_def)
  qed
  ultimately show ?thesis using True m by (simp add: fold16_ffff)
next
  case False
  then have "65536 \<le> fold_once s" by (simp add: single_fold_def)
  then obtain r where r: "fold_once s = 65536 + r" by (metis le_add_diff_inverse)
  with fold_once_less [OF assms] have r': "r < 65536" by simp
  have m: "fold_once s mod 65536 = r" using r r' by simp
  have "(s + (65535 - r)) mod 65535 = (fold_once s + (65535 - r)) mod 65535"
    by (metis fold_once_mod mod_add_left_eq)
  also have "fold_once s + (65535 - r) = 131071" using r r' by simp
  finally have "(s + (65535 - r)) mod 65535 \<noteq> 0" by simp
  then show ?thesis using False m by (simp add: fold16_ffff)
qed

section \<open>Properties\<close>

text \<open>C22. The checksum the code computes is accepted by a receiver (the words, the checksum and
  any partial sum carried in fold to \<open>0xffff\<close>) exactly when adding the carries once leaves no
  further carry.\<close>

theorem checksum_accepted_iff:
  assumes "off + 2 * n + (if odd_len then 2 else 0) \<le> length d"
    and "s + checksum_input d off n skip odd_len < 2 ^ 31"
  shows "\<exists>c. calculateCheckSum d off (int n) (int s) skip odd_len = Inr c \<and>
    (fold16 (s + checksum_input d off n skip odd_len + unat c) = 65535 \<longleftrightarrow>
     single_fold (s + checksum_input d off n skip odd_len))"
proof -
  let ?S = "s + checksum_input d off n skip odd_len"
  have "unat (word_of_nat (65535 - fold_once ?S mod 65536) :: u16) = 65535 - fold_once ?S mod 65536"
    by (rule unat_word_of_nat_u16) simp
  moreover have "?S < 2 ^ 32" using assms(2) by simp
  ultimately show ?thesis
    using fold_complement [of ?S] by (simp add: calculateCheckSum_eq [OF assms(1)])
qed

theorem checksum_accepted_iff_witness:
  "\<exists>c. calculateCheckSum [0x45, 0, 0, 20, 0, 0] 0 (int 3) (int 0) 2 False = Inr c \<and>
    (fold16 (0 + checksum_input [0x45, 0, 0, 20, 0, 0] 0 3 2 False + unat c) = 65535 \<longleftrightarrow>
     single_fold (0 + checksum_input [0x45, 0, 0, 20, 0, 0] 0 3 2 False))"
  by (rule checksum_accepted_iff)
    (simp_all add: checksum_input_def words_sum_def odd_byte_def be16_def upt_rec)

end
