(* ===== verification/Packet.thy ===== *)
theory Packet
  imports Checksum "HOL-Library.Sublist"
begin

text \<open>
  IPv4 packets as the gateway and the access point see them: the header structs that both programs
  overlay on the payload of a netfilter queue, the textual subnet test, and the code at the end of
  both packet handlers that recomputes the checksums of the rewritten packet.

  A packet is the memory from the payload pointer to the end of the receive buffer; the payload is
  its first \<open>ret\<close> bytes. Shown here: what the checksum code changes, that the packet it leaves
  is accepted by a receiver, and which addresses the subnet test admits.
\<close>

section \<open>Headers\<close>

record ip_header_t =
  ver_ihl :: byte
  tos :: byte
  total_length :: u16
  ip_id :: u16
  flags_fo :: u16
  ttl :: byte
  protocol :: byte
  checksum :: u16
  src_addr :: ip4
  dst_addr :: ip4

text \<open>The pointer cast \<open>(struct ip_header_t *)data\<close>, as a read of the whole struct.\<close>

definition ip_header :: "buf \<Rightarrow> ip_header_t res" where
  "ip_header data =
     bindE (ld8 data 0) (\<lambda>v. bindE (ld8 data 1) (\<lambda>t. bindE (ld16 data 2) (\<lambda>l.
     bindE (ld16 data 4) (\<lambda>i. bindE (ld16 data 6) (\<lambda>f. bindE (ld8 data 8) (\<lambda>h.
     bindE (ld8 data 9) (\<lambda>p. bindE (ld16 data 10) (\<lambda>c. bindE (ld_ip4 data 12) (\<lambda>s.
     bindE (ld_ip4 data 16) (\<lambda>d.
       Inr \<lparr>ver_ihl = v, tos = t, total_length = l, ip_id = i, flags_fo = f, ttl = h,
            protocol = p, checksum = c, src_addr = s, dst_addr = d\<rparr>))))))))))"

text \<open>\<open>(ipH->ver_ihl & 0x0f)*4\<close>, the length of the header in bytes.\<close>

definition hdr_len :: "ip_header_t \<Rightarrow> nat" where
  "hdr_len ipH = unat (ver_ihl ipH AND 0x0f) * 4"

record transport_header =
  src_port :: u16
  dst_port :: u16

definition transport_at :: "buf \<Rightarrow> nat \<Rightarrow> transport_header res" where
  "transport_at data off =
     bindE (ld16 data off) (\<lambda>s. bindE (ld16 data (off + 2)) (\<lambda>d.
       Inr \<lparr>src_port = s, dst_port = d\<rparr>))"

record pseudo_header =
  ph_src_addr :: ip4
  ph_dst_addr :: ip4
  ph_zeroes :: byte
  ph_protocol :: byte
  ph_length :: u16

definition pseudo_bytes :: "pseudo_header \<Rightarrow> buf" where
  "pseudo_bytes pH = ip4_bytes (ph_src_addr pH) @ ip4_bytes (ph_dst_addr pH) @
     [ph_zeroes pH, ph_protocol pH] @ bytes16 (ph_length pH)"

section \<open>Recomputing the checksums\<close>

text \<open>C division truncates towards zero.\<close>

definition c_half :: "int \<Rightarrow> int" where
  "c_half x = (if x < 0 then - ((- x) div 2) else x div 2)"

text \<open>\<open>if (ntohs(field) != checksum) field = htons(checksum)\<close>\<close>

definition store_checksum :: "buf \<Rightarrow> nat \<Rightarrow> u16 \<Rightarrow> buf res" where
  "store_checksum data off c = bindE (ld16 data off) (\<lambda>old.
     if ntohs old \<noteq> c then st16 data off (htons c) else Inr data)"

definition fill_pseudo_header :: "ip_header_t \<Rightarrow> pseudo_header" where
  "fill_pseudo_header ipH =
     \<lparr>ph_src_addr = src_addr ipH, ph_dst_addr = dst_addr ipH, ph_zeroes = 0,
      ph_protocol = protocol ipH,
      ph_length = htons (ntohs (total_length ipH) - of_nat (hdr_len ipH))\<rparr>"

definition fix_ip_checksum :: "buf \<Rightarrow> buf res" where
  "fix_ip_checksum data = bindE (ip_header data) (\<lambda>ipH.
     bindE (calculateCheckSum data 0 (int (unat (ver_ihl ipH AND 0x0f) * 2)) 0 5 False) (\<lambda>c.
     store_checksum data 10 c))"

definition fix_transport_checksum :: "buf \<Rightarrow> buf res" where
  "fix_transport_checksum data = bindE (ip_header data) (\<lambda>ipH.
     bindE (add_words 6 (pseudo_bytes (fill_pseudo_header ipH)) 0 0 6 0) (\<lambda>headerSum.
     let off = hdr_len ipH;
         last_word = c_half (uint (ntohs (total_length ipH)) - int off);
         odd_len = (unat (ntohs (total_length ipH)) mod 2 \<noteq> 0)
     in if protocol ipH = 17 then
          bindE (calculateCheckSum data off last_word headerSum 3 odd_len) (\<lambda>c.
          store_checksum data (off + 6) c)
        else if protocol ipH = 6 then
          bindE (calculateCheckSum data off last_word headerSum 8 odd_len) (\<lambda>c.
          store_checksum data (off + 16) c)
        else Inr data))"

definition fix_checksums :: "buf \<Rightarrow> buf res" where
  "fix_checksums data = bindE (fix_ip_checksum data) fix_transport_checksum"

section \<open>Fields of a packet in memory\<close>

definition ihl4 :: "buf \<Rightarrow> nat" where
  "ihl4 d = unat (d ! 0 AND 0x0f) * 4"

definition src_of :: "buf \<Rightarrow> ip4" where
  "src_of d = IP4 (d ! 12) (d ! 13) (d ! 14) (d ! 15)"

definition dst_of :: "buf \<Rightarrow> ip4" where
  "dst_of d = IP4 (d ! 16) (d ! 17) (d ! 18) (d ! 19)"

definition sport_of :: "buf \<Rightarrow> u16" where
  "sport_of d = le16 (d ! ihl4 d) (d ! (ihl4 d + 1))"

definition dport_of :: "buf \<Rightarrow> u16" where
  "dport_of d = le16 (d ! (ihl4 d + 2)) (d ! (ihl4 d + 3))"

definition tot_len :: "buf \<Rightarrow> nat" where
  "tot_len d = be16 d 2"

lemma ihl4_less: "ihl4 d \<le> 60"
proof -
  have "d ! 0 AND 0x0f \<le> 0x0f" by (rule word_and_le1)
  then have "unat (d ! 0 AND 0x0f) \<le> unat (0x0f :: byte)" by (simp only: word_le_nat_alt)
  then show ?thesis by (simp add: ihl4_def)
qed

lemma ip_header_eq:
  assumes "20 \<le> length d"
  shows "ip_header d = Inr
     \<lparr>ver_ihl = d ! 0, tos = d ! 1, total_length = le16 (d ! 2) (d ! 3),
      ip_id = le16 (d ! 4) (d ! 5), flags_fo = le16 (d ! 6) (d ! 7), ttl = d ! 8,
      protocol = d ! 9, checksum = le16 (d ! 10) (d ! 11), src_addr = src_of d, dst_addr = dst_of d\<rparr>"
proof -
  from assms have "d \<noteq> []" by auto
  with assms show ?thesis
    by (simp add: ip_header_def ld8_def ld16_def ld_ip4_def src_of_def dst_of_def)
qed

lemma ip_header_short: "length d < 20 \<Longrightarrow> ip_header d = Inl OutOfBounds"
  by (auto simp: ip_header_def ld8_def ld16_def ld_ip4_def bindE_eq_Inl)

lemma transport_at_eq:
  "ihl4 d + 4 \<le> length d \<Longrightarrow> transport_at d (ihl4 d) = Inr \<lparr>src_port = sport_of d, dst_port = dport_of d\<rparr>"
  by (simp add: transport_at_def ld16_def sport_of_def dport_of_def numeral_eq_Suc)

section \<open>What the checksum code leaves\<close>

lemma bytes16_htons: "bytes16 (htons c) = [byte_of 1 c, byte_of 0 c]"
  by (simp add: htons_def ntohs_def)

lemma be16_stored:
  "i + 2 \<le> length d \<Longrightarrow> be16 (splice d i (bytes16 (htons c))) i = unat c"
proof -
  assume a: "i + 2 \<le> length d"
  have "unat c = unat (le16 (byte_of 0 c) (byte_of 1 c))" by simp
  also have "\<dots> = unat (byte_of 0 c) + 256 * unat (byte_of 1 c)" by (rule unat_le16)
  finally show ?thesis using a by (simp add: be16_def nth_splice bytes16_htons)
qed

lemma be16_splice_other:
  "i + length xs \<le> length d \<Longrightarrow> j + 2 \<le> length d \<Longrightarrow> j + 2 \<le> i \<or> i + length xs \<le> j \<Longrightarrow>
     be16 (splice d i xs) j = be16 d j"
  by (auto simp: be16_def nth_splice)

text \<open>The conditional store leaves the checksum in the field, whatever was there.\<close>

lemma store_checksum_eq:
  assumes "off + 2 \<le> length d"
  shows "store_checksum d off c = Inr (splice d off (bytes16 (htons c)))"
proof (cases "ntohs (le16 (d ! off) (d ! (off + 1))) = c")
  case True
  then have "htons c = le16 (d ! off) (d ! (off + 1))" by (auto simp: htons_def)
  then have "bytes16 (htons c) = [d ! off, d ! (off + 1)]" by simp
  then have "splice d off (bytes16 (htons c)) = d"
    using assms by (intro nth_equalityI) (auto simp: nth_splice less_Suc_eq nth_Cons')
  then show ?thesis using True assms by (simp add: store_checksum_def ld16_def)
next
  case False
  then show ?thesis using assms by (simp add: store_checksum_def ld16_def st16_def wr_def)
qed

text \<open>The words of \<open>n\<close> words at \<open>off\<close> with the checksum stored in word \<open>k\<close>: the sum of the
  others, which the code computed, and the checksum.\<close>

lemma words_sum_stored:
  assumes "k < n" "off + 2 * n \<le> length d"
  shows "words_sum (splice d (off + 2 * k) (bytes16 (htons c))) off [0..<n] =
    words_sum d off (filter (\<lambda>i. i \<noteq> k) [0..<n]) + unat c"
proof -
  let ?d = "splice d (off + 2 * k) (bytes16 (htons c))"
  have "be16 ?d (off + 2 * i) = be16 d (off + 2 * i)" if "i \<in> set (filter (\<lambda>i. i \<noteq> k) [0..<n])" for i
    using that assms by (intro be16_splice_other) auto
  then have "words_sum ?d off (filter (\<lambda>i. i \<noteq> k) [0..<n]) =
      words_sum d off (filter (\<lambda>i. i \<noteq> k) [0..<n])"
    unfolding words_sum_def by (metis (no_types, lifting) map_cong)
  moreover have "be16 ?d (off + 2 * k) = unat c"
    using assms by (intro be16_stored) auto
  moreover have "words_sum ?d off [0..<n] =
      be16 ?d (off + 2 * k) + words_sum ?d off (filter (\<lambda>i. i \<noteq> k) [0..<n])"
    unfolding words_sum_def by (rule sum_list_upt_remove [OF assms(1)])
  ultimately show ?thesis by simp
qed

text \<open>A receiver's view of the two checksums.\<close>

definition ip_sum :: "buf \<Rightarrow> nat" where
  "ip_sum d = words_sum d 0 [0..<ihl4 d div 2]"

definition pseudo_of :: "buf \<Rightarrow> buf" where
  "pseudo_of d = ip4_bytes (src_of d) @ ip4_bytes (dst_of d) @ [0, d ! 9] @
     bytes16 (htons (word_of_nat (tot_len d) - word_of_nat (ihl4 d)))"

definition transport_words :: "buf \<Rightarrow> nat" where
  "transport_words d = (tot_len d - ihl4 d) div 2"

definition transport_sum :: "buf \<Rightarrow> nat" where
  "transport_sum d = words_sum (pseudo_of d) 0 [0..<6] + words_sum d (ihl4 d) [0..<transport_words d] +
     odd_byte d (ihl4 d + 2 * transport_words d) (odd (tot_len d))"

definition ip_accepted :: "buf \<Rightarrow> bool" where
  "ip_accepted d \<longleftrightarrow> fold16 (ip_sum d) = 65535"

definition transport_accepted :: "buf \<Rightarrow> bool" where
  "transport_accepted d \<longleftrightarrow> fold16 (transport_sum d) = 65535"

text \<open>The word that holds the checksum of the transport protocol.\<close>

definition csum_word :: "buf \<Rightarrow> nat option" where
  "csum_word d = (if d ! 9 = 17 then Some 3 else if d ! 9 = 6 then Some 8 else None)"

text \<open>The sums the code computes before it folds them.\<close>

definition ip_raw :: "buf \<Rightarrow> nat" where
  "ip_raw d = words_sum d 0 (filter (\<lambda>i. i \<noteq> 5) [0..<ihl4 d div 2])"

definition transport_raw :: "nat \<Rightarrow> buf \<Rightarrow> nat" where
  "transport_raw k d = words_sum (pseudo_of d) 0 [0..<6] +
     words_sum d (ihl4 d) (filter (\<lambda>i. i \<noteq> k) [0..<transport_words d]) +
     odd_byte d (ihl4 d + 2 * transport_words d) (odd (tot_len d))"

text \<open>A packet in memory: the header has at least its five words, the total length covers the
  header and the transport checksum, and the memory holds the packet (one byte more when its length
  is odd, since the last byte is read as half of a word).\<close>

definition wf_packet :: "buf \<Rightarrow> bool" where
  "wf_packet d \<longleftrightarrow> 20 \<le> ihl4 d \<and> ihl4 d + 4 \<le> tot_len d \<and>
     (case csum_word d of None \<Rightarrow> True | Some k \<Rightarrow> ihl4 d + 2 * k + 2 \<le> tot_len d) \<and>
     tot_len d + (if odd (tot_len d) then 1 else 0) \<le> length d"

lemma tot_len_less: "tot_len d < 65536"
  unfolding tot_len_def by (rule le_less_trans [OF be16_le]) simp

lemma unat_tot_len: "unat (le16 (d ! 3) (d ! 2)) = tot_len d"
  by (simp add: unat_le16 tot_len_def be16_def numeral_eq_Suc)

lemma words_sum_cong:
  "(\<And>i. i \<in> set ns \<Longrightarrow> d ! (off + 2 * i) = d' ! (off + 2 * i) \<and> d ! Suc (off + 2 * i) = d' ! Suc (off + 2 * i))
   \<Longrightarrow> words_sum d off ns = words_sum d' off ns"
  unfolding words_sum_def be16_def by (metis (no_types, lifting) map_cong)

lemma wf_packetD:
  assumes "wf_packet d"
  shows "20 \<le> ihl4 d" "ihl4 d + 4 \<le> tot_len d" "tot_len d \<le> length d" "24 \<le> length d"
    "csum_word d = Some k \<Longrightarrow> ihl4 d + 2 * k + 2 \<le> tot_len d"
    "ihl4 d + 2 * transport_words d + (if odd (tot_len d) then 2 else 0) \<le> length d"
    "csum_word d = Some k \<Longrightarrow> k < transport_words d"
    "even (ihl4 d)"
proof -
  show 1: "20 \<le> ihl4 d" "ihl4 d + 4 \<le> tot_len d" "tot_len d \<le> length d"
    and 5: "csum_word d = Some k \<Longrightarrow> ihl4 d + 2 * k + 2 \<le> tot_len d"
    using assms by (auto simp: wf_packet_def split: if_splits)
  show "24 \<le> length d" using 1 by linarith
  show "csum_word d = Some k \<Longrightarrow> k < transport_words d"
    using 5 by (auto simp: transport_words_def less_eq_div_iff_mult_less_eq Suc_le_eq [symmetric])
  show e: "even (ihl4 d)" by (simp add: ihl4_def)
  have "tot_len d = ihl4 d + 2 * transport_words d + (if odd (tot_len d) then 1 else 0)"
  proof -
    have "2 * transport_words d + (tot_len d - ihl4 d) mod 2 = tot_len d - ihl4 d"
      unfolding transport_words_def by simp
    moreover have "(tot_len d - ihl4 d) mod 2 = (if odd (tot_len d) then 1 else 0)"
      using 1 e by (auto simp: mod2_eq_if)
    ultimately show ?thesis using 1 by linarith
  qed
  then show "ihl4 d + 2 * transport_words d + (if odd (tot_len d) then 2 else 0) \<le> length d"
    using assms by (auto simp: wf_packet_def split: if_splits)
qed

lemma fix_ip_checksum_eq:
  assumes "wf_packet d"
  shows "\<exists>c. fix_ip_checksum d = Inr (splice d 10 (bytes16 (htons c))) \<and>
    unat c = 65535 - fold_once (ip_raw d) mod 65536"
proof -
  note w = wf_packetD [OF assms]
  let ?n = "unat (d ! 0 AND 0x0f) * 2" and ?c = "word_of_nat (65535 - fold_once (ip_raw d) mod 65536) :: u16"
  have n: "ihl4 d div 2 = ?n" by (simp add: ihl4_def)
  have "calculateCheckSum d 0 (int ?n) (int 0) 5 False = Inr ?c"
  proof (subst calculateCheckSum_eq)
    show "0 + 2 * ?n + (if False then 2 else 0) \<le> length d" using w by (simp add: ihl4_def)
  qed (simp add: checksum_input_def odd_byte_def ip_raw_def n)
  then have "fix_ip_checksum d = Inr (splice d 10 (bytes16 (htons ?c)))"
    using w by (simp add: fix_ip_checksum_def ip_header_eq store_checksum_eq)
  moreover have "unat ?c = 65535 - fold_once (ip_raw d) mod 65536"
    by (rule unat_word_of_nat_u16) simp
  ultimately show ?thesis by blast
qed

lemma fix_transport_none:
  "24 \<le> length d \<Longrightarrow> csum_word d = None \<Longrightarrow> fix_transport_checksum d = Inr d"
  by (auto simp: fix_transport_checksum_def ip_header_eq csum_word_def Let_def fill_pseudo_header_def
      pseudo_bytes_def add_words_ok split: if_splits)

lemma pseudo_sum:
  assumes "20 \<le> length d" "ip_header d = Inr ipH"
  shows "add_words 6 (pseudo_bytes (fill_pseudo_header ipH)) 0 0 6 0 =
    Inr (int (words_sum (pseudo_of d) 0 [0..<6]))"
proof -
  have f: "filter (\<lambda>i. i \<noteq> 6) [0..<0 + 6] = [0..<6]" by (auto intro: filter_True)
  have "word_of_nat (tot_len d) = ntohs (le16 (d ! 2) (d ! 3))"
    by (simp flip: unat_tot_len)
  moreover have "hdr_len ipH = ihl4 d"
    using assms by (auto simp: ip_header_eq hdr_len_def ihl4_def)
  ultimately have "pseudo_bytes (fill_pseudo_header ipH) = pseudo_of d"
    using assms by (auto simp: ip_header_eq pseudo_bytes_def fill_pseudo_header_def pseudo_of_def)
  moreover have "length (pseudo_of d) = 12" by (simp add: pseudo_of_def)
  ultimately show ?thesis by (subst add_words_ok) (simp_all add: f)
qed

lemma fix_transport_eq:
  assumes "wf_packet d" "csum_word d = Some k"
  shows "\<exists>c. fix_transport_checksum d = Inr (splice d (ihl4 d + 2 * k) (bytes16 (htons c))) \<and>
    unat c = 65535 - fold_once (transport_raw k d) mod 65536"
proof -
  note w = wf_packetD [OF assms(1)]
  let ?c = "word_of_nat (65535 - fold_once (transport_raw k d) mod 65536) :: u16"
  obtain ipH where h: "ip_header d = Inr ipH" and
    f: "hdr_len ipH = ihl4 d" "unat (ntohs (total_length ipH)) = tot_len d" "protocol ipH = d ! 9"
    using w(4) by (simp add: ip_header_eq hdr_len_def ihl4_def unat_tot_len)
  have ui: "uint (ntohs (total_length ipH)) = int (tot_len d)" using f(2) by (metis uint_nat)
  have half: "c_half (int (tot_len d) - int (ihl4 d)) = int (transport_words d)"
    using w(2) by (simp add: c_half_def transport_words_def zdiv_int of_nat_diff)
  have calc: "calculateCheckSum d (ihl4 d) (int (transport_words d))
      (int (words_sum (pseudo_of d) 0 [0..<6])) k (odd (tot_len d)) = Inr ?c"
    by (subst calculateCheckSum_eq [OF w(6)]) (simp add: checksum_input_def transport_raw_def add.assoc)
  have st: "store_checksum d (ihl4 d + 2 * k) ?c = Inr (splice d (ihl4 d + 2 * k) (bytes16 (htons ?c)))"
    using w(5) [OF assms(2)] w(3) by (intro store_checksum_eq) linarith
  have "fix_transport_checksum d = Inr (splice d (ihl4 d + 2 * k) (bytes16 (htons ?c)))"
    using assms(2) calc st w(4) h f ui half pseudo_sum [OF _ h]
    by (auto simp: fix_transport_checksum_def csum_word_def Let_def odd_iff_mod_2_eq_one split: if_splits)
  moreover have "unat ?c = 65535 - fold_once (transport_raw k d) mod 65536"
    by (rule unat_word_of_nat_u16) simp
  ultimately show ?thesis by blast
qed

text \<open>Two packets that differ in fields that the header lengths, the sums and the flow do not
  depend on.\<close>

lemma packet_fields_cong:
  assumes "\<And>i. i < 20 \<Longrightarrow> i \<noteq> 10 \<Longrightarrow> i \<noteq> 11 \<Longrightarrow> d' ! i = d ! i"
  shows "ihl4 d' = ihl4 d" "tot_len d' = tot_len d" "src_of d' = src_of d" "dst_of d' = dst_of d"
    "csum_word d' = csum_word d" "pseudo_of d' = pseudo_of d" "transport_words d' = transport_words d"
proof -
  have e: "d' ! 0 = d ! 0" "d' ! 2 = d ! 2" "d' ! 3 = d ! 3" "d' ! 9 = d ! 9"
    "d' ! 12 = d ! 12" "d' ! 13 = d ! 13" "d' ! 14 = d ! 14" "d' ! 15 = d ! 15"
    "d' ! 16 = d ! 16" "d' ! 17 = d ! 17" "d' ! 18 = d ! 18" "d' ! 19 = d ! 19"
    by (rule assms; simp)+
  show f: "ihl4 d' = ihl4 d" "tot_len d' = tot_len d" "src_of d' = src_of d" "dst_of d' = dst_of d"
    "csum_word d' = csum_word d"
    using e by (simp_all add: ihl4_def tot_len_def be16_def src_of_def dst_of_def csum_word_def
        numeral_2_eq_2 numeral_3_eq_3 del: One_nat_def)
  show "pseudo_of d' = pseudo_of d" using e f by (simp add: pseudo_of_def)
  show "transport_words d' = transport_words d" using f by (simp add: transport_words_def)
qed

text \<open>The bytes the checksum code may write.\<close>

definition csum_bytes :: "buf \<Rightarrow> nat set" where
  "csum_bytes d = {10, 11} \<union> (case csum_word d of None \<Rightarrow> {} | Some k \<Rightarrow> {ihl4 d + 2 * k, ihl4 d + 2 * k + 1})"

lemma fix_ip_checksum_wf:
  assumes wf: "wf_packet d"
  shows "\<exists>d1. fix_ip_checksum d = Inr d1 \<and> length d1 = length d \<and>
    (\<forall>i < length d. i \<noteq> 10 \<longrightarrow> i \<noteq> 11 \<longrightarrow> d1 ! i = d ! i) \<and> wf_packet d1 \<and>
    (ip_accepted d1 \<longleftrightarrow> single_fold (ip_raw d))"
proof -
  note w = wf_packetD [OF wf]
  obtain c where c: "fix_ip_checksum d = Inr (splice d 10 (bytes16 (htons c)))"
    "unat c = 65535 - fold_once (ip_raw d) mod 65536"
    using fix_ip_checksum_eq [OF wf] by blast
  let ?d = "splice d 10 (bytes16 (htons c))"
  have len: "length ?d = length d" using w(4) by simp
  have same: "\<forall>i < length d. i \<noteq> 10 \<longrightarrow> i \<noteq> 11 \<longrightarrow> ?d ! i = d ! i"
    using w(4) by (auto simp: nth_splice)
  then have f: "ihl4 ?d = ihl4 d" "tot_len ?d = tot_len d" "csum_word ?d = csum_word d"
    using w(4) packet_fields_cong [of ?d d] by auto
  have wf': "wf_packet ?d" using wf len by (simp only: wf_packet_def f)
  have "5 < ihl4 d div 2" using w(1) by linarith
  then have "ip_sum ?d = ip_raw d + unat c"
    using words_sum_stored [of 5 "ihl4 d div 2" 0 d c] w(1-3)
    by (simp add: ip_sum_def ip_raw_def f)
  moreover have "ip_raw d < 2 ^ 32"
  proof -
    have "ip_raw d \<le> 65535 * (ihl4 d div 2)"
      unfolding ip_raw_def
      by (rule order_trans [OF words_sum_le]) (metis length_filter_le length_upt diff_zero mult_le_mono2)
    moreover have "ihl4 d div 2 \<le> 30" using ihl4_less [of d] by simp
    ultimately show ?thesis by simp
  qed
  ultimately have "ip_accepted ?d \<longleftrightarrow> single_fold (ip_raw d)"
    using fold_complement c(2) by (simp add: ip_accepted_def)
  then show ?thesis using c(1) len same wf' by blast
qed

lemma transport_raw_cong:
  assumes "\<forall>i < length d. i \<noteq> 10 \<longrightarrow> i \<noteq> 11 \<longrightarrow> d' ! i = d ! i" "wf_packet d"
  shows "transport_raw k d' = transport_raw k d"
proof -
  note w = wf_packetD [OF assms(2)]
  have f: "ihl4 d' = ihl4 d" "tot_len d' = tot_len d" "pseudo_of d' = pseudo_of d"
    "transport_words d' = transport_words d"
    using w(4) assms(1) packet_fields_cong [of d' d] by auto
  have "words_sum d' (ihl4 d) (filter (\<lambda>i. i \<noteq> k) [0..<transport_words d]) =
      words_sum d (ihl4 d) (filter (\<lambda>i. i \<noteq> k) [0..<transport_words d])"
    using assms(1) w(1,6) by (intro words_sum_cong) auto
  moreover have "odd_byte d' (ihl4 d + 2 * transport_words d) (odd (tot_len d)) =
      odd_byte d (ihl4 d + 2 * transport_words d) (odd (tot_len d))"
    using assms(1) w(1,6) by (auto simp: odd_byte_def)
  ultimately show ?thesis by (simp add: transport_raw_def f)
qed

lemma transport_raw_less: "transport_raw k d < 2 ^ 32"
proof -
  have "words_sum d (ihl4 d) (filter (\<lambda>i. i \<noteq> k) [0..<transport_words d]) +
      odd_byte d (ihl4 d + 2 * transport_words d) (odd (tot_len d)) \<le> 65535 * transport_words d + 65280"
    using checksum_input_le [of d "ihl4 d" "transport_words d" k "odd (tot_len d)"]
    by (simp add: checksum_input_def)
  moreover have "words_sum (pseudo_of d) 0 [0..<6] \<le> 65535 * 6"
    using words_sum_le [of "pseudo_of d" 0 "[0..<6]"] by simp
  moreover have "transport_words d < 32768" using tot_len_less [of d] by (simp add: transport_words_def)
  ultimately show ?thesis by (simp add: transport_raw_def)
qed

lemma ip_accepted_cong:
  assumes "\<forall>i < ihl4 d. d' ! i = d ! i" "20 \<le> ihl4 d"
  shows "ip_accepted d' \<longleftrightarrow> ip_accepted d"
proof -
  have "ihl4 d' = ihl4 d" using assms by (simp add: ihl4_def)
  moreover have "words_sum d' 0 [0..<ihl4 d div 2] = words_sum d 0 [0..<ihl4 d div 2]"
    using assms(1) by (intro words_sum_cong) auto
  ultimately show ?thesis by (simp add: ip_accepted_def ip_sum_def)
qed

lemma fix_transport_wf:
  assumes wf: "wf_packet d" and k: "csum_word d = Some k"
  shows "\<exists>d1. fix_transport_checksum d = Inr d1 \<and> length d1 = length d \<and>
    (\<forall>i < length d. i \<noteq> ihl4 d + 2 * k \<longrightarrow> i \<noteq> ihl4 d + 2 * k + 1 \<longrightarrow> d1 ! i = d ! i) \<and>
    (ip_accepted d1 \<longleftrightarrow> ip_accepted d) \<and>
    (transport_accepted d1 \<longleftrightarrow> single_fold (transport_raw k d))"
proof -
  note w = wf_packetD [OF wf]
  obtain c where c: "fix_transport_checksum d = Inr (splice d (ihl4 d + 2 * k) (bytes16 (htons c)))"
    "unat c = 65535 - fold_once (transport_raw k d) mod 65536"
    using fix_transport_eq [OF wf k] by blast
  let ?d = "splice d (ihl4 d + 2 * k) (bytes16 (htons c))"
  have b: "ihl4 d + 2 * k + 2 \<le> length d" using w(5) [OF k] w(3) by linarith
  have len: "length ?d = length d" using b by simp
  have same: "\<forall>i < length d. i \<noteq> ihl4 d + 2 * k \<longrightarrow> i \<noteq> ihl4 d + 2 * k + 1 \<longrightarrow> ?d ! i = d ! i"
    using b by (auto simp: nth_splice)
  have hdr: "\<forall>i < ihl4 d. ?d ! i = d ! i" using same w by auto
  then have f: "ihl4 ?d = ihl4 d" "tot_len ?d = tot_len d" "pseudo_of ?d = pseudo_of d"
    "transport_words ?d = transport_words d"
    using w(1) packet_fields_cong [of ?d d] by auto
  have ob: "odd_byte ?d (ihl4 d + 2 * transport_words d) (odd (tot_len d)) =
      odd_byte d (ihl4 d + 2 * transport_words d) (odd (tot_len d))"
    using same w(6,7) k by (auto simp: odd_byte_def)
  have "transport_sum ?d = transport_raw k d + unat c"
    using words_sum_stored [of k "transport_words d" "ihl4 d" d c] w(6) w(7) [OF k] ob
    by (simp add: transport_sum_def transport_raw_def f split: if_splits)
  then have "transport_accepted ?d \<longleftrightarrow> single_fold (transport_raw k d)"
    using fold_complement [OF transport_raw_less] c(2) by (simp add: transport_accepted_def)
  moreover have "ip_accepted ?d \<longleftrightarrow> ip_accepted d" using ip_accepted_cong [OF hdr w(1)] .
  ultimately show ?thesis using c(1) len same by blast
qed

text \<open>The whole checksum code on a packet in memory: it returns, it writes the two checksum fields
  only, and each checksum is accepted exactly when one fold of its carry is enough.\<close>

lemma fix_checksums_wf:
  assumes wf: "wf_packet d"
  shows "\<exists>d'. fix_checksums d = Inr d' \<and> length d' = length d \<and>
    (\<forall>i < length d. i \<notin> csum_bytes d \<longrightarrow> d' ! i = d ! i) \<and>
    (ip_accepted d' \<longleftrightarrow> single_fold (ip_raw d)) \<and>
    (\<forall>k. csum_word d = Some k \<longrightarrow> (transport_accepted d' \<longleftrightarrow> single_fold (transport_raw k d)))"
proof -
  obtain d1 where d1: "fix_ip_checksum d = Inr d1" "length d1 = length d"
    "\<forall>i < length d. i \<noteq> 10 \<longrightarrow> i \<noteq> 11 \<longrightarrow> d1 ! i = d ! i" "wf_packet d1"
    "ip_accepted d1 \<longleftrightarrow> single_fold (ip_raw d)"
    using fix_ip_checksum_wf [OF wf] by blast
  have f: "ihl4 d1 = ihl4 d" "csum_word d1 = csum_word d"
    using d1(3) wf_packetD(4) [OF wf] packet_fields_cong [of d1 d] by auto
  show ?thesis
  proof (cases "csum_word d")
    case None
    then have "fix_transport_checksum d1 = Inr d1"
      using f wf_packetD(4) [OF d1(4)] by (intro fix_transport_none) simp_all
    then show ?thesis using d1 None by (auto simp: fix_checksums_def csum_bytes_def)
  next
    case (Some k)
    then obtain d2 where d2: "fix_transport_checksum d1 = Inr d2" "length d2 = length d1"
      "\<forall>i < length d1. i \<noteq> ihl4 d1 + 2 * k \<longrightarrow> i \<noteq> ihl4 d1 + 2 * k + 1 \<longrightarrow> d2 ! i = d1 ! i"
      "ip_accepted d2 \<longleftrightarrow> ip_accepted d1" "transport_accepted d2 \<longleftrightarrow> single_fold (transport_raw k d1)"
      using fix_transport_wf [OF d1(4)] f by metis
    have "transport_raw k d1 = transport_raw k d" by (rule transport_raw_cong [OF d1(3) wf])
    moreover have "\<forall>i < length d. i \<notin> csum_bytes d \<longrightarrow> d2 ! i = d ! i"
      using d1(2,3) d2(3) f Some by (auto simp: csum_bytes_def)
    ultimately show ?thesis using d1 d2 Some by (auto simp: fix_checksums_def)
  qed
qed

section \<open>The subnet test\<close>

text \<open>\<open>sprintf\<close> with \<open>%hhu\<close> conversions, and \<open>strncmp(s, t, n) == 0\<close> on strings
  without their terminating zero.\<close>

fun dec :: "nat \<Rightarrow> string" where
  "dec n = (if n < 10 then [char_of (48 + n)] else dec (n div 10) @ [char_of (48 + n mod 10)])"

declare dec.simps [simp del]

fun dotted4 :: "ip4 \<Rightarrow> string" where
  "dotted4 (IP4 a b c d) =
     dec (unat a) @ ''.'' @ dec (unat b) @ ''.'' @ dec (unat c) @ ''.'' @ dec (unat d)"

fun dotted3 :: "ip4 \<Rightarrow> string" where
  "dotted3 (IP4 a b c d) = dec (unat a) @ ''.'' @ dec (unat b) @ ''.'' @ dec (unat c)"

fun strncmp0 :: "string \<Rightarrow> string \<Rightarrow> nat \<Rightarrow> bool" where
  "strncmp0 s t 0 = True"
| "strncmp0 [] [] (Suc n) = True"
| "strncmp0 (x # s) (y # t) (Suc n) = (x = y \<and> strncmp0 s t n)"
| "strncmp0 s t (Suc n) = False"

text \<open>\<open>strncmp(srcIP, subnet, strlen(subnet)) == 0\<close>\<close>

definition in_subnet :: "string \<Rightarrow> ip4 \<Rightarrow> bool" where
  "in_subnet subnet a = strncmp0 (dotted4 a) subnet (length subnet)"

lemma strncmp0_prefix: "strncmp0 s t (length t) \<longleftrightarrow> prefix t s"
proof (induction t arbitrary: s)
  case (Cons y t)
  then show ?case by (cases s) auto
qed simp

lemma dec_not_Nil [simp]: "dec n \<noteq> []"
  by (subst dec.simps) simp

lemma dot_not_in_dec [simp]: "CHR ''.'' \<notin> set (dec n)"
proof (induction n rule: dec.induct)
  case (1 n)
  have "CHR ''.'' \<noteq> char_of (48 + m)" if "m < 10" for m :: nat
  proof
    assume "CHR ''.'' = char_of (48 + m)"
    then have "of_char CHR ''.'' = (of_char (char_of (48 + m)) :: nat)" by simp
    then show False using that by (simp add: of_char_of)
  qed
  with 1 show ?case by (subst dec.simps) auto
qed

lemma digit_inject: "m < 10 \<Longrightarrow> n < 10 \<Longrightarrow> char_of (48 + m) = char_of (48 + n) \<longleftrightarrow> m = (n :: nat)"
  by (auto dest: arg_cong [where f = "of_char :: char \<Rightarrow> nat"] simp: of_char_of)

lemma length_dec_ge: "10 \<le> n \<Longrightarrow> 2 \<le> length (dec n)"
  by (subst dec.simps) (simp add: Suc_le_eq)

lemma dec_inject: "dec m = dec n \<longleftrightarrow> m = n"
proof
  show "dec m = dec n \<Longrightarrow> m = n"
  proof (induction m arbitrary: n rule: dec.induct)
    case (1 m)
    have l: "length (dec k) = 1 \<longleftrightarrow> k < 10" for k
      using length_dec_ge [of k] by (cases "k < 10") (simp_all add: dec.simps [of k])
    have lt: "m < 10 \<longleftrightarrow> n < 10" using l [of m] l [of n] 1(2) by simp
    show ?case
    proof (cases "m < 10")
      case True
      then show ?thesis using lt 1(2) digit_inject by (simp add: dec.simps [of m] dec.simps [of n])
    next
      case False
      with lt 1(2) have e: "dec (m div 10) = dec (n div 10)" "char_of (48 + m mod 10) = char_of (48 + n mod 10)"
        by (simp_all add: dec.simps [of m] dec.simps [of n])
      then have "m div 10 = n div 10" "m mod 10 = n mod 10"
        using 1(1) [OF False] digit_inject by auto
      then show ?thesis by (metis div_mult_mod_eq)
    qed
  qed
qed simp

lemma prefix_sep:
  "x \<notin> set xs \<Longrightarrow> x \<notin> set ys \<Longrightarrow> prefix (xs @ x # u) (ys @ x # v) \<longleftrightarrow> xs = ys \<and> prefix u v"
proof (induction xs arbitrary: ys)
  case Nil
  then show ?case by (cases ys) auto
next
  case (Cons a xs)
  then show ?case by (cases ys) auto
qed

lemma prefix_before_sep:
  "x \<notin> set xs \<Longrightarrow> prefix xs (ys @ x # v) \<longleftrightarrow> prefix xs ys"
proof (induction xs arbitrary: ys)
  case (Cons a xs)
  then show ?case by (cases ys) auto
qed simp

text \<open>The address text fits the buffers of 50 characters.\<close>

lemma length_dec: "n < 256 \<Longrightarrow> length (dec n) \<le> 3"
  by (simp add: dec.simps [of n] dec.simps [of "n div 10"] dec.simps [of "n div 10 div 10"])

lemma length_dotted4: "length (dotted4 a) \<le> 15"
proof (cases a)
  case (IP4 p q r s)
  have "length (dec (unat x)) \<le> 3" for x :: byte by (simp add: length_dec)
  from this [of p] this [of q] this [of r] this [of s] show ?thesis by (simp add: IP4)
qed

lemma in_subnet_iff:
  "in_subnet (dotted3 (IP4 s0 s1 s2 s3)) (IP4 a0 a1 a2 a3) \<longleftrightarrow>
     a0 = s0 \<and> a1 = s1 \<and> prefix (dec (unat s2)) (dec (unat a2))"
  unfolding in_subnet_def strncmp0_prefix by (auto simp: prefix_sep prefix_before_sep dec_inject word_unat_eq_iff)

section \<open>Rewriting an address\<close>

text \<open>The fields on which \<open>wf_packet\<close> and the classification of a packet depend are those of the
  header outside the addresses and the checksum.\<close>

lemma splice_addr_fields:
  assumes "wf_packet d" "off = 12 \<or> off = 16"
  shows "length (splice d off (ip4_bytes a)) = length d"
    "ihl4 (splice d off (ip4_bytes a)) = ihl4 d"
    "tot_len (splice d off (ip4_bytes a)) = tot_len d"
    "csum_word (splice d off (ip4_bytes a)) = csum_word d"
    "wf_packet (splice d off (ip4_bytes a))"
proof -
  let ?d = "splice d off (ip4_bytes a)"
  have l: "24 \<le> length d" using wf_packetD(4) [OF assms(1)] .
  show len: "length ?d = length d" using l assms(2) by (intro length_splice) auto
  have n: "?d ! i = d ! i" if "i < 12" for i
    using that l assms(2) by (auto simp: nth_splice)
  show i: "ihl4 ?d = ihl4 d" and t: "tot_len ?d = tot_len d" and c: "csum_word ?d = csum_word d"
    using n by (simp_all add: ihl4_def tot_len_def be16_def csum_word_def)
  show "wf_packet ?d" using assms(1) unfolding wf_packet_def len i t c .
qed

text \<open>An address of the packet is replaced and the checksums are recomputed: the other bytes are
  those of the packet.\<close>

definition rewrite :: "nat \<Rightarrow> ip4 \<Rightarrow> buf \<Rightarrow> buf res" where
  "rewrite off a d = bindE (wr d off (ip4_bytes a)) fix_checksums"

definition rewritten :: "nat \<Rightarrow> ip4 \<Rightarrow> buf \<Rightarrow> buf \<Rightarrow> bool" where
  "rewritten off a d d' \<longleftrightarrow> length d' = length d \<and> slice d' off 4 = ip4_bytes a \<and>
     (\<forall>i < length d. i \<notin> csum_bytes d \<longrightarrow> i \<notin> {off..<off + 4} \<longrightarrow> d' ! i = d ! i) \<and>
     (ip_accepted d' \<longleftrightarrow> single_fold (ip_raw (splice d off (ip4_bytes a)))) \<and>
     (\<forall>k. csum_word d = Some k \<longrightarrow>
        (transport_accepted d' \<longleftrightarrow> single_fold (transport_raw k (splice d off (ip4_bytes a)))))"

lemma csum_bytes_addr: "20 \<le> ihl4 d \<Longrightarrow> i \<in> {12..<20} \<Longrightarrow> i \<notin> csum_bytes d"
  by (auto simp: csum_bytes_def split: option.splits)

lemma rewrite_wf:
  assumes wf: "wf_packet d" and off: "off = 12 \<or> off = 16"
  shows "\<exists>d'. rewrite off a d = Inr d' \<and> rewritten off a d d'"
proof -
  let ?d = "splice d off (ip4_bytes a)"
  note f = splice_addr_fields [OF wf off, of a]
  note w = wf_packetD [OF wf]
  have b: "off + length (ip4_bytes a) \<le> length d" using off w(4) by auto
  have c: "csum_bytes ?d = csum_bytes d" unfolding csum_bytes_def f ..
  obtain d' where d': "fix_checksums ?d = Inr d'" "length d' = length d"
    "\<forall>i < length d. i \<notin> csum_bytes d \<longrightarrow> d' ! i = ?d ! i"
    "ip_accepted d' \<longleftrightarrow> single_fold (ip_raw ?d)"
    "\<forall>k. csum_word d = Some k \<longrightarrow> (transport_accepted d' \<longleftrightarrow> single_fold (transport_raw k ?d))"
    using fix_checksums_wf [OF f(5)] unfolding c f(1,4) by blast
  have "slice d' off 4 = slice ?d off 4"
  proof (rule nth_equalityI)
    fix i assume "i < length (slice d' off 4)"
    then have i: "i < 4" by simp
    then have "off + i \<notin> csum_bytes d" using off w(1) by (intro csum_bytes_addr) auto
    then show "slice d' off 4 ! i = slice ?d off 4 ! i"
      using i b d'(2,3) f(1) by (simp add: nth_slice)
  qed (simp add: d'(2) f(1))
  also have "\<dots> = ip4_bytes a" using b by (intro slice_splice_same) simp_all
  finally have "rewritten off a d d'"
    using d' b by (auto simp: rewritten_def nth_splice)
  then show ?thesis using d'(1) b by (auto simp: rewrite_def wr_def)
qed

lemma rewritten_fields:
  assumes "rewritten off a d d'" "wf_packet d" "off = 12 \<or> off = 16"
  shows "ihl4 d' = ihl4 d" "tot_len d' = tot_len d" "sport_of d' = sport_of d" "dport_of d' = dport_of d"
    "src_of d' = (if off = 12 then a else src_of d)" "dst_of d' = (if off = 16 then a else dst_of d)"
proof -
  note w = wf_packetD [OF assms(2)]
  have l: "length d' = length d" and s: "slice d' off 4 = ip4_bytes a"
    using assms(1) by (simp_all add: rewritten_def)
  have n: "d' ! i = d ! i" if "i < length d" "i \<notin> csum_bytes d" "i \<notin> {off..<off + 4}" for i
    using assms(1) that by (simp add: rewritten_def)
  have c: "i \<notin> csum_bytes d" if "i < ihl4 d + 4" "i \<noteq> 10" "i \<noteq> 11" for i
    using that by (auto simp: csum_bytes_def csum_word_def split: if_splits)
  have m: "d' ! i = d ! i" if "i < ihl4 d + 4" "i \<noteq> 10" "i \<noteq> 11" "i \<notin> {off..<off + 4}" for i
    using that n c w by auto
  show i: "ihl4 d' = ihl4 d" and "tot_len d' = tot_len d"
    using m [of 0] m [of 2] m [of 3] assms(3) w(1) by (auto simp: ihl4_def tot_len_def be16_def)
  show "sport_of d' = sport_of d" "dport_of d' = dport_of d"
    using m assms(3) w(1) by (auto simp: sport_of_def dport_of_def i)
  have a: "slice d' off 4 = [d' ! off, d' ! (off + 1), d' ! (off + 2), d' ! (off + 3)]"
    using l w(4) assms(3)
    by (intro nth_equalityI) (auto simp: nth_slice less_Suc_eq numeral_eq_Suc)
  show "src_of d' = (if off = 12 then a else src_of d)" "dst_of d' = (if off = 16 then a else dst_of d)"
    using a s m assms(3) w(1) by (cases a; auto simp: src_of_def dst_of_def)+
qed

section \<open>Properties\<close>

text \<open>The sums of the checksum code stay within \<open>int\<close>: for a packet in memory the sum over
  the IP header and the sum over the pseudo header and the segment, which is the largest value that
  \<open>headerSum\<close> takes, are at most \<open>INT_MAX\<close>.\<close>

theorem checksum_no_overflow:
  assumes "wf_packet d" "csum_word d = Some k"
  shows "ip_raw d \<le> 2147483647 \<and> transport_raw k d \<le> 2147483647"
proof
  have "ip_raw d \<le> 65535 * length (filter (\<lambda>i. i \<noteq> 5) [0..<ihl4 d div 2])"
    unfolding ip_raw_def by (rule words_sum_le)
  also have "\<dots> \<le> 65535 * length [0..<ihl4 d div 2]"
    by (rule mult_le_mono2 [OF length_filter_le])
  finally show "ip_raw d \<le> 2147483647" using ihl4_less [of d] by simp
  let ?ns = "filter (\<lambda>i. i \<noteq> k) [0..<transport_words d]"
  have tw: "k < transport_words d" "transport_words d \<le> 32757"
    using wf_packetD(7) [OF assms] wf_packetD(1) [OF assms(1)] tot_len_less [of d]
    by (simp_all add: transport_words_def)
  have "length ?ns < length [0..<transport_words d]"
    by (rule length_filter_less [of k]) (use tw in auto)
  then have "words_sum d (ihl4 d) ?ns \<le> 65535 * 32756"
    using words_sum_le [of d "ihl4 d" ?ns] tw by (simp add: less_le_trans)
  moreover have "words_sum (pseudo_of d) 0 [0..<6] \<le> 65535 * 6"
    using words_sum_le [of "pseudo_of d" 0 "[0..<6]"] by simp
  moreover have "odd_byte d (ihl4 d + 2 * transport_words d) (odd (tot_len d)) \<le> 65280"
    using unat_byte_le [of "d ! (ihl4 d + 2 * transport_words d)"] by (simp add: odd_byte_def)
  ultimately show "transport_raw k d \<le> 2147483647" by (simp add: transport_raw_def)
qed

text \<open>A DNS query of a client, without data.\<close>

definition demo_query :: buf where
  "demo_query = [0x45, 0, 0, 28, 0, 1, 0x40, 0, 64, 17, 0, 0, 192, 168, 5, 2, 8, 8, 8, 8,
     0xc0, 1, 0, 53, 0, 8, 0, 0]"

lemma demo_query_wf: "wf_packet demo_query" "csum_word demo_query = Some 3"
  by code_simp+

theorem checksum_no_overflow_witness:
  "wf_packet demo_query \<and> csum_word demo_query = Some 3 \<and>
   ip_raw demo_query \<le> 2147483647 \<and> transport_raw 3 demo_query \<le> 2147483647"
  using checksum_no_overflow [OF demo_query_wf] demo_query_wf by simp

text \<open>The subnet test compares text: it admits the addresses whose first two numbers are those
  of the subnet and whose third number starts with the digits of the subnet's third number, so that
  192.168.5 admits 192.168.50.1 as well.\<close>

theorem subnet_test_is_textual:
  "(in_subnet (dotted3 (IP4 s0 s1 s2 s3)) (IP4 a0 a1 a2 a3) \<longleftrightarrow>
      a0 = s0 \<and> a1 = s1 \<and> prefix (dec (unat s2)) (dec (unat a2))) \<and>
   in_subnet (dotted3 (IP4 192 168 5 0)) (IP4 192 168 5 7) \<and>
   in_subnet (dotted3 (IP4 192 168 5 0)) (IP4 192 168 50 1) \<and>
   \<not> in_subnet (dotted3 (IP4 192 168 5 0)) (IP4 192 168 6 1)"
proof -
  have "in_subnet (dotted3 (IP4 192 168 5 0)) (IP4 192 168 5 7)"
    "in_subnet (dotted3 (IP4 192 168 5 0)) (IP4 192 168 50 1)"
    "\<not> in_subnet (dotted3 (IP4 192 168 5 0)) (IP4 192 168 6 1)" by code_simp+
  then show ?thesis by (simp only: in_subnet_iff simp_thms)
qed

end
