(* ===== verification/Netfilter.thy ===== *)
theory Netfilter
  imports Packet
begin

text \<open>
  The interface of the netfilter queue library, as the packet paths of the gateway and of the access
  point use it. The library is a parameter: \<open>nfq_data\<close> is what its accessors return for a queued
  packet, \<open>verdict\<close> what the programs pass to \<open>nfq_set_verdict\<close>, \<open>poll\<close> and \<open>nfq_env\<close> the
  results of the calls of \<open>recvPkt\<close>. The last section says which errors the shared packet code can
  meet on any input.
\<close>

section \<open>Packets, verdicts and results\<close>

text \<open>\<open>nfad_hdr\<close> is the packet id in network order (\<open>None\<close> when there is no packet header),
  \<open>nfad_len\<close> the result of \<open>nfq_get_payload\<close> and \<open>nfad_data\<close> the memory from the payload to the
  end of the receive buffer.\<close>

record nfq_data =
  nfad_hdr :: "u32 option"
  nfad_len :: int
  nfad_data :: buf

text \<open>\<open>nfq_set_verdict(qh, id, NF_ACCEPT, len, data)\<close>: the packet is accepted, with its payload
  replaced when one is given.\<close>

datatype verdict = NF_ACCEPT u32 "buf option"

definition nfq_accept :: "u32 \<Rightarrow> int \<Rightarrow> buf \<Rightarrow> verdict res" where
  "nfq_accept pid ret data = bindE (rd data 0 (nat ret)) (\<lambda>p. Inr (NF_ACCEPT pid (Some p)))"

text \<open>What one round of the loop meets: \<open>select\<close> fails, nothing is ready, or \<open>recv\<close> returns its
  result and the library finds packets in the buffer.\<close>

datatype 'p poll = Select_fails | Not_ready | Received int "'p list"

text \<open>The results of the library calls before the loop.\<close>

record nfq_env =
  nfq_open_ok :: bool
  nfq_unbind_ret :: int
  nfq_bind_ret :: int
  nfq_create_ok :: bool
  nfq_mode_ret :: int

text \<open>A packet whose payload is in the buffer.\<close>

definition payload_wf :: "'p nfq_data_scheme \<Rightarrow> bool" where
  "payload_wf tb \<longleftrightarrow> 0 \<le> nfad_len tb \<and> nfad_len tb \<le> int (length (nfad_data tb)) \<and> wf_packet (nfad_data tb)"

definition pkt_id :: "'p nfq_data_scheme \<Rightarrow> u32" where
  "pkt_id tb = (case nfad_hdr tb of None \<Rightarrow> 0 | Some i \<Rightarrow> ntohl i)"

abbreviation pkt :: "'p nfq_data_scheme \<Rightarrow> buf" where
  "pkt tb \<equiv> nfad_data tb"

section \<open>Errors of the packet code\<close>

lemma hdr_len_ip: "20 \<le> length d \<Longrightarrow> ip_header d = Inr ipH \<Longrightarrow> hdr_len ipH = ihl4 d"
  by (auto simp: ip_header_eq hdr_len_def ihl4_def)

lemma add_words_error: "add_words k d off num skip acc = Inl f \<Longrightarrow> f = OutOfBounds"
  by (induction k arbitrary: num acc) (auto simp: bindE_eq_Inl ld16_def split: if_splits)

lemma calculateCheckSum_error: "calculateCheckSum d off n hs skip odd_len = Inl f \<Longrightarrow> f = OutOfBounds"
  by (auto simp: calculateCheckSum_def bindE_eq_Inl Let_def ld16_def dest: add_words_error split: if_splits)

lemma ip_header_error: "ip_header d = Inl f \<Longrightarrow> f = OutOfBounds"
  by (cases "20 \<le> length d") (auto simp: ip_header_eq ip_header_short not_le)

lemma store_checksum_error: "store_checksum d off c = Inl f \<Longrightarrow> f = OutOfBounds"
  by (auto simp: store_checksum_def bindE_eq_Inl ld16_def st16_def wr_def split: if_splits)

lemma fix_checksums_error: "fix_checksums d = Inl f \<Longrightarrow> f = OutOfBounds"
  by (auto simp: fix_checksums_def fix_ip_checksum_def fix_transport_checksum_def bindE_eq_Inl Let_def
      dest: ip_header_error calculateCheckSum_error add_words_error store_checksum_error split: if_splits)

lemma transport_at_error: "transport_at d off = Inl f \<Longrightarrow> f = OutOfBounds"
  by (auto simp: transport_at_def bindE_eq_Inl ld16_def split: if_splits)

end
