(* ===== verification/Gw_Packet.thy ===== *)
theory Gw_Packet
  imports Gw_Nat Netfilter
begin

text \<open>
  The packet path of the gateway (Gateway/gatewayNAT.c: \<open>handle_pkt\<close>, \<open>cb\<close>, \<open>recvPkt\<close>). Packets
  of the wireless clients come from netfilter queue 0 and leave with the gateway's address as their
  source; packets from the Internet come from queue 1 and leave with the client's address as their
  destination.

  Shown here: what each queue does to a packet and to the table, that replies find the client whose
  packet they answer, and that every other packet passes unchanged.
\<close>

section \<open>State and inputs\<close>

record gw_state =
  entryList :: natList
  ifIP :: ip4
  subnet :: string
  loop_terminate :: bool

section \<open>The handler\<close>

text \<open>Queue 0. The result is the packet with its new source, or \<open>None\<close> where the code accepts the
  packet as it is.\<close>

definition gw_outbound :: "'e env_scheme \<Rightarrow> buf \<Rightarrow> 's gw_state_scheme \<Rightarrow>
    (buf option \<times> 's gw_state_scheme) res" where
  "gw_outbound e data s = bindE (ip_header data) (\<lambda>ipH.
     if in_subnet (subnet s) (src_addr ipH) then
       bindE (transport_at data (hdr_len ipH)) (\<lambda>tH.
       bindE (learn e (src_port tH) (dst_addr ipH) (dst_port tH) (src_addr ipH) (entryList s)) (\<lambda>t.
       bindE (wr data 12 (ip4_bytes (ifIP s))) (\<lambda>data.
         Inr (Some data, s\<lparr>entryList := t\<rparr>))))
     else Inr (None, s))"

text \<open>Queue 1.\<close>

definition gw_inbound :: "buf \<Rightarrow> 's gw_state_scheme \<Rightarrow> buf option res" where
  "gw_inbound data s = bindE (ip_header data) (\<lambda>ipH.
     if dst_addr ipH = ifIP s then
       bindE (transport_at data (hdr_len ipH)) (\<lambda>tH.
       bindE (lookupNatMap (dst_port tH) (src_addr ipH) (src_port tH) (entryList s)) (\<lambda>nMap.
       case nMap of
         None \<Rightarrow> Inr None
       | Some q \<Rightarrow> bindE (deref (entryList s) q) (\<lambda>c.
           bindE (wr data 16 (ip4_bytes (nm_src_addr (item c)))) (\<lambda>data. Inr (Some data)))))
     else Inr None)"

definition handle_pkt :: "'e env_scheme \<Rightarrow> nfq_data \<Rightarrow> int \<Rightarrow> 's gw_state_scheme \<Rightarrow>
    (verdict \<times> 's gw_state_scheme) res" where
  "handle_pkt e tb queueNum s =
     (let pid = (case nfad_hdr tb of None \<Rightarrow> 0 | Some i \<Rightarrow> ntohl i) in
      if nfad_len tb \<ge> 0 then
        bindE (if queueNum = 0 then gw_outbound e (nfad_data tb) s
               else if queueNum = 1 then
                 bindE (gw_inbound (nfad_data tb) s) (\<lambda>r. Inr (r, s))
               else bindE (ip_header (nfad_data tb)) (\<lambda>ipH. Inr (None, s))) (\<lambda>(r, s).
        case r of
          None \<Rightarrow> Inr (NF_ACCEPT pid None, s)
        | Some data \<Rightarrow>
            bindE (fix_checksums data) (\<lambda>data.
            bindE (nfq_accept pid (nfad_len tb) data) (\<lambda>v. Inr (v, s))))
      else Inr (NF_ACCEPT pid None, s))"

section \<open>The receive loop\<close>

text \<open>\<open>cb\<close> is what the library calls for each packet of a received buffer.\<close>

definition cb :: "'e env_scheme \<Rightarrow> nfq_data \<Rightarrow> int \<Rightarrow> 's gw_state_scheme \<Rightarrow>
    (verdict \<times> 's gw_state_scheme) res" where
  "cb e nfa num s = handle_pkt e nfa num s"

fun nfq_handle_packet :: "'e env_scheme \<Rightarrow> int \<Rightarrow> nfq_data list \<Rightarrow> 's gw_state_scheme \<Rightarrow>
    (verdict list \<times> 's gw_state_scheme) res" where
  "nfq_handle_packet e num [] s = Inr ([], s)"
| "nfq_handle_packet e num (nfa # nfas) s =
     bindE (cb e nfa num s) (\<lambda>(v, s).
     bindE (nfq_handle_packet e num nfas s) (\<lambda>(vs, s). Inr (v # vs, s)))"

fun recv_round :: "'e env_scheme \<Rightarrow> int \<Rightarrow> nfq_data poll \<Rightarrow> int \<Rightarrow> 's gw_state_scheme \<Rightarrow>
    (int \<times> verdict list \<times> 's gw_state_scheme) res" where
  "recv_round e num Select_fails rv s = Inl (Exit 1)"
| "recv_round e num Not_ready rv s = Inr (rv, [], s)"
| "recv_round e num (Received rv' nfas) rv s =
     (if rv' \<le> 0 then Inr (rv', [], s\<lparr>loop_terminate := False\<rparr>)
      else bindE (nfq_handle_packet e num nfas s) (\<lambda>(vs, s). Inr (rv', vs, s)))"

fun recv_loop :: "'e env_scheme \<Rightarrow> int \<Rightarrow> nfq_data poll list \<Rightarrow> int \<Rightarrow> 's gw_state_scheme \<Rightarrow>
    (verdict list \<times> 's gw_state_scheme) res" where
  "recv_loop e num [] rv s = Inr ([], s)"
| "recv_loop e num (p # ps) rv s =
     (if loop_terminate s \<and> rv \<ge> 0 then
        bindE (recv_round e num p rv s) (\<lambda>(rv, vs, s).
        bindE (recv_loop e num ps rv s) (\<lambda>(ws, s). Inr (vs @ ws, s)))
      else Inr ([], s))"

definition recvPkt :: "'e env_scheme \<Rightarrow> nfq_env \<Rightarrow> int \<Rightarrow> nfq_data poll list \<Rightarrow> 's gw_state_scheme \<Rightarrow>
    (verdict list \<times> 's gw_state_scheme) res" where
  "recvPkt e n num ps s =
     (if \<not> nfq_open_ok n then Inl (Exit 1)
      else if nfq_unbind_ret n < 0 then Inl (Exit 1)
      else if nfq_bind_ret n < 0 then Inl (Exit 1)
      else if \<not> nfq_create_ok n then Inl (Exit 1)
      else if nfq_mode_ret n < 0 then Inl (Exit 1)
      else recv_loop e num ps 1 s)"

section \<open>The contract of the handler\<close>

text \<open>The flow of a packet of a client, and the flow of which a packet from outside is a reply.\<close>

definition out_flow :: "buf \<Rightarrow> flow" where
  "out_flow d = (sport_of d, dst_of d, dport_of d)"

definition reply_flow :: "buf \<Rightarrow> flow" where
  "reply_flow d = (dport_of d, src_of d, sport_of d)"

text \<open>The payload with one address replaced and the checksums recomputed, cut to its length.\<close>

definition accepts_rewritten :: "nat \<Rightarrow> ip4 \<Rightarrow> nfq_data \<Rightarrow> verdict \<Rightarrow> bool" where
  "accepts_rewritten off a tb v \<longleftrightarrow> (\<exists>d. rewritten off a (pkt tb) d \<and>
     v = NF_ACCEPT (pkt_id tb) (Some (take (nat (nfad_len tb)) d)))"

lemma finish_packet:
  assumes "payload_wf tb" "off = 12 \<or> off = 16"
  shows "\<exists>d v. bindE (wr (pkt tb) off (ip4_bytes a)) fix_checksums = Inr d \<and>
    nfq_accept (pkt_id tb) (nfad_len tb) d = Inr v \<and> accepts_rewritten off a tb v"
proof -
  have wf: "wf_packet (pkt tb)" using assms(1) by (simp add: payload_wf_def)
  obtain d where d: "rewrite off a (pkt tb) = Inr d" "rewritten off a (pkt tb) d"
    using rewrite_wf [OF wf assms(2)] by blast
  have "nat (nfad_len tb) \<le> length d"
    using assms(1) d(2) by (simp add: payload_wf_def rewritten_def nat_le_iff)
  then show ?thesis
    using d by (auto simp: rewrite_def nfq_accept_def rd_def slice_def accepts_rewritten_def)
qed

lemma handle_pkt_out:
  assumes wf: "payload_wf tb" and inv: "nat_inv (entryList s)" and ok: "calloc_ok e sizeof_natMap"
    and sub: "in_subnet (subnet s) (src_of (pkt tb))" and d: "HASH_FUNC (dst_of (pkt tb)) < MAXENTRY"
  shows "\<exists>v t. handle_pkt e tb 0 s = Inr (v, s\<lparr>entryList := t\<rparr>) \<and> nat_inv t \<and>
    nat_abs t = (nat_abs (entryList s))(out_flow (pkt tb) \<mapsto> src_of (pkt tb)) \<and>
    accepts_rewritten 12 (ifIP s) tb v"
proof -
  let ?p = "pkt tb"
  have w: "20 \<le> length ?p" "ihl4 ?p + 4 \<le> length ?p"
    using wf wf_packetD [of ?p] by (auto simp: payload_wf_def)
  obtain t where t: "learn e (sport_of ?p) (dst_of ?p) (dport_of ?p) (src_of ?p) (entryList s) = Inr t"
    "nat_inv t" "nat_abs t = (nat_abs (entryList s))(out_flow ?p \<mapsto> src_of ?p)"
    using learn_refines [OF inv d ok] unfolding out_flow_def by blast
  obtain b v where b: "bindE (wr ?p 12 (ip4_bytes (ifIP s))) fix_checksums = Inr b"
    "nfq_accept (pkt_id tb) (nfad_len tb) b = Inr v" "accepts_rewritten 12 (ifIP s) tb v"
    using finish_packet [OF wf, of 12 "ifIP s"] by auto
  have "handle_pkt e tb 0 s = Inr (v, s\<lparr>entryList := t\<rparr>)"
    using w sub t(1) b wf
    by (auto simp: handle_pkt_def gw_outbound_def ip_header_eq hdr_len_def ihl4_def [symmetric]
        transport_at_eq payload_wf_def bindE_eq_Inr pkt_id_def elim!: bindE_E)
  then show ?thesis using t b by blast
qed

lemma handle_pkt_in:
  assumes wf: "payload_wf tb" and inv: "nat_inv (entryList s)"
    and dst: "dst_of (pkt tb) = ifIP s" and d: "HASH_FUNC (src_of (pkt tb)) < MAXENTRY"
  shows "\<exists>v. handle_pkt e tb 1 s = Inr (v, s) \<and>
    (case nat_abs (entryList s) (reply_flow (pkt tb)) of
       None \<Rightarrow> v = NF_ACCEPT (pkt_id tb) None
     | Some a \<Rightarrow> accepts_rewritten 16 a tb v)"
proof -
  let ?p = "pkt tb" and ?k = "reply_flow (pkt tb)"
  have w: "20 \<le> length ?p" "ihl4 ?p + 4 \<le> length ?p"
    using wf wf_packetD [of ?p] by (auto simp: payload_wf_def)
  have c: "case lookupNatMap (dport_of ?p) (src_of ?p) (sport_of ?p) (entryList s) of
      Inl e \<Rightarrow> False
    | Inr None \<Rightarrow> nat_abs (entryList s) ?k = None
    | Inr (Some q) \<Rightarrow> \<exists>x n. deref (entryList s) q = Inr (Cell x n) \<and> flow_of x = ?k \<and>
        nat_abs (entryList s) ?k = Some (nm_src_addr x)"
    using lookupNatMap_entry [OF inv d] unfolding reply_flow_def .
  note step = handle_pkt_def gw_inbound_def ip_header_eq hdr_len_def ihl4_def [symmetric]
    transport_at_eq payload_wf_def pkt_id_def
  show ?thesis
  proof (cases "nat_abs (entryList s) ?k")
    case None
    then have "lookupNatMap (dport_of ?p) (src_of ?p) (sport_of ?p) (entryList s) = Inr None"
      using c by (auto split: sum.splits option.splits)
    then show ?thesis using None w dst wf by (simp add: step)
  next
    case (Some a)
    then obtain q x n where q: "lookupNatMap (dport_of ?p) (src_of ?p) (sport_of ?p) (entryList s) = Inr (Some q)"
      "deref (entryList s) q = Inr (Cell x n)" "nm_src_addr x = a"
      using c by (auto split: sum.splits option.splits)
    obtain b v where b: "bindE (wr ?p 16 (ip4_bytes a)) fix_checksums = Inr b"
      "nfq_accept (pkt_id tb) (nfad_len tb) b = Inr v" "accepts_rewritten 16 a tb v"
      using finish_packet [OF wf, of 16 a] by auto
    then have "handle_pkt e tb 1 s = Inr (v, s)"
      using w dst wf q by (auto simp: step elim!: bindE_E)
    then show ?thesis using Some b by auto
  qed
qed

text \<open>Every outcome of the handler on any input.\<close>

text \<open>The map after a packet of queue 0, whatever the packet is.\<close>

definition learns :: "string \<Rightarrow> (flow \<Rightarrow> ip4 option) \<Rightarrow> nfq_data \<Rightarrow> flow \<Rightarrow> ip4 option" where
  "learns sub m tb = (if 0 \<le> nfad_len tb \<and> in_subnet sub (src_of (pkt tb))
     then m(out_flow (pkt tb) \<mapsto> src_of (pkt tb)) else m)"

lemma gw_outbound_outcome:
  assumes inv: "nat_inv (entryList s)"
  shows "case gw_outbound e d s of
      Inl f \<Rightarrow> f = OutOfBounds \<or> f = NullDeref
    | Inr (r, s') \<Rightarrow> (\<exists>t. s' = s\<lparr>entryList := t\<rparr> \<and> nat_inv t \<and> nat_abs t =
        (if in_subnet (subnet s) (src_of d) then (nat_abs (entryList s))(out_flow d \<mapsto> src_of d)
         else nat_abs (entryList s)))"
proof (cases "20 \<le> length d")
  case True
  show ?thesis
  proof (cases "ihl4 d + 4 \<le> length d")
    case l: True
    show ?thesis
      using True l learn_outcomes [OF inv, of e "sport_of d" "dst_of d" "dport_of d" "src_of d"] inv
      by (auto simp: gw_outbound_def ip_header_eq hdr_len_def ihl4_def [symmetric] transport_at_eq
          wr_def out_flow_def intro: exI [of _ "entryList s"])
  next
    case False
    then have "transport_at d (ihl4 d) = Inl OutOfBounds"
      by (auto simp: transport_at_def bindE_eq_Inl ld16_def)
    then show ?thesis using True inv
      by (auto simp: gw_outbound_def ip_header_eq hdr_len_def ihl4_def [symmetric]
          intro: exI [of _ "entryList s"])
  qed
qed (simp add: gw_outbound_def ip_header_short)

lemma gw_inbound_error:
  assumes inv: "nat_inv (entryList s)" and f: "gw_inbound d s = Inl f"
  shows "f = OutOfBounds"
proof -
  have look: "lookupNatMap sp a dp (entryList s) = Inl g \<Longrightarrow> g = OutOfBounds"
    "lookupNatMap sp a dp (entryList s) = Inr (Some q) \<Longrightarrow> deref (entryList s) q \<noteq> Inl g" for sp a dp g q
    using lookupNatMap_entry [OF inv, of a sp dp] inv
    by (cases "HASH_FUNC a < MAXENTRY"; force simp: lookupNatMap_def find_in_bounds nat_inv_def)+
  show ?thesis
    using f by (auto simp: gw_inbound_def bindE_eq_Inl wr_def
        dest!: ip_header_error transport_at_error look split: if_splits option.splits)
qed

lemma handle_pkt_outcome:
  assumes inv: "nat_inv (entryList s)"
  shows "case handle_pkt e tb q s of
      Inl f \<Rightarrow> f = OutOfBounds \<or> f = NullDeref
    | Inr (v, s') \<Rightarrow> (\<exists>t. s' = s\<lparr>entryList := t\<rparr> \<and> nat_inv t \<and> nat_abs t =
        (if q = 0 then learns (subnet s) (nat_abs (entryList s)) tb else nat_abs (entryList s)))"
proof -
  note fin = bindE_eq_Inl bindE_eq_Inr nfq_accept_def rd_def Let_def
  consider "nfad_len tb < 0" | "0 \<le> nfad_len tb" "q = 0" | "0 \<le> nfad_len tb" "q \<noteq> 0" by linarith
  then show ?thesis
  proof cases
    case 1
    then show ?thesis using inv by (auto simp: handle_pkt_def learns_def intro: exI [of _ "entryList s"])
  next
    case 2
    then show ?thesis using gw_outbound_outcome [OF inv, where e = e and d = "pkt tb"]
      by (auto simp: handle_pkt_def learns_def fin dest: fix_checksums_error
          split: sum.splits option.splits if_splits)
  next
    case 3
    then show ?thesis using gw_inbound_error [OF inv, of "pkt tb"] inv
      by (auto simp: handle_pkt_def fin intro!: exI [of _ "entryList s"]
          dest: fix_checksums_error ip_header_error split: sum.splits option.splits if_splits)
  qed
qed

lemma packets_history:
  assumes "nat_inv (entryList s)" "nfq_handle_packet e 0 nfas s = Inr (vs, s')"
  shows "\<exists>t. s' = s\<lparr>entryList := t\<rparr> \<and> nat_inv t \<and>
    nat_abs t = foldl (learns (subnet s)) (nat_abs (entryList s)) nfas"
  using assms
proof (induction nfas arbitrary: s vs)
  case Nil
  then show ?case by (auto intro: exI [of _ "entryList s"])
next
  case (Cons nfa nfas)
  then obtain v s1 ws where s1: "handle_pkt e nfa 0 s = Inr (v, s1)"
    "nfq_handle_packet e 0 nfas s1 = Inr (ws, s')"
    by (auto simp: cb_def bindE_eq_Inr)
  obtain t where t: "s1 = s\<lparr>entryList := t\<rparr>" "nat_inv t"
    "nat_abs t = learns (subnet s) (nat_abs (entryList s)) nfa"
    using handle_pkt_outcome [OF Cons.prems(1), where e = e and tb = nfa and q = 0] s1(1) by auto
  show ?case using Cons.IH [OF _ s1(2)] t by auto
qed

text \<open>A packet of a client that the handler translates.\<close>

definition client_packet :: "string \<Rightarrow> nfq_data \<Rightarrow> bool" where
  "client_packet sub tb \<longleftrightarrow> payload_wf tb \<and> in_subnet sub (src_of (pkt tb)) \<and> HASH_FUNC (dst_of (pkt tb)) \<noteq> 255"

lemma packets_translated:
  assumes "nat_inv (entryList s)" "calloc_ok e sizeof_natMap" "\<forall>tb \<in> set nfas. client_packet (subnet s) tb"
  shows "\<exists>vs s'. nfq_handle_packet e 0 nfas s = Inr (vs, s') \<and> list_all2 (accepts_rewritten 12 (ifIP s)) nfas vs"
  using assms
proof (induction nfas arbitrary: s)
  case (Cons nfa nfas)
  then have "HASH_FUNC (dst_of (pkt nfa)) < MAXENTRY" by (simp add: HASH_FUNC_bound client_packet_def)
  then obtain v t where v: "handle_pkt e nfa 0 s = Inr (v, s\<lparr>entryList := t\<rparr>)" "nat_inv t"
    "accepts_rewritten 12 (ifIP s) nfa v"
    using handle_pkt_out [of nfa s e] Cons.prems by (auto simp: client_packet_def)
  then show ?case using Cons.IH [of "s\<lparr>entryList := t\<rparr>"] Cons.prems by (auto simp: cb_def)
qed simp

section \<open>Properties\<close>

text \<open>C4. Every packet of a client (its source in the subnet, its destination not ending in 255)
  leaves with the gateway's address as its source, every byte outside the source address and the two
  checksum fields as it was, and checksums that a receiver accepts exactly when one fold of the carry
  suffices; and after any sequence of such packets, a reply from outside is delivered to the client
  whose packet on that flow was the last, with nothing changed but its destination and checksums,
  while a packet that answers no known flow passes unchanged.\<close>

theorem gw_reply_reaches_client:
  assumes "nat_inv (entryList s)" "calloc_ok e sizeof_natMap"
    "\<forall>tb \<in> set nfas. client_packet (subnet s) tb"
    "payload_wf r" "dst_of (pkt r) = ifIP s" "HASH_FUNC (src_of (pkt r)) \<noteq> 255"
  shows "\<exists>vs s' v. nfq_handle_packet e 0 nfas s = Inr (vs, s') \<and>
    list_all2 (accepts_rewritten 12 (ifIP s)) nfas vs \<and> handle_pkt e r 1 s' = Inr (v, s') \<and>
    (case foldl (learns (subnet s)) (nat_abs (entryList s)) nfas (reply_flow (pkt r)) of
       None \<Rightarrow> v = NF_ACCEPT (pkt_id r) None
     | Some a \<Rightarrow> accepts_rewritten 16 a r v)"
proof -
  obtain vs s' where vs: "nfq_handle_packet e 0 nfas s = Inr (vs, s')"
    "list_all2 (accepts_rewritten 12 (ifIP s)) nfas vs"
    using packets_translated [OF assms(1-3)] by blast
  obtain t where t: "s' = s\<lparr>entryList := t\<rparr>" "nat_inv t"
    "nat_abs t = foldl (learns (subnet s)) (nat_abs (entryList s)) nfas"
    using packets_history [OF assms(1) vs(1)] by blast
  show ?thesis
    using handle_pkt_in [of r s' e] vs t assms(4-6) by (auto simp: HASH_FUNC_bound)
qed

text \<open>The answer to \<open>demo_query\<close>, and a gateway that has seen nothing.\<close>

definition demo_answer :: buf where
  "demo_answer = [0x45, 0, 0, 28, 0, 2, 0x40, 0, 60, 17, 0, 0, 8, 8, 8, 8, 10, 0, 0, 1,
     0, 53, 0xc0, 1, 0, 8, 0, 0]"

definition demo_gw :: gw_state where
  "demo_gw = \<lparr>entryList = chains_init MAXENTRY, ifIP = IP4 10 0 0 1, subnet = ''192.168.5'',
     loop_terminate = True\<rparr>"

definition demo_tb :: "buf \<Rightarrow> nfq_data" where
  "demo_tb d = \<lparr>nfad_hdr = Some 7, nfad_len = 28, nfad_data = d\<rparr>"

lemma demo_packets:
  "client_packet (subnet demo_gw) (demo_tb demo_query)" "payload_wf (demo_tb demo_answer)"
  "dst_of (pkt (demo_tb demo_answer)) = ifIP demo_gw" "HASH_FUNC (src_of (pkt (demo_tb demo_answer))) \<noteq> 255"
  "in_subnet (subnet demo_gw) (src_of demo_query)"
  "reply_flow demo_answer = out_flow demo_query" "src_of demo_query = IP4 192 168 5 2"
  by code_simp+

theorem gw_reply_reaches_client_witness:
  "\<exists>vs s' v. nfq_handle_packet \<lparr>calloc_ok = (\<lambda>_. True)\<rparr> 0 [demo_tb demo_query] demo_gw = Inr (vs, s') \<and>
    list_all2 (accepts_rewritten 12 (IP4 10 0 0 1)) [demo_tb demo_query] vs \<and>
    handle_pkt \<lparr>calloc_ok = (\<lambda>_. True)\<rparr> (demo_tb demo_answer) 1 s' = Inr (v, s') \<and>
    accepts_rewritten 16 (IP4 192 168 5 2) (demo_tb demo_answer) v"
proof -
  have "foldl (learns (subnet demo_gw)) (nat_abs (entryList demo_gw)) [demo_tb demo_query]
      (reply_flow (pkt (demo_tb demo_answer))) = Some (IP4 192 168 5 2)"
    using demo_packets by (simp add: learns_def demo_tb_def)
  moreover have "ifIP demo_gw = IP4 10 0 0 1" by (simp add: demo_gw_def)
  moreover have "nat_inv (entryList demo_gw)" by (simp add: demo_gw_def nat_inv_init)
  ultimately show ?thesis
    using gw_reply_reaches_client [of demo_gw "\<lparr>calloc_ok = (\<lambda>_. True)\<rparr>" "[demo_tb demo_query]" "demo_tb demo_answer"]
      demo_packets by auto
qed

text \<open>C23. On any input at all, the packet handler keeps the table well formed and changes the map at
  the flow of a client's packet only; where it does not return, it accessed memory outside the
  receive buffer or the table, or followed the null pointer of a failed allocation.\<close>

theorem gw_handle_pkt_outcomes:
  assumes "nat_inv (entryList s)"
  shows "case handle_pkt e tb q s of
      Inl f \<Rightarrow> f = OutOfBounds \<or> f = NullDeref
    | Inr (v, s') \<Rightarrow> (\<exists>t. s' = s\<lparr>entryList := t\<rparr> \<and> nat_inv t \<and> nat_abs t =
        (if q = 0 then learns (subnet s) (nat_abs (entryList s)) tb else nat_abs (entryList s)))"
  by (rule handle_pkt_outcome [OF assms])

theorem gw_handle_pkt_outcomes_witness:
  "case handle_pkt \<lparr>calloc_ok = (\<lambda>_. False)\<rparr> (demo_tb demo_query) 0 demo_gw of
      Inl f \<Rightarrow> f = OutOfBounds \<or> f = NullDeref
    | Inr (v, s') \<Rightarrow> (\<exists>t. s' = demo_gw\<lparr>entryList := t\<rparr> \<and> nat_inv t \<and> nat_abs t =
        (if (0 :: int) = 0 then learns (subnet demo_gw) (nat_abs (entryList demo_gw)) (demo_tb demo_query)
         else nat_abs (entryList demo_gw)))"
  by (rule gw_handle_pkt_outcomes) (simp add: demo_gw_def nat_inv_init)

text \<open>A packet that is not the gateway's to translate is accepted as it is and leaves the state
  alone: in queue 0 when its source is not in the subnet, in queue 1 when it is not for the gateway's
  address, in any other queue, and whenever there is no payload.\<close>

theorem gw_passes_others:
  assumes "nfad_len tb < 0 \<or> 20 \<le> length (pkt tb)"
    "q = 0 \<Longrightarrow> \<not> in_subnet (subnet s) (src_of (pkt tb))" "q = 1 \<Longrightarrow> dst_of (pkt tb) \<noteq> ifIP s"
  shows "handle_pkt e tb q s = Inr (NF_ACCEPT (pkt_id tb) None, s)"
  using assms
  by (auto simp: handle_pkt_def gw_outbound_def gw_inbound_def ip_header_eq pkt_id_def Let_def)

theorem gw_passes_others_witness:
  "handle_pkt \<lparr>calloc_ok = (\<lambda>_. True)\<rparr> (demo_tb demo_answer) 0 demo_gw =
     Inr (NF_ACCEPT (pkt_id (demo_tb demo_answer)) None, demo_gw)"
proof (rule gw_passes_others)
  show "\<not> in_subnet (subnet demo_gw) (src_of (pkt (demo_tb demo_answer)))" by code_simp
qed (simp_all add: demo_tb_def demo_answer_def)

lemma packets_outcome:
  assumes "nat_inv (entryList s)"
  shows "case nfq_handle_packet e q nfas s of
      Inl f \<Rightarrow> f = OutOfBounds \<or> f = NullDeref
    | Inr (vs, s') \<Rightarrow> nat_inv (entryList s') \<and> length vs = length nfas \<and>
        (q \<noteq> 0 \<longrightarrow> nat_abs (entryList s') = nat_abs (entryList s))"
  using assms
proof (induction nfas arbitrary: s)
  case (Cons nfa nfas)
  show ?case
    using handle_pkt_outcome [OF Cons.prems, where e = e and tb = nfa and q = q]
      Cons.IH [of "snd (projr (handle_pkt e nfa q s))"]
    by (auto simp: cb_def split: sum.splits)
qed simp

lemma packets_frame:
  assumes "nat_inv (entryList s)" "nfq_handle_packet e q nfas s = Inr (vs, s')"
  shows "\<exists>t. s' = s\<lparr>entryList := t\<rparr> \<and> nat_inv t"
  using assms
proof (induction nfas arbitrary: s vs)
  case Nil
  then show ?case by (auto intro: exI [of _ "entryList s"])
next
  case (Cons nfa nfas)
  then obtain v s1 ws where s1: "handle_pkt e nfa q s = Inr (v, s1)" "nfq_handle_packet e q nfas s1 = Inr (ws, s')"
    by (auto simp: cb_def bindE_eq_Inr)
  obtain t where t: "s1 = s\<lparr>entryList := t\<rparr>" "nat_inv t"
    using handle_pkt_outcome [OF Cons.prems(1), where e = e and tb = nfa and q = q] s1(1) by auto
  show ?case using Cons.IH [OF _ s1(2)] t by auto
qed

lemma recv_round_frame:
  assumes "nat_inv (entryList s)" "recv_round e q p rv s = Inr (rv', vs, s')"
  shows "\<exists>t b. s' = s\<lparr>entryList := t, loop_terminate := b\<rparr> \<and> nat_inv t \<and> (b \<longrightarrow> loop_terminate s)"
proof (cases p)
  case Not_ready
  then show ?thesis using assms by (auto intro!: exI [of _ "entryList s"] exI [of _ "loop_terminate s"])
next
  case (Received r nfas)
  show ?thesis
  proof (cases "r \<le> 0")
    case True
    then show ?thesis using assms Received by (auto intro!: exI [of _ "entryList s"] exI [of _ False])
  next
    case False
    then obtain t where "s' = s\<lparr>entryList := t\<rparr>" "nat_inv t"
      using assms Received packets_frame [OF assms(1), where e = e and q = q and nfas = nfas] by (auto elim!: bindE_E)
    then show ?thesis by (auto intro!: exI [of _ t] exI [of _ "loop_terminate s"])
  qed
qed (use assms in simp)

lemma recv_loop_outcome:
  assumes "nat_inv (entryList s)"
  shows "case recv_loop e q ps rv s of
      Inl f \<Rightarrow> f = OutOfBounds \<or> f = NullDeref \<or> f = Exit 1 \<and> Select_fails \<in> set ps
    | Inr (vs, s') \<Rightarrow> nat_inv (entryList s') \<and> (q \<noteq> 0 \<longrightarrow> nat_abs (entryList s') = nat_abs (entryList s))"
  using assms
proof (induction ps arbitrary: s rv)
  case (Cons p ps)
  have r: "case recv_round e q p rv s of
      Inl f \<Rightarrow> f = OutOfBounds \<or> f = NullDeref \<or> f = Exit 1 \<and> p = Select_fails
    | Inr (rv', vs, s') \<Rightarrow> nat_inv (entryList s') \<and> (q \<noteq> 0 \<longrightarrow> nat_abs (entryList s') = nat_abs (entryList s))"
  proof (cases p)
    case (Received rv' nfas)
    then show ?thesis
      using Cons.prems packets_outcome [OF Cons.prems, where e = e and q = q and nfas = nfas]
      by (cases "nfq_handle_packet e q nfas s") auto
  qed (use Cons.prems in auto)
  show ?case
  proof (cases "recv_round e q p rv s")
    case (Inl f)
    then show ?thesis using r Cons.prems by auto
  next
    case (Inr x)
    then show ?thesis
      using r Cons.prems Cons.IH [of "snd (snd x)" "fst x"] by (auto split: sum.splits prod.splits)
  qed
qed simp

text \<open>A queue thread keeps the table well formed through every sequence of polls, and the thread
  of queue 1 keeps the map; it stops the process only by \<open>exit(1)\<close>, when the library cannot be set
  up or \<open>select\<close> fails, apart from the memory errors of the handler.\<close>

theorem gw_recvPkt_outcomes:
  assumes "nat_inv (entryList s)"
  shows "case recvPkt e n q ps s of
      Inl f \<Rightarrow> f = OutOfBounds \<or> f = NullDeref \<or> f = Exit 1 \<and>
        (Select_fails \<in> set ps \<or> \<not> nfq_open_ok n \<or> nfq_unbind_ret n < 0 \<or> nfq_bind_ret n < 0 \<or>
         \<not> nfq_create_ok n \<or> nfq_mode_ret n < 0)
    | Inr (vs, s') \<Rightarrow> nat_inv (entryList s') \<and> (q \<noteq> 0 \<longrightarrow> nat_abs (entryList s') = nat_abs (entryList s))"
  using recv_loop_outcome [OF assms, where e = e and q = q and ps = ps and rv = 1]
  by (auto simp: recvPkt_def split: sum.splits)

theorem gw_recvPkt_outcomes_witness:
  "case recvPkt \<lparr>calloc_ok = (\<lambda>_. True)\<rparr>
       \<lparr>nfq_open_ok = True, nfq_unbind_ret = 0, nfq_bind_ret = 0, nfq_create_ok = True, nfq_mode_ret = 0\<rparr> 1
       [Received 100 [demo_tb demo_answer], Received 0 []] demo_gw of
      Inl f \<Rightarrow> f = OutOfBounds \<or> f = NullDeref \<or> f = Exit 1 \<and>
        (Select_fails \<in> set [Received 100 [demo_tb demo_answer], Received 0 []])
    | Inr (vs, s') \<Rightarrow> nat_inv (entryList s') \<and>
        ((1 :: int) \<noteq> 0 \<longrightarrow> nat_abs (entryList s') = nat_abs (entryList demo_gw))"
  using gw_recvPkt_outcomes [where s = demo_gw and e = "\<lparr>calloc_ok = (\<lambda>_. True)\<rparr>" and q = 1
      and n = "\<lparr>nfq_open_ok = True, nfq_unbind_ret = 0, nfq_bind_ret = 0, nfq_create_ok = True, nfq_mode_ret = 0\<rparr>"
      and ps = "[Received 100 [demo_tb demo_answer], Received 0 []]"]
  by (simp add: demo_gw_def nat_inv_init split: sum.splits) auto

end
