(* ===== verification/Gw_Controller.thy ===== *)
theory Gw_Controller
  imports Of_Channel Gw_Packet
begin

text \<open>
  The gateway's side of the control channel and its main program (Gateway/gatewayNAT.c:
  \<open>controller_conn_init\<close>, \<open>handle_vendor\<close>, \<open>handle_flow_mod\<close>, \<open>process_controller_msg\<close>,
  \<open>controller_receive\<close>, \<open>controller_run\<close>, \<open>main\<close>). The state of the whole program extends the
  packet path's with the pointer to the controller connection.

  Shown here: the reply to every message of the controller, which message changes the translation
  table and how, what a message longer than the receive buffer does, and the invariant of every
  reachable state of the program.
\<close>

section \<open>State\<close>

datatype gw_subtype = WLAN_NAT_ADD | GW_CONNECT

definition gw_subtype_vals :: "(gw_subtype \<times> nat) list" where
  "gw_subtype_vals = [(WLAN_NAT_ADD, 20), (GW_CONNECT, 100)]"

interpretation gw_subtype_enum: c_enum gw_subtype_vals
proof
  fix c show "c \<in> fst ` set gw_subtype_vals" by (cases c) (simp_all add: gw_subtype_vals_def)
qed (simp_all add: gw_subtype_vals_def)

record gateway = gw_state +
  controller :: "controller_connection option"

definition sizeof_connection :: nat where
  "sizeof_connection = 72"

definition controller_conn_init :: "'e of_env_scheme \<Rightarrow> gateway \<Rightarrow> int \<times> gateway" where
  "controller_conn_init e g =
     (if \<not> calloc_ok e sizeof_connection then (0, g\<lparr>controller := None\<rparr>)
      else (1, g\<lparr>controller := Some connection_init\<rparr>))"

text \<open>An operation on \<open>*controller\<close>.\<close>

definition on_conn :: "(controller_connection \<Rightarrow> controller_connection res) \<Rightarrow> gateway \<Rightarrow> gateway res" where
  "on_conn f g = bindE (non_null (controller g)) (\<lambda>c. bindE (f c) (\<lambda>c. Inr (g\<lparr>controller := Some c\<rparr>)))"

section \<open>Messages of the controller\<close>

definition handle_nat_add :: "'e of_env_scheme \<Rightarrow> buf \<Rightarrow> gateway \<Rightarrow> gateway res" where
  "handle_nat_add e oh g =
     (let p = sizeof ofp_wlan_header in
      bindE (ld_ip4 oh (p + offsetof ofp_nat_entry [''nw_src''])) (\<lambda>src_addr.
      bindE (ld_ip4 oh (p + offsetof ofp_nat_entry [''nw_dst''])) (\<lambda>dst_addr.
      bindE (ld16 oh (p + offsetof ofp_nat_entry [''tp_src''])) (\<lambda>tp_src.
      bindE (learn e tp_src dst_addr tp_src src_addr (entryList g)) (\<lambda>t.
        Inr (g\<lparr>entryList := t\<rparr>))))))"

definition handle_vendor :: "'e of_env_scheme \<Rightarrow> buf \<Rightarrow> gateway \<Rightarrow> gateway res" where
  "handle_vendor e oh g =
     bindE (ld32 oh (offsetof ofp_vendor_header [''vendor''])) (\<lambda>v.
     if ntohl v = NX_VENDOR_ID then on_conn (handle_nicira e oh) g
     else if ntohl v = AP_EXPERIMENTER_ID then
       bindE (ld32 oh (offsetof ofp_wlan_header [''subtype''])) (\<lambda>sub.
       case enum_of gw_subtype_vals (unat (ntohl sub)) of
         Some WLAN_NAT_ADD \<Rightarrow> handle_nat_add e oh g
       | _ \<Rightarrow> Inr g)
     else Inr g)"

text \<open>A request to delete flows is answered with a message of the gateway's own; its transaction id is
  the lower half of a random number.\<close>

definition send_gw_connect :: "'e of_env_scheme \<Rightarrow> controller_connection \<Rightarrow> controller_connection res" where
  "send_gw_connect e c =
     (if \<not> calloc_ok e (sizeof ofp_wlan_header) then Inr c
      else bindE (puts (zeroed (sizeof ofp_wlan_header))
          [(offsetof ofp_wlan_header [''header'', ''version''], [OFP_VERSION]),
           (offsetof ofp_wlan_header [''header'', ''type''], [ofpt OFPT_VENDOR]),
           (offsetof ofp_wlan_header [''header'', ''xid''], bytes32 (ucast (htons (ucast (rand_ret e))))),
           (offsetof ofp_wlan_header [''header'', ''length''],
              bytes16 (htons (word_of_nat (sizeof ofp_wlan_header)))),
           (offsetof ofp_wlan_header [''vendor''], bytes32 (ntohl AP_EXPERIMENTER_ID)),
           (offsetof ofp_wlan_header [''subtype''],
              bytes32 (ntohl (word_of_nat (enum_val gw_subtype_vals GW_CONNECT))))]) (\<lambda>msg.
        send_whole e msg c))"

definition handle_flow_mod :: "'e of_env_scheme \<Rightarrow> buf \<Rightarrow> gateway \<Rightarrow> gateway res" where
  "handle_flow_mod e oh g =
     bindE (ld16 oh (offsetof ofp_flow_mod [''command''])) (\<lambda>cmd.
     case enum_of ofp_flow_mod_command_vals (unat (ntohs cmd)) of
       Some OFPFC_ADD \<Rightarrow> Inr g
     | Some OFPFC_DELETE \<Rightarrow> on_conn (send_gw_connect e) g
     | Some OFPFC_DELETE_STRICT \<Rightarrow> Inr g
     | Some OFPFC_MODIFY \<Rightarrow> Inr g
     | Some OFPFC_MODIFY_STRICT \<Rightarrow> Inr g
     | None \<Rightarrow> Inr g)"

definition process_controller_msg :: "'e of_env_scheme \<Rightarrow> buf \<Rightarrow> gateway \<Rightarrow> gateway res" where
  "process_controller_msg e oh g =
     bindE (ld8 oh (offsetof ofp_header [''type''])) (\<lambda>ty.
     case enum_of ofp_type_vals (unat ty) of
       Some OFPT_HELLO \<Rightarrow> on_conn (handle_hello e oh) g
     | Some OFPT_ECHO_REQUEST \<Rightarrow> on_conn (handle_echo_request e oh) g
     | Some OFPT_FEATURES_REQUEST \<Rightarrow> on_conn (handle_feature_request e oh) g
     | Some OFPT_SET_CONFIG \<Rightarrow> on_conn (handle_set_config oh) g
     | Some OFPT_BARRIER_REQUEST \<Rightarrow> on_conn (handle_barrier_request e oh) g
     | Some OFPT_GET_CONFIG_REQUEST \<Rightarrow> on_conn (handle_get_config_request e oh) g
     | Some OFPT_STATS_REQUEST \<Rightarrow> on_conn (handle_stats_request e oh) g
     | Some OFPT_FLOW_MOD \<Rightarrow> handle_flow_mod e oh g
     | Some OFPT_VENDOR \<Rightarrow> handle_vendor e oh g
     | _ \<Rightarrow> Inr g)"

definition controller_receive :: "'e of_env_scheme \<Rightarrow> rx_env \<Rightarrow> gateway \<Rightarrow> gateway res" where
  "controller_receive e r g =
     bindE (non_null (controller g)) (\<lambda>c.
     bindE (receive_msg r c) (\<lambda>(m, c).
     let g = g\<lparr>controller := Some c\<rparr> in
     case m of None \<Rightarrow> Inr g | Some oh \<Rightarrow> process_controller_msg e oh g))"

text \<open>One round of the loop of \<open>controller_run\<close>, and the loop over the rounds observed.\<close>

definition controller_round :: "'e of_env_scheme \<Rightarrow> conn_env \<Rightarrow> rx_env \<Rightarrow> gateway \<Rightarrow> gateway res" where
  "controller_round e ce r g =
     bindE (on_conn (controller_conn_open e ce) g) (controller_receive e r)"

fun controller_run :: "('e of_env_scheme \<times> conn_env \<times> rx_env) list \<Rightarrow> gateway \<Rightarrow> gateway res" where
  "controller_run [] g = Inr g"
| "controller_run ((e, ce, r) # rs) g =
     (if loop_terminate g then bindE (controller_round e ce r g) (controller_run rs) else Inr g)"

definition controller_conn_close :: "gateway \<Rightarrow> gateway res" where
  "controller_conn_close g = bindE (non_null (controller g)) (\<lambda>c. Inr (g\<lparr>controller := None\<rparr>))"

definition sigintHandler :: "gateway \<Rightarrow> gateway" where
  "sigintHandler g = g\<lparr>loop_terminate := False\<rparr>"

section \<open>The main program\<close>

text \<open>\<open>if_ioctl\<close> is the result of asking for the address of the interface, \<open>if_addr\<close> that address,
  and \<open>aton\<close> what \<open>inet_aton\<close> makes of the subnet argument. A null array of heads has no slots.\<close>

record main_env =
  if_ioctl :: int
  if_addr :: ip4
  aton :: "ip4 option"

definition main_init :: "'e of_env_scheme \<Rightarrow> main_env \<Rightarrow> (int \<times> gateway) res" where
  "main_init e me =
     (if if_ioctl me \<noteq> 0 then Inl (Exit 1)
      else case aton me of
        None \<Rightarrow> Inl (Exit 1)
      | Some caddr \<Rightarrow>
          if \<not> calloc_ok e 8 then Inl NullDeref
          else let t = chains_init (if calloc_ok e (MAXENTRY * 8) then MAXENTRY else 0)
               in Inr (controller_conn_init e
                    \<lparr>entryList = t, ifIP = if_addr me, subnet = dotted3 caddr, loop_terminate = True,
                     controller = None\<rparr>))"

section \<open>What the gateway answers\<close>

definition vendor_of :: "buf \<Rightarrow> u32" where
  "vendor_of oh = ntohl (le32 (oh ! 8) (oh ! 9) (oh ! 10) (oh ! 11))"

definition subtype_of :: "buf \<Rightarrow> u32" where
  "subtype_of oh = ntohl (le32 (oh ! 12) (oh ! 13) (oh ! 14) (oh ! 15))"

text \<open>The answer to a message, by its type.\<close>

definition gw_answer :: "u32 \<Rightarrow> controller_connection \<Rightarrow> buf \<Rightarrow> buf option" where
  "gw_answer rnd c oh = (case enum_of ofp_type_vals (unat (oh ! 1)) of
     Some OFPT_HELLO \<Rightarrow> Some (of_msg OFPT_HELLO (xid_of oh) [])
   | Some OFPT_ECHO_REQUEST \<Rightarrow> Some (take (len_of oh) (oh[1 := ofpt OFPT_ECHO_REPLY]))
   | Some OFPT_FEATURES_REQUEST \<Rightarrow>
       Some (of_msg OFPT_FEATURES_REPLY (xid_of oh) (bytes64 (htonll (dpid c)) @ zeroed 16))
   | Some OFPT_BARRIER_REQUEST \<Rightarrow> Some (of_msg OFPT_BARRIER_REPLY (xid_of oh) [])
   | Some OFPT_GET_CONFIG_REQUEST \<Rightarrow> Some (of_msg OFPT_GET_CONFIG_REPLY (xid_of oh)
       (bytes16 (htons OFPC_FRAG_NORMAL) @ bytes16 (htons (miss_send_len c))))
   | Some OFPT_STATS_REQUEST \<Rightarrow>
       (if le16 (oh ! 8) (oh ! 9) = 0 then Some (of_msg OFPT_STATS_REPLY (xid_of oh) (zeroed 1060)) else None)
   | Some OFPT_FLOW_MOD \<Rightarrow>
       (if ntohs (le16 (oh ! 56) (oh ! 57)) = 3
        then Some (of_msg OFPT_VENDOR (ucast (htons (ucast rnd))) (bytes32 (htonl 1) @ bytes32 (htonl 100))) else None)
   | Some OFPT_VENDOR \<Rightarrow>
       (if vendor_of oh = NX_VENDOR_ID \<and> subtype_of oh = 10
        then Some (of_msg OFPT_VENDOR (xid_of oh) (bytes32 (htonl NX_VENDOR_ID) @ bytes32 (htonl 11) @ slice oh 16 4))
        else None)
   | _ \<Rightarrow> None)"

definition is_nat_add :: "buf \<Rightarrow> bool" where
  "is_nat_add oh \<longleftrightarrow> oh ! 1 = ofpt OFPT_VENDOR \<and> vendor_of oh = AP_EXPERIMENTER_ID \<and> subtype_of oh = 20"

definition config_after :: "buf \<Rightarrow> u16 \<Rightarrow> u16" where
  "config_after oh m = (if oh ! 1 = ofpt OFPT_SET_CONFIG then ntohs (le16 (oh ! 10) (oh ! 11)) else m)"

lemma on_conn_Inr: "controller g = Some c \<Longrightarrow> f c = Inr c' \<Longrightarrow> on_conn f g = Inr (g\<lparr>controller := Some c'\<rparr>)"
  by (simp add: on_conn_def)

lemma on_conn_same: "controller g = Some c \<Longrightarrow> f c = Inr c \<Longrightarrow> on_conn f g = Inr g"
  by (simp add: on_conn_def)

lemma send_gw_connect_eq:
  assumes "calloc_ok e 16"
  shows "send_gw_connect e c = Inr (reply e (of_msg OFPT_VENDOR (ucast (htons (ucast (rand_ret e))))
    (bytes32 (htonl 1) @ bytes32 (htonl 100))) c)"
proof -
  have "enum_val gw_subtype_vals GW_CONNECT = 100" by (simp add: enum_val_def gw_subtype_vals_def)
  then show ?thesis
    using assms send_whole_of_msg [of "bytes32 (htonl 1) @ bytes32 (htonl 100)" e OFPT_VENDOR
        "ucast (htons (ucast (rand_ret e)))" c]
    by (simp add: send_gw_connect_def build_msg AP_EXPERIMENTER_ID_def htonl_def)
qed

lemma handle_flow_mod_eq:
  assumes "72 \<le> length oh" "calloc_ok e 16" "controller g = Some c"
  shows "handle_flow_mod e oh g = Inr (if ntohs (le16 (oh ! 56) (oh ! 57)) = 3
    then g\<lparr>controller := Some (reply e (of_msg OFPT_VENDOR (ucast (htons (ucast (rand_ret e))))
      (bytes32 (htonl 1) @ bytes32 (htonl 100))) c)\<rparr> else g)"
proof -
  let ?m = "ntohs (le16 (oh ! 56) (oh ! 57))"
  have "enum_of ofp_flow_mod_command_vals (unat ?m) = Some OFPFC_DELETE \<longleftrightarrow> ?m = 3"
    by (auto simp: enum_of_def ofp_flow_mod_command_vals_def word_unat_eq_iff)
  then show ?thesis
    using assms on_conn_Inr [OF assms(3) send_gw_connect_eq]
    by (auto simp: handle_flow_mod_def layout_simps ld16_def split: option.splits ofp_flow_mod_command.splits)
qed

lemma handle_vendor_eq:
  assumes "72 \<le> length oh" "calloc_ok e 20" "controller g = Some c"
    "\<not> (vendor_of oh = AP_EXPERIMENTER_ID \<and> subtype_of oh = 20)"
  shows "handle_vendor e oh g = Inr (if vendor_of oh = NX_VENDOR_ID \<and> subtype_of oh = 10
    then g\<lparr>controller := Some (reply e (of_msg OFPT_VENDOR (xid_of oh)
      (bytes32 (htonl NX_VENDOR_ID) @ bytes32 (htonl 11) @ slice oh 16 4)) c)\<rparr> else g)"
proof -
  have n: "enum_of gw_subtype_vals (unat (subtype_of oh)) = Some WLAN_NAT_ADD \<longleftrightarrow> subtype_of oh = 20"
    by (auto simp: enum_of_def gw_subtype_vals_def word_unat_eq_iff)
  have v: "NX_VENDOR_ID \<noteq> AP_EXPERIMENTER_ID" by (simp add: NX_VENDOR_ID_def AP_EXPERIMENTER_ID_def)
  have l: "ld32 oh 8 = Inr (ntohl (vendor_of oh))" "ld32 oh 12 = Inr (ntohl (subtype_of oh))"
    using assms(1) by (simp_all add: ld32_def vendor_of_def subtype_of_def)
  have m: "handle_nicira e oh c = (if subtype_of oh = 10 then Inr (reply e (of_msg OFPT_VENDOR (xid_of oh)
      (bytes32 (htonl NX_VENDOR_ID) @ bytes32 (htonl 11) @ slice oh 16 4)) c) else Inr c)"
    using handle_nicira_eq [of oh e c] assms(1,2) by (simp add: subtype_of_def)
  show ?thesis
    using assms(3,4) n v
    by (auto simp: handle_vendor_def layout_simps l m on_conn_def split: option.splits gw_subtype.splits)
qed

text \<open>The messages of the controller that do not change the table, one theorem for all of them.\<close>

lemma process_msg_answers:
  assumes len: "length oh = STR_LEN" "8 \<le> len_of oh" "len_of oh \<le> STR_LEN"
    and ok: "calloc_ok e = (\<lambda>_. True)" and c: "controller g = Some c" and na: "\<not> is_nat_add oh"
  shows "process_controller_msg e oh g = Inr (g\<lparr>controller := Some
    (case gw_answer (rand_ret e) c oh of
       None \<Rightarrow> c\<lparr>miss_send_len := config_after oh (miss_send_len c)\<rparr>
     | Some m \<Rightarrow> reply e m c)\<rparr>)"
proof -
  have l: "length oh = 100" using len(1) by (simp add: STR_LEN_def)
  have g: "g\<lparr>controller := Some c\<rparr> = g" using c by simp
  note eqs = handle_hello_eq handle_echo_request_eq handle_feature_request_eq handle_barrier_request_eq
    handle_get_config_request_eq handle_stats_request_eq handle_set_config_eq
  show ?thesis
  proof (cases "enum_of ofp_type_vals (unat (oh ! 1))")
    case None
    then have "oh ! 1 \<noteq> ofpt OFPT_SET_CONFIG" using ofp_type_of_iff [of "oh ! 1" OFPT_SET_CONFIG] by auto
    then show ?thesis
      using None c l by (simp add: process_controller_msg_def layout_simps ld8_def gw_answer_def config_after_def)
  next
    case (Some t)
    then have t: "oh ! 1 = ofpt t" by (simp add: ofp_type_of_iff)
    have cfg: "config_after oh m = (if t = OFPT_SET_CONFIG then ntohs (le16 (oh ! 10) (oh ! 11)) else m)" for m
      unfolding config_after_def t ofpt_inject ..
    have v: "t = OFPT_VENDOR \<Longrightarrow> \<not> (vendor_of oh = AP_EXPERIMENTER_ID \<and> subtype_of oh = 20)"
      using na t by (auto simp: is_nat_add_def)
    have p: "ld8 oh (offsetof ofp_header [''type'']) = Inr (oh ! 1)" using l by (simp add: ld8_def layout_simps)
    show ?thesis
      unfolding process_controller_msg_def p bindE.simps Some gw_answer_def cfg
      using c l ok len v handle_flow_mod_eq [of oh e g c] handle_vendor_eq [of oh e g c]
      by (cases t) (simp_all add: on_conn_def eqs STR_LEN_def)
  qed
qed

section \<open>The invariant of the program\<close>

definition gw_inv :: "gateway \<Rightarrow> bool" where
  "gw_inv g \<longleftrightarrow> nat_inv (entryList g) \<and> (\<forall>c. controller g = Some c \<longrightarrow> conn_inv c)"

text \<open>What no step of a running gateway changes.\<close>

definition gw_config :: "gateway \<Rightarrow> ip4 \<times> string \<times> bool" where
  "gw_config g = (ifIP g, subnet g, controller g = None)"

lemma on_conn_inv:
  assumes "on_conn f g = Inr g'" "gw_inv g" "\<And>c c'. conn_inv c \<Longrightarrow> f c = Inr c' \<Longrightarrow> conn_inv c'"
  shows "gw_inv g' \<and> gw_config g' = gw_config g \<and> loop_terminate g' = loop_terminate g"
  using assms by (cases "controller g") (auto simp: on_conn_def gw_inv_def gw_config_def elim!: bindE_E)

lemma send_gw_connect_sends: "send_gw_connect e c = Inr c' \<Longrightarrow> sends e c c'"
  by (auto simp: send_gw_connect_def simp del: puts.simps elim!: bindE_E dest: send_whole_sends split: if_splits)

lemma handle_nat_add_inv:
  assumes "handle_nat_add e oh g = Inr g'" "gw_inv g"
  shows "gw_inv g' \<and> gw_config g' = gw_config g \<and> loop_terminate g' = loop_terminate g"
proof -
  obtain sp d a t where t: "learn e sp d sp a (entryList g) = Inr t" "g' = g\<lparr>entryList := t\<rparr>"
    using assms(1) by (auto simp: handle_nat_add_def Let_def elim!: bindE_E)
  then have "nat_inv t"
    using learn_outcomes [of "entryList g" e sp d sp a] assms(2) by (auto simp: gw_inv_def)
  then show ?thesis using t assms(2) by (auto simp: gw_inv_def gw_config_def)
qed

lemma process_msg_inv:
  assumes "process_controller_msg e oh g = Inr g'" "gw_inv g"
  shows "gw_inv g' \<and> gw_config g' = gw_config g \<and> loop_terminate g' = loop_terminate g"
proof -
  have s: "conn_inv c'" if "conn_inv c" "sends e c c'" for c c' :: controller_connection
    using sends_inv [OF that(2,1)] by simp
  have cfg: "conn_inv c'" if "conn_inv c" "handle_set_config oh c = Inr c'" for c c' :: controller_connection
    using that by (auto simp: handle_set_config_def conn_inv_def elim!: bindE_E)
  have o: "gw_inv g' \<and> gw_config g' = gw_config g \<and> loop_terminate g' = loop_terminate g"
    if "on_conn f g = Inr g'" "\<And>c c'. f c = Inr c' \<Longrightarrow> sends e c c'" for f
    using on_conn_inv [OF that(1) assms(2)] that(2) s by blast
  have fm: ?thesis if "handle_flow_mod e oh g = Inr g'"
    using that assms(2) o [OF _ send_gw_connect_sends]
    by (auto simp: handle_flow_mod_def elim!: bindE_E split: option.splits ofp_flow_mod_command.splits)
  have vd: ?thesis if "handle_vendor e oh g = Inr g'"
    using that assms(2) o [OF _ handlers_send(6)] handle_nat_add_inv [of e oh g g']
    by (auto simp: handle_vendor_def elim!: bindE_E split: if_splits option.splits gw_subtype.splits)
  show ?thesis
    using assms fm vd o [OF _ handlers_send(1)] o [OF _ handlers_send(2)] o [OF _ handlers_send(3)]
      o [OF _ handlers_send(4)] o [OF _ handlers_send(5)] o [OF _ handlers_send(7)] on_conn_inv [OF _ assms(2) cfg]
    unfolding process_controller_msg_def
    by (elim bindE_E) (simp split: option.splits ofp_type.splits)
qed

lemma controller_round_inv:
  assumes "controller_round e ce r g = Inr g'" "gw_inv g"
  shows "gw_inv g' \<and> gw_config g' = gw_config g \<and> loop_terminate g' = loop_terminate g"
proof -
  obtain g1 where g1: "on_conn (controller_conn_open e ce) g = Inr g1" "controller_receive e r g1 = Inr g'"
    using assms(1) by (auto simp: controller_round_def elim!: bindE_E)
  have i1: "gw_inv g1 \<and> gw_config g1 = gw_config g \<and> loop_terminate g1 = loop_terminate g"
    by (rule on_conn_inv [OF g1(1) assms(2)]) (rule conn_open_outcome)
  obtain c m c1 where c: "controller g1 = Some c" "receive_msg r c = Inr (m, c1)"
    "case m of None \<Rightarrow> g' = g1\<lparr>controller := Some c1\<rparr>
     | Some oh \<Rightarrow> process_controller_msg e oh (g1\<lparr>controller := Some c1\<rparr>) = Inr g'"
    using g1(2) by (cases "controller g1") (auto simp: controller_receive_def Let_def elim!: bindE_E split: option.splits)
  let ?g = "g1\<lparr>controller := Some c1\<rparr>"
  have i2: "gw_inv ?g" "gw_config ?g = gw_config g1" "loop_terminate ?g = loop_terminate g1"
    using i1 c(1) receive_msg_outcome(1) [OF c(2)] by (auto simp: gw_inv_def gw_config_def conn_inv_def)
  show ?thesis
  proof (cases m)
    case None
    then show ?thesis using c(3) i1 i2 by simp
  next
    case (Some oh)
    then show ?thesis using c(3) i1 i2 process_msg_inv [of e oh ?g g'] by simp
  qed
qed

text \<open>The steps of the running program: a round of a queue thread, a round of the controller thread,
  or the signal handler. Each runs as a whole; the sections of \<open>addEntry\<close> are interleaved in the
  theory of the table.\<close>

inductive gw_step :: "gateway \<Rightarrow> gateway \<Rightarrow> bool" where
  queue: "loop_terminate g \<Longrightarrow> q = 0 \<or> q = 1 \<Longrightarrow>
     recv_round (e :: of_env) q p rv g = Inr (rv', vs, g') \<Longrightarrow> gw_step g g'"
| control: "loop_terminate g \<Longrightarrow> controller_round (e :: of_env) ce r g = Inr g' \<Longrightarrow> gw_step g g'"
| signal: "gw_step g (sigintHandler g)"

inductive_cases gw_stepE: "gw_step g g'"

lemma gw_step_inv:
  assumes "gw_step g g'" "gw_inv g"
  shows "gw_inv g' \<and> gw_config g' = gw_config g \<and> (loop_terminate g' \<longrightarrow> loop_terminate g)"
  using assms(1)
proof (cases rule: gw_step.cases)
  case (queue q e p rv rv' vs)
  have "nat_inv (entryList g)" using assms(2) by (simp add: gw_inv_def)
  from recv_round_frame [OF this queue(3)] show ?thesis
    using assms(2) by (auto simp: gw_inv_def gw_config_def)
next
  case (control e ce r)
  from controller_round_inv [OF control(2) assms(2)] show ?thesis by simp
next
  case signal
  then show ?thesis using assms(2) by (simp add: sigintHandler_def gw_inv_def gw_config_def)
qed

section \<open>Properties\<close>

text \<open>C18. In every state that the running gateway reaches, under any interleaving of packets, messages
  of the controller, connection failures and the interrupt signal, the translation table is well
  formed, the counter of failed sends is below its limit, and the gateway's address and subnet are
  those the program was started with; a program that was told to stop stays so.\<close>

theorem gw_reachable_inv:
  assumes "main_init (e :: of_env) me = Inr (r, g0)" "calloc_ok e (MAXENTRY * 8)" "gw_step\<^sup>*\<^sup>* g0 g"
  shows "nat_inv (entryList g) \<and> ifIP g = if_addr me \<and> Some (subnet g) = map_option dotted3 (aton me) \<and>
    (\<forall>c. controller g = Some c \<longrightarrow> 0 \<le> error c \<and> error c < 10) \<and>
    (\<forall>g'. gw_step\<^sup>*\<^sup>* g g' \<longrightarrow> loop_terminate g' \<longrightarrow> loop_terminate g)"
proof -
  have i0: "gw_inv g0" "ifIP g0 = if_addr me" "Some (subnet g0) = map_option dotted3 (aton me)"
    using assms(1,2) nat_inv_init conn_inv_init
    by (auto simp: main_init_def controller_conn_init_def gw_inv_def Let_def split: if_splits option.splits)
  have run: "gw_inv b \<and> gw_config b = gw_config a \<and> (loop_terminate b \<longrightarrow> loop_terminate a)"
    if "gw_step\<^sup>*\<^sup>* a b" "gw_inv a" for a b
    using that by (induction rule: rtranclp_induct) (auto dest: gw_step_inv)
  show ?thesis
    using run [OF assms(3) i0(1)] i0(2,3) run [of g]
    by (auto simp: gw_inv_def gw_config_def conn_inv_def)
qed

text \<open>An environment in which every call succeeds.\<close>

definition demo_of_env :: of_env where
  "demo_of_env = \<lparr>calloc_ok = (\<lambda>_. True), send_ret = (\<lambda>_. 8), rand_ret = 5\<rparr>"

definition demo_main_env :: main_env where
  "demo_main_env = \<lparr>if_ioctl = 0, if_addr = IP4 10 0 0 1, aton = Some (IP4 192 168 5 0)\<rparr>"

definition demo_gateway :: gateway where
  "demo_gateway = \<lparr>entryList = chains_init MAXENTRY, ifIP = IP4 10 0 0 1, subnet = dotted3 (IP4 192 168 5 0),
     loop_terminate = True, controller = Some connection_init\<rparr>"

lemma demo_gateway_init: "main_init demo_of_env demo_main_env = Inr (1, demo_gateway)"
  by (simp add: main_init_def demo_of_env_def demo_main_env_def demo_gateway_def controller_conn_init_def)

theorem gw_reachable_inv_witness:
  "\<exists>g. gw_step\<^sup>*\<^sup>* demo_gateway g \<and> \<not> loop_terminate g \<and> nat_inv (entryList g) \<and> ifIP g = IP4 10 0 0 1 \<and>
     (\<forall>c. controller g = Some c \<longrightarrow> 0 \<le> error c \<and> error c < 10)"
proof -
  have s: "gw_step\<^sup>*\<^sup>* demo_gateway (sigintHandler demo_gateway)" by (simp add: gw_step.signal r_into_rtranclp)
  have "calloc_ok demo_of_env (MAXENTRY * 8)" by (simp add: demo_of_env_def)
  from gw_reachable_inv [OF demo_gateway_init this s] s show ?thesis
    by (intro exI [of _ "sigintHandler demo_gateway"]) (simp add: sigintHandler_def demo_main_env_def)
qed

text \<open>C24. The answer to every message of the controller that fits the receive buffer, except an
  announcement of a translated flow: the handlers send exactly the message of the OpenFlow
  protocol (hello, echo, features, barrier and configuration replies, the switch description, the
  Nicira role reply and, for a deletion of flows, the gateway's own message), or none, and change
  nothing else than the configured miss length.\<close>

theorem gw_answers:
  assumes "length oh = STR_LEN" "8 \<le> len_of oh" "len_of oh \<le> STR_LEN"
    "calloc_ok e = (\<lambda>_. True)" "controller g = Some c" "\<not> is_nat_add oh"
  shows "process_controller_msg e oh g = Inr (g\<lparr>controller := Some
    (case gw_answer (rand_ret e) c oh of
       None \<Rightarrow> c\<lparr>miss_send_len := config_after oh (miss_send_len c)\<rparr>
     | Some m \<Rightarrow> reply e m c)\<rparr>)"
  using process_msg_answers [OF assms] .

definition demo_hello :: buf where
  "demo_hello = [1, 0, 0, 8, 0xde, 0xad, 0xbe, 0xef] @ zeroed 92"

theorem gw_answers_witness:
  "process_controller_msg demo_of_env demo_hello (demo_gateway\<lparr>controller := Some (connection_init\<lparr>sock := 4\<rparr>)\<rparr>) =
     Inr (demo_gateway\<lparr>controller := Some (connection_init\<lparr>sock := 4,
       sent := [([1, 0, 0, 8, 0xde, 0xad, 0xbe, 0xef], 8)]\<rparr>)\<rparr>)"
proof -
  let ?c = "connection_init\<lparr>sock := 4\<rparr>" and ?g = "demo_gateway\<lparr>controller := Some (connection_init\<lparr>sock := 4\<rparr>)\<rparr>"
  have l: "length demo_hello = STR_LEN" "8 \<le> len_of demo_hello" "len_of demo_hello \<le> STR_LEN" "\<not> is_nat_add demo_hello"
    by (simp_all add: demo_hello_def STR_LEN_def len_of_def is_nat_add_def unat_le16)
  have a: "gw_answer (rand_ret demo_of_env) ?c demo_hello = Some (of_msg OFPT_HELLO (le32 0xde 0xad 0xbe 0xef) [])"
    by (simp add: gw_answer_def demo_hello_def enum_of_def ofp_type_vals_def xid_of_def)
  have "bytes16 (htons 8) = [0, 8]" by code_simp
  then have m: "of_msg OFPT_HELLO (le32 0xde 0xad 0xbe 0xef) [] = [1, 0, 0, 8, 0xde, 0xad, 0xbe, 0xef]"
    by (simp add: of_msg_def OFP_VERSION_def)
  have "calloc_ok demo_of_env = (\<lambda>_. True)" "controller ?g = Some ?c" by (simp_all add: demo_of_env_def)
  moreover have "reply demo_of_env [1, 0, 0, 8, 0xde, 0xad, 0xbe, 0xef] ?c =
      connection_init\<lparr>sock := 4, sent := [([1, 0, 0, 8, 0xde, 0xad, 0xbe, 0xef], 8)]\<rparr>"
    by (simp add: reply_def after_send_def demo_of_env_def connection_init_def)
  ultimately show ?thesis
    using gw_answers [OF l(1-3) _ _ l(4), where e = demo_of_env and g = ?g and c = ?c] by (simp only: a m option.case) simp
qed

lemma nat_add_effect:
  assumes "length oh = STR_LEN" "is_nat_add oh" "nat_inv (entryList g)" "calloc_ok e sizeof_natMap"
    "slice oh 24 4 = ip4_bytes src" "slice oh 28 4 = ip4_bytes dst" "HASH_FUNC dst \<noteq> 255"
    "slice oh 32 2 = bytes16 tp_src" "slice oh 34 2 = bytes16 tp_dst"
  shows "\<exists>t. process_controller_msg e oh g = Inr (g\<lparr>entryList := t\<rparr>) \<and> nat_inv t \<and>
    nat_abs t = (nat_abs (entryList g))((tp_src, dst, tp_src) \<mapsto> src) \<and>
    (tp_src \<noteq> tp_dst \<longrightarrow> nat_abs t (tp_src, dst, tp_dst) = nat_abs (entryList g) (tp_src, dst, tp_dst))"
proof -
  have l: "length oh = 100" using assms(1) by (simp add: STR_LEN_def)
  have "HASH_FUNC dst < MAXENTRY" using assms(7) by (simp add: HASH_FUNC_bound)
  from learn_refines [OF assms(3) this assms(4)]
  obtain t where t: "learn e tp_src dst tp_src src (entryList g) = Inr t" "nat_inv t"
    "nat_abs t = (nat_abs (entryList g))((tp_src, dst, tp_src) \<mapsto> src)" by blast
  have f: "ld_ip4 oh 24 = Inr src" "ld_ip4 oh 28 = Inr dst" "ld16 oh 32 = Inr tp_src"
    using assms(5,6,8) l by (simp_all add: ld_ip4_slice ld16_slice)
  have v: "ld32 oh 8 = Inr (ntohl (vendor_of oh))" "ld32 oh 12 = Inr (ntohl (subtype_of oh))"
    using l by (simp_all add: ld32_def vendor_of_def subtype_of_def)
  have "enum_of ofp_type_vals (unat (oh ! 1)) = Some OFPT_VENDOR"
    "vendor_of oh = AP_EXPERIMENTER_ID" "AP_EXPERIMENTER_ID \<noteq> NX_VENDOR_ID"
    "enum_of gw_subtype_vals (unat (subtype_of oh)) = Some WLAN_NAT_ADD"
    using assms(2) ofp_type_of_iff [of "oh ! 1" OFPT_VENDOR]
    by (simp_all add: is_nat_add_def NX_VENDOR_ID_def AP_EXPERIMENTER_ID_def enum_of_def gw_subtype_vals_def)
  then have "process_controller_msg e oh g = Inr (g\<lparr>entryList := t\<rparr>)"
    using l by (simp add: process_controller_msg_def layout_simps ld8_def handle_vendor_def v handle_nat_add_def f t(1))
  then show ?thesis using t(2,3) by auto
qed

text \<open>C25. An announced flow is recorded under the client's port twice: the message of the controller
  changes the table at the flow whose remote port is the client's own port, while the flow announced
  (with the remote port \<open>tp_dst\<close>) keeps what it had whenever the two ports differ.\<close>

theorem gw_nat_add_key:
  assumes "length oh = STR_LEN" "is_nat_add oh" "nat_inv (entryList g)" "calloc_ok e sizeof_natMap"
    "slice oh 24 4 = ip4_bytes src" "slice oh 28 4 = ip4_bytes dst" "HASH_FUNC dst \<noteq> 255"
    "slice oh 32 2 = bytes16 tp_src" "slice oh 34 2 = bytes16 tp_dst"
  shows "\<exists>t. process_controller_msg e oh g = Inr (g\<lparr>entryList := t\<rparr>) \<and> nat_inv t \<and>
    nat_abs t = (nat_abs (entryList g))((tp_src, dst, tp_src) \<mapsto> src) \<and>
    (tp_src \<noteq> tp_dst \<longrightarrow> nat_abs t (tp_src, dst, tp_dst) = nat_abs (entryList g) (tp_src, dst, tp_dst))"
  by (rule nat_add_effect [OF assms])

text \<open>The announcement of a client's DNS query: port 0xc001 to port 53.\<close>

definition demo_nat_add :: buf where
  "demo_nat_add = [1, 4, 0, 36, 0, 0, 0, 1, 0, 0, 0, 1, 0, 0, 0, 20] @ [2, 0, 0, 0, 0, 1, 0, 0] @
     [192, 168, 5, 2, 8, 8, 8, 8, 0xc0, 1, 0, 53] @ zeroed 64"

theorem gw_nat_add_key_witness:
  "\<exists>t. process_controller_msg demo_of_env demo_nat_add demo_gateway = Inr (demo_gateway\<lparr>entryList := t\<rparr>) \<and>
    nat_abs t (le16 0xc0 1, IP4 8 8 8 8, le16 0xc0 1) = Some (IP4 192 168 5 2) \<and>
    nat_abs t (le16 0xc0 1, IP4 8 8 8 8, le16 0 53) = None"
proof -
  have 1: "length demo_nat_add = STR_LEN" "is_nat_add demo_nat_add"
    by (simp_all add: demo_nat_add_def STR_LEN_def is_nat_add_def vendor_of_def subtype_of_def AP_EXPERIMENTER_ID_def)
      (simp_all add: le32_def)
  have 2: "nat_inv (entryList demo_gateway)" "calloc_ok demo_of_env sizeof_natMap"
    "nat_abs (entryList demo_gateway) k = None" for k
    by (simp_all add: demo_gateway_def nat_inv_init nat_abs_init demo_of_env_def)
  have 3: "slice demo_nat_add 24 4 = ip4_bytes (IP4 192 168 5 2)" "slice demo_nat_add 28 4 = ip4_bytes (IP4 8 8 8 8)"
    "slice demo_nat_add 32 2 = bytes16 (le16 0xc0 1)" "slice demo_nat_add 34 2 = bytes16 (le16 0 53)"
    by (simp_all add: demo_nat_add_def slice_def)
  have "HASH_FUNC (IP4 8 8 8 8) \<noteq> 255" by simp
  from gw_nat_add_key [OF 1 2(1,2) 3(1,2) this 3(3,4)] 2(3) show ?thesis by auto
qed

text \<open>C26. A message is received into a buffer of 100 bytes, whatever length its header claims: with
  the header and a body received, the message is the header followed by the bytes of the body, up to
  the claimed length, in the buffer; it is written beyond the end of the buffer exactly when the
  body has more than the 92 bytes left.\<close>

theorem receive_bounds:
  assumes "sock c \<noteq> -1" "0 \<le> rx_select r" "rx_ready r" "rx_header r = Recv_bytes h" "length h = 8"
    "rx_body r = Recv_bytes b" "length (rx_str r) = STR_LEN"
  shows "receive_msg r c =
    (let body = take (len_of h - 8) b in
     if length body \<le> 92 then Inr (Some (h @ body @ drop (8 + length body) (rx_str r)), c)
     else Inl OutOfBounds)"
proof -
  have h: "h \<noteq> []" "take 8 h = h" using assms(5) by auto
  have w: "wr (rx_str r) 0 h = Inr (h @ drop 8 (rx_str r))"
    using assms(5,7) by (simp add: wr_def splice_def STR_LEN_def)
  have l: "ld16 (h @ drop 8 (rx_str r)) 2 = Inr (le16 (h ! 2) (h ! 3))"
    using assms(5,7) by (simp add: ld16_def nth_append STR_LEN_def)
  have b: "wr (h @ drop 8 (rx_str r)) 8 x = (if length x \<le> 92 then Inr (h @ x @ drop (8 + length x) (rx_str r))
      else Inl OutOfBounds)" for x
    using assms(5,7) by (auto simp: wr_def splice_def STR_LEN_def add.commute)
  have z: "h @ drop 8 (rx_str r) = h @ [] @ drop (8 + length ([] :: buf)) (rx_str r)" by simp
  show ?thesis
  proof (cases "8 < len_of h")
    case True
    then show ?thesis
      using assms h b [of "take (len_of h - 8) b"]
      by (simp add: receive_msg_def layout_simps w l len_of_def Let_def)
  next
    case False
    then have "take (len_of h - 8) b = []" by simp
    then show ?thesis
      using assms h False by (simp add: receive_msg_def layout_simps w l len_of_def Let_def)
  qed
qed

definition demo_rx :: "nat \<Rightarrow> rx_env" where
  "demo_rx n = \<lparr>rx_select = 1, rx_ready = True, rx_header = Recv_bytes [1, 2, 0, 200, 0, 0, 0, 7],
     rx_body = Recv_bytes (replicate n 1), rx_str = zeroed 100\<rparr>"

theorem receive_bounds_witness:
  "receive_msg (demo_rx 93) (connection_init\<lparr>sock := 4\<rparr>) = Inl OutOfBounds"
proof -
  let ?h = "[1, 2, 0, 200, 0, 0, 0, 7] :: buf"
  have "len_of ?h = 200" by (simp add: len_of_def unat_le16)
  moreover have "receive_msg (demo_rx 93) (connection_init\<lparr>sock := 4\<rparr>) =
      (let body = take (len_of ?h - 8) (replicate 93 1) in
       if length body \<le> 92 then Inr (Some (?h @ body @ drop (8 + length body) (rx_str (demo_rx 93))),
         connection_init\<lparr>sock := 4\<rparr>) else Inl OutOfBounds)"
    by (rule receive_bounds) (simp_all add: demo_rx_def STR_LEN_def connection_init_def)
  ultimately show ?thesis by (simp add: Let_def)
qed

text \<open>The miss length the controller configures is the one the gateway reports: after any
  configuration message, the reply to a request for the configuration carries the two bytes that were
  set, under the transaction id of the request.\<close>

theorem gw_config_round_trip:
  assumes "length set_cfg = STR_LEN" "set_cfg ! 1 = ofpt OFPT_SET_CONFIG" "8 \<le> len_of set_cfg" "len_of set_cfg \<le> STR_LEN"
    "length get_cfg = STR_LEN" "get_cfg ! 1 = ofpt OFPT_GET_CONFIG_REQUEST" "8 \<le> len_of get_cfg" "len_of get_cfg \<le> STR_LEN"
    "calloc_ok e = (\<lambda>_. True)" "controller g = Some c"
  shows "\<exists>c'. bindE (process_controller_msg e set_cfg g) (process_controller_msg e get_cfg) =
      Inr (g\<lparr>controller := Some (reply e (of_msg OFPT_GET_CONFIG_REPLY (xid_of get_cfg)
        (bytes16 (htons OFPC_FRAG_NORMAL) @ slice set_cfg 10 2)) c')\<rparr>) \<and> sent c' = sent c"
proof -
  let ?m = "ntohs (le16 (set_cfg ! 10) (set_cfg ! 11))"
  let ?g = "g\<lparr>controller := Some (c\<lparr>miss_send_len := ?m\<rparr>)\<rparr>"
  have t: "enum_of ofp_type_vals (unat (set_cfg ! 1)) = Some OFPT_SET_CONFIG"
    "enum_of ofp_type_vals (unat (get_cfg ! 1)) = Some OFPT_GET_CONFIG_REQUEST"
    unfolding ofp_type_of_iff using assms(2,6) by auto
  have n: "\<not> is_nat_add set_cfg" "\<not> is_nat_add get_cfg"
    using assms(2,6) ofpt_inject by (auto simp: is_nat_add_def)
  have 1: "process_controller_msg e set_cfg g = Inr ?g"
    using process_msg_answers [OF assms(1,3,4,9,10) n(1)] t(1) assms(2)
    by (simp add: gw_answer_def config_after_def)
  have "slice set_cfg 10 2 = bytes16 (le16 (set_cfg ! 10) (set_cfg ! 11))"
    using assms(1) ld16_slice [of set_cfg 10 "le16 (set_cfg ! 10) (set_cfg ! 11)"]
    by (simp add: ld16_def STR_LEN_def)
  then have s: "bytes16 (htons ?m) = slice set_cfg 10 2" by (simp add: htons_def)
  have "process_controller_msg e get_cfg ?g = Inr (?g\<lparr>controller := Some (reply e (of_msg OFPT_GET_CONFIG_REPLY
      (xid_of get_cfg) (bytes16 (htons OFPC_FRAG_NORMAL) @ slice set_cfg 10 2)) (c\<lparr>miss_send_len := ?m\<rparr>))\<rparr>)"
    using process_msg_answers [OF assms(5,7,8,9) _ n(2), of ?g "c\<lparr>miss_send_len := ?m\<rparr>"] t(2) s
    by (simp add: gw_answer_def)
  then show ?thesis
    using 1 by (intro exI [of _ "c\<lparr>miss_send_len := ?m\<rparr>"]) simp
qed

definition demo_set_config :: buf where
  "demo_set_config = [1, 9, 0, 12, 0, 0, 0, 1, 0, 0, 0xff, 0xfe] @ zeroed 88"

definition demo_get_config :: buf where
  "demo_get_config = [1, 7, 0, 8, 0, 0, 0, 2] @ zeroed 92"

theorem gw_config_round_trip_witness:
  "\<exists>c'. bindE (process_controller_msg demo_of_env demo_set_config demo_gateway)
       (process_controller_msg demo_of_env demo_get_config) =
     Inr (demo_gateway\<lparr>controller := Some (reply demo_of_env
       [1, 8, 0, 12, 0, 0, 0, 2, 0, 0, 0xff, 0xfe] c')\<rparr>) \<and> sent c' = []"
proof -
  have l: "length demo_set_config = STR_LEN" "demo_set_config ! 1 = ofpt OFPT_SET_CONFIG"
    "8 \<le> len_of demo_set_config" "len_of demo_set_config \<le> STR_LEN"
    "length demo_get_config = STR_LEN" "demo_get_config ! 1 = ofpt OFPT_GET_CONFIG_REQUEST"
    "8 \<le> len_of demo_get_config" "len_of demo_get_config \<le> STR_LEN"
    "calloc_ok demo_of_env = (\<lambda>_. True)" "controller demo_gateway = Some connection_init"
    by (simp_all add: demo_set_config_def demo_get_config_def STR_LEN_def len_of_def unat_le16 demo_of_env_def
        demo_gateway_def)
  have "bytes16 (htons 12) = [0, 12]" "bytes16 (htons OFPC_FRAG_NORMAL) = [0, 0]" by code_simp+
  then have "of_msg OFPT_GET_CONFIG_REPLY (xid_of demo_get_config)
      (bytes16 (htons OFPC_FRAG_NORMAL) @ slice demo_set_config 10 2) = [1, 8, 0, 12, 0, 0, 0, 2, 0, 0, 0xff, 0xfe]"
    by (simp add: of_msg_def OFP_VERSION_def xid_of_def demo_get_config_def demo_set_config_def slice_def)
  with gw_config_round_trip [OF l] show ?thesis by (simp add: connection_init_def)
qed

text \<open>The datapath id that the gateway reports is the hardware address of its interface: once a
  connection was opened through the \<open>EINPROGRESS\<close> path, the features reply carries two zero bytes and
  the six bytes of the address.\<close>

theorem gw_features_carry_mac:
  assumes "sock c = -1" "0 \<le> socket_ret ce" "connect_ret ce < 0" "in_progress ce" "0 \<le> select_ret ce" "writable ce"
    "so_error ce = 0" "0 \<le> ioctl_ret ce" "calloc_ok e = (\<lambda>_. True)"
    "length oh = STR_LEN" "oh ! 1 = ofpt OFPT_FEATURES_REQUEST" "8 \<le> len_of oh" "len_of oh \<le> STR_LEN"
    "controller g = Some c"
  shows "\<exists>c'. bindE (on_conn (controller_conn_open e ce) g) (process_controller_msg e oh) =
    Inr (g\<lparr>controller := Some (reply e (of_msg OFPT_FEATURES_REPLY (xid_of oh)
      ([0, 0] @ mac_bytes (perm_addr ce) @ zeroed 16)) c')\<rparr>) \<and> sock c' = socket_ret ce"
proof -
  let ?c = "c\<lparr>sock := socket_ret ce, conn_mac := Some (perm_addr ce), dpid := dpid_of (perm_addr ce)\<rparr>"
  have o: "on_conn (controller_conn_open e ce) g = Inr (g\<lparr>controller := Some ?c\<rparr>)"
    using assms by (simp add: on_conn_def controller_conn_open_def conn_open_def)
  have t: "enum_of ofp_type_vals (unat (oh ! 1)) = Some OFPT_FEATURES_REQUEST" "\<not> is_nat_add oh"
    using assms(11) ofpt_inject unfolding ofp_type_of_iff by (auto simp: is_nat_add_def)
  have "process_controller_msg e oh (g\<lparr>controller := Some ?c\<rparr>) = Inr (g\<lparr>controller := Some (reply e
      (of_msg OFPT_FEATURES_REPLY (xid_of oh) ([0, 0] @ mac_bytes (perm_addr ce) @ zeroed 16)) ?c)\<rparr>)"
    using process_msg_answers [OF assms(10,12,13,9) _ t(2), of "g\<lparr>controller := Some ?c\<rparr>" ?c] t(1)
    by (simp add: gw_answer_def bytes64_dpid)
  then show ?thesis using o by (intro exI [of _ ?c]) simp
qed

definition demo_conn_env :: conn_env where
  "demo_conn_env = \<lparr>socket_ret = 4, connect_ret = -1, in_progress = True, select_ret = 1, writable = True,
     so_error = 0, ioctl_ret = 0, perm_addr = MAC 2 0 0 0 0 1\<rparr>"

definition demo_features :: buf where
  "demo_features = [1, 5, 0, 8, 0, 0, 0, 3] @ zeroed 92"

theorem gw_features_carry_mac_witness:
  "\<exists>c'. bindE (on_conn (controller_conn_open demo_of_env demo_conn_env) demo_gateway)
      (process_controller_msg demo_of_env demo_features) =
    Inr (demo_gateway\<lparr>controller := Some (reply demo_of_env (of_msg OFPT_FEATURES_REPLY (xid_of demo_features)
      ([0, 0, 2, 0, 0, 0, 0, 1] @ zeroed 16)) c')\<rparr>) \<and> sock c' = 4"
proof -
  have "\<exists>c'. bindE (on_conn (controller_conn_open demo_of_env demo_conn_env) demo_gateway)
      (process_controller_msg demo_of_env demo_features) =
    Inr (demo_gateway\<lparr>controller := Some (reply demo_of_env (of_msg OFPT_FEATURES_REPLY (xid_of demo_features)
      ([0, 0] @ mac_bytes (perm_addr demo_conn_env) @ zeroed 16)) c')\<rparr>) \<and> sock c' = socket_ret demo_conn_env"
    by (rule gw_features_carry_mac [of connection_init])
      (simp_all add: demo_conn_env_def demo_features_def connection_init_def demo_of_env_def STR_LEN_def
        len_of_def unat_le16 demo_gateway_def)
  then show ?thesis by (simp add: demo_conn_env_def)
qed

end
