(* ===== verification/Ap_Nat.thy ===== *)
theory Ap_Nat
  imports Keyed_Table
begin

text \<open>
  The translation table of an access point (ofSwitchAP/controller_interface.c: \<open>struct natMap\<close>,
  \<open>lookupNatMap\<close>, \<open>lookupPortMapQ0\<close>, \<open>lookupPortMapQ1\<close>, \<open>addEntry\<close>). The access point also
  translates ports: an entry is found by the four fields of the client's flow, and holds the port
  that the controller chose for it. Packets from outside are looked up by that port instead.

  Shown here: the table refines a map from flows to translated ports, and the lookup by translated
  port inverts it whenever no two flows to the same remote endpoint were given the same port.
\<close>

section \<open>Data and operations\<close>

definition PORT_TRANSLATION :: bool where
  "PORT_TRANSLATION = True"

definition AP_MAXENTRY :: nat where
  "AP_MAXENTRY = 0xff"

fun AP_HASH_FUNC :: "ip4 \<Rightarrow> nat" where
  "AP_HASH_FUNC (IP4 a b c d) = unat d"

record ap_natMap =
  am_src_addr :: ip4
  am_dst_addr :: ip4
  am_src_port :: u16
  am_dst_port :: u16
  am_new_port :: u16

type_synonym ap_natList = "ap_natMap chains"

definition sizeof_ap_natMap :: nat where
  "sizeof_ap_natMap = 24"

definition ap_lookupNatMap :: "u16 \<Rightarrow> ip4 \<Rightarrow> u16 \<Rightarrow> ap_natList \<Rightarrow> ptr res" where
  "ap_lookupNatMap src_port dst_addr dst_port entryList =
     find_in (\<lambda>nMap. \<not> (am_dst_addr nMap \<noteq> dst_addr \<or> am_src_port nMap \<noteq> src_port
                        \<or> am_dst_port nMap \<noteq> dst_port))
       (AP_HASH_FUNC dst_addr) entryList"

definition lookupPortMapQ1 :: "u16 \<Rightarrow> ip4 \<Rightarrow> u16 \<Rightarrow> ap_natList \<Rightarrow> ptr res" where
  "lookupPortMapQ1 new_port dst_addr dst_port entryList =
     find_in (\<lambda>nMap. \<not> (am_dst_addr nMap \<noteq> dst_addr \<or> am_new_port nMap \<noteq> new_port
                        \<or> am_dst_port nMap \<noteq> dst_port))
       (AP_HASH_FUNC dst_addr) entryList"

definition lookupPortMapQ0 :: "ip4 \<Rightarrow> u16 \<Rightarrow> ip4 \<Rightarrow> u16 \<Rightarrow> ap_natList \<Rightarrow> ptr res" where
  "lookupPortMapQ0 src_addr src_port dst_addr dst_port entryList =
     find_in (\<lambda>nMap. \<not> (am_src_addr nMap \<noteq> src_addr \<or> am_dst_addr nMap \<noteq> dst_addr
                        \<or> am_src_port nMap \<noteq> src_port \<or> am_dst_port nMap \<noteq> dst_port))
       (AP_HASH_FUNC dst_addr) entryList"

definition new_ap_natMap :: "u16 \<Rightarrow> ip4 \<Rightarrow> u16 \<Rightarrow> ip4 \<Rightarrow> ap_natMap" where
  "new_ap_natMap src_port src_addr dst_port dst_addr =
     \<lparr>am_src_addr = src_addr, am_dst_addr = dst_addr, am_src_port = src_port, am_dst_port = dst_port,
      am_new_port = 0\<rparr>"

definition ap_addEntry :: "'e env_scheme \<Rightarrow> u16 \<Rightarrow> ip4 \<Rightarrow> u16 \<Rightarrow> ip4 \<Rightarrow> ap_natList \<Rightarrow>
    (ptr \<times> ap_natList) res" where
  "ap_addEntry e src_port src_addr dst_port dst_addr entryList =
     bindE (if \<not> PORT_TRANSLATION then ap_lookupNatMap src_port dst_addr dst_port entryList
            else lookupPortMapQ0 src_addr src_port dst_addr dst_port entryList) (\<lambda>nMap.
     case nMap of
       Some q \<Rightarrow> Inr (Some q, entryList)
     | None \<Rightarrow>
         if \<not> calloc_ok e sizeof_ap_natMap then Inr (None, entryList)
         else bindE (push_front (new_ap_natMap src_port src_addr dst_port dst_addr) (AP_HASH_FUNC dst_addr) entryList)
                (\<lambda>(q, entryList). Inr (Some q, entryList)))"

text \<open>What the controller's message \<open>WLAN_NAT_ADD\<close> does to the table: the entry of the flow is looked
  up, or added, and gets the new port (through a null pointer when the add failed). The result is the
  entry for which waiting packets are to be reinjected.\<close>

definition assign_port :: "'e env_scheme \<Rightarrow> u16 \<Rightarrow> ip4 \<Rightarrow> u16 \<Rightarrow> ip4 \<Rightarrow> u16 \<Rightarrow> ap_natList \<Rightarrow>
    (ptr \<times> ap_natList) res" where
  "assign_port e src_port src_addr dst_port dst_addr new_port entryList =
     bindE (if \<not> PORT_TRANSLATION then ap_lookupNatMap src_port dst_addr dst_port entryList
            else lookupPortMapQ0 src_addr src_port dst_addr dst_port entryList) (\<lambda>nMap.
     bindE (case nMap of
              Some q \<Rightarrow> Inr (nMap, entryList)
            | None \<Rightarrow> ap_addEntry e src_port src_addr dst_port dst_addr entryList) (\<lambda>(nMap, entryList).
     if PORT_TRANSLATION then
       bindE (non_null nMap) (\<lambda>q.
       bindE (upd_item (\<lambda>n. n\<lparr>am_new_port := new_port\<rparr>) q entryList) (\<lambda>entryList.
         Inr (Some q, entryList)))
     else Inr (None, entryList)))"

section \<open>The contract\<close>

text \<open>Client address and port, remote address and port.\<close>

type_synonym flow4 = "ip4 \<times> u16 \<times> ip4 \<times> u16"

definition flow4_of :: "ap_natMap \<Rightarrow> flow4" where
  "flow4_of n = (am_src_addr n, am_src_port n, am_dst_addr n, am_dst_port n)"

definition flow4_hash :: "flow4 \<Rightarrow> nat" where
  "flow4_hash k = (case k of (s, sp, d, dp) \<Rightarrow> AP_HASH_FUNC d)"

definition flow4_node :: "flow4 \<Rightarrow> ap_natMap" where
  "flow4_node k = (case k of (s, sp, d, dp) \<Rightarrow> new_ap_natMap sp s dp d)"

definition ap_nat_inv :: "ap_natList \<Rightarrow> bool" where
  "ap_nat_inv t \<longleftrightarrow> wf_chains (flow4_hash \<circ> flow4_of) t \<and> length (table t) = AP_MAXENTRY \<and> chain_uniq flow4_of t"

text \<open>The map that the table stands for.\<close>

definition port_abs :: "ap_natList \<Rightarrow> flow4 \<Rightarrow> u16 option" where
  "port_abs t k = (if chain_valid flow4_hash t k
     then map_option (am_new_port \<circ> snd) (chain_find flow4_of flow4_hash t k) else None)"

lemma lookupPortMapQ0_chain:
  "lookupPortMapQ0 s sp d dp t = chain_lookup flow4_of flow4_hash (s, sp, d, dp) t"
  by (simp add: lookupPortMapQ0_def chain_lookup_def flow4_of_def flow4_hash_def conj_ac)

lemma ap_addEntry_chain:
  "ap_addEntry e sp s dp d t =
     chain_add flow4_of flow4_hash flow4_node (calloc_ok e sizeof_ap_natMap) (s, sp, d, dp) t"
  by (simp add: ap_addEntry_def chain_add_def lookupPortMapQ0_chain flow4_node_def flow4_hash_def
      PORT_TRANSLATION_def cong: option.case_cong)

interpretation apt: chained flow4_of flow4_hash flow4_node ok for ok
  by unfold_locales (auto simp: flow4_of_def flow4_node_def new_ap_natMap_def)

lemma ap_nat_invD:
  assumes "ap_nat_inv t"
  shows "wf_chains (flow4_hash \<circ> flow4_of) t" "length (table t) = AP_MAXENTRY" "chain_uniq flow4_of t"
    "chain_valid flow4_hash t (s, sp, d, dp) \<longleftrightarrow> AP_HASH_FUNC d < AP_MAXENTRY"
  using assms by (simp_all add: ap_nat_inv_def chain_valid_def flow4_hash_def)

lemma ap_nat_inv_init: "ap_nat_inv (chains_init AP_MAXENTRY)"
  by (simp add: ap_nat_inv_def)

lemma port_abs_init: "port_abs (chains_init AP_MAXENTRY) k = None"
  by (simp add: port_abs_def chain_find_def chain_valid_def)

lemma AP_HASH_FUNC_bound: "AP_HASH_FUNC d < AP_MAXENTRY \<longleftrightarrow> AP_HASH_FUNC d \<noteq> 255"
proof -
  have "AP_HASH_FUNC d < 256" by (cases d) simp
  then show ?thesis by (auto simp: AP_MAXENTRY_def)
qed

text \<open>The lookup by the client's flow.\<close>

lemma lookupPortMapQ0_entry:
  assumes inv: "ap_nat_inv t" and d: "AP_HASH_FUNC d < AP_MAXENTRY"
  shows "case lookupPortMapQ0 s sp d dp t of
      Inl e \<Rightarrow> False
    | Inr None \<Rightarrow> port_abs t (s, sp, d, dp) = None
    | Inr (Some q) \<Rightarrow> \<exists>x n. deref t q = Inr (Cell x n) \<and> flow4_of x = (s, sp, d, dp) \<and>
        chain_find flow4_of flow4_hash t (s, sp, d, dp) = Some (q, x) \<and>
        port_abs t (s, sp, d, dp) = Some (am_new_port x)"
proof -
  note i = ap_nat_invD [OF inv]
  have v: "chain_valid flow4_hash t (s, sp, d, dp)" using i(4) d by simp
  have l: "lookupPortMapQ0 s sp d dp t = Inr (chain_view flow4_of flow4_hash t (s, sp, d, dp))"
    unfolding lookupPortMapQ0_chain by (rule apt.find_chain_lookup [OF i(1) v])
  show ?thesis
  proof (cases "chain_find flow4_of flow4_hash t (s, sp, d, dp)")
    case None
    then show ?thesis using l by (simp add: chain_view_def port_abs_def)
  next
    case (Some y)
    obtain q x where y: "y = (q, x)" by (cases y)
    have "\<exists>n. deref t q = Inr (Cell x n)" using apt.chain_find_deref [OF i(1) v] Some y by simp
    moreover have "flow4_of x = (s, sp, d, dp)" using apt.chain_find_in_bucket Some y by blast
    ultimately show ?thesis using l Some y v by (auto simp: chain_view_def port_abs_def)
  qed
qed

lemma lookupPortMapQ0_bounds:
  "ap_nat_inv t \<Longrightarrow> \<not> AP_HASH_FUNC d < AP_MAXENTRY \<Longrightarrow> lookupPortMapQ0 s sp d dp t = Inl OutOfBounds"
  by (simp add: lookupPortMapQ0_def find_in_bounds ap_nat_inv_def)

text \<open>The lookup by the translated port: what it returns is an entry with that port, and it returns
  one when there is one.\<close>

lemma lookupPortMapQ1_entry:
  assumes inv: "ap_nat_inv t" and d: "AP_HASH_FUNC d < AP_MAXENTRY"
  shows "case lookupPortMapQ1 np d dp t of
      Inl e \<Rightarrow> False
    | Inr None \<Rightarrow> \<forall>s sp. port_abs t (s, sp, d, dp) \<noteq> Some np
    | Inr (Some q) \<Rightarrow> \<exists>x n. deref t q = Inr (Cell x n) \<and> am_dst_addr x = d \<and> am_dst_port x = dp \<and>
        port_abs t (flow4_of x) = Some np"
proof -
  note i = ap_nat_invD [OF inv]
  let ?P = "\<lambda>x :: ap_natMap. am_dst_addr x = d \<and> am_new_port x = np \<and> am_dst_port x = dp"
  let ?b = "bucket_list t (AP_HASH_FUNC d)"
  have h: "AP_HASH_FUNC d < length (table t)" using i(2) d by simp
  have l: "lookupPortMapQ1 np d dp t = Inr (map_option fst (List.find (?P \<circ> snd) ?b))"
    using find_in_wf [OF i(1) h, of ?P] by (simp add: lookupPortMapQ1_def conj_ac)
  show ?thesis
  proof (cases "List.find (?P \<circ> snd) ?b")
    case None
    have False if "port_abs t (s, sp, d, dp) = Some np" for s sp
    proof -
      from that obtain q x where x: "chain_find flow4_of flow4_hash t (s, sp, d, dp) = Some (q, x)"
        "am_new_port x = np" by (auto simp: port_abs_def split: if_splits)
      from apt.chain_find_in_bucket [OF x(1)] None x(2) show False
        by (auto simp: find_None_iff flow4_of_def flow4_hash_def)
    qed
    then show ?thesis using l None by auto
  next
    case (Some y)
    obtain q x where y: "y = (q, x)" by (cases y)
    have b: "(q, x) \<in> set ?b" "?P x" using find_SomeD [OF Some] y by simp_all
    have f: "flow4_hash (flow4_of x) = AP_HASH_FUNC d" using b(2) by (simp add: flow4_of_def flow4_hash_def)
    have "chain_find flow4_of flow4_hash t (flow4_of x) = Some (q, x)"
      using apt.chain_uniq_find [OF i(3), of "flow4_of x" q x] f h b(1) by simp
    then have "port_abs t (flow4_of x) = Some np" using b(2) f h by (simp add: port_abs_def chain_valid_def)
    then show ?thesis using l Some y b bucket_deref [OF i(1) h b(1)] by auto
  qed
qed

section \<open>Assigning a port\<close>

text \<open>Storing the new port in the entry of one flow changes the map at that flow only.\<close>

lemma upd_new_port:
  assumes inv: "ap_nat_inv t" and v: "chain_valid flow4_hash t k"
    and f: "chain_find flow4_of flow4_hash t k = Some (q, x)"
  shows "\<exists>t'. upd_item (\<lambda>n. n\<lparr>am_new_port := np\<rparr>) q t = Inr t' \<and> ap_nat_inv t' \<and>
    port_abs t' = (port_abs t)(k \<mapsto> np) \<and> chain_find flow4_of flow4_hash t' k = Some (q, x\<lparr>am_new_port := np\<rparr>)"
proof -
  note i = ap_nat_invD [OF inv]
  have kx: "flow4_of (x\<lparr>am_new_port := np\<rparr>) = k"
    using apt.chain_find_in_bucket(2) [OF f] by (simp add: flow4_of_def)
  obtain t' where t': "upd_item (\<lambda>n. n\<lparr>am_new_port := np\<rparr>) q t = Inr t'"
    "wf_chains (flow4_hash \<circ> flow4_of) t'" "table t' = table t" "length (cells t') = length (cells t)"
    "\<forall>k'. chain_valid flow4_hash t k' \<longrightarrow> chain_find flow4_of flow4_hash t' k' =
       (if k' = k then Some (q, x\<lparr>am_new_port := np\<rparr>) else chain_find flow4_of flow4_hash t k')"
    by (rule apt.chain_find_upd_item [OF i(1) v f, where f = "\<lambda>n. n\<lparr>am_new_port := np\<rparr>", OF kx])
  obtain n where "deref t q = Inr (Cell x n)" using apt.chain_find_deref [OF i(1) v f] by blast
  then have "chain_uniq flow4_of t'"
    by (rule apt.chain_uniq_upd [OF i(3,1) _ _ t'(1)]) (simp add: flow4_of_def)
  moreover have "port_abs t' = (port_abs t)(k \<mapsto> np)"
    using t'(3,5) v by (auto simp: port_abs_def chain_valid_def fun_eq_iff)
  moreover have "chain_find flow4_of flow4_hash t' k = Some (q, x\<lparr>am_new_port := np\<rparr>)" using t'(5) v by metis
  ultimately show ?thesis using t'(1-3) i(2) by (simp add: ap_nat_inv_def)
qed

lemma ap_addEntry_new:
  assumes inv: "ap_nat_inv t" and v: "chain_valid flow4_hash t (s, sp, d, dp)"
    and n: "chain_find flow4_of flow4_hash t (s, sp, d, dp) = None" and ok: "calloc_ok e sizeof_ap_natMap"
  shows "\<exists>q t'. ap_addEntry e sp s dp d t = Inr (Some q, t') \<and> ap_nat_inv t' \<and>
    chain_find flow4_of flow4_hash t' (s, sp, d, dp) = Some (q, new_ap_natMap sp s dp d) \<and>
    port_abs t' = (port_abs t)((s, sp, d, dp) \<mapsto> 0)"
proof -
  note i = ap_nat_invD [OF inv]
  have n': "chain_view flow4_of flow4_hash t (s, sp, d, dp) = None" using n by (simp add: chain_view_def)
  obtain t' where t': "chain_add flow4_of flow4_hash flow4_node (calloc_ok e sizeof_ap_natMap) (s, sp, d, dp) t
      = Inr (Some (length (cells t)), t')"
    "wf_chains (flow4_hash \<circ> flow4_of) t'" "length (table t') = length (table t)"
    "\<forall>k'. chain_valid flow4_hash t k' \<longrightarrow> chain_find flow4_of flow4_hash t' k' =
       (if k' = (s, sp, d, dp) then Some (length (cells t), flow4_node (s, sp, d, dp))
        else chain_find flow4_of flow4_hash t k')"
    by (rule apt.chain_add_new [OF i(1) v n' ok])
  have "port_abs t' = (port_abs t)((s, sp, d, dp) \<mapsto> 0)"
    using t'(3,4) v by (auto simp: port_abs_def chain_valid_def fun_eq_iff flow4_node_def new_ap_natMap_def)
  moreover have "chain_uniq flow4_of t'" by (rule apt.chain_uniq_add [OF i(3,1) t'(1)])
  ultimately show ?thesis using t' v i by (auto simp: ap_nat_inv_def ap_addEntry_chain flow4_node_def)
qed

text \<open>Every outcome of a port assignment.\<close>

lemma assign_port_outcome:
  assumes inv: "ap_nat_inv t"
  shows "case assign_port e sp s dp d np t of
      Inl f \<Rightarrow> f = OutOfBounds \<and> AP_HASH_FUNC d = 255 \<or>
        f = NullDeref \<and> \<not> calloc_ok e sizeof_ap_natMap \<and> port_abs t (s, sp, d, dp) = None
    | Inr (p, t') \<Rightarrow> AP_HASH_FUNC d \<noteq> 255 \<and> ap_nat_inv t' \<and> port_abs t' = (port_abs t)((s, sp, d, dp) \<mapsto> np) \<and>
        (\<exists>q x n. p = Some q \<and> deref t' q = Inr (Cell x n) \<and> flow4_of x = (s, sp, d, dp) \<and> am_new_port x = np)"
proof (cases "AP_HASH_FUNC d < AP_MAXENTRY")
  case False
  then show ?thesis using lookupPortMapQ0_bounds [OF inv] AP_HASH_FUNC_bound
    by (simp add: assign_port_def PORT_TRANSLATION_def)
next
  case h: True
  let ?k = "(s, sp, d, dp)"
  note i = ap_nat_invD [OF inv]
  have v: "chain_valid flow4_hash t ?k" using i(4) h by simp
  have h255: "AP_HASH_FUNC d \<noteq> 255" using h AP_HASH_FUNC_bound by simp
  note L = lookupPortMapQ0_entry [OF inv h, of s sp dp]
  have fin: "\<exists>t2. upd_item (\<lambda>n. n\<lparr>am_new_port := np\<rparr>) q t1 = Inr t2 \<and> ap_nat_inv t2 \<and>
      port_abs t2 = (port_abs t1)(?k \<mapsto> np) \<and>
      (\<exists>y n. deref t2 q = Inr (Cell y n) \<and> flow4_of y = ?k \<and> am_new_port y = np)"
    if f: "ap_nat_inv t1" "chain_find flow4_of flow4_hash t1 ?k = Some (q, x)" for t1 q x
  proof -
    have v1: "chain_valid flow4_hash t1 ?k" using ap_nat_invD(4) [OF f(1)] h by simp
    obtain t2 where t2: "upd_item (\<lambda>n. n\<lparr>am_new_port := np\<rparr>) q t1 = Inr t2" "ap_nat_inv t2"
      "port_abs t2 = (port_abs t1)(?k \<mapsto> np)"
      "chain_find flow4_of flow4_hash t2 ?k = Some (q, x\<lparr>am_new_port := np\<rparr>)"
      using upd_new_port [OF f(1) v1 f(2)] by blast
    have v2: "chain_valid flow4_hash t2 ?k" using ap_nat_invD(4) [OF t2(2)] h by simp
    show ?thesis
      using t2 apt.chain_find_deref [OF ap_nat_invD(1) [OF t2(2)] v2 t2(4)] apt.chain_find_in_bucket(2) [OF t2(4)]
      by auto
  qed
  show ?thesis
  proof (cases "chain_find flow4_of flow4_hash t ?k")
    case (Some y)
    then obtain q x where "lookupPortMapQ0 s sp d dp t = Inr (Some q)"
      "chain_find flow4_of flow4_hash t ?k = Some (q, x)"
      using L v by (auto simp: port_abs_def split: sum.splits option.splits)
    then show ?thesis using fin [OF inv] h255
      by (fastforce simp: assign_port_def PORT_TRANSLATION_def)
  next
    case None
    then have l: "lookupPortMapQ0 s sp d dp t = Inr None"
      using L by (auto split: sum.splits option.splits)
    show ?thesis
    proof (cases "calloc_ok e sizeof_ap_natMap")
      case True
      from ap_addEntry_new [OF inv v None True] fin l h255 show ?thesis
        by (fastforce simp: assign_port_def PORT_TRANSLATION_def)
    next
      case False
      then show ?thesis using l None v
        by (simp add: assign_port_def PORT_TRANSLATION_def ap_addEntry_def port_abs_def)
    qed
  qed
qed

text \<open>No entry is ever freed, so that pointers to entries stay valid.\<close>

lemma assign_port_live:
  assumes "assign_port e sp s dp d np t = Inr (p, t')" "deref t r = Inr (Cell x n)"
  shows "\<exists>y m. deref t' r = Inr (Cell y m) \<and> flow4_of y = flow4_of x"
proof -
  have u: "\<exists>y m. deref t2 r = Inr (Cell y m) \<and> flow4_of y = flow4_of x"
    if "upd_item (\<lambda>n. n\<lparr>am_new_port := np\<rparr>) q t1 = Inr t2" "deref t1 r = Inr (Cell x n)" for q t1 t2
    using that by (auto simp: upd_item_def bindE_eq_Inr deref_set_cell flow4_of_def)
  from assms(1) obtain q t1 where q: "upd_item (\<lambda>n. n\<lparr>am_new_port := np\<rparr>) q t1 = Inr t'"
    "t1 = t \<or> (\<exists>h y. push_front y h t = Inr (q, t1))"
    by (auto simp: assign_port_def ap_addEntry_def PORT_TRANSLATION_def bindE_eq_Inr non_null_def
        split: option.splits if_splits) blast
  then have "deref t1 r = Inr (Cell x n)" using assms(2) by (auto dest: push_front_deref_old)
  with q(1) show ?thesis by (rule u)
qed

end
