(* ===== verification/Chain_Sweep.thy ===== *)
theory Chain_Sweep
  imports Chains
begin

text \<open>
  The second loop over the lists of a table: it walks one list with a pointer to the previous node,
  acts on some nodes, unlinks them and frees them. It is the loop of \<open>reinject_pkt\<close>, where the nodes
  are the packets that wait for a port.

  A prefix of the list has been kept and the rest is still to be walked; \<open>segment\<close> is the kept part.
  Shown here: on a list that ends, the loop returns, the nodes that were acted on are gone from the
  list and freed, the others are left in their order, and no other list changes.
\<close>

section \<open>The loop\<close>

text \<open>\<open>prev\<close> is null while the first node has not been kept: then the node is unlinked through the
  head of the list.\<close>

definition unlink :: "nat \<Rightarrow> ptr \<Rightarrow> ptr \<Rightarrow> 'a chains \<Rightarrow> 'a chains res" where
  "unlink h prev n t = (case prev of
     None \<Rightarrow> set_head h n t
   | Some p \<Rightarrow> bindE (deref t p) (\<lambda>c. Inr (set_cell p (Cell (item c) n) t)))"

definition next_after :: "nat \<Rightarrow> ptr \<Rightarrow> 'a chains \<Rightarrow> ptr res" where
  "next_after h prev t = (case prev of
     None \<Rightarrow> head t h
   | Some p \<Rightarrow> bindE (deref t p) (\<lambda>c. Inr (nxt c)))"

definition free_ptr :: "nat \<Rightarrow> 'a chains \<Rightarrow> 'a chains res" where
  "free_ptr q t = bindE (deref t q) (\<lambda>c. Inr (free_cell q t))"

text \<open>\<open>act\<close> says of a node whether it is kept (\<open>None\<close>) or what acting on it gives.\<close>

partial_function (option) sweep_from ::
  "('a \<Rightarrow> 'v option res) \<Rightarrow> nat \<Rightarrow> ptr \<Rightarrow> ptr \<Rightarrow> 'a chains \<Rightarrow> ('v list \<times> 'a chains) res option" where
  "sweep_from act h prev temp t = (case temp of
     None \<Rightarrow> Some (Inr ([], t))
   | Some q \<Rightarrow> (case deref t q of
       Inl e \<Rightarrow> Some (Inl e)
     | Inr c \<Rightarrow> (case act (item c) of
         Inl e \<Rightarrow> Some (Inl e)
       | Inr None \<Rightarrow> sweep_from act h (Some q) (nxt c) t
       | Inr (Some v) \<Rightarrow> (case bindE (unlink h prev (nxt c) t) (\<lambda>t. bindE (free_ptr q t) (\<lambda>t.
             bindE (next_after h prev t) (\<lambda>n. Inr (n, t)))) of
           Inl e \<Rightarrow> Some (Inl e)
         | Inr (n, t) \<Rightarrow> Option.bind (sweep_from act h prev n t)
             (\<lambda>r. Some (bindE r (\<lambda>(vs, t). Inr (v # vs, t))))))))"

definition sweep :: "('a \<Rightarrow> 'v option res) \<Rightarrow> nat \<Rightarrow> 'a chains \<Rightarrow> ('v list \<times> 'a chains) res" where
  "sweep act h t = bindE (head t h) (\<lambda>p. run_loop (sweep_from act h None p t))"

section \<open>The part of the list that was walked\<close>

primrec segment :: "'a chains \<Rightarrow> ptr \<Rightarrow> (nat \<times> 'a) list \<Rightarrow> ptr \<Rightarrow> bool" where
  "segment t p [] r = (p = r)"
| "segment t p (y # ys) r = (p = Some (fst y) \<and>
     (\<exists>n. deref t (fst y) = Inr (Cell (snd y) n) \<and> segment t n ys r))"

lemma chain_append: "chain t p (ys @ xs) \<longleftrightarrow> (\<exists>r. segment t p ys r \<and> chain t r xs)"
  by (induction ys arbitrary: p) auto

lemma segment_append: "segment t p (ys @ zs) r \<longleftrightarrow> (\<exists>s. segment t p ys s \<and> segment t s zs r)"
  by (induction ys arbitrary: p) auto

lemma segment_cong:
  "(\<And>q. q \<in> fst ` set ys \<Longrightarrow> deref t' q = deref t q) \<Longrightarrow> segment t p ys r \<Longrightarrow> segment t' p ys r"
  by (induction ys arbitrary: p) auto

lemma segment_chain: "segment t p ys r \<Longrightarrow> chain t r xs \<Longrightarrow> chain t p (ys @ xs)"
  by (auto simp: chain_append)

definition last_ptr :: "(nat \<times> 'a) list \<Rightarrow> ptr" where
  "last_ptr ys = (if ys = [] then None else Some (fst (last ys)))"

lemma last_ptr_snoc [simp]: "last_ptr (ys @ [y]) = Some (fst y)" "last_ptr [] = None"
  by (simp_all add: last_ptr_def)

text \<open>Unlinking what follows the kept part, and freeing it.\<close>

lemma unlink_segment:
  assumes h: "h < length (table t)" and seg: "segment t (table t ! h) ys r" and d: "distinct (map fst ys)"
  obtains t' where "unlink h (last_ptr ys) n t = Inr t'" "segment t' (table t' ! h) ys n"
    "next_after h (last_ptr ys) t' = Inr n" "table t' = (table t)[h := table t' ! h]"
    "length (cells t') = length (cells t)" "\<forall>q. q \<notin> fst ` set ys \<longrightarrow> deref t' q = deref t q"
proof (cases ys rule: rev_cases)
  case Nil
  let ?t = "t\<lparr>table := (table t)[h := n]\<rparr>"
  have "unlink h (last_ptr ys) n t = Inr ?t" "next_after h (last_ptr ys) ?t = Inr n"
    using h Nil by (simp_all add: unlink_def set_head_def next_after_def head_def)
  then show thesis using that [of ?t] h Nil by simp
next
  case (snoc zs y)
  obtain s where s: "segment t (table t ! h) zs s" "s = Some (fst y)" "deref t (fst y) = Inr (Cell (snd y) r)"
    using seg by (auto simp: snoc segment_append)
  let ?t = "set_cell (fst y) (Cell (snd y) n) t"
  have dr: "deref ?t q = (if q = fst y then Inr (Cell (snd y) n) else deref t q)" for q
    using s(3) by (rule deref_set_cell)
  have tab: "table ?t = table t" by (simp add: set_cell_def)
  have "unlink h (last_ptr ys) n t = Inr ?t" "next_after h (last_ptr ys) ?t = Inr n"
    using s(3) dr by (simp_all add: snoc unlink_def next_after_def)
  moreover have "segment ?t (table ?t ! h) ys n"
  proof -
    have "segment ?t (table t ! h) zs s"
    proof (rule segment_cong [OF _ s(1)])
      fix q assume "q \<in> fst ` set zs"
      moreover have "fst y \<notin> fst ` set zs" using d by (simp add: snoc)
      ultimately show "deref ?t q = deref t q" by (metis dr)
    qed
    then show ?thesis using s(2) by (auto simp: snoc segment_append tab dr)
  qed
  moreover have "length (cells ?t) = length (cells t)" by (simp add: set_cell_def)
  ultimately show thesis using that [of ?t] h by (simp add: snoc tab dr)
qed

section \<open>What the loop leaves\<close>

lemma sweep_from_segment:
  assumes "h < length (table t)" "segment t (table t ! h) ys temp" "chain t temp xs"
    "distinct (map fst (ys @ xs))" "\<forall>(q, x) \<in> set xs. act x = Inr (f x)"
  shows "\<exists>t'. sweep_from act h (last_ptr ys) temp t = Some (Inr (List.map_filter (\<lambda>x. f (snd x)) xs, t')) \<and>
    chain t' (table t' ! h) (ys @ filter (\<lambda>x. f (snd x) = None) xs) \<and>
    table t' = (table t)[h := table t' ! h] \<and> length (cells t') = length (cells t) \<and>
    (\<forall>q. q \<notin> fst ` set (ys @ xs) \<longrightarrow> deref t' q = deref t q) \<and>
    (\<forall>(q, x) \<in> set xs. f x \<noteq> None \<longrightarrow> deref t' q = Inl UseAfterFree)"
  using assms
proof (induction xs arbitrary: t ys temp)
  case Nil
  then show ?case using segment_chain [OF Nil.prems(2,3)]
    by (simp add: sweep_from.simps [of _ _ _ None] map_filter_simps)
next
  case (Cons z xs)
  obtain q x where z: "z = (q, x)" by (cases z)
  obtain n where n: "temp = Some q" "deref t q = Inr (Cell x n)" "chain t n xs" using Cons.prems(3) z by auto
  have a: "act x = Inr (f x)" using Cons.prems(5) z by simp
  show ?case
  proof (cases "f x")
    case None
    have "segment t (table t ! h) (ys @ [z]) n" using Cons.prems(2) n z by (auto simp: segment_append)
    from Cons.IH [OF Cons.prems(1) this n(3)] Cons.prems(4,5)
    obtain t' where t': "sweep_from act h (Some q) n t = Some (Inr (List.map_filter (\<lambda>x. f (snd x)) xs, t'))"
      "chain t' (table t' ! h) (ys @ z # filter (\<lambda>x. f (snd x) = None) xs)"
      "table t' = (table t)[h := table t' ! h]" "length (cells t') = length (cells t)"
      "\<forall>r. r \<notin> fst ` set (ys @ z # xs) \<longrightarrow> deref t' r = deref t r"
      "\<forall>(r, y) \<in> set xs. f y \<noteq> None \<longrightarrow> deref t' r = Inl UseAfterFree"
      by (auto simp: z)
    then show ?thesis
      using None a n z by (intro exI [of _ t']) (simp add: sweep_from.simps [of _ _ _ "Some q"] map_filter_simps)
  next
    case (Some v)
    have dy: "distinct (map fst ys)" "q \<notin> fst ` set ys" "q \<notin> fst ` set xs" "distinct (map fst (ys @ xs))"
      "fst ` set ys \<inter> fst ` set xs = {}"
      using Cons.prems(4) z by auto
    obtain t1 where t1: "unlink h (last_ptr ys) n t = Inr t1" "segment t1 (table t1 ! h) ys n"
      "next_after h (last_ptr ys) t1 = Inr n" "table t1 = (table t)[h := table t1 ! h]"
      "length (cells t1) = length (cells t)" "\<forall>r. r \<notin> fst ` set ys \<longrightarrow> deref t1 r = deref t r"
      by (rule unlink_segment [OF Cons.prems(1,2) dy(1)])
    define t2 where "t2 = free_cell q t1"
    have dq: "deref t1 q = Inr (Cell x n)" using t1(6) dy(2) n(2) by simp
    then have dr: "deref t2 r = (if r = q then Inl UseAfterFree else deref t1 r)" for r
      unfolding t2_def by (intro deref_free_cell) (rule deref_less)
    have tab: "table t2 = table t1" "length (cells t2) = length (cells t1)" by (simp_all add: t2_def free_cell_def)
    have seg: "segment t2 (table t2 ! h) ys n" unfolding tab
    proof (rule segment_cong [OF _ t1(2)])
      fix r assume "r \<in> fst ` set ys"
      then have "r \<noteq> q" using dy(2) by metis
      then show "deref t2 r = deref t1 r" by (simp add: dr)
    qed
    have ch: "chain t2 n xs"
    proof (rule chain_cong [OF _ n(3)])
      fix r assume r: "r \<in> fst ` set xs"
      then have "r \<noteq> q" "r \<notin> fst ` set ys" using dy(3,5) by blast+
      then show "deref t2 r = deref t r" using t1(6) by (simp add: dr)
    qed
    have nx: "next_after h (last_ptr ys) t2 = Inr n"
    proof (cases ys rule: rev_cases)
      case (snoc zs y)
      then have "fst y \<noteq> q" using dy(2) by auto
      then show ?thesis using t1(3) by (simp add: next_after_def snoc dr)
    qed (use t1(3) tab in \<open>simp add: next_after_def head_def split: if_splits\<close>)
    have h2: "h < length (table t2)" using Cons.prems(1) t1(4) tab by (metis length_list_update)
    from Cons.IH [OF h2 seg ch dy(4)] Cons.prems(5) z
    obtain t' where t': "sweep_from act h (last_ptr ys) n t2 = Some (Inr (List.map_filter (\<lambda>x. f (snd x)) xs, t'))"
      "chain t' (table t' ! h) (ys @ filter (\<lambda>x. f (snd x) = None) xs)"
      "table t' = (table t2)[h := table t' ! h]" "length (cells t') = length (cells t2)"
      "\<forall>r. r \<notin> fst ` set (ys @ xs) \<longrightarrow> deref t' r = deref t2 r"
      "\<forall>(r, y) \<in> set xs. f y \<noteq> None \<longrightarrow> deref t' r = Inl UseAfterFree"
      by auto
    have "sweep_from act h (last_ptr ys) temp t = Some (Inr (List.map_filter (\<lambda>x. f (snd x)) (z # xs), t'))"
      using n a Some t1(1) dq nx t'(1) z
      by (simp add: sweep_from.simps [of _ _ _ "Some q"] free_ptr_def t2_def [symmetric] map_filter_simps)
    moreover have "table t' = (table t)[h := table t' ! h]"
      using t'(3) t1(4) tab by (metis list_update_overwrite)
    moreover have "\<forall>r. r \<notin> fst ` set (ys @ z # xs) \<longrightarrow> deref t' r = deref t r"
      using t'(5) t1(6) z by (simp add: dr image_Un)
    moreover have "deref t' q = Inl UseAfterFree" using t'(5) dy(2,3) by (simp add: dr image_Un)
    ultimately show ?thesis
      using t'(2,4,6) Some z t1(5) tab by (intro exI [of _ t']) simp
  qed
qed

text \<open>Lists of different hashes share no node.\<close>

lemma buckets_disjoint:
  assumes wf: "wf_chains hsh t" and "h < length (table t)" "k < length (table t)" "k \<noteq> h"
  shows "fst ` set (bucket_list t k) \<inter> fst ` set (bucket_list t h) = {}"
proof -
  have False if "(q, x) \<in> set (bucket_list t k)" "(q, y) \<in> set (bucket_list t h)" for q x y
    using bucket_deref [OF wf assms(3) that(1)] bucket_deref [OF wf assms(2) that(2)]
      wf_chains_bucket(2) [OF wf assms(3) that(1)] wf_chains_bucket(2) [OF wf assms(2) that(2)] assms(4) by auto
  then show ?thesis by fastforce
qed

text \<open>The loop on a well-formed table.\<close>

lemma sweep_wf:
  assumes wf: "wf_chains hsh t" and h: "h < length (table t)"
    and a: "\<forall>(q, x) \<in> set (bucket_list t h). act x = Inr (f x)"
  obtains t' where "sweep act h t = Inr (List.map_filter (\<lambda>x. f (snd x)) (bucket_list t h), t')" "wf_chains hsh t'"
    "length (table t') = length (table t)" "length (cells t') = length (cells t)"
    "\<forall>k < length (table t). bucket_list t' k =
       (if k = h then filter (\<lambda>x. f (snd x) = None) (bucket_list t h) else bucket_list t k)"
    "\<forall>(q, x) \<in> set (bucket_list t h). f x \<noteq> None \<longrightarrow> deref t' q = Inl UseAfterFree"
proof -
  let ?xs = "bucket_list t h"
  define g where "g k = (if k = h then filter (\<lambda>x. f (snd x) = None) ?xs else bucket_list t k)" for k
  have ch: "chain t (table t ! h) ?xs" using wf_chains_bucket(1) [OF wf h] .
  obtain t' where t': "sweep_from act h None (table t ! h) t = Some (Inr (List.map_filter (\<lambda>x. f (snd x)) ?xs, t'))"
    "chain t' (table t' ! h) (filter (\<lambda>x. f (snd x) = None) ?xs)"
    "table t' = (table t)[h := table t' ! h]" "length (cells t') = length (cells t)"
    "\<forall>q. q \<notin> fst ` set ?xs \<longrightarrow> deref t' q = deref t q"
    "\<forall>(q, x) \<in> set ?xs. f x \<noteq> None \<longrightarrow> deref t' q = Inl UseAfterFree"
    using sweep_from_segment [OF h _ ch, of "[]" act f] chain_distinct [OF ch] a by auto
  have len: "length (table t') = length (table t)" using t'(3) by (metis length_list_update)
  have c: "chain t' (table t' ! k) (g k)" if k: "k < length (table t)" for k
  proof (cases "k = h")
    case False
    then have "table t' ! k = table t ! k" using t'(3) by (metis nth_list_update_neq)
    moreover have "chain t' (table t ! k) (bucket_list t k)"
      by (rule chain_cong [OF _ wf_chains_bucket(1) [OF wf k]])
        (use buckets_disjoint [OF wf h k False] t'(5) in blast)
    ultimately show ?thesis using False by (simp add: g_def)
  qed (simp add: g_def t'(2))
  have hs: "hsh x = k" if "k < length (table t)" "(q, x) \<in> set (g k)" for k q x
    using wf_chains_bucket(2) [OF wf that(1)] that(2) by (auto simp: g_def split: if_splits)
  have "wf_chains hsh t'" using c hs len by (intro wf_chainsI [of _ g]) auto
  moreover have "bucket_list t' k = g k" if "k < length (table t)" for k using c [OF that] by (rule bucket_listI)
  moreover have "sweep act h t = Inr (List.map_filter (\<lambda>x. f (snd x)) ?xs, t')"
    using h t'(1) by (simp add: sweep_def head_def)
  ultimately show thesis using that len t'(4,6) by (simp add: g_def)
qed

text \<open>A walk that ends met no node that could not be acted on: it is the walk of the total action.\<close>

definition total_act :: "('a \<Rightarrow> 'v option res) \<Rightarrow> 'a \<Rightarrow> 'v option" where
  "total_act act x = (case act x of Inl e \<Rightarrow> None | Inr v \<Rightarrow> v)"

lemma sweep_from_total:
  fixes act :: "'a \<Rightarrow> 'v option res"
  assumes "sweep_from act h prev temp t = Some (Inr r)"
  shows "sweep_from (\<lambda>x. Inr (total_act act x)) h prev temp t = Some (Inr r)"
proof -
  let ?P = "\<lambda>act h prev temp t res. \<forall>r. (res :: ('v list \<times> 'a chains) res) = Inr r \<longrightarrow>
    sweep_from (\<lambda>x. Inr (total_act act x)) h prev temp t = Some (Inr r)"
  have "?P act h prev temp t (Inr r)"
  proof (rule sweep_from.raw_induct [where P = ?P, OF _ assms])
    fix f act h prev temp t res
    assume IH: "\<And>act h prev temp t res. f act h prev temp t = Some res \<Longrightarrow> ?P act h prev temp t res"
      and eq: "(case temp of None \<Rightarrow> Some (Inr ([], t))
        | Some q \<Rightarrow> (case deref t q of Inl e \<Rightarrow> Some (Inl e)
          | Inr c \<Rightarrow> (case act (item c) of Inl e \<Rightarrow> Some (Inl e)
            | Inr None \<Rightarrow> f act h (Some q) (nxt c) t
            | Inr (Some v) \<Rightarrow> (case bindE (unlink h prev (nxt c) t) (\<lambda>t. bindE (free_ptr q t) (\<lambda>t.
                  bindE (next_after h prev t) (\<lambda>n. Inr (n, t)))) of Inl e \<Rightarrow> Some (Inl e)
              | Inr (n, t) \<Rightarrow> Option.bind (f act h prev n t)
                  (\<lambda>r. Some (bindE r (\<lambda>(vs, t). Inr (v # vs, t)))))))) = Some res"
    show "?P act h prev temp t res"
    proof (intro allI impI)
      fix r assume r: "res = Inr r"
      show "sweep_from (\<lambda>x. Inr (total_act act x)) h prev temp t = Some (Inr r)"
      proof (cases temp)
        case (Some q)
        then obtain c a where c: "deref t q = Inr c" "act (item c) = Inr a"
          using eq r by (cases "deref t q"; cases "act (item (projr (deref t q)))") auto
        then have ta: "total_act act (item c) = a" by (simp add: total_act_def)
        show ?thesis
        proof (cases a)
          case None
          then have "f act h (Some q) (nxt c) t = Some (Inr r)" using eq r Some c by simp
          then have "sweep_from (\<lambda>x. Inr (total_act act x)) h (Some q) (nxt c) t = Some (Inr r)" using IH by blast
          then show ?thesis using None Some c ta by (simp add: sweep_from.simps [of _ h prev "Some q"])
        next
          case a: (Some v)
          then obtain n t1 r1 where n: "bindE (unlink h prev (nxt c) t) (\<lambda>t. bindE (free_ptr q t) (\<lambda>t.
              bindE (next_after h prev t) (\<lambda>n. Inr (n, t)))) = Inr (n, t1)" "f act h prev n t1 = Some (Inr r1)"
            "bindE (Inr r1 :: ('v list \<times> 'a chains) res) (\<lambda>(vs, t). Inr (v # vs, t)) = Inr r"
            using eq r Some c
            by (auto split: sum.splits simp: bind_eq_Some_conv elim!: bindE_E)
          then have "sweep_from (\<lambda>x. Inr (total_act act x)) h prev n t1 = Some (Inr r1)" using IH by blast
          then show ?thesis using n Some c a ta by (simp add: sweep_from.simps [of _ h prev "Some q"])
        qed
      qed (use eq r in \<open>simp add: sweep_from.simps\<close>)
    qed
  qed
  then show ?thesis by simp
qed

lemma sweep_total: "sweep act h t = Inr r \<Longrightarrow> sweep (\<lambda>x. Inr (total_act act x)) h t = Inr r"
  by (auto simp: sweep_def run_loop_def sweep_from_total elim!: bindE_E split: option.splits)

lemma sweep_keeps:
  assumes "wf_chains hsh t" "h < length (table t)" "sweep act h t = Inr (vs, t')"
  shows "wf_chains hsh t' \<and> length (table t') = length (table t) \<and>
    (\<forall>k < length (table t). set (bucket_list t' k) \<subseteq> set (bucket_list t k))"
proof -
  obtain t2 where t2: "sweep (\<lambda>x. Inr (total_act act x)) h t = Inr (List.map_filter (\<lambda>x. total_act act (snd x)) (bucket_list t h), t2)"
    "wf_chains hsh t2" "length (table t2) = length (table t)"
    "\<forall>k < length (table t). bucket_list t2 k =
       (if k = h then filter (\<lambda>x. total_act act (snd x) = None) (bucket_list t h) else bucket_list t k)"
    by (rule sweep_wf [OF assms(1,2), where act = "\<lambda>x. Inr (total_act act x)" and f = "total_act act"]) auto
  then show ?thesis using sweep_total [OF assms(3)] by auto
qed

end
