(* ===== verification/Port_Rewrite.thy ===== *)
theory Port_Rewrite
  imports Netfilter
begin

text \<open>
  What the access point adds to the packet code of the gateway: it also replaces a port, and it keeps
  a copy of a packet in a larger buffer to finish it later.

  Shown here: replacing a port keeps every other field of the packet, and the checksum code gives the
  same bytes on any two buffers that hold the same packet.
\<close>

section \<open>Replacing a port\<close>

lemma splice_port_fields:
  assumes wf: "wf_packet d" and off: "off = ihl4 d \<or> off = ihl4 d + 2"
  shows "length (splice d off (bytes16 p)) = length d"
    "ihl4 (splice d off (bytes16 p)) = ihl4 d" "tot_len (splice d off (bytes16 p)) = tot_len d"
    "csum_word (splice d off (bytes16 p)) = csum_word d" "wf_packet (splice d off (bytes16 p))"
    "src_of (splice d off (bytes16 p)) = src_of d" "dst_of (splice d off (bytes16 p)) = dst_of d"
    "sport_of (splice d off (bytes16 p)) = (if off = ihl4 d then p else sport_of d)"
    "dport_of (splice d off (bytes16 p)) = (if off = ihl4 d then dport_of d else p)"
proof -
  let ?d = "splice d off (bytes16 p)"
  note w = wf_packetD [OF wf]
  have b: "off + length (bytes16 p) \<le> length d" using w off by auto
  show len: "length ?d = length d" using b by simp
  have n: "?d ! i = d ! i" if "i < 20" for i using that b off w(1,2,3) by (auto simp: nth_splice)
  show i: "ihl4 ?d = ihl4 d" and t: "tot_len ?d = tot_len d" and c: "csum_word ?d = csum_word d"
    and "src_of ?d = src_of d" "dst_of ?d = dst_of d"
    using n packet_fields_cong [of ?d d] by auto
  show "wf_packet ?d" using wf unfolding wf_packet_def len i t c .
  have m: "?d ! (ihl4 d + j) = (if off \<le> ihl4 d + j \<and> ihl4 d + j < off + 2
      then bytes16 p ! (ihl4 d + j - off) else d ! (ihl4 d + j))" if "j < 4" for j
    using nth_splice [OF b, of "ihl4 d + j"] that w(2,3) by simp
  have m: "?d ! ihl4 d = (if off = ihl4 d then byte_of 0 p else d ! ihl4 d)"
    "?d ! (ihl4 d + 1) = (if off = ihl4 d then byte_of 1 p else d ! (ihl4 d + 1))"
    "?d ! (ihl4 d + 2) = (if off = ihl4 d then d ! (ihl4 d + 2) else byte_of 0 p)"
    "?d ! (ihl4 d + 3) = (if off = ihl4 d then d ! (ihl4 d + 3) else byte_of 1 p)"
    using m [of 0] m [of 1] m [of 2] m [of 3] off by (auto simp: bytes16_def)
  show "sport_of ?d = (if off = ihl4 d then p else sport_of d)" "dport_of ?d = (if off = ihl4 d then dport_of d else p)"
    unfolding sport_of_def dport_of_def i using m off
    by auto
qed

text \<open>Port and address replaced, checksums recomputed: the order is that of the source, the port
  first.\<close>

definition translate :: "nat \<Rightarrow> u16 \<Rightarrow> nat \<Rightarrow> ip4 \<Rightarrow> buf \<Rightarrow> buf res" where
  "translate poff p off a d = bindE (st16 d (ihl4 d + poff) p) (rewrite off a)"

definition translated :: "nat \<Rightarrow> u16 \<Rightarrow> nat \<Rightarrow> ip4 \<Rightarrow> buf \<Rightarrow> buf \<Rightarrow> bool" where
  "translated poff p off a d d' \<longleftrightarrow> rewritten off a (splice d (ihl4 d + poff) (bytes16 p)) d'"

lemma translate_wf:
  assumes wf: "wf_packet d" and p: "poff = 0 \<or> poff = 2" and off: "off = 12 \<or> off = 16"
  shows "\<exists>d'. translate poff p off a d = Inr d' \<and> translated poff p off a d d'"
proof -
  have o: "ihl4 d + poff = ihl4 d \<or> ihl4 d + poff = ihl4 d + 2" using p by auto
  have "ihl4 d + poff + 2 \<le> length d" using p wf_packetD(2,3) [OF wf] by auto
  then show ?thesis
    using rewrite_wf [OF splice_port_fields(5) [OF wf o] off]
    by (auto simp: translate_def translated_def st16_def wr_def)
qed

lemma translated_fields:
  assumes "translated poff p off a d d'" "wf_packet d" "poff = 0 \<or> poff = 2" "off = 12 \<or> off = 16"
  shows "length d' = length d" "tot_len d' = tot_len d"
    "src_of d' = (if off = 12 then a else src_of d)" "dst_of d' = (if off = 16 then a else dst_of d)"
    "sport_of d' = (if poff = 0 then p else sport_of d)" "dport_of d' = (if poff = 2 then p else dport_of d)"
proof -
  let ?e = "splice d (ihl4 d + poff) (bytes16 p)"
  have o: "ihl4 d + poff = ihl4 d \<or> ihl4 d + poff = ihl4 d + 2" using assms(3) by auto
  note f = splice_port_fields [OF assms(2) o, of p]
  have r: "rewritten off a ?e d'" using assms(1) by (simp add: translated_def)
  note g = rewritten_fields [OF r f(5) assms(4)]
  show "length d' = length d" using r f(1) by (simp add: rewritten_def)
  show "tot_len d' = tot_len d" "src_of d' = (if off = 12 then a else src_of d)"
    "dst_of d' = (if off = 16 then a else dst_of d)"
    "sport_of d' = (if poff = 0 then p else sport_of d)" "dport_of d' = (if poff = 2 then p else dport_of d)"
    using f g assms(3) by auto
qed

section \<open>The same packet in two buffers\<close>

definition agree :: "nat \<Rightarrow> buf \<Rightarrow> buf \<Rightarrow> bool" where
  "agree n d e \<longleftrightarrow> n \<le> length d \<and> n \<le> length e \<and> (\<forall>i < n. d ! i = e ! i)"

lemma agree_take: "agree n d e \<longleftrightarrow> n \<le> length d \<and> n \<le> length e \<and> take n d = take n e"
  by (auto simp: agree_def list_eq_iff_nth_eq)

lemma agree_splice: "agree n d e \<Longrightarrow> i + length xs \<le> n \<Longrightarrow> agree n (splice d i xs) (splice e i xs)"
  by (auto simp: agree_def nth_splice)

lemma agree_fields:
  assumes "agree n d e" "20 \<le> n"
  shows "ihl4 e = ihl4 d" "tot_len e = tot_len d" "src_of e = src_of d" "dst_of e = dst_of d"
    "csum_word e = csum_word d" "pseudo_of e = pseudo_of d" "transport_words e = transport_words d"
  using assms packet_fields_cong [of e d] by (auto simp: agree_def)

lemma agree_raw:
  assumes "agree n d e" "wf_packet d" "tot_len d \<le> n"
  shows "ip_raw e = ip_raw d" "transport_raw k e = transport_raw k d"
proof -
  note w = wf_packetD [OF assms(2)]
  have n20: "20 \<le> n" using assms(3) w(1,2) by linarith
  note f = agree_fields [OF assms(1) n20]
  have nth: "e ! i = d ! i" if "i < tot_len d" for i using assms(1,3) that by (simp add: agree_def)
  have tw: "tot_len d = ihl4 d + 2 * transport_words d + (if odd (tot_len d) then 1 else 0)"
  proof -
    have "2 * transport_words d + (tot_len d - ihl4 d) mod 2 = tot_len d - ihl4 d"
      unfolding transport_words_def by simp
    moreover have "(tot_len d - ihl4 d) mod 2 = (if odd (tot_len d) then 1 else 0)"
      using w(2,8) by (auto simp: mod2_eq_if)
    ultimately show ?thesis using w(2) by linarith
  qed
  have "words_sum e 0 ns = words_sum d 0 ns" if "set ns \<subseteq> {0..<ihl4 d div 2}" for ns
    using that w(2,8) nth by (intro words_sum_cong) (auto dest!: subsetD elim!: evenE)
  then have "words_sum e 0 (filter (\<lambda>i. i \<noteq> 5) [0..<ihl4 d div 2]) = words_sum d 0 (filter (\<lambda>i. i \<noteq> 5) [0..<ihl4 d div 2])"
    by (metis filter_is_subset set_upt)
  then show "ip_raw e = ip_raw d" by (simp add: ip_raw_def f)
  have "words_sum e (ihl4 d) ns = words_sum d (ihl4 d) ns" if "set ns \<subseteq> {0..<transport_words d}" for ns
    using that tw nth by (intro words_sum_cong) (auto dest!: subsetD split: if_splits)
  then have "words_sum e (ihl4 d) (filter (\<lambda>i. i \<noteq> k) [0..<transport_words d]) =
      words_sum d (ihl4 d) (filter (\<lambda>i. i \<noteq> k) [0..<transport_words d])"
    by (metis filter_is_subset set_upt)
  moreover have "odd_byte e (ihl4 d + 2 * transport_words d) (odd (tot_len d)) =
      odd_byte d (ihl4 d + 2 * transport_words d) (odd (tot_len d))"
    using tw nth by (auto simp: odd_byte_def)
  ultimately show "transport_raw k e = transport_raw k d" by (simp add: transport_raw_def f)
qed

lemma fix_checksums_agree:
  assumes a: "agree n d e" and d: "wf_packet d" and e: "wf_packet e" and n: "tot_len d \<le> n"
  shows "\<exists>d' e'. fix_checksums d = Inr d' \<and> fix_checksums e = Inr e' \<and> agree n d' e'"
proof -
  note w = wf_packetD [OF d]
  have n20: "20 \<le> n" using n w(1,2) by linarith
  note f = agree_fields [OF a n20]
  obtain c where c: "fix_ip_checksum d = Inr (splice d 10 (bytes16 (htons c)))"
    "unat c = 65535 - fold_once (ip_raw d) mod 65536" using fix_ip_checksum_eq [OF d] by blast
  obtain c' where c': "fix_ip_checksum e = Inr (splice e 10 (bytes16 (htons c')))"
    "unat c' = 65535 - fold_once (ip_raw e) mod 65536" using fix_ip_checksum_eq [OF e] by blast
  have cc: "c' = c" using c(2) c'(2) agree_raw(1) [OF a d n] by (intro word_unat_eq_iff [THEN iffD2]) simp
  let ?d = "splice d 10 (bytes16 (htons c))" and ?e = "splice e 10 (bytes16 (htons c))"
  have a1: "agree n ?d ?e" using a n20 by (intro agree_splice) simp_all
  have wf1: "wf_packet ?d" "wf_packet ?e"
    using fix_ip_checksum_wf [OF d] fix_ip_checksum_wf [OF e] c(1) c'(1) cc by auto
  have "20 \<le> length d" using w(4) by simp
  then have "?d ! i = d ! i" if "i < 20" "i \<noteq> 10" "i \<noteq> 11" for i using that by (auto simp: nth_splice)
  then have f1: "tot_len ?d = tot_len d" "csum_word ?d = csum_word d" "ihl4 ?d = ihl4 d"
    using packet_fields_cong [of ?d d] by blast+
  note g = agree_fields [OF a1 n20]
  show ?thesis
  proof (cases "csum_word d")
    case None
    then have "fix_transport_checksum ?d = Inr ?d" "fix_transport_checksum ?e = Inr ?e"
      using f1 g wf_packetD(4) [OF wf1(1)] wf_packetD(4) [OF wf1(2)] by (auto intro: fix_transport_none)
    then show ?thesis using c(1) c'(1) cc a1 by (simp add: fix_checksums_def)
  next
    case (Some k)
    obtain b where b: "fix_transport_checksum ?d = Inr (splice ?d (ihl4 ?d + 2 * k) (bytes16 (htons b)))"
      "unat b = 65535 - fold_once (transport_raw k ?d) mod 65536"
      using fix_transport_eq [OF wf1(1)] f1(2) Some by metis
    obtain b' where b': "fix_transport_checksum ?e = Inr (splice ?e (ihl4 ?e + 2 * k) (bytes16 (htons b')))"
      "unat b' = 65535 - fold_once (transport_raw k ?e) mod 65536"
      using fix_transport_eq [OF wf1(2)] f1(2) g(5) Some by metis
    have bb: "b' = b"
      using b(2) b'(2) agree_raw(2) [OF a1 wf1(1)] n f1 by (intro word_unat_eq_iff [THEN iffD2]) simp
    have "ihl4 d + 2 * k + 2 \<le> n" using w(5) [OF Some] n by linarith
    then have "agree n (splice ?d (ihl4 d + 2 * k) (bytes16 (htons b))) (splice ?e (ihl4 d + 2 * k) (bytes16 (htons b)))"
      by (intro agree_splice [OF a1]) simp
    then show ?thesis using b(1) b'(1) bb c(1) c'(1) cc f1 g by (simp add: fix_checksums_def)
  qed
qed

lemma translate_agree:
  assumes a: "agree n d e" and d: "wf_packet d" and e: "wf_packet e" and n: "tot_len d \<le> n"
    and p: "poff = 0 \<or> poff = 2" and off: "off = 12 \<or> off = 16"
  shows "\<exists>d' e'. translate poff p off x d = Inr d' \<and> translate poff p off x e = Inr e' \<and> agree n d' e'"
proof -
  note w = wf_packetD [OF d]
  have n20: "20 \<le> n" "ihl4 d + poff + 2 \<le> n" using n w(1,2) p by auto
  have i: "ihl4 e = ihl4 d" using agree_fields(1) [OF a n20(1)] .
  let ?s = "\<lambda>d. splice d (ihl4 d + poff) (bytes16 p)"
  have o: "ihl4 d + poff = ihl4 d \<or> ihl4 d + poff = ihl4 d + 2" using p by auto
  note f = splice_port_fields [OF d o, of p]
  note g = splice_port_fields [OF e, of "ihl4 e + poff" p]
  have oe: "ihl4 e + poff = ihl4 e \<or> ihl4 e + poff = ihl4 e + 2" using p by auto
  have a1: "agree n (?s d) (?s e)" unfolding i using n20(2) by (intro agree_splice [OF a]) simp
  have a2: "agree n (splice (?s d) off (ip4_bytes x)) (splice (?s e) off (ip4_bytes x))"
    using n20(1) off by (intro agree_splice [OF a1]) auto
  note fd = splice_addr_fields [OF f(5) off, of x]
  note fe = splice_addr_fields [OF g(5) [OF oe] off, of x]
  obtain d' e' where "fix_checksums (splice (?s d) off (ip4_bytes x)) = Inr d'"
    "fix_checksums (splice (?s e) off (ip4_bytes x)) = Inr e'" "agree n d' e'"
    using fix_checksums_agree [OF a2 fd(5) fe(5)] fd(3) f(3) n by auto
  moreover have "n \<le> length d" "n \<le> length e" using a by (simp_all add: agree_def)
  ultimately show ?thesis
    using n20 off g(1) [OF oe] f(1) i by (auto simp: translate_def rewrite_def st16_def wr_def)
qed

text \<open>A packet copied into a cleared buffer.\<close>

lemma agree_padded:
  assumes "n \<le> length d" "n \<le> m"
  shows "agree n d (splice (replicate m 0) 0 (take n d))"
  using assms by (auto simp: agree_def nth_splice)

lemma wf_packet_padded:
  assumes wf: "wf_packet d" and n: "tot_len d \<le> n" "n \<le> length d" "n \<le> m" and m: "tot_len d < m"
  shows "wf_packet (splice (replicate m 0) 0 (take n d))"
proof -
  have n20: "20 \<le> n" using n(1) wf_packetD(1,2) [OF wf] by linarith
  note f = agree_fields [OF agree_padded [OF n(2,3)] n20]
  show ?thesis using wf m n unfolding wf_packet_def f by auto
qed

end
