(* ===== verification/Ap_Packet.thy ===== *)
theory Ap_Packet
  imports Ap_Nat Chain_Sweep Port_Rewrite Of_Channel
begin

text \<open>
  The packet path of an access point (ofSwitchAP/controller_interface.c: \<open>struct PortData\<close>,
  \<open>addPortData\<close>, \<open>reinject_pkt\<close>, \<open>handle_pkt\<close>, \<open>cb\<close>, \<open>recvPkt\<close>). A packet of a client whose
  flow has a port leaves with that port and the access point's address; a packet of a new flow waits
  in \<open>portQueue\<close> while the controller is asked for a port, and \<open>reinject_pkt\<close> sends it on when the
  port is there. Packets from outside are translated back by their destination port.

  The threads that the code starts and detaches are kept in pools of the state
  (\<open>nat_entry_threads\<close>, \<open>port_entry_threads\<close>, \<open>reinject_threads\<close>): started and not yet run.

  Shown here: what each queue does to a packet, what \<open>reinject_pkt\<close> does to the waiting packets, that
  a reply reaches the client and port it belongs to, and that a packet that waited leaves as it would
  have left had its flow been known.
\<close>

section \<open>State\<close>

definition MAX_PACKET_SIZE :: nat where
  "MAX_PACKET_SIZE = 0xffff"

record PortData =
  pd_qh :: int
  pd_packet_id :: u32
  pd_ret :: int
  pd_packet :: buf

type_synonym PortQueue = "PortData chains"

definition sizeof_PortData :: nat where
  "sizeof_PortData = 65560"

text \<open>The message of the two threads that report a flow: an \<open>ofp_nat_port_entry\<close> of which they read
  the client's hardware address, the addresses and the ports.\<close>

record nat_request =
  nr_mac :: mac
  nr_src :: ip4
  nr_dst :: ip4
  nr_sport :: u16
  nr_dport :: u16

record ap_state =
  ap_entryList :: ap_natList
  portQueue :: PortQueue
  ap_ifIP :: ip4
  ap_subnet :: string
  ap_loop_terminate :: bool
  nat_entry_threads :: "nat_request list"
  port_entry_threads :: "nat_request list"
  reinject_threads :: "nat list"

text \<open>The access point also asks the netfilter library for the client's hardware address.\<close>

record ap_nfq_data = nfq_data +
  nfad_hw :: "mac option"

record ap_env = of_env +
  pthread_ok :: bool

definition spawn :: "'e ap_env_scheme \<Rightarrow> 'a \<Rightarrow> 'a list \<Rightarrow> 'a list" where
  "spawn e x pool = (if pthread_ok e then pool @ [x] else pool)"

section \<open>Waiting packets\<close>

definition addPortData :: "'e env_scheme \<Rightarrow> int \<Rightarrow> u32 \<Rightarrow> int \<Rightarrow> buf \<Rightarrow> ip4 \<Rightarrow> PortQueue \<Rightarrow>
    (ptr \<times> PortQueue) res" where
  "addPortData e qh packet_id ret data dst pq =
     (if \<not> calloc_ok e sizeof_PortData then Inr (None, pq)
      else bindE (rd data 0 (nat ret)) (\<lambda>p.
        bindE (wr (replicate MAX_PACKET_SIZE 0) 0 p) (\<lambda>packet.
        bindE (push_front \<lparr>pd_qh = qh, pd_packet_id = packet_id, pd_ret = ret, pd_packet = packet\<rparr>
                 (AP_HASH_FUNC dst) pq) (\<lambda>(q, pq).
          Inr (Some q, pq)))))"

text \<open>The body of the loop of \<open>reinject_pkt\<close>: a waiting packet of the flow of \<open>nMap\<close> is rewritten and
  accepted on the queue it came from; another packet is kept.\<close>

definition reinject_one :: "ap_natMap \<Rightarrow> ip4 \<Rightarrow> PortData \<Rightarrow> (int \<times> verdict) option res" where
  "reinject_one nMap ip temp = bindE (ip_header (pd_packet temp)) (\<lambda>ipH.
     if src_addr ipH = am_src_addr nMap \<and> dst_addr ipH = am_dst_addr nMap then
       bindE (transport_at (pd_packet temp) (hdr_len ipH)) (\<lambda>tH.
       if src_port tH = am_src_port nMap \<and> dst_port tH = am_dst_port nMap then
         bindE (st16 (pd_packet temp) (hdr_len ipH) (am_new_port nMap)) (\<lambda>packet.
         bindE (wr packet 12 (ip4_bytes ip)) (\<lambda>packet.
         bindE (fix_checksums packet) (\<lambda>packet.
         bindE (nfq_accept (pd_packet_id temp) (pd_ret temp) packet) (\<lambda>v.
           Inr (Some (pd_qh temp, v))))))
       else Inr None)
     else Inr None)"

definition reinject_pkt :: "nat \<Rightarrow> 's ap_state_scheme \<Rightarrow> ((int \<times> verdict) list \<times> 's ap_state_scheme) res" where
  "reinject_pkt msg s = bindE (deref (ap_entryList s) msg) (\<lambda>c.
     bindE (sweep (reinject_one (item c) (ap_ifIP s)) (AP_HASH_FUNC (am_dst_addr (item c))) (portQueue s))
       (\<lambda>(vs, pq). Inr (vs, s\<lparr>portQueue := pq\<rparr>)))"

section \<open>The handler\<close>

definition new_request :: "'e env_scheme \<Rightarrow> 'p ap_nfq_data_scheme \<Rightarrow> ip_header_t \<Rightarrow> transport_header \<Rightarrow>
    nat_request res" where
  "new_request e tb ipH tH = (case nfad_hw tb of
     None \<Rightarrow> Inl NullDeref
   | Some hw \<Rightarrow>
       if \<not> calloc_ok e (sizeof ofp_nat_port_entry) then Inl NullDeref
       else Inr \<lparr>nr_mac = hw, nr_src = src_addr ipH, nr_dst = dst_addr ipH,
         nr_sport = src_port tH, nr_dport = dst_port tH\<rparr>)"

text \<open>A packet is accepted as it is, waits for a port, or goes on with new addresses.\<close>

datatype ap_route = Pass | Wait | Rewritten buf

text \<open>Queue 0.\<close>

definition ap_outbound :: "'e ap_env_scheme \<Rightarrow> int \<Rightarrow> u32 \<Rightarrow> 'p ap_nfq_data_scheme \<Rightarrow> 's ap_state_scheme \<Rightarrow>
    (ap_route \<times> 's ap_state_scheme) res" where
  "ap_outbound e qh pid tb s = bindE (ip_header (nfad_data tb)) (\<lambda>ipH.
     if in_subnet (ap_subnet s) (src_addr ipH) then
       bindE (transport_at (nfad_data tb) (hdr_len ipH)) (\<lambda>tH.
       bindE (if \<not> PORT_TRANSLATION then ap_lookupNatMap (src_port tH) (dst_addr ipH) (dst_port tH) (ap_entryList s)
              else lookupPortMapQ0 (src_addr ipH) (src_port tH) (dst_addr ipH) (dst_port tH) (ap_entryList s)) (\<lambda>nMap.
       let go = (\<lambda>nMap s.
         bindE (if PORT_TRANSLATION then
                  bindE (non_null nMap) (\<lambda>q. bindE (deref (ap_entryList s) q) (\<lambda>c.
                    st16 (nfad_data tb) (hdr_len ipH) (am_new_port (item c))))
                else Inr (nfad_data tb)) (\<lambda>data.
         bindE (wr data 12 (ip4_bytes (ap_ifIP s))) (\<lambda>data. Inr (Rewritten data, s)))) in
       if nMap = None \<and> \<not> PORT_TRANSLATION then
         bindE (ap_addEntry e (src_port tH) (src_addr ipH) (dst_port tH) (dst_addr ipH) (ap_entryList s)) (\<lambda>(nMap, t).
         bindE (new_request e tb ipH tH) (\<lambda>nat.
           go nMap (s\<lparr>ap_entryList := t, nat_entry_threads := spawn e nat (nat_entry_threads s)\<rparr>)))
       else if nMap = None then
         bindE (addPortData e qh pid (nfad_len tb) (nfad_data tb) (dst_addr ipH) (portQueue s)) (\<lambda>(pData, pq).
         bindE (new_request e tb ipH tH) (\<lambda>nat.
           Inr (Wait, s\<lparr>portQueue := pq, port_entry_threads := spawn e nat (port_entry_threads s)\<rparr>)))
       else go nMap s))
     else Inr (Pass, s))"

text \<open>Queue 1.\<close>

definition ap_inbound :: "buf \<Rightarrow> 's ap_state_scheme \<Rightarrow> ap_route res" where
  "ap_inbound data s = bindE (ip_header data) (\<lambda>ipH.
     if dst_addr ipH = ap_ifIP s then
       bindE (transport_at data (hdr_len ipH)) (\<lambda>tH.
       bindE (if \<not> PORT_TRANSLATION then ap_lookupNatMap (dst_port tH) (src_addr ipH) (src_port tH) (ap_entryList s)
              else lookupPortMapQ1 (dst_port tH) (src_addr ipH) (src_port tH) (ap_entryList s)) (\<lambda>nMap.
       case nMap of
         None \<Rightarrow> Inr Pass
       | Some q \<Rightarrow> bindE (deref (ap_entryList s) q) (\<lambda>c.
           bindE (if PORT_TRANSLATION then st16 data (hdr_len ipH + 2) (am_src_port (item c)) else Inr data) (\<lambda>data.
           bindE (wr data 16 (ip4_bytes (am_src_addr (item c)))) (\<lambda>data. Inr (Rewritten data))))))
     else Inr Pass)"

text \<open>What follows for both queues: the checksums and the verdict.\<close>

definition ap_finish :: "u32 \<Rightarrow> int \<Rightarrow> ap_route \<Rightarrow> verdict option res" where
  "ap_finish pid ret r = (case r of
     Pass \<Rightarrow> Inr (Some (NF_ACCEPT pid None))
   | Wait \<Rightarrow> Inr None
   | Rewritten data \<Rightarrow>
       bindE (fix_checksums data) (\<lambda>data.
       bindE (nfq_accept pid ret data) (\<lambda>v. Inr (Some v))))"

definition ap_handle_pkt :: "'e ap_env_scheme \<Rightarrow> 'p ap_nfq_data_scheme \<Rightarrow> int \<Rightarrow> int \<Rightarrow> 's ap_state_scheme \<Rightarrow>
    (verdict option \<times> 's ap_state_scheme) res" where
  "ap_handle_pkt e tb queueNum qh s =
     (let pid = (case nfad_hdr tb of None \<Rightarrow> 0 | Some i \<Rightarrow> ntohl i) in
      if nfad_len tb \<ge> 0 then
        bindE (if queueNum = 0 then ap_outbound e qh pid tb s
               else if queueNum = 1 then bindE (ap_inbound (nfad_data tb) s) (\<lambda>r. Inr (r, s))
               else bindE (ip_header (nfad_data tb)) (\<lambda>ipH. Inr (Pass, s))) (\<lambda>(r, s).
        bindE (ap_finish pid (nfad_len tb) r) (\<lambda>v. Inr (v, s)))
      else Inr (Some (NF_ACCEPT pid None), s))"

section \<open>The receive loop\<close>

definition ap_cb :: "'e ap_env_scheme \<Rightarrow> int \<Rightarrow> 'p ap_nfq_data_scheme \<Rightarrow> int \<Rightarrow> 's ap_state_scheme \<Rightarrow>
    (verdict option \<times> 's ap_state_scheme) res" where
  "ap_cb e qh nfa num s = ap_handle_pkt e nfa num qh s"

fun ap_nfq_handle_packet :: "'e ap_env_scheme \<Rightarrow> int \<Rightarrow> int \<Rightarrow> 'p ap_nfq_data_scheme list \<Rightarrow> 's ap_state_scheme \<Rightarrow>
    (verdict option list \<times> 's ap_state_scheme) res" where
  "ap_nfq_handle_packet e qh num [] s = Inr ([], s)"
| "ap_nfq_handle_packet e qh num (nfa # nfas) s =
     bindE (ap_cb e qh nfa num s) (\<lambda>(v, s).
     bindE (ap_nfq_handle_packet e qh num nfas s) (\<lambda>(vs, s). Inr (v # vs, s)))"

fun ap_recv_round :: "'e ap_env_scheme \<Rightarrow> int \<Rightarrow> int \<Rightarrow> 'p ap_nfq_data_scheme poll \<Rightarrow> int \<Rightarrow> 's ap_state_scheme \<Rightarrow>
    (int \<times> verdict option list \<times> 's ap_state_scheme) res" where
  "ap_recv_round e qh num Select_fails rv s = Inl (Exit 1)"
| "ap_recv_round e qh num Not_ready rv s = Inr (rv, [], s)"
| "ap_recv_round e qh num (Received rv' nfas) rv s =
     (if rv' \<le> 0 then Inr (rv', [], s\<lparr>ap_loop_terminate := False\<rparr>)
      else bindE (ap_nfq_handle_packet e qh num nfas s) (\<lambda>(vs, s). Inr (rv', vs, s)))"

fun ap_recv_loop :: "'e ap_env_scheme \<Rightarrow> int \<Rightarrow> int \<Rightarrow> 'p ap_nfq_data_scheme poll list \<Rightarrow> int \<Rightarrow>
    's ap_state_scheme \<Rightarrow> (verdict option list \<times> 's ap_state_scheme) res" where
  "ap_recv_loop e qh num [] rv s = Inr ([], s)"
| "ap_recv_loop e qh num (p # ps) rv s =
     (if ap_loop_terminate s \<and> rv \<ge> 0 then
        bindE (ap_recv_round e qh num p rv s) (\<lambda>(rv, vs, s).
        bindE (ap_recv_loop e qh num ps rv s) (\<lambda>(ws, s). Inr (vs @ ws, s)))
      else Inr ([], s))"

definition ap_recvPkt :: "'e ap_env_scheme \<Rightarrow> nfq_env \<Rightarrow> int \<Rightarrow> int \<Rightarrow> 'p ap_nfq_data_scheme poll list \<Rightarrow>
    's ap_state_scheme \<Rightarrow> (verdict option list \<times> 's ap_state_scheme) res" where
  "ap_recvPkt e n qh num ps s =
     (if \<not> nfq_open_ok n then Inl (Exit 1)
      else if nfq_unbind_ret n < 0 then Inl (Exit 1)
      else if nfq_bind_ret n < 0 then Inl (Exit 1)
      else if \<not> nfq_create_ok n then Inl (Exit 1)
      else if nfq_mode_ret n < 0 then Inl (Exit 1)
      else ap_recv_loop e qh num ps 1 s)"

section \<open>The waiting packets of a flow\<close>

definition flow4_at :: "buf \<Rightarrow> flow4" where
  "flow4_at d = (src_of d, sport_of d, dst_of d, dport_of d)"

abbreviation pd_flow :: "PortData \<Rightarrow> flow4" where
  "pd_flow pd \<equiv> flow4_at (pd_packet pd)"

definition pd_hash :: "PortData \<Rightarrow> nat" where
  "pd_hash pd = AP_HASH_FUNC (dst_of (pd_packet pd))"

definition pd_ok :: "PortData \<Rightarrow> bool" where
  "pd_ok pd \<longleftrightarrow> length (pd_packet pd) = MAX_PACKET_SIZE \<and> 0 \<le> pd_ret pd \<and> pd_ret pd \<le> int MAX_PACKET_SIZE"

definition waiting :: "PortQueue \<Rightarrow> nat \<Rightarrow> PortData list" where
  "waiting pq h = map snd (bucket_list pq h)"

definition pq_inv :: "PortQueue \<Rightarrow> bool" where
  "pq_inv pq \<longleftrightarrow> wf_chains pd_hash pq \<and> length (table pq) = AP_MAXENTRY \<and>
     (\<forall>h < AP_MAXENTRY. \<forall>pd \<in> set (waiting pq h). pd_ok pd)"

text \<open>What is sent for a waiting packet of the flow of an entry.\<close>

definition release :: "ap_natMap \<Rightarrow> ip4 \<Rightarrow> PortData \<Rightarrow> int \<times> verdict" where
  "release x ip pd = (pd_qh pd, NF_ACCEPT (pd_packet_id pd) (Some (take (nat (pd_ret pd))
     (case translate 0 (am_new_port x) 12 ip (pd_packet pd) of Inl f \<Rightarrow> [] | Inr d \<Rightarrow> d))))"

lemma pq_inv_init: "pq_inv (chains_init AP_MAXENTRY)"
  by (simp add: pq_inv_def waiting_def)

lemma packet_at_max:
  assumes "length d = MAX_PACKET_SIZE"
  shows "20 \<le> length d" "ihl4 d + 4 \<le> length d"
  using assms ihl4_less [of d] by (simp_all add: MAX_PACKET_SIZE_def)

lemma reinject_one_other:
  assumes "pd_ok pd" "pd_flow pd \<noteq> flow4_of x"
  shows "reinject_one x ip pd = Inr None"
proof -
  have "length (pd_packet pd) = MAX_PACKET_SIZE" using assms(1) by (simp add: pd_ok_def)
  from packet_at_max [OF this] assms(2) show ?thesis
    by (auto simp: reinject_one_def ip_header_eq hdr_len_def ihl4_def [symmetric] transport_at_eq
        flow4_at_def flow4_of_def)
qed

lemma reinject_one_flow:
  assumes ok: "pd_ok pd" and fl: "pd_flow pd = flow4_of x" and wf: "wf_packet (pd_packet pd)"
  shows "reinject_one x ip pd = Inr (Some (release x ip pd))"
proof -
  let ?p = "pd_packet pd"
  have l: "length ?p = MAX_PACKET_SIZE" using ok by (simp add: pd_ok_def)
  note m = packet_at_max [OF l]
  obtain d where d: "translate 0 (am_new_port x) 12 ip ?p = Inr d" "translated 0 (am_new_port x) 12 ip ?p d"
    using translate_wf [OF wf, of 0 12 "am_new_port x" ip] by auto
  have len: "length d = MAX_PACKET_SIZE" using translated_fields(1) [OF d(2) wf] l by simp
  have "nat (pd_ret pd) \<le> length d" using ok len by (simp add: pd_ok_def nat_le_iff)
  then have "nfq_accept (pd_packet_id pd) (pd_ret pd) d = Inr (snd (release x ip pd))"
    using d(1) by (simp add: nfq_accept_def rd_def slice_def release_def)
  moreover have "bindE (st16 ?p (ihl4 ?p) (am_new_port x)) (\<lambda>p. bindE (wr p 12 (ip4_bytes ip)) fix_checksums) = Inr d"
    using d(1) by (simp add: translate_def rewrite_def [abs_def])
  ultimately show ?thesis
    using m fl
    by (auto simp: reinject_one_def ip_header_eq hdr_len_def ihl4_def [symmetric] transport_at_eq
        flow4_at_def flow4_of_def release_def elim!: bindE_E)
qed

lemma map_filter_if:
  "List.map_filter (\<lambda>x. if P (snd x) then Some (g (snd x)) else None) xs = map g (filter P (map snd xs))"
  by (induction xs) (simp_all add: map_filter_simps)

lemma map_snd_filter: "map snd (filter (\<lambda>x. P (snd x)) xs) = filter P (map snd xs)"
  by (induction xs) auto

text \<open>The packets of the flow leave, in the order of the list, the newest first; the others stay.\<close>

lemma reinject_flow:
  assumes x: "deref (ap_entryList s) q = Inr (Cell x n)" and inv: "pq_inv (portQueue s)"
    and h: "AP_HASH_FUNC (am_dst_addr x) < AP_MAXENTRY"
    and wf: "\<forall>pd \<in> set (waiting (portQueue s) (AP_HASH_FUNC (am_dst_addr x))).
      pd_flow pd = flow4_of x \<longrightarrow> wf_packet (pd_packet pd)"
  shows "\<exists>pq. reinject_pkt q s = Inr (map (release x (ap_ifIP s)) (filter (\<lambda>pd. pd_flow pd = flow4_of x)
        (waiting (portQueue s) (AP_HASH_FUNC (am_dst_addr x)))), s\<lparr>portQueue := pq\<rparr>) \<and> pq_inv pq \<and>
    (\<forall>k < AP_MAXENTRY. waiting pq k = filter (\<lambda>pd. pd_flow pd \<noteq> flow4_of x) (waiting (portQueue s) k))"
proof -
  let ?pq = "portQueue s" and ?h = "AP_HASH_FUNC (am_dst_addr x)"
  define f where "f pd = (if pd_flow pd = flow4_of x then Some (release x (ap_ifIP s) pd) else None)" for pd
  have wfc: "wf_chains pd_hash ?pq" and len: "length (table ?pq) = AP_MAXENTRY"
    and ok: "\<And>k pd. k < AP_MAXENTRY \<Longrightarrow> pd \<in> set (waiting ?pq k) \<Longrightarrow> pd_ok pd"
    using inv by (auto simp: pq_inv_def)
  have act: "\<forall>(r, pd) \<in> set (bucket_list ?pq ?h). reinject_one x (ap_ifIP s) pd = Inr (f pd)"
  proof clarify
    fix r pd assume "(r, pd) \<in> set (bucket_list ?pq ?h)"
    then have "pd \<in> set (waiting ?pq ?h)" by (force simp: waiting_def)
    with ok [OF h this] wf reinject_one_other reinject_one_flow
    show "reinject_one x (ap_ifIP s) pd = Inr (f pd)" by (auto simp: f_def)
  qed
  have hl: "?h < length (table ?pq)" using h len by simp
  obtain pq where pq: "sweep (reinject_one x (ap_ifIP s)) ?h ?pq =
      Inr (List.map_filter (\<lambda>y. f (snd y)) (bucket_list ?pq ?h), pq)" "wf_chains pd_hash pq"
    "length (table pq) = length (table ?pq)" "length (cells pq) = length (cells ?pq)"
    "\<forall>k < length (table ?pq). bucket_list pq k =
       (if k = ?h then filter (\<lambda>y. f (snd y) = None) (bucket_list ?pq ?h) else bucket_list ?pq k)"
    by (rule sweep_wf [OF wfc hl act]) auto
  have fo: "pd_flow pd \<noteq> flow4_of x" if "k < AP_MAXENTRY" "k \<noteq> ?h" "pd \<in> set (waiting ?pq k)" for k pd
  proof -
    have "pd_hash pd = k" using wf_chains_bucket(2) [OF wfc] that len by (auto simp: waiting_def)
    then show ?thesis using that(2) by (auto simp: pd_hash_def flow4_at_def flow4_of_def)
  qed
  have w: "waiting pq k = filter (\<lambda>pd. pd_flow pd \<noteq> flow4_of x) (waiting ?pq k)" if k: "k < AP_MAXENTRY" for k
  proof (cases "k = ?h")
    case True
    then show ?thesis using pq(5) k len map_snd_filter [of "\<lambda>pd. f pd = None" "bucket_list ?pq ?h"]
      by (simp add: waiting_def f_def)
  next
    case False
    then have "filter (\<lambda>pd. pd_flow pd \<noteq> flow4_of x) (waiting ?pq k) = waiting ?pq k"
      using fo [OF k] by simp
    then show ?thesis using pq(5) k len False by (simp add: waiting_def)
  qed
  have "pq_inv pq" using pq(2,3) len ok w by (auto simp: pq_inv_def)
  moreover have "List.map_filter (\<lambda>y. f (snd y)) (bucket_list ?pq ?h) =
      map (release x (ap_ifIP s)) (filter (\<lambda>pd. pd_flow pd = flow4_of x) (waiting ?pq ?h))"
    unfolding waiting_def f_def by (rule map_filter_if)
  ultimately show ?thesis using x pq(1) w by (auto simp: reinject_pkt_def)
qed

section \<open>The contract of the handler\<close>

definition ap_inv :: "'s ap_state_scheme \<Rightarrow> bool" where
  "ap_inv s \<longleftrightarrow> ap_nat_inv (ap_entryList s) \<and> pq_inv (portQueue s)"

definition accepts_translated :: "nat \<Rightarrow> u16 \<Rightarrow> nat \<Rightarrow> ip4 \<Rightarrow> 'p nfq_data_scheme \<Rightarrow> verdict \<Rightarrow> bool" where
  "accepts_translated poff p off a tb v \<longleftrightarrow> (\<exists>d. translate poff p off a (pkt tb) = Inr d \<and>
     translated poff p off a (pkt tb) d \<and> v = NF_ACCEPT (pkt_id tb) (Some (take (nat (nfad_len tb)) d)))"

lemma finish_translated:
  assumes "payload_wf tb" "poff = 0 \<or> poff = 2" "off = 12 \<or> off = 16"
  shows "\<exists>b c d v. st16 (pkt tb) (ihl4 (pkt tb) + poff) p = Inr b \<and> wr b off (ip4_bytes a) = Inr c \<and>
    fix_checksums c = Inr d \<and> nfq_accept (pkt_id tb) (nfad_len tb) d = Inr v \<and>
    accepts_translated poff p off a tb v"
proof -
  have wf: "wf_packet (pkt tb)" using assms(1) by (simp add: payload_wf_def)
  obtain d where d: "translate poff p off a (pkt tb) = Inr d" "translated poff p off a (pkt tb) d"
    using translate_wf [OF wf assms(2,3)] by blast
  have "nat (nfad_len tb) \<le> length d"
    using assms(1) translated_fields(1) [OF d(2) wf assms(2,3)] by (simp add: payload_wf_def nat_le_iff)
  moreover from d(1) obtain b c where "st16 (pkt tb) (ihl4 (pkt tb) + poff) p = Inr b"
    "wr b off (ip4_bytes a) = Inr c" "fix_checksums c = Inr d"
    by (auto simp: translate_def rewrite_def bindE_eq_Inr)
  ultimately show ?thesis
    using d by (auto simp: nfq_accept_def rd_def slice_def accepts_translated_def)
qed

lemmas ap_step_simps = ap_handle_pkt_def ap_finish_def ap_outbound_def ap_inbound_def ip_header_eq hdr_len_def
  ihl4_def [symmetric] transport_at_eq payload_wf_def pkt_id_def PORT_TRANSLATION_def Let_def

lemma ap_out_known:
  assumes wf: "payload_wf tb" and inv: "ap_nat_inv (ap_entryList s)"
    and sub: "in_subnet (ap_subnet s) (src_of (pkt tb))"
    and p: "port_abs (ap_entryList s) (flow4_at (pkt tb)) = Some p"
  shows "\<exists>v. ap_handle_pkt e tb 0 qh s = Inr (Some v, s) \<and> accepts_translated 0 p 12 (ap_ifIP s) tb v"
proof -
  let ?p = "pkt tb"
  have w: "20 \<le> length ?p" "ihl4 ?p + 4 \<le> length ?p"
    using wf wf_packetD [of ?p] by (auto simp: payload_wf_def)
  have h: "AP_HASH_FUNC (dst_of ?p) < AP_MAXENTRY"
    using p ap_nat_invD(4) [OF inv] by (auto simp: port_abs_def flow4_at_def split: if_splits)
  obtain q x n where q: "lookupPortMapQ0 (src_of ?p) (sport_of ?p) (dst_of ?p) (dport_of ?p) (ap_entryList s) = Inr (Some q)"
    "deref (ap_entryList s) q = Inr (Cell x n)" "am_new_port x = p"
    using lookupPortMapQ0_entry [OF inv h, of "src_of ?p" "sport_of ?p" "dport_of ?p"] p
    by (auto simp: flow4_at_def split: sum.splits option.splits)
  obtain b c d v where v: "st16 ?p (ihl4 ?p) p = Inr b" "wr b 12 (ip4_bytes (ap_ifIP s)) = Inr c"
    "fix_checksums c = Inr d" "nfq_accept (pkt_id tb) (nfad_len tb) d = Inr v"
    "accepts_translated 0 p 12 (ap_ifIP s) tb v"
    using finish_translated [OF wf, of 0 12 p "ap_ifIP s"] by auto
  have "ap_handle_pkt e tb 0 qh s = Inr (Some v, s)"
    using w sub wf q v by (simp add: ap_step_simps)
  with v(5) show ?thesis by blast
qed

text \<open>The node of a packet that starts to wait.\<close>

definition pd_of :: "int \<Rightarrow> 'p nfq_data_scheme \<Rightarrow> PortData" where
  "pd_of qh tb = \<lparr>pd_qh = qh, pd_packet_id = pkt_id tb, pd_ret = nfad_len tb,
     pd_packet = splice (replicate MAX_PACKET_SIZE 0) 0 (take (nat (nfad_len tb)) (pkt tb))\<rparr>"

definition request_of :: "mac \<Rightarrow> buf \<Rightarrow> nat_request" where
  "request_of hw d = \<lparr>nr_mac = hw, nr_src = src_of d, nr_dst = dst_of d, nr_sport = sport_of d, nr_dport = dport_of d\<rparr>"

text \<open>Adding a packet to the queue.\<close>

lemma addPortData_new:
  assumes inv: "pq_inv pq" and ok: "calloc_ok e sizeof_PortData" and h: "AP_HASH_FUNC (dst_of (pkt tb)) < AP_MAXENTRY"
    and l: "20 \<le> nfad_len tb" "nfad_len tb \<le> int (length (pkt tb))" "nfad_len tb \<le> int MAX_PACKET_SIZE"
  shows "\<exists>q pq'. addPortData e qh (pkt_id tb) (nfad_len tb) (pkt tb) (dst_of (pkt tb)) pq = Inr (Some q, pq') \<and>
    pq_inv pq' \<and> (\<forall>k < AP_MAXENTRY. waiting pq' k =
      (if k = AP_HASH_FUNC (dst_of (pkt tb)) then pd_of qh tb # waiting pq k else waiting pq k))"
proof -
  let ?n = "nat (nfad_len tb)" and ?h = "AP_HASH_FUNC (dst_of (pkt tb))"
  have n: "?n \<le> length (pkt tb)" "?n \<le> MAX_PACKET_SIZE" "20 \<le> ?n" using l by (simp_all add: nat_le_iff)
  let ?z = "splice (replicate MAX_PACKET_SIZE 0) 0 (take ?n (pkt tb))"
  have a: "agree ?n (pkt tb) ?z" by (rule agree_padded [OF n(1,2)])
  have hp: "pd_hash (pd_of qh tb) = ?h" using agree_fields(4) [OF a n(3)] by (simp add: pd_hash_def pd_of_def)
  have i: "wf_chains pd_hash pq" "?h < length (table pq)" "length (table pq) = AP_MAXENTRY"
    using inv h by (auto simp: pq_inv_def)
  obtain pq' where pq': "push_front (pd_of qh tb) ?h pq = Inr (length (cells pq), pq')" "wf_chains pd_hash pq'"
    "length (table pq') = length (table pq)"
    "\<forall>k < length (table pq). bucket_list pq' k =
       (if k = ?h then (length (cells pq), pd_of qh tb) # bucket_list pq ?h else bucket_list pq k)"
    by (rule push_front_wf [OF i(1,2) hp])
  have "addPortData e qh (pkt_id tb) (nfad_len tb) (pkt tb) (dst_of (pkt tb)) pq = Inr (Some (length (cells pq)), pq')"
    using ok n pq'(1) by (simp add: addPortData_def rd_def slice_def wr_def pd_of_def)
  moreover have w: "\<forall>k < AP_MAXENTRY. waiting pq' k = (if k = ?h then pd_of qh tb # waiting pq k else waiting pq k)"
    using pq'(4) i(3) by (simp add: waiting_def)
  moreover have "pd_ok (pd_of qh tb)" using n(1,2) l by (simp add: pd_ok_def pd_of_def)
  then have "pq_inv pq'" using pq'(2,3) inv w i(3) by (auto simp: pq_inv_def)
  ultimately show ?thesis by blast
qed

lemma ap_out_new:
  assumes wf: "payload_wf tb" "20 \<le> nfad_len tb" "nfad_len tb \<le> int MAX_PACKET_SIZE" and inv: "ap_inv s"
    and sub: "in_subnet (ap_subnet s) (src_of (pkt tb))" and h: "AP_HASH_FUNC (dst_of (pkt tb)) < AP_MAXENTRY"
    and p: "port_abs (ap_entryList s) (flow4_at (pkt tb)) = None"
    and ok: "calloc_ok e sizeof_PortData" "calloc_ok e 24" and hw: "nfad_hw tb = Some hw"
  shows "\<exists>pq. ap_handle_pkt e tb 0 qh s = Inr (None, s\<lparr>portQueue := pq,
      port_entry_threads := spawn e (request_of hw (pkt tb)) (port_entry_threads s)\<rparr>) \<and> pq_inv pq \<and>
    (\<forall>k < AP_MAXENTRY. waiting pq k = (if k = AP_HASH_FUNC (dst_of (pkt tb))
       then pd_of qh tb # waiting (portQueue s) k else waiting (portQueue s) k))"
proof -
  let ?p = "pkt tb"
  have w: "20 \<le> length ?p" "ihl4 ?p + 4 \<le> length ?p"
    using wf(1) wf_packetD [of ?p] by (auto simp: payload_wf_def)
  have l: "nfad_len tb \<le> int (length ?p)" using wf(1) by (simp add: payload_wf_def)
  have i: "ap_nat_inv (ap_entryList s)" "pq_inv (portQueue s)" using inv by (simp_all add: ap_inv_def)
  have q: "lookupPortMapQ0 (src_of ?p) (sport_of ?p) (dst_of ?p) (dport_of ?p) (ap_entryList s) = Inr None"
    using lookupPortMapQ0_entry [OF i(1) h, of "src_of ?p" "sport_of ?p" "dport_of ?p"] p
    by (auto simp: flow4_at_def split: sum.splits option.splits)
  obtain r pq where pq: "addPortData e qh (pkt_id tb) (nfad_len tb) ?p (dst_of ?p) (portQueue s) = Inr (Some r, pq)"
    "pq_inv pq" "\<forall>k < AP_MAXENTRY. waiting pq k = (if k = AP_HASH_FUNC (dst_of ?p)
       then pd_of qh tb # waiting (portQueue s) k else waiting (portQueue s) k)"
    using addPortData_new [OF i(2) ok(1) h wf(2) l wf(3)] by blast
  have "ap_handle_pkt e tb 0 qh s = Inr (None, s\<lparr>portQueue := pq,
      port_entry_threads := spawn e (request_of hw ?p) (port_entry_threads s)\<rparr>)"
    using w sub wf(1) q pq(1) hw ok(2)
    by (simp add: ap_step_simps new_request_def offsets_ofp_nat_port_entry request_of_def)
  with pq(2,3) show ?thesis by blast
qed

lemma ap_in:
  assumes wf: "payload_wf tb" and inv: "ap_nat_inv (ap_entryList s)"
    and dst: "dst_of (pkt tb) = ap_ifIP s" and h: "AP_HASH_FUNC (src_of (pkt tb)) < AP_MAXENTRY"
  shows "\<exists>v. ap_handle_pkt e tb 1 qh s = Inr (Some v, s) \<and>
    ((\<forall>a ap. port_abs (ap_entryList s) (a, ap, src_of (pkt tb), sport_of (pkt tb)) \<noteq> Some (dport_of (pkt tb))) \<and>
       v = NF_ACCEPT (pkt_id tb) None \<or>
     (\<exists>a ap. port_abs (ap_entryList s) (a, ap, src_of (pkt tb), sport_of (pkt tb)) = Some (dport_of (pkt tb)) \<and>
       accepts_translated 2 ap 16 a tb v))"
proof -
  let ?p = "pkt tb"
  have w: "20 \<le> length ?p" "ihl4 ?p + 4 \<le> length ?p"
    using wf wf_packetD [of ?p] by (auto simp: payload_wf_def)
  note L = lookupPortMapQ1_entry [OF inv h, where np = "dport_of ?p" and dp = "sport_of ?p"]
  then obtain r where r: "lookupPortMapQ1 (dport_of ?p) (src_of ?p) (sport_of ?p) (ap_entryList s) = Inr r"
    by (auto split: sum.splits)
  show ?thesis
  proof (cases r)
    case None
    then show ?thesis using L r w dst wf by (auto simp: ap_step_simps)
  next
    case (Some q)
    then obtain x n where x: "deref (ap_entryList s) q = Inr (Cell x n)"
      "port_abs (ap_entryList s) (am_src_addr x, am_src_port x, src_of ?p, sport_of ?p) = Some (dport_of ?p)"
      using L r by (auto simp: flow4_of_def)
    obtain b c d v where v: "st16 ?p (ihl4 ?p + 2) (am_src_port x) = Inr b" "wr b 16 (ip4_bytes (am_src_addr x)) = Inr c"
      "fix_checksums c = Inr d" "nfq_accept (pkt_id tb) (nfad_len tb) d = Inr v"
      "accepts_translated 2 (am_src_port x) 16 (am_src_addr x) tb v"
      using finish_translated [OF wf, of 2 16 "am_src_port x" "am_src_addr x"] by auto
    have "ap_handle_pkt e tb 1 qh s = Inr (Some v, s)"
      using w dst wf r Some x(1) v by (simp add: ap_step_simps)
    then show ?thesis using x(2) v(5) by blast
  qed
qed

section \<open>Every outcome\<close>

text \<open>The library delivers at least an IP header with every packet, or a negative length.\<close>

definition nfq_header :: "'p nfq_data_scheme \<Rightarrow> bool" where
  "nfq_header tb \<longleftrightarrow> nfad_len tb < 0 \<or> 20 \<le> nfad_len tb"

lemma addPortData_outcome:
  assumes inv: "pq_inv pq" and l: "20 \<le> nfad_len tb"
  shows "case addPortData e qh (pkt_id tb) (nfad_len tb) (pkt tb) (dst_of (pkt tb)) pq of
      Inl f \<Rightarrow> f = OutOfBounds | Inr (p, pq') \<Rightarrow> pq_inv pq'"
proof -
  let ?h = "AP_HASH_FUNC (dst_of (pkt tb))"
  have b: "push_front x ?h pq = Inl OutOfBounds" if "\<not> ?h < AP_MAXENTRY" for x
    using that inv by (simp add: pq_inv_def push_front_def head_def)
  show ?thesis
    using addPortData_new [OF inv _ _ l, where e = e and qh = qh] inv b
    by (cases "calloc_ok e sizeof_PortData"; cases "?h < AP_MAXENTRY")
      (auto simp: addPortData_def rd_def wr_def slice_def nat_le_iff)
qed

lemma lookupPortMapQ0_cases:
  assumes inv: "ap_nat_inv t"
  obtains "lookupPortMapQ0 s sp d dp t = Inl OutOfBounds" | "lookupPortMapQ0 s sp d dp t = Inr None"
    | q c where "lookupPortMapQ0 s sp d dp t = Inr (Some q)" "deref t q = Inr c"
  using lookupPortMapQ0_entry [OF inv, of d s sp dp] lookupPortMapQ0_bounds [OF inv, of d s sp dp]
  by (cases "AP_HASH_FUNC d < AP_MAXENTRY") (auto split: sum.splits option.splits)

lemma lookupPortMapQ1_cases:
  assumes inv: "ap_nat_inv t"
  obtains "lookupPortMapQ1 np d dp t = Inl OutOfBounds" | "lookupPortMapQ1 np d dp t = Inr None"
    | q c where "lookupPortMapQ1 np d dp t = Inr (Some q)" "deref t q = Inr c"
  using lookupPortMapQ1_entry [OF inv, where d = d and np = np and dp = dp] inv
  by (cases "AP_HASH_FUNC d < AP_MAXENTRY")
    (auto simp: lookupPortMapQ1_def find_in_bounds ap_nat_inv_def split: sum.splits option.splits)

lemma st16_error: "st16 d i w = Inl f \<Longrightarrow> f = OutOfBounds"
  by (auto simp: st16_def wr_def split: if_splits)

lemma wr_error: "wr d i xs = Inl f \<Longrightarrow> f = OutOfBounds"
  by (auto simp: wr_def split: if_splits)

definition ap_frame :: "'s ap_state_scheme \<Rightarrow> 's ap_state_scheme \<Rightarrow> bool" where
  "ap_frame s s' \<longleftrightarrow> (\<exists>pq th. s' = s\<lparr>portQueue := pq, port_entry_threads := port_entry_threads s @ th\<rparr> \<and> pq_inv pq)"

lemma ap_frame_refl: "pq_inv (portQueue s) \<Longrightarrow> ap_frame s s"
  unfolding ap_frame_def by (intro exI [of _ "portQueue s"] exI [of _ "[]"]) simp

lemma ap_frame_spawn:
  "pq_inv pq \<Longrightarrow> ap_frame s (s\<lparr>portQueue := pq, port_entry_threads := spawn e x (port_entry_threads s)\<rparr>)"
  unfolding ap_frame_def spawn_def
  by (intro exI [of _ pq] exI [of _ "if pthread_ok e then [x] else []"]) simp

lemma ap_finish_outcome:
  "case ap_finish pid ret r of Inl f \<Rightarrow> f = OutOfBounds | Inr v \<Rightarrow> v = None \<longrightarrow> r = Wait"
proof (cases r)
  case (Rewritten d)
  then show ?thesis
    by (cases "fix_checksums d") (auto simp: ap_finish_def nfq_accept_def rd_def dest: fix_checksums_error)
qed (simp_all add: ap_finish_def)

lemma ap_outbound_outcome:
  assumes inv: "ap_inv s" and l: "20 \<le> nfad_len tb"
  shows "case ap_outbound e qh (pkt_id tb) tb s of
      Inl f \<Rightarrow> f = OutOfBounds \<or> f = NullDeref | Inr (r, s') \<Rightarrow> ap_frame s s'"
proof -
  let ?d = "pkt tb"
  have i: "ap_nat_inv (ap_entryList s)" "pq_inv (portQueue s)" using inv by (simp_all add: ap_inv_def)
  note fr = ap_frame_refl [OF i(2)]
  show ?thesis
  proof (cases "20 \<le> length ?d \<and> in_subnet (ap_subnet s) (src_of ?d)")
    case False
    then show ?thesis using fr
      by (cases "20 \<le> length ?d") (auto simp: ap_outbound_def ip_header_eq ip_header_short not_le)
  next
    case t: True
    show ?thesis
    proof (cases "ihl4 ?d + 4 \<le> length ?d")
      case False
      then have "transport_at ?d (ihl4 ?d) = Inl OutOfBounds"
        by (auto simp: transport_at_def bindE_eq_Inl ld16_def)
      then show ?thesis using t by (simp add: ap_outbound_def ip_header_eq hdr_len_def ihl4_def [symmetric])
    next
      case True
      note st = ap_outbound_def ip_header_eq hdr_len_def ihl4_def [symmetric] transport_at_eq PORT_TRANSLATION_def Let_def
      show ?thesis using i(1)
      proof (cases rule: lookupPortMapQ0_cases [of "ap_entryList s" "src_of ?d" "sport_of ?d" "dst_of ?d" "dport_of ?d"])
        case 1
        then show ?thesis using t True by (simp add: st)
      next
        case 2
        then show ?thesis
          using t True addPortData_outcome [OF i(2) l, where e = e and qh = qh]
          by (auto simp: st new_request_def bindE_eq_Inl bindE_eq_Inr intro: ap_frame_spawn
              split: sum.splits option.splits)
      next
        case (3 q c)
        then show ?thesis using t True fr
          by (auto simp: st bindE_eq_Inl bindE_eq_Inr dest: st16_error wr_error split: sum.splits)
      qed
    qed
  qed
qed

lemma ap_inbound_error:
  assumes inv: "ap_nat_inv (ap_entryList s)" and f: "ap_inbound d s = Inl f"
  shows "f = OutOfBounds"
proof -
  have "f = OutOfBounds" if "dst_addr ipH = ap_ifIP s" "transport_at d (hdr_len ipH) = Inr tH"
    "ip_header d = Inr ipH" for ipH tH
    using inv
  proof (cases rule: lookupPortMapQ1_cases [of "ap_entryList s" "dst_port tH" "src_addr ipH" "src_port tH"])
    case (3 q c)
    then show ?thesis using f that
      by (auto simp: ap_inbound_def PORT_TRANSLATION_def bindE_eq_Inl dest: st16_error wr_error)
  qed (use f that in \<open>auto simp: ap_inbound_def PORT_TRANSLATION_def\<close>)
  then show ?thesis
    using f by (auto simp: ap_inbound_def bindE_eq_Inl dest: ip_header_error transport_at_error split: if_splits)
qed

lemma ap_handle_pkt_outcome:
  assumes inv: "ap_inv s" and l: "nfq_header tb"
  shows "case ap_handle_pkt e tb num qh s of
      Inl f \<Rightarrow> f = OutOfBounds \<or> f = NullDeref | Inr (v, s') \<Rightarrow> ap_frame s s' \<and> (v = None \<longrightarrow> num = 0)"
proof -
  have i: "ap_nat_inv (ap_entryList s)" "pq_inv (portQueue s)" using inv by (simp_all add: ap_inv_def)
  note fr = ap_frame_refl [OF i(2)]
  note fin = bindE_eq_Inl bindE_eq_Inr nfq_accept_def rd_def Let_def
  consider "nfad_len tb < 0" | "20 \<le> nfad_len tb" "num = 0" | "0 \<le> nfad_len tb" "num \<noteq> 0"
    using l by (cases "num = 0") (auto simp: nfq_header_def)
  then show ?thesis
  proof cases
    case 1
    then show ?thesis using fr by (simp add: ap_handle_pkt_def)
  next
    case 2
    then show ?thesis
      using ap_outbound_outcome [OF inv 2(1), where e = e and qh = qh]
        ap_finish_outcome [where pid = "pkt_id tb" and ret = "nfad_len tb" and r = "fst (projr (ap_outbound e qh (pkt_id tb) tb s))"]
      by (auto simp: ap_handle_pkt_def Let_def pkt_id_def [symmetric] bindE_eq_Inl bindE_eq_Inr split: sum.splits)
  next
    case 3
    have w: "r \<noteq> Wait" if "ap_inbound (pkt tb) s = Inr r" for r
      using that by (auto simp: ap_inbound_def bindE_eq_Inr split: if_splits option.splits)
    show ?thesis
      using 3 fr w ap_inbound_error [OF i(1)]
        ap_finish_outcome [where pid = "pkt_id tb" and ret = "nfad_len tb" and r = Pass]
        ap_finish_outcome [where pid = "pkt_id tb" and ret = "nfad_len tb" and r = "projr (ap_inbound (pkt tb) s)"]
      by (auto simp: ap_handle_pkt_def Let_def pkt_id_def [symmetric] bindE_eq_Inl bindE_eq_Inr
          dest: ip_header_error split: sum.splits)
  qed
qed

lemma ap_frame_inv: "ap_frame s s' \<Longrightarrow> ap_inv s \<Longrightarrow> ap_inv s'"
  by (auto simp: ap_frame_def ap_inv_def)

lemma ap_frame_trans: "ap_frame s s' \<Longrightarrow> ap_frame s' s'' \<Longrightarrow> ap_frame s s''"
  unfolding ap_frame_def by (elim exE conjE, intro exI conjI) auto

lemma ap_packets_outcome:
  assumes "ap_inv s" "\<forall>tb \<in> set nfas. nfq_header tb"
  shows "case ap_nfq_handle_packet e qh num nfas s of
      Inl f \<Rightarrow> f = OutOfBounds \<or> f = NullDeref | Inr (vs, s') \<Rightarrow> ap_frame s s' \<and> length vs = length nfas"
  using assms
proof (induction nfas arbitrary: s)
  case Nil
  then show ?case by (simp add: ap_frame_refl ap_inv_def)
next
  case (Cons nfa nfas)
  note o = ap_handle_pkt_outcome [OF Cons.prems(1), of nfa, where e = e and num = num and qh = qh]
  show ?case
  proof (cases "ap_handle_pkt e nfa num qh s")
    case (Inr y)
    obtain v s1 where y: "y = (v, s1)" by (cases y)
    have f: "ap_frame s s1" using o Cons.prems(2) Inr y by simp
    note IH = Cons.IH [OF ap_frame_inv [OF f Cons.prems(1)]]
    show ?thesis
      using IH Cons.prems(2) Inr y ap_frame_trans [OF f]
      by (auto simp: ap_cb_def bindE_eq_Inl bindE_eq_Inr split: sum.splits)
  qed (use o Cons.prems(2) in \<open>simp add: ap_cb_def\<close>)
qed

definition poll_ok :: "'p nfq_data_scheme poll \<Rightarrow> bool" where
  "poll_ok p \<longleftrightarrow> (case p of Received rv nfas \<Rightarrow> \<forall>tb \<in> set nfas. nfq_header tb | _ \<Rightarrow> True)"

definition ap_loop_frame :: "'s ap_state_scheme \<Rightarrow> 's ap_state_scheme \<Rightarrow> bool" where
  "ap_loop_frame s s' \<longleftrightarrow> (\<exists>s1. ap_frame s s1 \<and> (s' = s1 \<or> s' = s1\<lparr>ap_loop_terminate := False\<rparr>))"

lemma ap_loop_frame_inv: "ap_loop_frame s s' \<Longrightarrow> ap_inv s \<Longrightarrow> ap_inv s'"
  by (auto simp: ap_loop_frame_def ap_frame_def ap_inv_def)

lemma ap_round_outcome:
  assumes inv: "ap_inv s" and ok: "poll_ok p"
  shows "case ap_recv_round e qh num p rv s of
      Inl f \<Rightarrow> f = OutOfBounds \<or> f = NullDeref \<or> (f = Exit 1 \<and> p = Select_fails)
    | Inr (rv', vs, s') \<Rightarrow> ap_loop_frame s s'"
proof -
  have fr: "ap_frame s s" using inv by (simp add: ap_frame_refl ap_inv_def)
  show ?thesis
  proof (cases p)
    case (Received r nfas)
    have o: "case ap_nfq_handle_packet e qh num nfas s of
        Inl f \<Rightarrow> f = OutOfBounds \<or> f = NullDeref | Inr (vs, s') \<Rightarrow> ap_frame s s' \<and> length vs = length nfas"
      using ok Received by (intro ap_packets_outcome [OF inv]) (simp add: poll_ok_def)
    show ?thesis
    proof (cases "r \<le> 0")
      case True
      then show ?thesis using Received fr by (auto simp: ap_loop_frame_def)
    next
      case False
      then show ?thesis using Received o
        by (cases "ap_nfq_handle_packet e qh num nfas s") (auto simp: ap_loop_frame_def)
    qed
  qed (use fr in \<open>auto simp: ap_loop_frame_def\<close>)
qed

text \<open>A packet that is in the buffer as a whole, and small enough to wait.\<close>

definition whole_packet :: "'p nfq_data_scheme \<Rightarrow> bool" where
  "whole_packet tb \<longleftrightarrow> payload_wf tb \<and> int (tot_len (pkt tb)) \<le> nfad_len tb \<and>
     nfad_len tb \<le> int MAX_PACKET_SIZE \<and> tot_len (pkt tb) < MAX_PACKET_SIZE"

lemma whole_packetD:
  assumes "whole_packet tb"
  shows "wf_packet (pkt tb)" "20 \<le> nfad_len tb" "tot_len (pkt tb) \<le> nat (nfad_len tb)"
    "nat (nfad_len tb) \<le> length (pkt tb)" "nat (nfad_len tb) \<le> MAX_PACKET_SIZE"
proof -
  show wf: "wf_packet (pkt tb)" using assms by (simp add: whole_packet_def payload_wf_def)
  show "20 \<le> nfad_len tb" using wf_packetD(1,2) [OF wf] assms by (simp add: whole_packet_def)
  show "tot_len (pkt tb) \<le> nat (nfad_len tb)" "nat (nfad_len tb) \<le> length (pkt tb)"
    "nat (nfad_len tb) \<le> MAX_PACKET_SIZE"
    using assms by (simp_all add: whole_packet_def payload_wf_def nat_le_iff le_nat_iff)
qed

lemma pd_of_packet:
  assumes "whole_packet tb"
  shows "agree (nat (nfad_len tb)) (pkt tb) (pd_packet (pd_of qh tb))"
    "wf_packet (pd_packet (pd_of qh tb))" "pd_flow (pd_of qh tb) = flow4_at (pkt tb)"
proof -
  note w = whole_packetD [OF assms]
  show a: "agree (nat (nfad_len tb)) (pkt tb) (pd_packet (pd_of qh tb))"
    unfolding pd_of_def PortData.simps by (rule agree_padded [OF w(4,5)])
  show "wf_packet (pd_packet (pd_of qh tb))"
    unfolding pd_of_def PortData.simps
    by (rule wf_packet_padded [OF w(1,3,4,5)]) (use assms in \<open>simp add: whole_packet_def\<close>)
  have "20 \<le> nat (nfad_len tb)" "ihl4 (pkt tb) + 4 \<le> nat (nfad_len tb)"
    using w(2,3) wf_packetD(2) [OF w(1)] by auto
  then show "pd_flow (pd_of qh tb) = flow4_at (pkt tb)"
    using agree_fields [OF a] a by (auto simp: flow4_at_def sport_of_def dport_of_def agree_def)
qed

lemma release_pd_of:
  assumes wp: "whole_packet tb" and v: "accepts_translated 0 (am_new_port x) 12 ip tb v"
  shows "release x ip (pd_of qh tb) = (qh, v)"
proof -
  note w = whole_packetD [OF wp] and z = pd_of_packet [OF wp, of qh]
  obtain d e where de: "translate 0 (am_new_port x) 12 ip (pkt tb) = Inr d"
    "translate 0 (am_new_port x) 12 ip (pd_packet (pd_of qh tb)) = Inr e" "agree (nat (nfad_len tb)) d e"
    using translate_agree [OF z(1) w(1) z(2) w(3), of 0 12] by blast
  have "v = NF_ACCEPT (pkt_id tb) (Some (take (nat (nfad_len tb)) d))"
    using v de(1) by (auto simp: accepts_translated_def)
  then show ?thesis using de(2,3) by (simp add: release_def agree_take) (simp add: pd_of_def)
qed

text \<open>An access point that has given the flow of \<open>demo_query\<close> a port, with that packet still waiting,
  and the answer from outside.\<close>

definition demo_ap_tb :: "buf \<Rightarrow> ap_nfq_data" where
  "demo_ap_tb d = \<lparr>nfad_hdr = Some 7, nfad_len = 28, nfad_data = d, nfad_hw = Some (MAC 2 0 0 0 0 1)\<rparr>"

definition demo_ap_env :: ap_env where
  "demo_ap_env = \<lparr>calloc_ok = (\<lambda>_. True), send_ret = (\<lambda>_. 8), rand_ret = 5, pthread_ok = True\<rparr>"

definition demo_entry :: ap_natMap where
  "demo_entry = \<lparr>am_src_addr = IP4 192 168 5 2, am_dst_addr = IP4 8 8 8 8, am_src_port = le16 0xc0 1,
     am_dst_port = le16 0 53, am_new_port = le16 0x12 0x34\<rparr>"

definition demo_ap :: ap_state where
  "demo_ap = \<lparr>ap_entryList = \<lparr>table = (replicate 255 None)[8 := Some 0], cells = [Some (Cell demo_entry None)]\<rparr>,
     portQueue = \<lparr>table = (replicate 255 None)[8 := Some 0], cells = [Some (Cell (pd_of 0 (demo_ap_tb demo_query)) None)]\<rparr>,
     ap_ifIP = IP4 10 0 0 1, ap_subnet = ''192.168.5'', ap_loop_terminate = True, nat_entry_threads = [],
     port_entry_threads = [], reinject_threads = []\<rparr>"

definition demo_ap_answer :: buf where
  "demo_ap_answer = [0x45, 0, 0, 28, 0, 2, 0x40, 0, 60, 17, 0, 0, 8, 8, 8, 8, 10, 0, 0, 1,
     0, 53, 0x12, 0x34, 0, 8, 0, 0]"

lemma demo_ap_fields:
  "wf_packet demo_query" "wf_packet demo_ap_answer" "length demo_query = 28" "length demo_ap_answer = 28"
  "tot_len demo_query = 28" "flow4_at demo_query = (IP4 192 168 5 2, le16 0xc0 1, IP4 8 8 8 8, le16 0 53)"
  "flow4_at demo_ap_answer = (IP4 8 8 8 8, le16 0 53, IP4 10 0 0 1, le16 0x12 0x34)"
  "in_subnet ''192.168.5'' (IP4 192 168 5 2)"
  by code_simp+

lemma demo_ap_addrs:
  "src_of demo_query = IP4 192 168 5 2" "sport_of demo_query = le16 0xc0 1" "dst_of demo_query = IP4 8 8 8 8"
  "dport_of demo_query = le16 0 53" "src_of demo_ap_answer = IP4 8 8 8 8" "sport_of demo_ap_answer = le16 0 53"
  "dst_of demo_ap_answer = IP4 10 0 0 1" "dport_of demo_ap_answer = le16 0x12 0x34"
  using demo_ap_fields(6,7) by (simp_all add: flow4_at_def)

lemma demo_ap_whole: "whole_packet (demo_ap_tb demo_query)" "payload_wf (demo_ap_tb demo_ap_answer)"
  by (simp_all add: whole_packet_def payload_wf_def demo_ap_tb_def demo_ap_fields MAX_PACKET_SIZE_def)

lemma demo_entryList:
  "ap_nat_inv (ap_entryList demo_ap)" "port_abs (ap_entryList demo_ap) = [flow4_at demo_query \<mapsto> le16 0x12 0x34]"
proof -
  have "assign_port demo_ap_env (le16 0xc0 1) (IP4 192 168 5 2) (le16 0 53) (IP4 8 8 8 8) (le16 0x12 0x34)
      (chains_init AP_MAXENTRY) = Inr (Some 0, ap_entryList demo_ap)"
    by (simp add: assign_port_def PORT_TRANSLATION_def lookupPortMapQ0_def find_in_def head_def chains_init_def
        AP_MAXENTRY_def find_from.simps ap_addEntry_def demo_ap_env_def push_front_def alloc_def set_head_def
        upd_item_def deref_def set_cell_def new_ap_natMap_def demo_ap_def demo_entry_def)
  then show "ap_nat_inv (ap_entryList demo_ap)"
    "port_abs (ap_entryList demo_ap) = [flow4_at demo_query \<mapsto> le16 0x12 0x34]"
    using assign_port_outcome [OF ap_nat_inv_init, where e = demo_ap_env and sp = "le16 0xc0 1" and s = "IP4 192 168 5 2"
        and dp = "le16 0 53" and d = "IP4 8 8 8 8" and np = "le16 0x12 0x34"] port_abs_init
    by (auto simp: demo_ap_fields fun_eq_iff)
qed

lemma demo_queue:
  "pq_inv (portQueue demo_ap)" "waiting (portQueue demo_ap) 8 = [pd_of 0 (demo_ap_tb demo_query)]"
proof -
  let ?tb = "demo_ap_tb demo_query"
  have p: "pkt ?tb = demo_query" "nfad_len ?tb = 28" by (simp_all add: demo_ap_tb_def)
  have "addPortData demo_ap_env 0 (pkt_id ?tb) (nfad_len ?tb) (pkt ?tb) (dst_of (pkt ?tb))
      (chains_init AP_MAXENTRY) = Inr (Some 0, portQueue demo_ap)"
    using demo_ap_fields(3)
    by (simp add: addPortData_def demo_ap_env_def rd_def wr_def slice_def p demo_ap_addrs MAX_PACKET_SIZE_def
        push_front_def head_def chains_init_def AP_MAXENTRY_def alloc_def set_head_def demo_ap_def pd_of_def)
  moreover have "calloc_ok demo_ap_env sizeof_PortData" "AP_HASH_FUNC (dst_of (pkt ?tb)) = 8" "20 \<le> nfad_len ?tb"
    "nfad_len ?tb \<le> int (length (pkt ?tb))" "nfad_len ?tb \<le> int MAX_PACKET_SIZE"
    using demo_ap_fields(3) by (simp_all add: demo_ap_env_def p demo_ap_addrs MAX_PACKET_SIZE_def)
  ultimately show "pq_inv (portQueue demo_ap)" "waiting (portQueue demo_ap) 8 = [pd_of 0 ?tb]"
    using addPortData_new [OF pq_inv_init, where e = demo_ap_env and qh = 0 and tb = ?tb]
    by (auto simp: AP_MAXENTRY_def waiting_def)
qed

section \<open>Properties\<close>

text \<open>C27. Packets that wait for a port leave when \<open>reinject_pkt\<close> runs for their flow: every waiting
  packet of the flow is accepted with the translated port and the access point's address (see
  \<open>release\<close>), the newest first, and is taken off the queue; the packets of other flows keep their
  place, and the queue stays well formed.\<close>

theorem ap_reinject:
  assumes "deref (ap_entryList s) q = Inr (Cell x n)" "pq_inv (portQueue s)"
    "AP_HASH_FUNC (am_dst_addr x) < AP_MAXENTRY"
    "\<forall>pd \<in> set (waiting (portQueue s) (AP_HASH_FUNC (am_dst_addr x))).
      pd_flow pd = flow4_of x \<longrightarrow> wf_packet (pd_packet pd)"
  shows "\<exists>pq. reinject_pkt q s = Inr (map (release x (ap_ifIP s)) (filter (\<lambda>pd. pd_flow pd = flow4_of x)
        (waiting (portQueue s) (AP_HASH_FUNC (am_dst_addr x)))), s\<lparr>portQueue := pq\<rparr>) \<and> pq_inv pq \<and>
    (\<forall>k < AP_MAXENTRY. waiting pq k = filter (\<lambda>pd. pd_flow pd \<noteq> flow4_of x) (waiting (portQueue s) k))"
  by (rule reinject_flow [OF assms])

theorem ap_reinject_witness:
  "\<exists>pq. reinject_pkt 0 demo_ap = Inr ([release demo_entry (IP4 10 0 0 1) (pd_of 0 (demo_ap_tb demo_query))],
      demo_ap\<lparr>portQueue := pq\<rparr>) \<and> pq_inv pq \<and> waiting pq 8 = []"
proof -
  have e: "deref (ap_entryList demo_ap) 0 = Inr (Cell demo_entry None)" "AP_HASH_FUNC (am_dst_addr demo_entry) = 8"
    "flow4_of demo_entry = flow4_at demo_query" "ap_ifIP demo_ap = IP4 10 0 0 1"
    by (simp_all add: demo_ap_def deref_def demo_entry_def flow4_of_def demo_ap_fields)
  have p: "pd_flow (pd_of 0 (demo_ap_tb demo_query)) = flow4_at demo_query" "wf_packet (pd_packet (pd_of 0 (demo_ap_tb demo_query)))"
    using pd_of_packet(2,3) [OF demo_ap_whole(1)] by (auto simp: demo_ap_tb_def)
  have "(8 :: nat) < AP_MAXENTRY" by (simp add: AP_MAXENTRY_def)
  moreover from this ap_reinject [OF e(1) demo_queue(1)] obtain pq where
    "reinject_pkt 0 demo_ap = Inr ([release demo_entry (IP4 10 0 0 1) (pd_of 0 (demo_ap_tb demo_query))],
      demo_ap\<lparr>portQueue := pq\<rparr>)" "pq_inv pq"
    "\<forall>k < AP_MAXENTRY. waiting pq k = filter (\<lambda>pd. pd_flow pd \<noteq> flow4_at demo_query) (waiting (portQueue demo_ap) k)"
    using demo_queue(2) e(2-4) p by auto
  ultimately show ?thesis using demo_queue(2) p(1) by auto
qed

text \<open>A packet that waits for the port of its flow, once the flow has one.\<close>

lemma waiting_leaves:
  assumes inv: "ap_inv s" and tb: "whole_packet tb"
    and cl: "in_subnet (ap_subnet s) (src_of (pkt tb))" "AP_HASH_FUNC (dst_of (pkt tb)) \<noteq> 255"
    and x: "deref (ap_entryList s) q = Inr (Cell x m)" "flow4_of x = flow4_at (pkt tb)"
      "port_abs (ap_entryList s) (flow4_at (pkt tb)) = Some (am_new_port x)"
    and w: "waiting (portQueue s) (AP_HASH_FUNC (dst_of (pkt tb))) = pd_of qh tb # ws"
      "\<forall>pd \<in> set ws. pd_flow pd = flow4_at (pkt tb) \<longrightarrow> wf_packet (pd_packet pd)"
  obtains v s2 where "ap_handle_pkt e tb 0 qh s = Inr (Some v, s)" "accepts_translated 0 (am_new_port x) 12 (ap_ifIP s) tb v"
    "reinject_pkt q s = Inr ((qh, v) # map (release x (ap_ifIP s)) (filter (\<lambda>pd. pd_flow pd = flow4_at (pkt tb)) ws), s2)"
    "\<forall>k < AP_MAXENTRY. \<forall>pd \<in> set (waiting (portQueue s2) k). pd_flow pd \<noteq> flow4_at (pkt tb)"
proof -
  let ?p = "pkt tb"
  have h: "AP_HASH_FUNC (dst_of ?p) < AP_MAXENTRY" using cl(2) AP_HASH_FUNC_bound by simp
  have i: "ap_nat_inv (ap_entryList s)" "pq_inv (portQueue s)" using inv by (simp_all add: ap_inv_def)
  have pw: "payload_wf tb" using tb by (simp add: whole_packet_def)
  obtain v where v: "ap_handle_pkt e tb 0 qh s = Inr (Some v, s)" "accepts_translated 0 (am_new_port x) 12 (ap_ifIP s) tb v"
    using ap_out_known [OF pw, of s "am_new_port x", where e = e and qh = qh] i(1) x(3) cl(1) by auto
  have hx: "am_dst_addr x = dst_of ?p" using x(2) by (simp add: flow4_of_def flow4_at_def)
  have "\<forall>pd \<in> set (waiting (portQueue s) (AP_HASH_FUNC (dst_of ?p))). pd_flow pd = flow4_at ?p \<longrightarrow> wf_packet (pd_packet pd)"
    using w pd_of_packet(2) [OF tb] by simp
  then obtain pq where r: "reinject_pkt q s = Inr (map (release x (ap_ifIP s))
      (filter (\<lambda>pd. pd_flow pd = flow4_at ?p) (waiting (portQueue s) (AP_HASH_FUNC (dst_of ?p)))), s\<lparr>portQueue := pq\<rparr>)"
    "\<forall>k < AP_MAXENTRY. waiting pq k = filter (\<lambda>pd. pd_flow pd \<noteq> flow4_at ?p) (waiting (portQueue s) k)"
    using reinject_flow [OF x(1) i(2)] x(2) h hx by auto
  have "reinject_pkt q s = Inr ((qh, v) # map (release x (ap_ifIP s)) (filter (\<lambda>pd. pd_flow pd = flow4_at ?p) ws), s\<lparr>portQueue := pq\<rparr>)"
    using r(1) w(1) pd_of_packet(3) [OF tb] release_pd_of [OF tb v(2)] by simp
  with v r(2) show thesis by (intro that) auto
qed

text \<open>C16. A packet that waited leaves as it would have left had its flow been known: when a client's
  packet starts a flow, and the controller then assigns the flow a port and \<open>reinject_pkt\<close> runs, the
  first verdict of \<open>reinject_pkt\<close> is the verdict that \<open>handle_pkt\<close> gives for the same packet after the
  assignment; the packets of the flow that waited before follow, and none waits any longer.\<close>

theorem ap_wait_equivalent:
  assumes inv: "ap_inv s" and tb: "whole_packet tb" "nfad_hw tb = Some hw"
    and cl: "in_subnet (ap_subnet s) (src_of (pkt tb))" "AP_HASH_FUNC (dst_of (pkt tb)) \<noteq> 255"
    and new: "port_abs (ap_entryList s) (flow4_at (pkt tb)) = None"
    and old: "\<forall>pd \<in> set (waiting (portQueue s) (AP_HASH_FUNC (dst_of (pkt tb)))).
      pd_flow pd = flow4_at (pkt tb) \<longrightarrow> wf_packet (pd_packet pd)"
    and ok: "\<forall>k. calloc_ok e k"
  shows "\<exists>s1 q t v x s2. ap_handle_pkt e tb 0 qh s = Inr (None, s1) \<and>
    assign_port e (sport_of (pkt tb)) (src_of (pkt tb)) (dport_of (pkt tb)) (dst_of (pkt tb)) np (ap_entryList s1) = Inr (Some q, t) \<and>
    ap_handle_pkt e tb 0 qh (s1\<lparr>ap_entryList := t\<rparr>) = Inr (Some v, s1\<lparr>ap_entryList := t\<rparr>) \<and>
    am_new_port x = np \<and>
    reinject_pkt q (s1\<lparr>ap_entryList := t\<rparr>) = Inr ((qh, v) # map (release x (ap_ifIP s))
      (filter (\<lambda>pd. pd_flow pd = flow4_at (pkt tb)) (waiting (portQueue s) (AP_HASH_FUNC (dst_of (pkt tb))))), s2) \<and>
    (\<forall>k < AP_MAXENTRY. \<forall>pd \<in> set (waiting (portQueue s2) k). pd_flow pd \<noteq> flow4_at (pkt tb))"
proof -
  let ?p = "pkt tb" and ?h = "AP_HASH_FUNC (dst_of (pkt tb))"
  have h: "?h < AP_MAXENTRY" using cl(2) AP_HASH_FUNC_bound by simp
  have pw: "payload_wf tb" "nfad_len tb \<le> int MAX_PACKET_SIZE" using tb(1) by (simp_all add: whole_packet_def)
  obtain pq where pq: "ap_handle_pkt e tb 0 qh s = Inr (None, s\<lparr>portQueue := pq,
      port_entry_threads := spawn e (request_of hw ?p) (port_entry_threads s)\<rparr>)" "pq_inv pq"
    "\<forall>k < AP_MAXENTRY. waiting pq k = (if k = ?h then pd_of qh tb # waiting (portQueue s) k else waiting (portQueue s) k)"
    using ap_out_new [OF pw(1) whole_packetD(2) [OF tb(1)] pw(2) inv cl(1) h new _ _ tb(2)] ok by blast
  define s1 where "s1 = s\<lparr>portQueue := pq, port_entry_threads := spawn e (request_of hw ?p) (port_entry_threads s)\<rparr>"
  have s1: "ap_entryList s1 = ap_entryList s" "ap_ifIP s1 = ap_ifIP s" "ap_subnet s1 = ap_subnet s" "portQueue s1 = pq"
    by (simp_all add: s1_def)
  have i: "ap_nat_inv (ap_entryList s)" using inv by (simp add: ap_inv_def)
  obtain q t x m where t: "assign_port e (sport_of ?p) (src_of ?p) (dport_of ?p) (dst_of ?p) np (ap_entryList s1) = Inr (Some q, t)"
    "ap_nat_inv t" "port_abs t = (port_abs (ap_entryList s))(flow4_at ?p \<mapsto> np)"
    "deref t q = Inr (Cell x m)" "flow4_of x = flow4_at ?p" "am_new_port x = np"
    using assign_port_outcome [OF i, where e = e and sp = "sport_of ?p" and s = "src_of ?p" and dp = "dport_of ?p"
        and d = "dst_of ?p" and np = np] cl(2) ok
    by (auto simp: s1(1) flow4_at_def split: sum.splits)
  let ?s = "s1\<lparr>ap_entryList := t\<rparr>"
  have f: "ap_inv ?s" "in_subnet (ap_subnet ?s) (src_of ?p)" "waiting (portQueue ?s) ?h = pd_of qh tb # waiting (portQueue s) ?h" "ap_ifIP ?s = ap_ifIP s"
    using t(2) pq(2,3) cl(1) s1 h by (simp_all add: ap_inv_def)
  have g: "deref (ap_entryList ?s) q = Inr (Cell x m)" "port_abs (ap_entryList ?s) (flow4_at ?p) = Some (am_new_port x)"
    using t(3,4,6) by simp_all
  obtain v s2 where v: "ap_handle_pkt e tb 0 qh ?s = Inr (Some v, ?s)"
    "reinject_pkt q ?s = Inr ((qh, v) # map (release x (ap_ifIP s)) (filter (\<lambda>pd. pd_flow pd = flow4_at ?p) (waiting (portQueue s) ?h)), s2)"
    "\<forall>k < AP_MAXENTRY. \<forall>pd \<in> set (waiting (portQueue s2) k). pd_flow pd \<noteq> flow4_at ?p"
    by (rule waiting_leaves [OF f(1) tb(1) f(2) cl(2) g(1) t(5) g(2) f(3) old, of e, unfolded f(4)])
  then show ?thesis using pq(1) [folded s1_def] t(1,6) by blast
qed

theorem ap_wait_equivalent_witness:
  "\<exists>s1 q t v s2. ap_handle_pkt demo_ap_env (demo_ap_tb demo_query) 0 5 (demo_ap\<lparr>ap_entryList := chains_init AP_MAXENTRY\<rparr>) = Inr (None, s1) \<and>
    assign_port demo_ap_env (le16 0xc0 1) (IP4 192 168 5 2) (le16 0 53) (IP4 8 8 8 8) 99 (ap_entryList s1) = Inr (Some q, t) \<and>
    ap_handle_pkt demo_ap_env (demo_ap_tb demo_query) 0 5 (s1\<lparr>ap_entryList := t\<rparr>) = Inr (Some v, s1\<lparr>ap_entryList := t\<rparr>) \<and>
    (\<exists>vs. reinject_pkt q (s1\<lparr>ap_entryList := t\<rparr>) = Inr ((5, v) # vs, s2))"
proof -
  let ?s = "demo_ap\<lparr>ap_entryList := chains_init AP_MAXENTRY\<rparr>" and ?tb = "demo_ap_tb demo_query"
  have p: "pkt ?tb = demo_query" "nfad_hw ?tb = Some (MAC 2 0 0 0 0 1)" by (simp_all add: demo_ap_tb_def)
  have "ap_inv ?s" using demo_queue(1) by (simp add: ap_inv_def ap_nat_inv_init)
  moreover have "in_subnet (ap_subnet ?s) (src_of (pkt ?tb))" "AP_HASH_FUNC (dst_of (pkt ?tb)) \<noteq> 255"
    by (simp_all add: p demo_ap_def demo_ap_addrs demo_ap_fields)
  moreover have "port_abs (ap_entryList ?s) (flow4_at (pkt ?tb)) = None" by (simp add: port_abs_init)
  moreover have "\<forall>pd \<in> set (waiting (portQueue ?s) (AP_HASH_FUNC (dst_of (pkt ?tb)))).
      pd_flow pd = flow4_at (pkt ?tb) \<longrightarrow> wf_packet (pd_packet pd)"
    using demo_queue(2) pd_of_packet(2) [OF demo_ap_whole(1)] by (simp add: p demo_ap_addrs)
  moreover have "\<forall>k. calloc_ok demo_ap_env k" by (simp add: demo_ap_env_def)
  ultimately have "\<exists>s1 q t v x s2. ap_handle_pkt demo_ap_env ?tb 0 5 ?s = Inr (None, s1) \<and>
      assign_port demo_ap_env (sport_of (pkt ?tb)) (src_of (pkt ?tb)) (dport_of (pkt ?tb)) (dst_of (pkt ?tb)) 99 (ap_entryList s1) = Inr (Some q, t) \<and>
      ap_handle_pkt demo_ap_env ?tb 0 5 (s1\<lparr>ap_entryList := t\<rparr>) = Inr (Some v, s1\<lparr>ap_entryList := t\<rparr>) \<and>
      am_new_port x = 99 \<and>
      reinject_pkt q (s1\<lparr>ap_entryList := t\<rparr>) = Inr ((5, v) # map (release x (ap_ifIP ?s))
        (filter (\<lambda>pd. pd_flow pd = flow4_at (pkt ?tb)) (waiting (portQueue ?s) (AP_HASH_FUNC (dst_of (pkt ?tb))))), s2) \<and>
      (\<forall>k < AP_MAXENTRY. \<forall>pd \<in> set (waiting (portQueue s2) k). pd_flow pd \<noteq> flow4_at (pkt ?tb))"
    by (rule ap_wait_equivalent [OF _ demo_ap_whole(1) p(2)])
  then show ?thesis unfolding p demo_ap_addrs by blast
qed

text \<open>C5. A client whose flow has a port, and whose port no other flow to the same remote endpoint
  has, is reached by the replies: its packet leaves with the access point's address and the flow's
  port, and a packet from the remote endpoint to that port is delivered to the client's address and
  port. Neither changes the state.\<close>

theorem ap_reply_reaches_client:
  assumes inv: "ap_nat_inv (ap_entryList s)" and wf: "payload_wf tb" "payload_wf r"
    and cl: "in_subnet (ap_subnet s) (src_of (pkt tb))"
    and port: "port_abs (ap_entryList s) (flow4_at (pkt tb)) = Some p"
    and uniq: "\<forall>a sp. port_abs (ap_entryList s) (a, sp, dst_of (pkt tb), dport_of (pkt tb)) = Some p \<longrightarrow>
      (a, sp) = (src_of (pkt tb), sport_of (pkt tb))"
    and rep: "flow4_at (pkt r) = (dst_of (pkt tb), dport_of (pkt tb), ap_ifIP s, p)"
  shows "\<exists>v d v' d'. ap_handle_pkt e tb 0 qh s = Inr (Some v, s) \<and>
    v = NF_ACCEPT (pkt_id tb) (Some (take (nat (nfad_len tb)) d)) \<and> translated 0 p 12 (ap_ifIP s) (pkt tb) d \<and>
    flow4_at d = (ap_ifIP s, p, dst_of (pkt tb), dport_of (pkt tb)) \<and>
    ap_handle_pkt e' r 1 qh' s = Inr (Some v', s) \<and>
    v' = NF_ACCEPT (pkt_id r) (Some (take (nat (nfad_len r)) d')) \<and>
    translated 2 (sport_of (pkt tb)) 16 (src_of (pkt tb)) (pkt r) d' \<and>
    flow4_at d' = (dst_of (pkt tb), dport_of (pkt tb), src_of (pkt tb), sport_of (pkt tb))"
proof -
  have w: "wf_packet (pkt tb)" "wf_packet (pkt r)" using wf by (simp_all add: payload_wf_def)
  have f: "src_of (pkt r) = dst_of (pkt tb)" "sport_of (pkt r) = dport_of (pkt tb)" "dst_of (pkt r) = ap_ifIP s"
    "dport_of (pkt r) = p" using rep by (simp_all add: flow4_at_def)
  have h: "AP_HASH_FUNC (src_of (pkt r)) < AP_MAXENTRY"
    using port f ap_nat_invD(4) [OF inv] by (auto simp: port_abs_def flow4_at_def split: if_splits)
  obtain v d where v: "ap_handle_pkt e tb 0 qh s = Inr (Some v, s)" "translated 0 p 12 (ap_ifIP s) (pkt tb) d"
    "v = NF_ACCEPT (pkt_id tb) (Some (take (nat (nfad_len tb)) d))"
    using ap_out_known [OF wf(1) inv cl port, where e = e and qh = qh] by (auto simp: accepts_translated_def)
  obtain v' where v': "ap_handle_pkt e' r 1 qh' s = Inr (Some v', s)"
    and c: "(\<forall>a ap. port_abs (ap_entryList s) (a, ap, src_of (pkt r), sport_of (pkt r)) \<noteq> Some (dport_of (pkt r))) \<and>
        v' = NF_ACCEPT (pkt_id r) None \<or>
      (\<exists>a ap. port_abs (ap_entryList s) (a, ap, src_of (pkt r), sport_of (pkt r)) = Some (dport_of (pkt r)) \<and>
        accepts_translated 2 ap 16 a r v')"
    using ap_in [OF wf(2) inv f(3) h, where e = e' and qh = qh'] by blast
  then obtain a ap where "port_abs (ap_entryList s) (a, ap, dst_of (pkt tb), dport_of (pkt tb)) = Some p"
    "accepts_translated 2 ap 16 a r v'"
    using port unfolding f flow4_at_def by blast
  then have "accepts_translated 2 (sport_of (pkt tb)) 16 (src_of (pkt tb)) r v'" using uniq by blast
  then obtain d' where d': "translated 2 (sport_of (pkt tb)) 16 (src_of (pkt tb)) (pkt r) d'"
    "v' = NF_ACCEPT (pkt_id r) (Some (take (nat (nfad_len r)) d'))" by (auto simp: accepts_translated_def)
  have "flow4_at d = (ap_ifIP s, p, dst_of (pkt tb), dport_of (pkt tb))"
    "flow4_at d' = (dst_of (pkt tb), dport_of (pkt tb), src_of (pkt tb), sport_of (pkt tb))"
    using translated_fields [OF v(2) w(1)] translated_fields [OF d'(1) w(2)] f by (simp_all add: flow4_at_def)
  then show ?thesis using v v' d' by blast
qed

theorem ap_reply_reaches_client_witness:
  "\<exists>v d v' d'. ap_handle_pkt demo_ap_env (demo_ap_tb demo_query) 0 0 demo_ap = Inr (Some v, demo_ap) \<and>
    v = NF_ACCEPT (pkt_id (demo_ap_tb demo_query)) (Some (take 28 d)) \<and>
    flow4_at d = (IP4 10 0 0 1, le16 0x12 0x34, IP4 8 8 8 8, le16 0 53) \<and>
    ap_handle_pkt demo_ap_env (demo_ap_tb demo_ap_answer) 1 1 demo_ap = Inr (Some v', demo_ap) \<and>
    v' = NF_ACCEPT (pkt_id (demo_ap_tb demo_ap_answer)) (Some (take 28 d')) \<and>
    flow4_at d' = (IP4 8 8 8 8, le16 0 53, IP4 192 168 5 2, le16 0xc0 1)"
proof -
  let ?q = "demo_ap_tb demo_query" and ?r = "demo_ap_tb demo_ap_answer"
  have p: "pkt ?q = demo_query" "pkt ?r = demo_ap_answer" "nfad_len ?q = 28" "nfad_len ?r = 28"
    "ap_ifIP demo_ap = IP4 10 0 0 1" "ap_subnet demo_ap = ''192.168.5''"
    by (simp_all add: demo_ap_tb_def demo_ap_def)
  have "payload_wf ?q" using demo_ap_whole(1) by (simp add: whole_packet_def)
  moreover have "in_subnet (ap_subnet demo_ap) (src_of (pkt ?q))"
    "port_abs (ap_entryList demo_ap) (flow4_at (pkt ?q)) = Some (le16 0x12 0x34)"
    "flow4_at (pkt ?r) = (dst_of (pkt ?q), dport_of (pkt ?q), ap_ifIP demo_ap, le16 0x12 0x34)"
    by (simp_all add: p demo_ap_fields demo_ap_addrs demo_entryList(2))
  moreover have "\<forall>a sp. port_abs (ap_entryList demo_ap) (a, sp, dst_of (pkt ?q), dport_of (pkt ?q)) = Some (le16 0x12 0x34) \<longrightarrow>
      (a, sp) = (src_of (pkt ?q), sport_of (pkt ?q))"
    by (simp add: p demo_entryList(2) demo_ap_fields demo_ap_addrs)
  ultimately show ?thesis
    using ap_reply_reaches_client [OF demo_entryList(1) _ demo_ap_whole(2), where tb = ?q and p = "le16 0x12 0x34"
        and e = demo_ap_env and e' = demo_ap_env and qh = 0 and qh' = 1]
    unfolding p demo_ap_addrs nat_numeral by blast
qed

text \<open>C28. On any packet that the netfilter library delivers with at least an IP header, the handler
  keeps the table and the queue well formed, changes nothing but the queue and the pool of requests
  to the controller, and leaves a packet without a verdict only in queue 0; where it does not return,
  it accessed memory outside a buffer or table, or followed the null pointer of a failed allocation
  or of a missing hardware address.\<close>

theorem ap_handle_pkt_outcomes:
  assumes "ap_inv s" "nfq_header tb"
  shows "case ap_handle_pkt e tb num qh s of
      Inl f \<Rightarrow> f = OutOfBounds \<or> f = NullDeref
    | Inr (v, s') \<Rightarrow> ap_inv s' \<and> (\<exists>pq th. s' = s\<lparr>portQueue := pq, port_entry_threads := port_entry_threads s @ th\<rparr>) \<and>
        (v = None \<longrightarrow> num = 0)"
  using ap_handle_pkt_outcome [OF assms, where e = e and num = num and qh = qh] ap_frame_inv [OF _ assms(1)]
  by (fastforce simp: ap_frame_def split: sum.splits)

theorem ap_handle_pkt_outcomes_witness:
  "case ap_handle_pkt demo_ap_env (demo_ap_tb demo_query) 0 0 demo_ap of
      Inl f \<Rightarrow> f = OutOfBounds \<or> f = NullDeref
    | Inr (v, s') \<Rightarrow> ap_inv s' \<and> (\<exists>pq th. s' = demo_ap\<lparr>portQueue := pq, port_entry_threads := port_entry_threads demo_ap @ th\<rparr>) \<and>
        (v = None \<longrightarrow> (0 :: int) = 0)"
  by (rule ap_handle_pkt_outcomes)
    (simp_all add: ap_inv_def demo_entryList(1) demo_queue(1) nfq_header_def demo_ap_tb_def)

end
