(* ===== verification/Chain_Mset.thy ===== *)
theory Chain_Mset
  imports Chain_Sweep Keyed_Table "HOL-Library.Multiset"
begin

text \<open>
  The third loop over the lists of a table, which takes the first node with a key off its list
  (\<open>ap_sta_hash_del\<close> of hostapd), and the contents of a table as a multiset: what an insertion, a change
  of a node and a removal do to it. The counters that the programs keep beside their tables are
  cardinalities of parts of that multiset.
\<close>

section \<open>Taking one node off its list\<close>

partial_function (option) del_from ::
  "('a \<Rightarrow> bool) \<Rightarrow> nat \<Rightarrow> ptr \<Rightarrow> ptr \<Rightarrow> 'a chains \<Rightarrow> 'a chains res option" where
  "del_from P h prev s t = (case s of
     None \<Rightarrow> Some (Inr t)
   | Some q \<Rightarrow> (case deref t q of
       Inl e \<Rightarrow> Some (Inl e)
     | Inr c \<Rightarrow> if P (item c) then Some (unlink h prev (nxt c) t) else del_from P h (Some q) (nxt c) t))"

definition del_first :: "('a \<Rightarrow> bool) \<Rightarrow> nat \<Rightarrow> 'a chains \<Rightarrow> 'a chains res" where
  "del_first P h t = bindE (head t h) (\<lambda>p. run_loop (del_from P h None p t))"

lemma del_from_segment:
  assumes "h < length (table t)" "segment t (table t ! h) ys s" "chain t s (us @ (q, x) # zs)"
    "distinct (map fst (ys @ us @ (q, x) # zs))" "\<forall>u \<in> set us. \<not> P (snd u)" "P x"
  shows "\<exists>t'. del_from P h (last_ptr ys) s t = Some (Inr t') \<and> chain t' (table t' ! h) (ys @ us @ zs) \<and>
    table t' = (table t)[h := table t' ! h] \<and> length (cells t') = length (cells t) \<and>
    (\<forall>r. r \<notin> fst ` set (ys @ us) \<longrightarrow> deref t' r = deref t r)"
  using assms
proof (induction us arbitrary: ys s)
  case Nil
  then obtain n where n: "s = Some q" "deref t q = Inr (Cell x n)" "chain t n zs" by auto
  have d: "distinct (map fst ys)" "fst ` set ys \<inter> fst ` set zs = {}" using Nil.prems(4) by auto
  obtain t1 where t1: "unlink h (last_ptr ys) n t = Inr t1" "segment t1 (table t1 ! h) ys n"
    "next_after h (last_ptr ys) t1 = Inr n" "table t1 = (table t)[h := table t1 ! h]"
    "length (cells t1) = length (cells t)" "\<forall>r. r \<notin> fst ` set ys \<longrightarrow> deref t1 r = deref t r"
    by (rule unlink_segment [OF Nil.prems(1,2) d(1)])
  have "chain t1 n zs" using t1(6) d(2) by (intro chain_cong [OF _ n(3)]) blast
  then have "chain t1 (table t1 ! h) (ys @ zs)" using segment_chain [OF t1(2)] by blast
  then show ?case using t1 n Nil.prems(6) by (simp add: del_from.simps [of _ _ _ "Some q"])
next
  case (Cons u us)
  then obtain n where n: "s = Some (fst u)" "deref t (fst u) = Inr (Cell (snd u) n)" "chain t n (us @ (q, x) # zs)"
    by auto
  have seg: "segment t (table t ! h) (ys @ [u]) n" using Cons.prems(2) n by (auto simp: segment_append)
  have "distinct (map fst ((ys @ [u]) @ us @ (q, x) # zs))" using Cons.prems(4) by simp
  from Cons.IH [OF Cons.prems(1) seg n(3) this] Cons.prems(5,6) n Cons.prems(5)
  show ?case by (simp add: del_from.simps [of _ _ _ "Some (fst u)"])
qed

lemma del_first_wf:
  assumes wf: "wf_chains hsh t" and h: "h < length (table t)" and b: "bucket_list t h = us @ (q, x) # zs"
    and P: "\<forall>u \<in> set us. \<not> P (snd u)" "P x"
  obtains t' where "del_first P h t = Inr t'" "wf_chains hsh t'" "length (table t') = length (table t)"
    "length (cells t') = length (cells t)" "deref t' q = deref t q"
    "\<forall>k < length (table t). bucket_list t' k = (if k = h then us @ zs else bucket_list t k)"
proof -
  define g where "g k = (if k = h then us @ zs else bucket_list t k)" for k
  have ch: "chain t (table t ! h) (us @ (q, x) # zs)" using wf_chains_bucket(1) [OF wf h] b by simp
  obtain t' where t': "del_from P h None (table t ! h) t = Some (Inr t')" "chain t' (table t' ! h) (us @ zs)"
    "table t' = (table t)[h := table t' ! h]" "length (cells t') = length (cells t)"
    "\<forall>r. r \<notin> fst ` set us \<longrightarrow> deref t' r = deref t r"
    using del_from_segment [OF h _ ch, of "[]" P] chain_distinct [OF ch] P by auto
  have len: "length (table t') = length (table t)" using t'(3) by (metis length_list_update)
  have c: "chain t' (table t' ! k) (g k)" if k: "k < length (table t)" for k
  proof (cases "k = h")
    case False
    have "r \<notin> fst ` set us" if "r \<in> fst ` set (bucket_list t k)" for r
      using buckets_disjoint [OF wf h k False] that b by auto
    then have "chain t' (table t ! k) (bucket_list t k)"
      using t'(5) by (intro chain_cong [OF _ wf_chains_bucket(1) [OF wf k]]) blast
    moreover have "table t' ! k = table t ! k" using False t'(3) by (metis nth_list_update_neq)
    ultimately show ?thesis using False by (simp add: g_def)
  qed (simp add: g_def t'(2))
  have hs: "hsh y = k" if "k < length (table t)" "(r, y) \<in> set (g k)" for k r y
    using wf_chains_bucket(2) [OF wf that(1)] that(2) b by (auto simp: g_def split: if_splits)
  have "wf_chains hsh t'" using c hs len by (intro wf_chainsI [of _ g]) auto
  moreover have "bucket_list t' k = g k" if "k < length (table t)" for k using c [OF that] by (rule bucket_listI)
  moreover have "deref t' q = deref t q" using t'(5) chain_distinct [OF ch] by force
  ultimately show thesis using that [of t'] h t'(1,4) len by (simp add: g_def del_first_def head_def)
qed

text \<open>Freeing a node that is on no list.\<close>

lemma free_cell_wf:
  assumes wf: "wf_chains hsh t" and q: "q < length (cells t)"
    and n: "\<forall>k < length (table t). q \<notin> fst ` set (bucket_list t k)"
  shows "wf_chains hsh (free_cell q t)" "k < length (table t) \<Longrightarrow> bucket_list (free_cell q t) k = bucket_list t k"
proof -
  have tab: "table (free_cell q t) = table t" by (simp add: free_cell_def)
  have c: "chain (free_cell q t) (table (free_cell q t) ! k) (bucket_list t k)" if k: "k < length (table t)" for k
    unfolding tab
  proof (rule chain_cong [OF _ wf_chains_bucket(1) [OF wf k]])
    fix r assume "r \<in> fst ` set (bucket_list t k)"
    then have "r \<noteq> q" using n k by metis
    then show "deref (free_cell q t) r = deref t r" by (simp add: deref_free_cell [OF q])
  qed
  show "wf_chains hsh (free_cell q t)"
    by (rule wf_chainsI [of _ "bucket_list t"]) (use c wf_chains_bucket(2) [OF wf] tab in auto)
  show "k < length (table t) \<Longrightarrow> bucket_list (free_cell q t) k = bucket_list t k"
    by (rule bucket_listI) (rule c)
qed

section \<open>The contents of a table\<close>

definition contents :: "'a chains \<Rightarrow> 'a multiset" where
  "contents t = (\<Sum>h < length (table t). mset (map snd (bucket_list t h)))"

lemma contents_init [simp]: "contents (chains_init n) = {#}"
  by (simp add: contents_def)

lemma contents_bucket:
  assumes "h < length (table t)" "length (table t') = length (table t)"
    "\<forall>k < length (table t). k \<noteq> h \<longrightarrow> mset (map snd (bucket_list t' k)) = mset (map snd (bucket_list t k))"
  shows "contents t' + mset (map snd (bucket_list t h)) = contents t + mset (map snd (bucket_list t' h))"
proof -
  let ?n = "length (table t)"
  have s: "contents u = mset (map snd (bucket_list u h)) + (\<Sum>k \<in> {..<?n} - {h}. mset (map snd (bucket_list u k)))"
    if "length (table u) = ?n" for u :: "'a chains"
    unfolding contents_def that using assms(1) by (subst sum.remove [of _ h]) auto
  have "(\<Sum>k \<in> {..<?n} - {h}. mset (map snd (bucket_list t' k))) = (\<Sum>k \<in> {..<?n} - {h}. mset (map snd (bucket_list t k)))"
    using assms(3) by (intro sum.cong) auto
  then show ?thesis using s [of t] s [OF assms(2)] by (simp add: add_ac)
qed

lemma contents_push:
  assumes "h < length (table t)" "length (table t') = length (table t)"
    "\<forall>k < length (table t). bucket_list t' k = (if k = h then (q, x) # bucket_list t h else bucket_list t k)"
  shows "contents t' = add_mset x (contents t)"
  using contents_bucket [OF assms(1,2)] assms(1,3) by simp

lemma contents_del:
  assumes "h < length (table t)" "length (table t') = length (table t)" "bucket_list t h = us @ (q, x) # zs"
    "\<forall>k < length (table t). bucket_list t' k = (if k = h then us @ zs else bucket_list t k)"
  shows "contents t = add_mset x (contents t')"
  using contents_bucket [OF assms(1,2)] assms(1,3,4) by simp

lemma mset_upd_one:
  "distinct (map fst xs) \<Longrightarrow> (q, x) \<in> set xs \<Longrightarrow>
     add_mset x (mset (map snd (map (\<lambda>(r, z). (r, if r = q then y else z)) xs))) = add_mset y (mset (map snd xs))"
proof (induction xs)
  case (Cons a xs)
  have id: "map (\<lambda>(r, z). (r, if r = q then y else z)) xs = xs" if "q \<notin> fst ` set xs"
    using that by (intro map_idI) force
  show ?case
  proof (cases "fst a = q")
    case True
    then have n: "q \<notin> fst ` set xs" using Cons.prems(1) by auto
    then have "a = (q, x)" using Cons.prems(2) by (metis set_ConsD image_eqI fst_conv)
    with n show ?thesis using id by simp
  next
    case False
    then show ?thesis using Cons by (cases a) (auto simp: add_mset_commute)
  qed
qed simp

lemma contents_upd:
  assumes wf: "wf_chains hsh t" and h: "h < length (table t)" and q: "(q, x) \<in> set (bucket_list t h)"
    and len: "length (table t') = length (table t)"
    and b: "\<forall>k < length (table t). bucket_list t' k = map (\<lambda>(r, z). (r, if r = q then y else z)) (bucket_list t k)"
  shows "add_mset x (contents t') = add_mset y (contents t)"
proof -
  have d: "distinct (map fst (bucket_list t h))" using chain_distinct [OF wf_chains_bucket(1) [OF wf h]] .
  have "map (\<lambda>(r, z). (r, if r = q then y else z)) (bucket_list t k) = bucket_list t k"
    if "k < length (table t)" "k \<noteq> h" for k
    using buckets_disjoint [OF wf h that] q by (intro map_idI) force
  then have "contents t' + mset (map snd (bucket_list t h)) = contents t + mset (map snd (bucket_list t' h))"
    using b by (intro contents_bucket [OF h len]) simp
  moreover have "add_mset x (mset (map snd (bucket_list t' h))) = add_mset y (mset (map snd (bucket_list t h)))"
    using mset_upd_one [OF d q] b h by simp
  ultimately have "add_mset x (contents t') + mset (map snd (bucket_list t h)) =
      add_mset y (contents t) + mset (map snd (bucket_list t h))"
    by (metis add_mset_add_single union_assoc union_commute)
  then show ?thesis by simp
qed

lemma in_contents:
  "x \<in># contents t \<longleftrightarrow> (\<exists>h < length (table t). \<exists>q. (q, x) \<in> set (bucket_list t h))"
  by (force simp: contents_def set_mset_sum)

end
