(* ===== verification/Ap_Sta.thy ===== *)
theory Ap_Sta
  imports Keyed_Table
begin

text \<open>
  The station list of an access point (ofSwitchAP/controller_interface.h: \<open>enum STAStatus\<close>,
  \<open>struct infoSTA\<close>, \<open>struct STAList\<close>; controller_interface.c: \<open>lookupSenderSTA\<close>, \<open>addSTA\<close>,
  \<open>changeStatus\<close>, \<open>changeRSSI\<close>). What the access point knows of a station is found by its hardware
  address; the controller's messages, the data frames and the management frames of hostapd all read
  and change it. Stations are never taken off the list.

  The list has \<open>max_num_sta\<close> heads, the limit of the configuration, and is indexed by the fourth byte
  of the address: the macro \<open>HASH_FUNC\<close> of the header (the first byte) is redefined in the source file.

  Shown here: the list refines a map from addresses to stations, \<open>num_sta\<close> is the number of stations
  and stays within the limit, and each operation changes the station it names only.
\<close>

section \<open>Data and operations\<close>

datatype STAStatus = SELECTED | NOT_AUTHENTICATED | AUTHENTICATED | ASSOCIATED

record infoSTA =
  si_address :: mac
  si_status :: STAStatus
  lastReceivedSignalStrength :: byte
  si_auth_alg :: u16
  si_aid :: u16
  si_capability :: u16
  si_listen_interval :: u16
  si_supported_rates :: buf
  si_supported_rates_len :: u32
  si_qosinfo :: byte
  si_ipaddr :: "string option"
  si_tunNum :: int

definition sizeof_infoSTA :: nat where
  "sizeof_infoSTA = 88"

record STAList =
  num_sta :: int
  sta_table :: "infoSTA chains"

fun MAC_HASH :: "mac \<Rightarrow> nat" where
  "MAC_HASH (MAC a b c d e f) = unat d"

definition STAList_init :: "nat \<Rightarrow> STAList" where
  "STAList_init max_num_sta = \<lparr>num_sta = 0, sta_table = chains_init max_num_sta\<rparr>"

definition lookupSenderSTA :: "mac \<Rightarrow> STAList \<Rightarrow> ptr res" where
  "lookupSenderSTA address staList =
     find_in (\<lambda>sta. \<not> si_address sta \<noteq> address) (MAC_HASH address) (sta_table staList)"

text \<open>The node \<open>addSTA\<close> links in: \<open>calloc\<close> clears it, and a cleared \<open>status\<close> is \<open>SELECTED\<close>.\<close>

definition new_infoSTA :: "mac \<Rightarrow> infoSTA" where
  "new_infoSTA addr = \<lparr>si_address = addr, si_status = SELECTED, lastReceivedSignalStrength = 0,
     si_auth_alg = 0, si_aid = 0, si_capability = 0, si_listen_interval = 0,
     si_supported_rates = replicate 32 0, si_supported_rates_len = 0, si_qosinfo = 0,
     si_ipaddr = None, si_tunNum = 0\<rparr>"

definition addSTA :: "'e env_scheme \<Rightarrow> nat \<Rightarrow> mac \<Rightarrow> STAList \<Rightarrow> (ptr \<times> STAList) res" where
  "addSTA e max_num_sta addr staList =
     bindE (lookupSenderSTA addr staList) (\<lambda>sta.
     case sta of
       Some q \<Rightarrow> Inr (Some q, staList)
     | None \<Rightarrow>
         if num_sta staList \<ge> int max_num_sta then Inr (None, staList)
         else if \<not> calloc_ok e sizeof_infoSTA then Inr (None, staList)
         else bindE (push_front (new_infoSTA addr) (MAC_HASH addr) (sta_table staList)) (\<lambda>(q, t).
           Inr (Some q, staList\<lparr>num_sta := num_sta staList + 1, sta_table := t\<rparr>)))"

definition upd_sta :: "(infoSTA \<Rightarrow> infoSTA) \<Rightarrow> nat \<Rightarrow> STAList \<Rightarrow> STAList res" where
  "upd_sta f sta staList = bindE (upd_item f sta (sta_table staList)) (\<lambda>t. Inr (staList\<lparr>sta_table := t\<rparr>))"

definition set_status :: "STAStatus \<Rightarrow> infoSTA \<Rightarrow> infoSTA" where
  "set_status status sta = (if status = NOT_AUTHENTICATED
     then sta\<lparr>si_status := status, lastReceivedSignalStrength := 0\<rparr> else sta\<lparr>si_status := status\<rparr>)"

definition changeStatus :: "nat \<Rightarrow> STAStatus \<Rightarrow> STAList \<Rightarrow> STAList res" where
  "changeStatus sta status staList = upd_sta (set_status status) sta staList"

definition changeRSSI :: "nat \<Rightarrow> byte \<Rightarrow> STAList \<Rightarrow> STAList res" where
  "changeRSSI sta rssi staList = upd_sta (\<lambda>s. s\<lparr>lastReceivedSignalStrength := rssi\<rparr>) sta staList"

definition get_sta :: "nat \<Rightarrow> STAList \<Rightarrow> infoSTA res" where
  "get_sta q staList = bindE (deref (sta_table staList) q) (\<lambda>c. Inr (item c))"

section \<open>The contract\<close>

abbreviation sta_find :: "STAList \<Rightarrow> mac \<Rightarrow> (nat \<times> infoSTA) option" where
  "sta_find l m \<equiv> chain_find si_address MAC_HASH (sta_table l) m"

definition sta_count :: "STAList \<Rightarrow> nat" where
  "sta_count l = (\<Sum>h < length (table (sta_table l)). length (bucket_list (sta_table l) h))"

definition sta_inv :: "nat \<Rightarrow> STAList \<Rightarrow> bool" where
  "sta_inv m l \<longleftrightarrow> wf_chains (MAC_HASH \<circ> si_address) (sta_table l) \<and> length (table (sta_table l)) = m \<and>
     chain_uniq si_address (sta_table l) \<and> num_sta l = int (sta_count l) \<and> sta_count l \<le> m"

text \<open>The map that the list stands for.\<close>

definition sta_abs :: "STAList \<Rightarrow> mac \<Rightarrow> infoSTA option" where
  "sta_abs l m = (if MAC_HASH m < length (table (sta_table l)) then map_option snd (sta_find l m) else None)"

interpretation sta: chained si_address MAC_HASH new_infoSTA ok for ok
  by unfold_locales (simp add: new_infoSTA_def)

lemma sta_invD:
  assumes "sta_inv m l"
  shows "wf_chains (MAC_HASH \<circ> si_address) (sta_table l)" "length (table (sta_table l)) = m"
    "chain_uniq si_address (sta_table l)" "chain_valid MAC_HASH (sta_table l) a \<longleftrightarrow> MAC_HASH a < m"
  using assms by (simp_all add: sta_inv_def chain_valid_def)

lemma sta_inv_init: "sta_inv m (STAList_init m)"
  by (simp add: sta_inv_def STAList_init_def sta_count_def)

lemma sta_abs_init: "sta_abs (STAList_init m) a = None"
  by (simp add: sta_abs_def STAList_init_def chain_find_def)

lemma lookupSenderSTA_chain: "lookupSenderSTA a l = chain_lookup si_address MAC_HASH a (sta_table l)"
  by (simp add: lookupSenderSTA_def chain_lookup_def)

lemma lookupSenderSTA_eq:
  assumes "sta_inv m l" "MAC_HASH a < m"
  shows "lookupSenderSTA a l = Inr (map_option fst (sta_find l a))"
  using sta.find_chain_lookup [OF sta_invD(1) [OF assms(1)]] sta_invD(4) [OF assms(1)] assms(2)
  by (simp add: lookupSenderSTA_chain chain_view_def)

lemma lookupSenderSTA_bounds: "sta_inv m l \<Longrightarrow> \<not> MAC_HASH a < m \<Longrightarrow> lookupSenderSTA a l = Inl OutOfBounds"
  by (simp add: lookupSenderSTA_def find_in_bounds sta_inv_def)

lemma sum_one_more:
  fixes f g :: "nat \<Rightarrow> nat"
  assumes "h < n" "\<forall>k < n. g k = (if k = h then Suc (f k) else f k)"
  shows "(\<Sum>k<n. g k) = Suc (\<Sum>k<n. f k)"
proof -
  have "(\<Sum>k<n. g k) = (\<Sum>k<n. f k + (if k = h then 1 else 0))" using assms(2) by (intro sum.cong) auto
  then show ?thesis using assms(1) by (simp add: sum.distrib)
qed

lemma addSTA_new:
  assumes inv: "sta_inv m l" and a: "MAC_HASH a < m" and n: "sta_find l a = None"
    and room: "num_sta l < int m" "calloc_ok e sizeof_infoSTA"
  shows "\<exists>l'. addSTA e m a l = Inr (Some (length (cells (sta_table l))), l') \<and> sta_inv m l' \<and>
    num_sta l' = num_sta l + 1 \<and> (\<forall>b. MAC_HASH b < m \<longrightarrow> sta_find l' b =
      (if b = a then Some (length (cells (sta_table l)), new_infoSTA a) else sta_find l b))"
proof -
  let ?t = "sta_table l" and ?h = "MAC_HASH a"
  note i = sta_invD [OF inv]
  have hn: "(MAC_HASH \<circ> si_address) (new_infoSTA a) = ?h" by (simp add: new_infoSTA_def)
  obtain t where t: "push_front (new_infoSTA a) ?h ?t = Inr (length (cells ?t), t)"
    "wf_chains (MAC_HASH \<circ> si_address) t" "length (table t) = length (table ?t)"
    and b: "\<forall>k < length (table ?t). bucket_list t k =
       (if k = ?h then (length (cells ?t), new_infoSTA a) # bucket_list ?t ?h else bucket_list ?t k)"
    by (rule push_front_wf [OF i(1) _ hn]) (use a i(2) in auto)
  let ?l = "l\<lparr>num_sta := num_sta l + 1, sta_table := t\<rparr>"
  have add: "addSTA e m a l = Inr (Some (length (cells ?t)), ?l)"
    using lookupSenderSTA_eq [OF inv a] n room t(1) by (simp add: addSTA_def)
  have "sta_count ?l = Suc (sta_count l)"
    unfolding sta_count_def using a i(2) t(3) b by (simp add: sum_one_more [of ?h])
  moreover have "chain_uniq si_address t"
  proof (rule sta.chain_uniq_add [OF i(3,1), where ok = True])
    show "chain_add si_address MAC_HASH new_infoSTA True a ?t = Inr (Some (length (cells ?t)), t)"
      using sta.find_chain_lookup [OF i(1), of a] i(4) a n t(1) by (simp add: chain_add_def chain_view_def)
  qed
  moreover have "sta_find ?l c = (if c = a then Some (length (cells ?t), new_infoSTA a) else sta_find l c)"
    if "MAC_HASH c < m" for c using that b i(2) by (auto simp: chain_find_def new_infoSTA_def)
  ultimately show ?thesis
    using add t(2,3) inv room(1) by (intro exI [of _ ?l]) (simp add: sta_inv_def)
qed

text \<open>The list keeps the contract of a keyed table, with room while the limit is not reached.\<close>

interpretation stations: keyed_table "sta_inv m" "\<lambda>l a. MAC_HASH a < length (table (sta_table l))"
  "\<lambda>l. num_sta l < int m \<and> calloc_ok e sizeof_infoSTA" "\<lambda>l a. map_option fst (sta_find l a)"
  lookupSenderSTA "addSTA e m" for m and e :: "'e env_scheme"
proof
  fix l :: STAList and a q f
  show "lookupSenderSTA a l = Inl f \<Longrightarrow> addSTA e m a l = Inl f" by (simp add: addSTA_def)
  show "lookupSenderSTA a l = Inr (Some q) \<Longrightarrow> addSTA e m a l = Inr (Some q, l)" by (simp add: addSTA_def)
  show "lookupSenderSTA a l = Inr None \<Longrightarrow> \<not> (num_sta l < int m \<and> calloc_ok e sizeof_infoSTA) \<Longrightarrow>
      addSTA e m a l = Inr (None, l)" by (auto simp: addSTA_def)
next
  fix l :: STAList and a
  assume inv: "sta_inv m l"
  note i = sta_invD [OF inv]
  show "lookupSenderSTA a l = Inr (map_option fst (sta_find l a))" if "MAC_HASH a < length (table (sta_table l))"
    using lookupSenderSTA_eq [OF inv] that i(2) by simp
  show "lookupSenderSTA a l = Inl OutOfBounds" if "\<not> MAC_HASH a < length (table (sta_table l))"
    using lookupSenderSTA_bounds [OF inv] that i(2) by simp
  assume a: "MAC_HASH a < length (table (sta_table l))" "map_option fst (sta_find l a) = None"
    and r: "num_sta l < int m \<and> calloc_ok e sizeof_infoSTA"
  have "map_option fst (sta_find l b) \<noteq> Some (length (cells (sta_table l)))" if "MAC_HASH b < m" for b
    using sta.chain_find_less [OF i(1), of b] that i(4) by fastforce
  moreover obtain l' where "addSTA e m a l = Inr (Some (length (cells (sta_table l))), l')" "sta_inv m l'"
    "\<forall>b. MAC_HASH b < m \<longrightarrow> sta_find l' b =
      (if b = a then Some (length (cells (sta_table l)), new_infoSTA a) else sta_find l b)"
    using addSTA_new [OF inv, where a = a and e = e] a r i(2) by auto
  ultimately show "\<exists>q l'. addSTA e m a l = Inr (Some q, l') \<and> sta_inv m l' \<and>
      (\<lambda>a. MAC_HASH a < length (table (sta_table l'))) = (\<lambda>a. MAC_HASH a < length (table (sta_table l))) \<and>
      (\<forall>b. MAC_HASH b < length (table (sta_table l)) \<longrightarrow>
         map_option fst (sta_find l' b) = (if b = a then Some q else map_option fst (sta_find l b))) \<and>
      (\<forall>b. MAC_HASH b < length (table (sta_table l)) \<longrightarrow> map_option fst (sta_find l b) \<noteq> Some q)"
    using i(2) sta_invD(2) by (intro exI conjI) auto
qed

section \<open>Changing one station\<close>

lemma bucket_count_upd:
  assumes wf: "wf_chains hsh t" and q: "deref t q = Inr (Cell x n)" and y: "hsh (f x) = hsh x"
    and u: "upd_item f q t = Inr t'" and k: "k < length (table t)"
  shows "length (bucket_list t' k) = length (bucket_list t k)"
proof -
  obtain t1 where "upd_item f q t = Inr t1" "\<forall>k < length (table t).
      bucket_list t1 k = map (\<lambda>(r, z). (r, if r = q then f x else z)) (bucket_list t k)"
    by (rule upd_item_wf [where f = f, OF wf q y])
  then show ?thesis using u k by simp
qed

lemma upd_sta_find:
  assumes inv: "sta_inv m l" and a: "MAC_HASH a < m" and f: "sta_find l a = Some (q, x)" and y: "si_address (f x) = a"
  shows "\<exists>l'. upd_sta f q l = Inr l' \<and> sta_inv m l' \<and> num_sta l' = num_sta l \<and>
    sta_abs l' = (sta_abs l)(a \<mapsto> f x) \<and> (\<forall>b. MAC_HASH b < m \<longrightarrow> sta_find l' b = (if b = a then Some (q, f x) else sta_find l b))"
proof -
  let ?t = "sta_table l"
  note i = sta_invD [OF inv]
  have v: "chain_valid MAC_HASH ?t a" using i(4) a by simp
  obtain t where t: "upd_item f q ?t = Inr t" "wf_chains (MAC_HASH \<circ> si_address) t" "table t = table ?t"
    "length (cells t) = length (cells ?t)"
    "\<forall>b. chain_valid MAC_HASH ?t b \<longrightarrow> chain_find si_address MAC_HASH t b =
       (if b = a then Some (q, f x) else chain_find si_address MAC_HASH ?t b)"
    by (rule sta.chain_find_upd_item [where f = f, OF i(1) v f y])
  obtain n where n: "deref ?t q = Inr (Cell x n)" using sta.chain_find_deref [OF i(1) v f] by blast
  have x: "si_address x = a" using sta.chain_find_in_bucket(2) [OF f] .
  have "chain_uniq si_address t" by (rule sta.chain_uniq_upd [OF i(3,1) n _ t(1)]) (simp add: x y)
  moreover have "sta_count (l\<lparr>sta_table := t\<rparr>) = sta_count l"
    unfolding sta_count_def using t(3) bucket_count_upd [OF i(1) n _ t(1)] x y by simp
  ultimately have "sta_inv m (l\<lparr>sta_table := t\<rparr>)" using inv t(2,3) by (simp add: sta_inv_def)
  moreover have "sta_abs (l\<lparr>sta_table := t\<rparr>) = (sta_abs l)(a \<mapsto> f x)"
    using t(3,5) a i(2) by (auto simp: sta_abs_def fun_eq_iff chain_valid_def)
  ultimately show ?thesis using t(1,5) i(4) by (auto simp: upd_sta_def)
qed

lemma get_sta_find:
  assumes inv: "sta_inv m l" and a: "MAC_HASH a < m" and f: "sta_find l a = Some (q, x)"
  shows "get_sta q l = Inr x"
  using sta.chain_find_deref [OF sta_invD(1) [OF inv] _ f] sta_invD(4) [OF inv] a by (auto simp: get_sta_def)

lemma sta_abs_find: "sta_inv m l \<Longrightarrow> MAC_HASH a < m \<Longrightarrow> sta_abs l a = map_option snd (sta_find l a)"
  by (simp add: sta_abs_def sta_inv_def)

text \<open>Every outcome of adding a station.\<close>

lemma addSTA_outcome:
  assumes inv: "sta_inv m l"
  shows "case addSTA e m a l of
      Inl f \<Rightarrow> f = OutOfBounds \<and> \<not> MAC_HASH a < m
    | Inr (None, l') \<Rightarrow> l' = l \<and> MAC_HASH a < m \<and> sta_abs l a = None \<and> (num_sta l = int m \<or> \<not> calloc_ok e sizeof_infoSTA)
    | Inr (Some q, l') \<Rightarrow> MAC_HASH a < m \<and> sta_inv m l' \<and>
        (\<exists>x. sta_find l' a = Some (q, x) \<and> sta_abs l' = (sta_abs l)(a \<mapsto> x) \<and>
          (case sta_abs l a of Some y \<Rightarrow> x = y \<and> l' = l | None \<Rightarrow> x = new_infoSTA a \<and> num_sta l' = num_sta l + 1))"
proof (cases "MAC_HASH a < m")
  case False
  then show ?thesis using lookupSenderSTA_bounds [OF inv] by (simp add: addSTA_def)
next
  case a: True
  note i = sta_invD [OF inv] and L = lookupSenderSTA_eq [OF inv a] and A = sta_abs_find [OF inv a]
  have le: "num_sta l \<le> int m" using inv by (simp add: sta_inv_def)
  show ?thesis
  proof (cases "sta_find l a")
    case (Some y)
    then show ?thesis using L A a inv by (cases y) (auto simp: addSTA_def)
  next
    case None
    show ?thesis
    proof (cases "num_sta l < int m \<and> calloc_ok e sizeof_infoSTA")
      case True
      then obtain l' where l': "addSTA e m a l = Inr (Some (length (cells (sta_table l))), l')" "sta_inv m l'"
        "num_sta l' = num_sta l + 1" "\<forall>b. MAC_HASH b < m \<longrightarrow> sta_find l' b =
          (if b = a then Some (length (cells (sta_table l)), new_infoSTA a) else sta_find l b)"
        using addSTA_new [OF inv a None] by auto
      have "sta_abs l' = (sta_abs l)(a \<mapsto> new_infoSTA a)"
        using l'(4) a i(2) sta_invD(2) [OF l'(2)] by (auto simp: sta_abs_def fun_eq_iff)
      then show ?thesis using l' a None A by simp
    next
      case False
      then show ?thesis using L A a None le by (auto simp: addSTA_def)
    qed
  qed
qed

end
