(* ===== verification/Hap_Sta.thy ===== *)
theory Hap_Sta
  imports Chain_Mset Ap_Sta
begin

text \<open>
  The stations of hostapd, as far as the controller changes them (hostapd-2.8/src/ap/sta_info.c:
  \<open>ap_get_sta\<close>, \<open>ap_sta_hash_add\<close>, \<open>ap_sta_hash_del\<close>, \<open>ap_sta_list_del\<close>, \<open>ap_sta_add\<close>,
  \<open>ap_free_sta\<close>, \<open>ap_sta_set_authorized\<close>; src/ap/ieee802_11.c: \<open>add_STA\<close>, \<open>remove_STA\<close>). A handover
  moves a station from one access point to another without a new association: the controller makes
  the old access point run \<open>remove_STA\<close> and the new one \<open>add_STA\<close>.

  The build is the one of hostapd/.config: no 802.11n, 802.11r, SAE, FILS, mesh or P2P, and one BSS.
  The subsystems that the functions call (driver, accounting, EAPOL, WPA, VLAN) are the parameter
  \<open>hap_env\<close> where their result is used, and entries of \<open>hap_events\<close>, in the order of the calls.
  The buffers and timers that \<open>ap_free_sta\<close> releases beside the station are not modelled.

  Shown here: the invariant that ties the counters of hostapd to its stations, kept by both
  functions, and what is left of a station after each.
\<close>

section \<open>Data\<close>

datatype timeout_action = STA_NULLFUNC | STA_DISASSOC | STA_DEAUTH | STA_REMOVE | STA_DISASSOC_FROM_CLI

definition BIT :: "nat \<Rightarrow> u32" where
  "BIT n = push_bit n 1"

definition WLAN_STA_AUTH :: u32 where "WLAN_STA_AUTH = BIT 0"
definition WLAN_STA_ASSOC :: u32 where "WLAN_STA_ASSOC = BIT 1"
definition WLAN_STA_AUTHORIZED :: u32 where "WLAN_STA_AUTHORIZED = BIT 5"
definition WLAN_STA_SHORT_PREAMBLE :: u32 where "WLAN_STA_SHORT_PREAMBLE = BIT 7"
definition WLAN_STA_PREAUTH :: u32 where "WLAN_STA_PREAUTH = BIT 8"
definition WLAN_STA_MFP :: u32 where "WLAN_STA_MFP = BIT 10"
definition WLAN_STA_WDS :: u32 where "WLAN_STA_WDS = BIT 14"
definition WLAN_STA_ASSOC_REQ_OK :: u32 where "WLAN_STA_ASSOC_REQ_OK = BIT 15"
definition WLAN_STA_WNM_SLEEP_MODE :: u32 where "WLAN_STA_WNM_SLEEP_MODE = BIT 19"
definition WLAN_STA_MULTI_AP :: u32 where "WLAN_STA_MULTI_AP = BIT 23"
definition WLAN_STA_NONERP :: u32 where "WLAN_STA_NONERP = BIT 31"

definition WLAN_CAPABILITY_SHORT_PREAMBLE :: u16 where "WLAN_CAPABILITY_SHORT_PREAMBLE = push_bit 5 1"
definition WLAN_CAPABILITY_SHORT_SLOT_TIME :: u16 where "WLAN_CAPABILITY_SHORT_SLOT_TIME = push_bit 10 1"

definition WLAN_SUPP_RATES_MAX :: nat where "WLAN_SUPP_RATES_MAX = 32"
definition WLAN_INVALID_MGMT_SEQ :: u16 where "WLAN_INVALID_MGMT_SEQ = 0xFFFF"
definition WLAN_AUTH_OPEN :: u16 where "WLAN_AUTH_OPEN = 0"
definition WLAN_AUTH_SHARED_KEY :: u16 where "WLAN_AUTH_SHARED_KEY = 1"
definition WLAN_AUTH_FT :: u16 where "WLAN_AUTH_FT = 2"
definition WLAN_FC_STYPE_ASSOC_REQ :: byte where "WLAN_FC_STYPE_ASSOC_REQ = 0"

record sta_info =
  sta_addr :: mac
  sta_aid :: u16
  sta_flags :: u32
  sta_capability :: u16
  sta_listen_interval :: u16
  sta_supported_rates :: buf
  sta_supported_rates_len :: int
  sta_qosinfo :: byte
  nonerp_set :: bool
  no_short_slot_time_set :: bool
  no_short_preamble_set :: bool
  added_unassoc :: bool
  pending_wds_enable :: bool
  sta_auth_alg :: u16
  timeout_next :: timeout_action
  has_eapol_sm :: bool
  has_pending_eapol_rx :: bool
  sta_vlan_id :: int
  has_psk :: bool
  has_identity :: bool
  has_radius_cui :: bool
  sta_ipaddr :: u32
  sa_query_timed_out :: int
  acct_terminate_cause :: int
  last_seq_ctrl :: u16
  last_subtype :: byte
  sta_challenge :: "buf option"

definition zeroed_sta :: sta_info where
  "zeroed_sta = \<lparr>sta_addr = MAC 0 0 0 0 0 0, sta_aid = 0, sta_flags = 0, sta_capability = 0, sta_listen_interval = 0,
     sta_supported_rates = replicate WLAN_SUPP_RATES_MAX 0, sta_supported_rates_len = 0, sta_qosinfo = 0,
     nonerp_set = False, no_short_slot_time_set = False, no_short_preamble_set = False, added_unassoc = False,
     pending_wds_enable = False, sta_auth_alg = 0, timeout_next = STA_NULLFUNC, has_eapol_sm = False,
     has_pending_eapol_rx = False, sta_vlan_id = 0, has_psk = False, has_identity = False, has_radius_cui = False,
     sta_ipaddr = 0, sa_query_timed_out = 0, acct_terminate_cause = 0, last_seq_ctrl = 0, last_subtype = 0,
     sta_challenge = None\<rparr>"

text \<open>The calls into the other subsystems.\<close>

datatype hap_event =
    Notify_pre_auth mac bool
  | Drv_sta_remove mac
  | Drv_sta_add mac u32
  | Sta_authorized mac bool
  | Set_beacons
  | Accounting_stop mac
  | Mlme_associate mac
  | Mlme_disassociate mac
  | Bind_vlan mac
  | Set_sta_flags mac u32
  | Set_wds_sta mac bool
  | Set_wds_encryption mac
  | Wpa_event mac string
  | New_assoc_sta mac bool
  | Port_enabled mac bool
  | Eapol_receive mac
  | Free_8021x mac
  | Delete_ip_neigh mac
  | Register_timer mac
  | Notify_timer mac
  | Mlme_authenticate mac
  | Mlme_reassociate mac
  | Mlme_deauthenticate mac
  | Send_mlme buf
  | Send_assoc_resp mac u16 bool
  | Send_deauth mac
  | Drv_sta_deauth mac
  | Drv_sta_disassoc mac
  | Drv_poll_client mac
  | Other_frame mac nat

record hap_iface =
  num_sta_non_erp :: int
  num_sta_no_short_slot_time :: int
  num_sta_no_short_preamble :: int
  hap_events :: "hap_event list"

record hapd =
  hap_stas :: "sta_info chains"
  sta_list :: "nat list"
  hap_num_sta :: int
  hap_sta_aid :: "u32 list"
  iface :: hap_iface

record hap_conf =
  auth_alg_open :: bool
  auth_alg_shared :: bool
  conf_max_num_sta :: nat
  conf_ieee802_1x :: bool
  conf_wpa :: bool
  conf_osen :: bool
  mode_11g :: bool
  full_ap_client_state :: bool
  drv_inactivity_timer :: bool
  driver_ap_teardown :: bool

text \<open>Results of the other subsystems, and whether a pending EAPOL frame is younger than 200 ms.\<close>

record hap_env =
  zalloc_ok :: bool
  accounting_id :: int
  drv_sta_add_ret :: int
  bind_vlan_ret :: int
  set_wds_ret :: int
  eapol_recent :: bool

definition emit :: "hap_event \<Rightarrow> hap_iface \<Rightarrow> hap_iface" where
  "emit ev i = i\<lparr>hap_events := hap_events i @ [ev]\<rparr>"

definition emit_if :: "bool \<Rightarrow> hap_event \<Rightarrow> hap_iface \<Rightarrow> hap_iface" where
  "emit_if c ev i = (if c then emit ev i else i)"

section \<open>The station table\<close>

definition STA_HASH_SIZE :: nat where
  "STA_HASH_SIZE = 256"

fun STA_HASH :: "mac \<Rightarrow> nat" where
  "STA_HASH (MAC a b c d e f) = unat f"

definition ap_get_sta :: "mac \<Rightarrow> hapd \<Rightarrow> ptr res" where
  "ap_get_sta addr h = find_in (\<lambda>s. \<not> sta_addr s \<noteq> addr) (STA_HASH addr) (hap_stas h)"

definition ap_sta_hash_add :: "sta_info \<Rightarrow> hapd \<Rightarrow> (nat \<times> hapd) res" where
  "ap_sta_hash_add sta h = bindE (push_front sta (STA_HASH (sta_addr sta)) (hap_stas h)) (\<lambda>(q, t).
     Inr (q, h\<lparr>hap_stas := t\<rparr>))"

definition ap_sta_hash_del :: "sta_info \<Rightarrow> hapd \<Rightarrow> hapd res" where
  "ap_sta_hash_del sta h = bindE (del_first (\<lambda>s. sta_addr s = sta_addr sta) (STA_HASH (sta_addr sta)) (hap_stas h))
     (\<lambda>t. Inr (h\<lparr>hap_stas := t\<rparr>))"

text \<open>\<open>hapd->sta_list\<close> and the \<open>next\<close> pointers, as the list of the nodes in order.\<close>

definition ap_sta_list_del :: "nat \<Rightarrow> hapd \<Rightarrow> hapd" where
  "ap_sta_list_del q h = h\<lparr>sta_list := remove1 q (sta_list h)\<rparr>"

definition ap_sta_add :: "hap_conf \<Rightarrow> hap_env \<Rightarrow> mac \<Rightarrow> hapd \<Rightarrow> (ptr \<times> hapd) res" where
  "ap_sta_add conf he addr h = bindE (ap_get_sta addr h) (\<lambda>sta.
     case sta of
       Some q \<Rightarrow> Inr (Some q, h)
     | None \<Rightarrow>
         if hap_num_sta h \<ge> int (conf_max_num_sta conf) then Inr (None, h)
         else if \<not> zalloc_ok he then Inr (None, h)
         else if accounting_id he < 0 then Inr (None, h)
         else
           let h = (if drv_inactivity_timer conf then h else h\<lparr>iface := emit (Register_timer addr) (iface h)\<rparr>) in
           bindE (ap_sta_hash_add (zeroed_sta\<lparr>sta_addr := addr, last_seq_ctrl := WLAN_INVALID_MGMT_SEQ\<rparr>)
                    (h\<lparr>hap_num_sta := hap_num_sta h + 1\<rparr>)) (\<lambda>(q, h).
             Inr (Some q, h\<lparr>sta_list := q # sta_list h\<rparr>)))"

definition ap_sta_set_authorized :: "bool \<Rightarrow> sta_info \<Rightarrow> hap_iface \<Rightarrow> sta_info \<times> hap_iface" where
  "ap_sta_set_authorized authorized sta i =
     (if authorized = (sta_flags sta AND WLAN_STA_AUTHORIZED \<noteq> 0) then (sta, i)
      else (sta\<lparr>sta_flags := (if authorized then sta_flags sta OR WLAN_STA_AUTHORIZED
                             else sta_flags sta AND NOT WLAN_STA_AUTHORIZED)\<rparr>,
            emit (Sta_authorized (sta_addr sta) authorized) i))"

text \<open>Reading and writing \<open>*sta\<close>.\<close>

definition sta_at :: "nat \<Rightarrow> hapd \<Rightarrow> sta_info res" where
  "sta_at q h = bindE (deref (hap_stas h) q) (\<lambda>c. Inr (item c))"

definition set_sta :: "nat \<Rightarrow> sta_info \<Rightarrow> hapd \<Rightarrow> hapd res" where
  "set_sta q sta h = bindE (upd_item (\<lambda>_. sta) q (hap_stas h)) (\<lambda>t. Inr (h\<lparr>hap_stas := t\<rparr>))"

section \<open>Adding a station that was associated elsewhere\<close>

definition auth_alg_ok :: "hap_conf \<Rightarrow> u16 \<Rightarrow> bool" where
  "auth_alg_ok conf alg \<longleftrightarrow> auth_alg_open conf \<and> alg = WLAN_AUTH_OPEN \<or> auth_alg_shared conf \<and> alg = WLAN_AUTH_SHARED_KEY"

text \<open>A driver that keeps the state of its clients is told to forget the station and to add it again;
  the first component says that it failed.\<close>

definition readd_to_driver :: "hap_conf \<Rightarrow> hap_env \<Rightarrow> sta_info \<Rightarrow> hap_iface \<Rightarrow> bool \<times> sta_info \<times> hap_iface" where
  "readd_to_driver conf he sta i =
     (if full_ap_client_state conf \<and> (sta_flags sta AND WLAN_STA_MFP = 0 \<or> sta_flags sta AND WLAN_STA_AUTHORIZED = 0) \<and>
         \<not> added_unassoc sta then
        (let (sta, i) = ap_sta_set_authorized False sta i;
             i = emit (Drv_sta_remove (sta_addr sta)) i;
             sta = sta\<lparr>sta_flags := sta_flags sta AND NOT (WLAN_STA_ASSOC OR WLAN_STA_AUTH OR WLAN_STA_AUTHORIZED)\<rparr>;
             i = emit (Drv_sta_add (sta_addr sta) (sta_flags sta)) i
         in if drv_sta_add_ret he \<noteq> 0 then (True, sta, i) else (False, sta\<lparr>added_unassoc := True\<rparr>, i))
      else (False, sta, i))"

definition copy_capabilities :: "infoSTA \<Rightarrow> sta_info \<Rightarrow> sta_info res" where
  "copy_capabilities infoSta sta =
     (let n = unat (si_supported_rates_len infoSta);
          sta = sta\<lparr>sta_flags := sta_flags sta OR WLAN_STA_AUTH, sta_capability := si_capability infoSta,
            sta_listen_interval := si_listen_interval infoSta\<rparr>
      in bindE (rd (si_supported_rates infoSta) 0 n) (\<lambda>rates.
         bindE (wr (sta_supported_rates sta) 0 rates) (\<lambda>rates.
           Inr (sta\<lparr>sta_supported_rates := rates, sta_supported_rates_len := sint (si_supported_rates_len infoSta),
             last_subtype := WLAN_FC_STYPE_ASSOC_REQ\<rparr>))))"

text \<open>A station without a rate above 11 Mb/s is not an ERP station.\<close>

definition update_nonerp :: "hap_conf \<Rightarrow> sta_info \<Rightarrow> hap_iface \<Rightarrow> sta_info \<times> hap_iface" where
  "update_nonerp conf sta i =
     (let sta = (if mode_11g conf then sta\<lparr>sta_flags := sta_flags sta OR WLAN_STA_NONERP\<rparr> else sta);
          sta = (if \<exists>r \<in> set (take (nat (sta_supported_rates_len sta)) (sta_supported_rates sta)). r AND 0x7f > 22
                 then sta\<lparr>sta_flags := sta_flags sta AND NOT WLAN_STA_NONERP\<rparr> else sta)
      in if sta_flags sta AND WLAN_STA_NONERP \<noteq> 0 \<and> \<not> nonerp_set sta then
           (let i = i\<lparr>num_sta_non_erp := num_sta_non_erp i + 1\<rparr>
            in (sta\<lparr>nonerp_set := True\<rparr>, emit_if (num_sta_non_erp i = 1) Set_beacons i))
         else (sta, i))"

definition update_slot_time :: "hap_conf \<Rightarrow> sta_info \<Rightarrow> hap_iface \<Rightarrow> sta_info \<times> hap_iface" where
  "update_slot_time conf sta i =
     (if sta_capability sta AND WLAN_CAPABILITY_SHORT_SLOT_TIME = 0 \<and> \<not> no_short_slot_time_set sta then
        (let i = i\<lparr>num_sta_no_short_slot_time := num_sta_no_short_slot_time i + 1\<rparr>
         in (sta\<lparr>no_short_slot_time_set := True\<rparr>,
             emit_if (mode_11g conf \<and> num_sta_no_short_slot_time i = 1) Set_beacons i))
      else (sta, i))"

definition update_preamble :: "hap_conf \<Rightarrow> sta_info \<Rightarrow> hap_iface \<Rightarrow> sta_info \<times> hap_iface" where
  "update_preamble conf sta i =
     (let short = (sta_capability sta AND WLAN_CAPABILITY_SHORT_PREAMBLE \<noteq> 0);
          sta = sta\<lparr>sta_flags := (if short then sta_flags sta OR WLAN_STA_SHORT_PREAMBLE
                                  else sta_flags sta AND NOT WLAN_STA_SHORT_PREAMBLE)\<rparr>
      in if \<not> short \<and> \<not> no_short_preamble_set sta then
           (let i = i\<lparr>num_sta_no_short_preamble := num_sta_no_short_preamble i + 1\<rparr>
            in (sta\<lparr>no_short_preamble_set := True\<rparr>,
                emit_if (mode_11g conf \<and> num_sta_no_short_preamble i = 1) Set_beacons i))
         else (sta, i))"

text \<open>The station is marked as associated, and the other subsystems are told. The first part is what an
  acknowledged association response does as well.\<close>

definition ack_association :: "hap_conf \<Rightarrow> bool \<Rightarrow> sta_info \<Rightarrow> hap_iface \<Rightarrow> sta_info \<times> hap_iface" where
  "ack_association conf reassoc sta i =
     (let i = emit (Accounting_stop (sta_addr sta)) i;
          sta = sta\<lparr>sta_flags := (sta_flags sta OR WLAN_STA_ASSOC) AND NOT WLAN_STA_WNM_SLEEP_MODE\<rparr>;
          (sta, i) = (if \<not> conf_ieee802_1x conf \<and> \<not> conf_wpa conf \<and> \<not> conf_osen conf \<or> sta_auth_alg sta \<in> {4, 5, 6, WLAN_AUTH_FT}
                      then ap_sta_set_authorized True sta i else (sta, i));
          i = emit (if reassoc then Mlme_reassociate (sta_addr sta) else Mlme_associate (sta_addr sta)) i
      in (sta\<lparr>sa_query_timed_out := 0\<rparr>, i))"

definition mark_associated :: "hap_conf \<Rightarrow> sta_info \<Rightarrow> hap_iface \<Rightarrow> sta_info \<times> hap_iface" where
  "mark_associated conf sta i =
     ack_association conf False (sta\<lparr>sta_flags := sta_flags sta OR WLAN_STA_ASSOC_REQ_OK, timeout_next := STA_NULLFUNC\<rparr>) i"

definition finish_association :: "hap_env \<Rightarrow> bool \<Rightarrow> sta_info \<Rightarrow> hap_iface \<Rightarrow> sta_info \<times> hap_iface" where
  "finish_association he new_assoc sta i =
     (let a = sta_addr sta;
          i = emit (Set_sta_flags a (sta_flags sta)) i;
          sta = (if sta_flags sta AND WLAN_STA_WDS = 0 \<and> pending_wds_enable sta
                 then sta\<lparr>pending_wds_enable := False, sta_flags := sta_flags sta OR WLAN_STA_WDS\<rparr> else sta);
          wds = (sta_flags sta AND (WLAN_STA_WDS OR WLAN_STA_MULTI_AP) \<noteq> 0);
          i = emit_if wds (Set_wds_sta a True) i;
          i = emit_if (wds \<and> set_wds_ret he = 0) (Set_wds_encryption a) i;
          i = emit (Wpa_event a (if sta_auth_alg sta = WLAN_AUTH_FT then ''WPA_ASSOC_FT'' else ''WPA_ASSOC'')) i;
          i = emit (New_assoc_sta a (\<not> new_assoc)) i;
          i = emit (Port_enabled a True) i
      in if has_pending_eapol_rx sta
         then (sta\<lparr>has_pending_eapol_rx := False\<rparr>, emit_if (eapol_recent he) (Eapol_receive a) i)
         else (sta, i))"

text \<open>\<open>add_STA\<close> on the station found or added.\<close>

definition add_STA_body :: "hap_conf \<Rightarrow> hap_env \<Rightarrow> infoSTA \<Rightarrow> sta_info \<Rightarrow> hap_iface \<Rightarrow> (sta_info \<times> hap_iface) res" where
  "add_STA_body conf he infoSta sta i =
     (let sta = sta\<lparr>last_seq_ctrl := WLAN_INVALID_MGMT_SEQ, has_psk := False, has_identity := False, has_radius_cui := False,
            sta_flags := sta_flags sta AND NOT WLAN_STA_PREAUTH\<rparr>;
          i = emit (Notify_pre_auth (sta_addr sta) False) i;
          (failed, sta, i) = readd_to_driver conf he sta i
      in if failed then Inr (sta, i)
         else bindE (copy_capabilities infoSta sta) (\<lambda>sta.
           let (sta, i) = update_nonerp conf sta i;
               (sta, i) = update_slot_time conf sta i;
               (sta, i) = update_preamble conf sta i;
               new_assoc = (sta_flags sta AND WLAN_STA_ASSOC = 0);
               (sta, i) = mark_associated conf sta i;
               bind = (\<not> has_eapol_sm sta \<or> sta_vlan_id sta \<noteq> 0);
               i = emit_if bind (Bind_vlan (sta_addr sta)) i
           in if bind \<and> bind_vlan_ret he < 0 then Inr (sta, i)
              else Inr (finish_association he new_assoc sta i)))"

definition add_STA :: "hap_conf \<Rightarrow> hap_env \<Rightarrow> infoSTA \<Rightarrow> hapd \<Rightarrow> hapd res" where
  "add_STA conf he infoSta h =
     (if \<not> auth_alg_ok conf (si_auth_alg infoSta) then Inr h
      else bindE (ap_get_sta (si_address infoSta) h) (\<lambda>sta.
        bindE (case sta of Some q \<Rightarrow> Inr (sta, h) | None \<Rightarrow> ap_sta_add conf he (si_address infoSta) h) (\<lambda>(sta, h).
        case sta of
          None \<Rightarrow> Inr h
        | Some q \<Rightarrow>
            bindE (sta_at q h) (\<lambda>sta.
            bindE (add_STA_body conf he infoSta sta (iface h)) (\<lambda>(sta, i).
              set_sta q sta (h\<lparr>iface := i\<rparr>))))))"

section \<open>Removing a station\<close>

text \<open>The counters are released, and the beacons set when one of them becomes zero.\<close>

definition release_counters :: "hap_conf \<Rightarrow> sta_info \<Rightarrow> hap_iface \<Rightarrow> hap_iface" where
  "release_counters conf sta i =
     (let i1 = (if nonerp_set sta then i\<lparr>num_sta_non_erp := num_sta_non_erp i - 1\<rparr> else i);
          i2 = (if no_short_slot_time_set sta then i1\<lparr>num_sta_no_short_slot_time := num_sta_no_short_slot_time i1 - 1\<rparr> else i1);
          i3 = (if no_short_preamble_set sta then i2\<lparr>num_sta_no_short_preamble := num_sta_no_short_preamble i2 - 1\<rparr> else i2)
      in if nonerp_set sta \<and> num_sta_non_erp i1 = 0 \<or>
            no_short_slot_time_set sta \<and> mode_11g conf \<and> num_sta_no_short_slot_time i2 = 0 \<or>
            no_short_preamble_set sta \<and> mode_11g conf \<and> num_sta_no_short_preamble i3 = 0
         then emit Set_beacons i3 else i3)"

definition release_aid :: "u16 \<Rightarrow> u32 list \<Rightarrow> u32 list res" where
  "release_aid aid m =
     (if aid = 0 then Inr m
      else let k = (unat aid - 1) div 32 in
        if k < length m then Inr (m[k := m ! k AND NOT (BIT ((unat aid - 1) mod 32))]) else Inl OutOfBounds)"

definition ap_free_sta :: "hap_conf \<Rightarrow> nat \<Rightarrow> sta_info \<Rightarrow> hapd \<Rightarrow> hapd res" where
  "ap_free_sta conf q sta h =
     (let a = sta_addr sta;
          i = emit (Accounting_stop a) (iface h);
          (sta, i) = ap_sta_set_authorized False sta i;
          i = emit_if (sta_flags sta AND (WLAN_STA_WDS OR WLAN_STA_MULTI_AP) \<noteq> 0) (Set_wds_sta a False) i;
          i = emit_if (sta_ipaddr sta \<noteq> 0) (Delete_ip_neigh a) i;
          i = emit_if (\<not> driver_ap_teardown conf \<and> sta_flags sta AND WLAN_STA_PREAUTH = 0) (Drv_sta_remove a) i
      in bindE (ap_sta_hash_del sta h) (\<lambda>h.
         let h = ap_sta_list_del q h in
         bindE (release_aid (sta_aid sta) (hap_sta_aid h)) (\<lambda>m.
         bindE (free_ptr q (hap_stas h)) (\<lambda>t.
           Inr (h\<lparr>hap_stas := t, hap_sta_aid := m, hap_num_sta := hap_num_sta h - 1,
             iface := emit (Free_8021x a) (release_counters conf sta i)\<rparr>)))))"

definition remove_STA :: "hap_conf \<Rightarrow> infoSTA \<Rightarrow> hapd \<Rightarrow> hapd res" where
  "remove_STA conf infoSta h = bindE (ap_get_sta (si_address infoSta) h) (\<lambda>p.
     case p of
       None \<Rightarrow> Inr h
     | Some q \<Rightarrow> bindE (sta_at q h) (\<lambda>sta.
         let (sta, i) = ap_sta_set_authorized False sta (iface h);
             a = sta_addr sta;
             sta = sta\<lparr>last_seq_ctrl := WLAN_INVALID_MGMT_SEQ,
               sta_flags := sta_flags sta AND NOT (WLAN_STA_AUTH OR WLAN_STA_ASSOC OR WLAN_STA_ASSOC_REQ_OK),
               acct_terminate_cause := 1, has_eapol_sm := False\<rparr>;
             i = emit (Free_8021x a) (emit (Accounting_stop a) (emit (Port_enabled a False)
                   (emit (Mlme_disassociate a) (emit (Wpa_event a ''WPA_DEAUTH'') i))));
             i = emit_if (sta_ipaddr sta \<noteq> 0) (Delete_ip_neigh a) i;
             i = emit (Drv_sta_remove a) i
         in ap_free_sta conf q sta (h\<lparr>iface := i\<rparr>)))"

section \<open>Counters and stations\<close>

text \<open>A step on one station keeps its address and moves each counter with the flag that stands for
  it.\<close>

definition balanced :: "sta_info \<times> hap_iface \<Rightarrow> sta_info \<times> hap_iface \<Rightarrow> bool" where
  "balanced a b \<longleftrightarrow> sta_addr (fst b) = sta_addr (fst a) \<and>
     num_sta_non_erp (snd b) - of_bool (nonerp_set (fst b)) = num_sta_non_erp (snd a) - of_bool (nonerp_set (fst a)) \<and>
     num_sta_no_short_slot_time (snd b) - of_bool (no_short_slot_time_set (fst b)) =
       num_sta_no_short_slot_time (snd a) - of_bool (no_short_slot_time_set (fst a)) \<and>
     num_sta_no_short_preamble (snd b) - of_bool (no_short_preamble_set (fst b)) =
       num_sta_no_short_preamble (snd a) - of_bool (no_short_preamble_set (fst a))"

lemma balanced_trans: "balanced a b \<Longrightarrow> balanced b c \<Longrightarrow> balanced a c"
  by (simp add: balanced_def)

lemma emit_simps [simp]:
  "num_sta_non_erp (emit ev i) = num_sta_non_erp i"
  "num_sta_no_short_slot_time (emit ev i) = num_sta_no_short_slot_time i"
  "num_sta_no_short_preamble (emit ev i) = num_sta_no_short_preamble i"
  "hap_events (emit ev i) = hap_events i @ [ev]"
  "num_sta_non_erp (emit_if c ev i) = num_sta_non_erp i"
  "num_sta_no_short_slot_time (emit_if c ev i) = num_sta_no_short_slot_time i"
  "num_sta_no_short_preamble (emit_if c ev i) = num_sta_no_short_preamble i"
  by (simp_all add: emit_def emit_if_def)

lemma set_authorized_balanced: "balanced (sta, i) (ap_sta_set_authorized b sta i)"
  by (simp add: ap_sta_set_authorized_def balanced_def)

lemma readd_balanced:
  assumes "readd_to_driver conf he sta i = (f, sta', i')"
  shows "balanced (sta, i) (sta', i')"
proof -
  obtain s1 i1 where s: "ap_sta_set_authorized False sta i = (s1, i1)" by (metis prod.exhaust)
  let ?F = "sta_flags s1 AND NOT (WLAN_STA_ASSOC OR WLAN_STA_AUTH OR WLAN_STA_AUTHORIZED)"
  let ?i = "emit (Drv_sta_add (sta_addr s1) ?F) (emit (Drv_sta_remove (sta_addr s1)) i1)"
  have c: "(sta', i') \<in> {(sta, i), (s1\<lparr>sta_flags := ?F\<rparr>, ?i), (s1\<lparr>sta_flags := ?F, added_unassoc := True\<rparr>, ?i)}"
    using assms unfolding readd_to_driver_def Let_def s
    by (simp only: prod.case sta_info.simps Pair_inject split: if_split_asm) simp_all
  have "balanced (sta, i) (s1, i1)" using set_authorized_balanced [of sta i False] s by simp
  then show ?thesis using c by (elim insertE emptyE) (simp_all add: balanced_def)
qed

lemma copy_balanced: "copy_capabilities info sta = Inr sta' \<Longrightarrow> balanced (sta, i) (sta', i)"
  by (auto simp: copy_capabilities_def balanced_def Let_def elim!: bindE_E)

lemma nonerp_balanced: "balanced (sta, i) (update_nonerp conf sta i)"
proof -
  define s1 where "s1 = (if mode_11g conf then sta\<lparr>sta_flags := sta_flags sta OR WLAN_STA_NONERP\<rparr> else sta)"
  define s2 where "s2 = (if \<exists>r \<in> set (take (nat (sta_supported_rates_len s1)) (sta_supported_rates s1)). r AND 0x7f > 22
                 then s1\<lparr>sta_flags := sta_flags s1 AND NOT WLAN_STA_NONERP\<rparr> else s1)"
  have "balanced (sta, i) (s1, i)" by (simp add: s1_def balanced_def)
  moreover have "balanced (s1, i) (s2, i)" by (simp add: s2_def balanced_def)
  moreover have "balanced (s2, i) (update_nonerp conf sta i)"
    unfolding update_nonerp_def Let_def s1_def [symmetric] s2_def [symmetric] by (simp add: balanced_def)
  ultimately show ?thesis by (blast intro: balanced_trans)
qed

lemma slot_time_balanced: "balanced (sta, i) (update_slot_time conf sta i)"
  by (simp add: update_slot_time_def balanced_def Let_def)

lemma preamble_balanced: "balanced (sta, i) (update_preamble conf sta i)"
  by (simp add: update_preamble_def balanced_def Let_def)

lemma ack_balanced: "balanced (sta, i) (ack_association conf re sta i)"
proof -
  let ?s1 = "sta\<lparr>sta_flags := (sta_flags sta OR WLAN_STA_ASSOC) AND NOT WLAN_STA_WNM_SLEEP_MODE\<rparr>"
  obtain s2 i2 where s: "ap_sta_set_authorized True ?s1 (emit (Accounting_stop (sta_addr sta)) i) = (s2, i2)" by (metis prod.exhaust)
  have "balanced (?s1, emit (Accounting_stop (sta_addr sta)) i) (s2, i2)" using set_authorized_balanced s by metis
  then show ?thesis by (simp add: ack_association_def Let_def s) (simp add: balanced_def)
qed

lemma mark_balanced: "balanced (sta, i) (mark_associated conf sta i)"
  unfolding mark_associated_def by (rule balanced_trans [OF _ ack_balanced]) (simp add: balanced_def)

lemma finish_balanced: "balanced (sta, i) (finish_association he new sta i)"
proof -
  have "nonerp_set (if c then sta\<lparr>pending_wds_enable := False, sta_flags := w\<rparr> else sta) = nonerp_set sta"
    "no_short_slot_time_set (if c then sta\<lparr>pending_wds_enable := False, sta_flags := w\<rparr> else sta) = no_short_slot_time_set sta"
    "no_short_preamble_set (if c then sta\<lparr>pending_wds_enable := False, sta_flags := w\<rparr> else sta) = no_short_preamble_set sta"
    "sta_addr (if c then sta\<lparr>pending_wds_enable := False, sta_flags := w\<rparr> else sta) = sta_addr sta" for c w by simp_all
  then show ?thesis by (simp add: finish_association_def balanced_def Let_def del: if_split split: if_split)
qed

lemma emit_balanced: "balanced (sta, i) (sta, emit ev i)" "balanced a a"
  by (simp_all add: balanced_def)

lemma add_body_balanced:
  assumes "add_STA_body conf he info sta i = Inr b"
  shows "balanced (sta, i) b"
proof -
  let ?sta = "sta\<lparr>last_seq_ctrl := WLAN_INVALID_MGMT_SEQ, has_psk := False, has_identity := False, has_radius_cui := False,
            sta_flags := sta_flags sta AND NOT WLAN_STA_PREAUTH\<rparr>"
  obtain f sta1 i1 where r: "readd_to_driver conf he ?sta (emit (Notify_pre_auth (sta_addr ?sta) False) i) = (f, sta1, i1)"
    by (metis prod_cases3)
  have b1: "balanced (sta, i) (sta1, i1)" using readd_balanced [OF r] by (simp add: balanced_def)
  show ?thesis
  proof (cases f)
    case True
    then show ?thesis using assms r b1 by (simp add: add_STA_body_def Let_def)
  next
    case False
    then obtain sta2 where c: "copy_capabilities info sta1 = Inr sta2"
      using assms r by (auto simp: add_STA_body_def Let_def elim!: bindE_E)
    obtain sta3 i3 where n3: "update_nonerp conf sta2 i1 = (sta3, i3)" by (metis prod.exhaust)
    obtain sta4 i4 where n4: "update_slot_time conf sta3 i3 = (sta4, i4)" by (metis prod.exhaust)
    obtain sta5 i5 where n5: "update_preamble conf sta4 i4 = (sta5, i5)" by (metis prod.exhaust)
    obtain sta6 i6 where n6: "mark_associated conf sta5 i5 = (sta6, i6)" by (metis prod.exhaust)
    have b6: "balanced (sta, i) (sta6, i6)"
      using b1 copy_balanced [OF c, of i1] nonerp_balanced [of sta2 i1 conf] slot_time_balanced [of sta3 i3 conf]
        preamble_balanced [of sta4 i4 conf] mark_balanced [of sta5 i5 conf]
      by (metis balanced_trans n3 n4 n5 n6)
    then have b7: "balanced (sta, i) (sta6, emit_if c ev i6)" for c ev by (simp add: balanced_def)
    show ?thesis
      using assms r False c n3 n4 n5 n6 b7 balanced_trans [OF b7 finish_balanced]
      by (auto simp: add_STA_body_def Let_def split: if_splits)
  qed
qed

end
