(* ===== verification/Hap_Inv.thy ===== *)
theory Hap_Inv
  imports Hap_Sta
begin

text \<open>
  What \<open>add_STA\<close> and \<open>remove_STA\<close> keep and what they achieve. The invariant \<open>hap_inv\<close> ties the four
  counters of hostapd, and its list of stations, to the hash table; the map \<open>hap_abs\<close> from addresses
  to stations is what the table stands for. A station that the controller adds is authenticated,
  associated and has the capabilities that the other access point recorded; a station that it removes
  is gone; all other stations are as before, and adding and removing a station restores the table.
\<close>

section \<open>The invariant\<close>

definition nodes :: "'a chains \<Rightarrow> nat set" where
  "nodes t = (\<Union>h < length (table t). fst ` set (bucket_list t h))"

definition counters :: "hap_iface \<Rightarrow> sta_info multiset \<Rightarrow> bool" where
  "counters i M \<longleftrightarrow> num_sta_non_erp i = int (size (filter_mset nonerp_set M)) \<and>
     num_sta_no_short_slot_time i = int (size (filter_mset no_short_slot_time_set M)) \<and>
     num_sta_no_short_preamble i = int (size (filter_mset no_short_preamble_set M))"

definition sta_ok :: "nat \<Rightarrow> sta_info \<Rightarrow> bool" where
  "sta_ok w s \<longleftrightarrow> length (sta_supported_rates s) = WLAN_SUPP_RATES_MAX \<and> unat (sta_aid s) \<le> 32 * w"

definition hap_inv :: "hapd \<Rightarrow> bool" where
  "hap_inv h \<longleftrightarrow> wf_chains (STA_HASH \<circ> sta_addr) (hap_stas h) \<and> length (table (hap_stas h)) = STA_HASH_SIZE \<and>
     chain_uniq sta_addr (hap_stas h) \<and> hap_num_sta h = int (size (contents (hap_stas h))) \<and>
     counters (iface h) (contents (hap_stas h)) \<and> distinct (sta_list h) \<and> set (sta_list h) = nodes (hap_stas h) \<and>
     (\<forall>s \<in># contents (hap_stas h). sta_ok (length (hap_sta_aid h)) s)"

abbreviation hap_find :: "hapd \<Rightarrow> mac \<Rightarrow> (nat \<times> sta_info) option" where
  "hap_find h a \<equiv> chain_find sta_addr STA_HASH (hap_stas h) a"

definition hap_abs :: "hapd \<Rightarrow> mac \<Rightarrow> sta_info option" where
  "hap_abs h a = map_option snd (hap_find h a)"

definition hap_new :: "mac \<Rightarrow> sta_info" where
  "hap_new addr = zeroed_sta\<lparr>sta_addr := addr, last_seq_ctrl := WLAN_INVALID_MGMT_SEQ\<rparr>"

interpretation hap: chained sta_addr STA_HASH hap_new ok for ok
  by unfold_locales (simp add: hap_new_def)

lemma STA_HASH_less: "STA_HASH a < STA_HASH_SIZE"
proof (cases a)
  case (MAC u v w x y z)
  then show ?thesis using unsigned_less [of z, where 'a = nat] by (simp add: STA_HASH_SIZE_def)
qed

lemma hap_invD:
  assumes "hap_inv h"
  shows "wf_chains (STA_HASH \<circ> sta_addr) (hap_stas h)" "STA_HASH a < length (table (hap_stas h))"
    "chain_uniq sta_addr (hap_stas h)" "chain_valid STA_HASH (hap_stas h) a"
  using assms STA_HASH_less by (simp_all add: hap_inv_def chain_valid_def)

definition hapd_init :: "nat \<Rightarrow> hapd" where
  "hapd_init w = \<lparr>hap_stas = chains_init STA_HASH_SIZE, sta_list = [], hap_num_sta = 0, hap_sta_aid = replicate w 0,
     iface = \<lparr>num_sta_non_erp = 0, num_sta_no_short_slot_time = 0, num_sta_no_short_preamble = 0, hap_events = []\<rparr>\<rparr>"

lemma hap_inv_init: "hap_inv (hapd_init w)"
  by (simp add: hap_inv_def hapd_init_def counters_def nodes_def)

lemma hap_abs_init: "hap_abs (hapd_init w) a = None"
  using STA_HASH_less by (simp add: hap_abs_def hapd_init_def chain_find_def)

lemma ap_get_sta_eq:
  assumes "hap_inv h"
  shows "ap_get_sta a h = Inr (map_option fst (hap_find h a))"
  using hap.find_chain_lookup [OF hap_invD(1,4) [OF assms]]
  by (simp add: ap_get_sta_def chain_lookup_def chain_view_def)

lemma sta_at_find:
  assumes "hap_inv h" "hap_find h a = Some (q, x)"
  shows "sta_at q h = Inr x" "sta_addr x = a"
  using hap.chain_find_deref [OF hap_invD(1,4) [OF assms(1)] assms(2)] hap.chain_find_in_bucket(2) [OF assms(2)]
  by (auto simp: sta_at_def)

lemma find_in_contents:
  assumes "hap_inv h" "hap_find h a = Some (q, x)"
  shows "x \<in># contents (hap_stas h)" "sta_ok (length (hap_sta_aid h)) x"
proof -
  show "x \<in># contents (hap_stas h)"
    using hap.chain_find_in_bucket(1) [OF assms(2)] hap_invD(2) [OF assms(1)] by (auto simp: in_contents)
  then show "sta_ok (length (hap_sta_aid h)) x" using assms(1) by (simp add: hap_inv_def)
qed

section \<open>Changing one station\<close>

lemma counters_balanced:
  assumes "counters i M" "add_mset x M' = add_mset y M" "balanced (x, i) (y, i')"
  shows "counters i' M'"
proof -
  have "size (filter_mset P M') + of_bool (P x) = size (filter_mset P M) + of_bool (P y)" for P
    using arg_cong [OF assms(2), of "\<lambda>M. size (filter_mset P M)"] by (simp split: if_splits)
  then have "int (size (filter_mset P M')) = int (size (filter_mset P M)) + of_bool (P y) - of_bool (P x)" for P
    by (metis add_diff_cancel_right' of_nat_add of_nat_of_bool)
  then show ?thesis using assms(1,3) by (simp add: counters_def balanced_def)
qed

lemma nodes_cong:
  assumes "length (table t') = length (table t)"
    "\<forall>k < length (table t). fst ` set (bucket_list t' k) = fst ` set (bucket_list t k)"
  shows "nodes t' = nodes t"
  using assms by (simp add: nodes_def)

lemma Union_insert_one:
  "h < (n::nat) \<Longrightarrow> \<forall>k < n. A k = (if k = h then insert q (B k) else B k) \<Longrightarrow> (\<Union>k<n. A k) = insert q (\<Union>k<n. B k)"
  by (auto split: if_splits)

lemma nodes_insert:
  assumes "h < length (table t)" "length (table t') = length (table t)"
    "\<forall>k < length (table t). fst ` set (bucket_list t' k) =
       (if k = h then insert q (fst ` set (bucket_list t k)) else fst ` set (bucket_list t k))"
  shows "nodes t' = insert q (nodes t)"
  unfolding nodes_def assms(2) by (rule Union_insert_one [OF assms(1,3)])

lemma hap_set:
  assumes inv: "hap_inv h" and f: "hap_find h a = Some (q, x)" and b: "balanced (x, iface h) (y, i)"
    and ok: "sta_ok (length (hap_sta_aid h)) y"
  shows "\<exists>h'. set_sta q y (h\<lparr>iface := i\<rparr>) = Inr h' \<and> hap_inv h' \<and> hap_abs h' = (hap_abs h)(a \<mapsto> y) \<and>
    hap_find h' a = Some (q, y) \<and> iface h' = i \<and> hap_num_sta h' = hap_num_sta h \<and> hap_sta_aid h' = hap_sta_aid h"
proof -
  let ?t = "hap_stas h"
  note I = hap_invD [OF inv]
  have x: "sta_addr x = a" using sta_at_find(2) [OF inv f] .
  then have y: "sta_addr y = a" using b by (simp add: balanced_def)
  obtain n where n: "deref ?t q = Inr (Cell x n)" using hap.chain_find_deref [OF I(1) I(4) f] by blast
  have hy: "(STA_HASH \<circ> sta_addr) y = (STA_HASH \<circ> sta_addr) x" by (simp add: x y)
  obtain t where t: "upd_item (\<lambda>_. y) q ?t = Inr t" "wf_chains (STA_HASH \<circ> sta_addr) t" "table t = table ?t"
    and bl: "\<forall>k < length (table ?t). bucket_list t k = map (\<lambda>(r, z). (r, if r = q then y else z)) (bucket_list ?t k)"
    by (rule upd_item_wf [where f = "\<lambda>_. y", OF I(1) n hy])
  obtain t1 where "upd_item (\<lambda>_. y) q ?t = Inr t1" and fd: "\<forall>b. chain_valid STA_HASH ?t b \<longrightarrow>
      chain_find sta_addr STA_HASH t1 b = (if b = a then Some (q, y) else hap_find h b)"
    by (rule hap.chain_find_upd_item [where f = "\<lambda>_. y", OF I(1) I(4) f y])
  then have fd: "chain_find sta_addr STA_HASH t b = (if b = a then Some (q, y) else hap_find h b)" for b
    using t(1) I(4) by auto
  have c: "add_mset x (contents t) = add_mset y (contents ?t)"
    by (rule contents_upd [OF I(1) I(2) hap.chain_find_in_bucket(1) [OF f]]) (use t(3) bl in auto)
  have "fst ` set (bucket_list t k) = fst ` set (bucket_list ?t k)" if "k < length (table ?t)" for k
    using bl that by force
  then have "nodes t = nodes ?t" using t(3) by (intro nodes_cong) auto
  moreover have "chain_uniq sta_addr t" by (rule hap.chain_uniq_upd [OF I(3,1) n _ t(1)]) (simp add: x y)
  moreover have "size (contents t) = size (contents ?t)" using arg_cong [OF c, of size] by simp
  moreover have "counters i (contents t)"
    by (rule counters_balanced [OF _ c b]) (use inv in \<open>simp add: hap_inv_def\<close>)
  moreover have "\<forall>s \<in># contents t. sta_ok (length (hap_sta_aid h)) s"
    using inv ok c unfolding hap_inv_def by (metis insert_iff set_mset_add_mset_insert)
  ultimately have "hap_inv (h\<lparr>iface := i, hap_stas := t\<rparr>)" using inv t(2,3) by (simp add: hap_inv_def)
  then show ?thesis using t(1) fd by (auto simp: set_sta_def hap_abs_def fun_eq_iff)
qed

section \<open>Adding\<close>

lemma ap_sta_add_new:
  assumes inv: "hap_inv h" and n: "hap_find h a = None" and r: "hap_num_sta h < int (conf_max_num_sta conf)"
    "zalloc_ok he" "accounting_id he \<ge> 0"
  shows "\<exists>q h'. ap_sta_add conf he a h = Inr (Some q, h') \<and> hap_inv h' \<and> hap_find h' a = Some (q, hap_new a) \<and>
    hap_abs h' = (hap_abs h)(a \<mapsto> hap_new a) \<and> hap_num_sta h' = hap_num_sta h + 1 \<and> hap_sta_aid h' = hap_sta_aid h \<and>
    num_sta_non_erp (iface h') = num_sta_non_erp (iface h) \<and>
    num_sta_no_short_slot_time (iface h') = num_sta_no_short_slot_time (iface h) \<and>
    num_sta_no_short_preamble (iface h') = num_sta_no_short_preamble (iface h)"
proof -
  let ?t = "hap_stas h" and ?q = "length (cells (hap_stas h))" and ?h = "STA_HASH a"
  note I = hap_invD [OF inv]
  have hn: "(STA_HASH \<circ> sta_addr) (hap_new a) = ?h" by (simp add: hap_new_def)
  obtain t where t: "push_front (hap_new a) ?h ?t = Inr (?q, t)" "wf_chains (STA_HASH \<circ> sta_addr) t"
    "length (table t) = length (table ?t)"
    and b: "\<forall>k < length (table ?t). bucket_list t k = (if k = ?h then (?q, hap_new a) # bucket_list ?t ?h else bucket_list ?t k)"
    by (rule push_front_wf [OF I(1) I(2) hn])
  define i where "i = (if drv_inactivity_timer conf then iface h else emit (Register_timer a) (iface h))"
  let ?h' = "h\<lparr>hap_stas := t, hap_num_sta := hap_num_sta h + 1, iface := i, sta_list := ?q # sta_list h\<rparr>"
  have add: "ap_sta_add conf he a h = Inr (Some ?q, ?h')"
    using ap_get_sta_eq [OF inv, of a] n r t(1)
    by (simp add: ap_sta_add_def ap_sta_hash_add_def hap_new_def [symmetric] i_def) (simp add: hap_new_def)
  have c: "contents t = add_mset (hap_new a) (contents ?t)" by (rule contents_push [OF I(2) t(3) b])
  have z: "\<not> nonerp_set (hap_new a)" "\<not> no_short_slot_time_set (hap_new a)" "\<not> no_short_preamble_set (hap_new a)"
    "sta_ok w (hap_new a)" for w by (simp_all add: hap_new_def zeroed_sta_def sta_ok_def)
  have cs: "num_sta_non_erp i = num_sta_non_erp (iface h)" "num_sta_no_short_slot_time i = num_sta_no_short_slot_time (iface h)"
    "num_sta_no_short_preamble i = num_sta_no_short_preamble (iface h)" by (simp_all add: i_def)
  have u: "chain_uniq sta_addr t"
  proof (rule hap.chain_uniq_add [OF I(3,1), where ok = True])
    show "chain_add sta_addr STA_HASH hap_new True a ?t = Inr (Some ?q, t)"
      using hap.find_chain_lookup [OF I(1,4), of a] n t(1) by (simp add: chain_add_def chain_view_def)
  qed
  have "nodes t = insert ?q (nodes ?t)"
    by (rule nodes_insert [OF I(2) t(3)]) (use b in auto)
  moreover have "?q \<notin> nodes ?t"
    unfolding nodes_def using bucket_deref [OF I(1)] deref_less by fastforce
  ultimately have "hap_inv ?h'" using inv t(2,3) c z u cs by (simp add: hap_inv_def counters_def)
  moreover have "hap_find ?h' b = (if b = a then Some (?q, hap_new a) else hap_find h b)" for b
    using b I(2) by (auto simp: chain_find_def hap_new_def)
  ultimately show ?thesis using add cs by (intro exI [of _ ?q] exI [of _ ?h']) (auto simp: hap_abs_def fun_eq_iff)
qed

lemma ap_sta_add_outcome:
  assumes inv: "hap_inv h" and n: "hap_find h a = None"
  obtains (full) "ap_sta_add conf he a h = Inr (None, h)"
      "\<not> (hap_num_sta h < int (conf_max_num_sta conf) \<and> zalloc_ok he \<and> accounting_id he \<ge> 0)"
  | (new) q h' where "ap_sta_add conf he a h = Inr (Some q, h')" "hap_inv h'" "hap_find h' a = Some (q, hap_new a)"
      "hap_abs h' = (hap_abs h)(a \<mapsto> hap_new a)" "hap_sta_aid h' = hap_sta_aid h"
proof (cases "hap_num_sta h < int (conf_max_num_sta conf) \<and> zalloc_ok he \<and> accounting_id he \<ge> 0")
  case True
  then show thesis using ap_sta_add_new [OF inv n] new by metis
next
  case False
  then have "ap_sta_add conf he a h = Inr (None, h)"
    using ap_get_sta_eq [OF inv, of a] n by (auto simp: ap_sta_add_def)
  then show thesis using full False by blast
qed

section \<open>What the steps do to the station\<close>

text \<open>What the other access point recorded is taken over.\<close>

definition same_caps :: "sta_info \<Rightarrow> sta_info \<Rightarrow> bool" where
  "same_caps s s' \<longleftrightarrow> sta_capability s' = sta_capability s \<and> sta_listen_interval s' = sta_listen_interval s \<and>
     sta_supported_rates s' = sta_supported_rates s \<and> sta_supported_rates_len s' = sta_supported_rates_len s \<and>
     sta_aid s' = sta_aid s \<and> sta_qosinfo s' = sta_qosinfo s"

definition same_bits :: "nat set \<Rightarrow> sta_info \<Rightarrow> sta_info \<Rightarrow> bool" where
  "same_bits B s s' \<longleftrightarrow> (\<forall>n < 32. n \<notin> B \<longrightarrow> bit (sta_flags s') n = bit (sta_flags s) n)"

definition admitted :: "infoSTA \<Rightarrow> sta_info \<Rightarrow> bool" where
  "admitted info s \<longleftrightarrow> bit (sta_flags s) 0 \<and> bit (sta_flags s) 1 \<and> bit (sta_flags s) 15 \<and> \<not> bit (sta_flags s) 8 \<and>
     sta_capability s = si_capability info \<and> sta_listen_interval s = si_listen_interval info \<and>
     sta_supported_rates_len s = sint (si_supported_rates_len info) \<and>
     take (unat (si_supported_rates_len info)) (sta_supported_rates s) =
       take (unat (si_supported_rates_len info)) (si_supported_rates info)"

lemmas flag_defs = WLAN_STA_AUTH_def WLAN_STA_ASSOC_def WLAN_STA_AUTHORIZED_def WLAN_STA_SHORT_PREAMBLE_def
  WLAN_STA_PREAUTH_def WLAN_STA_WDS_def WLAN_STA_ASSOC_REQ_OK_def WLAN_STA_WNM_SLEEP_MODE_def WLAN_STA_NONERP_def

lemma bit_BIT: "bit (BIT m) n \<longleftrightarrow> n = m \<and> m < 32"
  unfolding BIT_def bit_push_bit_iff by (auto simp: bit_1_iff)

lemmas flag_bits = flag_defs bit_BIT bit_and_iff bit_or_iff bit_not_iff

lemma same_caps_trans: "same_caps a b \<Longrightarrow> same_caps b c \<Longrightarrow> same_caps a c"
  by (simp add: same_caps_def)

lemma same_bits_trans: "same_bits A a b \<Longrightarrow> same_bits B b c \<Longrightarrow> same_bits (A \<union> B) a c"
  by (simp add: same_bits_def)

lemma set_authorized_keeps:
  "same_caps s (fst (ap_sta_set_authorized b s i))" "same_bits {5} s (fst (ap_sta_set_authorized b s i))"
  by (auto simp: ap_sta_set_authorized_def same_caps_def same_bits_def flag_bits)

lemma readd_keeps:
  assumes "readd_to_driver conf he s i = (f, s', i')"
  shows "same_caps s s'" "same_bits {0, 1, 5} s s'" "f \<Longrightarrow> drv_sta_add_ret he \<noteq> 0"
proof -
  obtain s1 i1 where s: "ap_sta_set_authorized False s i = (s1, i1)" by (metis prod.exhaust)
  let ?F = "sta_flags s1 AND NOT (WLAN_STA_ASSOC OR WLAN_STA_AUTH OR WLAN_STA_AUTHORIZED)"
  have c: "s' = s \<and> \<not> f \<or> s' = s1\<lparr>sta_flags := ?F\<rparr> \<and> drv_sta_add_ret he \<noteq> 0 \<or> s' = s1\<lparr>sta_flags := ?F, added_unassoc := True\<rparr> \<and> \<not> f"
    using assms unfolding readd_to_driver_def Let_def s
    by (simp only: prod.case sta_info.simps Pair_inject split: if_split_asm) simp_all
  have "same_caps s s1" "same_bits {5} s s1" using set_authorized_keeps [of s False i] s by simp_all
  then show "same_caps s s'" "same_bits {0, 1, 5} s s'" "f \<Longrightarrow> drv_sta_add_ret he \<noteq> 0"
    using c by (auto simp: same_caps_def same_bits_def flag_bits)
qed

lemma nonerp_keeps:
  "same_caps s (fst (update_nonerp conf s i))" "same_bits {31} s (fst (update_nonerp conf s i))"
proof -
  define s1 where "s1 = (if mode_11g conf then s\<lparr>sta_flags := sta_flags s OR WLAN_STA_NONERP\<rparr> else s)"
  define s2 where "s2 = (if \<exists>r \<in> set (take (nat (sta_supported_rates_len s1)) (sta_supported_rates s1)). r AND 0x7f > 22
                 then s1\<lparr>sta_flags := sta_flags s1 AND NOT WLAN_STA_NONERP\<rparr> else s1)"
  have 1: "same_caps s s1" "same_bits {31} s s1" by (simp_all add: s1_def same_caps_def same_bits_def flag_bits)
  have 2: "same_caps s1 s2" "same_bits {31} s1 s2" by (simp_all add: s2_def same_caps_def same_bits_def flag_bits)
  have 3: "same_caps s2 (fst (update_nonerp conf s i))" "same_bits {} s2 (fst (update_nonerp conf s i))"
    unfolding update_nonerp_def Let_def s1_def [symmetric] s2_def [symmetric]
    by (simp_all add: same_caps_def same_bits_def)
  show "same_caps s (fst (update_nonerp conf s i))" using 1(1) 2(1) 3(1) by (blast intro: same_caps_trans)
  show "same_bits {31} s (fst (update_nonerp conf s i))" using 1(2) 2(2) 3(2) by (simp add: same_bits_def)
qed

lemma slot_time_keeps:
  "same_caps s (fst (update_slot_time conf s i))" "same_bits {} s (fst (update_slot_time conf s i))"
  by (simp_all add: update_slot_time_def Let_def same_caps_def same_bits_def)

lemma preamble_keeps:
  "same_caps s (fst (update_preamble conf s i))" "same_bits {7} s (fst (update_preamble conf s i))"
  by (simp_all add: update_preamble_def Let_def same_caps_def same_bits_def flag_bits)

lemma ack_keeps:
  "same_caps s (fst (ack_association conf re s i))" "same_bits {1, 5, 19} s (fst (ack_association conf re s i))"
  "bit (sta_flags (fst (ack_association conf re s i))) 1"
proof -
  let ?s1 = "s\<lparr>sta_flags := (sta_flags s OR WLAN_STA_ASSOC) AND NOT WLAN_STA_WNM_SLEEP_MODE\<rparr>"
  define s2 where "s2 = fst (ack_association conf re s i)"
  obtain s3 i3 where s: "ap_sta_set_authorized True ?s1 (emit (Accounting_stop (sta_addr s)) i) = (s3, i3)" by (metis prod.exhaust)
  have k: "same_caps ?s1 s3" "same_bits {5} ?s1 s3"
    using set_authorized_keeps [of ?s1 True "emit (Accounting_stop (sta_addr s)) i"] s by simp_all
  have "same_caps ?s1 s2 \<and> same_bits {5} ?s1 s2"
    using k by (simp add: s2_def ack_association_def Let_def s) (simp add: same_caps_def same_bits_def)
  then have "same_caps ?s1 s2" "\<forall>n < 32. n \<noteq> 5 \<longrightarrow> bit (sta_flags s2) n = bit (sta_flags ?s1) n"
    by (simp_all add: same_bits_def)
  then show "same_caps s (fst (ack_association conf re s i))" "same_bits {1, 5, 19} s (fst (ack_association conf re s i))"
    "bit (sta_flags (fst (ack_association conf re s i))) 1"
    unfolding s2_def [symmetric] by (simp_all add: same_caps_def same_bits_def flag_bits)
qed

lemma mark_keeps:
  "same_caps s (fst (mark_associated conf s i))" "same_bits {1, 5, 15, 19} s (fst (mark_associated conf s i))"
  "bit (sta_flags (fst (mark_associated conf s i))) 1" "bit (sta_flags (fst (mark_associated conf s i))) 15"
  unfolding mark_associated_def
  using ack_keeps [where s = "s\<lparr>sta_flags := sta_flags s OR WLAN_STA_ASSOC_REQ_OK, timeout_next := STA_NULLFUNC\<rparr>" and conf = conf and re = False and i = i]
  by (simp_all add: same_caps_def same_bits_def flag_bits)

lemma finish_keeps:
  "same_caps s (fst (finish_association he new s i))" "same_bits {14} s (fst (finish_association he new s i))"
proof -
  define s1 where "s1 = (if sta_flags s AND WLAN_STA_WDS = 0 \<and> pending_wds_enable s
     then s\<lparr>pending_wds_enable := False, sta_flags := sta_flags s OR WLAN_STA_WDS\<rparr> else s)"
  have 1: "same_caps s s1" "same_bits {14} s s1" by (simp_all add: s1_def same_caps_def same_bits_def flag_bits)
  have "fst (finish_association he new s i) \<in> {s1, s1\<lparr>has_pending_eapol_rx := False\<rparr>}"
    unfolding finish_association_def Let_def s1_def [symmetric] by simp
  then show "same_caps s (fst (finish_association he new s i))" "same_bits {14} s (fst (finish_association he new s i))"
    using 1 by (auto simp: same_caps_def same_bits_def)
qed

lemma copy_outcome:
  assumes "length (si_supported_rates info) = 32" "length (sta_supported_rates s) = 32"
  shows "case copy_capabilities info s of
      Inl f \<Rightarrow> f = OutOfBounds \<and> 32 < unat (si_supported_rates_len info)
    | Inr s' \<Rightarrow> unat (si_supported_rates_len info) \<le> 32 \<and> length (sta_supported_rates s') = 32 \<and> sta_aid s' = sta_aid s \<and>
        bit (sta_flags s') 0 \<and> same_bits {0} s s' \<and>
        sta_capability s' = si_capability info \<and> sta_listen_interval s' = si_listen_interval info \<and>
        sta_supported_rates_len s' = sint (si_supported_rates_len info) \<and>
        take (unat (si_supported_rates_len info)) (sta_supported_rates s') =
          take (unat (si_supported_rates_len info)) (si_supported_rates info)"
  using assms
  by (simp add: copy_capabilities_def Let_def rd_def wr_def slice_def splice_def same_bits_def flag_bits min_def)

lemma add_body_outcome:
  assumes l: "length (si_supported_rates info) = 32" "length (sta_supported_rates s) = 32"
  shows "case add_STA_body conf he info s i of
      Inl f \<Rightarrow> f = OutOfBounds \<and> 32 < unat (si_supported_rates_len info)
    | Inr (s', i') \<Rightarrow> balanced (s, i) (s', i') \<and> length (sta_supported_rates s') = 32 \<and> sta_aid s' = sta_aid s \<and>
        (drv_sta_add_ret he = 0 \<longrightarrow> admitted info s')"
proof -
  let ?s = "s\<lparr>last_seq_ctrl := WLAN_INVALID_MGMT_SEQ, has_psk := False, has_identity := False, has_radius_cui := False,
            sta_flags := sta_flags s AND NOT WLAN_STA_PREAUTH\<rparr>"
  obtain f s1 i1 where r: "readd_to_driver conf he ?s (emit (Notify_pre_auth (sta_addr ?s) False) i) = (f, s1, i1)"
    by (metis prod_cases3)
  note k = readd_keeps [OF r]
  have c1: "length (sta_supported_rates s1) = 32" "sta_aid s1 = sta_aid s" "\<not> bit (sta_flags s1) 8"
    using k(1,2) l(2) by (auto simp: same_caps_def same_bits_def flag_bits)
  show ?thesis
  proof (cases f)
    case True
    then have e: "add_STA_body conf he info s i = Inr (s1, i1)" using r by (simp add: add_STA_body_def Let_def)
    show ?thesis using add_body_balanced [OF e] True k(3) c1 by (simp add: e)
  next
    case nf: False
    show ?thesis
    proof (cases "copy_capabilities info s1")
      case (Inl e)
      then show ?thesis using copy_outcome [OF l(1) c1(1)] nf r by (simp add: add_STA_body_def Let_def)
    next
      case (Inr s2)
      have c2: "length (sta_supported_rates s2) = 32" "sta_aid s2 = sta_aid s" "\<not> bit (sta_flags s2) 8" "bit (sta_flags s2) 0"
        "sta_capability s2 = si_capability info" "sta_listen_interval s2 = si_listen_interval info"
        "sta_supported_rates_len s2 = sint (si_supported_rates_len info)"
        "take (unat (si_supported_rates_len info)) (sta_supported_rates s2) =
          take (unat (si_supported_rates_len info)) (si_supported_rates info)"
        using copy_outcome [OF l(1) c1(1)] Inr c1 by (auto simp: same_bits_def)
      obtain s3 i3 where n3: "update_nonerp conf s2 i1 = (s3, i3)" by (metis prod.exhaust)
      obtain s4 i4 where n4: "update_slot_time conf s3 i3 = (s4, i4)" by (metis prod.exhaust)
      obtain s5 i5 where n5: "update_preamble conf s4 i4 = (s5, i5)" by (metis prod.exhaust)
      obtain s6 i6 where n6: "mark_associated conf s5 i5 = (s6, i6)" by (metis prod.exhaust)
      have c6: "same_caps s2 s6" "same_bits {1, 5, 7, 15, 19, 31} s2 s6" "bit (sta_flags s6) 1" "bit (sta_flags s6) 15"
        using nonerp_keeps [where s = s2 and conf = conf and i = i1] slot_time_keeps [where s = s3 and conf = conf and i = i3] preamble_keeps [where s = s4 and conf = conf and i = i4] mark_keeps [where s = s5 and conf = conf and i = i5]
        by (simp_all add: n3 n4 n5 n6 same_caps_def same_bits_def)
      have "\<exists>s7 i7. add_STA_body conf he info s i = Inr (s7, i7) \<and> same_caps s6 s7 \<and> same_bits {14} s6 s7"
      proof (cases "(\<not> has_eapol_sm s6 \<or> sta_vlan_id s6 \<noteq> 0) \<and> bind_vlan_ret he < 0")
        case True
        then show ?thesis using r nf Inr n3 n4 n5 n6 by (simp add: add_STA_body_def Let_def same_caps_def same_bits_def)
      next
        case False
        define new bnd where "new = (sta_flags s5 AND WLAN_STA_ASSOC = 0)" and "bnd = (\<not> has_eapol_sm s6 \<or> sta_vlan_id s6 \<noteq> 0)"
        have "add_STA_body conf he info s i = Inr (finish_association he new s6 (emit_if bnd (Bind_vlan (sta_addr s6)) i6))"
          using False r nf Inr n3 n4 n5 n6 by (auto simp: add_STA_body_def Let_def new_def bnd_def)
        then show ?thesis using finish_keeps [where s = s6 and he = he and new = new and i = "emit_if bnd (Bind_vlan (sta_addr s6)) i6"] by (metis prod.collapse)
      qed
      then obtain s7 i7 where e: "add_STA_body conf he info s i = Inr (s7, i7)" "same_caps s6 s7" "same_bits {14} s6 s7" by blast
      have "admitted info s7" using e(2,3) c6 c2 by (simp add: admitted_def same_caps_def same_bits_def)
      moreover have "length (sta_supported_rates s7) = 32" "sta_aid s7 = sta_aid s"
        using e(2) c6(1) c2 by (simp_all add: same_caps_def)
      ultimately show ?thesis using add_body_balanced [OF e(1)] by (simp add: e(1))
    qed
  qed
qed

section \<open>What \<open>add_STA\<close> does\<close>

lemma add_STA_outcome:
  assumes inv: "hap_inv h" and l: "length (si_supported_rates info) = 32"
  shows "case add_STA conf he info h of
      Inl f \<Rightarrow> f = OutOfBounds \<and> 32 < unat (si_supported_rates_len info)
    | Inr h' \<Rightarrow> hap_inv h' \<and> hap_sta_aid h' = hap_sta_aid h \<and> (h' = h \<or> (\<exists>s. hap_abs h' = (hap_abs h)(si_address info \<mapsto> s) \<and>
        sta_aid s = (case hap_abs h (si_address info) of None \<Rightarrow> 0 | Some s0 \<Rightarrow> sta_aid s0) \<and>
        (drv_sta_add_ret he = 0 \<longrightarrow> admitted info s))) \<and>
        (auth_alg_ok conf (si_auth_alg info) \<and> (hap_abs h (si_address info) \<noteq> None \<or>
           hap_num_sta h < int (conf_max_num_sta conf) \<and> zalloc_ok he \<and> accounting_id he \<ge> 0) \<and> drv_sta_add_ret he = 0 \<longrightarrow>
         (\<exists>s. hap_abs h' (si_address info) = Some s \<and> admitted info s))"
proof -
  let ?a = "si_address info"
  have body: "case bindE (sta_at q h1) (\<lambda>sta. bindE (add_STA_body conf he info sta (iface h1)) (\<lambda>(sta, i). set_sta q sta (h1\<lparr>iface := i\<rparr>))) of
      Inl f \<Rightarrow> f = OutOfBounds \<and> 32 < unat (si_supported_rates_len info)
    | Inr h' \<Rightarrow> hap_inv h' \<and> hap_sta_aid h' = hap_sta_aid h1 \<and> (\<exists>s. hap_abs h' = (hap_abs h1)(?a \<mapsto> s) \<and> sta_aid s = sta_aid s0 \<and>
        (drv_sta_add_ret he = 0 \<longrightarrow> admitted info s))"
    if i1: "hap_inv h1" and f: "hap_find h1 ?a = Some (q, s0)" for h1 q s0
  proof -
    have ok: "length (sta_supported_rates s0) = 32" "sta_ok (length (hap_sta_aid h1)) s0"
      using find_in_contents [OF i1 f] by (simp_all add: sta_ok_def WLAN_SUPP_RATES_MAX_def)
    show ?thesis
    proof (cases "add_STA_body conf he info s0 (iface h1)")
      case (Inl e)
      then show ?thesis using add_body_outcome [OF l ok(1), where conf = conf and he = he and i = "iface h1"] sta_at_find(1) [OF i1 f] by simp
    next
      case (Inr x)
      then obtain s i where x: "add_STA_body conf he info s0 (iface h1) = Inr (s, i)" by (cases x) auto
      note b = add_body_outcome [OF l ok(1), where conf = conf and he = he and i = "iface h1", unfolded x]
      obtain h' where "set_sta q s (h1\<lparr>iface := i\<rparr>) = Inr h'" "hap_inv h'" "hap_abs h' = (hap_abs h1)(?a \<mapsto> s)"
          "hap_sta_aid h' = hap_sta_aid h1"
        using hap_set [OF i1 f, of s i] b ok(2) by (auto simp: sta_ok_def WLAN_SUPP_RATES_MAX_def)
      then show ?thesis using b x sta_at_find(1) [OF i1 f] by auto
    qed
  qed
  show ?thesis
  proof (cases "auth_alg_ok conf (si_auth_alg info)")
    case False
    then show ?thesis using inv by (simp add: add_STA_def)
  next
    case al: True
    show ?thesis
    proof (cases "hap_find h ?a")
      case (Some y)
      then obtain q s0 where f: "hap_find h ?a = Some (q, s0)" by (cases y) auto
      then have A: "hap_abs h ?a = Some s0" by (simp add: hap_abs_def)
      have "add_STA conf he info h = bindE (sta_at q h) (\<lambda>sta. bindE (add_STA_body conf he info sta (iface h))
          (\<lambda>(sta, i). set_sta q sta (h\<lparr>iface := i\<rparr>)))"
        using al ap_get_sta_eq [OF inv, of ?a] f by (simp add: add_STA_def)
      then show ?thesis using body [OF inv f] A by (auto split: sum.splits)
    next
      case n: None
      show ?thesis
      proof (rule ap_sta_add_outcome [OF inv n, where conf = conf and he = he], goal_cases full new)
        case full
        then show ?thesis using al n ap_get_sta_eq [OF inv, of ?a] inv by (auto simp: add_STA_def hap_abs_def)
      next
        case new: (new q h1)
        have A: "sta_aid (hap_new ?a) = 0" "hap_abs h ?a = None" using n by (simp_all add: hap_new_def zeroed_sta_def hap_abs_def)
        have "add_STA conf he info h = bindE (sta_at q h1) (\<lambda>sta. bindE (add_STA_body conf he info sta (iface h1))
            (\<lambda>(sta, i). set_sta q sta (h1\<lparr>iface := i\<rparr>)))"
          using al ap_get_sta_eq [OF inv, of ?a] n new(1) by (simp add: add_STA_def)
        then show ?thesis using body [OF new(2,3)] A new(4,5) by (auto split: sum.splits)
      qed
    qed
  qed
qed

section \<open>What \<open>remove_STA\<close> does\<close>

definition same_counters :: "hap_iface \<Rightarrow> hap_iface \<Rightarrow> bool" where
  "same_counters i i' \<longleftrightarrow> num_sta_non_erp i' = num_sta_non_erp i \<and>
     num_sta_no_short_slot_time i' = num_sta_no_short_slot_time i \<and> num_sta_no_short_preamble i' = num_sta_no_short_preamble i"

lemma set_authorized_form:
  obtains F i' where "ap_sta_set_authorized b s i = (s\<lparr>sta_flags := F\<rparr>, i')" "same_counters i i'"
proof (cases "b = (sta_flags s AND WLAN_STA_AUTHORIZED \<noteq> 0)")
  case True
  then show thesis using that [of "sta_flags s" i] by (simp add: ap_sta_set_authorized_def same_counters_def)
next
  case False
  then show thesis using that by (simp add: ap_sta_set_authorized_def same_counters_def)
qed

lemma release_counters_counters:
  assumes "counters i (add_mset x M)" "nonerp_set s = nonerp_set x" "no_short_slot_time_set s = no_short_slot_time_set x"
    "no_short_preamble_set s = no_short_preamble_set x"
  shows "counters (release_counters conf s i) M"
  using assms
  by (cases "nonerp_set x"; cases "no_short_slot_time_set x"; cases "no_short_preamble_set x")
     (auto simp: counters_def release_counters_def Let_def)

lemma release_aid_ok:
  assumes "unat aid \<le> 32 * length m"
  shows "\<exists>m'. release_aid aid m = Inr m' \<and> length m' = length m"
proof (cases "aid = 0")
  case False
  then have "0 < unat aid" by (simp add: unat_gt_0)
  then have "(unat aid - 1) div 32 < length m" using assms by (intro less_mult_imp_div_less) simp
  then show ?thesis by (simp add: release_aid_def Let_def)
qed (simp add: release_aid_def)

lemma find_skip: "\<not> P y \<Longrightarrow> List.find P (us @ y # zs) = List.find P (us @ zs)"
  by (induction us) auto

lemma hap_unlink:
  assumes inv: "hap_inv h" and f: "hap_find h a = Some (q, x)" and s: "sta_addr s = a"
  obtains t where "ap_sta_hash_del s h = Inr (h\<lparr>hap_stas := t\<rparr>)" "free_ptr q t = Inr (free_cell q t)"
    "wf_chains (STA_HASH \<circ> sta_addr) (free_cell q t)" "length (table (free_cell q t)) = STA_HASH_SIZE"
    "chain_uniq sta_addr (free_cell q t)" "contents (hap_stas h) = add_mset x (contents (free_cell q t))"
    "nodes (hap_stas h) = insert q (nodes (free_cell q t))" "q \<notin> nodes (free_cell q t)"
    "\<forall>b. chain_find sta_addr STA_HASH (free_cell q t) b = (if b = a then None else hap_find h b)"
proof -
  let ?t = "hap_stas h" and ?h = "STA_HASH a"
  note I = hap_invD [OF inv]
  have n: "length (table ?t) = STA_HASH_SIZE" using inv by (simp add: hap_inv_def)
  have x: "sta_addr x = a" using sta_at_find(2) [OF inv f] .
  have uq: "distinct (map (\<lambda>x. sta_addr (snd x)) (bucket_list ?t k))" if "k < length (table ?t)" for k
    using I(3) that by (simp add: chain_uniq_def)
  obtain us zs where b: "bucket_list ?t ?h = us @ (q, x) # zs"
    using hap.chain_find_in_bucket(1) [OF f] by (auto simp: in_set_conv_decomp)
  have other: "\<forall>u \<in> set (us @ zs). sta_addr (snd u) \<noteq> a" using uq [OF I(2) [of a]] b x by force
  obtain t where t: "del_first (\<lambda>s'. sta_addr s' = sta_addr s) ?h ?t = Inr t" "wf_chains (STA_HASH \<circ> sta_addr) t"
    "length (table t) = length (table ?t)" "length (cells t) = length (cells ?t)" "deref t q = deref ?t q"
    and bl: "\<forall>k < length (table ?t). bucket_list t k = (if k = ?h then us @ zs else bucket_list ?t k)"
    by (rule del_first_wf [OF I(1) I(2) b, where P = "\<lambda>s'. sta_addr s' = sta_addr s"]) (use other s x in auto)
  have dq: "\<exists>m. deref t q = Inr (Cell x m)" using hap.chain_find_deref [OF I(1) I(4) f] t(5) by simp
  then have q: "q < length (cells t)" by (auto dest: deref_less)
  have qn: "q \<notin> fst ` set (bucket_list t k)" if k: "k < length (table t)" for k
  proof (cases "k = ?h")
    case True
    have "distinct (map fst (us @ (q, x) # zs))" using chain_distinct [OF wf_chains_bucket(1) [OF I(1) I(2) [of a]]] b by simp
    then have "q \<notin> fst ` set (us @ zs)" by auto
    then show ?thesis using True bl k t(3) by simp
  next
    case False
    have "q \<in> fst ` set (bucket_list ?t ?h)" using b by simp
    then show ?thesis using buckets_disjoint [OF I(1) I(2)] False k t(3) bl by auto
  qed
  have bl2: "bucket_list (free_cell q t) k = (if k = ?h then us @ zs else bucket_list ?t k)" if "k < length (table ?t)" for k
    using free_cell_wf(2) [OF t(2) q] qn bl t(3) that by simp
  have tab: "length (table (free_cell q t)) = length (table ?t)" using t(3) by (simp add: free_cell_def)
  show thesis
  proof (rule that)
    show "ap_sta_hash_del s h = Inr (h\<lparr>hap_stas := t\<rparr>)" using t(1) s by (simp add: ap_sta_hash_del_def)
    show "free_ptr q t = Inr (free_cell q t)" using dq by (auto simp: free_ptr_def)
    show "wf_chains (STA_HASH \<circ> sta_addr) (free_cell q t)" using free_cell_wf(1) [OF t(2) q] qn by simp
    show "length (table (free_cell q t)) = STA_HASH_SIZE" using tab n by simp
    show "chain_uniq sta_addr (free_cell q t)"
      using uq [OF I(2) [of a]] uq bl2 tab b by (simp add: chain_uniq_def)
    show "contents ?t = add_mset x (contents (free_cell q t))" by (rule contents_del [OF I(2) tab b]) (use bl2 in simp)
    show "nodes ?t = insert q (nodes (free_cell q t))"
      by (rule nodes_insert [where h = ?h]) (use I(2) tab bl2 b in auto)
    show "q \<notin> nodes (free_cell q t)" using qn bl bl2 tab t(3) by (auto simp: nodes_def)
    show "\<forall>b. chain_find sta_addr STA_HASH (free_cell q t) b = (if b = a then None else hap_find h b)"
    proof
      fix c
      have fn: "List.find (\<lambda>u. sta_addr (snd u) = c) (us @ zs) = (if c = a then None else List.find (\<lambda>u. sta_addr (snd u) = c) (us @ (q, x) # zs))"
      proof (cases "c = a")
        case True
        then have "List.find (\<lambda>u. sta_addr (snd u) = c) (us @ zs) = None" using other unfolding find_None_iff by blast
        then show ?thesis using True by simp
      qed (use x find_skip [of "\<lambda>u. sta_addr (snd u) = c" "(q, x)" us zs] in simp)
      show "chain_find sta_addr STA_HASH (free_cell q t) c = (if c = a then None else hap_find h c)"
        using bl2 [OF I(2)] fn b by (auto simp: chain_find_def)
    qed
  qed
qed

lemma ap_free_sta_removes:
  assumes inv: "hap_inv h" and f: "hap_find h a = Some (q, x)" and i: "same_counters (iface h) i"
    and s: "sta_addr s = a" "sta_aid s = sta_aid x" "nonerp_set s = nonerp_set x"
      "no_short_slot_time_set s = no_short_slot_time_set x" "no_short_preamble_set s = no_short_preamble_set x"
  shows "\<exists>h'. ap_free_sta conf q s (h\<lparr>iface := i\<rparr>) = Inr h' \<and> hap_inv h' \<and> hap_abs h' = (hap_abs h)(a := None) \<and>
    hap_num_sta h' = hap_num_sta h - 1 \<and> release_aid (sta_aid x) (hap_sta_aid h) = Inr (hap_sta_aid h')"
proof -
  obtain F i1 where au: "ap_sta_set_authorized False s (emit (Accounting_stop a) i) = (s\<lparr>sta_flags := F\<rparr>, i1)"
    "same_counters (emit (Accounting_stop a) i) i1" by (rule set_authorized_form)
  define s1 where "s1 = s\<lparr>sta_flags := F\<rparr>"
  have inv': "hap_inv (h\<lparr>iface := i\<rparr>)" using inv i by (simp add: hap_inv_def counters_def same_counters_def)
  have f': "hap_find (h\<lparr>iface := i\<rparr>) a = Some (q, x)" using f by simp
  have s1: "sta_addr s1 = a" by (simp add: s1_def s)
  obtain t where t: "ap_sta_hash_del s1 (h\<lparr>iface := i\<rparr>) = Inr (h\<lparr>iface := i, hap_stas := t\<rparr>)" "free_ptr q t = Inr (free_cell q t)"
    "wf_chains (STA_HASH \<circ> sta_addr) (free_cell q t)" "length (table (free_cell q t)) = STA_HASH_SIZE"
    "chain_uniq sta_addr (free_cell q t)" "contents (hap_stas h) = add_mset x (contents (free_cell q t))"
    "nodes (hap_stas h) = insert q (nodes (free_cell q t))" "q \<notin> nodes (free_cell q t)"
    "\<forall>b. chain_find sta_addr STA_HASH (free_cell q t) b = (if b = a then None else hap_find h b)"
    by (rule hap_unlink [OF inv' f' s1]) simp
  obtain m where m: "release_aid (sta_aid s) (hap_sta_aid h) = Inr m" "length m = length (hap_sta_aid h)"
    using release_aid_ok [of "sta_aid s" "hap_sta_aid h"] find_in_contents(2) [OF inv f] s(2) by (auto simp: sta_ok_def)
  define i2 where "i2 = emit_if (\<not> driver_ap_teardown conf \<and> sta_flags s1 AND WLAN_STA_PREAUTH = 0) (Drv_sta_remove a)
    (emit_if (sta_ipaddr s1 \<noteq> 0) (Delete_ip_neigh a) (emit_if (sta_flags s1 AND (WLAN_STA_WDS OR WLAN_STA_MULTI_AP) \<noteq> 0) (Set_wds_sta a False) i1))"
  let ?h' = "h\<lparr>hap_stas := free_cell q t, sta_list := remove1 q (sta_list h), hap_sta_aid := m,
     hap_num_sta := hap_num_sta h - 1, iface := emit (Free_8021x a) (release_counters conf s1 i2)\<rparr>"
  have run: "ap_free_sta conf q s (h\<lparr>iface := i\<rparr>) = Inr ?h'"
    using au(1) t(1,2) m(1) s(1) s1
    by (simp add: ap_free_sta_def Let_def ap_sta_list_del_def s1_def [symmetric] i2_def [symmetric]) (simp add: s1_def)
  have "counters i2 (add_mset x (contents (free_cell q t)))"
    using inv' au(2) i t(6) by (simp add: hap_inv_def counters_def same_counters_def i2_def)
  then have "counters (release_counters conf s1 i2) (contents (free_cell q t))"
    by (rule release_counters_counters) (simp_all add: s1_def s)
  moreover have "set (remove1 q (sta_list h)) = nodes (free_cell q t)"
    using inv t(7,8) by (auto simp: hap_inv_def)
  ultimately have "hap_inv ?h'" using inv t m(2) by (simp add: hap_inv_def counters_def)
  then show ?thesis using run t(9) m(1) s(2) by (auto simp: hap_abs_def fun_eq_iff)
qed

lemma remove_STA_outcome:
  assumes inv: "hap_inv h"
  shows "\<exists>h'. remove_STA conf info h = Inr h' \<and> hap_inv h' \<and> hap_abs h' = (hap_abs h)(si_address info := None) \<and>
    hap_num_sta h' = hap_num_sta h - of_bool (hap_abs h (si_address info) \<noteq> None) \<and>
    (case hap_abs h (si_address info) of None \<Rightarrow> hap_sta_aid h' = hap_sta_aid h
     | Some x \<Rightarrow> release_aid (sta_aid x) (hap_sta_aid h) = Inr (hap_sta_aid h'))"
proof (cases "hap_find h (si_address info)")
  case None
  then show ?thesis using ap_get_sta_eq [OF inv] inv by (auto simp: remove_STA_def hap_abs_def fun_eq_iff)
next
  case (Some y)
  then obtain q x where f: "hap_find h (si_address info) = Some (q, x)" by (cases y) auto
  let ?a = "si_address info"
  have x: "sta_addr x = ?a" "sta_at q h = Inr x" using sta_at_find [OF inv f] by simp_all
  obtain F i1 where au: "ap_sta_set_authorized False x (iface h) = (x\<lparr>sta_flags := F\<rparr>, i1)" "same_counters (iface h) i1"
    by (rule set_authorized_form)
  define s where "s = x\<lparr>last_seq_ctrl := WLAN_INVALID_MGMT_SEQ,
     sta_flags := F AND NOT (WLAN_STA_AUTH OR WLAN_STA_ASSOC OR WLAN_STA_ASSOC_REQ_OK), acct_terminate_cause := 1, has_eapol_sm := False\<rparr>"
  define i where "i = emit (Drv_sta_remove ?a) (emit_if (sta_ipaddr x \<noteq> 0) (Delete_ip_neigh ?a) (emit (Free_8021x ?a)
     (emit (Accounting_stop ?a) (emit (Port_enabled ?a False) (emit (Mlme_disassociate ?a) (emit (Wpa_event ?a ''WPA_DEAUTH'') i1))))))"
  have "remove_STA conf info h = ap_free_sta conf q s (h\<lparr>iface := i\<rparr>)"
    using ap_get_sta_eq [OF inv, of ?a] f x au(1) by (simp add: remove_STA_def Let_def s_def i_def)
  moreover have "same_counters (iface h) i" using au(2) by (simp add: same_counters_def i_def)
  ultimately show ?thesis
    using ap_free_sta_removes [OF inv f, of i s conf] x f by (auto simp: s_def hap_abs_def)
qed

section \<open>Association ids\<close>

text \<open>The ids that stations have are marked in the map of ids, and no two stations have the same one.\<close>

definition aid_used :: "u32 list \<Rightarrow> u16 \<Rightarrow> bool" where
  "aid_used m aid \<longleftrightarrow> bit (m ! ((unat aid - 1) div 32)) ((unat aid - 1) mod 32)"

definition aid_inv :: "hapd \<Rightarrow> bool" where
  "aid_inv h \<longleftrightarrow> (\<forall>a s. hap_abs h a = Some s \<longrightarrow> sta_aid s \<noteq> 0 \<longrightarrow> aid_used (hap_sta_aid h) (sta_aid s)) \<and>
     (\<forall>a b s t. hap_abs h a = Some s \<longrightarrow> hap_abs h b = Some t \<longrightarrow> sta_aid s \<noteq> 0 \<longrightarrow> sta_aid s = sta_aid t \<longrightarrow> a = b)"

lemma aid_inv_init: "aid_inv (hapd_init w)"
  by (simp add: aid_inv_def hap_abs_init)

lemma aid_slots_differ:
  fixes a b :: u16
  assumes "a \<noteq> 0" "b \<noteq> 0" "(unat a - 1) div 32 = (unat b - 1) div 32" "(unat a - 1) mod 32 = (unat b - 1) mod 32"
  shows "a = b"
proof -
  have "unat a - 1 = unat b - 1" using assms(3,4) by (metis div_mult_mod_eq)
  moreover have "0 < unat a" "0 < unat b" using assms(1,2) by (simp_all add: unat_gt_0)
  ultimately have "unat a = unat b" by linarith
  then show ?thesis by (simp add: word_unat_eq_iff)
qed

lemma release_aid_others:
  assumes "release_aid a m = Inr m'" "aid_used m b" "a \<noteq> b" "b \<noteq> 0"
  shows "aid_used m' b"
proof (cases "a = 0")
  case False
  let ?k = "\<lambda>a :: u16. (unat a - 1) div 32" and ?j = "\<lambda>a :: u16. (unat a - 1) mod 32"
  have m': "m' = m[?k a := m ! ?k a AND NOT (BIT (?j a))]" "?k a < length m" using assms(1) False by (auto simp: release_aid_def Let_def split: if_splits)
  show ?thesis
  proof (cases "?k a = ?k b")
    case True
    then have "?j a \<noteq> ?j b" using aid_slots_differ [OF False assms(4)] assms(3) by blast
    then show ?thesis using assms(2) m' True by (simp add: aid_used_def bit_and_iff bit_not_iff bit_BIT)
  qed (use assms(2) m' in \<open>simp add: aid_used_def\<close>)
qed (use assms in \<open>simp add: release_aid_def\<close>)

lemma aid_inv_set:
  assumes "aid_inv h" "hap_abs h' = (hap_abs h)(a \<mapsto> y)" "hap_sta_aid h' = hap_sta_aid h"
    "sta_aid y = 0 \<or> (\<exists>x. hap_abs h a = Some x \<and> sta_aid y = sta_aid x)"
  shows "aid_inv h'"
  using assms unfolding aid_inv_def by (auto split: if_splits)

lemma aid_inv_free:
  assumes "aid_inv h" "hap_abs h a = Some x" "hap_abs h' = (hap_abs h)(a := None)" "release_aid (sta_aid x) (hap_sta_aid h) = Inr (hap_sta_aid h')"
  shows "aid_inv h'"
proof -
  have "aid_used (hap_sta_aid h') (sta_aid s)" if "hap_abs h b = Some s" "b \<noteq> a" "sta_aid s \<noteq> 0" for b s
    by (rule release_aid_others [OF assms(4)]) (use assms(1,2) that in \<open>auto simp: aid_inv_def\<close>)
  then show ?thesis using assms(1,3) unfolding aid_inv_def by (auto split: if_splits)
qed

lemma add_STA_aids:
  assumes "hap_inv h" "length (si_supported_rates info) = 32" "add_STA conf he info h = Inr h'" "aid_inv h"
  shows "aid_inv h'"
proof (cases "h' = h")
  case False
  then obtain s where "hap_abs h' = (hap_abs h)(si_address info \<mapsto> s)" "hap_sta_aid h' = hap_sta_aid h"
    "sta_aid s = (case hap_abs h (si_address info) of None \<Rightarrow> 0 | Some s0 \<Rightarrow> sta_aid s0)"
    using add_STA_outcome [OF assms(1,2), where conf = conf and he = he] assms(3) by auto
  then show ?thesis using aid_inv_set [OF assms(4)] by (cases "hap_abs h (si_address info)") auto
qed (use assms(4) in simp)

lemma remove_STA_aids:
  assumes "hap_inv h" "remove_STA conf info h = Inr h'" "aid_inv h"
  shows "aid_inv h'"
proof -
  have o: "hap_abs h' = (hap_abs h)(si_address info := None)" "case hap_abs h (si_address info) of None \<Rightarrow> hap_sta_aid h' = hap_sta_aid h
     | Some x \<Rightarrow> release_aid (sta_aid x) (hap_sta_aid h) = Inr (hap_sta_aid h')"
    using remove_STA_outcome [OF assms(1), of conf info] assms(2) by auto
  show ?thesis
  proof (cases "hap_abs h (si_address info)")
    case None
    then have "hap_abs h' = hap_abs h" using o(1) by (simp add: fun_upd_idem)
    then show ?thesis using assms(3) o(2) None by (simp add: aid_inv_def)
  next
    case (Some x)
    then show ?thesis using aid_inv_free [OF assms(3) Some o(1)] o(2) by simp
  qed
qed

section \<open>Properties\<close>

text \<open>Concrete stations for the witnesses.\<close>

definition demo_addr :: mac where
  "demo_addr = MAC 2 0 0 3 0 7"

definition demo_info :: infoSTA where
  "demo_info = (new_infoSTA demo_addr)\<lparr>si_capability := 0x431, si_listen_interval := 10,
     si_supported_rates := [0x82, 0x84, 0x8b, 0x96] @ replicate 28 0, si_supported_rates_len := 4\<rparr>"

definition demo_conf :: hap_conf where
  "demo_conf = \<lparr>auth_alg_open = True, auth_alg_shared = False, conf_max_num_sta = 255, conf_ieee802_1x = False,
     conf_wpa = False, conf_osen = False, mode_11g = True, full_ap_client_state = True, drv_inactivity_timer = False,
     driver_ap_teardown = False\<rparr>"

definition demo_hap_env :: hap_env where
  "demo_hap_env = \<lparr>zalloc_ok = True, accounting_id = 0, drv_sta_add_ret = 0, bind_vlan_ret = 0, set_wds_ret = 0,
     eapol_recent = False\<rparr>"

text \<open>C29. A station that the controller hands over is served at once: when the algorithm it was
  authenticated with is configured, hostapd has room for it and the driver accepts it, \<open>add_STA\<close>
  leaves it in the table authenticated and associated (flags 0, 1 and 15), no longer pre-authenticated (flag 8),
  with the capabilities, listen interval and rates that were recorded for it. The other stations are as before,
  and the counters of hostapd match its stations again. Its association id is not set: it is the one of
  an earlier association here, or 0.\<close>

theorem add_STA_admits:
  assumes "hap_inv h" "length (si_supported_rates info) = 32" "unat (si_supported_rates_len info) \<le> 32"
    "auth_alg_ok conf (si_auth_alg info)" "drv_sta_add_ret he = 0"
    "hap_abs h (si_address info) \<noteq> None \<or>
       hap_num_sta h < int (conf_max_num_sta conf) \<and> zalloc_ok he \<and> accounting_id he \<ge> 0"
  shows "\<exists>h' s. add_STA conf he info h = Inr h' \<and> hap_inv h' \<and> hap_abs h' = (hap_abs h)(si_address info \<mapsto> s) \<and>
    admitted info s \<and> sta_aid s = (case hap_abs h (si_address info) of None \<Rightarrow> 0 | Some s0 \<Rightarrow> sta_aid s0)"
proof -
  note o = add_STA_outcome [OF assms(1,2), where conf = conf and he = he]
  obtain h' where h': "add_STA conf he info h = Inr h'" using o assms(3) by (cases "add_STA conf he info h") auto
  obtain s where s: "hap_abs h' (si_address info) = Some s" "admitted info s" using o assms(4-6) by (auto simp: h')
  show ?thesis
  proof (cases "h' = h")
    case True
    then show ?thesis using o s h' by (intro exI [of _ h'] exI [of _ s]) (auto simp: fun_upd_idem)
  next
    case False
    then show ?thesis using o assms(5) by (auto simp: h')
  qed
qed

theorem add_STA_admits_witness:
  "\<exists>h' s. add_STA demo_conf demo_hap_env demo_info (hapd_init 63) = Inr h' \<and> hap_inv h' \<and>
     hap_abs h' = (hap_abs (hapd_init 63))(demo_addr \<mapsto> s) \<and> admitted demo_info s \<and> sta_aid s = 0"
  using add_STA_admits [OF hap_inv_init [of 63], where info = demo_info and conf = demo_conf and he = demo_hap_env]
  by (simp add: demo_info_def demo_conf_def demo_hap_env_def new_infoSTA_def auth_alg_ok_def WLAN_AUTH_OPEN_def
      hapd_init_def [of 63] hap_abs_init [unfolded hapd_init_def])

text \<open>C13. Whatever \<open>add_STA\<close> does - refuse the algorithm, find no room, fail in the driver, or finish -
  the counters, the list and the table of hostapd agree afterwards and no other station has changed.
  The one access that may leave its buffer is the copy of the rates: it does exactly when more rates are recorded
  than fit, and the station is one that gets that far.\<close>

theorem add_STA_keeps_invariant:
  assumes "hap_inv h" "length (si_supported_rates info) = 32"
  shows "case add_STA conf he info h of
      Inl f \<Rightarrow> f = OutOfBounds \<and> 32 < unat (si_supported_rates_len info)
    | Inr h' \<Rightarrow> hap_inv h' \<and> (\<forall>b. b \<noteq> si_address info \<longrightarrow> hap_abs h' b = hap_abs h b)"
  using add_STA_outcome [OF assms, where conf = conf and he = he] by (cases "add_STA conf he info h") auto

theorem add_STA_keeps_invariant_witness:
  "case add_STA demo_conf (demo_hap_env\<lparr>drv_sta_add_ret := 1\<rparr>) demo_info (hapd_init 63) of
      Inl f \<Rightarrow> f = OutOfBounds \<and> 32 < unat (si_supported_rates_len demo_info)
    | Inr h' \<Rightarrow> hap_inv h' \<and> (\<forall>b. b \<noteq> si_address demo_info \<longrightarrow> hap_abs h' b = hap_abs (hapd_init 63) b)"
  using add_STA_keeps_invariant [OF hap_inv_init [of 63], where info = demo_info and conf = demo_conf and
      he = "demo_hap_env\<lparr>drv_sta_add_ret := 1\<rparr>"] by (simp add: demo_info_def new_infoSTA_def)

text \<open>\<open>remove_STA\<close> always completes: the station that was handed over elsewhere is gone from the
  table, the other stations are as before, the number of stations drops by one exactly when it was there, and
  the counters match the stations that are left.\<close>

theorem remove_STA_removes:
  assumes "hap_inv h"
  shows "\<exists>h'. remove_STA conf info h = Inr h' \<and> hap_inv h' \<and> hap_abs h' = (hap_abs h)(si_address info := None) \<and>
    hap_num_sta h' = hap_num_sta h - of_bool (hap_abs h (si_address info) \<noteq> None)"
  using remove_STA_outcome [OF assms] by blast

theorem remove_STA_removes_witness:
  "\<exists>h1 h'. add_STA demo_conf demo_hap_env demo_info (hapd_init 63) = Inr h1 \<and> remove_STA demo_conf demo_info h1 = Inr h' \<and>
     hap_abs h1 demo_addr \<noteq> None \<and> hap_abs h' = (hap_abs h1)(demo_addr := None) \<and> hap_num_sta h' = hap_num_sta h1 - 1"
proof -
  have ok: "length (si_supported_rates demo_info) = 32" "unat (si_supported_rates_len demo_info) \<le> 32"
    "si_address demo_info = demo_addr" by (simp_all add: demo_info_def new_infoSTA_def)
  have "auth_alg_ok demo_conf (si_auth_alg demo_info)" "drv_sta_add_ret demo_hap_env = 0"
    "hap_num_sta (hapd_init 63) < int (conf_max_num_sta demo_conf)" "zalloc_ok demo_hap_env" "accounting_id demo_hap_env \<ge> 0"
    by (simp_all add: demo_info_def new_infoSTA_def demo_conf_def demo_hap_env_def hapd_init_def auth_alg_ok_def WLAN_AUTH_OPEN_def)
  then obtain h1 where h1: "add_STA demo_conf demo_hap_env demo_info (hapd_init 63) = Inr h1" "hap_inv h1" "hap_abs h1 demo_addr \<noteq> None"
    using add_STA_outcome [OF hap_inv_init [of 63] ok(1), where conf = demo_conf and he = demo_hap_env] ok(2,3)
    by (cases "add_STA demo_conf demo_hap_env demo_info (hapd_init 63)") auto
  then show ?thesis using remove_STA_removes [OF h1(2), of demo_conf demo_info] ok(3) by auto
qed

text \<open>C30. Handing a station over and back: adding a station that hostapd does not know and removing it
  again restores its stations, with counters that match them, also when hostapd refused the station.\<close>

theorem add_remove_STA:
  assumes "hap_inv h" "length (si_supported_rates info) = 32" "unat (si_supported_rates_len info) \<le> 32"
    "hap_abs h (si_address info) = None"
  shows "\<exists>h1 h'. add_STA conf he info h = Inr h1 \<and> remove_STA conf' info h1 = Inr h' \<and> hap_abs h' = hap_abs h \<and> hap_inv h'"
proof -
  note o = add_STA_outcome [OF assms(1,2), where conf = conf and he = he]
  obtain h1 where h1: "add_STA conf he info h = Inr h1" using o assms(3) by (cases "add_STA conf he info h") auto
  then have "hap_inv h1" "h1 = h \<or> (\<exists>s. hap_abs h1 = (hap_abs h)(si_address info \<mapsto> s))" using o by auto
  then show ?thesis using remove_STA_outcome [of h1 conf' info] h1 assms(4) by (auto simp: fun_upd_idem)
qed

theorem add_remove_STA_witness:
  "\<exists>h1 h'. add_STA demo_conf demo_hap_env demo_info (hapd_init 63) = Inr h1 \<and> remove_STA demo_conf demo_info h1 = Inr h' \<and>
     hap_abs h' = hap_abs (hapd_init 63) \<and> hap_inv h'"
  using add_remove_STA [OF hap_inv_init [of 63], where info = demo_info and conf = demo_conf and conf' = demo_conf and
      he = demo_hap_env] by (simp add: demo_info_def new_infoSTA_def hap_abs_init)

end
