(* ===== verification/Ap_State.thy ===== *)
theory Ap_State
  imports Ap_Packet Hap_Inv
begin

text \<open>
  The state of an access point, and the steps that its handlers share
  (ofSwitchAP/controller_interface.h: \<open>struct controller_connection\<close>, \<open>struct mgmt_handle\<close>,
  \<open>struct rssi_handle\<close>; controller_interface.c: the variables \<open>controller\<close> and \<open>staList\<close>,
  \<open>generate_xid\<close>, \<open>create_ofp_msg\<close>). It is the state of the packet path with the connection to the
  controller, the station list and the stations of hostapd, the threads that were started and have
  not run, and the commands that were passed to \<open>system\<close>.

  The two variables are pointers: null before they are initialised, and left pointing to freed memory
  by \<open>controller_conn_close\<close>. The members \<open>loop_terminate\<close>, \<open>ifIP\<close> and \<open>subnet\<close> of the connection
  are those of \<open>ap_state\<close>.

  Shown here: an operation on the station list keeps its invariant and the rest of the state, and the
  bytes of a message that the access point starts by itself.
\<close>

section \<open>State\<close>

datatype 'a obj = Null | Freed | Live 'a

fun live :: "'a obj \<Rightarrow> 'a res" where
  "live Null = Inl NullDeref"
| "live Freed = Inl UseAfterFree"
| "live (Live x) = Inr x"

record ap_connection = controller_connection +
  tunCount :: int

text \<open>The member \<open>sta\<close> of a handle is set for association requests only.\<close>

record mgmt_handle =
  mh_mgmt :: buf
  mh_len :: nat
  mh_sta :: ptr

record rssi_handle =
  rh_rssi :: byte
  rh_mac :: mac

record access_point = ap_state +
  ap_controller :: "ap_connection obj"
  staList :: "STAList obj"
  ap_hapd :: hapd
  sta_msg_threads :: "mgmt_handle list"
  sta_data_threads :: "rssi_handle list"
  deauth_threads :: "mac list"
  commands :: "string list"

text \<open>An operation on \<open>*controller\<close>, and one on the station list under the mutex of the connection.\<close>

definition on_ctl :: "(ap_connection \<Rightarrow> ap_connection res) \<Rightarrow> access_point \<Rightarrow> access_point res" where
  "on_ctl f s = bindE (live (ap_controller s)) (\<lambda>c. bindE (f c) (\<lambda>c. Inr (s\<lparr>ap_controller := Live c\<rparr>)))"

definition ap_stations :: "access_point \<Rightarrow> STAList res" where
  "ap_stations s = bindE (live (ap_controller s)) (\<lambda>_. live (staList s))"

definition on_stations :: "(STAList \<Rightarrow> STAList res) \<Rightarrow> access_point \<Rightarrow> access_point res" where
  "on_stations f s = bindE (ap_stations s) (\<lambda>l. bindE (f l) (\<lambda>l. Inr (s\<lparr>staList := Live l\<rparr>)))"

definition ap_lookupSTA :: "mac \<Rightarrow> access_point \<Rightarrow> ptr res" where
  "ap_lookupSTA a s = bindE (ap_stations s) (lookupSenderSTA a)"

definition ap_addSTA :: "'e env_scheme \<Rightarrow> nat \<Rightarrow> mac \<Rightarrow> access_point \<Rightarrow> (ptr \<times> access_point) res" where
  "ap_addSTA e max_num_sta a s = bindE (ap_stations s) (\<lambda>l.
     bindE (addSTA e max_num_sta a l) (\<lambda>(p, l). Inr (p, s\<lparr>staList := Live l\<rparr>)))"

definition ap_info :: "nat \<Rightarrow> access_point \<Rightarrow> infoSTA res" where
  "ap_info q s = bindE (ap_stations s) (get_sta q)"

section \<open>Messages of the access point\<close>

definition generate_xid :: "'e of_env_scheme \<Rightarrow> u32" where
  "generate_xid e = rand_ret e"

definition create_ofp_msg :: "'e of_env_scheme \<Rightarrow> nat \<Rightarrow> buf option res" where
  "create_ofp_msg e sz =
     (if \<not> calloc_ok e sz then Inr None
      else bindE (puts (zeroed sz)
          [(offsetof ofp_header [''version''], [OFP_VERSION]),
           (offsetof ofp_header [''type''], [ofpt OFPT_VENDOR]),
           (offsetof ofp_header [''length''], bytes16 (htons (word_of_nat sz))),
           (offsetof ofp_header [''xid''], bytes32 (ucast (htons (ucast (generate_xid e)))))]) (\<lambda>msg.
        Inr (Some msg)))"

text \<open>What every message of the access point starts with: a message for a body of \<open>n\<close> bytes with the
  vendor and the subtype set. Without memory the handler returns.\<close>

definition with_wlan_msg :: "'e of_env_scheme \<Rightarrow> exp_type \<Rightarrow> nat \<Rightarrow> 's \<Rightarrow> (buf \<Rightarrow> 's res) \<Rightarrow> 's res" where
  "with_wlan_msg e subtype n s k =
     bindE (create_ofp_msg e (sizeof ofp_wlan_header + n)) (\<lambda>experimenter.
     case experimenter of
       None \<Rightarrow> Inr s
     | Some msg \<Rightarrow>
         bindE (puts msg
           [(offsetof ofp_wlan_header [''vendor''], bytes32 (htonl AP_EXPERIMENTER_ID)),
            (offsetof ofp_wlan_header [''subtype''], bytes32 (htonl (word_of_nat (enum_val exp_type_vals subtype))))]) k)"

text \<open>The members of the body, by their offsets in it.\<close>

definition put_body :: "buf \<Rightarrow> (nat \<times> buf) list \<Rightarrow> buf res" where
  "put_body msg ws = puts msg (map (\<lambda>(i, x). (sizeof ofp_wlan_header + i, x)) ws)"

section \<open>The bytes of a message\<close>

definition ap_msg :: "'e of_env_scheme \<Rightarrow> exp_type \<Rightarrow> buf \<Rightarrow> buf" where
  "ap_msg e subtype body = of_msg OFPT_VENDOR (ucast (htons (ucast (rand_ret e))))
     (bytes32 (htonl AP_EXPERIMENTER_ID) @ bytes32 (htonl (word_of_nat (enum_val exp_type_vals subtype))) @ body)"

lemma length_ap_msg [simp]: "length (ap_msg e subtype body) = 16 + length body"
  by (simp add: ap_msg_def)

lemma with_wlan_msg_eq:
  "with_wlan_msg e subtype n s k = (if calloc_ok e (16 + n) then k (ap_msg e subtype (zeroed n)) else Inr s)"
  by (simp add: with_wlan_msg_def create_ofp_msg_def generate_xid_def ap_msg_def build_msg)

lemma ap_msg_header:
  obtains hd where "length hd = 16" "\<And>b. length b = n \<Longrightarrow> ap_msg e subtype b = hd @ b"
  by (rule that [of "take 16 (ap_msg e subtype (zeroed n))"]) (simp_all add: ap_msg_def of_msg_def)

text \<open>Writing one member of the body.\<close>

lemma put_body_simps [simp]:
  "put_body msg [] = Inr msg"
  "put_body (ap_msg e subtype b) ((i, x) # ws) = (if i + length x \<le> length b
     then put_body (ap_msg e subtype (splice b i x)) ws else Inl OutOfBounds)"
proof -
  show "put_body msg [] = Inr msg" by (simp add: put_body_def)
  have "splice (ap_msg e subtype b) (16 + i) x = ap_msg e subtype (splice b i x)" if "i + length x \<le> length b"
  proof -
    obtain hd where "length hd = 16" "\<And>c. length c = length b \<Longrightarrow> ap_msg e subtype c = hd @ c"
      using ap_msg_header [of "length b" e subtype] by metis
    then show ?thesis using that by (simp add: splice_def)
  qed
  then show "put_body (ap_msg e subtype b) ((i, x) # ws) = (if i + length x \<le> length b
     then put_body (ap_msg e subtype (splice b i x)) ws else Inl OutOfBounds)"
    by (simp add: put_body_def wr_def layout_simps)
qed

lemma send_whole_ap_msg:
  "length body < 65520 \<Longrightarrow> send_whole e (ap_msg e' subtype body) c = Inr (reply e (ap_msg e' subtype body) c)"
  unfolding ap_msg_def by (rule send_whole_of_msg) simp

section \<open>Operations on the station list\<close>

definition info_ok :: "infoSTA \<Rightarrow> bool" where
  "info_ok i \<longleftrightarrow> length (si_supported_rates i) = 32"

definition stas_ok :: "nat \<Rightarrow> STAList \<Rightarrow> bool" where
  "stas_ok m l \<longleftrightarrow> sta_inv m l \<and> (\<forall>a i. sta_abs l a = Some i \<longrightarrow> info_ok i)"

lemma stas_ok_init: "stas_ok m (STAList_init m)"
  by (simp add: stas_ok_def sta_inv_init sta_abs_init)

lemma sta_find_abs:
  assumes "stas_ok m l" "MAC_HASH a < m"
  shows "sta_abs l a = map_option snd (sta_find l a)"
  using assms sta_abs_find [of m l a] by (simp add: stas_ok_def)

lemma lookup_Some:
  assumes "stas_ok m l" "lookupSenderSTA a l = Inr (Some q)"
  obtains x where "MAC_HASH a < m" "sta_find l a = Some (q, x)" "sta_abs l a = Some x" "info_ok x" "si_address x = a"
    "get_sta q l = Inr x"
proof -
  have inv: "sta_inv m l" using assms(1) by (simp add: stas_ok_def)
  have h: "MAC_HASH a < m" using lookupSenderSTA_bounds [OF inv] assms(2) by force
  obtain x where x: "sta_find l a = Some (q, x)" using lookupSenderSTA_eq [OF inv h] assms(2) by (cases "sta_find l a") auto
  then have "sta_abs l a = Some x" using sta_find_abs [OF assms(1) h] by simp
  moreover have "si_address x = a" using sta.chain_find_in_bucket(2) [OF x] .
  ultimately show thesis using that h x assms(1) get_sta_find [OF inv h x] by (simp add: stas_ok_def)
qed

lemma known_sta:
  assumes "stas_ok m l" "sta_abs l a = Some i"
  obtains q where "lookupSenderSTA a l = Inr (Some q)" "get_sta q l = Inr i" "info_ok i" "si_address i = a" "MAC_HASH a < m"
proof -
  have inv: "sta_inv m l" using assms(1) by (simp add: stas_ok_def)
  have h: "MAC_HASH a < m" using assms(2) inv by (auto simp: sta_inv_def sta_abs_def split: if_splits)
  obtain q x where "sta_find l a = Some (q, x)" using assms(2) sta_find_abs [OF assms(1) h] by (cases "sta_find l a") auto
  then have q: "lookupSenderSTA a l = Inr (Some q)" using lookupSenderSTA_eq [OF inv h] by simp
  obtain y where "sta_abs l a = Some y" "info_ok y" "si_address y = a" "get_sta q l = Inr y" by (rule lookup_Some [OF assms(1) q])
  then show thesis using that q h assms(2) by simp
qed

lemma upd_sta_ok:
  assumes ok: "stas_ok m l" and q: "lookupSenderSTA a l = Inr (Some q)" and x: "sta_abs l a = Some x"
    and f: "si_address (f x) = si_address x" "info_ok (f x)"
  shows "\<exists>l'. upd_sta f q l = Inr l' \<and> stas_ok m l' \<and> num_sta l' = num_sta l \<and> sta_abs l' = (sta_abs l)(a \<mapsto> f x) \<and>
    lookupSenderSTA a l' = Inr (Some q)"
proof -
  have inv: "sta_inv m l" using ok by (simp add: stas_ok_def)
  obtain y where y: "MAC_HASH a < m" "sta_find l a = Some (q, y)" "sta_abs l a = Some y" "si_address y = a"
    by (rule lookup_Some [OF ok q])
  then have xy: "y = x" using x by simp
  obtain l' where l': "upd_sta f q l = Inr l'" "sta_inv m l'" "num_sta l' = num_sta l" "sta_abs l' = (sta_abs l)(a \<mapsto> f x)"
    "\<forall>b. MAC_HASH b < m \<longrightarrow> sta_find l' b = (if b = a then Some (q, f x) else sta_find l b)"
    using upd_sta_find [OF inv y(1,2), of f] f y(4) xy by auto
  have "lookupSenderSTA a l' = Inr (Some q)" using lookupSenderSTA_eq [OF l'(2) y(1)] l'(5) y(1) by simp
  moreover have "stas_ok m l'" using l'(2,4) ok f(2) by (auto simp: stas_ok_def)
  ultimately show ?thesis using l' by blast
qed

lemma new_infoSTA_ok: "info_ok (new_infoSTA a)" "si_address (new_infoSTA a) = a"
  by (simp_all add: info_ok_def new_infoSTA_def)

lemma addSTA_ok:
  assumes ok: "stas_ok m l"
  shows "case addSTA e m a l of
      Inl f \<Rightarrow> f = OutOfBounds \<and> \<not> MAC_HASH a < m
    | Inr (None, l') \<Rightarrow> l' = l \<and> MAC_HASH a < m \<and> sta_abs l a = None \<and> (num_sta l = int m \<or> \<not> calloc_ok e sizeof_infoSTA)
    | Inr (Some q, l') \<Rightarrow> MAC_HASH a < m \<and> stas_ok m l' \<and> lookupSenderSTA a l' = Inr (Some q) \<and>
        sta_abs l' = (sta_abs l)(a \<mapsto> case sta_abs l a of Some y \<Rightarrow> y | None \<Rightarrow> new_infoSTA a)"
proof -
  have inv: "sta_inv m l" using ok by (simp add: stas_ok_def)
  have L: "lookupSenderSTA a l' = Inr (Some q)" if "sta_inv m l'" "MAC_HASH a < m" "sta_find l' a = Some (q, x)" for l' q x
    using lookupSenderSTA_eq [OF that(1,2)] that(3) by simp
  show ?thesis
    using addSTA_outcome [OF inv, where e = e and a = a] L new_infoSTA_ok(1) ok
    by (auto simp: stas_ok_def split: sum.splits prod.splits option.splits if_split_asm)
qed

section \<open>What a step leaves alone\<close>

text \<open>The connection and the station list are there and well formed.\<close>

definition ap_up :: "nat \<Rightarrow> access_point \<Rightarrow> bool" where
  "ap_up m s \<longleftrightarrow> (\<exists>c l. ap_controller s = Live c \<and> conn_inv c \<and> staList s = Live l \<and> stas_ok m l)"

text \<open>Only the connection and the station list change, and the access point's own address is kept.\<close>

definition own_addr :: "access_point \<Rightarrow> mac option" where
  "own_addr s = (case ap_controller s of Live c \<Rightarrow> conn_mac c | _ \<Rightarrow> None)"

definition talks :: "nat \<Rightarrow> access_point \<Rightarrow> access_point \<Rightarrow> bool" where
  "talks m s s' \<longleftrightarrow> ap_up m s' \<and> own_addr s' = own_addr s \<and> (\<exists>c l. s' = s\<lparr>ap_controller := c, staList := l\<rparr>)"

lemma talks_refl: "ap_up m s \<Longrightarrow> talks m s s"
  by (cases s) (auto simp: talks_def)

lemma talks_trans: "talks m s t \<Longrightarrow> talks m t u \<Longrightarrow> talks m s u"
  unfolding talks_def by (elim conjE exE) (simp, blast)

lemma on_ctl_talks:
  assumes "ap_up m s" "on_ctl f s = Inr s'" "\<And>c c'. f c = Inr c' \<Longrightarrow> sends e c c'"
  shows "talks m s s'"
proof -
  obtain c l where c: "ap_controller s = Live c" "conn_inv c" "staList s = Live l" "stas_ok m l"
    using assms(1) by (auto simp: ap_up_def)
  then obtain c' where c': "f c = Inr c'" "s' = s\<lparr>ap_controller := Live c'\<rparr>" using assms(2) by (auto simp: on_ctl_def elim!: bindE_E)
  then have "conn_inv c'" "conn_mac c' = conn_mac c" using sends_inv [OF assms(3) [OF c'(1)] c(2)] by auto
  moreover have "s' = s\<lparr>ap_controller := Live c', staList := Live l\<rparr>" using c(3) c'(2) by simp
  ultimately show ?thesis using c by (auto simp: talks_def ap_up_def own_addr_def)
qed

lemma send_talks: "ap_up m s \<Longrightarrow> on_ctl (send_whole e msg) s = Inr s' \<Longrightarrow> talks m s s'"
  by (rule on_ctl_talks) (auto dest: send_whole_sends)

lemma stations_talk:
  assumes "ap_up m s" "on_stations f s = Inr s'" "\<And>l l'. stas_ok m l \<Longrightarrow> ap_stations s = Inr l \<Longrightarrow> f l = Inr l' \<Longrightarrow> stas_ok m l'"
  shows "talks m s s'"
proof -
  obtain c l where c: "ap_controller s = Live c" "conn_inv c" "staList s = Live l" "stas_ok m l"
    using assms(1) by (auto simp: ap_up_def)
  then obtain l' where l': "f l = Inr l'" "s' = s\<lparr>staList := Live l'\<rparr>"
    using assms(2) by (auto simp: on_stations_def ap_stations_def elim!: bindE_E)
  have "stas_ok m l'" using assms(3) [OF c(4) _ l'(1)] c by (simp add: ap_stations_def)
  moreover have "s' = s\<lparr>ap_controller := Live c, staList := Live l'\<rparr>" using c(1) l'(2) by simp
  ultimately show ?thesis using c by (auto simp: talks_def ap_up_def own_addr_def)
qed

lemma upd_talks:
  assumes "ap_up m s" "ap_lookupSTA a s = Inr (Some q)" "on_stations (upd_sta f q) s = Inr s'"
    and f: "\<And>i. si_address (f i) = si_address i" "\<And>i. info_ok i \<Longrightarrow> info_ok (f i)"
  shows "talks m s s' \<and> ap_lookupSTA a s' = Inr (Some q)"
proof -
  obtain c l where c: "ap_controller s = Live c" "staList s = Live l" "stas_ok m l" using assms(1) by (auto simp: ap_up_def)
  have q: "lookupSenderSTA a l = Inr (Some q)" using assms(2) c by (simp add: ap_lookupSTA_def ap_stations_def)
  obtain x where x: "sta_abs l a = Some x" "info_ok x" by (rule lookup_Some [OF c(3) q])
  obtain l' where l': "upd_sta f q l = Inr l'" "stas_ok m l'" "lookupSenderSTA a l' = Inr (Some q)"
    using upd_sta_ok [OF c(3) q x(1), of f] f x by blast
  have "s' = s\<lparr>staList := Live l'\<rparr>" using assms(3) c l' by (simp add: on_stations_def ap_stations_def)
  moreover have "talks m s s'"
    by (rule stations_talk [OF assms(1,3)]) (use c l' in \<open>auto simp: ap_stations_def\<close>)
  ultimately show ?thesis using c l'(3) by (simp add: ap_lookupSTA_def ap_stations_def)
qed

end
