(* ===== verification/Ap_Report.thy ===== *)
theory Ap_Report
  imports Ap_State
begin

text \<open>
  What an access point tells the controller (ofSwitchAP/controller_interface.c: \<open>send_nat_entry\<close>,
  \<open>send_nat_port_entry\<close>, \<open>handle_auth\<close>, \<open>handle_assoc_req\<close>, \<open>handle_disassoc_req\<close>,
  \<open>handle_deauth_conn\<close>, \<open>handle_deauth\<close>, \<open>handle_probe_request\<close>, \<open>process_sta_msg\<close>,
  \<open>process_sta_data\<close>, \<open>handle_ap_rssi\<close>). Each function is the body of a thread or is called from one.

  A management frame is the buffer that hostapd copied; a frame of hostapd has at least its header.
  \<open>handle->sta\<close> points into the stations of hostapd, which may have freed it since.

  Shown here: the bytes of every report, when a signal strength is reported and what is remembered of
  it, and which requests of the controller dereference a null pointer.
\<close>

section \<open>Reports of flows\<close>

definition send_nat_entry :: "'e of_env_scheme \<Rightarrow> nat_request \<Rightarrow> access_point \<Rightarrow> access_point res" where
  "send_nat_entry e nr s =
     with_wlan_msg e WLAN_NAT_UPDATE (sizeof ofp_nat_port_entry) s (\<lambda>msg.
     bindE (put_body msg
       [(offsetof ofp_nat_port_entry [''staMacAddress''], mac_bytes (nr_mac nr)),
        (offsetof ofp_nat_port_entry [''nw_src''], ip4_bytes (nr_src nr)),
        (offsetof ofp_nat_port_entry [''nw_dst''], ip4_bytes (nr_dst nr)),
        (offsetof ofp_nat_port_entry [''tp_src''], bytes16 (nr_sport nr)),
        (offsetof ofp_nat_port_entry [''tp_dst''], bytes16 (nr_dport nr))]) (\<lambda>msg.
     on_ctl (send_whole e msg) s))"

definition send_nat_port_entry :: "'e of_env_scheme \<Rightarrow> nat_request \<Rightarrow> access_point \<Rightarrow> access_point res" where
  "send_nat_port_entry e nr s =
     with_wlan_msg e WLAN_PORT_TRANSLATION (sizeof ofp_nat_port_entry) s (\<lambda>msg.
     bindE (put_body msg
       [(offsetof ofp_nat_port_entry [''staMacAddress''], mac_bytes (nr_mac nr)),
        (offsetof ofp_nat_port_entry [''nw_src''], ip4_bytes (nr_src nr)),
        (offsetof ofp_nat_port_entry [''nw_dst''], ip4_bytes (nr_dst nr)),
        (offsetof ofp_nat_port_entry [''tp_src''], bytes16 (nr_sport nr)),
        (offsetof ofp_nat_port_entry [''tp_dst''], bytes16 (nr_dport nr))]) (\<lambda>msg.
     on_ctl (send_whole e msg) s))"

section \<open>Management frames\<close>

text \<open>The header of a management frame and, of the union, the member \<open>auth\<close>.\<close>

definition ieee80211_mgmt :: ctype where
  "ieee80211_mgmt = Struct [(''frame_control'', U16), (''duration'', U16), (''da'', Array 6 U8), (''sa'', Array 6 U8),
     (''bssid'', Array 6 U8), (''seq_ctrl'', U16),
     (''auth'', Struct [(''auth_alg'', U16), (''auth_transaction'', U16), (''status_code'', U16)])]"

datatype fc_stype =
    WLAN_FC_STYPE_ASSOC_REQ
  | WLAN_FC_STYPE_REASSOC_REQ
  | WLAN_FC_STYPE_PROBE_REQ
  | WLAN_FC_STYPE_DISASSOC
  | WLAN_FC_STYPE_AUTH
  | WLAN_FC_STYPE_DEAUTH

definition fc_stype_vals :: "(fc_stype \<times> nat) list" where
  "fc_stype_vals = [(WLAN_FC_STYPE_ASSOC_REQ, 0), (WLAN_FC_STYPE_REASSOC_REQ, 2), (WLAN_FC_STYPE_PROBE_REQ, 4),
     (WLAN_FC_STYPE_DISASSOC, 10), (WLAN_FC_STYPE_AUTH, 11), (WLAN_FC_STYPE_DEAUTH, 12)]"

interpretation fc_stype_enum: c_enum fc_stype_vals
proof
  fix c show "c \<in> fst ` set fc_stype_vals" by (cases c) (simp_all add: fc_stype_vals_def)
qed (simp_all add: fc_stype_vals_def)

definition WLAN_FC_GET_STYPE :: "u16 \<Rightarrow> nat" where
  "WLAN_FC_GET_STYPE fc = unat (drop_bit 4 (fc AND 0x00f0))"

definition mgmt_sa :: "buf \<Rightarrow> mac res" where
  "mgmt_sa mgmt = ld_mac mgmt (offsetof ieee80211_mgmt [''sa''])"

definition mgmt_da :: "buf \<Rightarrow> mac res" where
  "mgmt_da mgmt = ld_mac mgmt (offsetof ieee80211_mgmt [''da''])"

definition own_mac :: "access_point \<Rightarrow> mac res" where
  "own_mac s = bindE (live (ap_controller s)) (\<lambda>c. non_null (conn_mac c))"

definition ap_handle_auth :: "'e of_env_scheme \<Rightarrow> buf \<Rightarrow> access_point \<Rightarrow> access_point res" where
  "ap_handle_auth e mgmt s =
     with_wlan_msg e WLAN_AUTH_REQ (sizeof ofp_wlan_auth_msg) s (\<lambda>msg.
     bindE (mgmt_sa mgmt) (\<lambda>sa.
     bindE (mgmt_da mgmt) (\<lambda>da.
     bindE (ld16 mgmt (offsetof ieee80211_mgmt [''auth'', ''auth_alg''])) (\<lambda>alg.
     bindE (put_body msg
       [(offsetof ofp_wlan_auth_msg [''staMacAddress''], mac_bytes sa),
        (offsetof ofp_wlan_auth_msg [''apMacAddress''], mac_bytes da),
        (offsetof ofp_wlan_auth_msg [''auth_alg''], bytes16 (htons alg))]) (\<lambda>msg.
     bindE (ap_lookupSTA sa s) (\<lambda>infoSta.
     bindE (non_null infoSta) (\<lambda>q.
     bindE (on_stations (upd_sta (\<lambda>i. i\<lparr>si_auth_alg := htons alg\<rparr>) q) s) (\<lambda>s.
     on_ctl (send_whole e msg) s))))))))"

text \<open>The rates of a station of hostapd, as \<open>memcpy\<close> reads them.\<close>

definition hap_rates :: "sta_info \<Rightarrow> buf res" where
  "hap_rates sta = (if sta_supported_rates_len sta < 0 then Inl OutOfBounds
     else rd (sta_supported_rates sta) 0 (nat (sta_supported_rates_len sta)))"

definition ap_handle_assoc_req :: "'e of_env_scheme \<Rightarrow> mgmt_handle \<Rightarrow> bool \<Rightarrow> access_point \<Rightarrow> access_point res" where
  "ap_handle_assoc_req e h reassoc s =
     with_wlan_msg e (if reassoc then WLAN_REASSOC_REQ else WLAN_ASSOC_REQ) (sizeof ofp_wlan_assoc_msg) s (\<lambda>msg.
     bindE (mgmt_sa (mh_mgmt h)) (\<lambda>sa.
     bindE (mgmt_da (mh_mgmt h)) (\<lambda>da.
     bindE (non_null (mh_sta h)) (\<lambda>p.
     bindE (sta_at p (ap_hapd s)) (\<lambda>sta.
     bindE (hap_rates sta) (\<lambda>rates.
     bindE (put_body msg
       [(offsetof ofp_wlan_assoc_msg [''staMacAddress''], mac_bytes sa),
        (offsetof ofp_wlan_assoc_msg [''apMacAddress''], mac_bytes da),
        (offsetof ofp_wlan_assoc_msg [''aid''], bytes16 (htons (sta_aid sta))),
        (offsetof ofp_wlan_assoc_msg [''capability''], bytes16 (htons (sta_capability sta))),
        (offsetof ofp_wlan_assoc_msg [''listen_interval''], bytes16 (htons (sta_listen_interval sta))),
        (offsetof ofp_wlan_assoc_msg [''qosinfo''], [sta_qosinfo sta]),
        (offsetof ofp_wlan_assoc_msg [''supported_rates''], rates),
        (offsetof ofp_wlan_assoc_msg [''supported_rates_len''],
           bytes32 (htonl (word_of_int (sta_supported_rates_len sta))))]) (\<lambda>msg.
     bindE (ap_lookupSTA sa s) (\<lambda>infoSta.
     bindE (non_null infoSta) (\<lambda>q.
     bindE (ap_info q s) (\<lambda>i.
     bindE (wr (si_supported_rates i) 0 rates) (\<lambda>copied.
     bindE (on_stations (upd_sta (\<lambda>i. i\<lparr>si_aid := sta_aid sta, si_capability := sta_capability sta,
         si_listen_interval := sta_listen_interval sta, si_qosinfo := sta_qosinfo sta,
         si_supported_rates := copied, si_supported_rates_len := word_of_int (sta_supported_rates_len sta)\<rparr>) q) s) (\<lambda>s.
     on_ctl (send_whole e msg) s))))))))))))"

text \<open>The three reports of a station and an access point: a disassociation, a deauthentication and
  a probe request.\<close>

definition report_pair :: "'e of_env_scheme \<Rightarrow> exp_type \<Rightarrow> mac res \<Rightarrow> mac res \<Rightarrow> access_point \<Rightarrow> access_point res" where
  "report_pair e subtype sta ap s =
     with_wlan_msg e subtype (sizeof ofp_wlan_msg) s (\<lambda>msg.
     bindE sta (\<lambda>sta. bindE ap (\<lambda>ap.
     bindE (put_body msg
       [(offsetof ofp_wlan_msg [''staMacAddress''], mac_bytes sta),
        (offsetof ofp_wlan_msg [''apMacAddress''], mac_bytes ap)]) (\<lambda>msg.
     on_ctl (send_whole e msg) s))))"

definition ap_handle_disassoc_req :: "'e of_env_scheme \<Rightarrow> buf \<Rightarrow> access_point \<Rightarrow> access_point res" where
  "ap_handle_disassoc_req e mgmt s = report_pair e WLAN_DISASSOC_REQ (mgmt_sa mgmt) (mgmt_da mgmt) s"

definition ap_handle_deauth :: "'e of_env_scheme \<Rightarrow> buf \<Rightarrow> access_point \<Rightarrow> access_point res" where
  "ap_handle_deauth e mgmt s = report_pair e WLAN_DEAUTH_REQ (mgmt_sa mgmt) (mgmt_da mgmt) s"

definition ap_handle_probe_request :: "'e of_env_scheme \<Rightarrow> buf \<Rightarrow> access_point \<Rightarrow> access_point res" where
  "ap_handle_probe_request e mgmt s = report_pair e WLAN_PROBE (mgmt_sa mgmt) (mgmt_da mgmt) s"

definition handle_deauth_conn :: "'e of_env_scheme \<Rightarrow> mac \<Rightarrow> access_point \<Rightarrow> access_point res" where
  "handle_deauth_conn e addr s = report_pair e WLAN_DEAUTH_REQ (Inr addr) (own_mac s) s"

definition process_sta_msg :: "'e of_env_scheme \<Rightarrow> mgmt_handle \<Rightarrow> access_point \<Rightarrow> access_point res" where
  "process_sta_msg e h s =
     bindE (own_mac s) (\<lambda>m.
     bindE (wr (mh_mgmt h) (offsetof ieee80211_mgmt [''da'']) (mac_bytes m)) (\<lambda>mgmt.
     bindE (ld16 mgmt (offsetof ieee80211_mgmt [''frame_control''])) (\<lambda>fc.
     case enum_of fc_stype_vals (WLAN_FC_GET_STYPE fc) of
       Some WLAN_FC_STYPE_AUTH \<Rightarrow> ap_handle_auth e mgmt s
     | Some WLAN_FC_STYPE_ASSOC_REQ \<Rightarrow> ap_handle_assoc_req e (h\<lparr>mh_mgmt := mgmt\<rparr>) False s
     | Some WLAN_FC_STYPE_REASSOC_REQ \<Rightarrow> ap_handle_assoc_req e (h\<lparr>mh_mgmt := mgmt\<rparr>) True s
     | Some WLAN_FC_STYPE_DISASSOC \<Rightarrow> ap_handle_disassoc_req e mgmt s
     | Some WLAN_FC_STYPE_DEAUTH \<Rightarrow> ap_handle_deauth e mgmt s
     | Some WLAN_FC_STYPE_PROBE_REQ \<Rightarrow> ap_handle_probe_request e mgmt s
     | None \<Rightarrow> Inr s)))"

section \<open>Signal strengths\<close>

text \<open>The message with a signal strength of a station, here.\<close>

definition send_rssi :: "'e of_env_scheme \<Rightarrow> mac \<Rightarrow> byte \<Rightarrow> buf \<Rightarrow> access_point \<Rightarrow> access_point res" where
  "send_rssi e sta rssi msg s =
     bindE (own_mac s) (\<lambda>m.
     bindE (put_body msg
       [(offsetof ofp_wlan_rssi [''staMacAddress''], mac_bytes sta),
        (offsetof ofp_wlan_rssi [''apMacAddress''], mac_bytes m),
        (offsetof ofp_wlan_rssi [''rssi''], [rssi])]) (\<lambda>msg.
     on_ctl (send_whole e msg) s))"

text \<open>The part of \<open>process_sta_data\<close> for a station that is not associated here.\<close>

definition report_stronger :: "'e of_env_scheme \<Rightarrow> rssi_handle \<Rightarrow> nat \<Rightarrow> access_point \<Rightarrow> access_point res" where
  "report_stronger e h info s = bindE (ap_info info s) (\<lambda>i.
     if lastReceivedSignalStrength i < rh_rssi h then
       bindE (on_stations (changeRSSI info (rh_rssi h)) s) (\<lambda>s.
       with_wlan_msg e WLAN_REC_POW (sizeof ofp_wlan_rssi) s (\<lambda>msg.
       send_rssi e (rh_mac h) (rh_rssi h) msg s))
     else Inr s)"

definition process_sta_data :: "'e of_env_scheme \<Rightarrow> nat \<Rightarrow> rssi_handle \<Rightarrow> access_point \<Rightarrow> access_point res" where
  "process_sta_data e max_num_sta h s =
     bindE (ap_lookupSTA (rh_mac h) s) (\<lambda>info.
     case info of
       Some q \<Rightarrow> bindE (ap_info q s) (\<lambda>i.
         if si_status i = ASSOCIATED then on_stations (changeRSSI q (rh_rssi h)) s
         else report_stronger e h q s)
     | None \<Rightarrow> bindE (ap_addSTA e max_num_sta (rh_mac h) s) (\<lambda>(info, s).
         case info of
           None \<Rightarrow> Inr s
         | Some q \<Rightarrow> bindE (on_stations (changeStatus q NOT_AUTHENTICATED) s) (report_stronger e h q)))"

definition handle_ap_rssi :: "'e of_env_scheme \<Rightarrow> mac \<Rightarrow> access_point \<Rightarrow> access_point res" where
  "handle_ap_rssi e sta s =
     with_wlan_msg e WLAN_AP_REC_POW (sizeof ofp_wlan_rssi) s (\<lambda>msg.
     bindE (ap_lookupSTA sta s) (\<lambda>staAP.
     bindE (non_null staAP) (\<lambda>q.
     bindE (ap_info q s) (\<lambda>i.
     send_rssi e (si_address i) (lastReceivedSignalStrength i) msg s))))"

section \<open>Every report leaves the access point in order\<close>

lemma with_wlan_msg_talks:
  assumes "ap_up m s" "with_wlan_msg e subtype n s k = Inr s'" "\<And>msg. ap_up m s \<Longrightarrow> k msg = Inr s' \<Longrightarrow> talks m s s'"
  shows "talks m s s'"
  using assms talks_refl by (auto simp: with_wlan_msg_eq split: if_splits)

lemma report_pair_talks: "ap_up m s \<Longrightarrow> report_pair e subtype a b s = Inr s' \<Longrightarrow> talks m s s'"
  unfolding report_pair_def by (erule with_wlan_msg_talks, assumption) (auto elim!: bindE_E dest: send_talks)

lemma send_rssi_talks: "ap_up m s \<Longrightarrow> send_rssi e a r msg s = Inr s' \<Longrightarrow> talks m s s'"
  unfolding send_rssi_def by (auto elim!: bindE_E dest: send_talks)

lemma send_nat_talks:
  "ap_up m s \<Longrightarrow> send_nat_entry e nr s = Inr s' \<Longrightarrow> talks m s s'"
  "ap_up m s \<Longrightarrow> send_nat_port_entry e nr s = Inr s' \<Longrightarrow> talks m s s'"
  unfolding send_nat_entry_def send_nat_port_entry_def
  by (erule with_wlan_msg_talks, assumption, auto elim!: bindE_E dest: send_talks)+

lemma deauth_conn_talks: "ap_up m s \<Longrightarrow> handle_deauth_conn e a s = Inr s' \<Longrightarrow> talks m s s'"
  unfolding handle_deauth_conn_def by (rule report_pair_talks)

text \<open>A change of a station that was looked up, followed by a message.\<close>

lemma upd_send_talks:
  assumes up: "ap_up m s" and q: "ap_lookupSTA a s = Inr (Some q)"
    and r: "bindE (on_stations (upd_sta f q) s) k = Inr s'"
    and f: "\<And>i. si_address (f i) = si_address i" "\<And>i. info_ok i \<Longrightarrow> info_ok (f i)"
    and k: "\<And>t u. ap_up m t \<Longrightarrow> ap_lookupSTA a t = Inr (Some q) \<Longrightarrow> k t = Inr u \<Longrightarrow> talks m t u"
  shows "talks m s s'"
proof -
  obtain t where t: "on_stations (upd_sta f q) s = Inr t" "k t = Inr s'" using r by (rule bindE_E)
  have "talks m s t \<and> ap_lookupSTA a t = Inr (Some q)" by (rule upd_talks [OF up q t(1) f])
  moreover from this have "ap_up m t" by (simp add: talks_def)
  ultimately show ?thesis using k t(2) talks_trans by blast
qed

lemma handle_auth_talks: "ap_up m s \<Longrightarrow> ap_handle_auth e mgmt s = Inr s' \<Longrightarrow> talks m s s'"
  unfolding ap_handle_auth_def
proof (erule with_wlan_msg_talks, assumption, elim bindE_E)
  fix sa p q t msg alg
  assume up: "ap_up m s" and p: "ap_lookupSTA sa s = Inr p" "non_null p = Inr q"
    and t: "on_stations (upd_sta (si_auth_alg_update (\<lambda>_. htons alg)) q) s = Inr t" "on_ctl (send_whole e msg) t = Inr s'"
  have q: "ap_lookupSTA sa s = Inr (Some q)" using p by (cases p) auto
  show "talks m s s'"
    by (rule upd_send_talks [OF up q, where k = "on_ctl (send_whole e msg)" and f = "si_auth_alg_update (\<lambda>_. htons alg)"])
      (use t in \<open>auto simp: info_ok_def dest: send_talks\<close>)
qed

lemma info_of_found:
  assumes "ap_up m s" "ap_lookupSTA a s = Inr (Some q)" "ap_info q s = Inr i"
  shows "info_ok i" "si_address i = a" "MAC_HASH a < m"
proof -
  obtain c l where c: "ap_controller s = Live c" "staList s = Live l" "stas_ok m l" using assms(1) by (auto simp: ap_up_def)
  have q: "lookupSenderSTA a l = Inr (Some q)" using assms(2) c by (simp add: ap_lookupSTA_def ap_stations_def)
  obtain x where "MAC_HASH a < m" "sta_abs l a = Some x" "info_ok x" "si_address x = a" "get_sta q l = Inr x"
    by (rule lookup_Some [OF c(3) q])
  then show "info_ok i" "si_address i = a" "MAC_HASH a < m" using assms(3) c by (simp_all add: ap_info_def ap_stations_def)
qed

lemma handle_assoc_talks: "ap_up m s \<Longrightarrow> ap_handle_assoc_req e h re s = Inr s' \<Longrightarrow> talks m s s'"
  unfolding ap_handle_assoc_req_def
proof (erule with_wlan_msg_talks, assumption, elim bindE_E)
  fix sa p q t msg i copied rates sta
  let ?f = "\<lambda>i. i\<lparr>si_aid := sta_aid sta, si_capability := sta_capability sta,
         si_listen_interval := sta_listen_interval sta, si_qosinfo := sta_qosinfo sta,
         si_supported_rates := copied, si_supported_rates_len := word_of_int (sta_supported_rates_len sta)\<rparr>"
  assume up: "ap_up m s" and p: "ap_lookupSTA sa s = Inr p" "non_null p = Inr q" and i: "ap_info q s = Inr i"
    and w: "wr (si_supported_rates i) 0 rates = Inr copied"
    and t: "on_stations (upd_sta ?f q) s = Inr t" "on_ctl (send_whole e msg) t = Inr s'"
  have q: "ap_lookupSTA sa s = Inr (Some q)" using p by (cases p) auto
  have l: "length copied = 32" using info_of_found(1) [OF up q i] length_wr [OF w] by (simp add: info_ok_def)
  show "talks m s s'"
    by (rule upd_send_talks [OF up q, where k = "on_ctl (send_whole e msg)" and f = ?f])
      (use t l in \<open>auto simp: info_ok_def dest: send_talks\<close>)
qed

lemma process_sta_msg_talks: "ap_up m s \<Longrightarrow> process_sta_msg e h s = Inr s' \<Longrightarrow> talks m s s'"
  unfolding process_sta_msg_def ap_handle_disassoc_req_def ap_handle_deauth_def ap_handle_probe_request_def
  by (elim bindE_E)
     (auto split: option.splits fc_stype.splits dest: handle_auth_talks handle_assoc_talks report_pair_talks talks_refl)

lemma report_stronger_talks:
  assumes up: "ap_up m s" and q: "ap_lookupSTA a s = Inr (Some q)" and r: "report_stronger e h q s = Inr s'"
  shows "talks m s s'"
proof -
  obtain i where i: "ap_info q s = Inr i"
    and b: "(if lastReceivedSignalStrength i < rh_rssi h then
       bindE (on_stations (changeRSSI q (rh_rssi h)) s) (\<lambda>s.
       with_wlan_msg e WLAN_REC_POW (sizeof ofp_wlan_rssi) s (\<lambda>msg. send_rssi e (rh_mac h) (rh_rssi h) msg s))
     else Inr s) = Inr s'"
    using r by (auto simp: report_stronger_def elim!: bindE_E)
  show ?thesis
  proof (cases "lastReceivedSignalStrength i < rh_rssi h")
    case True
    then show ?thesis using b
      unfolding changeRSSI_def [abs_def]
      by (intro upd_send_talks [OF up q, where f = "\<lambda>i. i\<lparr>lastReceivedSignalStrength := rh_rssi h\<rparr>" and
            k = "\<lambda>s. with_wlan_msg e WLAN_REC_POW (sizeof ofp_wlan_rssi) s (\<lambda>msg. send_rssi e (rh_mac h) (rh_rssi h) msg s)"])
         (auto simp: info_ok_def dest: with_wlan_msg_talks send_rssi_talks)
  next
    case False
    then show ?thesis using b up talks_refl by simp
  qed
qed

lemma set_status_ok: "si_address (set_status st i) = si_address i" "info_ok (set_status st i) = info_ok i"
  by (simp_all add: set_status_def info_ok_def)

lemma ap_addSTA_talks:
  assumes "ap_up m s" "ap_addSTA e m a s = Inr (p, s')"
  shows "talks m s s' \<and> (\<forall>q. p = Some q \<longrightarrow> ap_lookupSTA a s' = Inr (Some q))"
proof -
  obtain c l where c: "ap_controller s = Live c" "conn_inv c" "staList s = Live l" "stas_ok m l" using assms(1) by (auto simp: ap_up_def)
  obtain l' where l': "addSTA e m a l = Inr (p, l')" "s' = s\<lparr>staList := Live l'\<rparr>"
    using assms(2) c by (auto simp: ap_addSTA_def ap_stations_def elim!: bindE_E)
  have "stas_ok m l'" "\<forall>q. p = Some q \<longrightarrow> lookupSenderSTA a l' = Inr (Some q)"
    using addSTA_ok [OF c(4), where e = e and a = a] c(4) l'(1) by (auto split: option.splits)
  moreover have "s' = s\<lparr>ap_controller := Live c, staList := Live l'\<rparr>" using c(1) l'(2) by simp
  ultimately show ?thesis
    using c by (auto simp: talks_def ap_up_def own_addr_def ap_lookupSTA_def ap_stations_def)
qed

lemma process_sta_data_talks:
  assumes up: "ap_up m s" and r: "process_sta_data e m h s = Inr s'"
  shows "talks m s s'"
proof -
  obtain p where p: "ap_lookupSTA (rh_mac h) s = Inr p" using r by (auto simp: process_sta_data_def elim!: bindE_E)
  show ?thesis
  proof (cases p)
    case (Some q)
    then obtain i where i: "ap_info q s = Inr i" using r p by (auto simp: process_sta_data_def elim!: bindE_E)
    have q: "ap_lookupSTA (rh_mac h) s = Inr (Some q)" using p Some by simp
    show ?thesis
    proof (cases "si_status i = ASSOCIATED")
      case True
      then have "on_stations (upd_sta (\<lambda>i. i\<lparr>lastReceivedSignalStrength := rh_rssi h\<rparr>) q) s = Inr s'"
        using r p Some i by (simp add: process_sta_data_def changeRSSI_def [abs_def])
      then show ?thesis using upd_talks [OF up q] by (simp add: info_ok_def)
    next
      case False
      then show ?thesis using r p Some i report_stronger_talks [OF up q] by (simp add: process_sta_data_def)
    qed
  next
    case None
    then obtain p' t where t: "ap_addSTA e m (rh_mac h) s = Inr (p', t)"
      using r p by (auto simp: process_sta_data_def elim!: bindE_E)
    note tt = ap_addSTA_talks [OF up t]
    then have ut: "ap_up m t" by (simp add: talks_def)
    show ?thesis
    proof (cases p')
      case None
      then show ?thesis using tt r p t \<open>p = None\<close> by (simp add: process_sta_data_def)
    next
      case (Some q)
      have "bindE (on_stations (upd_sta (set_status NOT_AUTHENTICATED) q) t) (report_stronger e h q) = Inr s'"
        using r p t Some \<open>p = None\<close> by (simp add: process_sta_data_def changeStatus_def [abs_def])
      then have "talks m t s'"
        by (intro upd_send_talks [OF ut, where a = "rh_mac h" and q = q and f = "set_status NOT_AUTHENTICATED" and
              k = "report_stronger e h q"]) (use tt Some in \<open>auto simp: set_status_ok dest: report_stronger_talks\<close>)
      then show ?thesis using tt talks_trans by blast
    qed
  qed
qed

lemma handle_ap_rssi_talks: "ap_up m s \<Longrightarrow> handle_ap_rssi e a s = Inr s' \<Longrightarrow> talks m s s'"
  unfolding handle_ap_rssi_def by (erule with_wlan_msg_talks, assumption) (auto elim!: bindE_E dest: send_rssi_talks)

section \<open>The bytes of the reports\<close>

lemmas build_body = layout_simps splice_def zeroed_def

lemma send_rssi_eq:
  assumes "ap_controller s = Live c" "conn_mac c = Some m"
  shows "send_rssi e a r (ap_msg e' subtype (zeroed 13)) s =
    Inr (s\<lparr>ap_controller := Live (reply e (ap_msg e' subtype (mac_bytes a @ mac_bytes m @ [r])) c)\<rparr>)"
  using assms send_whole_ap_msg [of "mac_bytes a @ mac_bytes m @ [r]" e e' subtype c]
  by (simp add: send_rssi_def own_mac_def on_ctl_def build_body)

lemma upd_found:
  assumes "ap_controller s = Live c" "staList s = Live l" "stas_ok n l" "lookupSenderSTA a l = Inr (Some q)" "sta_abs l a = Some i"
    "si_address (f i) = si_address i" "info_ok (f i)"
  shows "\<exists>l'. on_stations (upd_sta f q) s = Inr (s\<lparr>staList := Live l'\<rparr>) \<and> stas_ok n l' \<and> sta_abs l' = (sta_abs l)(a \<mapsto> f i) \<and>
    lookupSenderSTA a l' = Inr (Some q)"
  using upd_sta_ok [where f = f, OF assms(3-7)] assms(1,2) by (auto simp: on_stations_def ap_stations_def)

definition reports :: "infoSTA \<Rightarrow> byte \<Rightarrow> bool" where
  "reports i r \<longleftrightarrow> si_status i \<noteq> ASSOCIATED \<and> lastReceivedSignalStrength i < r"

definition heard :: "infoSTA \<Rightarrow> byte \<Rightarrow> infoSTA" where
  "heard i r = (if si_status i = ASSOCIATED \<or> lastReceivedSignalStrength i < r then i\<lparr>lastReceivedSignalStrength := r\<rparr> else i)"

definition first_seen :: "mac \<Rightarrow> infoSTA" where
  "first_seen a = (new_infoSTA a)\<lparr>si_status := NOT_AUTHENTICATED\<rparr>"

lemma report_stronger_eq:
  assumes s: "ap_controller s = Live c" "conn_mac c = Some m" "staList s = Live l" "stas_ok n l" "calloc_ok e = (\<lambda>_. True)"
    and q: "lookupSenderSTA (rh_mac h) l = Inr (Some q)" and i: "sta_abs l (rh_mac h) = Some i" "si_status i \<noteq> ASSOCIATED"
  shows "\<exists>l'. report_stronger e h q s = Inr (s\<lparr>staList := Live l', ap_controller := Live (if reports i (rh_rssi h)
      then reply e (ap_msg e WLAN_REC_POW (mac_bytes (rh_mac h) @ mac_bytes m @ [rh_rssi h])) c else c)\<rparr>) \<and>
    stas_ok n l' \<and> sta_abs l' = (sta_abs l)(rh_mac h \<mapsto> heard i (rh_rssi h))"
proof -
  obtain x where "sta_abs l (rh_mac h) = Some x" "info_ok x" "get_sta q l = Inr x" by (rule lookup_Some [OF s(4) q])
  then have g: "ap_info q s = Inr i" "info_ok i" using i s by (simp_all add: ap_info_def ap_stations_def)
  show ?thesis
  proof (cases "lastReceivedSignalStrength i < rh_rssi h")
    case True
    let ?f = "\<lambda>i. i\<lparr>lastReceivedSignalStrength := rh_rssi h\<rparr>"
    obtain l' where l': "on_stations (upd_sta ?f q) s = Inr (s\<lparr>staList := Live l'\<rparr>)" "stas_ok n l'"
      "sta_abs l' = (sta_abs l)(rh_mac h \<mapsto> ?f i)"
      using upd_found [OF s(1,3,4) q i(1), where f = ?f] g(2) by (auto simp: info_ok_def)
    have "report_stronger e h q s = Inr (s\<lparr>staList := Live l', ap_controller :=
        Live (reply e (ap_msg e WLAN_REC_POW (mac_bytes (rh_mac h) @ mac_bytes m @ [rh_rssi h])) c)\<rparr>)"
      using g(1) True l'(1) s(1,2,5) send_rssi_eq [of "s\<lparr>staList := Live l'\<rparr>" c m e "rh_mac h" "rh_rssi h" e WLAN_REC_POW]
      by (simp add: report_stronger_def changeRSSI_def [abs_def] with_wlan_msg_eq layout_simps)
    then show ?thesis using l' True i(2) by (intro exI [of _ l']) (simp add: reports_def heard_def)
  next
    case False
    then show ?thesis using g s i by (intro exI [of _ l]) (auto simp: report_stronger_def reports_def heard_def fun_upd_idem)
  qed
qed

lemma process_sta_data_eq:
  assumes s: "ap_controller s = Live c" "conn_mac c = Some m" "staList s = Live l" "stas_ok n l" "calloc_ok e = (\<lambda>_. True)"
    and h: "MAC_HASH (rh_mac h) < n" and room: "sta_abs l (rh_mac h) \<noteq> None \<or> num_sta l < int n"
    and i: "i = (case sta_abs l (rh_mac h) of None \<Rightarrow> first_seen (rh_mac h) | Some i \<Rightarrow> i)"
  shows "\<exists>l'. process_sta_data e n h s = Inr (s\<lparr>staList := Live l', ap_controller := Live (if reports i (rh_rssi h)
      then reply e (ap_msg e WLAN_REC_POW (mac_bytes (rh_mac h) @ mac_bytes m @ [rh_rssi h])) c else c)\<rparr>) \<and>
    stas_ok n l' \<and> sta_abs l' = (sta_abs l)(rh_mac h \<mapsto> heard i (rh_rssi h))"
proof -
  let ?a = "rh_mac h"
  have inv: "sta_inv n l" using s(4) by (simp add: stas_ok_def)
  have L: "lookupSenderSTA ?a l = Inr (map_option fst (sta_find l ?a))" "sta_abs l ?a = map_option snd (sta_find l ?a)"
    using lookupSenderSTA_eq [OF inv h] sta_find_abs [OF s(4) h] by simp_all
  have P: "ap_lookupSTA ?a s = Inr (map_option fst (sta_find l ?a))" using L(1) s by (simp add: ap_lookupSTA_def ap_stations_def)
  show ?thesis
  proof (cases "sta_find l ?a")
    case (Some y)
    then obtain q x where y: "sta_find l ?a = Some (q, x)" by (cases y) auto
    then have q: "lookupSenderSTA ?a l = Inr (Some q)" and x: "sta_abs l ?a = Some i" using L i by simp_all
    obtain z where "sta_abs l ?a = Some z" "info_ok z" "get_sta q l = Inr z" by (rule lookup_Some [OF s(4) q])
    then have g: "ap_info q s = Inr i" "info_ok i" using x s by (simp_all add: ap_info_def ap_stations_def)
    show ?thesis
    proof (cases "si_status i = ASSOCIATED")
      case True
      let ?f = "\<lambda>i. i\<lparr>lastReceivedSignalStrength := rh_rssi h\<rparr>"
      obtain l' where l': "on_stations (upd_sta ?f q) s = Inr (s\<lparr>staList := Live l'\<rparr>)" "stas_ok n l'"
        "sta_abs l' = (sta_abs l)(?a \<mapsto> ?f i)"
        using upd_found [OF s(1,3,4) q x, where f = ?f] g(2) by (auto simp: info_ok_def)
      then show ?thesis using True P y g s(1)
        by (intro exI [of _ l']) (simp add: process_sta_data_def changeRSSI_def [abs_def] reports_def heard_def)
    next
      case False
      then show ?thesis using report_stronger_eq [OF s q x False] P y g by (simp add: process_sta_data_def)
    qed
  next
    case None
    then have n: "sta_abs l ?a = None" using L(2) by simp
    obtain q l1 where l1: "addSTA e n ?a l = Inr (Some q, l1)" "stas_ok n l1" "lookupSenderSTA ?a l1 = Inr (Some q)"
      "sta_abs l1 = (sta_abs l)(?a \<mapsto> new_infoSTA ?a)"
      using addSTA_ok [OF s(4), where e = e and a = ?a] room n s(5) h
      by (cases "addSTA e n ?a l") (auto split: option.splits)
    let ?s = "s\<lparr>staList := Live l1\<rparr>"
    have ns: "set_status NOT_AUTHENTICATED (new_infoSTA ?a) = first_seen ?a" "si_address (first_seen ?a) = ?a" "info_ok (first_seen ?a)"
      by (simp_all add: set_status_def first_seen_def new_infoSTA_def info_ok_def)
    obtain l2 where l2: "on_stations (upd_sta (set_status NOT_AUTHENTICATED) q) ?s = Inr (?s\<lparr>staList := Live l2\<rparr>)" "stas_ok n l2"
      "sta_abs l2 = (sta_abs l1)(?a \<mapsto> first_seen ?a)" "lookupSenderSTA ?a l2 = Inr (Some q)"
      using upd_found [of ?s c l1 n ?a q "new_infoSTA ?a" "set_status NOT_AUTHENTICATED"] s(1) l1 new_infoSTA_ok ns
      by (auto simp: set_status_ok)
    have f: "first_seen ?a = i" "si_status i \<noteq> ASSOCIATED" using i n by (simp_all add: first_seen_def)
    have "\<exists>l'. report_stronger e h q (s\<lparr>staList := Live l2\<rparr>) = Inr (s\<lparr>staList := Live l2\<rparr>\<lparr>staList := Live l', ap_controller := Live (if reports i (rh_rssi h)
        then reply e (ap_msg e WLAN_REC_POW (mac_bytes ?a @ mac_bytes m @ [rh_rssi h])) c else c)\<rparr>) \<and>
      stas_ok n l' \<and> sta_abs l' = (sta_abs l2)(?a \<mapsto> heard i (rh_rssi h))"
      by (rule report_stronger_eq) (use s l2 f in auto)
    moreover have "process_sta_data e n h s = report_stronger e h q (s\<lparr>staList := Live l2\<rparr>)"
      using P None l1(1) l2(1) s by (simp add: process_sta_data_def ap_addSTA_def ap_stations_def changeStatus_def [abs_def])
    ultimately show ?thesis using l1(4) l2(3) by auto
  qed
qed

lemma report_pair_eq:
  assumes "ap_controller s = Live c" "calloc_ok e = (\<lambda>_. True)"
  shows "report_pair e subtype (Inr a) (Inr b) s =
    Inr (s\<lparr>ap_controller := Live (reply e (ap_msg e subtype (mac_bytes a @ mac_bytes b)) c)\<rparr>)"
  using assms send_whole_ap_msg [of "mac_bytes a @ mac_bytes b" e e subtype c]
  by (simp add: report_pair_def with_wlan_msg_eq on_ctl_def build_body)

lemma offsets_mgmt [layout_simps]:
  "offsetof ieee80211_mgmt [''frame_control''] = 0" "offsetof ieee80211_mgmt [''da''] = 4"
  "offsetof ieee80211_mgmt [''sa''] = 10" "offsetof ieee80211_mgmt [''auth'', ''auth_alg''] = 24"
  by (simp_all add: offsetof_def round_up_def numeral_2_eq_2 [symmetric] ieee80211_mgmt_def)

definition frame_type :: "buf \<Rightarrow> fc_stype option" where
  "frame_type mgmt = enum_of fc_stype_vals (WLAN_FC_GET_STYPE (le16 (mgmt ! 0) (mgmt ! 1)))"

definition frame_sa :: "buf \<Rightarrow> mac" where
  "frame_sa mgmt = MAC (mgmt ! 10) (mgmt ! 11) (mgmt ! 12) (mgmt ! 13) (mgmt ! 14) (mgmt ! 15)"

definition frame_alg :: "buf \<Rightarrow> u16" where
  "frame_alg mgmt = le16 (mgmt ! 24) (mgmt ! 25)"

text \<open>The frame once the access point's address is in it.\<close>

lemma frame_with_da:
  assumes "24 \<le> length mgmt"
  obtains f where "wr mgmt 4 (mac_bytes m) = Inr f" "length f = length mgmt" "ld16 f 0 = Inr (le16 (mgmt ! 0) (mgmt ! 1))"
    "mgmt_sa f = Inr (frame_sa mgmt)" "mgmt_da f = Inr m" "26 \<le> length mgmt \<Longrightarrow> ld16 f 24 = Inr (frame_alg mgmt)"
proof
  let ?f = "splice mgmt 4 (mac_bytes m)"
  have n: "?f ! k = (if 4 \<le> k \<and> k < 10 then mac_bytes m ! (k - 4) else mgmt ! k)" if "k < length mgmt" for k
    using that assms nth_splice [of 4 "mac_bytes m" mgmt k] by simp
  show "wr mgmt 4 (mac_bytes m) = Inr ?f" "length ?f = length mgmt" using assms by (simp_all add: wr_def)
  show "ld16 ?f 0 = Inr (le16 (mgmt ! 0) (mgmt ! 1))" using assms n [of 0] n [of 1] by (fastforce simp: ld16_def)
  show "mgmt_sa ?f = Inr (frame_sa mgmt)" using assms n by (simp add: mgmt_sa_def ld_mac_def layout_simps frame_sa_def)
  show "mgmt_da ?f = Inr m" using assms n by (cases m) (simp add: mgmt_da_def ld_mac_def layout_simps)
  show "26 \<le> length mgmt \<Longrightarrow> ld16 ?f 24 = Inr (frame_alg mgmt)" using n by (simp add: ld16_def frame_alg_def)
qed

lemma process_sta_msg_auth:
  assumes s: "ap_controller s = Live c" "conn_mac c = Some m" "staList s = Live l" "stas_ok n l" "calloc_ok e = (\<lambda>_. True)"
    and f: "26 \<le> length (mh_mgmt h)" "frame_type (mh_mgmt h) = Some WLAN_FC_STYPE_AUTH"
    and i: "sta_abs l (frame_sa (mh_mgmt h)) = Some i"
  shows "\<exists>l'. process_sta_msg e h s = Inr (s\<lparr>staList := Live l', ap_controller := Live (reply e (ap_msg e WLAN_AUTH_REQ
      (mac_bytes (frame_sa (mh_mgmt h)) @ mac_bytes m @ bytes16 (htons (frame_alg (mh_mgmt h))))) c)\<rparr>) \<and> stas_ok n l' \<and>
    sta_abs l' = (sta_abs l)(frame_sa (mh_mgmt h) \<mapsto> i\<lparr>si_auth_alg := htons (frame_alg (mh_mgmt h))\<rparr>)"
proof -
  let ?a = "frame_sa (mh_mgmt h)" and ?g = "htons (frame_alg (mh_mgmt h))"
  obtain g where g: "wr (mh_mgmt h) 4 (mac_bytes m) = Inr g" "ld16 g 0 = Inr (le16 (mh_mgmt h ! 0) (mh_mgmt h ! 1))"
    "mgmt_sa g = Inr ?a" "mgmt_da g = Inr m" "ld16 g 24 = Inr (frame_alg (mh_mgmt h))"
    using frame_with_da [of "mh_mgmt h" m] f(1) by auto
  obtain q where lq: "lookupSenderSTA ?a l = Inr (Some q)" and ok: "info_ok i" by (rule known_sta [OF s(4) i])
  obtain l' where l': "on_stations (upd_sta (\<lambda>i. i\<lparr>si_auth_alg := ?g\<rparr>) q) s = Inr (s\<lparr>staList := Live l'\<rparr>)" "stas_ok n l'"
    "sta_abs l' = (sta_abs l)(?a \<mapsto> i\<lparr>si_auth_alg := ?g\<rparr>)"
    using upd_found [OF s(1,3,4) lq i, where f = "\<lambda>i. i\<lparr>si_auth_alg := ?g\<rparr>"] ok by (auto simp: info_ok_def)
  have t: "enum_of fc_stype_vals (WLAN_FC_GET_STYPE (le16 (mh_mgmt h ! 0) (mh_mgmt h ! Suc 0))) = Some WLAN_FC_STYPE_AUTH"
    using f(2) by (simp add: frame_type_def)
  have "process_sta_msg e h s = ap_handle_auth e g s"
    using s(1,2) g(1,2) t by (simp add: process_sta_msg_def own_mac_def layout_simps)
  also have "\<dots> = on_ctl (send_whole e (ap_msg e WLAN_AUTH_REQ (mac_bytes ?a @ mac_bytes m @ bytes16 ?g))) (s\<lparr>staList := Live l'\<rparr>)"
    using g(3-5) s(1,3,5) lq l'(1)
    by (simp add: ap_handle_auth_def with_wlan_msg_eq layout_simps build_body ap_lookupSTA_def ap_stations_def)
  also have "\<dots> = Inr (s\<lparr>staList := Live l', ap_controller := Live (reply e (ap_msg e WLAN_AUTH_REQ
      (mac_bytes ?a @ mac_bytes m @ bytes16 ?g)) c)\<rparr>)"
    using s(1) send_whole_ap_msg [of "mac_bytes ?a @ mac_bytes m @ bytes16 ?g" e e WLAN_AUTH_REQ c] by (simp add: on_ctl_def)
  finally show ?thesis using l' by blast
qed

definition assoc_body :: "mac \<Rightarrow> mac \<Rightarrow> sta_info \<Rightarrow> buf" where
  "assoc_body a m x = (let rates = take (nat (sta_supported_rates_len x)) (sta_supported_rates x) in
     mac_bytes a @ mac_bytes m @ bytes16 (htons (sta_aid x)) @ bytes16 (htons (sta_capability x)) @
     bytes16 (htons (sta_listen_interval x)) @ [0, 0] @ rates @ zeroed (32 - length rates) @
     bytes32 (htonl (word_of_int (sta_supported_rates_len x))) @ [sta_qosinfo x, 0, 0, 0])"

lemma put_assoc:
  assumes "length rates \<le> 32"
  shows "put_body (ap_msg e subtype (zeroed 60))
    [(0, mac_bytes a), (6, mac_bytes m), (12, bytes16 u), (14, bytes16 v), (16, bytes16 w), (56, [q]), (20, rates), (52, bytes32 n)] =
    Inr (ap_msg e subtype (mac_bytes a @ mac_bytes m @ bytes16 u @ bytes16 v @ bytes16 w @ [0, 0] @ rates @
      zeroed (32 - length rates) @ bytes32 n @ [q, 0, 0, 0]))"
proof -
  define p where "p = mac_bytes a @ mac_bytes m @ bytes16 u @ bytes16 v @ bytes16 w @ [0, 0]"
  define k where "k = 32 - length rates"
  have lp: "length p = 20" by (simp add: p_def)
  have kl: "k \<le> 32" "length rates = 32 - k" using assms by (auto simp: k_def)
  have 1: "put_body (ap_msg e subtype (zeroed 60)) [(0, mac_bytes a), (6, mac_bytes m), (12, bytes16 u), (14, bytes16 v), (16, bytes16 w), (56, [q])] =
      Inr (ap_msg e subtype (p @ replicate 36 0 @ [q, 0, 0, 0]))"
    by (simp add: build_body p_def eval_nat_numeral)
  have r: "replicate (k + 4) 0 = replicate k 0 @ ([0, 0, 0, 0] :: buf)"
  proof -
    have "replicate 4 (0 :: byte) = [0, 0, 0, 0]" by (simp add: eval_nat_numeral)
    then show ?thesis using replicate_add [of k 4 "0 :: byte"] by simp
  qed
  have "splice (p @ replicate 36 0 @ [q, 0, 0, 0]) 20 rates = p @ rates @ replicate (k + 4) 0 @ [q, 0, 0, 0]"
    using lp kl by (simp add: splice_def algebra_simps)
  then have 2: "splice (p @ replicate 36 0 @ [q, 0, 0, 0]) 20 rates = p @ rates @ replicate k 0 @ [0, 0, 0, 0] @ [q, 0, 0, 0]"
    by (simp add: r)
  have 3: "splice (p @ rates @ replicate k 0 @ [0, 0, 0, 0] @ [q, 0, 0, 0]) 52 (bytes32 n) =
      p @ rates @ replicate k 0 @ bytes32 n @ [q, 0, 0, 0]"
    using lp kl by (simp add: splice_def)
  have "put_body (ap_msg e subtype (p @ replicate 36 0 @ [q, 0, 0, 0])) [(20, rates), (52, bytes32 n)] =
      Inr (ap_msg e subtype (p @ rates @ replicate k 0 @ bytes32 n @ [q, 0, 0, 0]))"
    using lp kl 2 3 assms by simp
  moreover have "put_body x (ws @ vs) = bindE (put_body x ws) (\<lambda>x. put_body x vs)" for x ws vs
    by (simp add: put_body_def puts_append)
  ultimately show ?thesis
    using 1 unfolding p_def k_def zeroed_def by (metis append_Cons append_Nil append_assoc bindE.simps(2))
qed

lemma process_sta_msg_assoc:
  assumes s: "ap_controller s = Live c" "conn_mac c = Some m" "staList s = Live l" "stas_ok n l" "calloc_ok e = (\<lambda>_. True)"
    and f: "24 \<le> length (mh_mgmt h)" "frame_type (mh_mgmt h) = Some t"
      "t = WLAN_FC_STYPE_ASSOC_REQ \<and> sub = WLAN_ASSOC_REQ \<or> t = WLAN_FC_STYPE_REASSOC_REQ \<and> sub = WLAN_REASSOC_REQ"
    and i: "sta_abs l (frame_sa (mh_mgmt h)) = Some i"
    and x: "mh_sta h = Some p" "sta_at p (ap_hapd s) = Inr x" "length (sta_supported_rates x) = 32"
      "0 \<le> sta_supported_rates_len x" "sta_supported_rates_len x \<le> 32"
  shows "\<exists>l' i'. process_sta_msg e h s = Inr (s\<lparr>staList := Live l', ap_controller := Live (reply e
      (ap_msg e sub (assoc_body (frame_sa (mh_mgmt h)) m x)) c)\<rparr>) \<and> stas_ok n l' \<and>
    sta_abs l' = (sta_abs l)(frame_sa (mh_mgmt h) \<mapsto> i') \<and> si_aid i' = sta_aid x \<and> si_capability i' = sta_capability x \<and>
    si_listen_interval i' = sta_listen_interval x \<and> si_qosinfo i' = sta_qosinfo x \<and>
    si_supported_rates_len i' = word_of_int (sta_supported_rates_len x) \<and>
    take (nat (sta_supported_rates_len x)) (si_supported_rates i') = take (nat (sta_supported_rates_len x)) (sta_supported_rates x) \<and>
    si_auth_alg i' = si_auth_alg i \<and> si_status i' = si_status i"
proof -
  let ?a = "frame_sa (mh_mgmt h)" and ?n = "nat (sta_supported_rates_len x)"
  let ?r = "take ?n (sta_supported_rates x)"
  have n: "?n \<le> 32" using x(5) by simp
  obtain g where g: "wr (mh_mgmt h) 4 (mac_bytes m) = Inr g" "ld16 g 0 = Inr (le16 (mh_mgmt h ! 0) (mh_mgmt h ! 1))"
    "mgmt_sa g = Inr ?a" "mgmt_da g = Inr m" using frame_with_da [OF f(1), of m] by metis
  obtain q where lq: "lookupSenderSTA ?a l = Inr (Some q)" and gi: "get_sta q l = Inr i" and ok: "info_ok i"
    by (rule known_sta [OF s(4) i])
  define cp where "cp = splice (si_supported_rates i) 0 ?r"
  have w: "wr (si_supported_rates i) 0 ?r = Inr cp" "length cp = 32" "take ?n cp = ?r"
    using ok n x(3) by (simp_all add: wr_def cp_def info_ok_def splice_def)
  define ff where "ff = (\<lambda>i :: infoSTA. i\<lparr>si_aid := sta_aid x, si_capability := sta_capability x,
         si_listen_interval := sta_listen_interval x, si_qosinfo := sta_qosinfo x,
         si_supported_rates := cp, si_supported_rates_len := word_of_int (sta_supported_rates_len x)\<rparr>)"
  have ff: "si_address (ff i) = si_address i" "info_ok (ff i)" using w(2) by (simp_all add: ff_def info_ok_def)
  obtain l' where l': "on_stations (upd_sta ff q) s = Inr (s\<lparr>staList := Live l'\<rparr>)" "stas_ok n l'" "sta_abs l' = (sta_abs l)(?a \<mapsto> ff i)"
    using upd_found [where f = ff, OF s(1,3,4) lq i ff] by blast
  have t: "enum_of fc_stype_vals (WLAN_FC_GET_STYPE (le16 (mh_mgmt h ! 0) (mh_mgmt h ! Suc 0))) = Some t"
    using f(2) by (simp add: frame_type_def)
  have rates: "hap_rates x = Inr ?r" using x(3,4) n by (simp add: hap_rates_def rd_def slice_def)
  have "process_sta_msg e h s = ap_handle_assoc_req e (h\<lparr>mh_mgmt := g\<rparr>) (t = WLAN_FC_STYPE_REASSOC_REQ) s"
    using s(1,2) g(1,2) t f(3) by (auto simp: process_sta_msg_def own_mac_def layout_simps)
  also have "\<dots> = on_ctl (send_whole e (ap_msg e sub (assoc_body ?a m x))) (s\<lparr>staList := Live l'\<rparr>)"
    using g(3,4) s(1,3,5) lq gi x(1,2) rates w(1) l'(1) f(3) n x(3)
      put_assoc [of ?r e sub ?a m "htons (sta_aid x)" "htons (sta_capability x)" "htons (sta_listen_interval x)"
        "sta_qosinfo x" "htonl (word_of_int (sta_supported_rates_len x))"]
    by (auto simp: ap_handle_assoc_req_def with_wlan_msg_eq layout_simps ap_lookupSTA_def ap_stations_def ap_info_def
        ff_def assoc_body_def Let_def min_absorb2 simp del: put_body_simps)
  also have "\<dots> = Inr (s\<lparr>staList := Live l', ap_controller := Live (reply e (ap_msg e sub (assoc_body ?a m x)) c)\<rparr>)"
    using s(1) send_whole_ap_msg [of "assoc_body ?a m x" e e sub c] n x(3)
    by (simp add: on_ctl_def assoc_body_def Let_def)
  finally show ?thesis using l'(2,3) w(3) by (intro exI [of _ l'] exI [of _ "ff i"]) (simp add: ff_def)
qed

section \<open>Properties\<close>

text \<open>A connected access point with an empty station list, for the witnesses.\<close>

definition demo_ap_mac :: mac where
  "demo_ap_mac = MAC 2 0 0 0 0 9"

definition demo_ap_conn :: ap_connection where
  "demo_ap_conn = \<lparr>sock = 4, error = 0, dpid = 0, miss_send_len = 0, conn_mac = Some demo_ap_mac, sent = [], tunCount = 0\<rparr>"

definition demo_access_point :: "STAList \<Rightarrow> hapd \<Rightarrow> access_point" where
  "demo_access_point l h = \<lparr>ap_entryList = chains_init AP_MAXENTRY, portQueue = chains_init AP_MAXENTRY,
     ap_ifIP = IP4 10 0 0 2, ap_subnet = dotted3 (IP4 192 168 5 0), ap_loop_terminate = True,
     nat_entry_threads = [], port_entry_threads = [], reinject_threads = [], ap_controller = Live demo_ap_conn,
     staList = Live l, ap_hapd = h, sta_msg_threads = [], sta_data_threads = [], deauth_threads = [], commands = []\<rparr>"

definition demo_list :: STAList where
  "demo_list = (case addSTA demo_ap_env 255 demo_addr (STAList_init 255) of Inr (_, l) \<Rightarrow> l)"

lemma demo_list_ok: "stas_ok 255 demo_list" "sta_abs demo_list demo_addr = Some (new_infoSTA demo_addr)"
proof -
  have "MAC_HASH demo_addr < 255" "calloc_ok demo_ap_env = (\<lambda>_. True)" "num_sta (STAList_init 255) \<noteq> int 255"
    by (simp_all add: demo_addr_def demo_ap_env_def STAList_init_def)
  then show "stas_ok 255 demo_list" "sta_abs demo_list demo_addr = Some (new_infoSTA demo_addr)"
    using addSTA_ok [OF stas_ok_init, where e = demo_ap_env and a = demo_addr and m = 255]
    by (auto simp: demo_list_def sta_abs_init split: sum.splits option.splits)
qed

text \<open>C31. What an access point does with a signal strength that was measured. Of a station that is
  associated here it remembers the last value and reports nothing; of another station it reports a
  value to the controller, and remembers it, exactly when it exceeds the strongest one so far. A
  station that is heard for the first time is recorded as not authenticated. No other station changes.\<close>

theorem rssi_report:
  assumes "ap_controller s = Live c" "conn_mac c = Some m" "staList s = Live l" "stas_ok n l" "calloc_ok e = (\<lambda>_. True)"
    "MAC_HASH (rh_mac h) < n" "sta_abs l (rh_mac h) \<noteq> None \<or> num_sta l < int n"
    "i = (case sta_abs l (rh_mac h) of None \<Rightarrow> first_seen (rh_mac h) | Some i \<Rightarrow> i)"
  shows "\<exists>l'. process_sta_data e n h s = Inr (s\<lparr>staList := Live l', ap_controller := Live
      (if si_status i \<noteq> ASSOCIATED \<and> lastReceivedSignalStrength i < rh_rssi h
       then reply e (ap_msg e WLAN_REC_POW (mac_bytes (rh_mac h) @ mac_bytes m @ [rh_rssi h])) c else c)\<rparr>) \<and>
    stas_ok n l' \<and> sta_abs l' = (sta_abs l)(rh_mac h \<mapsto> i\<lparr>lastReceivedSignalStrength :=
      (if si_status i = ASSOCIATED then rh_rssi h else max (lastReceivedSignalStrength i) (rh_rssi h))\<rparr>)"
proof -
  have "heard i r = i\<lparr>lastReceivedSignalStrength := (if si_status i = ASSOCIATED then r else max (lastReceivedSignalStrength i) r)\<rparr>" for r
    by (auto simp: heard_def max_def)
  then show ?thesis using process_sta_data_eq [OF assms] by (simp add: reports_def)
qed

theorem rssi_report_witness:
  "\<exists>l'. process_sta_data demo_ap_env 255 \<lparr>rh_rssi = 40, rh_mac = demo_addr\<rparr> (demo_access_point (STAList_init 255) (hapd_init 63)) =
     Inr ((demo_access_point l' (hapd_init 63))\<lparr>ap_controller := Live (reply demo_ap_env (ap_msg demo_ap_env WLAN_REC_POW
       (mac_bytes demo_addr @ mac_bytes demo_ap_mac @ [40])) demo_ap_conn)\<rparr>) \<and>
     sta_abs l' demo_addr = Some ((first_seen demo_addr)\<lparr>lastReceivedSignalStrength := 40\<rparr>)"
proof -
  let ?s = "demo_access_point (STAList_init 255) (hapd_init 63)" and ?h = "\<lparr>rh_rssi = 40, rh_mac = demo_addr\<rparr>"
  have c: "ap_controller ?s = Live demo_ap_conn" "conn_mac demo_ap_conn = Some demo_ap_mac" "staList ?s = Live (STAList_init 255)"
    "calloc_ok demo_ap_env = (\<lambda>_. True)" "MAC_HASH (rh_mac ?h) < 255" "num_sta (STAList_init 255) < int 255"
    by (simp_all add: demo_access_point_def demo_ap_conn_def demo_ap_env_def demo_addr_def STAList_init_def)
  have n: "sta_abs (STAList_init 255) (rh_mac ?h) = None" by (rule sta_abs_init)
  have f: "si_status (first_seen a) = NOT_AUTHENTICATED" "lastReceivedSignalStrength (first_seen a) = 0" for a
    by (simp_all add: first_seen_def new_infoSTA_def)
  from rssi_report [OF c(1-3) stas_ok_init c(4,5) _ refl] n c(6) f show ?thesis
    by (auto simp: demo_access_point_def)
qed

lemma rssi_answer:
  assumes "ap_controller s = Live c" "conn_mac c = Some m" "staList s = Live l" "stas_ok n l" "calloc_ok e = (\<lambda>_. True)"
    "MAC_HASH a < n"
  shows "handle_ap_rssi e a s = (case sta_abs l a of
      None \<Rightarrow> Inl NullDeref
    | Some i \<Rightarrow> Inr (s\<lparr>ap_controller := Live (reply e (ap_msg e WLAN_AP_REC_POW
        (mac_bytes a @ mac_bytes m @ [lastReceivedSignalStrength i])) c)\<rparr>))"
proof (cases "sta_abs l a")
  case (Some i)
  obtain q where "lookupSenderSTA a l = Inr (Some q)" "get_sta q l = Inr i" "si_address i = a" by (rule known_sta [OF assms(4) Some])
  then show ?thesis
    using Some assms send_rssi_eq [OF assms(1,2)]
    by (simp add: handle_ap_rssi_def with_wlan_msg_eq layout_simps ap_lookupSTA_def ap_stations_def ap_info_def)
next
  case None
  have inv: "sta_inv n l" using assms(4) by (simp add: stas_ok_def)
  have "sta_find l a = None" using None sta_find_abs [OF assms(4,6)] by simp
  then show ?thesis
    using None assms lookupSenderSTA_eq [OF inv assms(6)]
    by (simp add: handle_ap_rssi_def with_wlan_msg_eq layout_simps ap_lookupSTA_def ap_stations_def)
qed

text \<open>The controller's request for the last signal strength of a station is answered with the
  value remembered; a request for a station that the access point does not know dereferences a null
  pointer instead.\<close>

theorem ap_rssi_answer:
  assumes "ap_controller s = Live c" "conn_mac c = Some m" "staList s = Live l" "stas_ok n l" "calloc_ok e = (\<lambda>_. True)"
    "MAC_HASH a < n"
  shows "handle_ap_rssi e a s = (case sta_abs l a of
      None \<Rightarrow> Inl NullDeref
    | Some i \<Rightarrow> Inr (s\<lparr>ap_controller := Live (reply e (ap_msg e WLAN_AP_REC_POW
        (mac_bytes a @ mac_bytes m @ [lastReceivedSignalStrength i])) c)\<rparr>))"
  by (rule rssi_answer [OF assms])

theorem ap_rssi_answer_witness:
  "handle_ap_rssi demo_ap_env demo_addr (demo_access_point (STAList_init 255) (hapd_init 63)) = Inl NullDeref \<and>
   handle_ap_rssi demo_ap_env demo_addr (demo_access_point demo_list (hapd_init 63)) =
     Inr ((demo_access_point demo_list (hapd_init 63))\<lparr>ap_controller := Live (reply demo_ap_env (ap_msg demo_ap_env WLAN_AP_REC_POW
       (mac_bytes demo_addr @ mac_bytes demo_ap_mac @ [0])) demo_ap_conn)\<rparr>)"
proof -
  have c: "ap_controller (demo_access_point l (hapd_init 63)) = Live demo_ap_conn" "conn_mac demo_ap_conn = Some demo_ap_mac"
    "staList (demo_access_point l (hapd_init 63)) = Live l" "calloc_ok demo_ap_env = (\<lambda>_. True)" "MAC_HASH demo_addr < 255" for l
    by (simp_all add: demo_access_point_def demo_ap_conn_def demo_ap_env_def demo_addr_def)
  show ?thesis
    using ap_rssi_answer [OF c(1-3) stas_ok_init c(4,5)] ap_rssi_answer [OF c(1-3) demo_list_ok(1) c(4,5)] demo_list_ok(2)
    by (simp add: sta_abs_init new_infoSTA_def)
qed

text \<open>C32. An authentication that hostapd accepted is reported with the addresses of the station and
  of the access point and the algorithm, and remembered: the algorithm is kept in the byte order of
  the network, unlike the one that the controller announces.\<close>

theorem auth_report:
  assumes "ap_controller s = Live c" "conn_mac c = Some m" "staList s = Live l" "stas_ok n l" "calloc_ok e = (\<lambda>_. True)"
    "26 \<le> length (mh_mgmt h)" "frame_type (mh_mgmt h) = Some WLAN_FC_STYPE_AUTH" "sta_abs l (frame_sa (mh_mgmt h)) = Some i"
  shows "\<exists>l'. process_sta_msg e h s = Inr (s\<lparr>staList := Live l', ap_controller := Live (reply e (ap_msg e WLAN_AUTH_REQ
      (mac_bytes (frame_sa (mh_mgmt h)) @ mac_bytes m @ bytes16 (htons (frame_alg (mh_mgmt h))))) c)\<rparr>) \<and> stas_ok n l' \<and>
    sta_abs l' = (sta_abs l)(frame_sa (mh_mgmt h) \<mapsto> i\<lparr>si_auth_alg := htons (frame_alg (mh_mgmt h))\<rparr>)"
  by (rule process_sta_msg_auth [OF assms])

definition demo_auth_frame :: buf where
  "demo_auth_frame = [0xb0, 0, 0, 0] @ mac_bytes demo_ap_mac @ mac_bytes demo_addr @ mac_bytes demo_ap_mac @ [0, 0] @ [1, 0, 1, 0, 0, 0]"

theorem auth_report_witness:
  "\<exists>l'. process_sta_msg demo_ap_env \<lparr>mh_mgmt = demo_auth_frame, mh_len = 30, mh_sta = None\<rparr> (demo_access_point demo_list (hapd_init 63)) =
     Inr ((demo_access_point l' (hapd_init 63))\<lparr>ap_controller := Live (reply demo_ap_env (ap_msg demo_ap_env WLAN_AUTH_REQ
       (mac_bytes demo_addr @ mac_bytes demo_ap_mac @ [0, 1])) demo_ap_conn)\<rparr>) \<and>
     sta_abs l' demo_addr = Some ((new_infoSTA demo_addr)\<lparr>si_auth_alg := le16 0 1\<rparr>)"
proof -
  let ?s = "demo_access_point demo_list (hapd_init 63)" and ?h = "\<lparr>mh_mgmt = demo_auth_frame, mh_len = 30, mh_sta = None\<rparr>"
  have c: "ap_controller ?s = Live demo_ap_conn" "conn_mac demo_ap_conn = Some demo_ap_mac" "staList ?s = Live demo_list"
    "calloc_ok demo_ap_env = (\<lambda>_. True)" by (simp_all add: demo_access_point_def demo_ap_conn_def demo_ap_env_def)
  have f: "26 \<le> length (mh_mgmt ?h)" "frame_type (mh_mgmt ?h) = Some WLAN_FC_STYPE_AUTH" "frame_sa (mh_mgmt ?h) = demo_addr"
    "bytes16 (htons (frame_alg (mh_mgmt ?h))) = [0, 1]" "htons (frame_alg (mh_mgmt ?h)) = le16 0 1" by code_simp+
  have i: "sta_abs demo_list (frame_sa (mh_mgmt ?h)) = Some (new_infoSTA demo_addr)" using demo_list_ok(2) f(3) by simp
  from auth_report [OF c(1-3) demo_list_ok(1) c(4) f(1,2) i] show ?thesis
    unfolding f(3-5) by (auto simp: demo_access_point_def)
qed

text \<open>An association that hostapd accepted is reported with all that another access point needs
  to serve the station (association id, capabilities, listen interval, rates and QoS information), in
  the layout of the message, and the same values are recorded in the station list, which keeps the
  algorithm and the status of the station.\<close>

theorem assoc_report:
  assumes "ap_controller s = Live c" "conn_mac c = Some m" "staList s = Live l" "stas_ok n l" "calloc_ok e = (\<lambda>_. True)"
    "24 \<le> length (mh_mgmt h)" "frame_type (mh_mgmt h) = Some t"
    "t = WLAN_FC_STYPE_ASSOC_REQ \<and> sub = WLAN_ASSOC_REQ \<or> t = WLAN_FC_STYPE_REASSOC_REQ \<and> sub = WLAN_REASSOC_REQ"
    "sta_abs l (frame_sa (mh_mgmt h)) = Some i" "mh_sta h = Some p" "sta_at p (ap_hapd s) = Inr x"
    "length (sta_supported_rates x) = 32" "0 \<le> sta_supported_rates_len x" "sta_supported_rates_len x \<le> 32"
  shows "\<exists>l' i'. process_sta_msg e h s = Inr (s\<lparr>staList := Live l', ap_controller := Live (reply e
      (ap_msg e sub (assoc_body (frame_sa (mh_mgmt h)) m x)) c)\<rparr>) \<and> stas_ok n l' \<and>
    sta_abs l' = (sta_abs l)(frame_sa (mh_mgmt h) \<mapsto> i') \<and> si_aid i' = sta_aid x \<and> si_capability i' = sta_capability x \<and>
    si_listen_interval i' = sta_listen_interval x \<and> si_qosinfo i' = sta_qosinfo x \<and>
    si_supported_rates_len i' = word_of_int (sta_supported_rates_len x) \<and>
    take (nat (sta_supported_rates_len x)) (si_supported_rates i') = take (nat (sta_supported_rates_len x)) (sta_supported_rates x) \<and>
    si_auth_alg i' = si_auth_alg i \<and> si_status i' = si_status i"
  by (rule process_sta_msg_assoc [OF assms])

definition demo_hapd :: hapd where
  "demo_hapd = (case ap_sta_add demo_conf demo_hap_env demo_addr (hapd_init 63) of Inr (_, h) \<Rightarrow> h)"

lemma demo_hapd_at: "sta_at 0 demo_hapd = Inr (hap_new demo_addr)"
proof -
  obtain q h' where h': "ap_sta_add demo_conf demo_hap_env demo_addr (hapd_init 63) = Inr (Some q, h')" "hap_inv h'"
    "hap_find h' demo_addr = Some (q, hap_new demo_addr)"
    using ap_sta_add_new [OF hap_inv_init [of 63], of demo_addr demo_conf demo_hap_env] hap_abs_init [of 63 demo_addr]
    by (auto simp: hap_abs_def demo_conf_def demo_hap_env_def hapd_init_def)
  have "ap_sta_add demo_conf demo_hap_env demo_addr (hapd_init 63) = Inr (Some 0, h')"
    using h'(1) ap_get_sta_eq [OF hap_inv_init [of 63], of demo_addr] hap_abs_init [of 63 demo_addr]
    by (auto simp: ap_sta_add_def hap_abs_def demo_conf_def demo_hap_env_def hapd_init_def ap_sta_hash_add_def push_front_def
        alloc_def chains_init_def Let_def bindE_eq_Inr split: option.splits)
  then have q: "q = 0" "demo_hapd = h'" using h'(1) by (simp_all add: demo_hapd_def)
  then show ?thesis using sta_at_find(1) [OF h'(2,3)] by simp
qed

lemma hap_new_rates:
  "length (sta_supported_rates (hap_new demo_addr)) = 32" "0 \<le> sta_supported_rates_len (hap_new demo_addr)"
  "sta_supported_rates_len (hap_new demo_addr) \<le> 32" "sta_aid (hap_new demo_addr) = 0"
  by (simp_all add: hap_new_def zeroed_sta_def WLAN_SUPP_RATES_MAX_def)

definition demo_assoc_frame :: buf where
  "demo_assoc_frame = [0, 0, 0, 0] @ mac_bytes demo_ap_mac @ mac_bytes demo_addr @ mac_bytes demo_ap_mac @ [0, 0]"

theorem assoc_report_witness:
  "\<exists>l' i'. process_sta_msg demo_ap_env \<lparr>mh_mgmt = demo_assoc_frame, mh_len = 24, mh_sta = Some 0\<rparr> (demo_access_point demo_list demo_hapd) =
     Inr ((demo_access_point l' demo_hapd)\<lparr>ap_controller := Live (reply demo_ap_env
       (ap_msg demo_ap_env WLAN_ASSOC_REQ (assoc_body demo_addr demo_ap_mac (hap_new demo_addr))) demo_ap_conn)\<rparr>) \<and>
     sta_abs l' demo_addr = Some i' \<and> si_aid i' = 0"
proof -
  let ?s = "demo_access_point demo_list demo_hapd" and ?h = "\<lparr>mh_mgmt = demo_assoc_frame, mh_len = 24, mh_sta = Some 0\<rparr>"
  have c: "ap_controller ?s = Live demo_ap_conn" "conn_mac demo_ap_conn = Some demo_ap_mac" "staList ?s = Live demo_list"
    "calloc_ok demo_ap_env = (\<lambda>_. True)" "ap_hapd ?s = demo_hapd"
    by (simp_all add: demo_access_point_def demo_ap_conn_def demo_ap_env_def)
  have f: "24 \<le> length (mh_mgmt ?h)" "frame_type (mh_mgmt ?h) = Some WLAN_FC_STYPE_ASSOC_REQ" "frame_sa (mh_mgmt ?h) = demo_addr"
    by code_simp+
  have i: "sta_abs demo_list (frame_sa (mh_mgmt ?h)) = Some (new_infoSTA demo_addr)" using demo_list_ok(2) f(3) by simp
  have x: "sta_at 0 (ap_hapd ?s) = Inr (hap_new demo_addr)" using demo_hapd_at c(5) by simp
  from assoc_report [OF c(1-3) demo_list_ok(1) c(4) f(1,2) _ i _ x hap_new_rates(1-3), of WLAN_ASSOC_REQ] f(3) hap_new_rates(4) show ?thesis
    by (auto simp: demo_access_point_def)
qed

end
