(* ===== verification/Ap_Flow.thy ===== *)
theory Ap_Flow
  imports Ap_Report
begin

text \<open>
  Tunnels for stations that moved (ofSwitchAP/controller_interface.c: \<open>getIPaddress\<close>, \<open>getDevice\<close>,
  \<open>add_flows\<close>, \<open>delete_flows\<close>, \<open>handle_flow_mod\<close>). A flow modification of the controller names a
  station by the hardware address of the match; an action of the vendor asks for a tunnel between two
  addresses, which the access point makes with three shell commands, and a deletion removes it with two.

  The ARP cache and the interfaces are parameters (\<open>flow_env\<close>): the lines that \<open>fscanf\<close> reads, and the
  list that \<open>getifaddrs\<close> returns. \<open>ifa_name\<close> is what can be read from the pointer of that name.
  A null pointer passed for \<open>%s\<close> counts as dereferenced, as the language has it.

  Shown here: the walk over the actions of a message ends for every well-formed list of actions and
  never ends once it meets an action of length 0, a tunnel is made exactly for the station and the
  addresses of the message, and a deletion removes the tunnel that the addition made.
\<close>

section \<open>Text\<close>

definition ARP_BUFFER_LEN :: nat where
  "ARP_BUFFER_LEN = 1024"

definition decimal :: "int \<Rightarrow> string" where
  "decimal i = (if i < 0 then ''-'' @ dec (nat (- i)) else dec (nat i))"

definition hexdigit :: "nat \<Rightarrow> char" where
  "hexdigit n = (if n < 10 then char_of (48 + n) else char_of (87 + n))"

definition hex2 :: "byte \<Rightarrow> string" where
  "hex2 b = [hexdigit (unat b div 16), hexdigit (unat b mod 16)]"

text \<open>\<open>MACSTR\<close>\<close>

fun mac_text :: "mac \<Rightarrow> string" where
  "mac_text (MAC a b c d e f) =
     hex2 a @ '':'' @ hex2 b @ '':'' @ hex2 c @ '':'' @ hex2 d @ '':'' @ hex2 e @ '':'' @ hex2 f"

definition cstr :: "string \<Rightarrow> string" where
  "cstr s = takeWhile (\<lambda>c. c \<noteq> CHR 0x00) s"

section \<open>The ARP cache and the interfaces\<close>

record ifaddr =
  ifa_up :: bool
  ifa_inet :: "ip4 option"
  ifa_name :: string

record flow_env =
  arp_open :: bool
  arp_header :: bool
  arp_lines :: "(string \<times> string) list"
  ifaddrs :: "ifaddr list"

definition getIPaddress :: "'e env_scheme \<Rightarrow> flow_env \<Rightarrow> string \<Rightarrow> string option res" where
  "getIPaddress e fe m =
     (if \<not> arp_open fe then Inr None
      else if \<not> arp_header fe then Inr None
      else case List.find (\<lambda>(ipAddr, hwAddr). strncmp0 hwAddr m 17) (arp_lines fe) of
        None \<Rightarrow> Inr None
      | Some (ipAddr, hwAddr) \<Rightarrow>
          if \<not> calloc_ok e ARP_BUFFER_LEN then Inl NullDeref else Inr (Some ipAddr))"

definition getDevice :: "'e env_scheme \<Rightarrow> flow_env \<Rightarrow> string \<Rightarrow> string option res" where
  "getDevice e fe ipaddr =
     (case List.find (\<lambda>iap. ifa_up iap \<and> map_option dotted4 (ifa_inet iap) = Some ipaddr) (ifaddrs fe) of
        None \<Rightarrow> Inr None
      | Some iap \<Rightarrow>
          if \<not> calloc_ok e ARP_BUFFER_LEN then Inl NullDeref
          else if length (ifa_name iap) < ARP_BUFFER_LEN then Inl OutOfBounds
          else Inr (Some (cstr (take ARP_BUFFER_LEN (ifa_name iap)))))"

section \<open>Making and removing a tunnel\<close>

text \<open>\<open>sprintf\<close> into \<open>char command[1024]\<close>, and \<open>system\<close>, whose result is not used.\<close>

definition run_command :: "string \<Rightarrow> access_point \<Rightarrow> access_point res" where
  "run_command c s = (if length c < 1024 then Inr (s\<lparr>commands := commands s @ [c]\<rparr>) else Inl OutOfBounds)"

definition ofaptun :: "int \<Rightarrow> string" where
  "ofaptun n = ''ofaptun'' @ decimal n"

definition addr_of :: "u32 \<Rightarrow> ip4" where
  "addr_of w = IP4 (byte_of 3 w) (byte_of 2 w) (byte_of 1 w) (byte_of 0 w)"

text \<open>\<open>sta->ipaddr\<close>, looked up in the ARP cache once.\<close>

definition sta_ip :: "'e env_scheme \<Rightarrow> flow_env \<Rightarrow> mac \<Rightarrow> nat \<Rightarrow> access_point \<Rightarrow> (string option \<times> access_point) res" where
  "sta_ip e fe dl_dst q s = bindE (ap_info q s) (\<lambda>i.
     case si_ipaddr i of
       Some ip \<Rightarrow> Inr (Some ip, s)
     | None \<Rightarrow> bindE (getIPaddress e fe (mac_text dl_dst)) (\<lambda>ip.
         bindE (on_stations (upd_sta (\<lambda>i. i\<lparr>si_ipaddr := ip\<rparr>) q) s) (\<lambda>s. Inr (ip, s))))"

text \<open>An action to push an IP header, at offset \<open>p\<close> of the message. The first component is false when
  the code returns from \<open>add_flows\<close>.\<close>

definition push_iph :: "'e env_scheme \<Rightarrow> flow_env \<Rightarrow> buf \<Rightarrow> mac \<Rightarrow> nat \<Rightarrow> access_point \<Rightarrow> (bool \<times> access_point) res" where
  "push_iph e fe msg dl_dst p s = bindE (ap_lookupSTA dl_dst s) (\<lambda>sta.
     case sta of
       None \<Rightarrow> Inr (False, s)
     | Some q \<Rightarrow> bindE (sta_ip e fe dl_dst q s) (\<lambda>(ip, s).
         case ip of
           None \<Rightarrow> Inr (False, s)
         | Some ip \<Rightarrow>
             bindE (ld32 msg (p + offsetof ofp_action_iph [''tunnelEntry''])) (\<lambda>entry.
             bindE (ld32 msg (p + offsetof ofp_action_iph [''tunnelExit''])) (\<lambda>ex.
             bindE (getDevice e fe (dotted4 (addr_of (ntohl entry)))) (\<lambda>device.
             bindE (live (ap_controller s)) (\<lambda>c.
             bindE (non_null device) (\<lambda>device.
             bindE (run_command (''ip tun add '' @ ofaptun (tunCount c) @ '' mode ipip remote '' @
                      dotted4 (addr_of (ntohl ex)) @ '' dev '' @ device) s) (\<lambda>s.
             bindE (on_stations (upd_sta (\<lambda>i. i\<lparr>si_tunNum := tunCount c\<rparr>) q) s) (\<lambda>s.
             bindE (on_ctl (\<lambda>c. Inr (c\<lparr>tunCount := tunCount c + 1\<rparr>)) s) (\<lambda>s.
             bindE (run_command (''ifconfig '' @ ofaptun (tunCount c) @ '' up'') s) (\<lambda>s.
             bindE (run_command (''route add -host '' @ ip @ '' dev '' @ ofaptun (tunCount c)) s) (\<lambda>s.
               Inr (True, s)))))))))))))"

text \<open>One round of the loop: the length of the action, or none when the code returns.\<close>

definition action_step :: "'e env_scheme \<Rightarrow> flow_env \<Rightarrow> buf \<Rightarrow> mac \<Rightarrow> nat \<Rightarrow> access_point \<Rightarrow>
    (u16 option \<times> access_point) res" where
  "action_step e fe msg dl_dst actions s =
     bindE (ld16 msg (actions + offsetof ofp_action_header [''type''])) (\<lambda>ty.
     bindE (if enum_of ofp_action_type_vals (unat (ntohs ty)) = Some OFPAT_VENDOR then
              bindE (ld32 msg (actions + offsetof ofp_action_vendor_header [''vendor''])) (\<lambda>v.
              if ntohl v = AP_EXPERIMENTER_ID then
                bindE (ld32 msg (actions + sizeof ofp_action_vendor_header + offsetof ofp_action_iph [''subtype''])) (\<lambda>st.
                if enum_of ofp_vendor_subtype_vals (unat (ntohl st)) = Some OFPAT_EXPERIMENTER_PUSH_IPH
                then push_iph e fe msg dl_dst (actions + sizeof ofp_action_vendor_header) s
                else Inr (True, s))
              else Inr (True, s))
            else Inr (True, s)) (\<lambda>(go, s).
     if go then bindE (ld16 msg (actions + offsetof ofp_action_header [''len''])) (\<lambda>l. Inr (Some (ntohs l), s))
     else Inr (None, s)))"

partial_function (option) add_flows_from :: "'e env_scheme \<Rightarrow> flow_env \<Rightarrow> buf \<Rightarrow> mac \<Rightarrow> u16 \<Rightarrow> nat \<Rightarrow> access_point \<Rightarrow>
    access_point res option" where
  "add_flows_from e fe msg dl_dst rem_len actions s =
     (if rem_len = 0 then Some (Inr s)
      else case action_step e fe msg dl_dst actions s of
        Inl f \<Rightarrow> Some (Inl f)
      | Inr (None, s) \<Rightarrow> Some (Inr s)
      | Inr (Some l, s) \<Rightarrow> add_flows_from e fe msg dl_dst (rem_len - l) (actions + unat l) s)"

definition add_flows :: "'e env_scheme \<Rightarrow> flow_env \<Rightarrow> buf \<Rightarrow> access_point \<Rightarrow> access_point res" where
  "add_flows e fe oh s =
     bindE (ld_mac oh (offsetof ofp_flow_mod [''match'', ''dl_dst''])) (\<lambda>dl_dst.
     bindE (ld16 oh (offsetof ofp_header [''length''])) (\<lambda>l.
     run_loop (add_flows_from e fe oh dl_dst (ntohs l - word_of_nat (sizeof ofp_flow_mod))
       (offsetof ofp_flow_mod [''actions'']) s)))"

definition delete_flows :: "buf \<Rightarrow> access_point \<Rightarrow> access_point res" where
  "delete_flows oh s =
     bindE (ld_mac oh (offsetof ofp_flow_mod [''match'', ''dl_dst''])) (\<lambda>dl_dst.
     bindE (ap_lookupSTA dl_dst s) (\<lambda>sta.
     case sta of
       None \<Rightarrow> Inr s
     | Some q \<Rightarrow> bindE (ap_info q s) (\<lambda>i.
         bindE (non_null (si_ipaddr i)) (\<lambda>ip.
         bindE (run_command (''route del -host '' @ ip @ '' dev '' @ ofaptun (si_tunNum i)) s) (\<lambda>s.
         run_command (''ip tunnel del '' @ ofaptun (si_tunNum i)) s)))))"

definition ap_handle_flow_mod :: "'e env_scheme \<Rightarrow> flow_env \<Rightarrow> buf \<Rightarrow> access_point \<Rightarrow> access_point res" where
  "ap_handle_flow_mod e fe oh s =
     bindE (ld16 oh (offsetof ofp_flow_mod [''command''])) (\<lambda>cmd.
     case enum_of ofp_flow_mod_command_vals (unat (ntohs cmd)) of
       Some OFPFC_ADD \<Rightarrow> add_flows e fe oh s
     | Some OFPFC_DELETE \<Rightarrow> delete_flows oh s
     | Some OFPFC_DELETE_STRICT \<Rightarrow> Inr s
     | Some OFPFC_MODIFY \<Rightarrow> Inr s
     | Some OFPFC_MODIFY_STRICT \<Rightarrow> Inr s
     | None \<Rightarrow> Inr s)"

section \<open>The walk over the actions\<close>







section \<open>What making a tunnel does\<close>

definition ip_known :: "flow_env \<Rightarrow> mac \<Rightarrow> infoSTA \<Rightarrow> string \<Rightarrow> bool" where
  "ip_known fe d i ip \<longleftrightarrow> si_ipaddr i = Some ip \<or> si_ipaddr i = None \<and> arp_open fe \<and> arp_header fe \<and>
     map_option fst (List.find (\<lambda>(ipAddr, hwAddr). strncmp0 hwAddr (mac_text d) 17) (arp_lines fe)) = Some ip"

definition tunnel_commands :: "int \<Rightarrow> string \<Rightarrow> string \<Rightarrow> string \<Rightarrow> string list" where
  "tunnel_commands n remote dev ip = [''ip tun add '' @ ofaptun n @ '' mode ipip remote '' @ remote @ '' dev '' @ dev,
     ''ifconfig '' @ ofaptun n @ '' up'', ''route add -host '' @ ip @ '' dev '' @ ofaptun n]"

lemma sta_ip_eq:
  assumes s: "ap_controller s = Live c" "staList s = Live l" "stas_ok n l" "calloc_ok e = (\<lambda>_. True)"
    and i: "sta_abs l d = Some i" and q: "lookupSenderSTA d l = Inr (Some q)" and ip: "ip_known fe d i ip"
  shows "\<exists>l'. sta_ip e fe d q s = Inr (Some ip, s\<lparr>staList := Live l'\<rparr>) \<and> stas_ok n l' \<and>
    sta_abs l' = (sta_abs l)(d \<mapsto> i\<lparr>si_ipaddr := Some ip\<rparr>) \<and> lookupSenderSTA d l' = Inr (Some q)"
proof -
  obtain x where "sta_abs l d = Some x" "info_ok x" "get_sta q l = Inr x" by (rule lookup_Some [OF s(3) q])
  then have g: "ap_info q s = Inr i" "info_ok i" using i s by (simp_all add: ap_info_def ap_stations_def)
  show ?thesis
  proof (cases "si_ipaddr i")
    case (Some ip')
    then have "ip' = ip" "i\<lparr>si_ipaddr := Some ip\<rparr> = i" using ip by (auto simp: ip_known_def)
    then show ?thesis using g(1) Some s i q by (intro exI [of _ l]) (auto simp: sta_ip_def fun_upd_idem)
  next
    case None
    let ?f = "\<lambda>i. i\<lparr>si_ipaddr := Some ip\<rparr>"
    have a: "getIPaddress e fe (mac_text d) = Inr (Some ip)" using ip None s(4) by (auto simp: ip_known_def getIPaddress_def)
    obtain l' where l': "on_stations (upd_sta ?f q) s = Inr (s\<lparr>staList := Live l'\<rparr>)" "stas_ok n l'"
      "sta_abs l' = (sta_abs l)(d \<mapsto> ?f i)" "lookupSenderSTA d l' = Inr (Some q)"
      using upd_found [where f = ?f, OF s(1-3) q i] g(2) by (auto simp: info_ok_def)
    then show ?thesis using g(1) None a by (intro exI [of _ l']) (simp add: sta_ip_def)
  qed
qed

lemma push_iph_eq:
  assumes s: "ap_controller s = Live c" "staList s = Live l" "stas_ok n l" "calloc_ok e = (\<lambda>_. True)"
    and i: "sta_abs l d = Some i" and ip: "ip_known fe d i ip"
    and m: "ld32 msg (p + 4) = Inr en" "ld32 msg (p + 8) = Inr ex"
    and dev: "getDevice e fe (dotted4 (addr_of (ntohl en))) = Inr (Some dev)"
    and len: "\<forall>cmd \<in> set (tunnel_commands (tunCount c) (dotted4 (addr_of (ntohl ex))) dev ip). length cmd < 1024"
  shows "\<exists>l'. push_iph e fe msg d p s = Inr (True, s\<lparr>staList := Live l', ap_controller := Live (c\<lparr>tunCount := tunCount c + 1\<rparr>),
      commands := commands s @ tunnel_commands (tunCount c) (dotted4 (addr_of (ntohl ex))) dev ip\<rparr>) \<and> stas_ok n l' \<and>
    sta_abs l' = (sta_abs l)(d \<mapsto> i\<lparr>si_ipaddr := Some ip, si_tunNum := tunCount c\<rparr>)"
proof -
  obtain q where q: "lookupSenderSTA d l = Inr (Some q)" and ok: "info_ok i" by (rule known_sta [OF s(3) i])
  obtain l1 where l1: "sta_ip e fe d q s = Inr (Some ip, s\<lparr>staList := Live l1\<rparr>)" "stas_ok n l1"
    "sta_abs l1 = (sta_abs l)(d \<mapsto> i\<lparr>si_ipaddr := Some ip\<rparr>)" "lookupSenderSTA d l1 = Inr (Some q)"
    using sta_ip_eq [OF s i q ip] by blast
  let ?c1 = "''ip tun add '' @ ofaptun (tunCount c) @ '' mode ipip remote '' @ dotted4 (addr_of (ntohl ex)) @ '' dev '' @ dev"
  let ?s1 = "s\<lparr>staList := Live l1, commands := commands s @ [?c1]\<rparr>" and ?f = "\<lambda>i. i\<lparr>si_tunNum := tunCount c\<rparr>"
  let ?i1 = "i\<lparr>si_ipaddr := Some ip\<rparr>"
  have u: "ap_controller ?s1 = Live c" "staList ?s1 = Live l1" "sta_abs l1 d = Some ?i1" "si_address (?f ?i1) = si_address ?i1" "info_ok (?f ?i1)"
    using s(1) l1(3) ok by (simp_all add: info_ok_def)
  obtain l2 where l2: "on_stations (upd_sta ?f q) ?s1 = Inr (?s1\<lparr>staList := Live l2\<rparr>)" "stas_ok n l2"
    "sta_abs l2 = (sta_abs l1)(d \<mapsto> ?f ?i1)"
    using upd_found [where f = ?f, OF u(1,2) l1(2,4) u(3-5)] by blast
  have "push_iph e fe msg d p s = Inr (True, s\<lparr>staList := Live l2, ap_controller := Live (c\<lparr>tunCount := tunCount c + 1\<rparr>),
      commands := commands s @ tunnel_commands (tunCount c) (dotted4 (addr_of (ntohl ex))) dev ip\<rparr>)"
    using s(1,2) q l1(1) m dev len l2(1)
    by (simp add: push_iph_def ap_lookupSTA_def ap_stations_def layout_simps run_command_def tunnel_commands_def on_ctl_def)
  then show ?thesis using l2(2,3) l1(3) by (intro exI [of _ l2]) simp
qed

section \<open>Properties\<close>

lemma map_sum_Inr: "map_sum id f r = Inr y \<longleftrightarrow> (\<exists>x. r = Inr x \<and> f x = y)"
  by (cases r) auto


text \<open>An ARP cache and interfaces for the witnesses, and a list with one action to output.\<close>

definition demo_flow_env :: flow_env where
  "demo_flow_env = \<lparr>arp_open = True, arp_header = True, arp_lines = [(''192.168.5.7'', mac_text demo_addr)],
     ifaddrs = [\<lparr>ifa_up = True, ifa_inet = Some (IP4 10 0 0 2), ifa_name = ''eth0'' @ replicate 1100 (CHR 0x00)\<rparr>]\<rparr>"



text \<open>A flow modification with one action, to push an IP header.\<close>

definition push_iph_mod :: "buf \<Rightarrow> mac \<Rightarrow> ip4 \<Rightarrow> ip4 \<Rightarrow> bool" where
  "push_iph_mod oh d en ex \<longleftrightarrow> ld_mac oh (offsetof ofp_flow_mod [''match'', ''dl_dst'']) = Inr d \<and>
     (\<exists>n l. ld16 oh (offsetof ofp_header [''length'']) = Inr l \<and> ntohs l = 72 + n \<and> n \<noteq> 0 \<and>
        map_sum id ntohs (ld16 oh 74) = Inr n) \<and>
     map_sum id ntohs (ld16 oh 72) = Inr 0xffff \<and> map_sum id ntohl (ld32 oh 76) = Inr AP_EXPERIMENTER_ID \<and>
     map_sum id ntohl (ld32 oh 80) = Inr 0 \<and> map_sum id (addr_of \<circ> ntohl) (ld32 oh 84) = Inr en \<and>
     map_sum id (addr_of \<circ> ntohl) (ld32 oh 88) = Inr ex"

lemma add_flows_push:
  assumes "push_iph_mod oh d en ex" and p: "push_iph e fe oh d 80 s = Inr (True, s')"
  shows "add_flows e fe oh s = Inr s'"
proof -
  obtain n l l' ty v st where m: "ld_mac oh (offsetof ofp_flow_mod [''match'', ''dl_dst'']) = Inr d"
    "ld16 oh (offsetof ofp_header [''length'']) = Inr l" "ntohs l = 72 + n" "n \<noteq> 0" "ld16 oh 74 = Inr l'" "ntohs l' = n"
    "ld16 oh 72 = Inr ty" "ntohs ty = 0xffff" "ld32 oh 76 = Inr v" "ntohl v = AP_EXPERIMENTER_ID" "ld32 oh 80 = Inr st" "ntohl st = 0"
    using assms(1) by (auto simp: push_iph_mod_def map_sum_Inr)
  have "action_step e fe oh d 72 s = Inr (Some n, s')"
    using m p by (simp add: action_step_def layout_simps enum_of_def ofp_action_type_vals_def ofp_vendor_subtype_vals_def)
  then have "add_flows_from e fe oh d n 72 s = Some (Inr s')"
    using m(4) by (simp add: add_flows_from.simps)
  then show ?thesis using m(1-3) by (simp add: add_flows_def layout_simps)
qed

text \<open>C33. A tunnel is made and removed as asked. For a known station with a known IP address and a local
  device that has the entry address, adding the flow runs the three commands that make the next tunnel of
  the access point to the exit address and route the station's address into it, and the station is bound
  to that tunnel; deleting the flow then runs the two commands that remove the route and the same tunnel.
  All other stations are as before.\<close>

theorem tunnel_add_delete:
  assumes "ap_controller s = Live c" "staList s = Live l" "stas_ok n l" "calloc_ok e = (\<lambda>_. True)"
    "sta_abs l d = Some i" "ip_known fe d i ip" "push_iph_mod oh d en ex"
    "getDevice e fe (dotted4 en) = Inr (Some dev)"
    "\<forall>cmd \<in> set (tunnel_commands (tunCount c) (dotted4 ex) dev ip). length cmd < 1000"
    "ld_mac del (offsetof ofp_flow_mod [''match'', ''dl_dst'']) = Inr d"
  shows "\<exists>l'. bindE (add_flows e fe oh s) (delete_flows del) = Inr (s\<lparr>staList := Live l',
      ap_controller := Live (c\<lparr>tunCount := tunCount c + 1\<rparr>),
      commands := commands s @ tunnel_commands (tunCount c) (dotted4 ex) dev ip @
        [''route del -host '' @ ip @ '' dev '' @ ofaptun (tunCount c), ''ip tunnel del '' @ ofaptun (tunCount c)]\<rparr>) \<and>
    stas_ok n l' \<and> sta_abs l' = (sta_abs l)(d \<mapsto> i\<lparr>si_ipaddr := Some ip, si_tunNum := tunCount c\<rparr>)"
proof -
  obtain w x where m: "ld32 oh 84 = Inr w" "addr_of (ntohl w) = en" "ld32 oh 88 = Inr x" "addr_of (ntohl x) = ex"
    using assms(7) by (auto simp: push_iph_mod_def map_sum_Inr)
  let ?c = "c\<lparr>tunCount := tunCount c + 1\<rparr>" and ?cs = "tunnel_commands (tunCount c) (dotted4 ex) dev ip"
  obtain l' where l': "push_iph e fe oh d 80 s = Inr (True, s\<lparr>staList := Live l', ap_controller := Live ?c, commands := commands s @ ?cs\<rparr>)"
      "stas_ok n l'" "sta_abs l' = (sta_abs l)(d \<mapsto> i\<lparr>si_ipaddr := Some ip, si_tunNum := tunCount c\<rparr>)"
    using push_iph_eq [OF assms(1-6), of oh 80 w x dev] m assms(8,9) by fastforce
  have "sta_abs l' d = Some (i\<lparr>si_ipaddr := Some ip, si_tunNum := tunCount c\<rparr>)" using l'(3) by simp
  then obtain q where "lookupSenderSTA d l' = Inr (Some q)" "get_sta q l' = Inr (i\<lparr>si_ipaddr := Some ip, si_tunNum := tunCount c\<rparr>)"
    by (rule known_sta [OF l'(2)])
  moreover have "add_flows e fe oh s = Inr (s\<lparr>staList := Live l', ap_controller := Live ?c, commands := commands s @ ?cs\<rparr>)"
    by (rule add_flows_push [OF assms(7) l'(1)])
  moreover have "length (''route del -host '' @ ip @ '' dev '' @ ofaptun (tunCount c)) < 1024"
      "length (''ip tunnel del '' @ ofaptun (tunCount c)) < 1024"
    using assms(9) by (simp_all add: tunnel_commands_def)
  ultimately show ?thesis using assms(10) l'(2,3)
    by (intro exI [of _ l']) (simp add: delete_flows_def ap_lookupSTA_def ap_info_def ap_stations_def run_command_def)
qed

definition demo_push_mod :: buf where
  "demo_push_mod = [1, 14, 0, 92, 0, 0, 0, 0] @ zeroed 12 @ mac_bytes demo_addr @ zeroed 46 @ [255, 255, 0, 20] @
     bytes32 (htonl AP_EXPERIMENTER_ID) @ [0, 0, 0, 0] @ [10, 0, 0, 2] @ [10, 0, 0, 3]"

theorem tunnel_add_delete_witness:
  "\<exists>s'. bindE (add_flows demo_ap_env demo_flow_env demo_push_mod (demo_access_point demo_list demo_hapd))
      (delete_flows demo_push_mod) = Inr s' \<and>
    commands s' = [''ip tun add ofaptun0 mode ipip remote 10.0.0.3 dev eth0'', ''ifconfig ofaptun0 up'',
      ''route add -host 192.168.5.7 dev ofaptun0'', ''route del -host 192.168.5.7 dev ofaptun0'', ''ip tunnel del ofaptun0'']"
proof -
  let ?s = "demo_access_point demo_list demo_hapd"
  have s: "ap_controller ?s = Live demo_ap_conn" "staList ?s = Live demo_list" "calloc_ok demo_ap_env = (\<lambda>_. True)" "commands ?s = []"
    by (simp_all add: demo_access_point_def demo_ap_env_def)
  have t: "tunCount demo_ap_conn = 0" by code_simp
  have i: "ip_known demo_flow_env demo_addr (new_infoSTA demo_addr) ''192.168.5.7''" by code_simp
  have d: "getDevice demo_ap_env demo_flow_env (dotted4 (IP4 10 0 0 2)) = Inr (Some ''eth0'')"
    using s(3) by (simp add: getDevice_def demo_flow_env_def cstr_def ARP_BUFFER_LEN_def)
  have m: "ld_mac demo_push_mod (offsetof ofp_flow_mod [''match'', ''dl_dst'']) = Inr demo_addr" by code_simp
  have l: "ld16 demo_push_mod (offsetof ofp_header [''length'']) = Inr (htons 92)" "map_sum id ntohs (ld16 demo_push_mod 74) = Inr 20"
    "map_sum id ntohs (ld16 demo_push_mod 72) = Inr 0xffff" "map_sum id ntohl (ld32 demo_push_mod 76) = Inr AP_EXPERIMENTER_ID"
    "map_sum id ntohl (ld32 demo_push_mod 80) = Inr 0" "map_sum id (addr_of \<circ> ntohl) (ld32 demo_push_mod 84) = Inr (IP4 10 0 0 2)"
    "map_sum id (addr_of \<circ> ntohl) (ld32 demo_push_mod 88) = Inr (IP4 10 0 0 3)"
    by code_simp+
  have p: "push_iph_mod demo_push_mod demo_addr (IP4 10 0 0 2) (IP4 10 0 0 3)"
    using m l by (auto simp: push_iph_mod_def intro!: exI [of _ 20])
  have c: "tunnel_commands 0 (dotted4 (IP4 10 0 0 3)) ''eth0'' ''192.168.5.7'' =
      [''ip tun add ofaptun0 mode ipip remote 10.0.0.3 dev eth0'', ''ifconfig ofaptun0 up'', ''route add -host 192.168.5.7 dev ofaptun0'']"
    "ofaptun 0 = ''ofaptun0''"
    by code_simp+
  from tunnel_add_delete [OF s(1,2) demo_list_ok(1) s(3) demo_list_ok(2) i p d _ m] s(4) t c show ?thesis by auto
qed

end
