(* ===== verification/Ap_Controller.thy ===== *)
theory Ap_Controller
  imports Ap_Flow
begin

text \<open>
  The access point's side of the control channel (ofSwitchAP/controller_interface.c: \<open>handle_vendor\<close>,
  \<open>process_controller_msg\<close>, \<open>controller_receive\<close>, \<open>controller_run\<close>, \<open>controller_conn_init\<close>,
  \<open>controller_conn_close\<close>). The messages of the controller select a station, ask for its signal
  strength, hand it over to this access point, take it away, and assign a port to a flow.

  Shown here: a handover message leaves the station associated in the station list with all that the
  message says and admits it to hostapd; a removal takes it out of hostapd; a selection and a port
  assignment do what they say; every message keeps the invariants of the access point; and closing the
  connection reads the memory that it just freed.
\<close>

section \<open>Messages of the controller\<close>

text \<open>The results of hostapd's other subsystems and of the commands, for one message.\<close>

record ctl_env = ap_env +
  hap_results :: hap_env
  flow_results :: flow_env

definition on_hapd :: "(hapd \<Rightarrow> hapd res) \<Rightarrow> access_point \<Rightarrow> access_point res" where
  "on_hapd f s = bindE (live (ap_controller s)) (\<lambda>_. bindE (f (ap_hapd s)) (\<lambda>h. Inr (s\<lparr>ap_hapd := h\<rparr>)))"

definition wlan_sta_addr :: "buf \<Rightarrow> mac res" where
  "wlan_sta_addr oh = ld_mac oh (sizeof ofp_wlan_header + offsetof ofp_wlan_sta [''staMacAddress''])"

definition handle_add_sta :: "'e env_scheme \<Rightarrow> hap_conf \<Rightarrow> buf \<Rightarrow> access_point \<Rightarrow> access_point res" where
  "handle_add_sta e conf oh s =
     bindE (wlan_sta_addr oh) (\<lambda>a.
     bindE (ap_lookupSTA a s) (\<lambda>staAdd.
     bindE (case staAdd of Some q \<Rightarrow> Inr (staAdd, s) | None \<Rightarrow> ap_addSTA e (conf_max_num_sta conf) a s) (\<lambda>(staAdd, s).
     case staAdd of
       None \<Rightarrow> Inr s
     | Some q \<Rightarrow> on_stations (changeStatus q SELECTED) s)))"

text \<open>What the members of the message are stored as.\<close>

definition store_update :: "buf \<Rightarrow> nat \<Rightarrow> access_point \<Rightarrow> access_point res" where
  "store_update oh q s =
     (let p = sizeof ofp_wlan_header in
      bindE (ld16 oh (p + offsetof ofp_wlan_add_update_msg [''auth_alg''])) (\<lambda>auth_alg.
      bindE (ld16 oh (p + offsetof ofp_wlan_add_update_msg [''aid''])) (\<lambda>aid.
      bindE (ld16 oh (p + offsetof ofp_wlan_add_update_msg [''capability''])) (\<lambda>capability.
      bindE (ld16 oh (p + offsetof ofp_wlan_add_update_msg [''listen_interval''])) (\<lambda>listen_interval.
      bindE (ld8 oh (p + offsetof ofp_wlan_add_update_msg [''qosinfo''])) (\<lambda>qosinfo.
      bindE (ld32 oh (p + offsetof ofp_wlan_add_update_msg [''supported_rates_len''])) (\<lambda>supported_rates_len.
      bindE (rd oh (p + offsetof ofp_wlan_add_update_msg [''supported_rates'']) (unat (ntohl supported_rates_len))) (\<lambda>rates.
      bindE (ap_info q s) (\<lambda>i.
      bindE (wr (si_supported_rates i) 0 rates) (\<lambda>copied.
      on_stations (upd_sta (\<lambda>i. i\<lparr>si_auth_alg := ntohs auth_alg, si_aid := ntohs aid, si_capability := ntohs capability,
          si_listen_interval := ntohs listen_interval, si_qosinfo := qosinfo,
          si_supported_rates_len := ntohl supported_rates_len, si_supported_rates := copied\<rparr>) q) s))))))))))"

definition handle_update_sta_add :: "'e ctl_env_scheme \<Rightarrow> hap_conf \<Rightarrow> buf \<Rightarrow> access_point \<Rightarrow> access_point res" where
  "handle_update_sta_add e conf oh s =
     bindE (ld_mac oh (sizeof ofp_wlan_header + offsetof ofp_wlan_add_update_msg [''staMacAddress''])) (\<lambda>a.
     bindE (ap_lookupSTA a s) (\<lambda>staAddUpdate.
     case staAddUpdate of
       None \<Rightarrow> Inr s
     | Some q \<Rightarrow>
         bindE (on_stations (changeStatus q ASSOCIATED) s) (\<lambda>s.
         bindE (store_update oh q s) (\<lambda>s.
         bindE (ap_info q s) (\<lambda>i.
         on_hapd (add_STA conf (hap_results e) i) s)))))"

definition handle_remove_sta :: "hap_conf \<Rightarrow> buf \<Rightarrow> access_point \<Rightarrow> access_point res" where
  "handle_remove_sta conf oh s =
     bindE (wlan_sta_addr oh) (\<lambda>a.
     bindE (ap_lookupSTA a s) (\<lambda>staRemove.
     case staRemove of
       None \<Rightarrow> Inr s
     | Some q \<Rightarrow>
         bindE (on_stations (changeStatus q NOT_AUTHENTICATED) s) (\<lambda>s.
         bindE (ap_info q s) (\<lambda>i.
         on_hapd (remove_STA conf i) s))))"

definition ap_handle_nat_add :: "'e ap_env_scheme \<Rightarrow> buf \<Rightarrow> access_point \<Rightarrow> access_point res" where
  "ap_handle_nat_add e oh s =
     (let p = sizeof ofp_wlan_header in
      bindE (ld_ip4 oh (p + offsetof ofp_nat_port_entry [''nw_src''])) (\<lambda>src_addr.
      bindE (ld_ip4 oh (p + offsetof ofp_nat_port_entry [''nw_dst''])) (\<lambda>dst_addr.
      bindE (ld16 oh (p + offsetof ofp_nat_port_entry [''tp_src''])) (\<lambda>tp_src.
      bindE (ld16 oh (p + offsetof ofp_nat_port_entry [''tp_dst''])) (\<lambda>tp_dst.
      bindE (ld16 oh (p + offsetof ofp_nat_port_entry [''tp_new''])) (\<lambda>tp_new.
      bindE (assign_port e tp_src src_addr tp_dst dst_addr tp_new (ap_entryList s)) (\<lambda>(nMap, t).
      let s = s\<lparr>ap_entryList := t\<rparr> in
      case nMap of
        None \<Rightarrow> Inr s
      | Some q \<Rightarrow> Inr (s\<lparr>reinject_threads := spawn e q (reinject_threads s)\<rparr>))))))))"

definition ap_handle_wlan :: "'e ctl_env_scheme \<Rightarrow> hap_conf \<Rightarrow> buf \<Rightarrow> access_point \<Rightarrow> access_point res" where
  "ap_handle_wlan e conf oh s =
     bindE (ld32 oh (offsetof ofp_wlan_header [''subtype''])) (\<lambda>sub.
     case enum_of exp_type_vals (unat (ntohl sub)) of
       Some WLAN_ADD_STA \<Rightarrow> handle_add_sta e conf oh s
     | Some WLAN_LAST_REC_POW \<Rightarrow> bindE (wlan_sta_addr oh) (\<lambda>a. handle_ap_rssi e a s)
     | Some WLAN_UPDATE_STA_ADD \<Rightarrow> handle_update_sta_add e conf oh s
     | Some WLAN_REMOVE_STA \<Rightarrow> handle_remove_sta conf oh s
     | Some WLAN_NAT_ADD \<Rightarrow> ap_handle_nat_add e oh s
     | _ \<Rightarrow> Inr s)"

definition ap_handle_vendor :: "'e ctl_env_scheme \<Rightarrow> hap_conf \<Rightarrow> buf \<Rightarrow> access_point \<Rightarrow> access_point res" where
  "ap_handle_vendor e conf oh s =
     bindE (ld32 oh (offsetof ofp_vendor_header [''vendor''])) (\<lambda>v.
     if ntohl v = NX_VENDOR_ID then on_ctl (handle_nicira e oh) s
     else if ntohl v = AP_EXPERIMENTER_ID then ap_handle_wlan e conf oh s
     else Inr s)"

definition ap_process_controller_msg :: "'e ctl_env_scheme \<Rightarrow> hap_conf \<Rightarrow> buf \<Rightarrow> access_point \<Rightarrow> access_point res" where
  "ap_process_controller_msg e conf oh s =
     bindE (ld8 oh (offsetof ofp_header [''type''])) (\<lambda>ty.
     case enum_of ofp_type_vals (unat ty) of
       Some OFPT_HELLO \<Rightarrow> on_ctl (handle_hello e oh) s
     | Some OFPT_ECHO_REQUEST \<Rightarrow> on_ctl (handle_echo_request e oh) s
     | Some OFPT_FEATURES_REQUEST \<Rightarrow> on_ctl (handle_feature_request e oh) s
     | Some OFPT_SET_CONFIG \<Rightarrow> on_ctl (handle_set_config oh) s
     | Some OFPT_BARRIER_REQUEST \<Rightarrow> on_ctl (handle_barrier_request e oh) s
     | Some OFPT_GET_CONFIG_REQUEST \<Rightarrow> on_ctl (handle_get_config_request e oh) s
     | Some OFPT_STATS_REQUEST \<Rightarrow> on_ctl (handle_stats_request e oh) s
     | Some OFPT_FLOW_MOD \<Rightarrow> ap_handle_flow_mod e (flow_results e) oh s
     | Some OFPT_VENDOR \<Rightarrow> ap_handle_vendor e conf oh s
     | _ \<Rightarrow> Inr s)"

section \<open>The thread of the channel\<close>

definition ap_controller_receive :: "'e ctl_env_scheme \<Rightarrow> hap_conf \<Rightarrow> rx_env \<Rightarrow> access_point \<Rightarrow> access_point res" where
  "ap_controller_receive e conf r s =
     bindE (live (ap_controller s)) (\<lambda>c.
     bindE (receive_msg r c) (\<lambda>(m, c).
     let s = s\<lparr>ap_controller := Live c\<rparr> in
     case m of None \<Rightarrow> Inr s | Some oh \<Rightarrow> ap_process_controller_msg e conf oh s))"

text \<open>One round of the loop of \<open>controller_run\<close>, which has no exit, and the rounds observed.\<close>

definition ap_controller_round :: "'e ctl_env_scheme \<Rightarrow> hap_conf \<Rightarrow> conn_env \<Rightarrow> rx_env \<Rightarrow> access_point \<Rightarrow> access_point res" where
  "ap_controller_round e conf ce r s =
     bindE (on_ctl (controller_conn_open e ce) s) (ap_controller_receive e conf r)"

fun ap_controller_run :: "('e ctl_env_scheme \<times> conn_env \<times> rx_env) list \<Rightarrow> hap_conf \<Rightarrow> access_point \<Rightarrow> access_point res" where
  "ap_controller_run [] conf s = Inr s"
| "ap_controller_run ((e, ce, r) # rs) conf s = bindE (ap_controller_round e conf ce r s) (ap_controller_run rs conf)"

section \<open>Starting and stopping\<close>

text \<open>The results of the calls of \<open>controller_conn_init\<close>; the subnet is a constant address. A null array
  of heads has no slots. The results of \<open>stat\<close>, \<open>mkdir\<close> and \<open>system\<close> do not matter.\<close>

record init_env =
  inotify_init_ret :: int
  add_watch_ret :: int
  nat_ioctl :: int
  nat_addr :: ip4

definition NATSUBNET :: ip4 where
  "NATSUBNET = IP4 192 168 5 0"

definition sizeof_ap_connection :: nat where
  "sizeof_ap_connection = 248"

definition ap_connection_init :: ap_connection where
  "ap_connection_init = \<lparr>sock = -1, error = 0, dpid = 0, miss_send_len = 0, conn_mac = None, sent = [], tunCount = 0\<rparr>"

definition ap_conn_init :: "'e of_env_scheme \<Rightarrow> init_env \<Rightarrow> hap_conf \<Rightarrow> access_point \<Rightarrow> (int \<times> access_point) res" where
  "ap_conn_init e ie conf s =
     (if \<not> calloc_ok e sizeof_ap_connection then Inr (1, s\<lparr>ap_controller := Null\<rparr>)
      else let s = s\<lparr>ap_controller := Live ap_connection_init\<rparr> in
      if \<not> calloc_ok e 16 then Inr (1, s\<lparr>staList := Null\<rparr>)
      else if \<not> calloc_ok e (8 * conf_max_num_sta conf) then Inr (1, s\<lparr>staList := Live (STAList_init 0)\<rparr>)
      else let s = s\<lparr>staList := Live (STAList_init (conf_max_num_sta conf))\<rparr> in
      if inotify_init_ret ie = -1 then Inr (1, s)
      else if add_watch_ret ie = -1 then Inr (1, s)
      else if nat_ioctl ie \<noteq> 0 then Inr (1, s)
      else if \<not> calloc_ok e 4 then Inl NullDeref
      else let s = s\<lparr>ap_ifIP := nat_addr ie, ap_subnet := dotted3 NATSUBNET\<rparr> in
      if \<not> calloc_ok e 8 then Inl NullDeref
      else let t = (if calloc_ok e (AP_MAXENTRY * 8) then AP_MAXENTRY else 0) in
        Inr (0, s\<lparr>ap_entryList := chains_init t, portQueue := chains_init t, ap_loop_terminate := True,
          commands := commands s @ [''modprobe ipip'']\<rparr>))"

definition freed :: "'a obj \<Rightarrow> 'a obj res" where
  "freed p = (case p of Null \<Rightarrow> Inr Null | Live x \<Rightarrow> Inr Freed | Freed \<Rightarrow> Inl UseAfterFree)"

definition ap_conn_close :: "access_point \<Rightarrow> access_point res" where
  "ap_conn_close s =
     bindE (live (ap_controller s)) (\<lambda>_.
     bindE (freed (ap_controller s)) (\<lambda>c.
     bindE (freed (staList s)) (\<lambda>l.
     let s = s\<lparr>ap_controller := c, staList := l, commands := commands s @ [''rm -r signal'', ''modprobe -r ipip'']\<rparr> in
     bindE (live (ap_controller s)) (\<lambda>_. Inr (s\<lparr>ap_loop_terminate := False\<rparr>)))))"

section \<open>Every message keeps the invariants\<close>

text \<open>What a command adds to \<open>talks\<close>: the shell commands.\<close>

definition acts :: "nat \<Rightarrow> access_point \<Rightarrow> access_point \<Rightarrow> bool" where
  "acts m s s' \<longleftrightarrow> ap_up m s' \<and> (\<exists>c l cs. s' = s\<lparr>ap_controller := c, staList := l, commands := cs\<rparr>)"

lemma talks_acts: "talks m s s' \<Longrightarrow> acts m s s'"
  unfolding talks_def acts_def by (elim conjE exE) (simp, metis access_point.surjective access_point.update_convs(7))

lemma acts_refl: "ap_up m s \<Longrightarrow> acts m s s"
  by (rule talks_acts [OF talks_refl])

lemma acts_trans: "acts m s t \<Longrightarrow> acts m t u \<Longrightarrow> acts m s u"
  unfolding acts_def by (elim conjE exE) (simp, blast)

lemma acts_up: "acts m s s' \<Longrightarrow> ap_up m s'"
  by (simp add: acts_def)

lemma run_command_acts: "ap_up m s \<Longrightarrow> run_command c s = Inr s' \<Longrightarrow> acts m s s'"
  by (cases s) (auto simp: run_command_def acts_def ap_up_def split: if_splits)

lemma on_ctl_acts:
  assumes "ap_up m s" "on_ctl f s = Inr s'" "\<And>c c'. conn_inv c \<Longrightarrow> f c = Inr c' \<Longrightarrow> conn_inv c'"
  shows "acts m s s'"
proof -
  obtain c l where c: "ap_controller s = Live c" "conn_inv c" "staList s = Live l" "stas_ok m l"
    using assms(1) by (auto simp: ap_up_def)
  then obtain c' where c': "f c = Inr c'" "s' = s\<lparr>ap_controller := Live c'\<rparr>" using assms(2) by (auto simp: on_ctl_def elim!: bindE_E)
  then have "s' = s\<lparr>ap_controller := Live c', staList := Live l, commands := commands s\<rparr>" using c(3) by simp
  moreover have "ap_up m s'" using c c' assms(3) by (auto simp: ap_up_def)
  ultimately show ?thesis unfolding acts_def by blast
qed

lemma sta_ip_acts:
  assumes "ap_up m s" "ap_lookupSTA d s = Inr (Some q)" "sta_ip e fe d q s = Inr (ip, s')"
  shows "acts m s s' \<and> ap_lookupSTA d s' = Inr (Some q)"
proof -
  obtain i where i: "ap_info q s = Inr i" using assms(3) by (auto simp: sta_ip_def elim!: bindE_E)
  show ?thesis
  proof (cases "si_ipaddr i")
    case None
    then have "on_stations (upd_sta (\<lambda>i. i\<lparr>si_ipaddr := ip\<rparr>) q) s = Inr s'"
      using assms(3) i by (auto simp: sta_ip_def elim!: bindE_E)
    from upd_talks [OF assms(1,2) this] show ?thesis using talks_acts by (auto simp: info_ok_def)
  next
    case (Some ip')
    then show ?thesis using assms i acts_refl by (simp add: sta_ip_def)
  qed
qed

lemma push_iph_acts:
  assumes up: "ap_up m s" and r: "push_iph e fe msg d p s = Inr (go, s')"
  shows "acts m s s'"
proof -
  obtain sta where sta: "ap_lookupSTA d s = Inr sta" using r by (auto simp: push_iph_def elim!: bindE_E)
  show ?thesis
  proof (cases sta)
    case None
    then show ?thesis using r sta acts_refl [OF up] by (simp add: push_iph_def)
  next
    case (Some q)
    obtain ip s1 where s1: "sta_ip e fe d q s = Inr (ip, s1)" using r sta Some by (auto simp: push_iph_def elim!: bindE_E)
    have a1: "acts m s s1" "ap_lookupSTA d s1 = Inr (Some q)" using sta_ip_acts [OF up _ s1] sta Some by auto
    show ?thesis
    proof (cases ip)
      case None
      then show ?thesis using r sta Some s1 a1(1) by (simp add: push_iph_def)
    next
      case ip: (Some ip')
      obtain cmd1 k s2 s3 s4 cmd2 s5 cmd3 where st: "run_command cmd1 s1 = Inr s2"
        "on_stations (upd_sta (\<lambda>i. i\<lparr>si_tunNum := k\<rparr>) q) s2 = Inr s3" "on_ctl (\<lambda>c. Inr (c\<lparr>tunCount := tunCount c + 1\<rparr>)) s3 = Inr s4"
        "run_command cmd2 s4 = Inr s5" "run_command cmd3 s5 = Inr s'"
        using r sta Some s1 ip by (auto simp: push_iph_def elim!: bindE_E)
      have a2: "acts m s1 s2" by (rule run_command_acts [OF acts_up [OF a1(1)] st(1)])
      have "ap_lookupSTA d s2 = Inr (Some q)"
        using a1(2) st(1) by (auto simp: run_command_def ap_lookupSTA_def ap_stations_def split: if_splits)
      from upd_talks [OF acts_up [OF a2] this st(2)] have a3: "acts m s2 s3" using talks_acts by (auto simp: info_ok_def)
      have a4: "acts m s3 s4" by (rule on_ctl_acts [OF acts_up [OF a3] st(3)]) (auto simp: conn_inv_def)
      have a5: "acts m s4 s5" by (rule run_command_acts [OF acts_up [OF a4] st(4)])
      have "acts m s5 s'" by (rule run_command_acts [OF acts_up [OF a5] st(5)])
      then show ?thesis using a1(1) a2 a3 a4 a5 acts_trans by blast
    qed
  qed
qed

lemma action_step_acts:
  assumes "ap_up m s" "action_step e fe msg d p s = Inr (l, s')"
  shows "acts m s s'"
  using assms acts_refl [OF assms(1)] push_iph_acts [OF assms(1)]
  by (auto simp: action_step_def elim!: bindE_E split: if_splits prod.splits)

lemma add_flows_from_acts:
  assumes "add_flows_from e fe msg d rem_len p s = Some r" "r = Inr s'" "ap_up m s"
  shows "acts m s s'"
proof -
  have "\<forall>s'. r = Inr s' \<longrightarrow> ap_up m s \<longrightarrow> acts m s s'"
  proof (rule add_flows_from.raw_induct [where P = "\<lambda>e fe msg d rem_len p s r. \<forall>s'. r = Inr s' \<longrightarrow> ap_up m s \<longrightarrow> acts m s s'",
        OF _ assms(1)])
    fix f e fe msg d p r and rem_len :: u16 and s :: access_point
    assume IH: "\<And>e fe msg d rem_len p s r. f e fe msg d rem_len p s = Some r \<Longrightarrow> \<forall>s'. r = Inr s' \<longrightarrow> ap_up m s \<longrightarrow> acts m s s'"
      and eq: "(if rem_len = 0 then Some (Inr s)
        else case action_step e fe msg d p s of Inl f \<Rightarrow> Some (Inl f) | Inr (None, s) \<Rightarrow> Some (Inr s)
          | Inr (Some l, s) \<Rightarrow> f e fe msg d (rem_len - l) (p + unat l) s) = Some r"
    show "\<forall>s'. r = Inr s' \<longrightarrow> ap_up m s \<longrightarrow> acts m s s'"
    proof (intro allI impI)
      fix s' assume r: "r = Inr s'" and up: "ap_up m s"
      show "acts m s s'"
      proof (cases "rem_len = 0")
        case False
        then obtain lo t where t: "action_step e fe msg d p s = Inr (lo, t)" using eq r by (cases "action_step e fe msg d p s") auto
        have a: "acts m s t" by (rule action_step_acts [OF up t])
        show ?thesis
        proof (cases lo)
          case (Some l)
          then have "f e fe msg d (rem_len - l) (p + unat l) t = Some r" using eq False t by simp
          then show ?thesis using IH r acts_up [OF a] acts_trans [OF a] by blast
        qed (use eq False t r a in simp)
      qed (use eq r acts_refl [OF up] in simp)
    qed
  qed
  then show ?thesis using assms(2,3) by blast
qed

lemma flow_mod_acts:
  assumes "ap_up m s" "ap_handle_flow_mod e fe oh s = Inr s'"
  shows "acts m s s'"
proof -
  have "acts m s s'" if "add_flows e fe oh s = Inr s'"
    using that add_flows_from_acts [OF _ refl assms(1)]
    by (auto simp: add_flows_def run_loop_def elim!: bindE_E split: option.splits)
  moreover have "acts m s s'" if "delete_flows oh s = Inr s'"
  proof -
    from that consider "s' = s" | c1 s1 c2 where "run_command c1 s = Inr s1" "run_command c2 s1 = Inr s'"
      by (auto simp: delete_flows_def elim!: bindE_E split: option.splits)
    then show ?thesis
    proof cases
      case 2
      from run_command_acts [OF assms(1) 2(1)] show ?thesis using run_command_acts [OF acts_up 2(2)] acts_trans by blast
    qed (use acts_refl [OF assms(1)] in simp)
  qed
  ultimately show ?thesis using assms acts_refl
    by (auto simp: ap_handle_flow_mod_def elim!: bindE_E split: option.splits ofp_flow_mod_command.splits)
qed

section \<open>Messages as bytes\<close>

text \<open>A message of the controller for an access point, and its members in the buffer of the receiver.\<close>

definition wlan_request :: "exp_type \<Rightarrow> u32 \<Rightarrow> buf \<Rightarrow> buf" where
  "wlan_request sub xid body = of_msg OFPT_VENDOR xid
     (bytes32 (htonl AP_EXPERIMENTER_ID) @ bytes32 (htonl (word_of_nat (enum_val exp_type_vals sub))) @ body)"

lemma length_wlan_request [simp]: "length (wlan_request sub xid body) = 16 + length body"
  by (simp add: wlan_request_def)

lemma drop_wlan_request: "drop 16 (wlan_request sub xid body @ rest) = body @ rest"
  by (simp add: wlan_request_def of_msg_def)

lemma nth_wlan_request: "16 \<le> k \<Longrightarrow> (wlan_request sub xid body @ rest) ! k = (body @ rest) ! (k - 16)"
  using drop_wlan_request [of sub xid body rest] nth_drop [of 16 "wlan_request sub xid body @ rest" "k - 16"] by simp

lemma wlan_request_reads [simp]:
  assumes "16 \<le> k"
  shows "ld8 (wlan_request sub xid body @ rest) k = ld8 (body @ rest) (k - 16)"
    "ld16 (wlan_request sub xid body @ rest) k = ld16 (body @ rest) (k - 16)"
    "ld32 (wlan_request sub xid body @ rest) k = ld32 (body @ rest) (k - 16)"
    "ld_mac (wlan_request sub xid body @ rest) k = ld_mac (body @ rest) (k - 16)"
    "ld_ip4 (wlan_request sub xid body @ rest) k = ld_ip4 (body @ rest) (k - 16)"
    "rd (wlan_request sub xid body @ rest) k n = rd (body @ rest) (k - 16) n"
proof -
  obtain i where i: "k = 16 + i" using assms le_Suc_ex by blast
  show "rd (wlan_request sub xid body @ rest) k n = rd (body @ rest) (k - 16) n"
    using drop_wlan_request [of sub xid body rest]
    by (simp add: i rd_def slice_def add.commute [of 16] drop_drop [symmetric] del: drop_drop drop_append)
  show "ld8 (wlan_request sub xid body @ rest) k = ld8 (body @ rest) (k - 16)"
    "ld16 (wlan_request sub xid body @ rest) k = ld16 (body @ rest) (k - 16)"
    "ld32 (wlan_request sub xid body @ rest) k = ld32 (body @ rest) (k - 16)"
    "ld_mac (wlan_request sub xid body @ rest) k = ld_mac (body @ rest) (k - 16)"
    "ld_ip4 (wlan_request sub xid body @ rest) k = ld_ip4 (body @ rest) (k - 16)"
    by (simp_all add: i ld8_def ld16_def ld32_def ld_mac_def ld_ip4_def nth_wlan_request ac_simps)
qed

lemma wlan_request_dispatch:
  "ap_process_controller_msg e conf (wlan_request sub xid body @ rest) s = (case sub of
      WLAN_ADD_STA \<Rightarrow> handle_add_sta e conf (wlan_request sub xid body @ rest) s
    | WLAN_LAST_REC_POW \<Rightarrow> bindE (wlan_sta_addr (wlan_request sub xid body @ rest)) (\<lambda>a. handle_ap_rssi e a s)
    | WLAN_UPDATE_STA_ADD \<Rightarrow> handle_update_sta_add e conf (wlan_request sub xid body @ rest) s
    | WLAN_REMOVE_STA \<Rightarrow> handle_remove_sta conf (wlan_request sub xid body @ rest) s
    | WLAN_NAT_ADD \<Rightarrow> ap_handle_nat_add e (wlan_request sub xid body @ rest) s
    | _ \<Rightarrow> Inr s)"
proof -
  let ?oh = "wlan_request sub xid body @ rest" and ?v = "word_of_nat (enum_val exp_type_vals sub) :: u32"
  have b: "bytes16 w = [byte_of 0 w, byte_of 1 w]" "bytes32 v = [byte_of 0 v, byte_of 1 v, byte_of 2 v, byte_of 3 v]" for w v
    by (simp_all add: bytes16_def bytes32_def)
  have t: "ld8 ?oh (offsetof ofp_header [''type'']) = Inr 4" "ld32 ?oh (offsetof ofp_vendor_header [''vendor'']) = Inr (htonl AP_EXPERIMENTER_ID)"
    "ld32 ?oh (offsetof ofp_wlan_header [''subtype'']) = Inr (htonl ?v)"
    by (simp_all add: ld8_def ld32_def wlan_request_def of_msg_def b layout_simps)
  have u: "unat ?v = enum_val exp_type_vals sub" by (cases sub) (simp_all add: enum_val_def exp_type_vals_def)
  have e: "enum_of ofp_type_vals 4 = Some OFPT_VENDOR" by (simp add: enum_of_def ofp_type_vals_def)
  have x: "enum_of exp_type_vals (enum_val exp_type_vals sub) = Some sub"
    by (cases sub) (simp_all add: enum_of_def enum_val_def exp_type_vals_def)
  have v: "AP_EXPERIMENTER_ID \<noteq> NX_VENDOR_ID" by (simp add: NX_VENDOR_ID_def AP_EXPERIMENTER_ID_def)
  show ?thesis
    using v by (simp add: ap_process_controller_msg_def ap_handle_vendor_def ap_handle_wlan_def t e u x)
qed

section \<open>What a handover message does\<close>

record sta_update =
  up_auth_alg :: u16
  up_aid :: u16
  up_capability :: u16
  up_listen_interval :: u16
  up_rates :: buf
  up_rates_len :: u32
  up_qosinfo :: byte

definition update_body :: "mac \<Rightarrow> sta_update \<Rightarrow> buf" where
  "update_body a u = mac_bytes a @ bytes16 (htons (up_auth_alg u)) @ bytes16 (htons (up_aid u)) @
     bytes16 (htons (up_capability u)) @ bytes16 (htons (up_listen_interval u)) @ [0, 0] @ up_rates u @
     bytes32 (htonl (up_rates_len u)) @ [up_qosinfo u, 0, 0, 0]"

text \<open>The record of the station after the message.\<close>

definition updated :: "sta_update \<Rightarrow> infoSTA \<Rightarrow> infoSTA" where
  "updated u i = (set_status ASSOCIATED i)\<lparr>si_auth_alg := up_auth_alg u, si_aid := up_aid u, si_capability := up_capability u,
     si_listen_interval := up_listen_interval u, si_qosinfo := up_qosinfo u, si_supported_rates_len := up_rates_len u,
     si_supported_rates := splice (si_supported_rates i) 0 (take (unat (up_rates_len u)) (up_rates u))\<rparr>"

lemma bytes_expand: "bytes16 w = [byte_of 0 w, byte_of 1 w]" "bytes32 v = [byte_of 0 v, byte_of 1 v, byte_of 2 v, byte_of 3 v]"
  by (simp_all add: bytes16_def bytes32_def)

lemma update_body_reads:
  assumes "length (up_rates u) = 32"
  shows "ld_mac (update_body a u @ rest) 0 = Inr a"
    "ld16 (update_body a u @ rest) 6 = Inr (htons (up_auth_alg u))" "ld16 (update_body a u @ rest) 8 = Inr (htons (up_aid u))"
    "ld16 (update_body a u @ rest) 10 = Inr (htons (up_capability u))"
    "ld16 (update_body a u @ rest) 12 = Inr (htons (up_listen_interval u))"
    "ld32 (update_body a u @ rest) 48 = Inr (htonl (up_rates_len u))" "ld8 (update_body a u @ rest) 52 = Inr (up_qosinfo u)"
    "n \<le> 32 \<Longrightarrow> rd (update_body a u @ rest) 16 n = Inr (take n (up_rates u))"
  using assms
  by (cases a; simp add: ld_mac_def ld16_def ld32_def ld8_def rd_def slice_def update_body_def bytes_expand nth_append)+

lemma updated_ok: "info_ok i \<Longrightarrow> length (up_rates u) = 32 \<Longrightarrow> unat (up_rates_len u) \<le> 32 \<Longrightarrow>
    info_ok (updated u i) \<and> si_address (updated u i) = si_address i"
  by (simp add: updated_def info_ok_def set_status_def splice_def)

lemma handle_update_eq:
  assumes s: "ap_controller s = Live c" "staList s = Live l" "stas_ok n l" and i: "sta_abs l a = Some i"
    and u: "length (up_rates u) = 32" "unat (up_rates_len u) \<le> 32"
  shows "\<exists>l'. ap_process_controller_msg e conf (wlan_request WLAN_UPDATE_STA_ADD xid (update_body a u) @ rest) s =
      bindE (add_STA conf (hap_results e) (updated u i) (ap_hapd s)) (\<lambda>h. Inr (s\<lparr>staList := Live l', ap_hapd := h\<rparr>)) \<and>
    stas_ok n l' \<and> sta_abs l' = (sta_abs l)(a \<mapsto> updated u i)"
proof -
  let ?oh = "wlan_request WLAN_UPDATE_STA_ADD xid (update_body a u) @ rest"
  obtain q where q: "lookupSenderSTA a l = Inr (Some q)" "info_ok i" by (rule known_sta [OF s(3) i])
  obtain l1 where l1: "on_stations (upd_sta (set_status ASSOCIATED) q) s = Inr (s\<lparr>staList := Live l1\<rparr>)" "stas_ok n l1"
    "sta_abs l1 = (sta_abs l)(a \<mapsto> set_status ASSOCIATED i)" "lookupSenderSTA a l1 = Inr (Some q)"
    using upd_found [where f = "set_status ASSOCIATED", OF s q(1) i] q(2) by (auto simp: set_status_ok)
  let ?s1 = "s\<lparr>staList := Live l1\<rparr>" and ?i1 = "set_status ASSOCIATED i"
  have i1: "sta_abs l1 a = Some ?i1" "info_ok ?i1" using l1(3) q(2) by (simp_all add: set_status_ok)
  obtain x where "sta_abs l1 a = Some x" "get_sta q l1 = Inr x" by (rule lookup_Some [OF l1(2,4)])
  then have g: "ap_info q ?s1 = Inr ?i1" using i1(1) s(1) by (simp add: ap_info_def ap_stations_def)
  let ?f = "\<lambda>j. j\<lparr>si_auth_alg := up_auth_alg u, si_aid := up_aid u, si_capability := up_capability u,
      si_listen_interval := up_listen_interval u, si_qosinfo := up_qosinfo u, si_supported_rates_len := up_rates_len u,
      si_supported_rates := splice (si_supported_rates i) 0 (take (unat (up_rates_len u)) (up_rates u))\<rparr>"
  have f: "?f ?i1 = updated u i" by (simp add: updated_def)
  have p: "ap_controller ?s1 = Live c" "staList ?s1 = Live l1" "si_address (?f ?i1) = si_address ?i1" "info_ok (?f ?i1)"
    using s(1) updated_ok [OF q(2) u] unfolding f by (simp_all add: set_status_ok)
  obtain l2 where l2: "on_stations (upd_sta ?f q) ?s1 = Inr (?s1\<lparr>staList := Live l2\<rparr>)" "stas_ok n l2"
    "sta_abs l2 = (sta_abs l1)(a \<mapsto> ?f ?i1)" "lookupSenderSTA a l2 = Inr (Some q)"
    using upd_found [where f = ?f, OF p(1,2) l1(2,4) i1(1) p(3,4)] by blast
  let ?s2 = "s\<lparr>staList := Live l2\<rparr>"
  have w: "wr (si_supported_rates ?i1) 0 (take (unat (up_rates_len u)) (up_rates u)) =
      Inr (splice (si_supported_rates i) 0 (take (unat (up_rates_len u)) (up_rates u)))"
    using q(2) u by (simp add: wr_def info_ok_def set_status_def)
  have st: "store_update ?oh q ?s1 = Inr ?s2"
    using l2(1) by (simp add: store_update_def layout_simps update_body_reads [OF u(1)] u(2) g w Let_def)
  obtain y where "sta_abs l2 a = Some y" "get_sta q l2 = Inr y" by (rule lookup_Some [OF l2(2,4)])
  then have g2: "ap_info q ?s2 = Inr (updated u i)" using l2(3) s(1) f by (simp add: ap_info_def ap_stations_def)
  have "handle_update_sta_add e conf ?oh s = bindE (add_STA conf (hap_results e) (updated u i) (ap_hapd s))
      (\<lambda>h. Inr (s\<lparr>staList := Live l2, ap_hapd := h\<rparr>))"
    using s q(1) l1(1) st g2
    by (simp add: handle_update_sta_add_def layout_simps update_body_reads [OF u(1)] ap_lookupSTA_def ap_stations_def
        changeStatus_def [abs_def] on_hapd_def)
  then show ?thesis using l2(2,3) l1(3) f by (intro exI [of _ l2]) (simp add: wlan_request_dispatch)
qed

lemma sta_body_reads: "wlan_sta_addr (wlan_request sub xid (mac_bytes a) @ rest) = Inr a"
proof -
  have "ld_mac (mac_bytes a @ rest) 0 = Inr a" by (cases a) (simp add: ld_mac_def)
  then show ?thesis by (simp add: wlan_sta_addr_def layout_simps)
qed

lemma handle_remove_eq:
  assumes s: "ap_controller s = Live c" "staList s = Live l" "stas_ok n l" and i: "sta_abs l a = Some i"
  shows "\<exists>l'. ap_process_controller_msg e conf (wlan_request WLAN_REMOVE_STA xid (mac_bytes a) @ rest) s =
      bindE (remove_STA conf (set_status NOT_AUTHENTICATED i) (ap_hapd s)) (\<lambda>h. Inr (s\<lparr>staList := Live l', ap_hapd := h\<rparr>)) \<and>
    stas_ok n l' \<and> sta_abs l' = (sta_abs l)(a \<mapsto> set_status NOT_AUTHENTICATED i)"
proof -
  obtain q where q: "lookupSenderSTA a l = Inr (Some q)" "info_ok i" by (rule known_sta [OF s(3) i])
  obtain l1 where l1: "on_stations (upd_sta (set_status NOT_AUTHENTICATED) q) s = Inr (s\<lparr>staList := Live l1\<rparr>)" "stas_ok n l1"
    "sta_abs l1 = (sta_abs l)(a \<mapsto> set_status NOT_AUTHENTICATED i)" "lookupSenderSTA a l1 = Inr (Some q)"
    using upd_found [where f = "set_status NOT_AUTHENTICATED", OF s q(1) i] q(2) by (auto simp: set_status_ok)
  obtain x where "sta_abs l1 a = Some x" "get_sta q l1 = Inr x" by (rule lookup_Some [OF l1(2,4)])
  then have "ap_info q (s\<lparr>staList := Live l1\<rparr>) = Inr (set_status NOT_AUTHENTICATED i)"
    using l1(3) s(1) by (simp add: ap_info_def ap_stations_def)
  then have "handle_remove_sta conf (wlan_request WLAN_REMOVE_STA xid (mac_bytes a) @ rest) s =
      bindE (remove_STA conf (set_status NOT_AUTHENTICATED i) (ap_hapd s)) (\<lambda>h. Inr (s\<lparr>staList := Live l1, ap_hapd := h\<rparr>))"
    using s q(1) l1(1)
    by (simp add: handle_remove_sta_def sta_body_reads ap_lookupSTA_def ap_stations_def changeStatus_def [abs_def] on_hapd_def)
  then show ?thesis using l1(2,3) by (intro exI [of _ l1]) (simp add: wlan_request_dispatch)
qed

definition nat_body :: "mac \<Rightarrow> flow4 \<Rightarrow> u16 \<Rightarrow> buf" where
  "nat_body a k np = (case k of (src, sp, dst, dp) \<Rightarrow> mac_bytes a @ [0, 0] @ ip4_bytes src @ ip4_bytes dst @
     bytes16 sp @ bytes16 dp @ bytes16 np @ [0, 0])"

lemma handle_nat_add_eq:
  "ap_process_controller_msg e conf (wlan_request WLAN_NAT_ADD xid (nat_body a (src, sp, dst, dp) np) @ rest) s =
     bindE (assign_port e sp src dp dst np (ap_entryList s)) (\<lambda>(nMap, t). let s = s\<lparr>ap_entryList := t\<rparr> in
       case nMap of None \<Rightarrow> Inr s | Some q \<Rightarrow> Inr (s\<lparr>reinject_threads := spawn e q (reinject_threads s)\<rparr>))"
proof -
  have "ld_ip4 (nat_body a (src, sp, dst, dp) np @ rest) 8 = Inr src" "ld_ip4 (nat_body a (src, sp, dst, dp) np @ rest) 12 = Inr dst"
    "ld16 (nat_body a (src, sp, dst, dp) np @ rest) 16 = Inr sp" "ld16 (nat_body a (src, sp, dst, dp) np @ rest) 18 = Inr dp"
    "ld16 (nat_body a (src, sp, dst, dp) np @ rest) 20 = Inr np"
    by (cases a; cases src; cases dst; simp add: nat_body_def ld_ip4_def ld16_def bytes_expand)+
  then show ?thesis by (simp add: wlan_request_dispatch ap_handle_nat_add_def layout_simps Let_def)
qed

section \<open>The invariant\<close>

definition ap_ok :: "hap_conf \<Rightarrow> access_point \<Rightarrow> bool" where
  "ap_ok conf s \<longleftrightarrow> ap_inv s \<and> ap_up (conf_max_num_sta conf) s \<and> hap_inv (ap_hapd s)"

text \<open>What a message of the controller leaves as it was; and the association ids stay distinct.\<close>

definition ap_kept :: "access_point \<Rightarrow> access_point \<Rightarrow> bool" where
  "ap_kept s s' \<longleftrightarrow> ap_ifIP s' = ap_ifIP s \<and> ap_subnet s' = ap_subnet s \<and> portQueue s' = portQueue s \<and>
     ap_loop_terminate s' = ap_loop_terminate s \<and> (aid_inv (ap_hapd s) \<longrightarrow> aid_inv (ap_hapd s'))"

lemma ap_kept_refl: "ap_kept s s"
  by (simp add: ap_kept_def)

lemma ap_kept_trans: "ap_kept s t \<Longrightarrow> ap_kept t u \<Longrightarrow> ap_kept s u"
  by (simp add: ap_kept_def)

lemma acts_keeps: "ap_ok conf s \<Longrightarrow> acts (conf_max_num_sta conf) s s' \<Longrightarrow> ap_ok conf s' \<and> ap_kept s s'"
  by (auto simp: ap_ok_def acts_def ap_inv_def ap_kept_def)

lemma talks_keeps: "ap_ok conf s \<Longrightarrow> talks (conf_max_num_sta conf) s s' \<Longrightarrow> ap_ok conf s' \<and> ap_kept s s'"
  using acts_keeps talks_acts by blast

lemma select_talks:
  assumes "ap_up (conf_max_num_sta conf) s" "handle_add_sta e conf oh s = Inr s'"
  shows "talks (conf_max_num_sta conf) s s'"
proof -
  obtain a p where p: "wlan_sta_addr oh = Inr a" "ap_lookupSTA a s = Inr p"
    using assms(2) by (auto simp: handle_add_sta_def elim!: bindE_E)
  have st: "talks (conf_max_num_sta conf) t t'" if "ap_up (conf_max_num_sta conf) t" "ap_lookupSTA a t = Inr (Some q)"
    "on_stations (changeStatus q SELECTED) t = Inr t'" for t t' q
    using upd_talks [OF that(1,2), of "set_status SELECTED" t'] that(3) by (simp add: changeStatus_def [abs_def] set_status_ok)
  show ?thesis
  proof (cases p)
    case (Some q)
    then show ?thesis using p assms st by (simp add: handle_add_sta_def)
  next
    case None
    then obtain p' t where t: "ap_addSTA e (conf_max_num_sta conf) a s = Inr (p', t)"
      "case p' of None \<Rightarrow> s' = t | Some q \<Rightarrow> on_stations (changeStatus q SELECTED) t = Inr s'"
      using p assms(2) by (auto simp: handle_add_sta_def elim!: bindE_E split: option.splits)
    note a = ap_addSTA_talks [OF assms(1) t(1)]
    show ?thesis
    proof (cases p')
      case (Some q)
      then have "talks (conf_max_num_sta conf) t s'" using a t(2) by (intro st) (auto simp: talks_def)
      then show ?thesis using a talks_trans by blast
    qed (use a t(2) in simp)
  qed
qed

lemma on_hapd_keeps:
  assumes "ap_ok conf s" "on_hapd f s = Inr s'" "\<And>h. f (ap_hapd s) = Inr h \<Longrightarrow> hap_inv h \<and> (aid_inv (ap_hapd s) \<longrightarrow> aid_inv h)"
  shows "ap_ok conf s' \<and> ap_kept s s'"
  using assms by (auto simp: on_hapd_def ap_ok_def ap_inv_def ap_up_def ap_kept_def elim!: bindE_E)

lemma store_update_talks:
  assumes "ap_up m s" "ap_lookupSTA a s = Inr (Some q)" "store_update oh q s = Inr s'"
  shows "talks m s s' \<and> ap_lookupSTA a s' = Inr (Some q)"
proof -
  obtain i rates copied f where f: "ap_info q s = Inr i" "wr (si_supported_rates i) 0 rates = Inr copied"
    "on_stations (upd_sta f q) s = Inr s'" "\<And>j. si_address (f j) = si_address j" "\<And>j. si_supported_rates (f j) = copied"
    using assms(3) unfolding store_update_def Let_def by (elim bindE_E) (rule that, assumption+, simp_all)
  have "length copied = 32" using info_of_found(1) [OF assms(1,2) f(1)] length_wr [OF f(2)] by (simp add: info_ok_def)
  then show ?thesis using upd_talks [OF assms(1,2) f(3)] f(4,5) by (simp add: info_ok_def)
qed

lemma update_keeps:
  assumes ok: "ap_ok conf s" and r: "handle_update_sta_add e conf oh s = Inr s'"
  shows "ap_ok conf s' \<and> ap_kept s s'"
proof -
  let ?m = "conf_max_num_sta conf"
  obtain a p where p: "ap_lookupSTA a s = Inr p" "p = None \<longrightarrow> s' = s"
    "\<And>q. p = Some q \<Longrightarrow> bindE (on_stations (changeStatus q ASSOCIATED) s) (\<lambda>s. bindE (store_update oh q s) (\<lambda>s.
         bindE (ap_info q s) (\<lambda>i. on_hapd (add_STA conf (hap_results e) i) s))) = Inr s'"
    using r unfolding handle_update_sta_add_def by (elim bindE_E) (force split: option.splits)
  show ?thesis
  proof (cases p)
    case None
    then show ?thesis using p(2) ok ap_kept_refl by simp
  next
    case (Some q)
    obtain s1 s2 i where st: "on_stations (upd_sta (set_status ASSOCIATED) q) s = Inr s1" "store_update oh q s1 = Inr s2"
      "ap_info q s2 = Inr i" "on_hapd (add_STA conf (hap_results e) i) s2 = Inr s'"
      using p(3) [OF Some] by (auto simp: changeStatus_def [abs_def] elim!: bindE_E)
    have up: "ap_up ?m s" using ok by (simp add: ap_ok_def)
    have t1: "talks ?m s s1" "ap_lookupSTA a s1 = Inr (Some q)"
      using upd_talks [OF up _ st(1)] p(1) Some by (auto simp: set_status_ok)
    then have t2: "talks ?m s1 s2" "ap_lookupSTA a s2 = Inr (Some q)" using store_update_talks [OF _ t1(2) st(2)] by (auto simp: talks_def)
    have ok2: "ap_ok conf s2" "ap_kept s s2" using talks_keeps [OF ok talks_trans [OF t1(1) t2(1)]] by auto
    then have "info_ok i" "hap_inv (ap_hapd s2)" using info_of_found(1) [OF _ t2(2) st(3)] by (auto simp: ap_ok_def)
    then have "hap_inv h \<and> (aid_inv (ap_hapd s2) \<longrightarrow> aid_inv h)" if "add_STA conf (hap_results e) i (ap_hapd s2) = Inr h" for h
      using add_STA_outcome [where h = "ap_hapd s2" and info = i and conf = conf and he = "hap_results e"] add_STA_aids that by (auto simp: info_ok_def)
    from on_hapd_keeps [OF ok2(1) st(4) this] show ?thesis using ok2(2) ap_kept_trans by blast
  qed
qed

lemma remove_keeps:
  assumes ok: "ap_ok conf s" and r: "handle_remove_sta conf oh s = Inr s'"
  shows "ap_ok conf s' \<and> ap_kept s s'"
proof -
  obtain a p where p: "ap_lookupSTA a s = Inr p" "p = None \<longrightarrow> s' = s"
    "\<And>q. p = Some q \<Longrightarrow> bindE (on_stations (changeStatus q NOT_AUTHENTICATED) s) (\<lambda>s.
         bindE (ap_info q s) (\<lambda>i. on_hapd (remove_STA conf i) s)) = Inr s'"
    using r unfolding handle_remove_sta_def by (elim bindE_E) (force split: option.splits)
  show ?thesis
  proof (cases p)
    case None
    then show ?thesis using p(2) ok ap_kept_refl by simp
  next
    case (Some q)
    obtain s1 i where st: "on_stations (upd_sta (set_status NOT_AUTHENTICATED) q) s = Inr s1"
      "on_hapd (remove_STA conf i) s1 = Inr s'"
      using p(3) [OF Some] by (auto simp: changeStatus_def [abs_def] elim!: bindE_E)
    have "ap_up (conf_max_num_sta conf) s" using ok by (simp add: ap_ok_def)
    from upd_talks [OF this _ st(1)] have ok1: "ap_ok conf s1" "ap_kept s s1"
      using p(1) Some talks_keeps [OF ok] by (auto simp: set_status_ok)
    then have "hap_inv h \<and> (aid_inv (ap_hapd s1) \<longrightarrow> aid_inv h)" if "remove_STA conf i (ap_hapd s1) = Inr h" for h
      using remove_STA_outcome [where h = "ap_hapd s1" and info = i and conf = conf] remove_STA_aids that by (auto simp: ap_ok_def)
    from on_hapd_keeps [OF ok1(1) st(2) this] show ?thesis using ok1(2) ap_kept_trans by blast
  qed
qed

lemma nat_add_keeps:
  assumes ok: "ap_ok conf s" and r: "ap_handle_nat_add e oh s = Inr s'"
  shows "ap_ok conf s' \<and> ap_kept s s'"
proof -
  obtain sp src dp dst np q t where t: "assign_port e sp src dp dst np (ap_entryList s) = Inr (q, t)"
    "ap_entryList s' = t" "ap_kept s s'" "ap_controller s' = ap_controller s" "staList s' = staList s" "ap_hapd s' = ap_hapd s"
    using r unfolding ap_handle_nat_add_def Let_def by (elim bindE_E) (fastforce simp: ap_kept_def split: option.splits prod.splits)
  have "ap_nat_inv t"
    using assign_port_outcome [where t = "ap_entryList s" and e = e and sp = sp and s = src and dp = dp and d = dst and np = np] ok t(1) by (simp add: ap_ok_def ap_inv_def)
  then show ?thesis using ok t(2-6) by (auto simp: ap_ok_def ap_inv_def ap_up_def ap_kept_def)
qed

lemma process_msg_keeps:
  assumes ok: "ap_ok conf s" and r: "ap_process_controller_msg e conf oh s = Inr s'"
  shows "ap_ok conf s' \<and> ap_kept s s'"
proof -
  let ?K = "ap_ok conf s' \<and> ap_kept s s'"
  have up: "ap_up (conf_max_num_sta conf) s" using ok by (simp add: ap_ok_def)
  have o: ?K if "on_ctl f s = Inr s'" "\<And>c c'. f c = Inr c' \<Longrightarrow> sends e c c'" for f
    by (rule talks_keeps [OF ok on_ctl_talks [OF up that]])
  have cfg: ?K if "on_ctl (handle_set_config oh) s = Inr s'"
    by (rule acts_keeps [OF ok on_ctl_acts [OF up that]]) (auto simp: handle_set_config_def conn_inv_def elim!: bindE_E)
  have fm: ?K if "ap_handle_flow_mod e fe oh s = Inr s'" for fe by (rule acts_keeps [OF ok flow_mod_acts [OF up that]])
  have same: ?K if "s' = s" using that ok ap_kept_refl by simp
  have wl: ?K if "ap_handle_wlan e conf oh s = Inr s'"
    using that talks_keeps [OF ok select_talks [OF up, of e oh s']] talks_keeps [OF ok handle_ap_rssi_talks [OF up, of e _ s']]
      update_keeps [OF ok, of e oh s'] remove_keeps [OF ok, of oh s'] nat_add_keeps [OF ok, of e oh s'] same
    unfolding ap_handle_wlan_def by (elim bindE_E) (auto split: option.splits exp_type.splits elim!: bindE_E)
  have vd: ?K if "ap_handle_vendor e conf oh s = Inr s'"
    using that wl o [OF _ handlers_send(6)] same unfolding ap_handle_vendor_def by (elim bindE_E) (simp split: if_split_asm)
  show ?thesis
    using r same fm vd cfg o [OF _ handlers_send(1)] o [OF _ handlers_send(2)] o [OF _ handlers_send(3)]
      o [OF _ handlers_send(4)] o [OF _ handlers_send(5)] o [OF _ handlers_send(7)]
    unfolding ap_process_controller_msg_def by (elim bindE_E) (simp split: option.splits ofp_type.splits)
qed

lemma controller_round_keeps:
  assumes ok: "ap_ok conf s" and r: "ap_controller_round e conf ce rx s = Inr s'"
  shows "ap_ok conf s' \<and> ap_kept s s'"
proof -
  obtain s1 where s1: "on_ctl (controller_conn_open e ce) s = Inr s1" "ap_controller_receive e conf rx s1 = Inr s'"
    using r by (auto simp: ap_controller_round_def elim!: bindE_E)
  have k1: "ap_ok conf s1" "ap_kept s s1"
    using acts_keeps [OF ok on_ctl_acts [OF _ s1(1)]] ok conn_open_outcome(1) by (auto simp: ap_ok_def)
  then obtain c where c: "ap_controller s1 = Live c" by (auto simp: ap_ok_def ap_up_def)
  obtain m c1 where m: "receive_msg rx c = Inr (m, c1)"
    "case m of None \<Rightarrow> s' = s1\<lparr>ap_controller := Live c1\<rparr> | Some oh \<Rightarrow> ap_process_controller_msg e conf oh (s1\<lparr>ap_controller := Live c1\<rparr>) = Inr s'"
    using s1(2) c by (auto simp: ap_controller_receive_def Let_def elim!: bindE_E split: option.splits)
  let ?s = "s1\<lparr>ap_controller := Live c1\<rparr>"
  have k2: "ap_ok conf ?s" "ap_kept s1 ?s"
    using k1(1) c receive_msg_outcome(1) [OF m(1)] by (auto simp: ap_ok_def ap_up_def ap_inv_def ap_kept_def conn_inv_def)
  have "ap_ok conf s' \<and> ap_kept ?s s'"
    using m(2) k2(1) process_msg_keeps [OF k2(1)] ap_kept_refl by (auto split: option.splits)
  then show ?thesis using k1(2) k2(2) ap_kept_trans by blast
qed

section \<open>Properties\<close>

lemma takes_over:
  assumes "ap_controller s = Live c" "staList s = Live l" "stas_ok n l" "hap_inv (ap_hapd s)" "sta_abs l a = Some i"
    "length (up_rates u) = 32" "unat (up_rates_len u) \<le> 32"
    "auth_alg_ok conf (up_auth_alg u)" "drv_sta_add_ret (hap_results e) = 0"
    "hap_abs (ap_hapd s) a \<noteq> None \<or>
       hap_num_sta (ap_hapd s) < int (conf_max_num_sta conf) \<and> zalloc_ok (hap_results e) \<and> accounting_id (hap_results e) \<ge> 0"
  shows "\<exists>l' h x. ap_process_controller_msg e conf (wlan_request WLAN_UPDATE_STA_ADD xid (update_body a u) @ rest) s =
      Inr (s\<lparr>staList := Live l', ap_hapd := h\<rparr>) \<and> stas_ok n l' \<and> sta_abs l' = (sta_abs l)(a \<mapsto> updated u i) \<and>
    hap_inv h \<and> hap_abs h = (hap_abs (ap_hapd s))(a \<mapsto> x) \<and> admitted (updated u i) x"
proof -
  obtain q where k: "info_ok i" "si_address i = a" by (rule known_sta [OF assms(3,5)])
  then have j: "length (si_supported_rates (updated u i)) = 32" "si_address (updated u i) = a"
    using updated_ok [OF k(1) assms(6,7)] by (simp_all add: info_ok_def)
  have v: "si_supported_rates_len (updated u i) = up_rates_len u" "si_auth_alg (updated u i) = up_auth_alg u"
    by (simp_all add: updated_def)
  note o = add_STA_outcome [OF assms(4) j(1), where conf = conf and he = "hap_results e", unfolded j v]
  obtain h where h: "add_STA conf (hap_results e) (updated u i) (ap_hapd s) = Inr h"
    using o assms(7) by (cases "add_STA conf (hap_results e) (updated u i) (ap_hapd s)") auto
  obtain x where x: "hap_inv h" "hap_abs h a = Some x" "admitted (updated u i) x" using o assms(8-10) by (auto simp: h)
  have "hap_abs h = (hap_abs (ap_hapd s))(a \<mapsto> x)"
  proof (cases "h = ap_hapd s")
    case True
    then show ?thesis using x(2) by (auto simp: fun_upd_idem)
  next
    case False
    then show ?thesis using o x(2) by (auto simp: h)
  qed
  then show ?thesis using handle_update_eq [OF assms(1-3,5-7), of e conf xid rest] x(1,3) by (auto simp: h)
qed

text \<open>C7. A station is handed over to this access point by one message. When the access point knows the
  station (it heard it), and the algorithm, the room in hostapd and the driver allow it, the message leaves
  the station recorded as associated with exactly the identifiers, capabilities and rates of the message,
  and admitted by hostapd with them; no other station changes, neither in the station list nor in hostapd,
  and both stay well formed.\<close>

theorem ap_takes_over:
  assumes "ap_controller s = Live c" "staList s = Live l" "stas_ok n l" "hap_inv (ap_hapd s)" "sta_abs l a = Some i"
    "length (up_rates u) = 32" "unat (up_rates_len u) \<le> 32"
    "auth_alg_ok conf (up_auth_alg u)" "drv_sta_add_ret (hap_results e) = 0"
    "hap_abs (ap_hapd s) a \<noteq> None \<or>
       hap_num_sta (ap_hapd s) < int (conf_max_num_sta conf) \<and> zalloc_ok (hap_results e) \<and> accounting_id (hap_results e) \<ge> 0"
  shows "\<exists>l' h x. ap_process_controller_msg e conf (wlan_request WLAN_UPDATE_STA_ADD xid (update_body a u) @ rest) s =
      Inr (s\<lparr>staList := Live l', ap_hapd := h\<rparr>) \<and> stas_ok n l' \<and> sta_abs l' = (sta_abs l)(a \<mapsto> updated u i) \<and>
    hap_inv h \<and> hap_abs h = (hap_abs (ap_hapd s))(a \<mapsto> x) \<and> admitted (updated u i) x"
  by (rule takes_over [OF assms])

definition demo_ctl_env :: ctl_env where
  "demo_ctl_env = \<lparr>calloc_ok = (\<lambda>_. True), send_ret = (\<lambda>_. 8), rand_ret = 5, pthread_ok = True,
     hap_results = demo_hap_env, flow_results = demo_flow_env\<rparr>"

definition demo_update :: sta_update where
  "demo_update = \<lparr>up_auth_alg = 0, up_aid = 1, up_capability = 0x431, up_listen_interval = 10,
     up_rates = [0x82, 0x84, 0x8b, 0x96] @ replicate 28 0, up_rates_len = 4, up_qosinfo = 0\<rparr>"

theorem ap_takes_over_witness:
  "\<exists>l' h x. ap_process_controller_msg demo_ctl_env demo_conf (wlan_request WLAN_UPDATE_STA_ADD 7 (update_body demo_addr demo_update) @ zeroed 28)
      (demo_access_point demo_list (hapd_init 63)) = Inr (demo_access_point l' h) \<and>
    map_option si_status (sta_abs l' demo_addr) = Some ASSOCIATED \<and> hap_abs h demo_addr = Some x \<and> sta_capability x = 0x431"
proof -
  let ?s = "demo_access_point demo_list (hapd_init 63)"
  have s: "ap_controller ?s = Live demo_ap_conn" "staList ?s = Live demo_list" "ap_hapd ?s = hapd_init 63"
    "hap_inv (ap_hapd ?s)" using hap_inv_init by (simp_all add: demo_access_point_def)
  have u: "length (up_rates demo_update) = 32" "unat (up_rates_len demo_update) \<le> 32" by (simp_all add: demo_update_def)
  have a: "auth_alg_ok demo_conf (up_auth_alg demo_update)" "drv_sta_add_ret (hap_results demo_ctl_env) = 0"
    "hap_num_sta (ap_hapd ?s) < int (conf_max_num_sta demo_conf) \<and> zalloc_ok (hap_results demo_ctl_env) \<and>
     accounting_id (hap_results demo_ctl_env) \<ge> 0"
    unfolding s(3) by (simp_all add: demo_update_def demo_conf_def demo_ctl_env_def demo_hap_env_def auth_alg_ok_def WLAN_AUTH_OPEN_def hapd_init_def)
  from ap_takes_over [OF s(1,2) demo_list_ok(1) s(4) demo_list_ok(2) u a(1,2), where xid = 7 and rest = "zeroed 28"] a(3)
  show ?thesis
    by (auto simp: demo_access_point_def admitted_def updated_def demo_update_def set_status_def)
qed

lemma lets_go:
  assumes "ap_controller s = Live c" "staList s = Live l" "stas_ok n l" "hap_inv (ap_hapd s)" "MAC_HASH a < n"
  shows "case sta_abs l a of
      None \<Rightarrow> ap_process_controller_msg e conf (wlan_request WLAN_REMOVE_STA xid (mac_bytes a) @ rest) s = Inr s
    | Some i \<Rightarrow> \<exists>l' h. ap_process_controller_msg e conf (wlan_request WLAN_REMOVE_STA xid (mac_bytes a) @ rest) s =
          Inr (s\<lparr>staList := Live l', ap_hapd := h\<rparr>) \<and> stas_ok n l' \<and>
        sta_abs l' = (sta_abs l)(a \<mapsto> i\<lparr>si_status := NOT_AUTHENTICATED, lastReceivedSignalStrength := 0\<rparr>) \<and>
        hap_inv h \<and> hap_abs h = (hap_abs (ap_hapd s))(a := None)"
proof (cases "sta_abs l a")
  case None
  have "sta_inv n l" using assms(3) by (simp add: stas_ok_def)
  then have "lookupSenderSTA a l = Inr None"
    using lookupSenderSTA_eq [OF _ assms(5)] None sta_find_abs [OF assms(3,5)] by (cases "sta_find l a") auto
  then show ?thesis
    using None assms(1,2) by (simp add: wlan_request_dispatch handle_remove_sta_def sta_body_reads ap_lookupSTA_def ap_stations_def)
next
  case (Some i)
  have "si_address i = a" using known_sta [OF assms(3) Some] by metis
  then have "si_address (set_status NOT_AUTHENTICATED i) = a" by (simp add: set_status_ok)
  then obtain h where h: "remove_STA conf (set_status NOT_AUTHENTICATED i) (ap_hapd s) = Inr h" "hap_inv h"
    "hap_abs h = (hap_abs (ap_hapd s))(a := None)"
    using remove_STA_outcome [OF assms(4), of conf "set_status NOT_AUTHENTICATED i"] by auto
  obtain l' where l': "ap_process_controller_msg e conf (wlan_request WLAN_REMOVE_STA xid (mac_bytes a) @ rest) s =
      Inr (s\<lparr>staList := Live l', ap_hapd := h\<rparr>)" "stas_ok n l'" "sta_abs l' = (sta_abs l)(a \<mapsto> set_status NOT_AUTHENTICATED i)"
    using handle_remove_eq [OF assms(1-3) Some, of e conf xid rest] h(1) by auto
  then show ?thesis unfolding Some option.case using h(2,3) by (intro exI [of _ l'] exI [of _ h]) (simp add: set_status_def)
qed

text \<open>C14. A station that was handed over elsewhere is let go: the message to remove a known station always
  completes, records it as not authenticated with no signal strength, and removes it, and no other station,
  from hostapd. For a station that is not known, nothing happens.\<close>

theorem ap_lets_go:
  assumes "ap_controller s = Live c" "staList s = Live l" "stas_ok n l" "hap_inv (ap_hapd s)" "MAC_HASH a < n"
  shows "case sta_abs l a of
      None \<Rightarrow> ap_process_controller_msg e conf (wlan_request WLAN_REMOVE_STA xid (mac_bytes a) @ rest) s = Inr s
    | Some i \<Rightarrow> \<exists>l' h. ap_process_controller_msg e conf (wlan_request WLAN_REMOVE_STA xid (mac_bytes a) @ rest) s =
          Inr (s\<lparr>staList := Live l', ap_hapd := h\<rparr>) \<and> stas_ok n l' \<and>
        sta_abs l' = (sta_abs l)(a \<mapsto> i\<lparr>si_status := NOT_AUTHENTICATED, lastReceivedSignalStrength := 0\<rparr>) \<and>
        hap_inv h \<and> hap_abs h = (hap_abs (ap_hapd s))(a := None)"
  by (rule lets_go [OF assms])

theorem ap_lets_go_witness:
  "\<exists>l' h. ap_process_controller_msg demo_ctl_env demo_conf (wlan_request WLAN_REMOVE_STA 7 (mac_bytes demo_addr) @ zeroed 78)
      (demo_access_point demo_list (hapd_init 63)) = Inr (demo_access_point l' h) \<and>
    map_option si_status (sta_abs l' demo_addr) = Some NOT_AUTHENTICATED \<and> hap_abs h demo_addr = None"
proof -
  let ?s = "demo_access_point demo_list (hapd_init 63)"
  have s: "ap_controller ?s = Live demo_ap_conn" "staList ?s = Live demo_list" "hap_inv (ap_hapd ?s)" "MAC_HASH demo_addr < 255"
    using hap_inv_init by (simp_all add: demo_access_point_def demo_addr_def)
  from ap_lets_go [OF s(1,2) demo_list_ok(1) s(3,4), where e = demo_ctl_env and conf = demo_conf and xid = 7 and rest = "zeroed 78"]
  show ?thesis using demo_list_ok(2) by (auto simp: demo_access_point_def)
qed

text \<open>Closing the connection is never completed: whenever the connection is open, \<open>controller_conn_close\<close>
  frees it and then writes to it; before the connection was made, it dereferences the null pointer.\<close>

theorem ap_close_fails:
  "(\<forall>c. ap_controller s = Live c \<longrightarrow> ap_conn_close s = Inl UseAfterFree) \<and>
   (ap_controller s = Null \<longrightarrow> ap_conn_close s = Inl NullDeref)"
  by (auto simp: ap_conn_close_def freed_def Let_def split: obj.splits elim!: bindE_E)

theorem ap_close_fails_witness:
  "ap_conn_close (demo_access_point demo_list demo_hapd) = Inl UseAfterFree \<and>
   ap_conn_close ((demo_access_point demo_list demo_hapd)\<lparr>ap_controller := Null\<rparr>) = Inl NullDeref"
  using ap_close_fails [of "demo_access_point demo_list demo_hapd"]
    ap_close_fails [of "(demo_access_point demo_list demo_hapd)\<lparr>ap_controller := Null\<rparr>"]
  by (simp add: demo_access_point_def)

end
