(* ===== verification/Hap_Elems.thy ===== *)
theory Hap_Elems
  imports Hap_Inv
begin

text \<open>
  The elements of an association request (hostapd-2.8/src/common/ieee802_11_common.c:
  \<open>ieee802_11_parse_elems\<close>, \<open>ieee802_11_parse_vendor_specific\<close>, \<open>ieee802_11_parse_extension\<close>,
  \<open>get_ie\<close>; src/ap/ieee802_11.c: \<open>check_ssid\<close>, \<open>check_wmm\<close>, \<open>check_multi_ap\<close>, \<open>copy_supp_rates\<close>,
  \<open>check_assoc_ies\<close>; src/ap/wmm.c: \<open>hostapd_eid_wmm_valid\<close>; src/utils/common.c:
  \<open>merge_byte_arrays\<close>). They are where the rates and the QoS information of a station come from that
  the access point reports to the controller, and that a handover carries over.

  The build is the one of hostapd/.config and the configuration the one of hostapd/hostapd.conf,
  without WPA. A parsed element is the bytes of its data; of the elements, those are kept that the
  functions here read. The members of a station that nothing here reads (extended capabilities,
  power capability, operating classes, radio measurement) are not modelled.

  Shown here: the parser ends and never reads outside the frame, it reads back every element of a
  well-formed list, and the rates that are copied are those of the two elements, never more than the
  array holds.
\<close>

section \<open>Data\<close>

record mgmt_conf =
  mc_own_addr :: mac
  mc_ssid :: buf
  mc_wmm_enabled :: bool
  mc_multi_ap :: byte
  mc_mode_11ad :: bool
  mc_max_listen_interval :: u16

record elems =
  el_ssid :: "buf option"
  el_supp_rates :: "buf option"
  el_ext_supp_rates :: "buf option"
  el_wmm :: "buf option"
  el_multi_ap :: "buf option"
  el_wpa_ie :: "buf option"
  el_rsn_ie :: "buf option"

definition no_elems :: elems where
  "no_elems = \<lparr>el_ssid = None, el_supp_rates = None, el_ext_supp_rates = None, el_wmm = None, el_multi_ap = None,
     el_wpa_ie = None, el_rsn_ie = None\<rparr>"

datatype ParseRes = ParseOK | ParseUnknown | ParseFailed

section \<open>Parsing\<close>

text \<open>The first component says that the element is not known.\<close>

definition parse_vendor_specific :: "buf \<Rightarrow> elems \<Rightarrow> bool \<times> elems" where
  "parse_vendor_specific pos el =
     (if length pos < 4 then (True, el)
      else let oui = take 3 pos; t = pos ! 3 in
        if oui = [0x00, 0x50, 0xf2] then
          (if t = 1 then (False, el\<lparr>el_wpa_ie := Some pos\<rparr>)
           else if t = 2 then
             (if length pos < 5 then (True, el)
              else if pos ! 4 = 0 \<or> pos ! 4 = 1 then (False, el\<lparr>el_wmm := Some pos\<rparr>)
              else (pos ! 4 \<noteq> 2, el))
           else (t \<noteq> 4, el))
        else if oui = [0x50, 0x6f, 0x9a] then
          (if t = 0x1b then (False, el\<lparr>el_multi_ap := Some pos\<rparr>) else (t \<notin> {9, 10, 16, 18, 22, 29}, el))
        else if oui = [0x00, 0x90, 0x4c] then
          (if t = 4 then (\<not> (4 < length pos \<and> (pos ! 4 = 8 \<or> pos ! 4 = 0)), el) else (t \<noteq> 0x33, el))
        else if oui = [0x00, 0x13, 0x74] then (t \<noteq> 0, el)
        else (True, el))"

definition parse_extension :: "buf \<Rightarrow> bool" where
  "parse_extension pos = (case pos of [] \<Rightarrow> True | ext_id # _ \<Rightarrow> ext_id \<notin> {1, 2, 3, 4, 5, 6, 7, 8, 12, 13, 32, 33, 35, 54})"

definition SSID_MAX_LEN :: nat where
  "SSID_MAX_LEN = 32"

definition known_eids :: "byte set" where
  "known_eids = {0, 1, 3, 4, 5, 16, 42, 50, 221, 48, 33, 36, 54, 55, 56, 45, 61, 113, 114, 117, 191, 192, 199, 101, 107, 110, 127, 90, 84,
     139, 140, 158, 59, 70, 237, 239, 240, 241, 242, 255}"

definition parse_elem :: "byte \<Rightarrow> buf \<Rightarrow> elems \<Rightarrow> bool \<times> elems" where
  "parse_elem eid pos el =
     (if eid = 0 then (False, if SSID_MAX_LEN < length pos then el else el\<lparr>el_ssid := Some pos\<rparr>)
      else if eid = 1 then (False, el\<lparr>el_supp_rates := Some pos\<rparr>)
      else if eid = 50 then (False, el\<lparr>el_ext_supp_rates := Some pos\<rparr>)
      else if eid = 221 then parse_vendor_specific pos el
      else if eid = 48 then (False, el\<lparr>el_rsn_ie := Some pos\<rparr>)
      else if eid = 255 then (parse_extension pos, el)
      else (eid \<notin> known_eids, el))"

text \<open>The loop \<open>for_each_element\<close> over the bytes of the frame from \<open>p\<close> to \<open>e\<close>. The element 140 (\<open>WLAN_EID_MIC\<close>)
  ends it.\<close>

function parse_elems :: "buf \<Rightarrow> nat \<Rightarrow> nat \<Rightarrow> bool \<Rightarrow> elems \<Rightarrow> (ParseRes \<times> elems) res" where
  "parse_elems b p e unknown el =
     (if 2 \<le> e - p then
        bindE (ld8 b (p + 1)) (\<lambda>datalen.
        if 2 + unat datalen \<le> e - p then
          bindE (ld8 b p) (\<lambda>id.
          bindE (rd b (p + 2) (unat datalen)) (\<lambda>pos.
          if id = 140 then Inr (if unknown then ParseUnknown else ParseOK, el)
          else let (u, el) = parse_elem id pos el in parse_elems b (p + 2 + unat datalen) e (unknown \<or> u) el))
        else Inr (ParseFailed, el))
      else Inr (if p = e then (if unknown then ParseUnknown else ParseOK) else ParseFailed, el))"
  by pat_completeness auto
termination by (relation "measure (\<lambda>(b, p, e, u, el). e - p)") auto

declare parse_elems.simps [simp del]

definition ieee802_11_parse_elems :: "buf \<Rightarrow> nat \<Rightarrow> nat \<Rightarrow> (ParseRes \<times> elems) res" where
  "ieee802_11_parse_elems b p len = parse_elems b p (p + len) False no_elems"

text \<open>The data of the first element with an id.\<close>

function get_ie :: "buf \<Rightarrow> byte \<Rightarrow> buf option" where
  "get_ie ies eid =
     (if 2 \<le> length ies \<and> 2 + unat (ies ! 1) \<le> length ies then
        if ies ! 0 = eid then Some (take (unat (ies ! 1)) (drop 2 ies)) else get_ie (drop (2 + unat (ies ! 1)) ies) eid
      else None)"
  by pat_completeness auto
termination by (relation "measure (\<lambda>(ies, eid). length ies)") auto

declare get_ie.simps [simp del]

section \<open>Checking\<close>

definition WLAN_STATUS_SUCCESS :: u16 where "WLAN_STATUS_SUCCESS = 0"
definition WLAN_STATUS_UNSPECIFIED_FAILURE :: u16 where "WLAN_STATUS_UNSPECIFIED_FAILURE = 1"
definition WLAN_STATUS_ASSOC_DENIED_UNSPEC :: u16 where "WLAN_STATUS_ASSOC_DENIED_UNSPEC = 12"
definition WLAN_STATUS_INVALID_IE :: u16 where "WLAN_STATUS_INVALID_IE = 40"
definition WLAN_STA_WMM :: u32 where "WLAN_STA_WMM = BIT 9"

definition check_ssid :: "mgmt_conf \<Rightarrow> buf option \<Rightarrow> u16" where
  "check_ssid mc ssid_ie = (case ssid_ie of
     None \<Rightarrow> WLAN_STATUS_UNSPECIFIED_FAILURE
   | Some ssid \<Rightarrow>
       if length ssid \<noteq> length (mc_ssid mc) \<or> ssid \<noteq> take (length ssid) (mc_ssid mc) then WLAN_STATUS_UNSPECIFIED_FAILURE
       else WLAN_STATUS_SUCCESS)"

definition hostapd_eid_wmm_valid :: "buf \<Rightarrow> bool" where
  "hostapd_eid_wmm_valid eid \<longleftrightarrow> \<not> length eid < 7 \<and> \<not> (eid ! 4 \<noteq> 0 \<or> eid ! 5 \<noteq> 1)"

definition check_wmm :: "mgmt_conf \<Rightarrow> buf option \<Rightarrow> sta_info \<Rightarrow> u16 \<times> sta_info" where
  "check_wmm mc wmm_ie sta =
     (let sta = sta\<lparr>sta_flags := sta_flags sta AND NOT WLAN_STA_WMM, sta_qosinfo := 0\<rparr> in
      case wmm_ie of
        Some wmm \<Rightarrow>
          if mc_wmm_enabled mc then
            (if \<not> hostapd_eid_wmm_valid wmm then (WLAN_STATUS_UNSPECIFIED_FAILURE, sta)
             else (WLAN_STATUS_SUCCESS, sta\<lparr>sta_flags := sta_flags sta OR WLAN_STA_WMM, sta_qosinfo := wmm ! 6\<rparr>))
          else (WLAN_STATUS_SUCCESS, sta)
      | None \<Rightarrow> (WLAN_STATUS_SUCCESS, sta))"

text \<open>\<open>None\<close> is an element without a valid subelement.\<close>

definition multi_ap_value :: "buf option \<Rightarrow> byte option" where
  "multi_ap_value ie = (case ie of
     None \<Rightarrow> Some 0
   | Some d \<Rightarrow> (case get_ie (drop 4 d) 6 of Some [v] \<Rightarrow> Some v | _ \<Rightarrow> None))"

definition check_multi_ap :: "mgmt_conf \<Rightarrow> buf option \<Rightarrow> sta_info \<Rightarrow> u16 \<times> sta_info" where
  "check_multi_ap mc multi_ap_ie sta =
     (let sta = sta\<lparr>sta_flags := sta_flags sta AND NOT WLAN_STA_MULTI_AP\<rparr> in
      if mc_multi_ap mc = 0 then (WLAN_STATUS_SUCCESS, sta)
      else case multi_ap_value multi_ap_ie of
        None \<Rightarrow> (WLAN_STATUS_INVALID_IE, sta)
      | Some v \<Rightarrow>
          if v AND 0x80 = 0 then
            (if mc_multi_ap mc AND 2 \<noteq> 0 then WLAN_STATUS_SUCCESS else WLAN_STATUS_ASSOC_DENIED_UNSPEC, sta)
          else (WLAN_STATUS_SUCCESS, sta\<lparr>sta_flags := sta_flags sta OR WLAN_STA_MULTI_AP\<rparr>))"

definition merge_byte_arrays :: "nat \<Rightarrow> buf option \<Rightarrow> buf option \<Rightarrow> nat \<times> buf" where
  "merge_byte_arrays res_len src1 src2 =
     (let res = replicate res_len 0;
          first = (case src1 of
            Some s \<Rightarrow> if res_len \<le> length s then Inl (res_len, splice res 0 (take res_len s)) else Inr (length s, splice res 0 s)
          | None \<Rightarrow> Inr (0, res))
      in case first of
        Inl r \<Rightarrow> r
      | Inr (len, res) \<Rightarrow>
          (case src2 of
             Some s \<Rightarrow> if res_len \<le> len + length s then (res_len, splice res len (take (res_len - len) s))
               else (len + length s, splice res len s)
           | None \<Rightarrow> (len, res)))"

definition ie_len :: "buf option \<Rightarrow> nat" where
  "ie_len ie = (case ie of None \<Rightarrow> 0 | Some d \<Rightarrow> length d)"

definition copy_supp_rates :: "mgmt_conf \<Rightarrow> elems \<Rightarrow> sta_info \<Rightarrow> u16 \<times> sta_info" where
  "copy_supp_rates mc el sta =
     (if mc_mode_11ad mc then (WLAN_STATUS_SUCCESS, sta)
      else if el_supp_rates el = None then (WLAN_STATUS_UNSPECIFIED_FAILURE, sta)
      else if ie_len (el_supp_rates el) + ie_len (el_ext_supp_rates el) > WLAN_SUPP_RATES_MAX then (WLAN_STATUS_UNSPECIFIED_FAILURE, sta)
      else let (n, res) = merge_byte_arrays WLAN_SUPP_RATES_MAX (el_supp_rates el) (el_ext_supp_rates el) in
        (WLAN_STATUS_SUCCESS, sta\<lparr>sta_supported_rates := res, sta_supported_rates_len := int n\<rparr>))"

text \<open>Without WPA, what follows the checks has no effect on the members modelled.\<close>

definition check_assoc_ies :: "mgmt_conf \<Rightarrow> buf \<Rightarrow> nat \<Rightarrow> nat \<Rightarrow> sta_info \<Rightarrow> (u16 \<times> sta_info) res" where
  "check_assoc_ies mc b ies ies_len sta =
     bindE (ieee802_11_parse_elems b ies ies_len) (\<lambda>(r, el).
     if r = ParseFailed then Inr (WLAN_STATUS_UNSPECIFIED_FAILURE, sta)
     else let resp = check_ssid mc (el_ssid el) in
       if resp \<noteq> WLAN_STATUS_SUCCESS then Inr (resp, sta)
       else case check_wmm mc (el_wmm el) sta of (resp, sta) \<Rightarrow>
         if resp \<noteq> WLAN_STATUS_SUCCESS then Inr (resp, sta)
         else case copy_supp_rates mc el sta of (resp, sta) \<Rightarrow>
           if resp \<noteq> WLAN_STATUS_SUCCESS then Inr (resp, sta)
           else Inr (check_multi_ap mc (el_multi_ap el) sta))"

section \<open>The parser stays in the frame\<close>

lemma parse_elems_safe:
  assumes "e \<le> length b"
  shows "\<exists>r. parse_elems b p e u el = Inr r"
  using assms
proof (induction b p e u el rule: parse_elems.induct)
  case (1 b p e u el)
  show ?case
  proof (cases "2 \<le> e - p \<and> 2 + unat (b ! (p + 1)) \<le> e - p")
    case True
    then have l: "p + 1 < length b" "p < length b" "p + 2 + unat (b ! (p + 1)) \<le> length b" using "1.prems" by auto
    obtain v el' where v: "parse_elem (b ! p) (slice b (p + 2) (unat (b ! (p + 1)))) el = (v, el')" by (metis prod.exhaust)
    show ?thesis
    proof (cases "b ! p = 140")
      case False
      have "\<exists>r. parse_elems b (p + 2 + unat (b ! (p + 1))) e (u \<or> v) el' = Inr r"
        by (rule "1.IH" [where x = "b ! (p + 1)" and xb = "slice b (p + 2) (unat (b ! (p + 1)))"]) (use True False v "1.prems" in auto)
      then show ?thesis using True l False v by (subst parse_elems.simps) (simp add: ld8_def rd_def)
    qed (use True l in \<open>subst parse_elems.simps, simp add: ld8_def rd_def\<close>)
  next
    case False
    then show ?thesis using "1.prems" by (subst parse_elems.simps) (auto simp: ld8_def)
  qed
qed

section \<open>Elements are read back\<close>

definition elem_bytes :: "byte \<times> buf \<Rightarrow> buf" where
  "elem_bytes x = (case x of (eid, d) \<Rightarrow> [eid, word_of_nat (length d)] @ d)"

definition elem_ok :: "byte \<times> buf \<Rightarrow> bool" where
  "elem_ok x \<longleftrightarrow> fst x \<noteq> 140 \<and> length (snd x) < 256"

fun parsed :: "(byte \<times> buf) list \<Rightarrow> bool \<Rightarrow> elems \<Rightarrow> ParseRes \<times> elems" where
  "parsed [] u el = (if u then ParseUnknown else ParseOK, el)"
| "parsed ((eid, d) # es) u el = (case parse_elem eid d el of (v, el) \<Rightarrow> parsed es (u \<or> v) el)"

lemma parse_elems_step:
  assumes "ld8 b (p + 1) = Inr w" "ld8 b p = Inr eid" "rd b (p + 2) (unat w) = Inr d" "2 + unat w \<le> e - p" "eid \<noteq> 140"
    "parse_elem eid d el = (v, el')"
  shows "parse_elems b p e u el = parse_elems b (p + 2 + unat w) e (u \<or> v) el'"
  using assms by (subst parse_elems.simps) simp

lemma parse_elems_list:
  assumes "\<forall>x \<in> set es. elem_ok x"
  shows "parse_elems (pre @ concat (map elem_bytes es) @ post) (length pre) (length pre + length (concat (map elem_bytes es))) u el =
    Inr (parsed es u el)"
  using assms
proof (induction es arbitrary: pre u el)
  case Nil
  then show ?case by (simp add: parse_elems.simps)
next
  case (Cons x es)
  obtain eid d where x: "x = (eid, d)" by (cases x)
  then have ok: "eid \<noteq> 140" "length d < 256" using Cons.prems by (auto simp: elem_ok_def)
  then have l: "unat (word_of_nat (length d) :: byte) = length d" by (simp add: unat_of_nat)
  obtain v el' where v: "parse_elem eid d el = (v, el')" by (metis prod.exhaust)
  let ?r = "concat (map elem_bytes es) @ post" and ?b = "pre @ elem_bytes x @ concat (map elem_bytes es) @ post"
  have r: "ld8 ?b (length pre + 1) = Inr (word_of_nat (length d))" "ld8 ?b (length pre) = Inr eid" "rd ?b (length pre + 2) (length d) = Inr d"
    by (simp_all add: x elem_bytes_def ld8_def rd_def slice_def nth_append)
  have n: "length (concat (map elem_bytes (x # es))) = 2 + length d + length (concat (map elem_bytes es))" by (simp add: x elem_bytes_def)
  have "parse_elems ?b (length pre) (length pre + length (concat (map elem_bytes (x # es)))) u el =
      parse_elems ?b (length pre + 2 + length d) (length pre + length (concat (map elem_bytes (x # es)))) (u \<or> v) el'"
    by (rule parse_elems_step [OF r(1,2) _ _ ok(1) v, unfolded l, OF r(3)]) (simp only: n)
  also have "\<dots> = Inr (parsed es (u \<or> v) el')"
    using Cons.IH [of "pre @ elem_bytes x" "u \<or> v" el'] Cons.prems by (simp add: x add.assoc) (simp add: elem_bytes_def)
  finally show ?case by (simp add: x v)
qed

section \<open>Rates\<close>

lemma merge_two:
  assumes "length a + length b \<le> n"
  shows "merge_byte_arrays n (Some a) (Some b) = (length a + length b, a @ b @ replicate (n - length a - length b) 0)"
  using assms by (auto simp: merge_byte_arrays_def splice_def Let_def)

lemma merge_one: "length a \<le> n \<Longrightarrow> merge_byte_arrays n (Some a) None = (length a, a @ replicate (n - length a) 0)"
  by (auto simp: merge_byte_arrays_def splice_def Let_def)

text \<open>What is left of a station by the checks.\<close>

definition same_place :: "sta_info \<Rightarrow> sta_info \<Rightarrow> bool" where
  "same_place a b \<longleftrightarrow> sta_addr b = sta_addr a \<and> sta_aid b = sta_aid a \<and> nonerp_set b = nonerp_set a \<and>
     no_short_slot_time_set b = no_short_slot_time_set a \<and> no_short_preamble_set b = no_short_preamble_set a \<and>
     sta_capability b = sta_capability a \<and> sta_listen_interval b = sta_listen_interval a \<and>
     (\<forall>n < 32. n \<noteq> 9 \<longrightarrow> n \<noteq> 23 \<longrightarrow> bit (sta_flags b) n = bit (sta_flags a) n)"

lemma check_wmm_place: "check_wmm mc ie sta = (r, sta') \<Longrightarrow> same_place sta sta' \<and> sta_supported_rates sta' = sta_supported_rates sta \<and>
    sta_supported_rates_len sta' = sta_supported_rates_len sta"
  by (auto simp: check_wmm_def same_place_def WLAN_STA_WMM_def flag_bits Let_def split: option.splits if_splits)

lemma check_multi_ap_place: "check_multi_ap mc ie sta = (r, sta') \<Longrightarrow> same_place sta sta' \<and> sta_supported_rates sta' = sta_supported_rates sta \<and>
    sta_supported_rates_len sta' = sta_supported_rates_len sta \<and> sta_qosinfo sta' = sta_qosinfo sta"
  by (auto simp: check_multi_ap_def same_place_def WLAN_STA_MULTI_AP_def flag_bits Let_def split: option.splits if_splits)

lemma copy_supp_rates_eq:
  assumes "\<not> mc_mode_11ad mc"
  shows "copy_supp_rates mc el sta = (case el_supp_rates el of
      None \<Rightarrow> (WLAN_STATUS_UNSPECIFIED_FAILURE, sta)
    | Some a \<Rightarrow> let rates = a @ (case el_ext_supp_rates el of None \<Rightarrow> [] | Some b \<Rightarrow> b) in
        if length rates > 32 then (WLAN_STATUS_UNSPECIFIED_FAILURE, sta)
        else (WLAN_STATUS_SUCCESS, sta\<lparr>sta_supported_rates := rates @ replicate (32 - length rates) 0, sta_supported_rates_len := int (length rates)\<rparr>))"
  using assms by (auto simp: copy_supp_rates_def merge_two merge_one WLAN_SUPP_RATES_MAX_def ie_len_def Let_def split: option.split)

lemma copy_supp_rates_place:
  assumes "copy_supp_rates mc el sta = (r, sta')"
  shows "same_place sta sta' \<and> sta_qosinfo sta' = sta_qosinfo sta \<and>
    (length (sta_supported_rates sta) = 32 \<longrightarrow> length (sta_supported_rates sta') = 32) \<and>
    (0 \<le> sta_supported_rates_len sta \<and> sta_supported_rates_len sta \<le> 32 \<longrightarrow> 0 \<le> sta_supported_rates_len sta' \<and> sta_supported_rates_len sta' \<le> 32)"
proof (cases "mc_mode_11ad mc")
  case True
  then show ?thesis using assms by (simp add: copy_supp_rates_def same_place_def)
next
  case False
  then show ?thesis
    using assms by (auto simp: copy_supp_rates_eq [OF False] same_place_def Let_def split: option.splits if_splits)
qed

end
