(* ===== verification/Hap_Frames.thy ===== *)
theory Hap_Frames
  imports Ap_Controller Hap_Elems
begin

text \<open>
  The management frames that stations send to an access point (hostapd-2.8/src/ap/ieee802_11.c:
  \<open>ieee802_11_mgmt\<close>, \<open>handle_auth\<close>, \<open>auth_shared_key\<close>, \<open>send_auth_reply\<close>, \<open>handle_assoc\<close>,
  \<open>hostapd_get_aid\<close>, \<open>add_associated_sta\<close>, \<open>handle_disassoc\<close>, \<open>handle_deauth\<close>, \<open>handle_action\<close>,
  \<open>ieee802_11_mgmt_cb\<close>, \<open>handle_auth_cb\<close>, \<open>handle_assoc_cb\<close>, \<open>notify_controller_disassoc\<close>;
  src/ap/sta_info.c: \<open>ap_handle_timer\<close>). They are where the access point's station list and the stations
  of hostapd meet: every handler asks the list first whether the controller has selected the station,
  moves it from one status to the next, and starts a thread that reports the step to the controller.

  A frame is the buffer of its bytes. The build and the configuration are those of \<open>Hap_Sta\<close> and
  \<open>Hap_Elems\<close>. Access control, RADIUS, the random challenge and the driver are members of \<open>mgmt_env\<close>;
  the frames that the handlers send, and the calls into other subsystems, are entries of \<open>hap_events\<close>.
  Of the neighbour report of a rejection, of the association response and of the frames of other
  types, that they are sent or received is modelled and not what is in them.
\<close>

section \<open>Data\<close>

datatype acl_result = HOSTAPD_ACL_REJECT | HOSTAPD_ACL_ACCEPT | HOSTAPD_ACL_PENDING | HOSTAPD_ACL_ACCEPT_TIMEOUT

text \<open>\<open>seen_elsewhere\<close> is the neighbour report for a station that was seen on the other interface that
  the configuration names; \<open>tk_set\<close> says that a key of the station is installed in the driver.\<close>

record mgmt_env = ctl_env +
  malloc_ok :: "nat \<Rightarrow> bool"
  acl_res :: acl_result
  radius_ok :: bool
  radius_psk :: bool
  radius_identity :: bool
  radius_cui :: bool
  seen_elsewhere :: "buf option"
  tkip_countermeasures :: bool
  new_challenge :: "buf option"
  mlme_ret :: int
  assoc_reply_ret :: u16
  tk_set :: bool
  action_ret :: int

definition IEEE80211_HDRLEN :: nat where "IEEE80211_HDRLEN = 24"
definition sizeof_auth :: nat where "sizeof_auth = 6"
definition sizeof_assoc_req :: nat where "sizeof_assoc_req = 4"
definition sizeof_reassoc_req :: nat where "sizeof_reassoc_req = 10"
definition sizeof_assoc_resp :: nat where "sizeof_assoc_resp = 6"
definition sizeof_reason :: nat where "sizeof_reason = 2"
definition sizeof_mgmt_handle :: nat where "sizeof_mgmt_handle = 24"

definition WLAN_AUTH_SAE :: u16 where "WLAN_AUTH_SAE = 3"
definition WLAN_AUTH_CHALLENGE_LEN :: nat where "WLAN_AUTH_CHALLENGE_LEN = 128"
definition WLAN_EID_CHALLENGE :: byte where "WLAN_EID_CHALLENGE = 16"
definition WLAN_FC_RETRY :: u16 where "WLAN_FC_RETRY = 0x0800"
definition WLAN_FC_ISWEP :: u16 where "WLAN_FC_ISWEP = 0x4000"
definition WLAN_STATUS_NOT_SUPPORTED_AUTH_ALG :: u16 where "WLAN_STATUS_NOT_SUPPORTED_AUTH_ALG = 13"
definition WLAN_STATUS_UNKNOWN_AUTH_TRANSACTION :: u16 where "WLAN_STATUS_UNKNOWN_AUTH_TRANSACTION = 14"
definition WLAN_STATUS_CHALLENGE_FAIL :: u16 where "WLAN_STATUS_CHALLENGE_FAIL = 15"
definition WLAN_STATUS_AP_UNABLE_TO_HANDLE_NEW_STA :: u16 where "WLAN_STATUS_AP_UNABLE_TO_HANDLE_NEW_STA = 17"
definition WLAN_STATUS_ASSOC_DENIED_LISTEN_INT_TOO_LARGE :: u16 where "WLAN_STATUS_ASSOC_DENIED_LISTEN_INT_TOO_LARGE = 51"
definition WLAN_STATUS_REJECTED_WITH_SUGGESTED_BSS_TRANSITION :: u16 where
  "WLAN_STATUS_REJECTED_WITH_SUGGESTED_BSS_TRANSITION = 82"
definition WLAN_STA_PENDING_POLL :: u32 where "WLAN_STA_PENDING_POLL = BIT 6"
definition WLAN_STA_PENDING_FILS_ERP :: u32 where "WLAN_STA_PENDING_FILS_ERP = BIT 22"
definition WLAN_FC_STYPE_BEACON :: nat where "WLAN_FC_STYPE_BEACON = 8"
definition WLAN_FC_STYPE_ACTION :: nat where "WLAN_FC_STYPE_ACTION = 13"
definition WLAN_FC_STYPE_ASSOC_RESP :: nat where "WLAN_FC_STYPE_ASSOC_RESP = 1"
definition WLAN_FC_STYPE_REASSOC_RESP :: nat where "WLAN_FC_STYPE_REASSOC_RESP = 3"
definition WLAN_ACTION_PUBLIC :: byte where "WLAN_ACTION_PUBLIC = 4"
definition WLAN_ACTION_HT :: byte where "WLAN_ACTION_HT = 7"

definition stype :: "fc_stype \<Rightarrow> nat" where
  "stype t = enum_val fc_stype_vals t"

definition frame_fc :: "buf \<Rightarrow> u16 res" where
  "frame_fc mgmt = ld16 mgmt (offsetof ieee80211_mgmt [''frame_control''])"

definition frame_seq_ctrl :: "buf \<Rightarrow> u16 res" where
  "frame_seq_ctrl mgmt = ld16 mgmt (offsetof ieee80211_mgmt [''seq_ctrl''])"

definition mgmt_bssid :: "buf \<Rightarrow> mac res" where
  "mgmt_bssid mgmt = ld_mac mgmt (offsetof ieee80211_mgmt [''bssid''])"

section \<open>Steps that the handlers share\<close>

text \<open>The station in the list, when it has the status that the handler requires.\<close>

definition sender_with :: "STAStatus \<Rightarrow> mac \<Rightarrow> access_point \<Rightarrow> ptr res" where
  "sender_with status a s = bindE (ap_lookupSTA a s) (\<lambda>info.
     case info of
       None \<Rightarrow> Inr None
     | Some q \<Rightarrow> bindE (ap_info q s) (\<lambda>i. Inr (if si_status i \<noteq> status then None else Some q)))"

text \<open>The copy of the frame for a thread with \<open>process_sta_msg\<close>. The results of \<open>malloc\<close> are not checked.
  In \<open>handle_auth\<close> the process ends when the thread for an open authentication cannot be created.\<close>

definition start_report :: "'e mgmt_env_scheme \<Rightarrow> bool \<Rightarrow> buf \<Rightarrow> ptr \<Rightarrow> access_point \<Rightarrow> access_point res" where
  "start_report e exits mgmt sta s =
     (if \<not> malloc_ok e sizeof_mgmt_handle then Inl NullDeref
      else if \<not> malloc_ok e (length mgmt) then Inl NullDeref
      else if \<not> pthread_ok e \<and> exits then Inl (Exit (-1))
      else Inr (s\<lparr>sta_msg_threads := spawn e \<lparr>mh_mgmt = mgmt, mh_len = length mgmt, mh_sta = sta\<rparr> (sta_msg_threads s)\<rparr>))"

text \<open>A step on one station of hostapd and on what hostapd counts and sends.\<close>

definition with_sta :: "nat \<Rightarrow> (sta_info \<Rightarrow> hap_iface \<Rightarrow> 'r \<times> sta_info \<times> hap_iface) \<Rightarrow> access_point \<Rightarrow> ('r \<times> access_point) res" where
  "with_sta p f s = bindE (sta_at p (ap_hapd s)) (\<lambda>sta.
     case f sta (iface (ap_hapd s)) of (r, sta, i) \<Rightarrow>
       bindE (set_sta p sta ((ap_hapd s)\<lparr>iface := i\<rparr>)) (\<lambda>h. Inr (r, s\<lparr>ap_hapd := h\<rparr>)))"

definition emit_ap :: "hap_event \<Rightarrow> access_point \<Rightarrow> access_point" where
  "emit_ap ev s = s\<lparr>ap_hapd := (ap_hapd s)\<lparr>iface := emit ev (iface (ap_hapd s))\<rparr>\<rparr>"

definition repeated :: "u16 \<Rightarrow> u16 \<Rightarrow> nat \<Rightarrow> sta_info \<Rightarrow> bool" where
  "repeated fc seq_ctrl subtype sta \<longleftrightarrow> fc AND WLAN_FC_RETRY \<noteq> 0 \<and> last_seq_ctrl sta \<noteq> WLAN_INVALID_MGMT_SEQ \<and>
     last_seq_ctrl sta = seq_ctrl \<and> last_subtype sta = word_of_nat subtype"

text \<open>The end of a failed step: a station that the driver knows as not associated is taken from it.\<close>

definition drop_unassoc :: "bool \<Rightarrow> sta_info \<Rightarrow> hap_iface \<Rightarrow> unit \<times> sta_info \<times> hap_iface" where
  "drop_unassoc c sta i = (if c then ((), sta\<lparr>added_unassoc := False\<rparr>, emit (Drv_sta_remove (sta_addr sta)) i) else ((), sta, i))"

text \<open>\<open>ieee802_11_set_radius_info\<close>; a VLAN that is not valid makes it fail.\<close>

definition set_radius_info :: "'e mgmt_env_scheme \<Rightarrow> sta_info \<Rightarrow> sta_info option" where
  "set_radius_info e sta = (if \<not> radius_ok e then None
     else Some (sta\<lparr>has_psk := radius_psk e, has_identity := radius_identity e, has_radius_cui := radius_cui e\<rparr>))"

section \<open>Authentication\<close>

definition auth_shared_key :: "'e mgmt_env_scheme \<Rightarrow> u16 \<Rightarrow> buf option \<Rightarrow> bool \<Rightarrow> sta_info \<Rightarrow> hap_iface \<Rightarrow> u16 \<times> sta_info \<times> hap_iface" where
  "auth_shared_key e auth_transaction challenge iswep sta i =
     (if auth_transaction = 1 then
        (case sta_challenge sta of
           Some _ \<Rightarrow> (0, sta, i)
         | None \<Rightarrow> (case new_challenge e of
             None \<Rightarrow> (WLAN_STATUS_UNSPECIFIED_FAILURE, sta, i)
           | Some c \<Rightarrow> (0, sta\<lparr>sta_challenge := Some c\<rparr>, i)))
      else if auth_transaction \<noteq> 3 then (WLAN_STATUS_UNSPECIFIED_FAILURE, sta, i)
      else if \<not> iswep \<or> sta_challenge sta = None \<or> challenge = None \<or> sta_challenge sta \<noteq> challenge
      then (WLAN_STATUS_CHALLENGE_FAIL, sta, i)
      else (0, sta\<lparr>sta_flags := sta_flags sta OR WLAN_STA_AUTH, sta_challenge := None\<rparr>,
            emit (Wpa_event (sta_addr sta) ''WPA_AUTH'') i))"

definition send_auth_reply :: "'e mgmt_env_scheme \<Rightarrow> mgmt_conf \<Rightarrow> mac \<Rightarrow> mac \<Rightarrow> u16 \<Rightarrow> u16 \<Rightarrow> u16 \<Rightarrow> buf \<Rightarrow> access_point \<Rightarrow> (int \<times> access_point) res" where
  "send_auth_reply e mc dst bssid auth_alg auth_transaction resp ies s =
     (let rlen = IEEE80211_HDRLEN + sizeof_auth + length ies in
      if \<not> malloc_ok e rlen then Inr (-1, s)
      else bindE (puts (zeroed rlen)
          [(offsetof ieee80211_mgmt [''frame_control''], bytes16 (word_of_nat (16 * stype WLAN_FC_STYPE_AUTH))),
           (offsetof ieee80211_mgmt [''da''], mac_bytes dst),
           (offsetof ieee80211_mgmt [''sa''], mac_bytes (mc_own_addr mc)),
           (offsetof ieee80211_mgmt [''bssid''], mac_bytes bssid),
           (offsetof ieee80211_mgmt [''auth'', ''auth_alg''], bytes16 auth_alg),
           (offsetof ieee80211_mgmt [''auth'', ''auth_transaction''], bytes16 auth_transaction),
           (offsetof ieee80211_mgmt [''auth'', ''status_code''], bytes16 resp),
           (IEEE80211_HDRLEN + sizeof_auth, ies)]) (\<lambda>reply.
        Inr (if mlme_ret e < 0 then 1 else 0, emit_ap (Send_mlme reply) s)))"

text \<open>The label \<open>fail\<close> of \<open>handle_auth\<close>, which every frame that is answered reaches.\<close>

definition auth_finish :: "'e mgmt_env_scheme \<Rightarrow> mgmt_conf \<Rightarrow> buf \<Rightarrow> u16 \<Rightarrow> u16 \<Rightarrow> u16 \<Rightarrow> buf \<Rightarrow> ptr \<Rightarrow> access_point \<Rightarrow> access_point res" where
  "auth_finish e mc mgmt auth_alg auth_transaction resp resp_ies sta s =
     bindE (mgmt_sa mgmt) (\<lambda>sa.
     bindE (mgmt_bssid mgmt) (\<lambda>bssid.
     bindE (send_auth_reply e mc sa bssid auth_alg (auth_transaction + 1) resp resp_ies s) (\<lambda>(reply_res, s).
     case sta of
       None \<Rightarrow> Inr s
     | Some p \<Rightarrow> bindE (with_sta p (\<lambda>sta. drop_unassoc (added_unassoc sta \<and> (resp \<noteq> WLAN_STATUS_SUCCESS \<or> reply_res \<noteq> 0)) sta) s)
         (\<lambda>(_, s). Inr s))))"

text \<open>The checks before the station is looked up: why the frame is refused, with the elements of the
  reply.\<close>

definition auth_refusal :: "'e mgmt_env_scheme \<Rightarrow> hap_conf \<Rightarrow> mgmt_conf \<Rightarrow> u16 \<Rightarrow> u16 \<Rightarrow> mac \<Rightarrow> (u16 \<times> buf) option" where
  "auth_refusal e conf mc auth_alg auth_transaction sa =
     (if tkip_countermeasures e then Some (WLAN_STATUS_UNSPECIFIED_FAILURE, [])
      else if \<not> auth_alg_ok conf auth_alg then Some (WLAN_STATUS_NOT_SUPPORTED_AUTH_ALG, [])
      else if \<not> (auth_transaction = 1 \<or> auth_alg = WLAN_AUTH_SAE \<or> auth_alg = WLAN_AUTH_SHARED_KEY \<and> auth_transaction = 3)
      then Some (WLAN_STATUS_UNKNOWN_AUTH_TRANSACTION, [])
      else if sa = mc_own_addr mc then Some (WLAN_STATUS_UNSPECIFIED_FAILURE, [])
      else case seen_elsewhere e of
        Some report \<Rightarrow> Some (WLAN_STATUS_REJECTED_WITH_SUGGESTED_BSS_TRANSITION, report)
      | None \<Rightarrow> if acl_res e = HOSTAPD_ACL_REJECT then Some (WLAN_STATUS_UNSPECIFIED_FAILURE, []) else None)"

text \<open>From the station's sequence number to its entry in the driver; the first component is the status
  to answer with.\<close>

definition auth_prepare :: "'e mgmt_env_scheme \<Rightarrow> hap_conf \<Rightarrow> u16 \<Rightarrow> sta_info \<Rightarrow> hap_iface \<Rightarrow> u16 \<times> sta_info \<times> hap_iface" where
  "auth_prepare e conf seq_ctrl sta i =
     (let sta = sta\<lparr>last_seq_ctrl := seq_ctrl, last_subtype := word_of_nat (stype WLAN_FC_STYPE_AUTH)\<rparr> in
      case set_radius_info e sta of
        None \<Rightarrow> (WLAN_STATUS_UNSPECIFIED_FAILURE, sta, i)
      | Some sta \<Rightarrow>
          let sta = sta\<lparr>sta_flags := sta_flags sta AND NOT WLAN_STA_PREAUTH\<rparr>;
              (failed, sta, i) = readd_to_driver conf (hap_results e) sta (emit (Notify_pre_auth (sta_addr sta) False) i)
          in (if failed then WLAN_STATUS_AP_UNABLE_TO_HANDLE_NEW_STA else WLAN_STATUS_SUCCESS, sta, i))"

definition auth_open :: "sta_info \<Rightarrow> hap_iface \<Rightarrow> unit \<times> sta_info \<times> hap_iface" where
  "auth_open sta i = ((), sta\<lparr>sta_flags := sta_flags sta OR WLAN_STA_AUTH, sta_auth_alg := WLAN_AUTH_OPEN\<rparr>,
     emit (Wpa_event (sta_addr sta) ''WPA_AUTH'') i)"

definition auth_indicate :: "sta_info \<Rightarrow> hap_iface \<Rightarrow> unit \<times> sta_info \<times> hap_iface" where
  "auth_indicate sta i = ((), sta, emit (Mlme_authenticate (sta_addr sta)) i)"

text \<open>With a shared key, the reply to the first frame carries the challenge.\<close>

definition auth_shared :: "'e mgmt_env_scheme \<Rightarrow> u16 \<Rightarrow> buf option \<Rightarrow> bool \<Rightarrow> sta_info \<Rightarrow> hap_iface \<Rightarrow> (u16 \<times> buf) \<times> sta_info \<times> hap_iface" where
  "auth_shared e auth_transaction challenge iswep sta i =
     (let (resp, sta, i) = auth_shared_key e auth_transaction challenge iswep sta i;
          sta = sta\<lparr>sta_auth_alg := WLAN_AUTH_SHARED_KEY\<rparr>;
          resp_ies = (case sta_challenge sta of
            Some c \<Rightarrow> if auth_transaction = 1 then [WLAN_EID_CHALLENGE, word_of_nat WLAN_AUTH_CHALLENGE_LEN] @ c else []
          | None \<Rightarrow> [])
      in ((resp, resp_ies), sta, emit (Mlme_authenticate (sta_addr sta)) i))"

text \<open>\<open>handle_auth\<close> from the station \<open>p\<close> of hostapd on; \<open>info\<close> is the station in the list.\<close>

definition auth_station :: "'e mgmt_env_scheme \<Rightarrow> hap_conf \<Rightarrow> mgmt_conf \<Rightarrow> buf \<Rightarrow> u16 \<Rightarrow> u16 \<Rightarrow> u16 \<Rightarrow> u16 \<Rightarrow> buf option \<Rightarrow> nat \<Rightarrow> nat \<Rightarrow>
    access_point \<Rightarrow> access_point res" where
  "auth_station e conf mc mgmt auth_alg auth_transaction fc seq_ctrl challenge info p s =
     bindE (with_sta p (auth_prepare e conf seq_ctrl) s) (\<lambda>(resp, s).
     if resp \<noteq> WLAN_STATUS_SUCCESS then auth_finish e mc mgmt auth_alg auth_transaction resp [] (Some p) s
     else if auth_alg = WLAN_AUTH_OPEN then
       bindE (with_sta p auth_open s) (\<lambda>(_, s).
       bindE (on_stations (changeStatus info AUTHENTICATED) s) (\<lambda>s.
       bindE (start_report e True mgmt None s) (\<lambda>s.
       bindE (with_sta p auth_indicate s) (\<lambda>(_, s).
       auth_finish e mc mgmt auth_alg auth_transaction WLAN_STATUS_SUCCESS [] (Some p) s))))
     else if auth_alg = WLAN_AUTH_SHARED_KEY then
       bindE (with_sta p (auth_shared e auth_transaction challenge (fc AND WLAN_FC_ISWEP \<noteq> 0)) s) (\<lambda>((resp, resp_ies), s).
       bindE (if resp = 0 \<and> auth_transaction = 3
              then bindE (on_stations (changeStatus info AUTHENTICATED) s) (start_report e False mgmt None) else Inr s) (\<lambda>s.
       auth_finish e mc mgmt auth_alg auth_transaction resp resp_ies (Some p) s))
     else auth_finish e mc mgmt auth_alg auth_transaction WLAN_STATUS_SUCCESS [] (Some p) s)"

definition auth_challenge :: "buf \<Rightarrow> buf option res" where
  "auth_challenge mgmt =
     (let v = IEEE80211_HDRLEN + sizeof_auth in
      if v + 2 + WLAN_AUTH_CHALLENGE_LEN \<le> length mgmt then
        bindE (ld8 mgmt v) (\<lambda>eid.
        bindE (ld8 mgmt (v + 1)) (\<lambda>elen.
        if eid = WLAN_EID_CHALLENGE \<and> elen = word_of_nat WLAN_AUTH_CHALLENGE_LEN
        then bindE (rd mgmt (v + 2) WLAN_AUTH_CHALLENGE_LEN) (\<lambda>c. Inr (Some c)) else Inr None))
      else Inr None)"

definition handle_auth :: "'e mgmt_env_scheme \<Rightarrow> hap_conf \<Rightarrow> mgmt_conf \<Rightarrow> buf \<Rightarrow> access_point \<Rightarrow> access_point res" where
  "handle_auth e conf mc mgmt s =
     (if length mgmt < IEEE80211_HDRLEN + sizeof_auth then Inr s
      else
        bindE (ld16 mgmt (offsetof ieee80211_mgmt [''auth'', ''auth_alg''])) (\<lambda>auth_alg.
        bindE (ld16 mgmt (offsetof ieee80211_mgmt [''auth'', ''auth_transaction''])) (\<lambda>auth_transaction.
        bindE (frame_fc mgmt) (\<lambda>fc.
        bindE (frame_seq_ctrl mgmt) (\<lambda>seq_ctrl.
        bindE (auth_challenge mgmt) (\<lambda>challenge.
        bindE (mgmt_sa mgmt) (\<lambda>sa.
        case auth_refusal e conf mc auth_alg auth_transaction sa of
          Some (resp, resp_ies) \<Rightarrow> auth_finish e mc mgmt auth_alg auth_transaction resp resp_ies None s
        | None \<Rightarrow>
            if acl_res e = HOSTAPD_ACL_PENDING then Inr s
            else bindE (sender_with SELECTED sa s) (\<lambda>info.
              case info of
                None \<Rightarrow> Inr s
              | Some q \<Rightarrow>
                  bindE (ap_get_sta sa (ap_hapd s)) (\<lambda>p.
                  case p of
                    Some p \<Rightarrow>
                      bindE (with_sta p (\<lambda>sta i. (repeated fc seq_ctrl (stype WLAN_FC_STYPE_AUTH) sta,
                          sta\<lparr>sta_flags := sta_flags sta AND NOT WLAN_STA_PENDING_FILS_ERP\<rparr>, i)) s) (\<lambda>(again, s).
                      if again then Inr s
                      else auth_station e conf mc mgmt auth_alg auth_transaction fc seq_ctrl challenge q p s)
                  | None \<Rightarrow>
                      bindE (ap_sta_add conf (hap_results e) sa (ap_hapd s)) (\<lambda>(p, h).
                      let s = s\<lparr>ap_hapd := h\<rparr> in
                      case p of
                        None \<Rightarrow> auth_finish e mc mgmt auth_alg auth_transaction WLAN_STATUS_AP_UNABLE_TO_HANDLE_NEW_STA [] None s
                      | Some p \<Rightarrow> auth_station e conf mc mgmt auth_alg auth_transaction fc seq_ctrl challenge q p s))))))))))"

section \<open>Association\<close>

text \<open>The first bit that is clear, and the first word of the map of association ids that has one.\<close>

definition free_bit :: "u32 \<Rightarrow> nat" where
  "free_bit w = (case List.find (\<lambda>j. w AND BIT j = 0) [0..<32] of Some j \<Rightarrow> j | None \<Rightarrow> 32)"

fun aid_slot :: "nat \<Rightarrow> u32 list \<Rightarrow> (nat \<times> nat) option" where
  "aid_slot i [] = None"
| "aid_slot i (w # ws) =
     (if w = -1 then aid_slot (Suc i) ws
      else let j = free_bit w in if j < 32 then Some (i, j) else aid_slot (Suc i) ws)"

definition hostapd_get_aid :: "nat \<Rightarrow> hapd \<Rightarrow> (int \<times> hapd) res" where
  "hostapd_get_aid p h = bindE (sta_at p h) (\<lambda>sta.
     if sta_aid sta > 0 then Inr (0, h)
     else case aid_slot 0 (hap_sta_aid h) of
       None \<Rightarrow> Inr (-1, h)
     | Some (i, j) \<Rightarrow>
         let aid = i * 32 + j + 1 in
         if aid > 2007 then Inr (-1, h)
         else bindE (set_sta p (sta\<lparr>sta_aid := word_of_nat aid\<rparr>) (h\<lparr>hap_sta_aid := (hap_sta_aid h)[i := hap_sta_aid h ! i OR BIT j]\<rparr>))
           (\<lambda>h. Inr (0, h)))"

text \<open>The first component is the status to answer with.\<close>

definition add_associated_sta :: "'e mgmt_env_scheme \<Rightarrow> sta_info \<Rightarrow> hap_iface \<Rightarrow> u16 \<times> sta_info \<times> hap_iface" where
  "add_associated_sta e sta i =
     (let a = sta_addr sta;
          i = (if \<not> added_unassoc sta \<and> (sta_flags sta AND WLAN_STA_AUTHORIZED = 0 \<or> \<not> tk_set e)
               then emit (Wpa_event a ''WPA_DRV_STA_REMOVED'') (emit (Drv_sta_remove a) i) else i);
          i = emit (Drv_sta_add a (sta_flags sta OR WLAN_STA_ASSOC)) i
      in if drv_sta_add_ret (hap_results e) \<noteq> 0
         then (case drop_unassoc (added_unassoc sta) sta i of (_, sta, i) \<Rightarrow> (WLAN_STATUS_AP_UNABLE_TO_HANDLE_NEW_STA, sta, i))
         else (WLAN_STATUS_SUCCESS, sta\<lparr>added_unassoc := False\<rparr>, i))"

text \<open>The label \<open>fail\<close> of \<open>handle_assoc\<close>, which every request that is answered reaches.\<close>

definition assoc_reply :: "'e mgmt_env_scheme \<Rightarrow> bool \<Rightarrow> mac \<Rightarrow> u16 \<Rightarrow> sta_info \<Rightarrow> hap_iface \<Rightarrow> unit \<times> sta_info \<times> hap_iface" where
  "assoc_reply e reassoc sa resp sta i =
     (let (resp, sta, i) = (if resp = WLAN_STATUS_SUCCESS then add_associated_sta e sta i else (resp, sta, i));
          i = emit (Send_assoc_resp sa resp reassoc) i
      in drop_unassoc (assoc_reply_ret e \<noteq> WLAN_STATUS_SUCCESS \<and> resp = WLAN_STATUS_SUCCESS \<or> added_unassoc sta) sta i)"

definition assoc_finish :: "'e mgmt_env_scheme \<Rightarrow> bool \<Rightarrow> mac \<Rightarrow> u16 \<Rightarrow> ptr \<Rightarrow> access_point \<Rightarrow> access_point res" where
  "assoc_finish e reassoc sa resp sta s = (case sta of
     None \<Rightarrow> Inr (emit_ap (Send_assoc_resp sa resp reassoc) s)
   | Some p \<Rightarrow> bindE (with_sta p (assoc_reply e reassoc sa resp) s) (\<lambda>(_, s). Inr s))"

definition assoc_checks :: "'e mgmt_env_scheme \<Rightarrow> mgmt_conf \<Rightarrow> buf \<Rightarrow> nat \<Rightarrow> u16 \<Rightarrow> u16 \<Rightarrow> sta_info \<Rightarrow> (u16 \<times> sta_info) res" where
  "assoc_checks e mc mgmt pos capab_info listen_interval sta =
     (if tkip_countermeasures e then Inr (WLAN_STATUS_UNSPECIFIED_FAILURE, sta)
      else if listen_interval > mc_max_listen_interval mc then Inr (WLAN_STATUS_ASSOC_DENIED_LISTEN_INT_TOO_LARGE, sta)
      else check_assoc_ies mc mgmt pos (length mgmt - pos) (sta\<lparr>sta_capability := capab_info\<rparr>))"

definition assoc_accept :: "hap_conf \<Rightarrow> u16 \<Rightarrow> sta_info \<Rightarrow> hap_iface \<Rightarrow> unit \<times> sta_info \<times> hap_iface" where
  "assoc_accept conf listen_interval sta i =
     (let (sta, i) = update_nonerp conf (sta\<lparr>sta_listen_interval := listen_interval\<rparr>) i;
          (sta, i) = update_slot_time conf sta i;
          (sta, i) = update_preamble conf sta i
      in ((), sta\<lparr>sta_flags := sta_flags sta OR WLAN_STA_ASSOC_REQ_OK\<rparr>, i))"

definition assoc_subtype :: "bool \<Rightarrow> nat" where
  "assoc_subtype reassoc = stype (if reassoc then WLAN_FC_STYPE_REASSOC_REQ else WLAN_FC_STYPE_ASSOC_REQ)"

text \<open>\<open>handle_assoc\<close> from the authenticated station \<open>p\<close> of hostapd on; \<open>info\<close> is the station in the list.\<close>

definition assoc_station :: "'e mgmt_env_scheme \<Rightarrow> hap_conf \<Rightarrow> mgmt_conf \<Rightarrow> buf \<Rightarrow> bool \<Rightarrow> mac \<Rightarrow> nat \<Rightarrow> u16 \<Rightarrow> u16 \<Rightarrow> nat \<Rightarrow> nat \<Rightarrow>
    access_point \<Rightarrow> access_point res" where
  "assoc_station e conf mc mgmt reassoc sa pos capab_info listen_interval info p s =
     bindE (frame_fc mgmt) (\<lambda>fc.
     bindE (frame_seq_ctrl mgmt) (\<lambda>seq_ctrl.
     bindE (sta_at p (ap_hapd s)) (\<lambda>sta.
     if repeated fc seq_ctrl (assoc_subtype reassoc) sta then Inr s
     else
       bindE (assoc_checks e mc mgmt pos capab_info listen_interval
           (sta\<lparr>last_seq_ctrl := seq_ctrl, last_subtype := word_of_nat (assoc_subtype reassoc)\<rparr>)) (\<lambda>(resp, sta).
       bindE (with_sta p (\<lambda>_ i. ((), sta, i)) s) (\<lambda>(_, s).
       if resp \<noteq> WLAN_STATUS_SUCCESS then assoc_finish e reassoc sa resp (Some p) s
       else
         bindE (hostapd_get_aid p (ap_hapd s)) (\<lambda>(r, h).
         let s = s\<lparr>ap_hapd := h\<rparr> in
         if r < 0 then assoc_finish e reassoc sa WLAN_STATUS_AP_UNABLE_TO_HANDLE_NEW_STA (Some p) s
         else
           bindE (with_sta p (assoc_accept conf listen_interval) s) (\<lambda>(_, s).
           bindE (on_stations (changeStatus info ASSOCIATED) s) (\<lambda>s.
           bindE (start_report e False mgmt (Some p) s) (\<lambda>s.
           bindE (with_sta p (\<lambda>sta i. ((), sta\<lparr>timeout_next := STA_NULLFUNC, pending_wds_enable := False\<rparr>, i)) s) (\<lambda>(_, s).
           assoc_finish e reassoc sa WLAN_STATUS_SUCCESS (Some p) s))))))))))"

text \<open>A station of 802.11ad does not authenticate: its entry is made here. \<open>None\<close> waits for the access
  control; otherwise the station and the status so far.\<close>

definition assoc_dmg :: "'e mgmt_env_scheme \<Rightarrow> hap_conf \<Rightarrow> mac \<Rightarrow> ptr \<Rightarrow> access_point \<Rightarrow> ((ptr \<times> u16) option \<times> access_point) res" where
  "assoc_dmg e conf sa sta s =
     (if acl_res e = HOSTAPD_ACL_REJECT then Inr (Some (sta, WLAN_STATUS_UNSPECIFIED_FAILURE), s)
      else if acl_res e = HOSTAPD_ACL_PENDING then Inr (None, s)
      else bindE (ap_sta_add conf (hap_results e) sa (ap_hapd s)) (\<lambda>(p, h).
        let s = s\<lparr>ap_hapd := h\<rparr> in
        case p of
          None \<Rightarrow> Inr (Some (None, WLAN_STATUS_AP_UNABLE_TO_HANDLE_NEW_STA), s)
        | Some p \<Rightarrow>
            bindE (with_sta p (\<lambda>sta i. case set_radius_info e sta of
                None \<Rightarrow> (WLAN_STATUS_UNSPECIFIED_FAILURE, sta, i)
              | Some sta \<Rightarrow> (WLAN_STATUS_SUCCESS, sta\<lparr>sta_flags := sta_flags sta OR WLAN_STA_AUTH, sta_auth_alg := WLAN_AUTH_OPEN\<rparr>,
                  emit (Wpa_event (sta_addr sta) ''WPA_AUTH'') i)) s) (\<lambda>(resp, s).
            Inr (Some (Some p, resp), s))))"

definition is_authenticated :: "ptr \<Rightarrow> hapd \<Rightarrow> bool res" where
  "is_authenticated p h = (case p of None \<Rightarrow> Inr False
     | Some q \<Rightarrow> bindE (sta_at q h) (\<lambda>sta. Inr (sta_flags sta AND WLAN_STA_AUTH \<noteq> 0)))"

definition handle_assoc :: "'e mgmt_env_scheme \<Rightarrow> hap_conf \<Rightarrow> mgmt_conf \<Rightarrow> buf \<Rightarrow> bool \<Rightarrow> access_point \<Rightarrow> access_point res" where
  "handle_assoc e conf mc mgmt reassoc s =
     (let pos = IEEE80211_HDRLEN + (if reassoc then sizeof_reassoc_req else sizeof_assoc_req) in
      if length mgmt < pos then Inr s
      else
        bindE (ld16 mgmt IEEE80211_HDRLEN) (\<lambda>capab_info.
        bindE (ld16 mgmt (IEEE80211_HDRLEN + 2)) (\<lambda>listen_interval.
        bindE (mgmt_sa mgmt) (\<lambda>sa.
        bindE (sender_with AUTHENTICATED sa s) (\<lambda>info.
        case info of
          None \<Rightarrow> Inr s
        | Some q \<Rightarrow>
            bindE (ap_get_sta sa (ap_hapd s)) (\<lambda>p.
            bindE (is_authenticated p (ap_hapd s)) (\<lambda>au.
            if \<not> au then
              if mc_mode_11ad mc then
                bindE (assoc_dmg e conf sa p s) (\<lambda>(r, s).
                case r of
                  None \<Rightarrow> Inr s
                | Some (p, resp) \<Rightarrow>
                    if resp \<noteq> WLAN_STATUS_SUCCESS then assoc_finish e reassoc sa resp p s
                    else bindE (non_null p) (\<lambda>p. assoc_station e conf mc mgmt reassoc sa pos capab_info listen_interval q p s))
              else Inr (emit_ap (Send_deauth sa) s)
            else bindE (non_null p) (\<lambda>p. assoc_station e conf mc mgmt reassoc sa pos capab_info listen_interval q p s))))))))"

section \<open>Disassociation and deauthentication\<close>

definition disassoc_flags :: "u32 \<Rightarrow> string \<Rightarrow> sta_info \<Rightarrow> hap_iface \<Rightarrow> unit \<times> sta_info \<times> hap_iface" where
  "disassoc_flags cleared ev sta i =
     (let (sta, i) = ap_sta_set_authorized False sta i
      in ((), sta\<lparr>last_seq_ctrl := WLAN_INVALID_MGMT_SEQ, sta_flags := sta_flags sta AND NOT cleared\<rparr>,
          emit (Wpa_event (sta_addr sta) ev) i))"

text \<open>The sessions of the station end and the driver forgets it; the result says that the timers for its
  deauthentication are to be started.\<close>

definition disassoc_sessions :: "sta_info \<Rightarrow> hap_iface \<Rightarrow> bool \<times> sta_info \<times> hap_iface" where
  "disassoc_sessions sta i =
     (let a = sta_addr sta;
          i = emit (Free_8021x a) (emit (Accounting_stop a) (emit (Port_enabled a False) i));
          i = emit_if (sta_ipaddr sta \<noteq> 0) (Delete_ip_neigh a) i
      in (timeout_next sta = STA_NULLFUNC \<or> timeout_next sta = STA_DISASSOC,
          sta\<lparr>acct_terminate_cause := 1, has_eapol_sm := False, added_unassoc := False\<rparr>, emit (Drv_sta_remove a) i))"

definition disassoc_timers :: "sta_info \<Rightarrow> hap_iface \<Rightarrow> unit \<times> sta_info \<times> hap_iface" where
  "disassoc_timers sta i = ((), sta\<lparr>timeout_next := STA_DEAUTH\<rparr>,
     emit (Notify_timer (sta_addr sta)) (emit (Register_timer (sta_addr sta)) i))"

definition free_station :: "hap_conf \<Rightarrow> nat \<Rightarrow> access_point \<Rightarrow> access_point res" where
  "free_station conf p s = bindE (sta_at p (ap_hapd s)) (\<lambda>sta.
     bindE (ap_free_sta conf p sta (ap_hapd s)) (\<lambda>h. Inr (s\<lparr>ap_hapd := h\<rparr>)))"

text \<open>\<open>handle_disassoc\<close> after the report.\<close>

definition disassoc_end :: "hap_conf \<Rightarrow> mgmt_conf \<Rightarrow> mac \<Rightarrow> nat \<Rightarrow> access_point \<Rightarrow> access_point res" where
  "disassoc_end conf mc sa p s =
     (let s = emit_ap (Mlme_disassociate sa) s in
      if mc_mode_11ad mc then
        bindE (with_sta p (\<lambda>sta i. ((), sta\<lparr>sta_flags := sta_flags sta AND NOT WLAN_STA_AUTH\<rparr>,
            emit (Wpa_event (sta_addr sta) ''WPA_DEAUTH'') i)) s) (\<lambda>(_, s).
        free_station conf p s)
      else Inr s)"

definition disassoc_rest :: "'e mgmt_env_scheme \<Rightarrow> hap_conf \<Rightarrow> mgmt_conf \<Rightarrow> mac \<Rightarrow> nat \<Rightarrow> access_point \<Rightarrow> access_point res" where
  "disassoc_rest e conf mc sa p s =
     bindE (with_sta p disassoc_sessions s) (\<lambda>(timers, s).
     if timers then
       if \<not> calloc_ok e 6 then Inl NullDeref
       else bindE (with_sta p disassoc_timers s) (\<lambda>(_, s). disassoc_end conf mc sa p s)
     else disassoc_end conf mc sa p s)"

definition handle_disassoc :: "'e mgmt_env_scheme \<Rightarrow> hap_conf \<Rightarrow> mgmt_conf \<Rightarrow> buf \<Rightarrow> access_point \<Rightarrow> access_point res" where
  "handle_disassoc e conf mc mgmt s =
     bindE (mgmt_sa mgmt) (\<lambda>sa.
     bindE (sender_with ASSOCIATED sa s) (\<lambda>info.
     case info of
       None \<Rightarrow> Inr s
     | Some q \<Rightarrow>
         if length mgmt < IEEE80211_HDRLEN + sizeof_reason then Inr s
         else bindE (ap_get_sta sa (ap_hapd s)) (\<lambda>p.
           case p of
             None \<Rightarrow> Inr s
           | Some p \<Rightarrow>
               bindE (with_sta p (disassoc_flags (WLAN_STA_ASSOC OR WLAN_STA_ASSOC_REQ_OK) ''WPA_DISASSOC'') s) (\<lambda>(_, s).
               bindE (on_stations (changeStatus q AUTHENTICATED) s) (\<lambda>s.
               bindE (start_report e False mgmt None s) (\<lambda>s.
               disassoc_rest e conf mc sa p s))))))"

definition deauth_rest :: "hap_conf \<Rightarrow> nat \<Rightarrow> access_point \<Rightarrow> access_point res" where
  "deauth_rest conf p s =
     bindE (with_sta p (\<lambda>sta i. ((), sta\<lparr>acct_terminate_cause := 1\<rparr>,
         emit (Port_enabled (sta_addr sta) False) (emit (Mlme_deauthenticate (sta_addr sta)) i))) s) (\<lambda>(_, s).
     free_station conf p s)"

definition handle_deauth :: "'e mgmt_env_scheme \<Rightarrow> hap_conf \<Rightarrow> buf \<Rightarrow> access_point \<Rightarrow> access_point res" where
  "handle_deauth e conf mgmt s =
     bindE (mgmt_sa mgmt) (\<lambda>sa.
     bindE (sender_with ASSOCIATED sa s) (\<lambda>info.
     case info of
       None \<Rightarrow> Inr s
     | Some q \<Rightarrow>
         if length mgmt < IEEE80211_HDRLEN + sizeof_reason then Inr s
         else bindE (ap_get_sta sa (ap_hapd s)) (\<lambda>p.
           case p of
             None \<Rightarrow> Inr s
           | Some p \<Rightarrow>
               bindE (with_sta p (disassoc_flags (WLAN_STA_AUTH OR WLAN_STA_ASSOC OR WLAN_STA_ASSOC_REQ_OK) ''WPA_DEAUTH'') s) (\<lambda>(_, s).
               bindE (on_stations (changeStatus q NOT_AUTHENTICATED) s) (\<lambda>s.
               bindE (start_report e False mgmt None s) (\<lambda>s.
               deauth_rest conf p s))))))"

text \<open>The timer that \<open>handle_disassoc\<close> starts.\<close>

definition notify_controller_disassoc :: "'e mgmt_env_scheme \<Rightarrow> mac \<Rightarrow> access_point \<Rightarrow> access_point res" where
  "notify_controller_disassoc e addr s =
     bindE (sender_with AUTHENTICATED addr s) (\<lambda>info.
     case info of
       None \<Rightarrow> Inr s
     | Some q \<Rightarrow> bindE (on_stations (changeStatus q NOT_AUTHENTICATED) s) (\<lambda>s.
         Inr (s\<lparr>deauth_threads := spawn e addr (deauth_threads s)\<rparr>)))"

section \<open>Frames from the driver\<close>

text \<open>An action frame, up to the choice by its category.\<close>

definition robust_action_frame :: "byte \<Rightarrow> bool" where
  "robust_action_frame category \<longleftrightarrow> category \<noteq> WLAN_ACTION_PUBLIC \<and> category \<noteq> WLAN_ACTION_HT"

datatype action_check = Ignored | Again | Handled

definition check_action :: "u16 \<Rightarrow> u16 \<Rightarrow> byte \<Rightarrow> sta_info \<Rightarrow> hap_iface \<Rightarrow> action_check \<times> sta_info \<times> hap_iface" where
  "check_action fc seq_ctrl category sta i =
     (if category \<noteq> WLAN_ACTION_PUBLIC \<and> sta_flags sta AND WLAN_STA_ASSOC = 0 then (Ignored, sta, i)
      else if sta_flags sta AND WLAN_STA_MFP \<noteq> 0 \<and> fc AND WLAN_FC_ISWEP = 0 \<and> robust_action_frame category then (Ignored, sta, i)
      else if repeated fc seq_ctrl WLAN_FC_STYPE_ACTION sta then (Again, sta, i)
      else (Handled, sta\<lparr>last_seq_ctrl := seq_ctrl, last_subtype := word_of_nat WLAN_FC_STYPE_ACTION\<rparr>, i))"

definition handle_action :: "'e mgmt_env_scheme \<Rightarrow> buf \<Rightarrow> access_point \<Rightarrow> (int \<times> access_point) res" where
  "handle_action e mgmt s =
     bindE (mgmt_sa mgmt) (\<lambda>sa.
     bindE (sender_with ASSOCIATED sa s) (\<lambda>info.
     if info = None then Inr (0, s)
     else if length mgmt < IEEE80211_HDRLEN + 2 + 1 then Inr (0, s)
     else
       bindE (ld8 mgmt IEEE80211_HDRLEN) (\<lambda>category.
       bindE (frame_fc mgmt) (\<lambda>fc.
       bindE (frame_seq_ctrl mgmt) (\<lambda>seq_ctrl.
       bindE (ap_get_sta sa (ap_hapd s)) (\<lambda>p.
       bindE (case p of
           None \<Rightarrow> Inr (if category \<noteq> WLAN_ACTION_PUBLIC then Ignored else Handled, s)
         | Some p \<Rightarrow> with_sta p (check_action fc seq_ctrl category) s) (\<lambda>(c, s).
       case c of
         Ignored \<Rightarrow> Inr (0, s)
       | Again \<Rightarrow> Inr (1, s)
       | Handled \<Rightarrow> Inr (action_ret e, emit_ap (Other_frame sa WLAN_FC_STYPE_ACTION) s))))))))"

fun is_broadcast_ether_addr :: "mac \<Rightarrow> bool" where
  "is_broadcast_ether_addr (MAC a b c d e f) \<longleftrightarrow> a AND b AND c AND d AND e AND f = 0xff"

definition ieee802_11_mgmt :: "'e mgmt_env_scheme \<Rightarrow> hap_conf \<Rightarrow> mgmt_conf \<Rightarrow> buf \<Rightarrow> access_point \<Rightarrow> (int \<times> access_point) res" where
  "ieee802_11_mgmt e conf mc mgmt s =
     (if length mgmt < 24 then Inr (0, s)
      else
        bindE (frame_fc mgmt) (\<lambda>fc.
        bindE (mgmt_sa mgmt) (\<lambda>sa.
        bindE (mgmt_da mgmt) (\<lambda>da.
        bindE (mgmt_bssid mgmt) (\<lambda>bssid.
        let t = WLAN_FC_GET_STYPE fc; handled = (\<lambda>r. bindE r (\<lambda>s. Inr (1, s))) in
        if t = WLAN_FC_STYPE_BEACON then Inr (1, emit_ap (Other_frame sa t) s)
        else if \<not> is_broadcast_ether_addr bssid \<and> bssid \<noteq> mc_own_addr mc then Inr (0, s)
        else if t = stype WLAN_FC_STYPE_PROBE_REQ then
          handled (bindE (start_report e False mgmt None s) (\<lambda>s. Inr (emit_ap (Other_frame sa t) s)))
        else if (\<not> is_broadcast_ether_addr da \<or> t \<noteq> WLAN_FC_STYPE_ACTION) \<and> da \<noteq> mc_own_addr mc then Inr (0, s)
        else if t = stype WLAN_FC_STYPE_AUTH then handled (handle_auth e conf mc mgmt s)
        else if t = stype WLAN_FC_STYPE_ASSOC_REQ then handled (handle_assoc e conf mc mgmt False s)
        else if t = stype WLAN_FC_STYPE_REASSOC_REQ then handled (handle_assoc e conf mc mgmt True s)
        else if t = stype WLAN_FC_STYPE_DISASSOC then handled (handle_disassoc e conf mc mgmt s)
        else if t = stype WLAN_FC_STYPE_DEAUTH then handled (handle_deauth e conf mgmt s)
        else if t = WLAN_FC_STYPE_ACTION then handle_action e mgmt s
        else Inr (0, s))))))"

section \<open>Frames that were sent\<close>

text \<open>The driver reports whether a frame of the access point was acknowledged. The handler of an
  authentication reply reads its members before it checks the length.\<close>

definition auth_acked :: "bool \<Rightarrow> u16 \<Rightarrow> sta_info \<Rightarrow> hap_iface \<Rightarrow> unit \<times> sta_info \<times> hap_iface" where
  "auth_acked done status_code sta i =
     (if done then
        let sta = sta\<lparr>sta_flags := sta_flags sta OR WLAN_STA_AUTH\<rparr>
        in ((), sta, emit_if (added_unassoc sta) (Set_sta_flags (sta_addr sta) (sta_flags sta)) i)
      else drop_unassoc (status_code \<noteq> WLAN_STATUS_SUCCESS \<and> added_unassoc sta) sta i)"

definition handle_auth_cb :: "buf \<Rightarrow> bool \<Rightarrow> access_point \<Rightarrow> access_point res" where
  "handle_auth_cb mgmt ok s =
     bindE (mgmt_da mgmt) (\<lambda>da.
     bindE (sender_with AUTHENTICATED da s) (\<lambda>info.
     if info = None then Inr s
     else bindE (ap_get_sta da (ap_hapd s)) (\<lambda>p.
       case p of
         None \<Rightarrow> Inr s
       | Some p \<Rightarrow>
           bindE (ld16 mgmt (offsetof ieee80211_mgmt [''auth'', ''auth_alg''])) (\<lambda>auth_alg.
           bindE (ld16 mgmt (offsetof ieee80211_mgmt [''auth'', ''auth_transaction''])) (\<lambda>auth_transaction.
           bindE (ld16 mgmt (offsetof ieee80211_mgmt [''auth'', ''status_code''])) (\<lambda>status_code.
           bindE (with_sta p (auth_acked (ok \<and> \<not> length mgmt < IEEE80211_HDRLEN + sizeof_auth \<and> status_code = WLAN_STATUS_SUCCESS \<and>
               (auth_alg = WLAN_AUTH_OPEN \<and> auth_transaction = 2 \<or> auth_alg = WLAN_AUTH_SHARED_KEY \<and> auth_transaction = 4)) status_code) s)
             (\<lambda>(_, s). Inr s)))))))"

definition assoc_acked :: "hap_conf \<Rightarrow> hap_env \<Rightarrow> bool \<Rightarrow> sta_info \<Rightarrow> hap_iface \<Rightarrow> unit \<times> sta_info \<times> hap_iface" where
  "assoc_acked conf he reassoc sta i =
     (let new_assoc = (sta_flags sta AND WLAN_STA_ASSOC = 0);
          (sta, i) = ack_association conf reassoc sta i;
          bind = (\<not> has_eapol_sm sta \<or> sta_vlan_id sta \<noteq> 0);
          i = emit_if bind (Bind_vlan (sta_addr sta)) i
      in if bind \<and> bind_vlan_ret he < 0 then ((), sta, i) else ((), finish_association he new_assoc sta i))"

definition assoc_not_acked :: "u16 \<Rightarrow> sta_info \<Rightarrow> hap_iface \<Rightarrow> unit \<times> sta_info \<times> hap_iface" where
  "assoc_not_acked status sta i = ((), sta\<lparr>sta_flags := sta_flags sta AND NOT WLAN_STA_ASSOC_REQ_OK\<rparr>,
     emit_if (status = WLAN_STATUS_SUCCESS) (Drv_sta_remove (sta_addr sta)) i)"

definition handle_assoc_cb :: "'e mgmt_env_scheme \<Rightarrow> hap_conf \<Rightarrow> buf \<Rightarrow> bool \<Rightarrow> bool \<Rightarrow> access_point \<Rightarrow> access_point res" where
  "handle_assoc_cb e conf mgmt reassoc ok s =
     bindE (mgmt_da mgmt) (\<lambda>da.
     bindE (sender_with ASSOCIATED da s) (\<lambda>info.
     if info = None then Inr s
     else bindE (ap_get_sta da (ap_hapd s)) (\<lambda>p.
       case p of
         None \<Rightarrow> Inr s
       | Some p \<Rightarrow>
           if length mgmt < IEEE80211_HDRLEN + sizeof_assoc_resp then Inr (emit_ap (Drv_sta_remove da) s)
           else bindE (ld16 mgmt (IEEE80211_HDRLEN + 2)) (\<lambda>status.
             if \<not> ok then bindE (with_sta p (assoc_not_acked status) s) (\<lambda>(_, s). Inr s)
             else if status \<noteq> WLAN_STATUS_SUCCESS then Inr s
             else bindE (with_sta p (assoc_acked conf (hap_results e) reassoc) s) (\<lambda>(_, s). Inr s)))))"

text \<open>The callbacks of the other types are not modelled: they end the deauthentications that the
  command line starts.\<close>

definition ieee802_11_mgmt_cb :: "'e mgmt_env_scheme \<Rightarrow> hap_conf \<Rightarrow> buf \<Rightarrow> nat \<Rightarrow> bool \<Rightarrow> access_point \<Rightarrow> access_point res" where
  "ieee802_11_mgmt_cb e conf mgmt t ok s =
     (if t = stype WLAN_FC_STYPE_AUTH then handle_auth_cb mgmt ok s
      else if t = WLAN_FC_STYPE_ASSOC_RESP then handle_assoc_cb e conf mgmt False ok s
      else if t = WLAN_FC_STYPE_REASSOC_RESP then handle_assoc_cb e conf mgmt True ok s
      else Inr s)"

section \<open>Stations that are silent\<close>

text \<open>What the driver says of the station (\<open>-1\<close>: not supported, \<open>-ENOENT\<close>: unknown), the random part of
  the delay, and the configuration.\<close>

record timer_env =
  inactive_sec :: int
  fuzz :: nat
  ap_max_inactivity :: int
  skip_inactivity_poll :: bool

definition ENOENT :: int where
  "ENOENT = 2"

text \<open>The next action and the delay until the timer, \<open>0\<close> for an action at once.\<close>

definition timer_inactivity :: "timer_env \<Rightarrow> sta_info \<Rightarrow> timeout_action \<times> int" where
  "timer_inactivity te sta =
     (let assoc = (sta_flags sta AND WLAN_STA_ASSOC \<noteq> 0);
          (skip_poll, next, next_time) =
            (if assoc \<and> (timeout_next sta = STA_NULLFUNC \<or> timeout_next sta = STA_DISASSOC) then
               if inactive_sec te = -1 then (False, timeout_next sta, ap_max_inactivity te + int (fuzz te))
               else if inactive_sec te = - ENOENT then (True, STA_DISASSOC, 0)
               else if inactive_sec te < ap_max_inactivity te
               then (False, STA_NULLFUNC, ap_max_inactivity te + int (fuzz te) - inactive_sec te)
               else (False, if skip_inactivity_poll te then STA_DISASSOC else timeout_next sta, 0)
             else (False, timeout_next sta, 0))
      in if \<not> skip_poll \<and> assoc \<and> next = STA_DISASSOC \<and> sta_flags sta AND WLAN_STA_PENDING_POLL = 0 \<and> \<not> skip_inactivity_poll te
         then (STA_NULLFUNC, ap_max_inactivity te) else (next, next_time))"

definition timer_frame :: "sta_info \<Rightarrow> hap_iface \<Rightarrow> sta_info \<times> hap_iface" where
  "timer_frame sta i =
     (let a = sta_addr sta; assoc = (sta_flags sta AND WLAN_STA_ASSOC \<noteq> 0) in
      if timeout_next sta = STA_NULLFUNC \<and> assoc
      then (sta\<lparr>sta_flags := sta_flags sta OR WLAN_STA_PENDING_POLL\<rparr>, emit (Drv_poll_client a) i)
      else if timeout_next sta \<noteq> STA_REMOVE then
        let sta = (if timeout_next sta \<noteq> STA_DEAUTH \<and> \<not> assoc then sta\<lparr>timeout_next := STA_DEAUTH\<rparr> else sta)
        in (sta, emit (if timeout_next sta = STA_DEAUTH then Drv_sta_deauth a else Drv_sta_disassoc a) i)
      else (sta, i))"

definition idle_cause :: "sta_info \<Rightarrow> sta_info" where
  "idle_cause sta = (if acct_terminate_cause sta = 0 then sta\<lparr>acct_terminate_cause := 4\<rparr> else sta)"

text \<open>The first component says that the station is freed.\<close>

definition timer_action :: "sta_info \<Rightarrow> hap_iface \<Rightarrow> bool \<times> sta_info \<times> hap_iface" where
  "timer_action sta i =
     (let a = sta_addr sta in
      case timeout_next sta of
        STA_NULLFUNC \<Rightarrow> (False, sta\<lparr>timeout_next := STA_DISASSOC\<rparr>, emit (Register_timer a) i)
      | STA_DEAUTH \<Rightarrow> (True, idle_cause sta, emit (Mlme_deauthenticate a) i)
      | STA_REMOVE \<Rightarrow> (True, idle_cause sta, emit (Mlme_deauthenticate a) i)
      | _ \<Rightarrow>
          let (sta, i) = ap_sta_set_authorized False sta i;
              sta = idle_cause (sta\<lparr>sta_flags := sta_flags sta AND NOT WLAN_STA_ASSOC\<rparr>);
              i = emit (Free_8021x a) (emit (Accounting_stop a) (emit (Port_enabled a False) i))
          in (False, sta\<lparr>has_eapol_sm := False, timeout_next := STA_DEAUTH\<rparr>, emit (Mlme_disassociate a) (emit (Register_timer a) i)))"

definition timer_step :: "timer_env \<Rightarrow> sta_info \<Rightarrow> hap_iface \<Rightarrow> bool \<times> sta_info \<times> hap_iface" where
  "timer_step te sta i =
     (if timeout_next sta = STA_REMOVE then (True, sta, i)
      else let (next, next_time) = timer_inactivity te sta; sta = sta\<lparr>timeout_next := next\<rparr> in
        if next_time \<noteq> 0 then (False, sta, emit (Register_timer (sta_addr sta)) i)
        else case timer_frame sta i of (sta, i) \<Rightarrow> timer_action sta i)"

definition ap_handle_timer :: "hap_conf \<Rightarrow> timer_env \<Rightarrow> nat \<Rightarrow> access_point \<Rightarrow> access_point res" where
  "ap_handle_timer conf te p s =
     bindE (with_sta p (timer_step te) s) (\<lambda>(gone, s). if gone then free_station conf p s else Inr s)"

end
