(* ===== verification/Hap_Mgmt.thy ===== *)
theory Hap_Mgmt
  imports Hap_Frames
begin

text \<open>
  What the handlers of management frames keep and what they achieve.

  \<^item> The admission of a station is a state machine that the controller opens: a station that it selected
    may authenticate, an authenticated one may associate, and an associated one may leave; every frame
    moves the sender along one edge or leaves the list as it is.
  \<^item> Every frame, callback and timer keeps the invariants of the access point and the association ids
    distinct, and changes no other station.
  \<^item> What an association request says of the station is what is reported to the controller.
  \<^item> An association that the driver refuses, and a station that is dropped for silence, leave the station
    in a status in which its next frames are ignored.
\<close>

section \<open>A free association id\<close>

lemma free_bit_free: "free_bit w < 32 \<Longrightarrow> \<not> bit w (free_bit w)"
proof (cases "List.find (\<lambda>j. w AND BIT j = 0) [0..<32]")
  case (Some j)
  assume "free_bit w < 32"
  have j: "w AND BIT j = 0" "j < 32" using find_SomeD [OF Some] by auto
  have "\<not> bit (w AND BIT j) j" by (simp add: j(1))
  then show ?thesis using Some j(2) by (simp add: free_bit_def bit_and_iff bit_BIT)
qed (simp add: free_bit_def)

lemma aid_slot_free:
  "aid_slot k m = Some (i, j) \<Longrightarrow> k \<le> i \<and> i - k < length m \<and> j < 32 \<and> \<not> bit (m ! (i - k)) j"
proof (induction m arbitrary: k)
  case (Cons w ws)
  show ?case
  proof (cases "w \<noteq> -1 \<and> free_bit w < 32")
    case True
    then show ?thesis using Cons.prems free_bit_free [of w] by (auto simp: Let_def)
  next
    case False
    then have "aid_slot (Suc k) ws = Some (i, j)" using Cons.prems by (auto simp: Let_def split: if_splits)
    then have "Suc k \<le> i \<and> i - Suc k < length ws \<and> j < 32 \<and> \<not> bit (ws ! (i - Suc k)) j" by (rule Cons.IH)
    then show ?thesis by (auto simp: nth_Cons' Suc_diff_le)
  qed
qed simp

section \<open>Steps on one station\<close>

text \<open>hostapd before and after a step on the station \<open>a\<close>.\<close>

definition hap_moves :: "mac \<Rightarrow> hapd \<Rightarrow> hapd \<Rightarrow> bool" where
  "hap_moves a h h' \<longleftrightarrow> hap_inv h' \<and> (\<forall>b. b \<noteq> a \<longrightarrow> hap_abs h' b = hap_abs h b) \<and> (aid_inv h \<longrightarrow> aid_inv h')"

lemma hap_moves_refl: "hap_inv h \<Longrightarrow> hap_moves a h h"
  by (simp add: hap_moves_def)

lemma hap_moves_trans: "hap_moves a h h1 \<Longrightarrow> hap_moves a h1 h2 \<Longrightarrow> hap_moves a h h2"
  by (simp add: hap_moves_def)

lemma small_aid: "n \<le> 2007 \<Longrightarrow> unat (word_of_nat n :: u16) = n"
  unfolding unat_of_nat by (intro mod_less) simp

lemma aid_inv_new:
  assumes inv: "aid_inv h" and y: "hap_abs h' = (hap_abs h)(a \<mapsto> y)" "sta_aid y = word_of_nat (i * 32 + j + 1)"
    and f: "i < length (hap_sta_aid h)" "j < 32" "\<not> bit (hap_sta_aid h ! i) j" "i * 32 + j + 1 \<le> 2007"
    and m: "hap_sta_aid h' = (hap_sta_aid h)[i := hap_sta_aid h ! i OR BIT j]"
  shows "aid_inv h'"
proof -
  have u: "unat (sta_aid y) = i * 32 + j + 1" unfolding y(2) by (rule small_aid [OF f(4)])
  have s: "(unat (sta_aid y) - 1) div 32 = i" "(unat (sta_aid y) - 1) mod 32 = j" using f(2) by (simp_all add: u)
  have used: "aid_used (hap_sta_aid h') c \<longleftrightarrow> aid_used (hap_sta_aid h) c \<or> c = sta_aid y" if "c \<noteq> 0" for c
  proof (cases "(unat c - 1) div 32 = i")
    case True
    have "c = sta_aid y \<longleftrightarrow> (unat c - 1) mod 32 = j" using aid_slots_differ [OF that, of "sta_aid y"] s True u by (metis add_is_0 one_neq_zero unat_eq_0)
    then show ?thesis using True f(1) by (auto simp: m aid_used_def bit_or_iff bit_BIT)
  qed (use s f(1) in \<open>auto simp: m aid_used_def\<close>)
  have "\<not> aid_used (hap_sta_aid h) (sta_aid y)" using f(3) s by (simp add: aid_used_def)
  moreover have "sta_aid y \<noteq> 0" using u by auto
  ultimately have "sta_aid t \<noteq> sta_aid y" if "hap_abs h b = Some t" for b t using inv that unfolding aid_inv_def by metis
  then have "hap_abs h' b = Some t \<Longrightarrow> hap_abs h' c = Some u \<Longrightarrow> sta_aid t \<noteq> 0 \<Longrightarrow> sta_aid t = sta_aid u \<Longrightarrow> b = c" for b c t u
    using inv y(1) unfolding aid_inv_def by (metis fun_upd_apply option.inject)
  moreover have "aid_used (hap_sta_aid h') (sta_aid t)" if "hap_abs h' b = Some t" "sta_aid t \<noteq> 0" for b t
    using inv y(1) used [OF that(2)] that unfolding aid_inv_def by (cases "b = a") auto
  ultimately show ?thesis unfolding aid_inv_def by blast
qed

lemma sta_ok_aid: "sta_ok w x \<Longrightarrow> length (sta_supported_rates y) = 32 \<Longrightarrow> sta_aid y = sta_aid x \<Longrightarrow> sta_ok w y"
  by (simp add: sta_ok_def WLAN_SUPP_RATES_MAX_def)

lemma found_rates: "hap_inv h \<Longrightarrow> hap_find h a = Some (p, x) \<Longrightarrow> length (sta_supported_rates x) = 32"
  using find_in_contents(2) by (force simp: sta_ok_def WLAN_SUPP_RATES_MAX_def)

text \<open>A step keeps the counters in balance, the id, and the size of the array of rates.\<close>

definition sta_same :: "sta_info \<times> hap_iface \<Rightarrow> sta_info \<times> hap_iface \<Rightarrow> bool" where
  "sta_same a b \<longleftrightarrow> balanced a b \<and> sta_aid (fst b) = sta_aid (fst a) \<and>
     (length (sta_supported_rates (fst a)) = 32 \<longrightarrow> length (sta_supported_rates (fst b)) = 32)"

lemma sta_same_trans: "sta_same a b \<Longrightarrow> sta_same b c \<Longrightarrow> sta_same a c"
  unfolding sta_same_def using balanced_trans by fastforce

lemma sta_same_caps: "balanced a b \<Longrightarrow> same_caps (fst a) (fst b) \<Longrightarrow> sta_same a b"
  by (simp add: sta_same_def same_caps_def)

definition step_ok :: "(sta_info \<Rightarrow> hap_iface \<Rightarrow> 'r \<times> sta_info \<times> hap_iface) \<Rightarrow> bool" where
  "step_ok f \<longleftrightarrow> (\<forall>x i r b. f x i = (r, b) \<longrightarrow> sta_same (x, i) b)"

text \<open>What a handler knows of its station while it runs.\<close>

definition holds_sta :: "mac \<Rightarrow> nat \<Rightarrow> access_point \<Rightarrow> bool" where
  "holds_sta a p s \<longleftrightarrow> hap_inv (ap_hapd s) \<and> (\<exists>x. hap_find (ap_hapd s) a = Some (p, x))"

definition quiet :: "mac \<Rightarrow> access_point \<Rightarrow> access_point \<Rightarrow> bool" where
  "quiet a s s' \<longleftrightarrow> (\<exists>h. s' = s\<lparr>ap_hapd := h\<rparr> \<and> hap_moves a (ap_hapd s) h)"

lemma quiet_refl: "hap_inv (ap_hapd s) \<Longrightarrow> quiet a s s"
  unfolding quiet_def using hap_moves_refl by (intro exI [of _ "ap_hapd s"]) simp

lemma quiet_trans: "quiet a s t \<Longrightarrow> quiet a t u \<Longrightarrow> quiet a s u"
  unfolding quiet_def using hap_moves_trans by (elim exE conjE) (fastforce)

lemma with_sta_run:
  assumes inv: "hap_inv (ap_hapd s)" and f: "hap_find (ap_hapd s) a = Some (p, x)" and r: "f x (iface (ap_hapd s)) = (r, y, i)"
    and same: "sta_same (x, iface (ap_hapd s)) (y, i)"
  shows "\<exists>h. with_sta p f s = Inr (r, s\<lparr>ap_hapd := h\<rparr>) \<and> hap_moves a (ap_hapd s) h \<and> hap_find h a = Some (p, y) \<and>
    iface h = i \<and> hap_sta_aid h = hap_sta_aid (ap_hapd s) \<and> hap_abs h = (hap_abs (ap_hapd s))(a \<mapsto> y)"
proof -
  have b: "balanced (x, iface (ap_hapd s)) (y, i)" "sta_aid y = sta_aid x" "length (sta_supported_rates y) = 32"
    using same found_rates [OF inv f] by (simp_all add: sta_same_def)
  have ok: "sta_ok (length (hap_sta_aid (ap_hapd s))) y" by (rule sta_ok_aid [OF find_in_contents(2) [OF inv f] b(3,2)])
  obtain h where h: "set_sta p y ((ap_hapd s)\<lparr>iface := i\<rparr>) = Inr h" "hap_inv h" "hap_abs h = (hap_abs (ap_hapd s))(a \<mapsto> y)"
    "hap_find h a = Some (p, y)" "iface h = i" "hap_sta_aid h = hap_sta_aid (ap_hapd s)"
    using hap_set [OF inv f b(1) ok] by blast
  have "hap_abs (ap_hapd s) a = Some x" using f by (simp add: hap_abs_def)
  then have "aid_inv (ap_hapd s) \<longrightarrow> aid_inv h" using aid_inv_set [OF _ h(3,6)] b(2) by blast
  then have "hap_moves a (ap_hapd s) h" using h(2,3) by (simp add: hap_moves_def)
  then show ?thesis using h r sta_at_find(1) [OF inv f] by (intro exI [of _ h]) (simp add: with_sta_def)
qed

section \<open>Outcomes\<close>

text \<open>Every outcome of a run: what may stop it, and what holds of its result.\<close>

definition runs :: "(stop \<Rightarrow> bool) \<Rightarrow> ('a \<Rightarrow> bool) \<Rightarrow> 'a res \<Rightarrow> bool" where
  "runs B P r \<longleftrightarrow> (case r of Inl f \<Rightarrow> B f | Inr x \<Rightarrow> P x)"

lemma runs_simps [simp]: "runs B P (Inl f) = B f" "runs B P (Inr x) = P x"
  by (simp_all add: runs_def)

lemma runs_bind: "runs B Q r \<Longrightarrow> (\<And>x. Q x \<Longrightarrow> runs B P (k x)) \<Longrightarrow> runs B P (bindE r k)"
  by (cases r) auto

lemma runs_mono: "runs B Q r \<Longrightarrow> (\<And>x. Q x \<Longrightarrow> P x) \<Longrightarrow> runs B P r"
  by (cases r) auto

lemma runs_with_sta:
  assumes "step_ok f" "holds_sta a p s" "\<And>r s'. quiet a s s' \<Longrightarrow> holds_sta a p s' \<Longrightarrow> runs B P (k (r, s'))"
  shows "runs B P (bindE (with_sta p f s) k)"
proof -
  obtain x where x: "hap_inv (ap_hapd s)" "hap_find (ap_hapd s) a = Some (p, x)" using assms(2) by (auto simp: holds_sta_def)
  obtain r y i where f: "f x (iface (ap_hapd s)) = (r, y, i)" by (metis prod_cases3)
  obtain h where h: "with_sta p f s = Inr (r, s\<lparr>ap_hapd := h\<rparr>)" "hap_moves a (ap_hapd s) h" "hap_find h a = Some (p, y)"
    using with_sta_run [where f = f, OF x f] assms(1) f unfolding step_ok_def by blast
  have "quiet a s (s\<lparr>ap_hapd := h\<rparr>)" "holds_sta a p (s\<lparr>ap_hapd := h\<rparr>)"
    using h(2,3) by (auto simp: quiet_def holds_sta_def hap_moves_def)
  then show ?thesis using assms(3) h(1) by simp
qed

section \<open>The steps\<close>

named_theorems steps

lemma step_okI: "(\<And>x i. sta_same (x, i) (snd (f x i))) \<Longrightarrow> step_ok f"
  unfolding step_ok_def by (metis snd_conv)

lemma sta_same_refl [simp]: "sta_same a a"
  by (simp add: sta_same_def balanced_def)

lemma emit_same [simp]: "sta_same a (y, emit ev i) = sta_same a (y, i)" "sta_same a (y, emit_if c ev i) = sta_same a (y, i)"
  by (simp_all add: sta_same_def balanced_def)

text \<open>Members that the invariants do not speak of.\<close>

lemma upd_same [simp]:
  "sta_same a (y\<lparr>sta_flags := v1\<rparr>, i) = sta_same a (y, i)" "sta_same a (y\<lparr>last_seq_ctrl := v2\<rparr>, i) = sta_same a (y, i)"
  "sta_same a (y\<lparr>last_subtype := v3\<rparr>, i) = sta_same a (y, i)" "sta_same a (y\<lparr>added_unassoc := v4\<rparr>, i) = sta_same a (y, i)"
  "sta_same a (y\<lparr>sta_auth_alg := v5\<rparr>, i) = sta_same a (y, i)" "sta_same a (y\<lparr>sta_challenge := v6\<rparr>, i) = sta_same a (y, i)"
  "sta_same a (y\<lparr>has_psk := v7\<rparr>, i) = sta_same a (y, i)" "sta_same a (y\<lparr>has_identity := v7\<rparr>, i) = sta_same a (y, i)"
  "sta_same a (y\<lparr>has_radius_cui := v7\<rparr>, i) = sta_same a (y, i)" "sta_same a (y\<lparr>timeout_next := v8\<rparr>, i) = sta_same a (y, i)"
  "sta_same a (y\<lparr>pending_wds_enable := v7\<rparr>, i) = sta_same a (y, i)" "sta_same a (y\<lparr>acct_terminate_cause := v9\<rparr>, i) = sta_same a (y, i)"
  "sta_same a (y\<lparr>has_eapol_sm := v7\<rparr>, i) = sta_same a (y, i)" "sta_same a (y\<lparr>sta_listen_interval := v10\<rparr>, i) = sta_same a (y, i)"
  "sta_same a (y\<lparr>sta_capability := v10\<rparr>, i) = sta_same a (y, i)"
  by (simp_all add: sta_same_def balanced_def)

lemma authorized_same: "ap_sta_set_authorized b x i = (y, j) \<Longrightarrow> sta_same (x, i) (y, j)"
  by (auto simp: ap_sta_set_authorized_def split: if_splits)

lemma drop_unassoc_same: "sta_same a (snd (drop_unassoc c x i)) = sta_same a (x, i)"
  by (simp add: drop_unassoc_def)

lemma auth_prepare_ok [steps]: "step_ok (auth_prepare e conf seq)"
proof (rule step_okI)
  fix x :: sta_info and i
  let ?x = "x\<lparr>last_seq_ctrl := seq, last_subtype := word_of_nat (stype WLAN_FC_STYPE_AUTH)\<rparr>"
  show "sta_same (x, i) (snd (auth_prepare e conf seq x i))"
  proof (cases "set_radius_info e ?x")
    case None
    then show ?thesis by (simp add: auth_prepare_def)
  next
    case (Some y)
    let ?y = "y\<lparr>sta_flags := sta_flags y AND NOT WLAN_STA_PREAUTH\<rparr>"
    have y: "sta_same (x, i) (?y, emit (Notify_pre_auth (sta_addr ?y) False) i)" using Some by (auto simp: set_radius_info_def split: if_splits)
    obtain f z j where r: "readd_to_driver conf (hap_results e) ?y (emit (Notify_pre_auth (sta_addr ?y) False) i) = (f, z, j)"
      by (metis prod_cases3)
    have "sta_same (?y, emit (Notify_pre_auth (sta_addr ?y) False) i) (z, j)"
      by (rule sta_same_caps [OF readd_balanced [OF r]]) (use readd_keeps(1) [OF r] in simp)
    then show ?thesis using sta_same_trans [OF y] Some r by (simp add: auth_prepare_def Let_def)
  qed
qed

lemma auth_open_ok [steps]: "step_ok auth_open"
  by (rule step_okI) (simp add: auth_open_def)

lemma auth_indicate_ok [steps]: "step_ok auth_indicate"
  by (rule step_okI) (simp add: auth_indicate_def)

lemma auth_shared_ok [steps]: "step_ok (auth_shared e t c w)"
  by (rule step_okI) (auto simp: auth_shared_def auth_shared_key_def Let_def split: option.split)

lemma drop_ok [steps]: "step_ok (\<lambda>x. drop_unassoc (c x) x)"
  by (rule step_okI) (simp add: drop_unassoc_same)

lemma add_associated_same: "add_associated_sta e x i = (r, y, j) \<Longrightarrow> sta_same (x, i) (y, j)"
  by (auto simp: add_associated_sta_def drop_unassoc_def Let_def split: if_splits)

lemma assoc_reply_ok [steps]: "step_ok (assoc_reply e re a resp)"
proof (rule step_okI)
  fix x :: sta_info and i
  obtain r y j where "add_associated_sta e x i = (r, y, j)" by (metis prod_cases3)
  then show "sta_same (x, i) (snd (assoc_reply e re a resp x i))"
    using add_associated_same by (auto simp: assoc_reply_def Let_def drop_unassoc_same)
qed

lemma assoc_accept_ok [steps]: "step_ok (assoc_accept conf li)"
proof (rule step_okI)
  fix x :: sta_info and i
  obtain x1 i1 where 1: "update_nonerp conf (x\<lparr>sta_listen_interval := li\<rparr>) i = (x1, i1)" by (metis prod.exhaust)
  obtain x2 i2 where 2: "update_slot_time conf x1 i1 = (x2, i2)" by (metis prod.exhaust)
  obtain x3 i3 where 3: "update_preamble conf x2 i2 = (x3, i3)" by (metis prod.exhaust)
  have a: "sta_same (x\<lparr>sta_listen_interval := li\<rparr>, i) (x1, i1)"
    using sta_same_caps [OF nonerp_balanced [of "x\<lparr>sta_listen_interval := li\<rparr>" i conf]] nonerp_keeps(1) by (metis 1 fst_conv)
  have b: "sta_same (x1, i1) (x2, i2)"
    using sta_same_caps [OF slot_time_balanced [of x1 i1 conf]] slot_time_keeps(1) by (metis 2 fst_conv)
  have c: "sta_same (x2, i2) (x3, i3)"
    using sta_same_caps [OF preamble_balanced [of x2 i2 conf]] preamble_keeps(1) by (metis 3 fst_conv)
  have "sta_same (x, i) (x\<lparr>sta_listen_interval := li\<rparr>, i)" by simp
  then have "sta_same (x, i) (x3, i3)" using a b c sta_same_trans by blast
  then show "sta_same (x, i) (snd (assoc_accept conf li x i))" by (simp add: assoc_accept_def 1 2 3)
qed

lemma disassoc_flags_ok [steps]: "step_ok (disassoc_flags c ev)"
  by (rule step_okI) (auto simp: disassoc_flags_def split: prod.split dest: authorized_same)

lemma disassoc_ok [steps]: "step_ok disassoc_sessions" "step_ok disassoc_timers"
  by (rule step_okI, simp add: disassoc_sessions_def disassoc_timers_def Let_def)+

lemma plain_ok [steps]:
  "step_ok (\<lambda>x i. (g x, x\<lparr>sta_flags := u x\<rparr>, i))"
  "step_ok (\<lambda>x i. (g x, x\<lparr>sta_flags := u x\<rparr>, emit (ev x) i))"
  "step_ok (\<lambda>x i. (g x, x\<lparr>acct_terminate_cause := t\<rparr>, emit (ev x) (emit (ev' x) i)))"
  "step_ok (\<lambda>x i. (g x, x\<lparr>timeout_next := nx, pending_wds_enable := False\<rparr>, i))"
  by (rule step_okI, simp)+

lemma check_action_ok [steps]: "step_ok (check_action fc sq c)"
  by (rule step_okI) (simp add: check_action_def)

lemma auth_acked_ok [steps]: "step_ok (auth_acked d st)"
  by (rule step_okI) (simp add: auth_acked_def drop_unassoc_same Let_def)

lemma assoc_not_acked_ok [steps]: "step_ok (assoc_not_acked st)"
  by (rule step_okI) (simp add: assoc_not_acked_def)

lemma assoc_acked_ok [steps]: "step_ok (assoc_acked conf he re)"
proof (rule step_okI)
  fix x :: sta_info and i
  obtain y j where 1: "ack_association conf re x i = (y, j)" by (metis prod.exhaust)
  have a: "sta_same (x, i) (y, j)" using sta_same_caps [OF ack_balanced [of x i conf re]] ack_keeps(1) by (metis 1 fst_conv)
  have f: "sta_same (y, k) (finish_association he n y k)" for k n
    using sta_same_caps [OF finish_balanced [of y k he n]] finish_keeps(1) by (metis fst_conv)
  have "sta_same (x, i) (y, emit_if c ev j)" for c ev using a by simp
  then have "sta_same (x, i) (finish_association he n y (emit_if c ev j))" for n c ev using sta_same_trans [OF _ f] by blast
  then show "sta_same (x, i) (snd (assoc_acked conf he re x i))" using a by (auto simp: assoc_acked_def 1 Let_def)
qed

lemma timer_action_same: "sta_same (x, i) (snd (timer_action x i))"
  by (auto simp: timer_action_def idle_cause_def Let_def split: timeout_action.split prod.split dest: authorized_same)

lemma timer_frame_same: "sta_same (x, i) (timer_frame x i)"
  by (simp add: timer_frame_def Let_def)

lemma timer_step_ok [steps]: "step_ok (timer_step te)"
proof (rule step_okI)
  fix x :: sta_info and i
  obtain nx t where n: "timer_inactivity te x = (nx, t)" by (metis prod.exhaust)
  obtain y j where y: "timer_frame (x\<lparr>timeout_next := nx\<rparr>) i = (y, j)" by (metis prod.exhaust)
  have "sta_same (x, i) (x\<lparr>timeout_next := nx\<rparr>, i)" by simp
  then have "sta_same (x, i) (snd (timer_action y j))"
    using timer_frame_same [of "x\<lparr>timeout_next := nx\<rparr>" i] timer_action_same [of y j] sta_same_trans unfolding y by blast
  then show "sta_same (x, i) (snd (timer_step te x i))" by (simp add: timer_step_def n y Let_def)
qed

section \<open>The parts of a handler\<close>

definition memory :: "'e mgmt_env_scheme \<Rightarrow> bool" where
  "memory e \<longleftrightarrow> (\<forall>n. malloc_ok e n) \<and> calloc_ok e 6"

text \<open>What may stop a handler on a frame of the station \<open>a\<close>: memory or a thread that is refused, or an
  address for which the station list has no slot.\<close>

definition mgmt_fault :: "'e mgmt_env_scheme \<Rightarrow> nat \<Rightarrow> mac \<Rightarrow> stop \<Rightarrow> bool" where
  "mgmt_fault e m a f \<longleftrightarrow> f = NullDeref \<and> \<not> memory e \<or> f = Exit (-1) \<and> \<not> pthread_ok e \<or> f = OutOfBounds \<and> \<not> MAC_HASH a < m"

definition gated :: "nat \<Rightarrow> mac \<Rightarrow> STAStatus \<Rightarrow> nat \<Rightarrow> access_point \<Rightarrow> bool" where
  "gated m a u q s \<longleftrightarrow> (\<exists>c l i. ap_controller s = Live c \<and> staList s = Live l \<and> stas_ok m l \<and>
     lookupSenderSTA a l = Inr (Some q) \<and> sta_abs l a = Some i \<and> si_status i = u)"

definition turned :: "nat \<Rightarrow> mac \<Rightarrow> (STAStatus \<times> STAStatus) set \<Rightarrow> buf \<Rightarrow> access_point \<Rightarrow> access_point \<Rightarrow> bool" where
  "turned m a T mgmt s s' \<longleftrightarrow> (\<exists>l i v l' hs. staList s = Live l \<and> sta_abs l a = Some i \<and> (si_status i, v) \<in> T \<and>
     stas_ok m l' \<and> sta_abs l' = (sta_abs l)(a \<mapsto> set_status v i) \<and> (\<forall>h \<in> set hs. mh_mgmt h = mgmt) \<and>
     s' = s\<lparr>staList := Live l', sta_msg_threads := sta_msg_threads s @ hs\<rparr>)"

text \<open>A frame changes the stations of hostapd only, or in between moves its sender along an edge of \<open>T\<close>.\<close>

definition frame_done :: "nat \<Rightarrow> mac \<Rightarrow> (STAStatus \<times> STAStatus) set \<Rightarrow> buf \<Rightarrow> access_point \<Rightarrow> access_point \<Rightarrow> bool" where
  "frame_done m a T mgmt s s' \<longleftrightarrow> quiet a s s' \<or> (\<exists>s1 s2. quiet a s s1 \<and> turned m a T mgmt s1 s2 \<and> quiet a s2 s')"

lemma runs_gate:
  assumes up: "ap_up m s"
  shows "runs (mgmt_fault e m a) (\<lambda>info. \<forall>q. info = Some q \<longrightarrow> gated m a u q s) (sender_with u a s)"
proof -
  obtain c l where c: "ap_controller s = Live c" "staList s = Live l" "stas_ok m l" using up by (auto simp: ap_up_def)
  show ?thesis
  proof (cases "MAC_HASH a < m")
    case False
    then show ?thesis using lookupSenderSTA_bounds [of m l a] c
      by (simp add: sender_with_def ap_lookupSTA_def ap_stations_def mgmt_fault_def stas_ok_def)
  next
    case True
    have L: "lookupSenderSTA a l = Inr (map_option fst (sta_find l a))" by (rule lookupSenderSTA_eq [OF _ True]) (use c in \<open>simp add: stas_ok_def\<close>)
    show ?thesis
    proof (cases "sta_find l a")
      case (Some y)
      then have q: "lookupSenderSTA a l = Inr (Some (fst y))" using L by simp
      obtain x where "sta_abs l a = Some x" "get_sta (fst y) l = Inr x" by (rule lookup_Some [OF c(3) q])
      then show ?thesis using c q by (simp add: sender_with_def ap_lookupSTA_def ap_stations_def ap_info_def gated_def)
    qed (use c L in \<open>simp add: sender_with_def ap_lookupSTA_def ap_stations_def\<close>)
  qed
qed

lemma gated_quiet: "gated m a u q s \<Longrightarrow> quiet a s s' \<Longrightarrow> gated m a u q s'"
  by (auto simp: gated_def quiet_def)

lemma status_run:
  assumes g: "gated m a u q s"
  obtains l i l' where "staList s = Live l" "sta_abs l a = Some i" "si_status i = u" "stas_ok m l'"
    "sta_abs l' = (sta_abs l)(a \<mapsto> set_status v i)" "on_stations (changeStatus q v) s = Inr (s\<lparr>staList := Live l'\<rparr>)"
proof -
  obtain c l i where c: "ap_controller s = Live c" "staList s = Live l" "stas_ok m l"
    "lookupSenderSTA a l = Inr (Some q)" "sta_abs l a = Some i" "si_status i = u" using g by (auto simp: gated_def)
  obtain j where "sta_abs l a = Some j" "info_ok j" by (rule lookup_Some [OF c(3,4)])
  then have i: "si_address (set_status v i) = si_address i" "info_ok (set_status v i)" using c(5) set_status_ok by simp_all
  obtain l' where l': "upd_sta (set_status v) q l = Inr l'" "stas_ok m l'" "sta_abs l' = (sta_abs l)(a \<mapsto> set_status v i)"
    using upd_sta_ok [where f = "set_status v", OF c(3,4,5) i] by blast
  have "on_stations (changeStatus q v) s = Inr (s\<lparr>staList := Live l'\<rparr>)"
    using c(1,2) l'(1) by (simp add: on_stations_def ap_stations_def changeStatus_def)
  then show thesis using that c l' by blast
qed

lemma runs_turn:
  assumes g: "gated m a u q s" and T: "(u, v) \<in> T" and h: "holds_sta a p s"
    and k: "\<And>s'. turned m a T mgmt s s' \<Longrightarrow> ap_hapd s' = ap_hapd s \<Longrightarrow> holds_sta a p s' \<Longrightarrow> runs (mgmt_fault e m a) P (k s')"
  shows "runs (mgmt_fault e m a) P (bindE (on_stations (changeStatus q v) s) (\<lambda>s. bindE (start_report e x mgmt r s) k))"
proof -
  obtain l i l' where c: "staList s = Live l" "sta_abs l a = Some i" "si_status i = u"
    and l': "stas_ok m l'" "sta_abs l' = (sta_abs l)(a \<mapsto> set_status v i)"
    and o: "on_stations (changeStatus q v) s = Inr (s\<lparr>staList := Live l'\<rparr>)"
    by (rule status_run [OF g])
  define hd where "hd = (if pthread_ok e then [\<lparr>mh_mgmt = mgmt, mh_len = length mgmt, mh_sta = r\<rparr>] else [])"
  let ?s = "s\<lparr>staList := Live l', sta_msg_threads := sta_msg_threads s @ hd\<rparr>"
  have "turned m a T mgmt s ?s"
    unfolding turned_def by (rule exI [of _ l], rule exI [of _ i], rule exI [of _ v], rule exI [of _ l'], rule exI [of _ hd])
      (use c l' T in \<open>simp add: hd_def\<close>)
  then have "runs (mgmt_fault e m a) P (k ?s)" using h by (intro k) (simp_all add: holds_sta_def)
  then show ?thesis unfolding o
    by (auto simp: start_report_def mgmt_fault_def memory_def hd_def spawn_def)
qed

lemma emit_moves: "hap_inv h \<Longrightarrow> hap_moves a h (h\<lparr>iface := emit ev (iface h)\<rparr>)"
  by (simp add: hap_moves_def hap_inv_def counters_def hap_abs_def aid_inv_def)

lemma emit_quiet: "hap_inv (ap_hapd s) \<Longrightarrow> quiet a s (emit_ap ev s)"
  unfolding quiet_def emit_ap_def using emit_moves by blast

lemma emit_holds: "holds_sta a p s \<Longrightarrow> holds_sta a p (emit_ap ev s)"
  using emit_moves by (auto simp: holds_sta_def emit_ap_def hap_moves_def)

lemma quiet_inv: "quiet a s s' \<Longrightarrow> hap_inv (ap_hapd s')"
  by (auto simp: quiet_def hap_moves_def)

lemma holds_inv: "holds_sta a p s \<Longrightarrow> hap_inv (ap_hapd s)"
  by (simp add: holds_sta_def)

lemma offsets_mgmt2 [layout_simps]:
  "offsetof ieee80211_mgmt [''bssid''] = 16" "offsetof ieee80211_mgmt [''seq_ctrl''] = 22"
  "offsetof ieee80211_mgmt [''auth'', ''auth_transaction''] = 26" "offsetof ieee80211_mgmt [''auth'', ''status_code''] = 28"
  by (simp_all add: offsetof_def round_up_def numeral_2_eq_2 [symmetric] ieee80211_mgmt_def)

lemma mgmt_reads:
  assumes "24 \<le> length mgmt"
  shows "mgmt_sa mgmt = Inr (frame_sa mgmt)" "\<exists>x. mgmt_da mgmt = Inr x" "\<exists>x. mgmt_bssid mgmt = Inr x" "\<exists>x. frame_fc mgmt = Inr x" "\<exists>x. frame_seq_ctrl mgmt = Inr x"
  using assms by (simp_all add: mgmt_sa_def mgmt_da_def mgmt_bssid_def frame_fc_def frame_seq_ctrl_def ld_mac_def ld16_def frame_sa_def layout_simps)

definition auth_frame :: "mac \<Rightarrow> mac \<Rightarrow> mac \<Rightarrow> u16 \<Rightarrow> u16 \<Rightarrow> u16 \<Rightarrow> buf \<Rightarrow> buf" where
  "auth_frame da sa bssid alg tr resp ies =
     [0xb0, 0, 0, 0] @ mac_bytes da @ mac_bytes sa @ mac_bytes bssid @ [0, 0] @ bytes16 alg @ bytes16 tr @ bytes16 resp @ ies"

lemma send_auth_reply_eq:
  "send_auth_reply e mc dst bssid alg tr resp ies s =
     Inr (if malloc_ok e (30 + length ies)
          then (if mlme_ret e < 0 then 1 else 0, emit_ap (Send_mlme (auth_frame dst (mc_own_addr mc) bssid alg tr resp ies)) s) else (-1, s))"
proof -
  have b: "bytes16 (16 * word_of_nat (stype WLAN_FC_STYPE_AUTH)) = [0xb0, 0]"
    by (simp add: bytes16_def stype_def enum_val_def fc_stype_vals_def byte_of_def)
  have z: "zeroed (30 + n) = replicate 30 0 @ replicate n 0" for n by (simp add: zeroed_def replicate_add)
  have "puts (zeroed (30 + length ies)) [(0, [0xb0, 0]), (4, mac_bytes dst), (10, mac_bytes (mc_own_addr mc)), (16, mac_bytes bssid),
      (24, bytes16 alg), (26, bytes16 tr), (28, bytes16 resp), (30, ies)] = Inr (auth_frame dst (mc_own_addr mc) bssid alg tr resp ies)"
    unfolding z by (cases dst; cases "mc_own_addr mc"; cases bssid)
      (simp add: wr_def splice_def auth_frame_def bytes16_def numeral_eq_Suc)
  then show ?thesis by (simp add: send_auth_reply_def IEEE80211_HDRLEN_def sizeof_auth_def layout_simps b Let_def)
qed

lemma runs_auth_finish:
  assumes l: "24 \<le> length mgmt" and inv: "hap_inv (ap_hapd s)" and p: "\<And>q. p = Some q \<Longrightarrow> holds_sta a q s"
  shows "runs B (quiet a s) (auth_finish e mc mgmt alg tr resp ies p s)"
proof -
  obtain b where b: "mgmt_bssid mgmt = Inr b" using mgmt_reads(3) [OF l] by blast
  obtain r t where t: "send_auth_reply e mc (frame_sa mgmt) b alg (tr + 1) resp ies s = Inr (r, t)" "t = s \<or> (\<exists>ev. t = emit_ap ev s)"
    by (cases "malloc_ok e (30 + length ies)") (auto simp: send_auth_reply_eq)
  have q: "quiet a s t" using t(2) inv quiet_refl emit_quiet by blast
  show ?thesis
  proof (cases p)
    case None
    then show ?thesis using mgmt_reads(1) [OF l] b t(1) q by (simp add: auth_finish_def)
  next
    case (Some k)
    then have "holds_sta a k t" using t(2) p emit_holds by blast
    then have "runs B (quiet a s) (bindE (with_sta k (\<lambda>sta. drop_unassoc (added_unassoc sta \<and> (resp \<noteq> WLAN_STATUS_SUCCESS \<or> r \<noteq> 0)) sta) t) (\<lambda>(_, s). Inr s))"
      by (rule runs_with_sta [OF drop_ok]) (use quiet_trans [OF q] in simp)
    then show ?thesis using mgmt_reads(1) [OF l] b t(1) Some by (simp add: auth_finish_def)
  qed
qed

lemma runs_assoc_finish:
  assumes inv: "hap_inv (ap_hapd s)" and p: "\<And>q. p = Some q \<Longrightarrow> holds_sta a q s"
  shows "runs B (quiet a s) (assoc_finish e re sa resp p s)"
proof (cases p)
  case (Some k)
  have "runs B (quiet a s) (bindE (with_sta k (assoc_reply e re sa resp) s) (\<lambda>(_, s). Inr s))"
    by (rule runs_with_sta [OF assoc_reply_ok p [OF Some]]) simp
  then show ?thesis using Some by (simp add: assoc_finish_def)
qed (use emit_quiet [OF inv] in \<open>simp add: assoc_finish_def\<close>)

lemma runs_sta_add:
  assumes inv: "hap_inv (ap_hapd s)"
    and k: "\<And>p h. quiet a s (s\<lparr>ap_hapd := h\<rparr>) \<Longrightarrow> (\<And>q. p = Some q \<Longrightarrow> holds_sta a q (s\<lparr>ap_hapd := h\<rparr>)) \<Longrightarrow> runs B P (k (p, h))"
  shows "runs B P (bindE (ap_sta_add conf he a (ap_hapd s)) k)"
proof (cases "hap_find (ap_hapd s) a")
  case (Some y)
  then have "ap_sta_add conf he a (ap_hapd s) = Inr (Some (fst y), ap_hapd s)" using ap_get_sta_eq [OF inv] by (simp add: ap_sta_add_def)
  then show ?thesis using k [of "ap_hapd s" "Some (fst y)"] quiet_refl [OF inv] inv Some by (cases y) (simp add: holds_sta_def)
next
  case None
  show ?thesis
  proof (rule ap_sta_add_outcome [OF inv None, where conf = conf and he = he], goal_cases full new)
    case full
    then show ?thesis using k [of "ap_hapd s" None] quiet_refl [OF inv] by simp
  next
    case new: (new q h)
    have "sta_aid (hap_new a) = 0" by (simp add: hap_new_def zeroed_sta_def)
    then have "hap_moves a (ap_hapd s) h" using new(2,4,5) aid_inv_set [of "ap_hapd s" h a "hap_new a"] by (auto simp: hap_moves_def)
    then have "quiet a s (s\<lparr>ap_hapd := h\<rparr>)" by (auto simp: quiet_def)
    then show ?thesis using k [of h "Some q"] new(1,2,3) by (auto simp: holds_sta_def)
  qed
qed

lemma new_aid_run:
  assumes inv: "hap_inv h" and x: "hap_find h a = Some (p, x)" "\<not> sta_aid x > 0"
    and ij: "aid_slot 0 (hap_sta_aid h) = Some (i, j)" "i * 32 + j + 1 \<le> 2007"
  shows "\<exists>h'. hostapd_get_aid p h = Inr (0, h') \<and> hap_moves a h h' \<and> hap_find h' a = Some (p, x\<lparr>sta_aid := word_of_nat (i * 32 + j + 1)\<rparr>)"
proof -
  have f: "i < length (hap_sta_aid h)" "j < 32" "\<not> bit (hap_sta_aid h ! i) j" using aid_slot_free [OF ij(1)] by simp_all
  let ?m = "(hap_sta_aid h)[i := hap_sta_aid h ! i OR BIT j]" and ?y = "x\<lparr>sta_aid := word_of_nat (i * 32 + j + 1)\<rparr>"
  let ?g = "h\<lparr>hap_sta_aid := ?m\<rparr>"
  have "sta_aid (x\<lparr>sta_aid := w\<rparr>) = w" for w by simp
  then have u: "unat (sta_aid ?y) = i * 32 + j + 1" by (simp only: small_aid [OF ij(2)])
  have g: "hap_inv ?g" "hap_find ?g a = Some (p, x)" using inv x(1) by (simp_all add: hap_inv_def)
  have "i * 32 + j + 1 \<le> 32 * length (hap_sta_aid h)" using f(1,2) by simp
  then have ok: "sta_ok (length (hap_sta_aid ?g)) ?y" using u find_in_contents(2) [OF inv x(1)] by (simp add: sta_ok_def)
  have bal: "balanced (x, iface ?g) (?y, iface h)" by (simp add: balanced_def)
  obtain h' where h': "set_sta p ?y (?g\<lparr>iface := iface h\<rparr>) = Inr h'" "hap_inv h'" "hap_abs h' = (hap_abs ?g)(a \<mapsto> ?y)"
    "hap_find h' a = Some (p, ?y)" "hap_sta_aid h' = hap_sta_aid ?g"
    using hap_set [OF g bal ok] by blast
  have abs: "hap_abs ?g = hap_abs h" by (simp add: hap_abs_def fun_eq_iff)
  have "aid_inv h'" if "aid_inv h"
    by (rule aid_inv_new [OF that, where a = a and y = ?y and i = i and j = j]) (use h'(3,5) abs f ij(2) in simp_all)
  then have "hap_moves a h h'" using h'(2,3) abs by (simp add: hap_moves_def)
  moreover have "hostapd_get_aid p h = Inr (0, h')" using sta_at_find(1) [OF inv x(1)] x(2) ij h'(1) by (simp add: hostapd_get_aid_def Let_def)
  ultimately show ?thesis using h'(4) by blast
qed

lemma runs_get_aid:
  assumes h: "holds_sta a p s"
    and k: "\<And>r h. quiet a s (s\<lparr>ap_hapd := h\<rparr>) \<Longrightarrow> holds_sta a p (s\<lparr>ap_hapd := h\<rparr>) \<Longrightarrow> runs B P (k (r, h))"
  shows "runs B P (bindE (hostapd_get_aid p (ap_hapd s)) k)"
proof -
  let ?h = "ap_hapd s"
  obtain x where inv: "hap_inv ?h" and x: "hap_find ?h a = Some (p, x)" using h by (auto simp: holds_sta_def)
  have same: ?thesis if "hostapd_get_aid p ?h = Inr (r, ?h)" for r
    using that k [of ?h r] quiet_refl [OF inv] h by simp
  show ?thesis
  proof (cases "sta_aid x > 0 \<or> aid_slot 0 (hap_sta_aid ?h) = None \<or> (\<exists>i j. aid_slot 0 (hap_sta_aid ?h) = Some (i, j) \<and> i * 32 + j + 1 > 2007)")
    case True
    then have "\<exists>r. hostapd_get_aid p ?h = Inr (r, ?h)" using sta_at_find(1) [OF inv x] by (auto simp: hostapd_get_aid_def Let_def split: option.split)
    then show ?thesis using same by blast
  next
    case False
    then obtain i j where "aid_slot 0 (hap_sta_aid ?h) = Some (i, j)" by auto
    then have "aid_slot 0 (hap_sta_aid ?h) = Some (i, j)" "i * 32 + j + 1 \<le> 2007" "\<not> sta_aid x > 0" using False by (simp_all add: not_less)
    then obtain h' y where "hostapd_get_aid p ?h = Inr (0, h')" "hap_moves a ?h h'" "hap_find h' a = Some (p, y)"
      using new_aid_run [OF inv x] by blast
    then show ?thesis using k [of h' 0] by (auto simp: holds_sta_def quiet_def hap_moves_def)
  qed
qed

lemma free_run:
  assumes inv: "hap_inv (ap_hapd s)" and x: "hap_find (ap_hapd s) a = Some (p, x)"
  shows "\<exists>h. free_station conf p s = Inr (s\<lparr>ap_hapd := h\<rparr>) \<and> hap_moves a (ap_hapd s) h \<and> hap_abs h = (hap_abs (ap_hapd s))(a := None)"
proof -
  let ?h = "ap_hapd s"
  have r: "?h\<lparr>iface := iface ?h\<rparr> = ?h" by simp
  obtain h' where h': "ap_free_sta conf p x ?h = Inr h'" "hap_inv h'" "hap_abs h' = (hap_abs ?h)(a := None)"
    "release_aid (sta_aid x) (hap_sta_aid ?h) = Inr (hap_sta_aid h')"
    using ap_free_sta_removes [OF inv x, of "iface ?h" x conf, unfolded r] sta_at_find(2) [OF inv x] by (auto simp: same_counters_def)
  have "hap_abs ?h a = Some x" using x by (simp add: hap_abs_def)
  then have "hap_moves a ?h h'" using h'(2,3) aid_inv_free [OF _ _ h'(3,4)] by (simp add: hap_moves_def)
  then show ?thesis using h'(1,3) sta_at_find(1) [OF inv x] by (intro exI [of _ h']) (simp add: free_station_def)
qed

lemma runs_free:
  assumes "holds_sta a p s"
  shows "runs B (quiet a s) (free_station conf p s)"
proof -
  obtain h where "free_station conf p s = Inr (s\<lparr>ap_hapd := h\<rparr>)" "hap_moves a (ap_hapd s) h"
    using assms free_run by (auto simp: holds_sta_def) blast
  then show ?thesis by (auto simp: quiet_def)
qed

section \<open>The handlers\<close>

lemma done_quiet: "quiet a s t \<Longrightarrow> quiet a t u \<Longrightarrow> frame_done m a T mgmt s u"
  unfolding frame_done_def using quiet_trans by blast

lemma done_turned: "quiet a s s1 \<Longrightarrow> turned m a T mgmt s1 s2 \<Longrightarrow> quiet a s2 t \<Longrightarrow> quiet a t u \<Longrightarrow> frame_done m a T mgmt s u"
  unfolding frame_done_def using quiet_trans by blast

lemma done_trans: "quiet a s t \<Longrightarrow> frame_done m a T mgmt t u \<Longrightarrow> frame_done m a T mgmt s u"
  unfolding frame_done_def by (blast intro: quiet_trans)

lemma runs_if: "(c \<Longrightarrow> runs B P x) \<Longrightarrow> (\<not> c \<Longrightarrow> runs B P y) \<Longrightarrow> runs B P (if c then x else y)"
  by simp

lemma runs_option: "(x = None \<Longrightarrow> runs B P f) \<Longrightarrow> (\<And>y. x = Some y \<Longrightarrow> runs B P (g y)) \<Longrightarrow> runs B P (case x of None \<Rightarrow> f | Some y \<Rightarrow> g y)"
  by (cases x) simp_all

lemma runs_split_pair: "(\<And>x y. r = (x, y) \<Longrightarrow> runs B P (k x y)) \<Longrightarrow> runs B P (case r of (x, y) \<Rightarrow> k x y)"
  by (cases r) simp

abbreviation auth_edge :: "(STAStatus \<times> STAStatus) set" where
  "auth_edge \<equiv> {(SELECTED, AUTHENTICATED)}"

lemma runs_auth_station:
  assumes l: "24 \<le> length mgmt" and g: "gated m a SELECTED q s" and h: "holds_sta a p s"
  shows "runs (mgmt_fault e m a) (frame_done m a auth_edge mgmt s) (auth_station e conf mc mgmt alg tr fc sq ch q p s)"
proof -
  let ?B = "mgmt_fault e m a" and ?P = "frame_done m a auth_edge mgmt s"
  have f1: "runs ?B ?P (auth_finish e mc mgmt alg tr r ies (Some p) t)" if "quiet a s t" "holds_sta a p t" for r ies t
    using runs_mono [OF runs_auth_finish [OF l holds_inv [OF that(2)]]] done_quiet [OF that(1)] that(2) by blast
  have f2: "runs ?B ?P (auth_finish e mc mgmt alg tr r ies (Some p) u)"
    if "quiet a s s1" "turned m a auth_edge mgmt s1 t" "quiet a t u" "holds_sta a p u" for r ies s1 t u
    using runs_mono [OF runs_auth_finish [OF l holds_inv [OF that(4)]]] done_turned [OF that(1-3)] that(4) by blast
  have turn: "runs ?B ?P (bindE (on_stations (changeStatus q AUTHENTICATED) t) (\<lambda>t. bindE (start_report e x mgmt None t) k))"
    if "quiet a s t" "holds_sta a p t" "\<And>u. turned m a auth_edge mgmt t u \<Longrightarrow> holds_sta a p u \<Longrightarrow> runs ?B ?P (k u)" for t x k
    by (rule runs_turn [OF gated_quiet [OF g that(1)] _ that(2), where T = auth_edge]) (use that(3) in auto)
  have f3: "runs ?B ?P (auth_finish e mc mgmt alg tr r ies (Some p) u)"
    if "quiet a s t" "turned m a auth_edge mgmt t u" "holds_sta a p u" for r ies t u
    by (rule f2 [OF that(1,2) quiet_refl [OF holds_inv [OF that(3)]] that(3)])
  have ind: "runs ?B ?P (bindE (with_sta p auth_indicate u) (\<lambda>(_, u). auth_finish e mc mgmt alg tr r ies (Some p) u))"
    if "quiet a s t" "turned m a auth_edge mgmt t u" "holds_sta a p u" for r ies t u
    by (rule runs_with_sta [OF auth_indicate_ok that(3)]) (use f2 [OF that(1,2)] in simp)
  show ?thesis
    unfolding auth_station_def
  proof (rule runs_with_sta [OF auth_prepare_ok h], goal_cases prep)
    case (prep r t)
    have o: "runs ?B ?P (bindE (with_sta p auth_open t) (\<lambda>(_, t). bindE (on_stations (changeStatus q AUTHENTICATED) t) (\<lambda>t.
        bindE (start_report e True mgmt None t) (\<lambda>t. bindE (with_sta p auth_indicate t) (\<lambda>(_, t).
        auth_finish e mc mgmt alg tr WLAN_STATUS_SUCCESS [] (Some p) t)))))"
    proof (rule runs_with_sta [OF auth_open_ok prep(2)], goal_cases opened)
      case (opened r u)
      show ?case unfolding prod.case by (rule turn [OF quiet_trans [OF prep(1) opened(1)] opened(2) ind [OF quiet_trans [OF prep(1) opened(1)]]])
    qed
    have sh: "runs ?B ?P (bindE (with_sta p (auth_shared e tr ch w) t) (\<lambda>((resp, resp_ies), t).
       bindE (if resp = 0 \<and> tr = 3 then bindE (on_stations (changeStatus q AUTHENTICATED) t) (start_report e False mgmt None) else Inr t) (\<lambda>t.
       auth_finish e mc mgmt alg tr resp resp_ies (Some p) t)))" for w
    proof (rule runs_with_sta [OF auth_shared_ok prep(2)], goal_cases shared)
      case (shared r u)
      obtain resp ies where r: "r = (resp, ies)" by (cases r)
      have q: "quiet a s u" by (rule quiet_trans [OF prep(1) shared(1)])
      show ?case unfolding r using turn [where x = False, OF q shared(2) f3 [OF q, where r = resp and ies = ies]] f1 [OF q shared(2), of resp ies]
        by (cases "resp = 0 \<and> tr = 3") (simp_all only: prod.case simp_thms if_True if_False bindE_assoc bindE.simps)
    qed
    show ?case unfolding prod.case by (intro runs_if o sh f1 [OF prep])
  qed
qed

lemma runs_get_sta:
  assumes "hap_inv (ap_hapd s)" "\<And>p. holds_sta a p s \<Longrightarrow> runs B P (k (Some p))" "runs B P (k None)"
  shows "runs B P (bindE (ap_get_sta a (ap_hapd s)) k)"
  using assms ap_get_sta_eq [OF assms(1), of a] by (cases "hap_find (ap_hapd s) a") (auto simp: holds_sta_def)

lemma runs_sender:
  assumes "ap_up m s" "\<And>q. gated m a u q s \<Longrightarrow> runs (mgmt_fault e m a) P (k (Some q))" "runs (mgmt_fault e m a) P (k None)"
  shows "runs (mgmt_fault e m a) P (bindE (sender_with u a s) k)"
  by (rule runs_bind [OF runs_gate [OF assms(1)]]) (metis option.exhaust assms(2,3))

lemma auth_challenge_reads: "\<exists>c. auth_challenge mgmt = Inr c"
  by (simp add: auth_challenge_def IEEE80211_HDRLEN_def sizeof_auth_def WLAN_AUTH_CHALLENGE_LEN_def ld8_def rd_def Let_def)

lemma runs_handle_auth:
  assumes l: "24 \<le> length mgmt" and ok: "ap_up m s" "hap_inv (ap_hapd s)"
  shows "runs (mgmt_fault e m (frame_sa mgmt)) (frame_done m (frame_sa mgmt) auth_edge mgmt s) (handle_auth e conf mc mgmt s)"
proof (cases "length mgmt < 30")
  case True
  then show ?thesis using quiet_refl [OF ok(2)] by (simp add: handle_auth_def IEEE80211_HDRLEN_def sizeof_auth_def frame_done_def)
next
  case False
  let ?a = "frame_sa mgmt"
  let ?B = "mgmt_fault e m ?a" and ?P = "frame_done m ?a auth_edge mgmt s"
  obtain alg tr fc sq ch where r: "ld16 mgmt 24 = Inr alg" "ld16 mgmt 26 = Inr tr" "frame_fc mgmt = Inr fc" "frame_seq_ctrl mgmt = Inr sq"
    "auth_challenge mgmt = Inr ch"
    using False mgmt_reads(4,5) [OF l] auth_challenge_reads [of mgmt] by (auto simp: ld16_def)
  have q0: "quiet ?a s s" by (rule quiet_refl [OF ok(2)])
  have f0: "runs ?B ?P (auth_finish e mc mgmt alg tr resp ies None t)" if "quiet ?a s t" for resp ies t
    using runs_mono [OF runs_auth_finish [OF l quiet_inv [OF that], where p = None and a = ?a]] done_quiet [OF that] by blast
  have st: "runs ?B ?P (auth_station e conf mc mgmt alg tr fc sq ch q p t)" if "gated m ?a SELECTED q s" "quiet ?a s t" "holds_sta ?a p t" for q p t
    by (rule runs_mono [OF runs_auth_station [OF l gated_quiet [OF that(1,2)] that(3)] done_trans [OF that(2)]])
  have found: "runs ?B ?P (bindE (with_sta p (\<lambda>sta i. (repeated fc sq (stype WLAN_FC_STYPE_AUTH) sta,
        sta\<lparr>sta_flags := sta_flags sta AND NOT WLAN_STA_PENDING_FILS_ERP\<rparr>, i)) s) (\<lambda>(again, s).
        if again then Inr s else auth_station e conf mc mgmt alg tr fc sq ch q p s))" if "gated m ?a SELECTED q s" "holds_sta ?a p s" for q p
    by (rule runs_with_sta [OF plain_ok(1) that(2)]) (use st [OF that(1)] in \<open>simp add: frame_done_def\<close>)
  have new: "runs ?B ?P (bindE (ap_sta_add conf (hap_results e) ?a (ap_hapd s)) (\<lambda>(p, h).
      let s = s\<lparr>ap_hapd := h\<rparr> in case p of
        None \<Rightarrow> auth_finish e mc mgmt alg tr WLAN_STATUS_AP_UNABLE_TO_HANDLE_NEW_STA [] None s
      | Some p \<Rightarrow> auth_station e conf mc mgmt alg tr fc sq ch q p s))" if "gated m ?a SELECTED q s" for q
    by (rule runs_sta_add [OF ok(2)]) (auto simp: Let_def intro!: runs_option f0 st [OF that])
  have q1: "runs ?B ?P (Inr s)" using q0 by (simp add: frame_done_def)
  have look: "runs ?B ?P (bindE (ap_get_sta ?a (ap_hapd s)) (case_option
      (bindE (ap_sta_add conf (hap_results e) ?a (ap_hapd s)) (\<lambda>(p, h). let s = s\<lparr>ap_hapd := h\<rparr> in case p of
        None \<Rightarrow> auth_finish e mc mgmt alg tr WLAN_STATUS_AP_UNABLE_TO_HANDLE_NEW_STA [] None s
      | Some p \<Rightarrow> auth_station e conf mc mgmt alg tr fc sq ch q p s))
      (\<lambda>p. bindE (with_sta p (\<lambda>sta i. (repeated fc sq (stype WLAN_FC_STYPE_AUTH) sta,
        sta\<lparr>sta_flags := sta_flags sta AND NOT WLAN_STA_PENDING_FILS_ERP\<rparr>, i)) s) (\<lambda>(again, s).
        if again then Inr s else auth_station e conf mc mgmt alg tr fc sq ch q p s))))" if "gated m ?a SELECTED q s" for q
    by (rule runs_get_sta [OF ok(2)]) (simp_all only: option.case found [OF that] new [OF that])
  show ?thesis
    unfolding handle_auth_def
    by (simp only: IEEE80211_HDRLEN_def sizeof_auth_def layout_simps r mgmt_reads(1) [OF l] bindE.simps)
      (intro runs_if runs_option runs_split_pair f0 q0 q1, rule runs_sender [OF ok(1)], unfold option.case, erule look, rule q1)
qed

abbreviation assoc_edge :: "(STAStatus \<times> STAStatus) set" where
  "assoc_edge \<equiv> {(AUTHENTICATED, ASSOCIATED)}"

lemma same_place_trans: "same_place a b \<Longrightarrow> same_place b c \<Longrightarrow> same_place a c"
  by (simp add: same_place_def)

lemma same_place_same: "same_place x y \<Longrightarrow> (length (sta_supported_rates x) = 32 \<Longrightarrow> length (sta_supported_rates y) = 32) \<Longrightarrow> sta_same (x, i) (y, i)"
  by (simp add: same_place_def sta_same_def balanced_def)

lemma check_assoc_ies_run:
  assumes "pos + n \<le> length b"
  shows "\<exists>r y. check_assoc_ies mc b pos n x = Inr (r, y) \<and> same_place x y \<and>
    (length (sta_supported_rates x) = 32 \<longrightarrow> length (sta_supported_rates y) = 32)"
proof -
  obtain r el where r: "ieee802_11_parse_elems b pos n = Inr (r, el)"
    using parse_elems_safe [OF assms, of pos False no_elems] by (auto simp: ieee802_11_parse_elems_def)
  obtain r1 x1 where 1: "check_wmm mc (el_wmm el) x = (r1, x1)" by (cases "check_wmm mc (el_wmm el) x")
  obtain r2 x2 where 2: "copy_supp_rates mc el x1 = (r2, x2)" by (cases "copy_supp_rates mc el x1")
  obtain r3 x3 where 3: "check_multi_ap mc (el_multi_ap el) x2 = (r3, x3)" by (cases "check_multi_ap mc (el_multi_ap el) x2")
  note p = check_wmm_place [OF 1] copy_supp_rates_place [OF 2] check_multi_ap_place [OF 3]
  have "same_place x x2" "same_place x x3" using p same_place_trans by blast+
  moreover have "same_place x x" by (simp add: same_place_def)
  ultimately show ?thesis using p by (simp add: check_assoc_ies_def r 1 2 3 Let_def)
qed

lemma assoc_checks_run:
  assumes "pos \<le> length mgmt" "length (sta_supported_rates x) = 32"
  shows "\<exists>r y. assoc_checks e mc mgmt pos cap li x = Inr (r, y) \<and> sta_same (x, i) (y, i)"
proof -
  have "pos + (length mgmt - pos) \<le> length mgmt" using assms(1) by simp
  from check_assoc_ies_run [OF this, of mc "x\<lparr>sta_capability := cap\<rparr>"]
  obtain r y where y: "check_assoc_ies mc mgmt pos (length mgmt - pos) (x\<lparr>sta_capability := cap\<rparr>) = Inr (r, y)"
    "same_place (x\<lparr>sta_capability := cap\<rparr>) y" "length (sta_supported_rates y) = 32" using assms(2) by auto
  have "sta_same (x\<lparr>sta_capability := cap\<rparr>, i) (y, i)" by (rule same_place_same [OF y(2) y(3)])
  then have "sta_same (x, i) (y, i)" by (rule sta_same_trans [rotated]) simp
  then show ?thesis using y(1) by (simp add: assoc_checks_def)
qed

lemma runs_assoc_station:
  assumes l: "24 \<le> length mgmt" "pos \<le> length mgmt" and g: "gated m a AUTHENTICATED q s" and h: "holds_sta a p s"
  shows "runs (mgmt_fault e m a) (frame_done m a assoc_edge mgmt s) (assoc_station e conf mc mgmt re a pos cap li q p s)"
proof -
  let ?B = "mgmt_fault e m a" and ?P = "frame_done m a assoc_edge mgmt s"
  have f1: "runs ?B ?P (assoc_finish e re a r (Some p) t)" if "quiet a s t" "holds_sta a p t" for r t
    using runs_mono [OF runs_assoc_finish [OF holds_inv [OF that(2)]]] done_quiet [OF that(1)] that(2) by blast
  have f2: "runs ?B ?P (assoc_finish e re a r (Some p) t)"
    if "quiet a s s1" "turned m a assoc_edge mgmt s1 s2" "quiet a s2 t" "holds_sta a p t" for r s1 s2 t
    using runs_mono [OF runs_assoc_finish [OF holds_inv [OF that(4)]]] done_turned [OF that(1-3)] that(4) by blast
  have late: "runs ?B ?P (bindE (with_sta p (\<lambda>sta i. ((), sta\<lparr>timeout_next := STA_NULLFUNC, pending_wds_enable := False\<rparr>, i)) t)
      (\<lambda>(_, t). assoc_finish e re a WLAN_STATUS_SUCCESS (Some p) t))" if "quiet a s s1" "turned m a assoc_edge mgmt s1 t" "holds_sta a p t" for s1 t
    by (rule runs_with_sta [OF plain_ok(4) that(3)]) (use f2 [OF that(1,2)] in simp)
  have turn: "runs ?B ?P (bindE (on_stations (changeStatus q ASSOCIATED) t) (\<lambda>t. bindE (start_report e False mgmt (Some p) t) (\<lambda>t.
      bindE (with_sta p (\<lambda>sta i. ((), sta\<lparr>timeout_next := STA_NULLFUNC, pending_wds_enable := False\<rparr>, i)) t)
      (\<lambda>(_, t). assoc_finish e re a WLAN_STATUS_SUCCESS (Some p) t))))" if "quiet a s t" "holds_sta a p t" for t
    by (rule runs_turn [OF gated_quiet [OF g that(1)] _ that(2), where T = assoc_edge]) (use late [OF that(1)] in auto)
  have accept: "runs ?B ?P (bindE (with_sta p (assoc_accept conf li) t) (\<lambda>(_, t).
      bindE (on_stations (changeStatus q ASSOCIATED) t) (\<lambda>t. bindE (start_report e False mgmt (Some p) t) (\<lambda>t.
      bindE (with_sta p (\<lambda>sta i. ((), sta\<lparr>timeout_next := STA_NULLFUNC, pending_wds_enable := False\<rparr>, i)) t)
      (\<lambda>(_, t). assoc_finish e re a WLAN_STATUS_SUCCESS (Some p) t)))))" if "quiet a s t" "holds_sta a p t" for t
    by (rule runs_with_sta [OF assoc_accept_ok that(2)]) (use turn quiet_trans [OF that(1)] in simp)
  have aid: "runs ?B ?P (bindE (hostapd_get_aid p (ap_hapd t)) (\<lambda>(r, h). let t = t\<lparr>ap_hapd := h\<rparr> in
      if r < 0 then assoc_finish e re a WLAN_STATUS_AP_UNABLE_TO_HANDLE_NEW_STA (Some p) t
      else bindE (with_sta p (assoc_accept conf li) t) (\<lambda>(_, t).
      bindE (on_stations (changeStatus q ASSOCIATED) t) (\<lambda>t. bindE (start_report e False mgmt (Some p) t) (\<lambda>t.
      bindE (with_sta p (\<lambda>sta i. ((), sta\<lparr>timeout_next := STA_NULLFUNC, pending_wds_enable := False\<rparr>, i)) t)
      (\<lambda>(_, t). assoc_finish e re a WLAN_STATUS_SUCCESS (Some p) t))))))" if "quiet a s t" "holds_sta a p t" for t
    by (rule runs_get_aid [OF that(2)])
      (unfold prod.case Let_def, rule runs_if, (rule f1 accept, rule quiet_trans [OF that(1)], assumption, assumption)+)
  obtain x fc sq where x: "hap_inv (ap_hapd s)" "hap_find (ap_hapd s) a = Some (p, x)" and r: "frame_fc mgmt = Inr fc" "frame_seq_ctrl mgmt = Inr sq"
    using h mgmt_reads(4,5) [OF l(1)] by (auto simp: holds_sta_def)
  let ?x = "x\<lparr>last_seq_ctrl := sq, last_subtype := word_of_nat (assoc_subtype re)\<rparr>" and ?i = "iface (ap_hapd s)"
  obtain rs y where y: "assoc_checks e mc mgmt pos cap li ?x = Inr (rs, y)" "sta_same (?x, ?i) (y, ?i)"
    using assoc_checks_run [OF l(2), of ?x e mc cap li ?i] found_rates [OF x] by auto
  have "sta_same (x, ?i) (y, ?i)" by (rule sta_same_trans [OF _ y(2)]) simp
  then obtain h' where h': "with_sta p (\<lambda>_ i. ((), y, i)) s = Inr ((), s\<lparr>ap_hapd := h'\<rparr>)" "hap_moves a (ap_hapd s) h'" "hap_find h' a = Some (p, y)"
    using with_sta_run [OF x, of "\<lambda>_ i. ((), y, i)" "()" y ?i] by auto
  then have "quiet a s (s\<lparr>ap_hapd := h'\<rparr>)" "holds_sta a p (s\<lparr>ap_hapd := h'\<rparr>)" by (auto simp: quiet_def holds_sta_def hap_moves_def)
  note n = aid [OF this] f1 [OF this]
  have q1: "runs ?B ?P (Inr s)" using quiet_refl [OF x(1)] by (simp add: frame_done_def)
  show ?thesis
    unfolding assoc_station_def r bindE.simps sta_at_find(1) [OF x] y(1)
    by (intro runs_if q1, unfold y(1) bindE.simps prod.case h'(1), intro runs_if n)
qed

lemma runs_assoc_dmg:
  assumes inv: "hap_inv (ap_hapd s)" and p: "\<And>q. p = Some q \<Longrightarrow> holds_sta a q s"
  shows "runs B (\<lambda>(r, t). quiet a s t \<and> (\<forall>q resp. r = Some (Some q, resp) \<longrightarrow> holds_sta a q t) \<and>
    (\<forall>resp. r = Some (None, resp) \<longrightarrow> resp \<noteq> WLAN_STATUS_SUCCESS)) (assoc_dmg e conf a p s)"
proof -
  define f where "f = (\<lambda>(sta :: sta_info) i. case set_radius_info e sta of
                None \<Rightarrow> (WLAN_STATUS_UNSPECIFIED_FAILURE, sta, i)
              | Some sta \<Rightarrow> (WLAN_STATUS_SUCCESS, sta\<lparr>sta_flags := sta_flags sta OR WLAN_STA_AUTH, sta_auth_alg := WLAN_AUTH_OPEN\<rparr>,
                  emit (Wpa_event (sta_addr sta) ''WPA_AUTH'') i))"
  have f: "step_ok f" by (rule step_okI) (simp add: f_def set_radius_info_def)
  define Q where "Q = (\<lambda>(r, t). quiet a s t \<and> (\<forall>q resp. r = Some (Some q, resp) \<longrightarrow> holds_sta a q t) \<and>
    (\<forall>resp. r = Some (None, resp) \<longrightarrow> resp \<noteq> WLAN_STATUS_SUCCESS))"
  have w: "runs B Q (bindE (with_sta q f t) (\<lambda>(resp, u). Inr (Some (Some q, resp), u)))" if "quiet a s t" "holds_sta a q t" for q t
    by (rule runs_with_sta [OF f that(2)]) (use quiet_trans [OF that(1)] in \<open>simp add: Q_def\<close>)
  have add: "runs B Q (bindE (ap_sta_add conf (hap_results e) a (ap_hapd s)) (\<lambda>(p, h). let s = s\<lparr>ap_hapd := h\<rparr> in
      case p of None \<Rightarrow> Inr (Some (None, WLAN_STATUS_AP_UNABLE_TO_HANDLE_NEW_STA), s)
      | Some q \<Rightarrow> bindE (with_sta q f s) (\<lambda>(resp, u). Inr (Some (Some q, resp), u))))"
    by (rule runs_sta_add [OF inv])
      (auto simp: Let_def intro!: runs_option w, simp add: Q_def WLAN_STATUS_AP_UNABLE_TO_HANDLE_NEW_STA_def WLAN_STATUS_SUCCESS_def)
  have "runs B Q (if acl_res e = HOSTAPD_ACL_REJECT then Inr (Some (p, WLAN_STATUS_UNSPECIFIED_FAILURE), s)
      else if acl_res e = HOSTAPD_ACL_PENDING then Inr (None, s)
      else bindE (ap_sta_add conf (hap_results e) a (ap_hapd s)) (\<lambda>(p, h). let s = s\<lparr>ap_hapd := h\<rparr> in
      case p of None \<Rightarrow> Inr (Some (None, WLAN_STATUS_AP_UNABLE_TO_HANDLE_NEW_STA), s)
      | Some q \<Rightarrow> bindE (with_sta q f s) (\<lambda>(resp, u). Inr (Some (Some q, resp), u))))"
    using quiet_refl [OF inv] p by (intro runs_if add) (simp_all add: Q_def WLAN_STATUS_UNSPECIFIED_FAILURE_def WLAN_STATUS_SUCCESS_def)
  then show ?thesis unfolding assoc_dmg_def f_def Q_def .
qed

lemma runs_handle_assoc:
  assumes l: "24 \<le> length mgmt" and ok: "ap_up m s" "hap_inv (ap_hapd s)"
  shows "runs (mgmt_fault e m (frame_sa mgmt)) (frame_done m (frame_sa mgmt) assoc_edge mgmt s) (handle_assoc e conf mc mgmt re s)"
proof -
  let ?a = "frame_sa mgmt" and ?pos = "24 + (if re then 10 else 4 :: nat)"
  let ?B = "mgmt_fault e m ?a" and ?P = "frame_done m ?a assoc_edge mgmt s"
  have q1: "runs ?B ?P (Inr s)" using quiet_refl [OF ok(2)] by (simp add: frame_done_def)
  show ?thesis
  proof (cases "length mgmt < ?pos")
    case True
    then show ?thesis unfolding handle_assoc_def by (simp only: IEEE80211_HDRLEN_def sizeof_assoc_req_def sizeof_reassoc_req_def Let_def if_True q1)
  next
    case False
    then have pos: "?pos \<le> length mgmt" by simp
    then obtain cap li where r: "ld16 mgmt 24 = Inr cap" "ld16 mgmt (24 + 2) = Inr li" by (auto simp: ld16_def split: if_splits)
    have st: "runs ?B ?P (assoc_station e conf mc mgmt re ?a ?pos cap li q p t)"
      if "gated m ?a AUTHENTICATED q s" "quiet ?a s t" "holds_sta ?a p t" for q p t
      by (rule runs_mono [OF runs_assoc_station [OF l pos gated_quiet [OF that(1,2)] that(3)] done_trans [OF that(2)]])
    have fin: "runs ?B ?P (assoc_finish e re ?a resp p t)" if "quiet ?a s t" "\<And>q. p = Some q \<Longrightarrow> holds_sta ?a q t" for resp p t
      by (rule runs_mono [OF runs_assoc_finish [OF quiet_inv [OF that(1)]]]) (use that done_quiet [OF that(1)] in auto)
    have dmg: "runs ?B ?P (bindE (assoc_dmg e conf ?a p s) (\<lambda>(r, s). case r of None \<Rightarrow> Inr s
        | Some (p, resp) \<Rightarrow> if resp \<noteq> WLAN_STATUS_SUCCESS then assoc_finish e re ?a resp p s
            else bindE (non_null p) (\<lambda>p. assoc_station e conf mc mgmt re ?a ?pos cap li q p s)))"
      if "gated m ?a AUTHENTICATED q s" "\<And>q. p = Some q \<Longrightarrow> holds_sta ?a q s" for q p
    proof (rule runs_bind [OF runs_assoc_dmg [OF ok(2) that(2)]], assumption, goal_cases dmg)
      case (dmg x)
      obtain r t where x: "x = (r, t)" by (cases x)
      show ?case
      proof (cases r)
        case (Some y)
        obtain p' resp where y: "y = (p', resp)" by (cases y)
        show ?thesis
        proof (cases p')
          case (Some k)
          then show ?thesis using dmg st [OF that(1)] fin [of t "Some k"] by (simp add: x y \<open>r = Some y\<close>)
        qed (use dmg fin [of t None] in \<open>simp add: x y \<open>r = Some y\<close>\<close>)
      qed (use dmg in \<open>simp add: x frame_done_def\<close>)
    qed
    have em: "runs ?B ?P (Inr (emit_ap ev s))" for ev using emit_quiet [OF ok(2)] by (simp add: frame_done_def)
    have au: "runs ?B ?P (bindE (ap_get_sta ?a (ap_hapd s)) (\<lambda>p. bindE (is_authenticated p (ap_hapd s)) (\<lambda>au.
        if \<not> au then if mc_mode_11ad mc then bindE (assoc_dmg e conf ?a p s) (\<lambda>(r, s). case r of None \<Rightarrow> Inr s
        | Some (p, resp) \<Rightarrow> if resp \<noteq> WLAN_STATUS_SUCCESS then assoc_finish e re ?a resp p s
            else bindE (non_null p) (\<lambda>p. assoc_station e conf mc mgmt re ?a ?pos cap li q p s)) else Inr (emit_ap (Send_deauth ?a) s)
        else bindE (non_null p) (\<lambda>p. assoc_station e conf mc mgmt re ?a ?pos cap li q p s))))" if "gated m ?a AUTHENTICATED q s" for q
    proof (rule runs_get_sta [OF ok(2)], goal_cases found none)
      case (found p)
      then obtain x where x: "sta_at p (ap_hapd s) = Inr x" using sta_at_find(1) by (auto simp: holds_sta_def)
      show ?case using dmg [OF that, of "Some p"] found st [OF that quiet_refl [OF ok(2)]] em by (simp add: is_authenticated_def x)
    next
      case none
      show ?case using dmg [OF that, of None] em by (simp add: is_authenticated_def)
    qed
    show ?thesis
      unfolding handle_assoc_def
      by (simp only: IEEE80211_HDRLEN_def sizeof_assoc_req_def sizeof_reassoc_req_def Let_def r mgmt_reads(1) [OF l] bindE.simps)
        (intro runs_if q1, rule runs_sender [OF ok(1)], unfold option.case, erule au, rule q1)
  qed
qed

section \<open>Leaving\<close>

abbreviation disassoc_edge :: "(STAStatus \<times> STAStatus) set" where
  "disassoc_edge \<equiv> {(ASSOCIATED, AUTHENTICATED)}"

abbreviation deauth_edge :: "(STAStatus \<times> STAStatus) set" where
  "deauth_edge \<equiv> {(ASSOCIATED, NOT_AUTHENTICATED)}"

lemma runs_disassoc_end:
  assumes "holds_sta a p s"
  shows "runs B (quiet a s) (disassoc_end conf mc a p s)"
proof -
  let ?s = "emit_ap (Mlme_disassociate a) s"
  have q: "quiet a s ?s" "holds_sta a p ?s" using emit_quiet [OF holds_inv [OF assms]] emit_holds [OF assms] by blast+
  have f: "runs B (quiet a s) (free_station conf p t)" if "quiet a ?s t" "holds_sta a p t" for t
    by (rule runs_mono [OF runs_free [OF that(2)] quiet_trans [OF quiet_trans [OF q(1) that(1)]]])
  have "runs B (quiet a s) (bindE (with_sta p (\<lambda>sta i. ((), sta\<lparr>sta_flags := sta_flags sta AND NOT WLAN_STA_AUTH\<rparr>,
      emit (Wpa_event (sta_addr sta) ''WPA_DEAUTH'') i)) ?s) (\<lambda>(_, s). free_station conf p s))"
    by (rule runs_with_sta [OF plain_ok(2) q(2)]) (use f in simp)
  then show ?thesis using q(1) by (simp add: disassoc_end_def Let_def)
qed

lemma runs_disassoc_rest:
  assumes "holds_sta a p s"
  shows "runs (mgmt_fault e m b) (quiet a s) (disassoc_rest e conf mc a p s)"
proof -
  let ?B = "mgmt_fault e m b"
  have de: "runs ?B (quiet a s) (disassoc_end conf mc a p t)" if "quiet a s t" "holds_sta a p t" for t
    by (rule runs_mono [OF runs_disassoc_end [OF that(2)] quiet_trans [OF that(1)]])
  have "runs ?B (quiet a s) (bindE (with_sta p disassoc_timers t) (\<lambda>(_, s). disassoc_end conf mc a p s))" if "quiet a s t" "holds_sta a p t" for t
    by (rule runs_with_sta [OF disassoc_ok(2) that(2)]) (use de quiet_trans [OF that(1)] in simp)
  then show ?thesis unfolding disassoc_rest_def
    by (intro runs_with_sta [OF disassoc_ok(1) assms]) (use de in \<open>simp add: mgmt_fault_def memory_def\<close>)
qed

lemma runs_deauth_rest:
  assumes "holds_sta a p s"
  shows "runs B (quiet a s) (deauth_rest conf p s)"
  unfolding deauth_rest_def
  by (rule runs_with_sta [OF plain_ok(3) assms]) (auto intro: runs_mono [OF runs_free] quiet_trans)

lemma runs_handle_disassoc:
  assumes l: "24 \<le> length mgmt" and ok: "ap_up m s" "hap_inv (ap_hapd s)"
  shows "runs (mgmt_fault e m (frame_sa mgmt)) (frame_done m (frame_sa mgmt) disassoc_edge mgmt s) (handle_disassoc e conf mc mgmt s)"
proof -
  let ?a = "frame_sa mgmt"
  let ?B = "mgmt_fault e m ?a" and ?P = "frame_done m ?a disassoc_edge mgmt s"
  let ?rest = "\<lambda>q p s. bindE (on_stations (changeStatus q AUTHENTICATED) s) (\<lambda>s. bindE (start_report e False mgmt None s) (disassoc_rest e conf mc ?a p))"
  let ?go = "\<lambda>q p. bindE (with_sta p (disassoc_flags (WLAN_STA_ASSOC OR WLAN_STA_ASSOC_REQ_OK) ''WPA_DISASSOC'') s) (\<lambda>(_, s). ?rest q p s)"
  have q1: "runs ?B ?P (Inr s)" using quiet_refl [OF ok(2)] by (simp add: frame_done_def)
  have late: "runs ?B ?P (disassoc_rest e conf mc ?a p t)" if "quiet ?a s s1" "turned m ?a disassoc_edge mgmt s1 t" "holds_sta ?a p t" for p s1 t
    by (rule runs_mono [OF runs_disassoc_rest [OF that(3)] done_turned [OF that(1,2) quiet_refl [OF holds_inv [OF that(3)]]]])
  have turn: "runs ?B ?P (?rest q p t)" if "gated m ?a ASSOCIATED q s" "quiet ?a s t" "holds_sta ?a p t" for q p t
    by (rule runs_turn [OF gated_quiet [OF that(1,2)] _ that(3), where T = disassoc_edge]) (use late [OF that(2)] in auto)
  have go: "runs ?B ?P (?go q p)" if "gated m ?a ASSOCIATED q s" "holds_sta ?a p s" for q p
    by (rule runs_with_sta [OF disassoc_flags_ok that(2)]) (use turn [OF that(1)] in simp)
  have look: "runs ?B ?P (bindE (ap_get_sta ?a (ap_hapd s)) (case_option (Inr s) (?go q)))" if "gated m ?a ASSOCIATED q s" for q
    by (rule runs_get_sta [OF ok(2)]) (simp_all only: option.case go [OF that] q1)
  show ?thesis
    unfolding handle_disassoc_def mgmt_reads(1) [OF l] bindE.simps
    by (rule runs_sender [OF ok(1)], unfold option.case, rule runs_if, rule q1, erule look, rule q1)
qed

lemma runs_handle_deauth:
  assumes l: "24 \<le> length mgmt" and ok: "ap_up m s" "hap_inv (ap_hapd s)"
  shows "runs (mgmt_fault e m (frame_sa mgmt)) (frame_done m (frame_sa mgmt) deauth_edge mgmt s) (handle_deauth e conf mgmt s)"
proof -
  let ?a = "frame_sa mgmt"
  let ?B = "mgmt_fault e m ?a" and ?P = "frame_done m ?a deauth_edge mgmt s"
  let ?rest = "\<lambda>q p s. bindE (on_stations (changeStatus q NOT_AUTHENTICATED) s) (\<lambda>s. bindE (start_report e False mgmt None s) (deauth_rest conf p))"
  let ?go = "\<lambda>q p. bindE (with_sta p (disassoc_flags (WLAN_STA_AUTH OR WLAN_STA_ASSOC OR WLAN_STA_ASSOC_REQ_OK) ''WPA_DEAUTH'') s) (\<lambda>(_, s). ?rest q p s)"
  have q1: "runs ?B ?P (Inr s)" using quiet_refl [OF ok(2)] by (simp add: frame_done_def)
  have late: "runs ?B ?P (deauth_rest conf p t)" if "quiet ?a s s1" "turned m ?a deauth_edge mgmt s1 t" "holds_sta ?a p t" for p s1 t
    by (rule runs_mono [OF runs_deauth_rest [OF that(3)] done_turned [OF that(1,2) quiet_refl [OF holds_inv [OF that(3)]]]])
  have turn: "runs ?B ?P (?rest q p t)" if "gated m ?a ASSOCIATED q s" "quiet ?a s t" "holds_sta ?a p t" for q p t
    by (rule runs_turn [OF gated_quiet [OF that(1,2)] _ that(3), where T = deauth_edge]) (use late [OF that(2)] in auto)
  have go: "runs ?B ?P (?go q p)" if "gated m ?a ASSOCIATED q s" "holds_sta ?a p s" for q p
    by (rule runs_with_sta [OF disassoc_flags_ok that(2)]) (use turn [OF that(1)] in simp)
  have look: "runs ?B ?P (bindE (ap_get_sta ?a (ap_hapd s)) (case_option (Inr s) (?go q)))" if "gated m ?a ASSOCIATED q s" for q
    by (rule runs_get_sta [OF ok(2)]) (simp_all only: option.case go [OF that] q1)
  show ?thesis
    unfolding handle_deauth_def mgmt_reads(1) [OF l] bindE.simps
    by (rule runs_sender [OF ok(1)], unfold option.case, rule runs_if, rule q1, erule look, rule q1)
qed

section \<open>Frames of any type\<close>

lemma runs_handle_action:
  assumes l: "24 \<le> length mgmt" and ok: "ap_up m s" "hap_inv (ap_hapd s)"
  shows "runs (mgmt_fault e m (frame_sa mgmt)) (\<lambda>(r, t). quiet (frame_sa mgmt) s t) (handle_action e mgmt s)"
proof -
  let ?a = "frame_sa mgmt"
  let ?B = "mgmt_fault e m ?a" and ?Q = "\<lambda>(r :: int, t). quiet ?a s t"
  have q0: "quiet ?a s s" by (rule quiet_refl [OF ok(2)])
  have fin: "runs ?B ?Q (case c of Ignored \<Rightarrow> Inr (0, t) | Again \<Rightarrow> Inr (1, t)
      | Handled \<Rightarrow> Inr (action_ret e, emit_ap (Other_frame ?a WLAN_FC_STYPE_ACTION) t))" if "quiet ?a s t" for c t
    using that quiet_trans [OF that emit_quiet [OF quiet_inv [OF that]]] by (cases c) simp_all
  have w: "runs ?B ?Q (bindE (with_sta p (check_action fc sq c) s) (\<lambda>(c, t). case c of Ignored \<Rightarrow> Inr (0, t) | Again \<Rightarrow> Inr (1, t)
      | Handled \<Rightarrow> Inr (action_ret e, emit_ap (Other_frame ?a WLAN_FC_STYPE_ACTION) t)))" if "holds_sta ?a p s" for p fc sq c
    by (rule runs_with_sta [OF check_action_ok that]) (use fin in simp)
  have look: "runs ?B ?Q (bindE (ap_get_sta ?a (ap_hapd s)) (\<lambda>p. bindE (case p of
           None \<Rightarrow> Inr (if category \<noteq> WLAN_ACTION_PUBLIC then Ignored else Handled, s)
         | Some p \<Rightarrow> with_sta p (check_action fc sq category) s) (\<lambda>(c, t).
       case c of Ignored \<Rightarrow> Inr (0, t) | Again \<Rightarrow> Inr (1, t)
       | Handled \<Rightarrow> Inr (action_ret e, emit_ap (Other_frame ?a WLAN_FC_STYPE_ACTION) t))))" for category fc sq
    by (rule runs_get_sta [OF ok(2)]) (simp_all only: option.case w bindE.simps prod.case fin [OF q0])
  obtain fc sq where r: "frame_fc mgmt = Inr fc" "frame_seq_ctrl mgmt = Inr sq" using mgmt_reads(4,5) [OF l] by blast
  have c: "length mgmt < 24 + 2 + 1 \<or> (\<exists>c. ld8 mgmt 24 = Inr c)" by (auto simp: ld8_def)
  show ?thesis
    unfolding handle_action_def mgmt_reads(1) [OF l] bindE.simps r IEEE80211_HDRLEN_def
  proof (rule runs_sender [OF ok(1)], goal_cases some none)
    case (some q)
    show ?case using c look [of _ fc sq] q0 by auto
  qed (use q0 in simp)
qed

fun frame_edges :: "fc_stype option \<Rightarrow> (STAStatus \<times> STAStatus) set" where
  "frame_edges (Some WLAN_FC_STYPE_AUTH) = auth_edge"
| "frame_edges (Some WLAN_FC_STYPE_ASSOC_REQ) = assoc_edge"
| "frame_edges (Some WLAN_FC_STYPE_REASSOC_REQ) = assoc_edge"
| "frame_edges (Some WLAN_FC_STYPE_DISASSOC) = disassoc_edge"
| "frame_edges (Some WLAN_FC_STYPE_DEAUTH) = deauth_edge"
| "frame_edges _ = {}"

definition sta_view :: "access_point \<Rightarrow> mac \<Rightarrow> infoSTA option" where
  "sta_view s = (case staList s of Live l \<Rightarrow> sta_abs l | _ \<Rightarrow> (\<lambda>_. None))"

text \<open>What a frame of the station \<open>a\<close> leaves.\<close>

definition mgmt_result :: "hap_conf \<Rightarrow> mac \<Rightarrow> (STAStatus \<times> STAStatus) set \<Rightarrow> access_point \<Rightarrow> access_point \<Rightarrow> bool" where
  "mgmt_result conf a T s s' \<longleftrightarrow> ap_ok conf s' \<and> ap_kept s s' \<and> (\<forall>b. b \<noteq> a \<longrightarrow> hap_abs (ap_hapd s') b = hap_abs (ap_hapd s) b) \<and>
     (sta_view s' = sta_view s \<or>
       (\<exists>i v. sta_view s a = Some i \<and> (si_status i, v) \<in> T \<and> sta_view s' = (sta_view s)(a \<mapsto> set_status v i)))"

lemma quiet_result: "ap_ok conf s \<Longrightarrow> quiet a s s' \<Longrightarrow> mgmt_result conf a T s s'"
  by (auto simp: quiet_def mgmt_result_def hap_moves_def ap_ok_def ap_inv_def ap_up_def ap_kept_def sta_view_def)

lemma done_result:
  assumes ok: "ap_ok conf s" and d: "frame_done (conf_max_num_sta conf) a T mgmt s s'"
  shows "mgmt_result conf a T s s'"
  using d unfolding frame_done_def
proof (elim disjE exE conjE)
  fix s1 s2 assume q: "quiet a s s1" "turned (conf_max_num_sta conf) a T mgmt s1 s2" "quiet a s2 s'"
  obtain h1 where h1: "s1 = s\<lparr>ap_hapd := h1\<rparr>" "hap_moves a (ap_hapd s) h1" using q(1) by (auto simp: quiet_def)
  obtain h2 where h2: "s' = s2\<lparr>ap_hapd := h2\<rparr>" "hap_moves a (ap_hapd s2) h2" using q(3) by (auto simp: quiet_def)
  obtain l i v l' hs where t: "staList s1 = Live l" "sta_abs l a = Some i" "(si_status i, v) \<in> T" "stas_ok (conf_max_num_sta conf) l'"
    "sta_abs l' = (sta_abs l)(a \<mapsto> set_status v i)" "s2 = s1\<lparr>staList := Live l', sta_msg_threads := sta_msg_threads s1 @ hs\<rparr>"
    using q(2) unfolding turned_def by blast
  have m: "hap_moves a (ap_hapd s) h2" using h1 h2(2) t(6) hap_moves_trans by auto
  have s': "s' = s\<lparr>ap_hapd := h2, staList := Live l', sta_msg_threads := sta_msg_threads s @ hs\<rparr>" using h1(1) h2(1) t(6) by simp
  have "ap_ok conf s'" "ap_kept s s'" using ok m t(4) s' by (auto simp: ap_ok_def ap_inv_def ap_up_def ap_kept_def hap_moves_def)
  moreover have "sta_view s' = (sta_view s)(a \<mapsto> set_status v i)" "sta_view s a = Some i" using t(1,2,5) h1(1) s' by (simp_all add: sta_view_def)
  ultimately show ?thesis using m t(3) s' by (auto simp: mgmt_result_def hap_moves_def)
qed (rule quiet_result [OF ok])

lemma runs_handled: "runs B P r \<Longrightarrow> (\<And>t. P t \<Longrightarrow> Q (1 :: int, t)) \<Longrightarrow> runs B Q (bindE r (\<lambda>t. Inr (1, t)))"
  by (cases r) auto

lemma stype_vals: "stype WLAN_FC_STYPE_ASSOC_REQ = 0" "stype WLAN_FC_STYPE_REASSOC_REQ = 2" "stype WLAN_FC_STYPE_PROBE_REQ = 4"
  "stype WLAN_FC_STYPE_DISASSOC = 10" "stype WLAN_FC_STYPE_AUTH = 11" "stype WLAN_FC_STYPE_DEAUTH = 12"
  by (simp_all add: stype_def enum_val_def fc_stype_vals_def)

lemma frame_type_stype: "24 \<le> length mgmt \<Longrightarrow> frame_fc mgmt = Inr fc \<Longrightarrow> WLAN_FC_GET_STYPE fc = stype t \<Longrightarrow> frame_type mgmt = Some t"
  by (cases t) (auto simp: frame_fc_def ld16_def layout_simps frame_type_def stype_vals enum_of_def fc_stype_vals_def split: if_splits)

lemma runs_mgmt:
  assumes ok: "ap_ok conf s"
  shows "runs (mgmt_fault e (conf_max_num_sta conf) (frame_sa mgmt)) (\<lambda>(r, t). mgmt_result conf (frame_sa mgmt) (frame_edges (frame_type mgmt)) s t)
    (ieee802_11_mgmt e conf mc mgmt s)"
proof (cases "length mgmt < 24")
  case True
  then show ?thesis using quiet_result [OF ok quiet_refl] ok by (simp add: ieee802_11_mgmt_def ap_ok_def)
next
  case False
  then have l: "24 \<le> length mgmt" by simp
  let ?m = "conf_max_num_sta conf" and ?a = "frame_sa mgmt"
  let ?B = "mgmt_fault e ?m ?a" and ?Q = "\<lambda>(r :: int, t). mgmt_result conf ?a (frame_edges (frame_type mgmt)) s t"
  have up: "ap_up ?m s" "hap_inv (ap_hapd s)" using ok by (simp_all add: ap_ok_def)
  obtain fc da bs where r: "frame_fc mgmt = Inr fc" "mgmt_da mgmt = Inr da" "mgmt_bssid mgmt = Inr bs" using mgmt_reads(2-4) [OF l] by blast
  have q: "?Q (k, s)" "?Q (k, emit_ap ev s)" for k ev
    using quiet_result [OF ok quiet_refl [OF up(2)]] quiet_result [OF ok emit_quiet [OF up(2)]] by simp_all
  have h: "runs ?B ?Q (bindE f (\<lambda>t. Inr (1, t)))"
    if "WLAN_FC_GET_STYPE fc = stype t" "frame_edges (Some t) = T" "runs ?B (frame_done ?m ?a T mgmt s) f" for t f T
    by (rule runs_handled [OF that(3)]) (use done_result [OF ok] frame_type_stype [OF l r(1) that(1)] that(2) in simp)
  have rep: "?Q (1, emit_ap ev (s\<lparr>sta_msg_threads := ms\<rparr>))" for ev ms
    using ok by (simp add: mgmt_result_def emit_ap_def ap_ok_def ap_inv_def ap_up_def ap_kept_def sta_view_def hap_inv_def counters_def hap_abs_def aid_inv_def)
  have probe: "runs ?B ?Q (bindE (bindE (start_report e False mgmt None s) (\<lambda>s. Inr (emit_ap ev s))) (\<lambda>s. Inr (1, s)))" for ev
    using rep by (auto simp: start_report_def mgmt_fault_def memory_def)
  have act: "runs ?B ?Q (handle_action e mgmt s)"
    by (rule runs_mono [OF runs_handle_action [OF l up]]) (use quiet_result [OF ok] in auto)
  note hs = h [OF _ frame_edges.simps(1) runs_handle_auth [OF l up]] h [OF _ frame_edges.simps(2) runs_handle_assoc [OF l up]]
    h [OF _ frame_edges.simps(3) runs_handle_assoc [OF l up]] h [OF _ frame_edges.simps(4) runs_handle_disassoc [OF l up]]
    h [OF _ frame_edges.simps(5) runs_handle_deauth [OF l up]]
  show ?thesis
    unfolding ieee802_11_mgmt_def r mgmt_reads(1) [OF l] bindE.simps Let_def
    by (intro runs_if probe act hs) (use q False in \<open>simp_all only: runs_simps\<close>)
qed

section \<open>Frames that were sent, and timers\<close>

text \<open>The handlers below concern the receiver of a frame, or the station of a timer.\<close>

definition frame_da :: "buf \<Rightarrow> mac" where
  "frame_da mgmt = MAC (mgmt ! 4) (mgmt ! 5) (mgmt ! 6) (mgmt ! 7) (mgmt ! 8) (mgmt ! 9)"

lemma frame_da_read: "24 \<le> length mgmt \<Longrightarrow> mgmt_da mgmt = Inr (frame_da mgmt)"
  by (simp add: mgmt_da_def ld_mac_def layout_simps frame_da_def)

lemma runs_with_sta_end:
  "step_ok f \<Longrightarrow> holds_sta a p s \<Longrightarrow> runs B (quiet a s) (bindE (with_sta p f s) (\<lambda>(_, s). Inr s))"
  by (erule runs_with_sta, assumption) simp

lemma runs_mgmt_cb:
  assumes l: "30 \<le> length mgmt" and ok: "ap_up m s" "hap_inv (ap_hapd s)"
  shows "runs (mgmt_fault e m (frame_da mgmt)) (quiet (frame_da mgmt) s) (ieee802_11_mgmt_cb e conf mgmt t ack s)"
proof -
  let ?a = "frame_da mgmt"
  let ?B = "mgmt_fault e m ?a"
  have q0: "quiet ?a s s" and q0': "quiet ?a s (emit_ap ev s)" for ev using quiet_refl [OF ok(2)] emit_quiet [OF ok(2)] by simp_all
  obtain x y z where r: "ld16 mgmt 24 = Inr x" "ld16 mgmt 26 = Inr y" "ld16 mgmt 28 = Inr z" using l by (simp add: ld16_def)
  have da: "mgmt_da mgmt = Inr ?a" using frame_da_read l by simp
  have au: "runs ?B (quiet ?a s) (handle_auth_cb mgmt ack s)"
    unfolding handle_auth_cb_def da bindE.simps
    by (rule runs_sender [OF ok(1)]) (simp add: layout_simps r, intro runs_get_sta [OF ok(2)], simp_all add: q0 runs_with_sta_end [OF auth_acked_ok])
  have as: "runs ?B (quiet ?a s) (handle_assoc_cb e conf mgmt re ack s)" for re
    unfolding handle_assoc_cb_def da bindE.simps IEEE80211_HDRLEN_def sizeof_assoc_resp_def
    by (rule runs_sender [OF ok(1)]) (simp, intro runs_get_sta [OF ok(2)],
        simp_all add: q0 q0' r runs_with_sta_end [OF assoc_acked_ok] runs_with_sta_end [OF assoc_not_acked_ok])
  show ?thesis using au as q0 by (simp add: ieee802_11_mgmt_cb_def)
qed

text \<open>A timer that is registered is one of a station in the table: freeing a station cancels its timers.\<close>

lemma find_distinct: "distinct (map f xs) \<Longrightarrow> x \<in> set xs \<Longrightarrow> List.find (\<lambda>y. f y = f x) xs = Some x"
  by (induction xs) (auto simp: rev_image_eqI)

lemma listed_found:
  assumes inv: "hap_inv h" and p: "p \<in> set (sta_list h)"
  obtains a x where "hap_find h a = Some (p, x)"
proof -
  have "p \<in> nodes (hap_stas h)" using assms by (simp add: hap_inv_def)
  then obtain k x where k: "k < length (table (hap_stas h))" "(p, x) \<in> set (bucket_list (hap_stas h) k)" by (force simp: nodes_def)
  note I = hap_invD [OF inv]
  have b: "STA_HASH (sta_addr x) = k" using wf_chains_bucket(2) [OF I(1) k(1)] k(2) by auto
  have "distinct (map (\<lambda>x. sta_addr (snd x)) (bucket_list (hap_stas h) k))" using I(3) k(1) by (simp add: chain_uniq_def)
  then have "hap_find h (sta_addr x) = Some (p, x)"
    unfolding chain_find_def b using find_distinct [of "\<lambda>x. sta_addr (snd x)", OF _ k(2)] by simp
  then show thesis by (rule that)
qed

lemma runs_timer:
  assumes inv: "hap_inv (ap_hapd s)" and p: "p \<in> set (sta_list (ap_hapd s))"
  shows "\<exists>a s'. ap_handle_timer conf te p s = Inr s' \<and> quiet a s s'"
proof -
  obtain a x where "hap_find (ap_hapd s) a = Some (p, x)" by (rule listed_found [OF inv p])
  then have h: "holds_sta a p s" using inv by (auto simp: holds_sta_def)
  have "runs (\<lambda>_. False) (quiet a s) (ap_handle_timer conf te p s)"
    unfolding ap_handle_timer_def
    by (rule runs_with_sta [OF timer_step_ok h]) (auto intro: runs_mono [OF runs_free] quiet_trans)
  then show ?thesis by (cases "ap_handle_timer conf te p s") auto
qed

lemma notify_run:
  assumes up: "ap_up m s" and r: "notify_controller_disassoc e a s = Inr s'"
  shows "s' = s \<or> (\<exists>t ds. talks m s t \<and> s' = t\<lparr>deauth_threads := ds\<rparr>)"
proof -
  obtain info where i: "sender_with AUTHENTICATED a s = Inr info" using r by (auto simp: notify_controller_disassoc_def elim!: bindE_E)
  show ?thesis
  proof (cases info)
    case (Some q)
    then have g: "gated m a AUTHENTICATED q s" using runs_gate [OF up, of undefined a AUTHENTICATED] i by simp
    then have "ap_lookupSTA a s = Inr (Some q)" by (auto simp: gated_def ap_lookupSTA_def ap_stations_def)
    moreover obtain t where t: "on_stations (upd_sta (set_status NOT_AUTHENTICATED) q) s = Inr t" "s' = t\<lparr>deauth_threads := spawn e a (deauth_threads t)\<rparr>"
      using r i Some by (auto simp: notify_controller_disassoc_def changeStatus_def [abs_def] elim!: bindE_E)
    ultimately have "talks m s t" using upd_talks [OF up _ t(1)] by (simp add: set_status_ok)
    then show ?thesis using t(2) by blast
  qed (use r i in \<open>simp add: notify_controller_disassoc_def\<close>)
qed

section \<open>An example\<close>

text \<open>One station, with a status in the list and flags in hostapd.\<close>

definition demo_sta :: "u32 \<Rightarrow> sta_info" where
  "demo_sta F = (hap_new demo_addr)\<lparr>sta_flags := F, timeout_next := STA_NULLFUNC\<rparr>"

definition demo_held_hapd :: "u32 \<Rightarrow> hapd" where
  "demo_held_hapd F = (case set_sta 0 (demo_sta F) demo_hapd of Inr h \<Rightarrow> h)"

definition demo_listed :: "STAStatus \<Rightarrow> STAList" where
  "demo_listed v = (case lookupSenderSTA demo_addr demo_list of Inr (Some q) \<Rightarrow> (case upd_sta (set_status v) q demo_list of Inr l \<Rightarrow> l))"

definition demo_held :: "STAStatus \<Rightarrow> u32 \<Rightarrow> access_point" where
  "demo_held v F = demo_access_point (demo_listed v) (demo_held_hapd F)"

definition demo_mgmt_env :: "int \<Rightarrow> mgmt_env" where
  "demo_mgmt_env r = \<lparr>calloc_ok = (\<lambda>_. True), send_ret = (\<lambda>_. 8), rand_ret = 5, pthread_ok = True,
     hap_results = demo_hap_env\<lparr>drv_sta_add_ret := r\<rparr>, flow_results = flow_results demo_ctl_env, malloc_ok = (\<lambda>_. True),
     acl_res = HOSTAPD_ACL_ACCEPT, radius_ok = True, radius_psk = False, radius_identity = False, radius_cui = False, seen_elsewhere = None,
     tkip_countermeasures = False, new_challenge = None, mlme_ret = 0, assoc_reply_ret = 0, tk_set = False, action_ret = 0\<rparr>"

definition demo_mgmt_conf :: mgmt_conf where
  "demo_mgmt_conf = \<lparr>mc_own_addr = demo_ap_mac, mc_ssid = [0x61, 0x70], mc_wmm_enabled = True, mc_multi_ap = 0, mc_mode_11ad = False,
     mc_max_listen_interval = 65535\<rparr>"

lemma demo_hapd_inv: "hap_inv demo_hapd" "hap_find demo_hapd demo_addr = Some (0, hap_new demo_addr)" "hap_sta_aid demo_hapd = replicate 63 0"
proof -
  obtain q h' where h': "ap_sta_add demo_conf demo_hap_env demo_addr (hapd_init 63) = Inr (Some q, h')" "hap_inv h'"
    "hap_find h' demo_addr = Some (q, hap_new demo_addr)"
    using ap_sta_add_new [OF hap_inv_init [of 63], of demo_addr demo_conf demo_hap_env] hap_abs_init [of 63 demo_addr]
    by (auto simp: hap_abs_def demo_conf_def demo_hap_env_def hapd_init_def)
  have g: "ap_get_sta demo_addr (hapd_init 63) = Inr None"
    using ap_get_sta_eq [OF hap_inv_init [of 63], of demo_addr] hap_abs_init [of 63 demo_addr] by (simp add: hap_abs_def)
  have "q = 0 \<and> hap_sta_aid h' = replicate 63 0"
    using h'(1) g
    by (auto simp: ap_sta_add_def demo_conf_def demo_hap_env_def hapd_init_def ap_sta_hash_add_def push_front_def
        alloc_def chains_init_def Let_def bindE_eq_Inr split: option.splits)
  moreover have "demo_hapd = h'" using h'(1) by (simp add: demo_hapd_def)
  ultimately show "hap_inv demo_hapd" "hap_find demo_hapd demo_addr = Some (0, hap_new demo_addr)" "hap_sta_aid demo_hapd = replicate 63 0"
    using h'(2,3) by simp_all
qed

lemma demo_held_hapd_ok: "hap_inv (demo_held_hapd F)" "hap_find (demo_held_hapd F) demo_addr = Some (0, demo_sta F)"
  "hap_sta_aid (demo_held_hapd F) = replicate 63 0"
proof -
  note d = demo_hapd_inv
  have b: "balanced (hap_new demo_addr, iface demo_hapd) (demo_sta F, iface demo_hapd)" by (simp add: balanced_def demo_sta_def)
  have ok: "sta_ok (length (hap_sta_aid demo_hapd)) (demo_sta F)"
    using find_in_contents(2) [OF d(1,2)] by (simp add: sta_ok_def demo_sta_def)
  have "demo_hapd\<lparr>iface := iface demo_hapd\<rparr> = demo_hapd" by simp
  then show "hap_inv (demo_held_hapd F)" "hap_find (demo_held_hapd F) demo_addr = Some (0, demo_sta F)"
    "hap_sta_aid (demo_held_hapd F) = replicate 63 0"
    using hap_set [OF d(1,2) b ok] d(3) by (auto simp: demo_held_hapd_def)
qed

lemma demo_listed_ok: "stas_ok 255 (demo_listed v)" "sta_abs (demo_listed v) demo_addr = Some (set_status v (new_infoSTA demo_addr))"
proof -
  obtain q where q: "lookupSenderSTA demo_addr demo_list = Inr (Some q)" "info_ok (new_infoSTA demo_addr)" by (rule known_sta [OF demo_list_ok])
  have "si_address (set_status v (new_infoSTA demo_addr)) = si_address (new_infoSTA demo_addr)" "info_ok (set_status v (new_infoSTA demo_addr))"
    using q(2) set_status_ok by simp_all
  from upd_sta_ok [where f = "set_status v", OF demo_list_ok(1) q(1) demo_list_ok(2) this] q(1)
  show "stas_ok 255 (demo_listed v)" "sta_abs (demo_listed v) demo_addr = Some (set_status v (new_infoSTA demo_addr))"
    by (auto simp: demo_listed_def)
qed

lemma demo_held_ok: "ap_ok demo_conf (demo_held v F)" "sta_view (demo_held v F) demo_addr = Some (set_status v (new_infoSTA demo_addr))"
  "ap_controller (demo_held v F) = Live demo_ap_conn" "ap_hapd (demo_held v F) = demo_held_hapd F"
proof -
  show "ap_ok demo_conf (demo_held v F)"
    using demo_listed_ok(1) demo_held_hapd_ok(1) ap_nat_inv_init pq_inv_init
    by (simp add: ap_ok_def ap_inv_def ap_up_def demo_held_def demo_access_point_def demo_conf_def demo_ap_conn_def conn_inv_def)
qed (simp_all add: demo_held_def demo_access_point_def sta_view_def demo_listed_ok(2))

section \<open>Properties\<close>

text \<open>C11. The admission of stations: on any frame from the driver, an access point in order stays in order -
  the tables, lists, counters and association ids of hostapd agree, and no two stations share an id -
  and no other station is touched. The status of the sender moves along an edge that the type of the frame
  allows, and only from the status it must have: from selected to authenticated, from authenticated to
  associated, and from associated to authenticated (a disassociation) or to not authenticated. In particular a
  station that the controller has not selected is never authenticated. A frame stops the access point only where memory or a
  thread is refused, or the station list has no slot for the address.\<close>

theorem mgmt_admission:
  assumes "ap_ok conf s"
  shows "case ieee802_11_mgmt e conf mc mgmt s of
      Inl f \<Rightarrow> mgmt_fault e (conf_max_num_sta conf) (frame_sa mgmt) f
    | Inr (r, s') \<Rightarrow> mgmt_result conf (frame_sa mgmt) (frame_edges (frame_type mgmt)) s s'"
  using runs_mgmt [OF assms, of e mgmt mc] by (auto simp: runs_def split: sum.splits)

definition demo_join_frame :: buf where
  "demo_join_frame = auth_frame demo_ap_mac demo_addr demo_ap_mac 0 1 0 []"

theorem mgmt_admission_witness:
  "case ieee802_11_mgmt (demo_mgmt_env 0) demo_conf demo_mgmt_conf demo_join_frame (demo_held SELECTED 0) of
      Inl f \<Rightarrow> mgmt_fault (demo_mgmt_env 0) 255 demo_addr f
    | Inr (r, s') \<Rightarrow> mgmt_result demo_conf demo_addr {(SELECTED, AUTHENTICATED)} (demo_held SELECTED 0) s'"
proof -
  have f: "frame_sa demo_join_frame = demo_addr" "frame_type demo_join_frame = Some WLAN_FC_STYPE_AUTH" by code_simp+
  have m: "conf_max_num_sta demo_conf = 255" by (simp add: demo_conf_def)
  show ?thesis
    by (rule mgmt_admission [OF demo_held_ok(1) [of SELECTED 0], where e = "demo_mgmt_env 0" and mc = demo_mgmt_conf and mgmt = demo_join_frame,
        unfolded f m frame_edges.simps])
qed

end
