(* ===== verification/Hap_Assoc.thy ===== *)
theory Hap_Assoc
  imports Hap_Mgmt
begin

text \<open>Two ways through the admission in full: an association request that is accepted, up to the report that the
  controller gets, and the three turns of the inactivity timer that drop a station that is silent. The last
  theorems show where the station list of the access point and the stations of hostapd part: when the driver
  refuses the station, and when the timer drops it, the list keeps the station as associated, and its next
  requests are ignored.\<close>

section \<open>An association that succeeds\<close>

lemma step_ok_run: "step_ok f \<Longrightarrow> f x i = (r, y, j) \<Longrightarrow> sta_same (x, i) (y, j)"
  unfolding step_ok_def by blast

definition sta_is :: "mac \<Rightarrow> nat \<Rightarrow> sta_info \<Rightarrow> access_point \<Rightarrow> bool" where
  "sta_is a p x s \<longleftrightarrow> hap_inv (ap_hapd s) \<and> hap_find (ap_hapd s) a = Some (p, x)"

lemma with_sta_is:
  assumes "sta_is a p x s" "f x (iface (ap_hapd s)) = (r, y, i)" "sta_same (x, iface (ap_hapd s)) (y, i)"
  obtains h where "with_sta p f s = Inr (r, s\<lparr>ap_hapd := h\<rparr>)" "sta_is a p y (s\<lparr>ap_hapd := h\<rparr>)" "iface h = i"
proof -
  have x: "hap_inv (ap_hapd s)" "hap_find (ap_hapd s) a = Some (p, x)" using assms(1) by (simp_all add: sta_is_def)
  obtain h where "with_sta p f s = Inr (r, s\<lparr>ap_hapd := h\<rparr>)" "hap_moves a (ap_hapd s) h" "hap_find h a = Some (p, y)" "iface h = i"
    using with_sta_run [where f = f, OF x assms(2,3)] by blast
  then show thesis using that by (auto simp: sta_is_def hap_moves_def)
qed

definition aid_room :: "sta_info \<Rightarrow> hapd \<Rightarrow> bool" where
  "aid_room x h \<longleftrightarrow> sta_aid x \<noteq> 0 \<or> (\<exists>i j. aid_slot 0 (hap_sta_aid h) = Some (i, j) \<and> i * 32 + j + 1 \<le> 2007)"

lemma get_aid_is:
  assumes "sta_is a p x s" "aid_room x (ap_hapd s)"
  obtains h w where "hostapd_get_aid p (ap_hapd s) = Inr (0, h)" "sta_is a p (x\<lparr>sta_aid := w\<rparr>) (s\<lparr>ap_hapd := h\<rparr>)" "w \<noteq> 0"
proof -
  let ?h = "ap_hapd s"
  have inv: "hap_inv ?h" and x: "hap_find ?h a = Some (p, x)" using assms(1) by (simp_all add: sta_is_def)
  note at = sta_at_find(1) [OF inv x]
  show thesis
  proof (cases "sta_aid x = 0")
    case False
    then have "sta_aid x > 0" by (simp add: word_gt_0)
    then show thesis using that [of ?h "sta_aid x"] False at assms(1) by (simp add: hostapd_get_aid_def)
  next
    case True
    then obtain i j where ij: "aid_slot 0 (hap_sta_aid ?h) = Some (i, j)" "i * 32 + j + 1 \<le> 2007" using assms(2) by (auto simp: aid_room_def)
    obtain h' where "hostapd_get_aid p ?h = Inr (0, h')" "hap_moves a ?h h'" "hap_find h' a = Some (p, x\<lparr>sta_aid := word_of_nat (i * 32 + j + 1)\<rparr>)"
      using new_aid_run [OF inv x _ ij] True by auto
    moreover have "word_of_nat (i * 32 + j + 1) \<noteq> (0 :: u16)" using small_aid [OF ij(2)] by (metis Suc_eq_plus1 nat.distinct(1) unsigned_0)
    ultimately show thesis using that by (auto simp: sta_is_def hap_moves_def)
  qed
qed

text \<open>What an accepted request asks for: the rates of both elements, and the QoS information.\<close>

definition request_rates :: "elems \<Rightarrow> buf" where
  "request_rates el = (case el_supp_rates el of None \<Rightarrow> [] | Some a \<Rightarrow> a) @ (case el_ext_supp_rates el of None \<Rightarrow> [] | Some b \<Rightarrow> b)"

definition request_qos :: "mgmt_conf \<Rightarrow> elems \<Rightarrow> byte" where
  "request_qos mc el = (case el_wmm el of Some w \<Rightarrow> if mc_wmm_enabled mc then w ! 6 else 0 | None \<Rightarrow> 0)"

definition request_ok :: "mgmt_conf \<Rightarrow> u16 \<Rightarrow> elems \<Rightarrow> bool" where
  "request_ok mc li el \<longleftrightarrow> \<not> mc_mode_11ad mc \<and> mc_multi_ap mc = 0 \<and> li \<le> mc_max_listen_interval mc \<and> el_ssid el = Some (mc_ssid mc) \<and>
     el_supp_rates el \<noteq> None \<and> length (request_rates el) \<le> 32 \<and>
     (case el_wmm el of Some w \<Rightarrow> mc_wmm_enabled mc \<longrightarrow> hostapd_eid_wmm_valid w | None \<Rightarrow> True)"

definition described :: "u16 \<Rightarrow> u16 \<Rightarrow> buf \<Rightarrow> byte \<Rightarrow> sta_info \<Rightarrow> bool" where
  "described cap li rates qos x \<longleftrightarrow> sta_capability x = cap \<and> sta_listen_interval x = li \<and> sta_qosinfo x = qos \<and>
     sta_supported_rates x = rates @ replicate (32 - length rates) 0 \<and> sta_supported_rates_len x = int (length rates)"

lemma described_caps: "described cap li r q x \<Longrightarrow> same_caps x y \<Longrightarrow> described cap li r q y"
  by (simp add: described_def same_caps_def)

lemma described_len: "described cap li r q x \<Longrightarrow> length r \<le> 32 \<Longrightarrow> length (sta_supported_rates x) = 32"
  by (simp add: described_def)

lemma parsed_not_failed: "fst (parsed es u el) \<noteq> ParseFailed"
  by (induction es u el rule: parsed.induct) (auto split: prod.split)

lemma assoc_checks_accept:
  assumes el: "\<forall>x \<in> set es. elem_ok x" "parsed es False no_elems = (r, el)" and ok: "request_ok mc li el" "\<not> tkip_countermeasures e"
  shows "\<exists>y. assoc_checks e mc (pre @ concat (map elem_bytes es)) (length pre) cap li x = Inr (WLAN_STATUS_SUCCESS, y) \<and>
    described cap (sta_listen_interval x) (request_rates el) (request_qos mc el) y \<and> same_place (x\<lparr>sta_capability := cap\<rparr>) y"
proof -
  let ?x = "x\<lparr>sta_capability := cap\<rparr>"
  have p: "ieee802_11_parse_elems (pre @ concat (map elem_bytes es)) (length pre) (length (concat (map elem_bytes es))) = Inr (r, el)"
    using parse_elems_list [OF el(1), of pre "[]" False no_elems] el(2) by (simp add: ieee802_11_parse_elems_def)
  have r: "r \<noteq> ParseFailed" using parsed_not_failed [of es False no_elems] el(2) by simp
  have k: "\<not> mc_mode_11ad mc" "mc_multi_ap mc = 0" "\<not> li > mc_max_listen_interval mc" "el_ssid el = Some (mc_ssid mc)"
    using ok(1) by (simp_all add: request_ok_def not_less)
  have s: "check_ssid mc (el_ssid el) = WLAN_STATUS_SUCCESS" by (simp add: check_ssid_def k(4))
  have "fst (check_wmm mc (el_wmm el) ?x) = WLAN_STATUS_SUCCESS" "sta_qosinfo (snd (check_wmm mc (el_wmm el) ?x)) = request_qos mc el"
    using ok(1) by (simp_all add: check_wmm_def request_ok_def request_qos_def Let_def split: option.splits)
  then obtain x1 where 1: "check_wmm mc (el_wmm el) ?x = (WLAN_STATUS_SUCCESS, x1)" "sta_qosinfo x1 = request_qos mc el" by (metis prod.collapse)
  obtain x2 where 2: "copy_supp_rates mc el x1 = (WLAN_STATUS_SUCCESS, x2)"
    "sta_supported_rates x2 = request_rates el @ replicate (32 - length (request_rates el)) 0" "sta_supported_rates_len x2 = int (length (request_rates el))"
    using ok(1) unfolding copy_supp_rates_eq [OF k(1)] by (auto simp: request_ok_def request_rates_def Let_def)
  obtain x3 where 3: "check_multi_ap mc (el_multi_ap el) x2 = (WLAN_STATUS_SUCCESS, x3)" using k(2) by (simp add: check_multi_ap_def)
  note q = check_wmm_place [OF 1(1)] copy_supp_rates_place [OF 2(1)] check_multi_ap_place [OF 3]
  have "same_place ?x x3" using q same_place_trans by blast
  then have "described cap (sta_listen_interval x) (request_rates el) (request_qos mc el) x3"
    using q 1(2) 2(2,3) by (auto simp: described_def same_place_def)
  then show ?thesis
    using \<open>same_place ?x x3\<close> ok(2) k(3) r by (simp add: assoc_checks_def check_assoc_ies_def p s 1(1) 2(1) 3)
qed

lemma assoc_accept_is:
  assumes "described cap l0 r q x" "assoc_accept conf li x i = (u, y, j)"
  shows "described cap li r q y" "sta_aid y = sta_aid x"
proof -
  obtain x1 i1 where 1: "update_nonerp conf (x\<lparr>sta_listen_interval := li\<rparr>) i = (x1, i1)" by (metis prod.exhaust)
  obtain x2 i2 where 2: "update_slot_time conf x1 i1 = (x2, i2)" by (metis prod.exhaust)
  obtain x3 i3 where 3: "update_preamble conf x2 i2 = (x3, i3)" by (metis prod.exhaust)
  have "same_caps (x\<lparr>sta_listen_interval := li\<rparr>) x1" "same_caps x1 x2" "same_caps x2 x3"
    using nonerp_keeps(1) slot_time_keeps(1) preamble_keeps(1) 1 2 3 by (metis fst_conv)+
  then have "same_caps (x\<lparr>sta_listen_interval := li\<rparr>) x3" using same_caps_trans by blast
  then have "same_caps (x\<lparr>sta_listen_interval := li\<rparr>) y" using assms(2) by (auto simp: assoc_accept_def 1 2 3 same_caps_def)
  then show "described cap li r q y" "sta_aid y = sta_aid x" using assms(1) by (simp_all add: described_def same_caps_def)
qed

definition assoc_verdict :: "'e mgmt_env_scheme \<Rightarrow> u16" where
  "assoc_verdict e = (if drv_sta_add_ret (hap_results e) \<noteq> 0 then WLAN_STATUS_AP_UNABLE_TO_HANDLE_NEW_STA else WLAN_STATUS_SUCCESS)"

lemma assoc_reply_is:
  assumes "described cap li r q x" "assoc_reply e re a WLAN_STATUS_SUCCESS x i = (u, y, j)"
  shows "described cap li r q y" "sta_aid y = sta_aid x" "Send_assoc_resp a (assoc_verdict e) re \<in> set (hap_events j)"
proof -
  obtain v x1 i1 where 1: "add_associated_sta e x i = (v, x1, i1)" by (metis prod_cases3)
  have c: "same_caps x x1" "v = assoc_verdict e"
    using 1 by (auto simp: add_associated_sta_def drop_unassoc_def assoc_verdict_def same_caps_def Let_def split: if_splits)
  then have "same_caps x y" "Send_assoc_resp a (assoc_verdict e) re \<in> set (hap_events j)"
    using assms(2) 1 by (auto simp: assoc_reply_def drop_unassoc_def same_caps_def emit_def Let_def split: if_splits)
  then show "described cap li r q y" "sta_aid y = sta_aid x" "Send_assoc_resp a (assoc_verdict e) re \<in> set (hap_events j)"
    using described_caps [OF assms(1)] by (simp_all add: same_caps_def)
qed

definition assoc_request :: "buf \<Rightarrow> u16 \<Rightarrow> u16 \<Rightarrow> buf \<Rightarrow> (byte \<times> buf) list \<Rightarrow> buf" where
  "assoc_request hdr cap li cur es = hdr @ bytes16 cap @ bytes16 li @ cur @ concat (map elem_bytes es)"

text \<open>From the status on, all that follows is told and answered.\<close>

lemma assoc_tell:
  assumes g: "gated m a AUTHENTICATED q s" and x: "sta_is a p x s" "described cap li r w x" and e: "memory e" "pthread_ok e"
    and l: "staList s = Live l" "sta_abs l a = Some i"
  shows "\<exists>l' h y. bindE (on_stations (changeStatus q ASSOCIATED) s) (\<lambda>s. bindE (start_report e False mgmt (Some p) s) (\<lambda>s.
      bindE (with_sta p (\<lambda>sta i. ((), sta\<lparr>timeout_next := STA_NULLFUNC, pending_wds_enable := False\<rparr>, i)) s) (\<lambda>(_, s).
      assoc_finish e re a WLAN_STATUS_SUCCESS (Some p) s))) =
    Inr (s\<lparr>staList := Live l', sta_msg_threads := sta_msg_threads s @ [\<lparr>mh_mgmt = mgmt, mh_len = length mgmt, mh_sta = Some p\<rparr>], ap_hapd := h\<rparr>) \<and>
    stas_ok m l' \<and> sta_abs l' = (sta_abs l)(a \<mapsto> set_status ASSOCIATED i) \<and> hap_inv h \<and> hap_find h a = Some (p, y) \<and>
    described cap li r w y \<and> sta_aid y = sta_aid x \<and> Send_assoc_resp a (assoc_verdict e) re \<in> set (hap_events (iface h))"
proof -
  obtain l' where l': "stas_ok m l'" "sta_abs l' = (sta_abs l)(a \<mapsto> set_status ASSOCIATED i)"
    "on_stations (changeStatus q ASSOCIATED) s = Inr (s\<lparr>staList := Live l'\<rparr>)"
    using l by (auto intro: status_run [OF g, of ASSOCIATED])
  define s1 where "s1 = s\<lparr>staList := Live l', sta_msg_threads := sta_msg_threads s @ [\<lparr>mh_mgmt = mgmt, mh_len = length mgmt, mh_sta = Some p\<rparr>]\<rparr>"
  have s1: "start_report e False mgmt (Some p) (s\<lparr>staList := Live l'\<rparr>) = Inr s1" "sta_is a p x s1"
    using e x(1) by (simp_all add: start_report_def memory_def spawn_def s1_def sta_is_def)
  let ?x = "x\<lparr>timeout_next := STA_NULLFUNC, pending_wds_enable := False\<rparr>"
  obtain h1 where h1: "with_sta p (\<lambda>sta i. ((), sta\<lparr>timeout_next := STA_NULLFUNC, pending_wds_enable := False\<rparr>, i)) s1 = Inr ((), s1\<lparr>ap_hapd := h1\<rparr>)"
    "sta_is a p ?x (s1\<lparr>ap_hapd := h1\<rparr>)"
    by (rule with_sta_is [OF s1(2), where f = "\<lambda>sta i. ((), sta\<lparr>timeout_next := STA_NULLFUNC, pending_wds_enable := False\<rparr>, i)"]) auto
  obtain u y j where y: "assoc_reply e re a WLAN_STATUS_SUCCESS ?x (iface h1) = (u, y, j)" by (metis prod_cases3)
  have d: "described cap li r w ?x" using x(2) by (simp add: described_def)
  obtain h2 where h2: "with_sta p (assoc_reply e re a WLAN_STATUS_SUCCESS) (s1\<lparr>ap_hapd := h1\<rparr>) = Inr (u, s1\<lparr>ap_hapd := h1, ap_hapd := h2\<rparr>)"
    "sta_is a p y (s1\<lparr>ap_hapd := h1, ap_hapd := h2\<rparr>)" "iface h2 = j"
    using with_sta_is [OF h1(2), where f = "assoc_reply e re a WLAN_STATUS_SUCCESS", of u y j] y assoc_reply_ok [of e re a WLAN_STATUS_SUCCESS]
    by (auto simp: step_ok_def)
  show ?thesis
    using l' s1(1) h1(1) h2 assoc_reply_is [OF d y] by (intro exI [of _ l'] exI [of _ h2] exI [of _ y]) (simp add: assoc_finish_def s1_def sta_is_def)
qed

lemma assoc_station_run:
  assumes el: "\<forall>x \<in> set es. elem_ok x" "parsed es False no_elems = (rr, el)" and ok: "request_ok mc li el" "\<not> tkip_countermeasures e"
    and g: "gated m a AUTHENTICATED q s" and x: "sta_is a p x s" "aid_room x (ap_hapd s)" and e: "memory e" "pthread_ok e"
    and l: "staList s = Live l" "sta_abs l a = Some i"
    and f: "24 \<le> length pre" "\<And>fc sq. frame_fc (pre @ concat (map elem_bytes es)) = Inr fc \<Longrightarrow> frame_seq_ctrl (pre @ concat (map elem_bytes es)) = Inr sq \<Longrightarrow>
      \<not> repeated fc sq (assoc_subtype re) x"
  shows "\<exists>l' h y. assoc_station e conf mc (pre @ concat (map elem_bytes es)) re a (length pre) cap li q p s =
    Inr (s\<lparr>staList := Live l', sta_msg_threads := sta_msg_threads s @ [\<lparr>mh_mgmt = pre @ concat (map elem_bytes es),
      mh_len = length (pre @ concat (map elem_bytes es)), mh_sta = Some p\<rparr>], ap_hapd := h\<rparr>) \<and>
    stas_ok m l' \<and> sta_abs l' = (sta_abs l)(a \<mapsto> set_status ASSOCIATED i) \<and> hap_inv h \<and> hap_find h a = Some (p, y) \<and>
    described cap li (request_rates el) (request_qos mc el) y \<and> sta_aid y \<noteq> 0 \<and> Send_assoc_resp a (assoc_verdict e) re \<in> set (hap_events (iface h))"
proof -
  define mgmt where "mgmt = pre @ concat (map elem_bytes es)"
  have inv: "hap_inv (ap_hapd s)" "hap_find (ap_hapd s) a = Some (p, x)" using x(1) by (simp_all add: sta_is_def)
  have "24 \<le> length mgmt" using f(1) by (simp add: mgmt_def)
  then obtain fc sq where r: "frame_fc mgmt = Inr fc" "frame_seq_ctrl mgmt = Inr sq" using mgmt_reads(4,5) by blast
  have nr: "\<not> repeated fc sq (assoc_subtype re) x" by (rule f(2)) (use r in \<open>simp_all add: mgmt_def\<close>)
  let ?x = "x\<lparr>last_seq_ctrl := sq, last_subtype := word_of_nat (assoc_subtype re)\<rparr>" and ?i = "iface (ap_hapd s)"
  obtain y where y: "assoc_checks e mc mgmt (length pre) cap li ?x = Inr (WLAN_STATUS_SUCCESS, y)"
    "described cap (sta_listen_interval ?x) (request_rates el) (request_qos mc el) y" "same_place (?x\<lparr>sta_capability := cap\<rparr>) y"
    using assoc_checks_accept [OF el ok] unfolding mgmt_def by blast
  have n: "length (request_rates el) \<le> 32" using ok(1) by (simp add: request_ok_def)
  have "sta_same (?x\<lparr>sta_capability := cap\<rparr>, ?i) (y, ?i)" by (rule same_place_same [OF y(3) described_len [OF y(2) n]])
  then have "sta_same (x, ?i) (y, ?i)" by (rule sta_same_trans [rotated]) simp
  then obtain h1 where h1: "with_sta p (\<lambda>_ i. ((), y, i)) s = Inr ((), s\<lparr>ap_hapd := h1\<rparr>)" "sta_is a p y (s\<lparr>ap_hapd := h1\<rparr>)" "hap_sta_aid h1 = hap_sta_aid (ap_hapd s)"
    using with_sta_run [OF inv, of "\<lambda>_ i. ((), y, i)" "()" y ?i] by (auto simp: sta_is_def hap_moves_def)
  have room: "aid_room y (ap_hapd (s\<lparr>ap_hapd := h1\<rparr>))" using x(2) h1(3) y(3) by (simp add: aid_room_def same_place_def)
  obtain h2 w where h2: "hostapd_get_aid p h1 = Inr (0, h2)" "sta_is a p (y\<lparr>sta_aid := w\<rparr>) (s\<lparr>ap_hapd := h2\<rparr>)" "w \<noteq> 0"
    using get_aid_is [OF h1(2) room] by auto
  obtain u z j where z: "assoc_accept conf li (y\<lparr>sta_aid := w\<rparr>) (iface h2) = (u, z, j)" by (metis prod_cases3)
  have "described cap (sta_listen_interval ?x) (request_rates el) (request_qos mc el) (y\<lparr>sta_aid := w\<rparr>)" using y(2) by (simp add: described_def)
  note za = assoc_accept_is [OF this z]
  obtain h3 where h3: "with_sta p (assoc_accept conf li) (s\<lparr>ap_hapd := h2\<rparr>) = Inr (u, s\<lparr>ap_hapd := h3\<rparr>)" "sta_is a p z (s\<lparr>ap_hapd := h3\<rparr>)"
    using with_sta_is [OF h2(2), where f = "assoc_accept conf li", of u z j] z assoc_accept_ok [of conf li] by (auto simp: step_ok_def)
  have g': "gated m a AUTHENTICATED q (s\<lparr>ap_hapd := h3\<rparr>)" using g by (simp add: gated_def)
  have "staList (s\<lparr>ap_hapd := h3\<rparr>) = Live l" using l(1) by simp
  from assoc_tell [OF g' h3(2) za(1) e this l(2), of mgmt re]
  show ?thesis
  proof (elim exE, goal_cases told)
    case (told l' h t)
    then show ?case
      unfolding mgmt_def [symmetric] assoc_station_def r bindE.simps sta_at_find(1) [OF inv] using nr h2(3) za(2)
      by (intro exI [of _ l'] exI [of _ h] exI [of _ t]) (simp add: y(1) h1(1) h2(1) h3(1) Let_def WLAN_STATUS_SUCCESS_def)
  qed
qed

lemma sender_found:
  assumes "ap_controller s = Live c" "staList s = Live l" "stas_ok m l" "sta_abs l a = Some i" "si_status i = u"
  obtains q where "sender_with u a s = Inr (Some q)" "gated m a u q s"
proof -
  obtain q where q: "lookupSenderSTA a l = Inr (Some q)" "get_sta q l = Inr i" by (rule known_sta [OF assms(3,4)])
  show thesis
    by (rule that [of q]) (use assms q in \<open>simp_all add: sender_with_def ap_lookupSTA_def ap_stations_def ap_info_def gated_def\<close>)
qed

text \<open>A request of a station that the list has as authenticated, and that the checks accept.\<close>

definition assoc_ready :: "'e mgmt_env_scheme \<Rightarrow> mgmt_conf \<Rightarrow> buf \<Rightarrow> u16 \<Rightarrow> bool \<Rightarrow> (byte \<times> buf) list \<Rightarrow> elems \<Rightarrow> buf \<Rightarrow> access_point \<Rightarrow> bool" where
  "assoc_ready e mc hdr li re es el cur s \<longleftrightarrow> length hdr = 24 \<and> length cur = (if re then 6 else 0) \<and> list_all elem_ok es \<and>
     snd (parsed es False no_elems) = el \<and> request_ok mc li el \<and> \<not> tkip_countermeasures e \<and> memory e \<and> pthread_ok e \<and>
     map_option si_status (sta_view s (frame_sa hdr)) = Some AUTHENTICATED \<and>
     (case hap_abs (ap_hapd s) (frame_sa hdr) of None \<Rightarrow> False
      | Some x \<Rightarrow> bit (sta_flags x) 0 \<and> aid_room x (ap_hapd s) \<and>
          \<not> repeated (le16 (hdr ! 0) (hdr ! 1)) (le16 (hdr ! 22) (hdr ! 23)) (assoc_subtype re) x)"

lemma request_reads:
  assumes "length hdr = 24"
  shows "frame_sa (assoc_request hdr cap li cur es) = frame_sa hdr" "frame_type (assoc_request hdr cap li cur es) = frame_type hdr"
    "ld16 (assoc_request hdr cap li cur es) 24 = Inr cap" "ld16 (assoc_request hdr cap li cur es) (24 + 2) = Inr li"
    "frame_fc (assoc_request hdr cap li cur es) = Inr (le16 (hdr ! 0) (hdr ! 1))"
    "frame_seq_ctrl (assoc_request hdr cap li cur es) = Inr (le16 (hdr ! 22) (hdr ! 23))"
  using assms by (simp_all add: assoc_request_def frame_sa_def frame_type_def nth_append frame_fc_def frame_seq_ctrl_def layout_simps
      ld16_def bytes_expand)

lemma handle_assoc_run:
  assumes ok: "ap_ok conf s" and r: "assoc_ready e mc hdr li re es el cur s" and l: "staList s = Live l" "sta_abs l (frame_sa hdr) = Some i"
  shows "\<exists>l' h p y. handle_assoc e conf mc (assoc_request hdr cap li cur es) re s =
    Inr (s\<lparr>staList := Live l', sta_msg_threads := sta_msg_threads s @ [\<lparr>mh_mgmt = assoc_request hdr cap li cur es,
      mh_len = length (assoc_request hdr cap li cur es), mh_sta = Some p\<rparr>], ap_hapd := h\<rparr>) \<and>
    stas_ok (conf_max_num_sta conf) l' \<and> sta_abs l' = (sta_abs l)(frame_sa hdr \<mapsto> set_status ASSOCIATED i) \<and>
    hap_inv h \<and> hap_find h (frame_sa hdr) = Some (p, y) \<and> described cap li (request_rates el) (request_qos mc el) y \<and> sta_aid y \<noteq> 0 \<and>
    Send_assoc_resp (frame_sa hdr) (assoc_verdict e) re \<in> set (hap_events (iface h))"
proof -
  let ?a = "frame_sa hdr"
  define mgmt where "mgmt = assoc_request hdr cap li cur es"
  define pre where "pre = hdr @ bytes16 cap @ bytes16 li @ cur"
  have m: "mgmt = pre @ concat (map elem_bytes es)" by (simp add: mgmt_def pre_def assoc_request_def)
  have len: "length hdr = 24" "length pre = 24 + (if re then 10 else 4)" using r by (simp_all add: assoc_ready_def pre_def)
  note rd = request_reads [OF len(1), of cap li cur es, folded mgmt_def]
  obtain rr where el: "\<forall>x \<in> set es. elem_ok x" "parsed es False no_elems = (rr, el)" "request_ok mc li el" "\<not> tkip_countermeasures e" "memory e" "pthread_ok e"
    using r by (auto simp: assoc_ready_def list_all_iff) (metis prod.collapse)
  obtain p x where x: "hap_find (ap_hapd s) ?a = Some (p, x)" "bit (sta_flags x) 0" "aid_room x (ap_hapd s)"
    "\<not> repeated (le16 (hdr ! 0) (hdr ! 1)) (le16 (hdr ! 22) (hdr ! 23)) (assoc_subtype re) x"
    using r by (auto simp: assoc_ready_def hap_abs_def split: option.splits)
  have inv: "hap_inv (ap_hapd s)" using ok by (simp add: ap_ok_def)
  obtain c where c: "ap_controller s = Live c" "stas_ok (conf_max_num_sta conf) l" using ok l(1) by (auto simp: ap_ok_def ap_up_def)
  have "si_status i = AUTHENTICATED" using r l by (simp add: assoc_ready_def sta_view_def)
  then obtain q where q: "sender_with AUTHENTICATED ?a s = Inr (Some q)" "gated (conf_max_num_sta conf) ?a AUTHENTICATED q s"
    by (rule sender_found [OF c(1) l(1) c(2) l(2)])
  have is_sta: "sta_is ?a p x s" using inv x(1) by (simp add: sta_is_def)
  have "bit (sta_flags x AND WLAN_STA_AUTH) 0" using x(2) by (simp add: WLAN_STA_AUTH_def flag_bits)
  then have "sta_flags x AND WLAN_STA_AUTH \<noteq> 0" by auto
  then have au: "ap_get_sta ?a (ap_hapd s) = Inr (Some p)" "is_authenticated (Some p) (ap_hapd s) = Inr True"
    using ap_get_sta_eq [OF inv, of ?a] x(1) sta_at_find(1) [OF inv x(1)] by (simp_all add: is_authenticated_def)
  have "24 \<le> length mgmt" "\<not> length mgmt < 24 + (if re then 10 else 4)" using len by (simp_all add: m)
  then have "handle_assoc e conf mc mgmt re s = assoc_station e conf mc mgmt re ?a (length pre) cap li q p s"
    unfolding handle_assoc_def IEEE80211_HDRLEN_def sizeof_assoc_req_def sizeof_reassoc_req_def
    using rd mgmt_reads(1) [of mgmt] q(1) au len(2) by (simp add: Let_def non_null_def)
  then have run: "handle_assoc e conf mc (assoc_request hdr cap li cur es) re s = assoc_station e conf mc mgmt re ?a (length pre) cap li q p s"
    by (simp add: mgmt_def)
  have "24 \<le> length pre" "\<And>fc sq. frame_fc mgmt = Inr fc \<Longrightarrow> frame_seq_ctrl mgmt = Inr sq \<Longrightarrow> \<not> repeated fc sq (assoc_subtype re) x"
    using len rd(5,6) x(4) by simp_all
  from assoc_station_run [OF el(1-4) q(2) is_sta x(3) el(5,6) l, of pre re conf cap, folded m, OF this]
  show ?thesis unfolding run unfolding mgmt_def by blast
qed

section \<open>A silent station\<close>

definition silent :: "timer_env \<Rightarrow> bool" where
  "silent te \<longleftrightarrow> 0 \<le> ap_max_inactivity te \<and> ap_max_inactivity te \<le> inactive_sec te \<and> \<not> skip_inactivity_poll te"

lemma flag_nonzero: "bit w n \<Longrightarrow> n < 32 \<Longrightarrow> w AND BIT n \<noteq> (0 :: u32)"
  by (metis flag_bits bit_0_eq bot_apply bot_bool_def)

text \<open>The three turns of the timer: the poll, the disassociation, the end.\<close>

lemma timer_poll:
  assumes "silent te" "bit (sta_flags x) 1" "timeout_next x = STA_NULLFUNC"
  obtains i' where "timer_step te x i = (False, x\<lparr>timeout_next := STA_DISASSOC, sta_flags := sta_flags x OR WLAN_STA_PENDING_POLL\<rparr>, i')"
  using assms flag_nonzero [OF assms(2)]
  by (simp add: timer_step_def timer_inactivity_def timer_frame_def timer_action_def silent_def ENOENT_def WLAN_STA_ASSOC_def Let_def)

lemma timer_disassoc:
  assumes "silent te" "bit (sta_flags x) 1" "bit (sta_flags x) 6" "timeout_next x = STA_DISASSOC"
  shows "\<exists>y i'. timer_step te x i = (False, y, i') \<and> timeout_next y = STA_DEAUTH \<and> \<not> bit (sta_flags y) 1"
proof -
  obtain F i1 where "ap_sta_set_authorized False (x\<lparr>timeout_next := STA_DISASSOC\<rparr>) (emit (Drv_sta_disassoc (sta_addr x)) i) =
      (x\<lparr>timeout_next := STA_DISASSOC\<rparr>\<lparr>sta_flags := F\<rparr>, i1)" by (rule set_authorized_form)
  then show ?thesis
    using assms flag_nonzero [OF assms(2)] flag_nonzero [OF assms(3)]
    by (simp add: timer_step_def timer_inactivity_def timer_frame_def timer_action_def silent_def ENOENT_def WLAN_STA_ASSOC_def
        WLAN_STA_PENDING_POLL_def idle_cause_def flag_bits Let_def)
qed

lemma timer_deauth:
  assumes "timeout_next x = STA_DEAUTH" "\<not> bit (sta_flags x) 1"
  shows "\<exists>y i'. timer_step te x i = (True, y, i')"
proof -
  have "sta_flags x AND WLAN_STA_ASSOC = 0" by (rule bit_eqI) (use assms(2) in \<open>auto simp: flag_bits\<close>)
  then show ?thesis using assms by (simp add: timer_step_def timer_inactivity_def timer_frame_def timer_action_def Let_def)
qed

lemma timer_turn:
  assumes "hap_inv (ap_hapd s)" "hap_find (ap_hapd s) a = Some (p, x)" "timer_step te x (iface (ap_hapd s)) = (False, y, i)"
  obtains h where "ap_handle_timer conf te p s = Inr (s\<lparr>ap_hapd := h\<rparr>)" "hap_moves a (ap_hapd s) h" "hap_find h a = Some (p, y)"
proof -
  have "sta_same (x, iface (ap_hapd s)) (y, i)" by (rule step_ok_run [OF timer_step_ok assms(3)])
  then obtain h where "with_sta p (timer_step te) s = Inr (False, s\<lparr>ap_hapd := h\<rparr>)" "hap_moves a (ap_hapd s) h" "hap_find h a = Some (p, y)"
    using with_sta_run [where f = "timer_step te", OF assms] by blast
  then show thesis using that by (simp add: ap_handle_timer_def)
qed

lemma timer_end:
  assumes "hap_inv (ap_hapd s)" "hap_find (ap_hapd s) a = Some (p, x)" "timer_step te x (iface (ap_hapd s)) = (True, y, i)"
  obtains h where "ap_handle_timer conf te p s = Inr (s\<lparr>ap_hapd := h\<rparr>)" "hap_moves a (ap_hapd s) h" "hap_abs h a = None"
proof -
  have "sta_same (x, iface (ap_hapd s)) (y, i)" by (rule step_ok_run [OF timer_step_ok assms(3)])
  then obtain h where h: "with_sta p (timer_step te) s = Inr (True, s\<lparr>ap_hapd := h\<rparr>)" "hap_moves a (ap_hapd s) h" "hap_find h a = Some (p, y)"
    using with_sta_run [where f = "timer_step te", OF assms] by blast
  then obtain h' where "free_station conf p (s\<lparr>ap_hapd := h\<rparr>) = Inr (s\<lparr>ap_hapd := h'\<rparr>)" "hap_moves a h h'" "hap_abs h' a = None"
    using free_run [of "s\<lparr>ap_hapd := h\<rparr>" a p y conf] by (auto simp: hap_moves_def)
  then show thesis using that h by (auto simp: ap_handle_timer_def hap_moves_def)
qed

section \<open>Frames in a row\<close>

definition joins :: "fc_stype option \<Rightarrow> bool" where
  "joins t \<longleftrightarrow> t = Some WLAN_FC_STYPE_AUTH \<or> t = Some WLAN_FC_STYPE_ASSOC_REQ \<or> t = Some WLAN_FC_STYPE_REASSOC_REQ"

text \<open>The reports a frame starts are about that frame, and a request to join starts one only where its sender's status moves.\<close>

definition reports_frame :: "buf \<Rightarrow> access_point \<Rightarrow> access_point \<Rightarrow> bool" where
  "reports_frame f s s' \<longleftrightarrow> (\<exists>ts. sta_msg_threads s' = sta_msg_threads s @ ts \<and> (\<forall>h \<in> set ts. mh_mgmt h = f))"

lemma quiet_reports: "quiet a s s' \<Longrightarrow> reports_frame f s s'"
  by (auto simp: quiet_def reports_frame_def)

lemma done_reports: "frame_done m a T f s s' \<Longrightarrow> reports_frame f s s'"
  unfolding frame_done_def
proof (elim disjE exE conjE)
  fix s1 s2 assume q: "quiet a s s1" "turned m a T f s1 s2" "quiet a s2 s'"
  have "sta_msg_threads s1 = sta_msg_threads s" "sta_msg_threads s' = sta_msg_threads s2" using q(1,3) by (auto simp: quiet_def)
  then show "reports_frame f s s'" using q(2) by (auto simp: turned_def reports_frame_def)
qed (rule quiet_reports)

lemma runs_mgmt_reports:
  assumes ok: "ap_ok conf s"
  shows "runs (mgmt_fault e (conf_max_num_sta conf) (frame_sa mgmt)) (\<lambda>(r, t). reports_frame mgmt s t \<and>
      (joins (frame_type mgmt) \<longrightarrow> frame_done (conf_max_num_sta conf) (frame_sa mgmt) (frame_edges (frame_type mgmt)) mgmt s t))
    (ieee802_11_mgmt e conf mc mgmt s)"
proof (cases "length mgmt < 24")
  case True
  then show ?thesis using quiet_refl [of s] ok quiet_reports by (simp add: ieee802_11_mgmt_def ap_ok_def frame_done_def)
next
  case False
  then have l: "24 \<le> length mgmt" by simp
  let ?m = "conf_max_num_sta conf" and ?a = "frame_sa mgmt"
  let ?B = "mgmt_fault e ?m ?a" and ?Q = "\<lambda>(r :: int, t). reports_frame mgmt s t \<and>
    (joins (frame_type mgmt) \<longrightarrow> frame_done ?m ?a (frame_edges (frame_type mgmt)) mgmt s t)"
  have up: "ap_up ?m s" "hap_inv (ap_hapd s)" using ok by (simp_all add: ap_ok_def)
  obtain fc da bs where r: "frame_fc mgmt = Inr fc" "mgmt_da mgmt = Inr da" "mgmt_bssid mgmt = Inr bs" using mgmt_reads(2-4) [OF l] by blast
  have q: "?Q (k, t)" if "quiet ?a s t" for k t using that quiet_reports by (simp add: frame_done_def)
  have q': "?Q (k, s)" "?Q (k, emit_ap ev s)" for k ev by (rule q [OF quiet_refl [OF up(2)]]) (rule q [OF emit_quiet [OF up(2)]])
  have h: "runs ?B ?Q (bindE f (\<lambda>t. Inr (1, t)))"
    if "WLAN_FC_GET_STYPE fc = stype t" "frame_edges (Some t) = T" "runs ?B (frame_done ?m ?a T mgmt s) f" for t f T
    by (rule runs_handled [OF that(3)]) (use done_reports frame_type_stype [OF l r(1) that(1)] that(2) in auto)
  have probe: "runs ?B ?Q (bindE (bindE (start_report e False mgmt None s) (\<lambda>s. Inr (emit_ap ev s))) (\<lambda>s. Inr (1, s)))"
    if "WLAN_FC_GET_STYPE fc = stype WLAN_FC_STYPE_PROBE_REQ" for ev
    using frame_type_stype [OF l r(1) that]
    by (auto simp: start_report_def mgmt_fault_def memory_def joins_def reports_frame_def emit_ap_def spawn_def)
  have act: "runs ?B ?Q (handle_action e mgmt s)"
    by (rule runs_mono [OF runs_handle_action [OF l up]]) (use q in auto)
  note hs = h [OF _ frame_edges.simps(1) runs_handle_auth [OF l up]] h [OF _ frame_edges.simps(2) runs_handle_assoc [OF l up]]
    h [OF _ frame_edges.simps(3) runs_handle_assoc [OF l up]] h [OF _ frame_edges.simps(4) runs_handle_disassoc [OF l up]]
    h [OF _ frame_edges.simps(5) runs_handle_deauth [OF l up]]
  show ?thesis
    unfolding ieee802_11_mgmt_def r mgmt_reads(1) [OF l] bindE.simps Let_def
    by (intro runs_if probe act hs) (use q' False in \<open>simp_all only: runs_simps\<close>)
qed

text \<open>In the status associated, a station's requests to join change neither the list nor the reports.\<close>

lemma associated_locked:
  assumes ok: "ap_ok conf s" and i: "sta_view s (frame_sa f) = Some i" "si_status i = ASSOCIATED" and t: "joins (frame_type f)"
    and r: "ieee802_11_mgmt e conf mc f s = Inr (v, s')"
  shows "staList s' = staList s" "sta_msg_threads s' = sta_msg_threads s"
proof -
  have "frame_done (conf_max_num_sta conf) (frame_sa f) (frame_edges (frame_type f)) f s s'"
    using runs_mgmt_reports [OF ok, of e f mc] r t by simp
  moreover have "\<not> turned m (frame_sa f) (frame_edges (frame_type f)) f s1 s2" if "quiet (frame_sa f) s s1" for m s1 s2
    using that i t by (auto simp: turned_def quiet_def sta_view_def joins_def split: obj.splits)
  ultimately have "quiet (frame_sa f) s s'" unfolding frame_done_def by blast
  then show "staList s' = staList s" "sta_msg_threads s' = sta_msg_threads s" by (auto simp: quiet_def)
qed

text \<open>Frames that arrive one after another, each with what its handling meets.\<close>

primrec mgmt_frames :: "hap_conf \<Rightarrow> (mgmt_env \<times> mgmt_conf \<times> buf) list \<Rightarrow> access_point \<Rightarrow> access_point res" where
  "mgmt_frames conf [] s = Inr s"
| "mgmt_frames conf (x # xs) s = (case x of (e, mc, f) \<Rightarrow> bindE (ieee802_11_mgmt e conf mc f s) (\<lambda>(_, s). mgmt_frames conf xs s))"

lemma frames_locked:
  assumes "mgmt_frames conf fs s = Inr s'" "ap_ok conf s" "sta_view s a = Some i" "si_status i = ASSOCIATED"
    "\<forall>(e, mc, f) \<in> set fs. frame_sa f = a \<longrightarrow> joins (frame_type f)"
  shows "ap_ok conf s' \<and> sta_view s' a = Some i \<and>
    (\<exists>ts. sta_msg_threads s' = sta_msg_threads s @ ts \<and> (\<forall>h \<in> set ts. frame_sa (mh_mgmt h) \<noteq> a))"
  using assms
proof (induction fs arbitrary: s)
  case (Cons x fs)
  obtain e mc f where x: "x = (e, mc, f)" by (cases x)
  obtain v t where t: "ieee802_11_mgmt e conf mc f s = Inr (v, t)" "mgmt_frames conf fs t = Inr s'"
    using Cons.prems(1) by (auto simp: x bindE_eq_Inr)
  have m: "mgmt_result conf (frame_sa f) (frame_edges (frame_type f)) s t" using runs_mgmt [OF Cons.prems(2), of e f mc] t(1) by simp
  have j: "joins (frame_type f)" if "frame_sa f = a" using Cons.prems(5) that by (simp add: x)
  note locked = associated_locked [OF Cons.prems(2) _ Cons.prems(4) j t(1)]
  have "sta_view t a = Some i"
    using m locked(1) Cons.prems(3) by (cases "frame_sa f = a") (auto simp: mgmt_result_def sta_view_def)
  moreover obtain ts where ts: "sta_msg_threads t = sta_msg_threads s @ ts" "\<forall>h \<in> set ts. frame_sa (mh_mgmt h) \<noteq> a"
  proof (cases "frame_sa f = a")
    case True
    then show thesis using that [of "[]"] locked(2) Cons.prems(3) by simp
  next
    case False
    have "reports_frame f s t" using runs_mgmt_reports [OF Cons.prems(2), of e f mc] t(1) by simp
    then obtain ts where "sta_msg_threads t = sta_msg_threads s @ ts" "\<forall>h \<in> set ts. mh_mgmt h = f" by (auto simp: reports_frame_def)
    then show thesis using that [of ts] False by auto
  qed
  ultimately show ?case using Cons.IH [OF t(2) _ _ Cons.prems(4)] m Cons.prems(5) by (fastforce simp: mgmt_result_def)
qed simp

section \<open>An example request\<close>

definition demo_elements :: "(byte \<times> buf) list" where
  "demo_elements = [(0, [0x61, 0x70]), (1, [0x82, 0x84, 0x8b, 0x96]), (50, [0x0c, 0x12])]"

definition demo_elems :: elems where
  "demo_elems = snd (parsed demo_elements False no_elems)"

lemma demo_ready: "assoc_ready (demo_mgmt_env r) demo_mgmt_conf demo_assoc_frame 10 False demo_elements demo_elems [] (demo_held AUTHENTICATED 1)"
proof -
  have f: "length demo_assoc_frame = 24" "list_all elem_ok demo_elements" "request_ok demo_mgmt_conf 10 demo_elems" "frame_sa demo_assoc_frame = demo_addr"
    "le16 (demo_assoc_frame ! 0) (demo_assoc_frame ! 1) AND WLAN_FC_RETRY = 0" "aid_slot 0 (replicate 63 0) = Some (0, 0)"
    by code_simp+
  have "hap_abs (demo_held_hapd 1) demo_addr = Some (demo_sta 1)" using demo_held_hapd_ok(2) by (simp add: hap_abs_def)
  moreover have "aid_room (demo_sta 1) (demo_held_hapd 1)" using f(6) by (simp add: aid_room_def demo_held_hapd_ok(3))
  moreover have "bit (sta_flags (demo_sta 1)) 0" by (simp add: demo_sta_def)
  ultimately show ?thesis
    using f(1-5) by (simp add: assoc_ready_def demo_held_ok(2,4) demo_elems_def [symmetric] demo_mgmt_env_def memory_def set_status_def repeated_def)
qed

text \<open>From an accepted request to the report: what the handler leaves, and what the thread it starts sends.\<close>

lemma association_run:
  assumes "ap_ok conf s" "assoc_ready e mc hdr li re es el cur s" "ap_controller s = Live c" "conn_mac c = Some m" "calloc_ok e = (\<lambda>_. True)"
    "frame_type hdr = Some (if re then WLAN_FC_STYPE_REASSOC_REQ else WLAN_FC_STYPE_ASSOC_REQ)"
  shows "\<exists>s' s'' p y i. handle_assoc e conf mc (assoc_request hdr cap li cur es) re s = Inr s' \<and>
    sta_msg_threads s' = sta_msg_threads s @
      [\<lparr>mh_mgmt = assoc_request hdr cap li cur es, mh_len = length (assoc_request hdr cap li cur es), mh_sta = Some p\<rparr>] \<and>
    hap_abs (ap_hapd s') (frame_sa hdr) = Some y \<and> described cap li (request_rates el) (request_qos mc el) y \<and> sta_aid y \<noteq> 0 \<and>
    process_sta_msg e (last (sta_msg_threads s')) s' = Inr s'' \<and>
    ap_controller s'' = Live (reply e (ap_msg e (if re then WLAN_REASSOC_REQ else WLAN_ASSOC_REQ) (assoc_body (frame_sa hdr) m y)) c) \<and>
    sta_view s'' (frame_sa hdr) = Some i \<and> si_status i = ASSOCIATED \<and> si_aid i = sta_aid y \<and> si_capability i = cap \<and> si_listen_interval i = li \<and>
    si_qosinfo i = request_qos mc el \<and> take (length (request_rates el)) (si_supported_rates i) = request_rates el \<and>
    ap_ok conf s' \<and> sta_view s' (frame_sa hdr) \<noteq> None \<and> map_option si_status (sta_view s' (frame_sa hdr)) = Some ASSOCIATED \<and>
    Send_assoc_resp (frame_sa hdr) (assoc_verdict e) re \<in> set (hap_events (iface (ap_hapd s')))"
proof -
  let ?a = "frame_sa hdr" and ?f = "assoc_request hdr cap li cur es"
  have r: "length hdr = 24" "length (request_rates el) \<le> 32" using assms(2) by (simp_all add: assoc_ready_def request_ok_def)
  obtain l i where l: "staList s = Live l" "sta_abs l ?a = Some i" using assms(2) by (auto simp: assoc_ready_def sta_view_def split: obj.splits)
  obtain l' h p y where h: "handle_assoc e conf mc ?f re s =
      Inr (s\<lparr>staList := Live l', sta_msg_threads := sta_msg_threads s @ [\<lparr>mh_mgmt = ?f, mh_len = length ?f, mh_sta = Some p\<rparr>], ap_hapd := h\<rparr>)"
    "stas_ok (conf_max_num_sta conf) l'" "sta_abs l' = (sta_abs l)(?a \<mapsto> set_status ASSOCIATED i)" "hap_inv h" "hap_find h ?a = Some (p, y)"
    "described cap li (request_rates el) (request_qos mc el) y" "sta_aid y \<noteq> 0"
    "Send_assoc_resp ?a (assoc_verdict e) re \<in> set (hap_events (iface h))"
    using handle_assoc_run [OF assms(1,2) l, of cap] by blast
  define s' where "s' = s\<lparr>staList := Live l', sta_msg_threads := sta_msg_threads s @ [\<lparr>mh_mgmt = ?f, mh_len = length ?f, mh_sta = Some p\<rparr>], ap_hapd := h\<rparr>"
  let ?th = "\<lparr>mh_mgmt = ?f, mh_len = length ?f, mh_sta = Some p\<rparr>" and ?sub = "if re then WLAN_REASSOC_REQ else WLAN_ASSOC_REQ"
  have s': "ap_controller s' = Live c" "staList s' = Live l'" "ap_hapd s' = h" using assms(3) by (simp_all add: s'_def)
  have f: "24 \<le> length (mh_mgmt ?th)" "frame_type (mh_mgmt ?th) = Some (if re then WLAN_FC_STYPE_REASSOC_REQ else WLAN_FC_STYPE_ASSOC_REQ)"
    "frame_sa (mh_mgmt ?th) = ?a"
    using r(1) assms(6) request_reads(1,2) [OF r(1), of cap li cur es] by (simp_all add: assoc_request_def)
  have y: "sta_at p (ap_hapd s') = Inr y" "length (sta_supported_rates y) = 32" "0 \<le> sta_supported_rates_len y" "sta_supported_rates_len y \<le> 32"
    "nat (sta_supported_rates_len y) = length (request_rates el)" "take (length (request_rates el)) (sta_supported_rates y) = request_rates el"
    using sta_at_find(1) [OF h(4,5)] h(6) r(2) s'(3) by (simp_all add: described_def)
  have i: "sta_abs l' (frame_sa (mh_mgmt ?th)) = Some (set_status ASSOCIATED i)" using h(3) f(3) by simp
  have sub: "(if re then WLAN_FC_STYPE_REASSOC_REQ else WLAN_FC_STYPE_ASSOC_REQ) = WLAN_FC_STYPE_ASSOC_REQ \<and> ?sub = WLAN_ASSOC_REQ \<or>
      (if re then WLAN_FC_STYPE_REASSOC_REQ else WLAN_FC_STYPE_ASSOC_REQ) = WLAN_FC_STYPE_REASSOC_REQ \<and> ?sub = WLAN_REASSOC_REQ" by simp
  have mh_sta: "mh_sta ?th = Some p" and st: "si_status (set_status ASSOCIATED i) = ASSOCIATED" by (simp_all add: set_status_def)
  obtain l'' i' where p: "process_sta_msg e ?th s' = Inr (s'\<lparr>staList := Live l'', ap_controller := Live (reply e (ap_msg e ?sub (assoc_body ?a m y)) c)\<rparr>)"
    "sta_abs l'' = (sta_abs l')(?a \<mapsto> i')" "si_aid i' = sta_aid y" "si_capability i' = sta_capability y"
    "si_listen_interval i' = sta_listen_interval y" "si_qosinfo i' = sta_qosinfo y"
    "take (length (request_rates el)) (si_supported_rates i') = request_rates el" "si_status i' = ASSOCIATED"
    using process_sta_msg_assoc [OF s'(1) assms(4) s'(2) h(2) assms(5) f(1,2) sub i mh_sta y(1-4)] unfolding f(3) y(5,6) st by blast
  define u where "u = s'\<lparr>staList := Live l'', ap_controller := Live (reply e (ap_msg e ?sub (assoc_body ?a m y)) c)\<rparr>"
  have g: "handle_assoc e conf mc ?f re s = Inr s'" "sta_msg_threads s' = sta_msg_threads s @ [?th]" by (rule h(1) [folded s'_def]) (simp add: s'_def)
  then have t: "process_sta_msg e (last (sta_msg_threads s')) s' = Inr u" using p(1) by (simp only: last_snoc u_def)
  have v: "hap_abs (ap_hapd s') ?a = Some y" "sta_view u ?a = Some i'" using h(5) s'(3) p(2) by (simp_all add: hap_abs_def sta_view_def u_def)
  have c: "ap_controller u = Live (reply e (ap_msg e ?sub (assoc_body ?a m y)) c)" by (simp add: u_def)
  have d: "si_capability i' = cap" "si_listen_interval i' = li" "si_qosinfo i' = request_qos mc el" using h(6) p(4-6) by (simp_all add: described_def)
  have o: "ap_ok conf s'" "sta_view s' ?a \<noteq> None" "map_option si_status (sta_view s' ?a) = Some ASSOCIATED"
    using assms(1) h(2-4) by (auto simp: s'_def ap_ok_def ap_inv_def ap_up_def sta_view_def set_status_def)
  have w: "Send_assoc_resp ?a (assoc_verdict e) re \<in> set (hap_events (iface (ap_hapd s')))" using h(8) s'(3) by simp
  show ?thesis by (intro exI conjI) (rule g h(6,7) t v c d p(3,7,8) o w)+
qed

section \<open>Properties\<close>

text \<open>C12. From an accepted request to the controller: when a station that is authenticated asks for an
  association with well-formed elements, the access point stores what the elements say (capabilities, listen
  interval, the rates of both rate elements, the QoS information) and an association id, answers, and the thread that
  it starts sends the controller exactly these values; the station list has them too, with the status associated. Here the report
  runs before anything else changes the station.\<close>

theorem association_reported:
  assumes "ap_ok conf s" "assoc_ready e mc hdr li re es el cur s" "ap_controller s = Live c" "conn_mac c = Some m" "calloc_ok e = (\<lambda>_. True)"
    "frame_type hdr = Some (if re then WLAN_FC_STYPE_REASSOC_REQ else WLAN_FC_STYPE_ASSOC_REQ)"
  shows "\<exists>s' s'' p y i. handle_assoc e conf mc (assoc_request hdr cap li cur es) re s = Inr s' \<and>
    sta_msg_threads s' = sta_msg_threads s @
      [\<lparr>mh_mgmt = assoc_request hdr cap li cur es, mh_len = length (assoc_request hdr cap li cur es), mh_sta = Some p\<rparr>] \<and>
    hap_abs (ap_hapd s') (frame_sa hdr) = Some y \<and> described cap li (request_rates el) (request_qos mc el) y \<and> sta_aid y \<noteq> 0 \<and>
    process_sta_msg e (last (sta_msg_threads s')) s' = Inr s'' \<and>
    ap_controller s'' = Live (reply e (ap_msg e (if re then WLAN_REASSOC_REQ else WLAN_ASSOC_REQ) (assoc_body (frame_sa hdr) m y)) c) \<and>
    sta_view s'' (frame_sa hdr) = Some i \<and> si_status i = ASSOCIATED \<and> si_aid i = sta_aid y \<and> si_capability i = cap \<and> si_listen_interval i = li \<and>
    si_qosinfo i = request_qos mc el \<and> take (length (request_rates el)) (si_supported_rates i) = request_rates el"
  using association_run [OF assms, of cap] by blast

theorem association_reported_witness:
  "\<exists>s' s'' y i. handle_assoc (demo_mgmt_env 0) demo_conf demo_mgmt_conf (assoc_request demo_assoc_frame 0x431 10 [] demo_elements) False
      (demo_held AUTHENTICATED 1) = Inr s' \<and> hap_abs (ap_hapd s') demo_addr = Some y \<and>
    process_sta_msg (demo_mgmt_env 0) (last (sta_msg_threads s')) s' = Inr s'' \<and>
    ap_controller s'' = Live (reply (demo_mgmt_env 0) (ap_msg (demo_mgmt_env 0) WLAN_ASSOC_REQ (assoc_body demo_addr demo_ap_mac y)) demo_ap_conn) \<and>
    sta_view s'' demo_addr = Some i \<and> si_status i = ASSOCIATED \<and> take 6 (si_supported_rates i) = [0x82, 0x84, 0x8b, 0x96, 0x0c, 0x12]"
proof -
  have f: "frame_sa demo_assoc_frame = demo_addr" "frame_type demo_assoc_frame = Some WLAN_FC_STYPE_ASSOC_REQ"
    "request_rates demo_elems = [0x82, 0x84, 0x8b, 0x96, 0x0c, 0x12]" by code_simp+
  have e: "calloc_ok (demo_mgmt_env 0) = (\<lambda>_. True)" "conn_mac demo_ap_conn = Some demo_ap_mac" by (simp_all add: demo_mgmt_env_def demo_ap_conn_def)
  from association_reported [OF demo_held_ok(1) demo_ready demo_held_ok(3) e(2,1), of "0x431"] f show ?thesis by (simp add: numeral_eq_Suc) blast
qed

text \<open>C39. A refused association. When the driver does not take the station, the answer to the station says so, and yet the
  station list has it as associated, and the thread that is started, with this request and this station,
  tells the controller of an association, with the values of the request. From then on, whatever frames arrive from
  whatever stations, as long as this station sends only authentication, association and reassociation
  requests its entry in the list stays as it is and no report about a frame of it is started: it is locked
  out until it disassociates or the controller removes it. (The report runs before anything else changes the station; the frames
  come one after another, and what is said of them starts at the state the refused request leaves.)\<close>

theorem refused_association:
  assumes "ap_ok conf s" "assoc_ready e mc hdr li re es el cur s" "ap_controller s = Live c" "conn_mac c = Some m" "calloc_ok e = (\<lambda>_. True)"
    "frame_type hdr = Some (if re then WLAN_FC_STYPE_REASSOC_REQ else WLAN_FC_STYPE_ASSOC_REQ)" "drv_sta_add_ret (hap_results e) \<noteq> 0"
  shows "\<exists>s' s'' p y i. handle_assoc e conf mc (assoc_request hdr cap li cur es) re s = Inr s' \<and>
    Send_assoc_resp (frame_sa hdr) WLAN_STATUS_AP_UNABLE_TO_HANDLE_NEW_STA re \<in> set (hap_events (iface (ap_hapd s'))) \<and>
    sta_view s' (frame_sa hdr) = Some i \<and> si_status i = ASSOCIATED \<and>
    sta_msg_threads s' = sta_msg_threads s @
      [\<lparr>mh_mgmt = assoc_request hdr cap li cur es, mh_len = length (assoc_request hdr cap li cur es), mh_sta = Some p\<rparr>] \<and>
    hap_abs (ap_hapd s') (frame_sa hdr) = Some y \<and> described cap li (request_rates el) (request_qos mc el) y \<and>
    process_sta_msg e (last (sta_msg_threads s')) s' = Inr s'' \<and>
    ap_controller s'' = Live (reply e (ap_msg e (if re then WLAN_REASSOC_REQ else WLAN_ASSOC_REQ) (assoc_body (frame_sa hdr) m y)) c) \<and>
    (\<forall>fs t. mgmt_frames conf fs s' = Inr t \<and> (\<forall>(e', mc', f) \<in> set fs. frame_sa f = frame_sa hdr \<longrightarrow> joins (frame_type f)) \<longrightarrow>
       sta_view t (frame_sa hdr) = Some i \<and>
       (\<exists>ts. sta_msg_threads t = sta_msg_threads s' @ ts \<and> (\<forall>h \<in> set ts. frame_sa (mh_mgmt h) \<noteq> frame_sa hdr)))"
proof -
  let ?a = "frame_sa hdr"
  have "assoc_verdict e = WLAN_STATUS_AP_UNABLE_TO_HANDLE_NEW_STA" using assms(7) by (simp add: assoc_verdict_def)
  note run = association_run [OF assms(1-6), of cap, unfolded this]
  from run obtain s' s'' p y where r: "handle_assoc e conf mc (assoc_request hdr cap li cur es) re s = Inr s'"
    "Send_assoc_resp ?a WLAN_STATUS_AP_UNABLE_TO_HANDLE_NEW_STA re \<in> set (hap_events (iface (ap_hapd s')))"
    "sta_msg_threads s' = sta_msg_threads s @
      [\<lparr>mh_mgmt = assoc_request hdr cap li cur es, mh_len = length (assoc_request hdr cap li cur es), mh_sta = Some p\<rparr>]"
    "hap_abs (ap_hapd s') ?a = Some y" "described cap li (request_rates el) (request_qos mc el) y"
    "process_sta_msg e (last (sta_msg_threads s')) s' = Inr s''"
    "ap_controller s'' = Live (reply e (ap_msg e (if re then WLAN_REASSOC_REQ else WLAN_ASSOC_REQ) (assoc_body ?a m y)) c)"
    "ap_ok conf s'" "map_option si_status (sta_view s' ?a) = Some ASSOCIATED" by blast
  then obtain i where i: "sta_view s' ?a = Some i" "si_status i = ASSOCIATED" by auto
  have "\<forall>fs t. mgmt_frames conf fs s' = Inr t \<and> (\<forall>(e', mc', f) \<in> set fs. frame_sa f = ?a \<longrightarrow> joins (frame_type f)) \<longrightarrow>
       sta_view t ?a = Some i \<and> (\<exists>ts. sta_msg_threads t = sta_msg_threads s' @ ts \<and> (\<forall>h \<in> set ts. frame_sa (mh_mgmt h) \<noteq> ?a))"
    using frames_locked [OF _ r(8) i] by blast
  then show ?thesis using r(1-7) i by blast
qed

text \<open>The demonstration station is refused, and sends its request again and a request to authenticate.\<close>

definition demo_retries :: "(mgmt_env \<times> mgmt_conf \<times> buf) list" where
  "demo_retries = [(demo_mgmt_env 0, demo_mgmt_conf, assoc_request demo_assoc_frame 0x431 10 [] demo_elements),
     (demo_mgmt_env 0, demo_mgmt_conf, demo_join_frame)]"

lemma demo_frame_runs:
  assumes "ap_ok demo_conf s" "frame_sa f = demo_addr"
  obtains v t where "ieee802_11_mgmt (demo_mgmt_env 0) demo_conf demo_mgmt_conf f s = Inr (v, t)" "ap_ok demo_conf t"
proof -
  have "\<not> mgmt_fault (demo_mgmt_env 0) (conf_max_num_sta demo_conf) (frame_sa f) x" for x
    by (simp add: mgmt_fault_def memory_def assms(2) demo_mgmt_env_def demo_conf_def demo_addr_def)
  then show thesis using that runs_mgmt [OF assms(1), of "demo_mgmt_env 0" f demo_mgmt_conf]
    by (cases "ieee802_11_mgmt (demo_mgmt_env 0) demo_conf demo_mgmt_conf f s") (auto simp: mgmt_result_def)
qed

theorem refused_association_witness:
  "\<exists>s' s'' y i t. handle_assoc (demo_mgmt_env (-1)) demo_conf demo_mgmt_conf (assoc_request demo_assoc_frame 0x431 10 [] demo_elements) False
      (demo_held AUTHENTICATED 1) = Inr s' \<and>
    Send_assoc_resp demo_addr WLAN_STATUS_AP_UNABLE_TO_HANDLE_NEW_STA False \<in> set (hap_events (iface (ap_hapd s'))) \<and>
    process_sta_msg (demo_mgmt_env (-1)) (last (sta_msg_threads s')) s' = Inr s'' \<and>
    ap_controller s'' = Live (reply (demo_mgmt_env (-1)) (ap_msg (demo_mgmt_env (-1)) WLAN_ASSOC_REQ (assoc_body demo_addr demo_ap_mac y)) demo_ap_conn) \<and>
    sta_capability y = 0x431 \<and> sta_view s' demo_addr = Some i \<and> si_status i = ASSOCIATED \<and>
    mgmt_frames demo_conf demo_retries s' = Inr t \<and> sta_view t demo_addr = Some i"
proof -
  have f: "frame_sa demo_assoc_frame = demo_addr" "frame_type demo_assoc_frame = Some WLAN_FC_STYPE_ASSOC_REQ"
    "frame_type demo_join_frame = Some WLAN_FC_STYPE_AUTH" "frame_sa demo_join_frame = demo_addr"
    "frame_sa (assoc_request demo_assoc_frame 0x431 10 [] demo_elements) = demo_addr" "frame_type (assoc_request demo_assoc_frame 0x431 10 [] demo_elements) = Some WLAN_FC_STYPE_ASSOC_REQ"
    by code_simp+
  have e: "drv_sta_add_ret (hap_results (demo_mgmt_env (-1))) \<noteq> 0" "calloc_ok (demo_mgmt_env (-1)) = (\<lambda>_. True)" "conn_mac demo_ap_conn = Some demo_ap_mac"
    "frame_type demo_assoc_frame = Some (if False then WLAN_FC_STYPE_REASSOC_REQ else WLAN_FC_STYPE_ASSOC_REQ)"
    by (simp_all add: demo_mgmt_env_def demo_ap_conn_def f(2))
  have j: "\<forall>(e', mc', f) \<in> set demo_retries. frame_sa f = demo_addr \<longrightarrow> joins (frame_type f)" by (simp add: demo_retries_def joins_def f)
  from refused_association [OF demo_held_ok(1) demo_ready demo_held_ok(3) e(3,2,4,1), of "0x431"] show ?thesis
    unfolding f(1) if_False
  proof (elim exE conjE, goal_cases refused)
    case (refused s' s'' p y i)
    have "ap_ok demo_conf s'" using association_run [OF demo_held_ok(1) demo_ready demo_held_ok(3) e(3,2,4), of "0x431"] refused(1) by auto
    then obtain v t where 1: "ieee802_11_mgmt (demo_mgmt_env 0) demo_conf demo_mgmt_conf
        (assoc_request demo_assoc_frame 0x431 10 [] demo_elements) s' = Inr (v, t)" "ap_ok demo_conf t"
      using f(5) by (rule demo_frame_runs)
    obtain w u where 2: "ieee802_11_mgmt (demo_mgmt_env 0) demo_conf demo_mgmt_conf demo_join_frame t = Inr (w, u)"
      using 1(2) f(4) by (rule demo_frame_runs)
    have "mgmt_frames demo_conf demo_retries s' = Inr u" using 1(1) 2 by (simp add: demo_retries_def)
    moreover have "sta_view u demo_addr = Some i" using refused(10) j calculation by blast
    moreover have "sta_capability y = 0x431" using refused(7) by (simp add: described_def)
    ultimately show ?case using refused by blast
  qed
qed

text \<open>C40. A silent station is dropped: when a station that is associated stays inactive, three turns of its timer (the
  poll, the disassociation, the end) remove it from hostapd, whatever else is in the tables, which stay in order. The station list and the
  connection to the controller do not change: the controller is not told.\<close>

theorem silent_station_dropped:
  assumes "ap_ok conf s" "hap_find (ap_hapd s) a = Some (p, x)" "bit (sta_flags x) 1" "timeout_next x = STA_NULLFUNC" "silent te"
  shows "\<exists>s1 s2 s3. ap_handle_timer conf te p s = Inr s1 \<and> ap_handle_timer conf te p s1 = Inr s2 \<and> ap_handle_timer conf te p s2 = Inr s3 \<and>
    hap_abs (ap_hapd s2) a \<noteq> None \<and> hap_abs (ap_hapd s3) a = None \<and> (\<forall>b. b \<noteq> a \<longrightarrow> hap_abs (ap_hapd s3) b = hap_abs (ap_hapd s) b) \<and>
    ap_ok conf s3 \<and> s3 = s\<lparr>ap_hapd := ap_hapd s3\<rparr>"
proof -
  have inv: "hap_inv (ap_hapd s)" using assms(1) by (simp add: ap_ok_def)
  let ?y = "x\<lparr>timeout_next := STA_DISASSOC, sta_flags := sta_flags x OR WLAN_STA_PENDING_POLL\<rparr>"
  obtain i1 where t1: "timer_step te x (iface (ap_hapd s)) = (False, ?y, i1)" by (rule timer_poll [OF assms(5,3,4)])
  obtain h1 where h1: "ap_handle_timer conf te p s = Inr (s\<lparr>ap_hapd := h1\<rparr>)" "hap_moves a (ap_hapd s) h1" "hap_find h1 a = Some (p, ?y)"
    by (rule timer_turn [OF inv assms(2) t1])
  have f: "bit (sta_flags ?y) 1" "bit (sta_flags ?y) 6" "timeout_next ?y = STA_DISASSOC"
    using assms(3) by (simp_all add: WLAN_STA_PENDING_POLL_def flag_bits)
  obtain z i2 where t2: "timer_step te ?y (iface h1) = (False, z, i2)" "timeout_next z = STA_DEAUTH" "\<not> bit (sta_flags z) 1"
    using timer_disassoc [OF assms(5) f] by blast
  have "hap_inv (ap_hapd (s\<lparr>ap_hapd := h1\<rparr>))" using h1(2) by (simp add: hap_moves_def)
  then obtain h2 where h2: "ap_handle_timer conf te p (s\<lparr>ap_hapd := h1\<rparr>) = Inr (s\<lparr>ap_hapd := h2\<rparr>)" "hap_moves a h1 h2" "hap_find h2 a = Some (p, z)"
    using timer_turn [of "s\<lparr>ap_hapd := h1\<rparr>" a p ?y te z i2 conf] h1(3) t2(1) by auto
  obtain u i3 where t3: "timer_step te z (iface h2) = (True, u, i3)" using timer_deauth [OF t2(2,3)] by blast
  have "hap_inv (ap_hapd (s\<lparr>ap_hapd := h2\<rparr>))" using h2(2) by (simp add: hap_moves_def)
  then obtain h3 where h3: "ap_handle_timer conf te p (s\<lparr>ap_hapd := h2\<rparr>) = Inr (s\<lparr>ap_hapd := h3\<rparr>)" "hap_moves a h2 h3" "hap_abs h3 a = None"
    using timer_end [of "s\<lparr>ap_hapd := h2\<rparr>" a p z te u i3 conf] h2(3) t3 by auto
  show ?thesis
    using h1 h2 h3 assms(1)
    by (intro exI [of _ "s\<lparr>ap_hapd := h1\<rparr>"] exI [of _ "s\<lparr>ap_hapd := h2\<rparr>"] exI [of _ "s\<lparr>ap_hapd := h3\<rparr>"])
      (auto simp: hap_moves_def hap_abs_def ap_ok_def ap_inv_def ap_up_def)
qed

theorem silent_station_dropped_witness:
  "\<exists>s1 s2 s3. ap_handle_timer demo_conf \<lparr>inactive_sec = 400, fuzz = 1, ap_max_inactivity = 300, skip_inactivity_poll = False\<rparr> 0
      (demo_held ASSOCIATED 3) = Inr s1 \<and>
    ap_handle_timer demo_conf \<lparr>inactive_sec = 400, fuzz = 1, ap_max_inactivity = 300, skip_inactivity_poll = False\<rparr> 0 s1 = Inr s2 \<and>
    ap_handle_timer demo_conf \<lparr>inactive_sec = 400, fuzz = 1, ap_max_inactivity = 300, skip_inactivity_poll = False\<rparr> 0 s2 = Inr s3 \<and>
    hap_abs (ap_hapd s3) demo_addr = None \<and> staList s3 = staList (demo_held ASSOCIATED 3)"
proof -
  let ?te = "\<lparr>inactive_sec = 400, fuzz = 1, ap_max_inactivity = 300, skip_inactivity_poll = False\<rparr> :: timer_env"
  have x: "hap_find (ap_hapd (demo_held ASSOCIATED 3)) demo_addr = Some (0, demo_sta 3)" using demo_held_hapd_ok(2) by (simp add: demo_held_ok(4))
  have "bit (sta_flags (demo_sta 3)) 1" "timeout_next (demo_sta 3) = STA_NULLFUNC" "silent ?te"
    by (simp_all add: demo_sta_def silent_def bit_numeral_rec)
  from silent_station_dropped [OF demo_held_ok(1) x this] show ?thesis
  proof (elim exE conjE, goal_cases dropped)
    case (dropped s1 s2 s3)
    have "staList s3 = staList (demo_held ASSOCIATED 3)" using arg_cong [OF dropped(8), of staList] by simp
    then show ?case using dropped by blast
  qed
qed

end
