(* ===== verification/Ap_Signal.thy ===== *)
theory Ap_Signal
  imports Ap_Flow
begin

text \<open>
  How an access point hears the stations around it (click/elements/wifi/PrintSignalStrength.cc:
  \<open>simple_action\<close>; click/lib/etheraddress.cc: the text of an address; ofSwitchAP/controller_interface.c:
  \<open>data_frames_rssi\<close>). A Click element writes the strength of each data frame to a file named after
  its sender; hostapd watches the directory, reads each file that was written, and starts a thread for
  what it says (\<open>process_sta_data\<close>, in theory Ap_Report).

  The files are a map from names to texts. What \<open>scanf\<close> leaves alone keeps the value that was on the
  stack, which is a field of the environment.

  Shown here: what \<open>scanf\<close> reads of an address or a number is what \<open>printf\<close> wrote; the loop over a
  buffer of events ends and visits each event once, in order; and a data frame that Click sees starts the
  thread for its sender and its strength.
\<close>

section \<open>Text\<close>

definition hexdigit_upper :: "nat \<Rightarrow> char" where
  "hexdigit_upper n = (if n < 10 then char_of (48 + n) else char_of (55 + n))"

text \<open>\<open>%02X\<close>, and an address with dashes.\<close>

definition hex2_upper :: "byte \<Rightarrow> string" where
  "hex2_upper b = [hexdigit_upper (unat b div 16), hexdigit_upper (unat b mod 16)]"

fun unparse_dash :: "mac \<Rightarrow> string" where
  "unparse_dash (MAC a b c d e f) = hex2_upper a @ ''-'' @ hex2_upper b @ ''-'' @ hex2_upper c @ ''-'' @
     hex2_upper d @ ''-'' @ hex2_upper e @ ''-'' @ hex2_upper f"

text \<open>\<open>%2d\<close>\<close>

definition dec_width2 :: "nat \<Rightarrow> string" where
  "dec_width2 n = replicate (2 - length (dec n)) CHR '' '' @ dec n"

text \<open>The conversions \<open>%hhx\<close> and \<open>%hhu\<close> of \<open>scanf\<close>: white space, a sign, the prefix of base 16, the digits,
  of which the value saturates as that of \<open>strtoul\<close> does, and then the low byte. Without a digit they fail.\<close>

definition is_space :: "char \<Rightarrow> bool" where
  "is_space c \<longleftrightarrow> of_char c = (32 :: nat) \<or> (9 :: nat) \<le> of_char c \<and> of_char c \<le> (13 :: nat)"

definition digit_in :: "nat \<Rightarrow> char \<Rightarrow> nat option" where
  "digit_in base c = (let n = of_char c :: nat;
      v = (if 48 \<le> n \<and> n \<le> 57 then n - 48 else if 65 \<le> n \<and> n \<le> 70 then n - 55 else if 97 \<le> n \<and> n \<le> 102 then n - 87 else base)
    in if v < base then Some v else None)"

definition digits_in :: "nat \<Rightarrow> string \<Rightarrow> nat" where
  "digits_in base ds = foldl (\<lambda>n c. n * base + the (digit_in base c)) 0 ds"

definition scan_sign :: "string \<Rightarrow> bool \<times> string" where
  "scan_sign s = (case s of c # r \<Rightarrow> if c = CHR ''-'' then (True, r) else if c = CHR ''+'' then (False, r) else (False, s) | [] \<Rightarrow> (False, s))"

definition scan_prefix :: "nat \<Rightarrow> string \<Rightarrow> string" where
  "scan_prefix base s = (case s of c # x # r \<Rightarrow>
     if base = 16 \<and> c = CHR ''0'' \<and> (x = CHR ''x'' \<or> x = CHR ''X'') then r else s | _ \<Rightarrow> s)"

definition scan_byte :: "nat \<Rightarrow> string \<Rightarrow> (byte \<times> string) option" where
  "scan_byte base s =
     (let (neg, s) = scan_sign (dropWhile is_space s);
          s = scan_prefix base s;
          ds = takeWhile (\<lambda>c. digit_in base c \<noteq> None) s;
          v = digits_in base ds
      in if ds = [] then None
         else Some (if v \<ge> 2 ^ 64 then 255 else if neg then - word_of_nat v else word_of_nat v, drop (length ds) s))"

text \<open>\<open>sscanf\<close> of a list of bytes with a dash between them: what was converted.\<close>

fun scan_dashed :: "nat \<Rightarrow> string \<Rightarrow> byte list" where
  "scan_dashed 0 s = []"
| "scan_dashed (Suc n) s = (case scan_byte 16 s of
     None \<Rightarrow> []
   | Some (b, r) \<Rightarrow> b # (case r of c # r' \<Rightarrow> if c = CHR ''-'' then scan_dashed n r' else [] | [] \<Rightarrow> []))"

section \<open>The Click element\<close>

type_synonym files = "string \<rightharpoonup> string"

record click_packet =
  p_data :: buf
  p_rssi :: byte

definition click_wifi :: ctype where
  "click_wifi = Struct [(''i_fc'', Array 2 U8), (''i_dur'', U16), (''i_addr1'', Array 6 U8), (''i_addr2'', Array 6 U8),
     (''i_addr3'', Array 6 U8), (''i_seq'', U16)]"

definition WIFI_FC1_DIR_MASK :: byte where
  "WIFI_FC1_DIR_MASK = 3"

definition WIFI_FC1_DIR_TODS :: byte where
  "WIFI_FC1_DIR_TODS = 1"

text \<open>\<open>addr\<close> is the configured address, \<open>fopen_w\<close> whether a file of a name opens for writing.\<close>

definition simple_action :: "mac \<Rightarrow> (string \<Rightarrow> bool) \<Rightarrow> click_packet \<Rightarrow> files \<Rightarrow> files res" where
  "simple_action addr fopen_w p fs =
     bindE (ld8 (p_data p) (offsetof click_wifi [''i_fc''] + 1)) (\<lambda>fc.
     if fc AND WIFI_FC1_DIR_MASK = WIFI_FC1_DIR_TODS then
       bindE (ld_mac (p_data p) (offsetof click_wifi [''i_addr1''])) (\<lambda>bssid.
       bindE (ld_mac (p_data p) (offsetof click_wifi [''i_addr2''])) (\<lambda>src.
       if bssid = addr then
         (let filename = ''signal/'' @ unparse_dash src in
          if fopen_w filename then Inr (fs(filename \<mapsto> dec_width2 (unat (p_rssi p)) @ [CHR 0x0A])) else Inr fs)
       else Inr fs))
     else Inr fs)"

section \<open>Watching the directory\<close>

definition FOLDER :: string where
  "FOLDER = ''signal''"

definition IN_CLOSE_WRITE :: u32 where
  "IN_CLOSE_WRITE = 8"

text \<open>The header of an event; the name follows it.\<close>

definition inotify_event :: ctype where
  "inotify_event = Struct [(''wd'', U32), (''mask'', U32), (''cookie'', U32), (''len'', U32)]"

definition sizeof_rssi_handle :: nat where
  "sizeof_rssi_handle = sizeof (Struct [(''rssi'', U8), (''mac'', Pointer)])"

text \<open>What the thread finds: the files that open and their text, and the values on the stack that
  \<open>scanf\<close> may leave alone.\<close>

record signal_env = ap_env +
  fopen_r :: files
  stack_rssi :: byte
  stack_mac :: mac

definition scan_rssi :: "'e signal_env_scheme \<Rightarrow> string \<Rightarrow> byte" where
  "scan_rssi e txt = (case scan_byte 10 txt of None \<Rightarrow> stack_rssi e | Some (b, r) \<Rightarrow> b)"

definition scan_mac :: "'e signal_env_scheme \<Rightarrow> string \<Rightarrow> mac res" where
  "scan_mac e name = (let bs = scan_dashed 6 name in ld_mac (bs @ drop (length bs) (mac_bytes (stack_mac e))) 0)"

definition rssi_event :: "'e signal_env_scheme \<Rightarrow> string \<Rightarrow> access_point \<Rightarrow> access_point res" where
  "rssi_event e name s =
     (let fileName = FOLDER @ ''/'' @ name in
      if 100 \<le> length fileName then Inl OutOfBounds
      else case fopen_r e fileName of
        None \<Rightarrow> Inr s
      | Some txt \<Rightarrow> bindE (scan_mac e name) (\<lambda>m.
          if calloc_ok e sizeof_rssi_handle \<and> calloc_ok e 6 then
            Inr (s\<lparr>sta_data_threads := spawn e \<lparr>rh_rssi = scan_rssi e txt, rh_mac = m\<rparr> (sta_data_threads s)\<rparr>)
          else Inl NullDeref))"

text \<open>The string at an address of the buffer.\<close>

definition string_at :: "buf \<Rightarrow> nat \<Rightarrow> string res" where
  "string_at b i = (if 0 \<in> set (drop i b) then Inr (map (\<lambda>x. char_of (unat x)) (takeWhile (\<lambda>x. x \<noteq> 0) (drop i b))) else Inl OutOfBounds)"

lemma offsets_inotify_event [simp]:
  "offsetof inotify_event [''mask''] = 4" "offsetof inotify_event [''len''] = 12" "sizeof inotify_event = 16"
  by (simp_all add: inotify_event_def offsetof_def round_up_def numeral_2_eq_2 [symmetric])

lemma offsets_click_wifi [simp]:
  "offsetof click_wifi [''i_fc''] = 0" "offsetof click_wifi [''i_addr1''] = 4" "offsetof click_wifi [''i_addr2''] = 10"
  by (simp_all add: click_wifi_def offsetof_def round_up_def numeral_2_eq_2 [symmetric])

function rssi_events :: "'e signal_env_scheme \<Rightarrow> buf \<Rightarrow> nat \<Rightarrow> nat \<Rightarrow> access_point \<Rightarrow> access_point res" where
  "rssi_events e buf numRead p s =
     (if p < numRead then
        bindE (ld32 buf (p + offsetof inotify_event [''mask''])) (\<lambda>mask.
        bindE (if mask AND IN_CLOSE_WRITE \<noteq> 0 then bindE (string_at buf (p + sizeof inotify_event)) (\<lambda>name. rssi_event e name s) else Inr s) (\<lambda>s.
        bindE (ld32 buf (p + offsetof inotify_event [''len''])) (\<lambda>len.
        rssi_events e buf numRead (p + sizeof inotify_event + unat len) s)))
      else Inr s)"
  by pat_completeness auto

termination by (relation "measure (\<lambda>(e, buf, n, p, s). n - p)") auto

declare rssi_events.simps [simp del]

text \<open>What an iteration of the loop of \<open>data_frames_rssi\<close> meets: \<open>select\<close> fails, the descriptor is not readable,
  or \<open>read\<close> returns a number and leaves the buffer.\<close>

datatype inotify_poll = Select_error | Not_ready | Read int buf

definition rssi_round :: "'e signal_env_scheme \<Rightarrow> inotify_poll \<Rightarrow> access_point \<Rightarrow> access_point res" where
  "rssi_round e p s = bindE (live (ap_controller s)) (\<lambda>c.
     case p of
       Select_error \<Rightarrow> Inl (Exit 1)
     | Not_ready \<Rightarrow> Inr s
     | Read numRead buf \<Rightarrow>
         if numRead = 0 then Inl (Exit 0)
         else if numRead = -1 then Inl (Exit 0)
         else rssi_events e buf (nat numRead) 0 s)"

fun data_frames_rssi :: "('e signal_env_scheme \<times> inotify_poll) list \<Rightarrow> access_point \<Rightarrow> access_point res" where
  "data_frames_rssi [] s = Inr s"
| "data_frames_rssi ((e, p) # ps) s = bindE (rssi_round e p s) (data_frames_rssi ps)"

section \<open>What was printed is read back\<close>

lemma char_of_eq: "n < 256 \<Longrightarrow> char_of n = c \<longleftrightarrow> n = of_char c" for n :: nat
  by (metis char_of_char mod_less of_char_of)

lemma hexdigit_read:
  assumes "n < 16"
  shows "digit_in 16 (hexdigit_upper n) = Some n" "\<not> is_space (hexdigit_upper n)"
    "hexdigit_upper n \<notin> {CHR ''-'', CHR ''+'', CHR ''x'', CHR ''X''}"
  using assms by (auto simp: hexdigit_upper_def digit_in_def is_space_def Let_def char_of_eq)

lemma scan_hex2:
  assumes "r = [] \<or> digit_in 16 (hd r) = None"
  shows "scan_byte 16 (hex2_upper b @ r) = Some (b, r)"
proof -
  let ?h = "hexdigit_upper (unat b div 16)" and ?l = "hexdigit_upper (unat b mod 16)"
  have u: "unat b < 256" by (rule unat_byte_less)
  have n: "unat b div 16 < 16" "unat b mod 16 < 16" by (rule less_mult_imp_div_less, rule less_le_trans [OF u]) simp_all
  note d = hexdigit_read [OF n(1)] hexdigit_read [OF n(2)]
  have r: "takeWhile (\<lambda>c. digit_in 16 c \<noteq> None) r = []" using assms by (cases r) auto
  have s: "scan_sign (dropWhile is_space (?h # ?l # r)) = (False, ?h # ?l # r)" "scan_prefix 16 (?h # ?l # r) = ?h # ?l # r"
    using d by (simp_all add: scan_sign_def scan_prefix_def)
  have "digits_in 16 [?h, ?l] = unat b" using d by (simp add: digits_in_def)
  moreover have "takeWhile (\<lambda>c. digit_in 16 c \<noteq> None) (?h # ?l # r) = [?h, ?l]" using d r by simp
  moreover have "\<not> 2 ^ 64 \<le> unat b" unfolding not_le by (rule less_trans [OF u]) simp
  ultimately show ?thesis using s by (simp add: scan_byte_def hex2_upper_def Let_def)
qed

lemma scan_dashed_text: "scan_dashed 6 (unparse_dash m) = mac_bytes m"
proof (cases m)
  case (MAC a b c d e f)
  have "digit_in 16 (CHR ''-'') = None" by (simp add: digit_in_def)
  then have "scan_byte 16 (hex2_upper x @ CHR ''-'' # r) = Some (x, CHR ''-'' # r)" "scan_byte 16 (hex2_upper x) = Some (x, [])" for x r
    using scan_hex2 [of "CHR ''-'' # r" x] scan_hex2 [of "[]" x] by simp_all
  then show ?thesis by (simp add: MAC numeral_eq_Suc)
qed

lemma dec_digits: "\<forall>c \<in> set (dec n). \<exists>k < 10 :: nat. c = char_of (48 + k)"
proof (induction n rule: dec.induct)
  case (1 n)
  then show ?case by (subst dec.simps) (auto intro: exI [of _ "n mod 10"] exI [of _ n])
qed

lemma decdigit_read:
  fixes k :: nat
  assumes "k < 10"
  shows "digit_in 10 (char_of (48 + k)) = Some k" "\<not> is_space (char_of (48 + k))" "char_of (48 + k) \<notin> {CHR ''-'', CHR ''+''}"
  using assms by (auto simp: digit_in_def is_space_def Let_def char_of_eq)

lemma digits_in_dec: "digits_in 10 (dec n) = n"
proof (induction n rule: dec.induct)
  case (1 n)
  show ?case
  proof (cases "n < 10")
    case True
    then show ?thesis by (subst dec.simps) (simp add: digits_in_def decdigit_read)
  next
    case False
    then show ?thesis using 1 by (subst dec.simps) (simp add: digits_in_def decdigit_read)
  qed
qed

lemma dec_nonempty: "dec n \<noteq> []"
  by (subst dec.simps) simp

lemma scan_dec:
  assumes "n < 256"
  shows "scan_byte 10 (dec_width2 n @ [CHR 0x0A]) = Some (word_of_nat n, [CHR 0x0A])"
proof -
  have all: "digit_in 10 c \<noteq> None" "\<not> is_space c" "c \<notin> {CHR ''-'', CHR ''+''}" if "c \<in> set (dec n)" for c
    using dec_digits [of n] decdigit_read that by fastforce+
  obtain c r where d: "dec n = c # r" using dec_nonempty [of n] by (cases "dec n") auto
  have "dropWhile is_space (dec_width2 n @ [CHR 0x0A]) = dec n @ [CHR 0x0A]"
    using all(2) [of c] d by (simp add: dec_width2_def dropWhile_append3 is_space_def)
  then have s: "scan_sign (dropWhile is_space (dec_width2 n @ [CHR 0x0A])) = (False, dec n @ [CHR 0x0A])"
    using all(3) [of c] d by (simp add: scan_sign_def)
  have p: "scan_prefix 10 (dec n @ [CHR 0x0A]) = dec n @ [CHR 0x0A]" by (simp add: scan_prefix_def split: list.split)
  have "takeWhile (\<lambda>c. digit_in 10 c \<noteq> None) (dec n @ [CHR 0x0A]) = dec n"
    using all(1) by (simp add: takeWhile_append2 digit_in_def [of _ "CHR 0x0A"])
  then show ?thesis using assms dec_nonempty [of n] by (simp add: scan_byte_def s p digits_in_dec)
qed

section \<open>Every event is visited\<close>

text \<open>An event as the kernel lays it out: the name, then at least one null byte.\<close>

record event =
  ev_wd :: u32
  ev_mask :: u32
  ev_cookie :: u32
  ev_name :: string
  ev_pad :: nat

definition char_byte :: "char \<Rightarrow> byte" where
  "char_byte c = word_of_nat (of_char c)"

definition event_bytes :: "event \<Rightarrow> buf" where
  "event_bytes v = bytes32 (ev_wd v) @ bytes32 (ev_mask v) @ bytes32 (ev_cookie v) @
     bytes32 (word_of_nat (length (ev_name v) + ev_pad v)) @ map char_byte (ev_name v) @ replicate (ev_pad v) 0"

definition event_ok :: "event \<Rightarrow> bool" where
  "event_ok v \<longleftrightarrow> CHR 0x00 \<notin> set (ev_name v) \<and> 1 \<le> ev_pad v \<and> length (ev_name v) + ev_pad v < 2 ^ 32"

definition visit :: "'e signal_env_scheme \<Rightarrow> event \<Rightarrow> access_point \<Rightarrow> access_point res" where
  "visit e v s = (if ev_mask v AND IN_CLOSE_WRITE \<noteq> 0 then rssi_event e (ev_name v) s else Inr s)"

fun visit_all :: "'e signal_env_scheme \<Rightarrow> event list \<Rightarrow> access_point \<Rightarrow> access_point res" where
  "visit_all e [] s = Inr s"
| "visit_all e (v # vs) s = bindE (visit e v s) (visit_all e vs)"

lemma char_byte_char: "char_of (unat (char_byte c)) = c"
  by (simp add: char_byte_def unat_of_nat)

lemma char_byte_0: "char_byte c = 0 \<longleftrightarrow> c = CHR 0x00"
proof
  assume "char_byte c = 0"
  then have "c = char_of (0 :: nat)" using char_byte_char [of c] by simp
  also have "char_of (0 :: nat) = CHR 0x00" by (simp add: char_of_eq)
  finally show "c = CHR 0x00" .
qed (simp add: char_byte_def)

lemma length_event_bytes: "length (event_bytes v) = 16 + length (ev_name v) + ev_pad v"
  by (simp add: event_bytes_def)

lemma event_read:
  assumes "event_ok v"
  shows "ld32 (pre @ event_bytes v @ post) (length pre + 4) = Inr (ev_mask v)"
    "ld32 (pre @ event_bytes v @ post) (length pre + 12) = Inr (word_of_nat (length (ev_name v) + ev_pad v))"
    "string_at (pre @ event_bytes v @ post) (length pre + 16) = Inr (ev_name v)"
proof -
  show "ld32 (pre @ event_bytes v @ post) (length pre + 4) = Inr (ev_mask v)"
    "ld32 (pre @ event_bytes v @ post) (length pre + 12) = Inr (word_of_nat (length (ev_name v) + ev_pad v))"
    by (simp_all add: event_bytes_def ld32_def nth_append bytes32_def)
  have d: "drop (length pre + 16) (pre @ event_bytes v @ post) = map char_byte (ev_name v) @ 0 # replicate (ev_pad v - 1) 0 @ post"
    using assms by (cases "ev_pad v") (simp_all add: event_bytes_def event_ok_def)
  have z: "\<forall>c \<in> set (ev_name v). char_byte c \<noteq> 0" using assms by (auto simp: event_ok_def char_byte_0)
  then have "takeWhile (\<lambda>x. x \<noteq> 0) (map char_byte (ev_name v) @ 0 # replicate (ev_pad v - 1) 0 @ post) = map char_byte (ev_name v)"
    by (subst takeWhile_append2) auto
  then show "string_at (pre @ event_bytes v @ post) (length pre + 16) = Inr (ev_name v)"
    unfolding string_at_def d by (simp add: char_byte_char comp_def)
qed

lemma rssi_events_visit:
  assumes "\<forall>v \<in> set vs. event_ok v"
  shows "rssi_events e (pre @ concat (map event_bytes vs) @ post) (length pre + length (concat (map event_bytes vs))) (length pre) s =
    visit_all e vs s"
  using assms
proof (induction vs arbitrary: pre s)
  case Nil
  then show ?case by (simp add: rssi_events.simps)
next
  case (Cons v vs)
  let ?b = "pre @ concat (map event_bytes (v # vs)) @ post" and ?n = "length pre + length (concat (map event_bytes (v # vs)))"
  have ok: "event_ok v" using Cons.prems by simp
  have b: "?b = pre @ event_bytes v @ concat (map event_bytes vs) @ post" by simp
  note r = event_read [OF ok, of pre "concat (map event_bytes vs) @ post", folded b]
  have l: "unat (word_of_nat (length (ev_name v) + ev_pad v) :: u32) = length (ev_name v) + ev_pad v"
    using ok by (simp add: event_ok_def unat_of_nat del: of_nat_add)
  have "rssi_events e ?b ?n (length pre + 16 + (length (ev_name v) + ev_pad v)) s' = visit_all e vs s'" for s'
    using Cons.IH [of "pre @ event_bytes v" s'] Cons.prems by (simp add: length_event_bytes add.assoc)
  moreover have "length pre < ?n" by (simp add: length_event_bytes)
  ultimately show ?case
    by (subst rssi_events.simps) (simp add: r l visit_def del: concat.simps list.map of_nat_add cong: if_cong)
qed

section \<open>Threads of a buffer of events\<close>

definition closed :: "event \<Rightarrow> bool" where
  "closed v \<longleftrightarrow> ev_mask v AND IN_CLOSE_WRITE \<noteq> 0"

text \<open>The thread of an event whose file has a text.\<close>

definition handle_of :: "'e signal_env_scheme \<Rightarrow> event \<Rightarrow> rssi_handle list" where
  "handle_of e v = (case (closed v, fopen_r e (FOLDER @ ''/'' @ ev_name v), scan_mac e (ev_name v)) of
     (True, Some txt, Inr m) \<Rightarrow> [\<lparr>rh_rssi = scan_rssi e txt, rh_mac = m\<rparr>] | _ \<Rightarrow> [])"

lemma length_scan_dashed: "length (scan_dashed n s) \<le> n"
  by (induction n s rule: scan_dashed.induct) (auto split: option.split list.split)

lemma scan_mac_ok: "\<exists>m. scan_mac e name = Inr m"
proof -
  have "length (mac_bytes (stack_mac e)) = 6" by (cases "stack_mac e") simp
  then show ?thesis using length_scan_dashed [of 6 name] by (simp add: scan_mac_def ld_mac_def Let_def)
qed

lemma scan_mac_text: "scan_mac e (unparse_dash m) = Inr m"
  unfolding scan_mac_def scan_dashed_text by (cases m; cases "stack_mac e") (simp add: ld_mac_def)

lemma visit_eq:
  assumes "calloc_ok e = (\<lambda>_. True)" "pthread_ok e"
  shows "visit e v s = (if closed v \<and> 93 \<le> length (ev_name v) then Inl OutOfBounds
    else Inr (s\<lparr>sta_data_threads := sta_data_threads s @ handle_of e v\<rparr>))"
proof -
  obtain m where "scan_mac e (ev_name v) = Inr m" using scan_mac_ok by blast
  then show ?thesis
    using assms by (auto simp: visit_def closed_def rssi_event_def FOLDER_def handle_of_def spawn_def split: option.split)
qed

lemma visit_all_eq:
  assumes "calloc_ok e = (\<lambda>_. True)" "pthread_ok e"
  shows "visit_all e vs s = (if \<exists>v \<in> set vs. closed v \<and> 93 \<le> length (ev_name v) then Inl OutOfBounds
    else Inr (s\<lparr>sta_data_threads := sta_data_threads s @ concat (map (handle_of e) vs)\<rparr>))"
  by (induction vs arbitrary: s) (simp_all add: visit_eq [OF assms])

lemma rssi_round_eq:
  assumes "\<forall>v \<in> set vs. event_ok v" "vs \<noteq> []" "ap_controller s = Live c" "calloc_ok e = (\<lambda>_. True)" "pthread_ok e"
  shows "rssi_round e (Read (int (length (concat (map event_bytes vs)))) (concat (map event_bytes vs) @ post)) s =
    (if \<exists>v \<in> set vs. closed v \<and> 93 \<le> length (ev_name v) then Inl OutOfBounds
     else Inr (s\<lparr>sta_data_threads := sta_data_threads s @ concat (map (handle_of e) vs)\<rparr>))"
proof -
  define b where "b = concat (map event_bytes vs)"
  have "b \<noteq> []" using assms(2) length_event_bytes [of "hd vs"] by (cases vs) (auto simp: b_def)
  moreover have "rssi_events e (b @ post) (length b) 0 s = visit_all e vs s"
    using rssi_events_visit [OF assms(1), of e "[]" post s] by (simp add: b_def)
  ultimately show ?thesis using assms(3) visit_all_eq [OF assms(4,5)] unfolding b_def [symmetric] by (simp add: rssi_round_def)
qed

lemma signal_written:
  assumes "ld8 (p_data p) 1 = Inr fc" "fc AND 3 = 1" "ld_mac (p_data p) 4 = Inr addr" "ld_mac (p_data p) 10 = Inr a"
    "fopen_w (''signal/'' @ unparse_dash a)"
  shows "simple_action addr fopen_w p fs = Inr (fs(''signal/'' @ unparse_dash a \<mapsto> dec_width2 (unat (p_rssi p)) @ [CHR 0x0A]))"
  using assms by (simp add: simple_action_def WIFI_FC1_DIR_MASK_def WIFI_FC1_DIR_TODS_def)

lemma signal_thread:
  assumes "fopen_r e (''signal/'' @ unparse_dash a) = Some (dec_width2 (unat r) @ [CHR 0x0A])" "closed v" "ev_name v = unparse_dash a"
  shows "handle_of e v = [\<lparr>rh_rssi = r, rh_mac = a\<rparr>]"
proof -
  have "scan_rssi e (dec_width2 (unat r) @ [CHR 0x0A]) = r" using scan_dec [OF unat_byte_less, of r] by (simp add: scan_rssi_def)
  then show ?thesis using assms scan_mac_text [of e a] by (simp add: handle_of_def FOLDER_def)
qed

lemma event_ok_text:
  assumes "ev_name v = unparse_dash a" "1 \<le> ev_pad v" "ev_pad v \<le> 255"
  shows "event_ok v" "length (ev_name v) = 17"
proof -
  have "hexdigit_upper n \<noteq> CHR 0x00" if "n < 16" for n using that by (simp add: hexdigit_upper_def char_of_eq)
  moreover have "unat b div 16 < 16" for b :: byte by (rule less_mult_imp_div_less, rule less_le_trans [OF unat_byte_less]) simp
  ultimately have "CHR 0x00 \<notin> set (hex2_upper b)" for b by (auto simp: hex2_upper_def dest: sym)
  moreover have "length (hex2_upper b) = 2" for b by (simp add: hex2_upper_def)
  ultimately have "CHR 0x00 \<notin> set (unparse_dash a)" "length (unparse_dash a) = 17" by (cases a; simp)+
  then show "event_ok v" "length (ev_name v) = 17" using assms by (simp_all add: event_ok_def)
qed

section \<open>Properties\<close>

text \<open>C38. Of a buffer of events, whole and as the kernel writes them, \<open>data_frames_rssi\<close> visits every event once and
  in order, and then waits again: it starts one thread for each file that was closed after writing and that opens, with
  the address of the name and the number of the text, unless one of those names has 93 characters or more,
  when the path overruns its array.\<close>

theorem events_visited:
  assumes "\<forall>v \<in> set vs. event_ok v" "vs \<noteq> []" "ap_controller s = Live c" "calloc_ok e = (\<lambda>_. True)" "pthread_ok e"
  shows "rssi_round e (Read (int (length (concat (map event_bytes vs)))) (concat (map event_bytes vs) @ post)) s =
    (if \<exists>v \<in> set vs. closed v \<and> 93 \<le> length (ev_name v) then Inl OutOfBounds
     else Inr (s\<lparr>sta_data_threads := sta_data_threads s @ concat (map (handle_of e) vs)\<rparr>))"
  by (rule rssi_round_eq [OF assms])

definition demo_event :: event where
  "demo_event = \<lparr>ev_wd = 1, ev_mask = IN_CLOSE_WRITE, ev_cookie = 0, ev_name = unparse_dash demo_addr, ev_pad = 15\<rparr>"

definition demo_signal_env :: "files \<Rightarrow> signal_env" where
  "demo_signal_env fs = \<lparr>calloc_ok = (\<lambda>_. True), send_ret = (\<lambda>_. 8), rand_ret = 5, pthread_ok = True, fopen_r = fs,
     stack_rssi = 0, stack_mac = MAC 0 0 0 0 0 0\<rparr>"

lemma demo_event_ok: "event_ok demo_event" "length (ev_name demo_event) = 17" "closed demo_event"
  using event_ok_text [of demo_event demo_addr] by (simp_all add: demo_event_def closed_def IN_CLOSE_WRITE_def)

theorem events_visited_witness:
  "rssi_round (demo_signal_env [''signal/'' @ unparse_dash demo_addr \<mapsto> dec_width2 40 @ [CHR 0x0A]])
     (Read (int (length (event_bytes demo_event))) (event_bytes demo_event @ zeroed 16)) (demo_access_point demo_list demo_hapd) =
   Inr ((demo_access_point demo_list demo_hapd)\<lparr>sta_data_threads := [\<lparr>rh_rssi = 40, rh_mac = demo_addr\<rparr>]\<rparr>)"
proof -
  let ?s = "demo_access_point demo_list demo_hapd" and ?e = "demo_signal_env [''signal/'' @ unparse_dash demo_addr \<mapsto> dec_width2 40 @ [CHR 0x0A]]"
  have s: "ap_controller ?s = Live demo_ap_conn" "sta_data_threads ?s = []" by (simp_all add: demo_access_point_def)
  have e: "calloc_ok ?e = (\<lambda>_. True)" "pthread_ok ?e" by (simp_all add: demo_signal_env_def)
  have "handle_of ?e demo_event = [\<lparr>rh_rssi = 40, rh_mac = demo_addr\<rparr>]"
    by (rule signal_thread) (simp_all add: demo_event_ok, simp_all add: demo_signal_env_def demo_event_def)
  then show ?thesis using events_visited [of "[demo_event]", OF _ _ s(1) e, of "zeroed 16"] demo_event_ok s(2) by simp
qed

end
