(* ===== verification/Ap_Sta_Threads.thy ===== *)
theory Ap_Sta_Threads
  imports Ap_Sta
begin

text \<open>
  Concurrent calls of \<open>addSTA\<close> (controller_interface.c). Every signal strength and every report about a
  station runs in a thread of its own, and \<open>addSTA\<close> takes the mutex twice: \<open>lookupSenderSTA\<close> is one
  critical section and the insertion another, and the test of the limit in between is outside both. Elsewhere in the development \<open>addSTA\<close> is one
  step, as in a thread that no other interferes with; here the sections of several calls interleave. Shown is what
  holds in every interleaving, and that a station can be entered twice and the limit be passed.
\<close>

section \<open>The sections of addSTA\<close>

text \<open>Thread \<open>i\<close> adds the station \<open>w i\<close>, and \<open>ok i\<close> says whether its \<open>calloc\<close> has memory.\<close>

datatype sta_pc = Sta_start | Sta_unknown | Sta_room | Sta_done ptr

inductive sta_step :: "nat \<Rightarrow> (nat \<Rightarrow> bool) \<Rightarrow> (nat \<Rightarrow> mac) \<Rightarrow> STAList \<times> (nat \<Rightarrow> sta_pc) \<Rightarrow> STAList \<times> (nat \<Rightarrow> sta_pc) \<Rightarrow> bool" for m ok w where
  sta_found: "pcs i = Sta_start \<Longrightarrow> lookupSenderSTA (w i) l = Inr (Some q) \<Longrightarrow> sta_step m ok w (l, pcs) (l, pcs(i := Sta_done (Some q)))"
| sta_not_found: "pcs i = Sta_start \<Longrightarrow> lookupSenderSTA (w i) l = Inr None \<Longrightarrow> sta_step m ok w (l, pcs) (l, pcs(i := Sta_unknown))"
| sta_full: "pcs i = Sta_unknown \<Longrightarrow> num_sta l \<ge> int m \<Longrightarrow> sta_step m ok w (l, pcs) (l, pcs(i := Sta_done None))"
| sta_has_room: "pcs i = Sta_unknown \<Longrightarrow> num_sta l < int m \<Longrightarrow> sta_step m ok w (l, pcs) (l, pcs(i := Sta_room))"
| sta_no_memory: "pcs i = Sta_room \<Longrightarrow> \<not> ok i \<Longrightarrow> sta_step m ok w (l, pcs) (l, pcs(i := Sta_done None))"
| sta_link: "pcs i = Sta_room \<Longrightarrow> ok i \<Longrightarrow> push_front (new_infoSTA (w i)) (MAC_HASH (w i)) (sta_table l) = Inr (q, t) \<Longrightarrow>
     sta_step m ok w (l, pcs) (l\<lparr>num_sta := num_sta l + 1, sta_table := t\<rparr>, pcs(i := Sta_done (Some q)))"

text \<open>Run without interference, the sections are \<open>addSTA\<close>.\<close>

lemma addSTA_sections:
  assumes "ok i = calloc_ok e sizeof_infoSTA" "addSTA e m (w i) l = Inr (p, l')"
  shows "(sta_step m ok w)\<^sup>*\<^sup>* (l, pcs(i := Sta_start)) (l', pcs(i := Sta_done p))"
proof -
  let ?S = "sta_step m ok w"
  obtain r where r: "lookupSenderSTA (w i) l = Inr r" using assms(2) by (auto simp: addSTA_def bindE_eq_Inr)
  show ?thesis
  proof (cases r)
    case (Some q)
    have "?S (l, pcs(i := Sta_start)) (l, (pcs(i := Sta_start))(i := Sta_done (Some q)))" by (rule sta_found) (simp_all add: r Some)
    then show ?thesis using assms(2) r Some by (auto simp: addSTA_def)
  next
    case None
    have 1: "?S (l, pcs(i := Sta_start)) (l, (pcs(i := Sta_start))(i := Sta_unknown))" by (rule sta_not_found) (simp_all add: r None)
    show ?thesis
    proof (cases "num_sta l \<ge> int m")
      case True
      have "?S (l, pcs(i := Sta_unknown)) (l, (pcs(i := Sta_unknown))(i := Sta_done None))" by (rule sta_full) (simp_all add: True)
      then show ?thesis using 1 assms(2) r None True by (auto simp: addSTA_def intro: converse_rtranclp_into_rtranclp)
    next
      case room: False
      have 2: "?S (l, pcs(i := Sta_unknown)) (l, (pcs(i := Sta_unknown))(i := Sta_room))" by (rule sta_has_room) (use room in simp_all)
      have "?S (l, pcs(i := Sta_room)) (l', (pcs(i := Sta_room))(i := Sta_done p))"
      proof (cases "ok i")
        case True
        then obtain q t where "push_front (new_infoSTA (w i)) (MAC_HASH (w i)) (sta_table l) = Inr (q, t)" "p = Some q"
          "l' = l\<lparr>num_sta := num_sta l + 1, sta_table := t\<rparr>" using assms r None room by (auto simp: addSTA_def bindE_eq_Inr)
        then show ?thesis using sta_link [of "pcs(i := Sta_room)" i ok w l q t m] True by simp
      next
        case False
        then have "p = None" "l' = l" using assms r None room by (auto simp: addSTA_def)
        then show ?thesis using sta_no_memory [of "pcs(i := Sta_room)" i ok m w l] False by simp
      qed
      with 1 2 show ?thesis by (simp add: converse_rtranclp_into_rtranclp)
    qed
  qed
qed

section \<open>What every interleaving keeps\<close>

definition sta_wf :: "nat \<Rightarrow> STAList \<Rightarrow> bool" where
  "sta_wf m l \<longleftrightarrow> wf_chains (MAC_HASH \<circ> si_address) (sta_table l) \<and> length (table (sta_table l)) = m \<and> num_sta l = int (sta_count l)"

lemma sta_inv_wf: "sta_inv m l \<longleftrightarrow> sta_wf m l \<and> chain_uniq si_address (sta_table l) \<and> sta_count l \<le> m"
  by (auto simp: sta_inv_def sta_wf_def)

definition sta_threads :: "nat \<Rightarrow> (nat \<Rightarrow> bool) \<Rightarrow> (nat \<Rightarrow> mac) \<Rightarrow> STAList \<Rightarrow> STAList \<times> (nat \<Rightarrow> sta_pc) \<Rightarrow> bool" where
  "sta_threads m ok w l0 s \<longleftrightarrow> sta_wf m (fst s) \<and> num_sta l0 \<le> num_sta (fst s) \<and>
     (\<forall>q c. deref (sta_table l0) q = Inr c \<longrightarrow> deref (sta_table (fst s)) q = Inr c) \<and>
     (\<forall>i q. snd s i = Sta_done (Some q) \<longrightarrow> (\<exists>x n. deref (sta_table (fst s)) q = Inr (Cell x n) \<and> si_address x = w i)) \<and>
     (\<forall>i. snd s i = Sta_done None \<longrightarrow> \<not> ok i \<or> int m \<le> num_sta (fst s))"

lemma lookup_node:
  assumes "sta_wf m l" "lookupSenderSTA a l = Inr (Some q)"
  shows "\<exists>x n. deref (sta_table l) q = Inr (Cell x n) \<and> si_address x = a"
proof -
  have wf: "wf_chains (MAC_HASH \<circ> si_address) (sta_table l)" using assms(1) by (simp add: sta_wf_def)
  have v: "chain_valid MAC_HASH (sta_table l) a"
    using assms(2) by (auto simp: chain_valid_def lookupSenderSTA_def find_in_def head_def bindE_eq_Inr split: if_splits)
  obtain x where x: "sta_find l a = Some (q, x)"
    using sta.find_chain_lookup [OF wf v] assms(2) by (auto simp: lookupSenderSTA_chain chain_view_def)
  show ?thesis using sta.chain_find_deref [OF wf v x] sta.chain_find_in_bucket(2) [OF x] by blast
qed

lemma link_wf:
  assumes "sta_wf m l" "push_front (new_infoSTA a) (MAC_HASH a) (sta_table l) = Inr (q, t)"
  shows "sta_wf m (l\<lparr>num_sta := num_sta l + 1, sta_table := t\<rparr>)" "\<exists>n. deref t q = Inr (Cell (new_infoSTA a) n)"
proof -
  let ?t = "sta_table l" and ?l = "l\<lparr>num_sta := num_sta l + 1, sta_table := t\<rparr>"
  have wf: "wf_chains (MAC_HASH \<circ> si_address) ?t" using assms(1) by (simp add: sta_wf_def)
  have hn: "(MAC_HASH \<circ> si_address) (new_infoSTA a) = MAC_HASH a" by (simp add: new_infoSTA_def)
  have h: "MAC_HASH a < length (table ?t)" using assms(2) by (auto simp: push_front_def bindE_eq_Inr head_def split: if_splits)
  obtain u where u: "push_front (new_infoSTA a) (MAC_HASH a) ?t = Inr (length (cells ?t), u)" "wf_chains (MAC_HASH \<circ> si_address) u"
    "length (table u) = length (table ?t)" "cells u = cells ?t @ [Some (Cell (new_infoSTA a) (table ?t ! MAC_HASH a))]"
    "\<forall>k < length (table ?t). bucket_list u k = (if k = MAC_HASH a then (length (cells ?t), new_infoSTA a) # bucket_list ?t (MAC_HASH a) else bucket_list ?t k)"
    by (rule push_front_wf [OF wf h hn])
  then have "t = u" "q = length (cells ?t)" using assms(2) by auto
  moreover have "sta_count (l\<lparr>num_sta := num_sta l + 1, sta_table := u\<rparr>) = Suc (sta_count l)"
    unfolding sta_count_def using h u(3,5) by (simp add: sum_one_more [of "MAC_HASH a"])
  ultimately show "sta_wf m ?l" "\<exists>n. deref t q = Inr (Cell (new_infoSTA a) n)"
    using assms(1) u(2-4) by (simp_all add: sta_wf_def deref_def)
qed

lemma sta_step_threads: "sta_step m ok w s s' \<Longrightarrow> sta_threads m ok w l0 s \<Longrightarrow> sta_threads m ok w l0 s'"
proof (induction rule: sta_step.induct)
  case (sta_found pcs i l q)
  then show ?case using lookup_node [of m l "w i" q] by (auto simp: sta_threads_def)
next
  case (sta_link pcs i l q t)
  have inv: "sta_wf m l" "\<forall>q c. deref (sta_table l0) q = Inr c \<longrightarrow> deref (sta_table l) q = Inr c" using sta_link(4) by (simp_all add: sta_threads_def)
  note old = push_front_deref_old [OF sta_link(3)] and new = link_wf [OF inv(1) sta_link(3)]
  have keep: "\<exists>x n. deref t r = Inr (Cell x n) \<and> si_address x = w j" if j: "pcs j = Sta_done (Some r)" for j r
  proof -
    obtain x n where "deref (sta_table l) r = Inr (Cell x n)" "si_address x = w j" using sta_link(4) j unfolding sta_threads_def fst_conv snd_conv by blast
    then show ?thesis using old by blast
  qed
  have base: "deref t r = Inr c" if "deref (sta_table l0) r = Inr c" for r c using inv(2) that old by blast
  have "si_address (new_infoSTA (w i)) = w i" by (simp add: new_infoSTA_def)
  then show ?case using sta_link(4) new keep base by (auto simp: sta_threads_def)
qed (auto simp: sta_threads_def)

section \<open>Properties\<close>

text \<open>C20. Under every interleaving of the sections of concurrent calls of \<open>addSTA\<close> the chains of the station list stay well
  formed and keep their nodes, \<open>num_sta\<close> is the number of nodes, each call that returned a node holds one of the station it asked
  for, and a call returned none only when its \<open>calloc\<close> failed or the list was full. (That a station
  has one node, and that the limit is kept, needs the calls not to overlap.)\<close>

theorem sta_add_interleaved:
  assumes "(sta_step m ok w)\<^sup>*\<^sup>* (l, \<lambda>_. Sta_start) (l', pcs)" "sta_wf m l"
  shows "sta_wf m l' \<and> (\<forall>q c. deref (sta_table l) q = Inr c \<longrightarrow> deref (sta_table l') q = Inr c) \<and>
    (\<forall>i p. pcs i = Sta_done p \<longrightarrow> (case p of
       Some q \<Rightarrow> \<exists>x n. deref (sta_table l') q = Inr (Cell x n) \<and> si_address x = w i
     | None \<Rightarrow> \<not> ok i \<or> int m \<le> num_sta l'))"
proof -
  have "sta_threads m ok w l (l, \<lambda>_. Sta_start)" using assms(2) by (simp add: sta_threads_def)
  with assms(1) have "sta_threads m ok w l (l', pcs)" by (induction rule: rtranclp_induct) (auto intro: sta_step_threads)
  then show ?thesis by (auto simp: sta_threads_def split: option.split)
qed

text \<open>Two threads add one station to an empty list whose limit is one station: both look, both find room, and both link a node in.\<close>

definition demo_twice :: mac where
  "demo_twice = MAC 2 0 0 0 0 1"

definition demo_doubled :: STAList where
  "demo_doubled = \<lparr>num_sta = 2, sta_table = \<lparr>table = [Some 1],
     cells = [Some (Cell (new_infoSTA demo_twice) None), Some (Cell (new_infoSTA demo_twice) (Some 0))]\<rparr>\<rparr>"

definition demo_callers :: "nat \<Rightarrow> sta_pc" where
  "demo_callers = (\<lambda>_. Sta_start)(0 := Sta_done (Some 0), 1 := Sta_done (Some 1))"

lemma demo_callers_run: "(sta_step 1 (\<lambda>_. True) (\<lambda>_. demo_twice))\<^sup>*\<^sup>* (STAList_init 1, \<lambda>_. Sta_start) (demo_doubled, demo_callers)"
proof -
  let ?S = "sta_step 1 (\<lambda>_. True) (\<lambda>_. demo_twice)"
  define p0 p1 p2 p3 p4 p5 p6 where "p0 = (\<lambda>_ :: nat. Sta_start)" and "p1 = p0(0 := Sta_unknown)" and "p2 = p1(1 := Sta_unknown)"
    and "p3 = p2(0 := Sta_room)" and "p4 = p3(1 := Sta_room)" and "p5 = p4(0 := Sta_done (Some 0))" and "p6 = p5(1 := Sta_done (Some 1))"
  note p = p0_def p1_def p2_def p3_def p4_def p5_def p6_def
  define l1 where "l1 = \<lparr>num_sta = 1, sta_table = \<lparr>table = [Some 0], cells = [Some (Cell (new_infoSTA demo_twice) None)]\<rparr>\<rparr>"
  have look: "lookupSenderSTA demo_twice (STAList_init 1) = Inr None"
    by (simp add: lookupSenderSTA_def find_in_def head_def STAList_init_def chains_init_def find_from.simps demo_twice_def)
  have "?S (STAList_init 1, p0) (STAList_init 1, p1)" unfolding p1_def by (rule sta_not_found) (use look in \<open>simp_all add: p\<close>)
  moreover have "?S (STAList_init 1, p1) (STAList_init 1, p2)" unfolding p2_def by (rule sta_not_found) (use look in \<open>simp_all add: p\<close>)
  moreover have "?S (STAList_init 1, p2) (STAList_init 1, p3)" unfolding p3_def by (rule sta_has_room) (auto simp: p STAList_init_def)
  moreover have "?S (STAList_init 1, p3) (STAList_init 1, p4)" unfolding p4_def by (rule sta_has_room) (auto simp: p STAList_init_def)
  moreover have "?S (STAList_init 1, p4) (l1, p5)"
    using sta_link [of p4 0 "\<lambda>_. True" "\<lambda>_. demo_twice" "STAList_init 1" 0 "sta_table l1" 1]
    by (simp add: p l1_def STAList_init_def push_front_def head_def alloc_def set_head_def chains_init_def demo_twice_def)
  moreover have "?S (l1, p5) (demo_doubled, p6)"
    using sta_link [of p5 1 "\<lambda>_. True" "\<lambda>_. demo_twice" l1 1 "sta_table demo_doubled" 1]
    by (simp add: p l1_def demo_doubled_def push_front_def head_def alloc_def set_head_def demo_twice_def)
  moreover have "p6 = demo_callers" by (auto simp: p demo_callers_def)
  ultimately show ?thesis unfolding p0_def by (meson converse_rtranclp_into_rtranclp rtranclp.rtrancl_refl)
qed

lemma sta_wf_init: "sta_wf m (STAList_init m)"
  using sta_inv_init [of m] by (simp add: sta_inv_wf)

theorem sta_add_interleaved_witness:
  "(sta_step 1 (\<lambda>_. True) (\<lambda>_. demo_twice))\<^sup>*\<^sup>* (STAList_init 1, \<lambda>_. Sta_start) (demo_doubled, demo_callers) \<and> sta_wf 1 demo_doubled \<and>
    demo_callers 0 = Sta_done (Some 0) \<and> demo_callers 1 = Sta_done (Some 1) \<and>
    (\<exists>x n. deref (sta_table demo_doubled) 0 = Inr (Cell x n) \<and> si_address x = demo_twice) \<and>
    (\<exists>x n. deref (sta_table demo_doubled) 1 = Inr (Cell x n) \<and> si_address x = demo_twice)"
proof -
  have d: "demo_callers 0 = Sta_done (Some 0)" "demo_callers 1 = Sta_done (Some 1)" by (simp_all add: demo_callers_def)
  note r = sta_add_interleaved [OF demo_callers_run sta_wf_init]
  show ?thesis
    using demo_callers_run d conjunct1 [OF r] conjunct2 [OF conjunct2 [OF r], rule_format, OF d(1)] conjunct2 [OF conjunct2 [OF r], rule_format, OF d(2)]
    by auto
qed

text \<open>A station can be entered twice, and the limit be passed: of the two nodes only one is found again.\<close>

theorem sta_added_twice:
  "\<exists>l pcs q r. (sta_step 1 (\<lambda>_. True) (\<lambda>_. demo_twice))\<^sup>*\<^sup>* (STAList_init 1, \<lambda>_. Sta_start) (l, pcs) \<and>
    pcs 0 = Sta_done (Some q) \<and> pcs 1 = Sta_done (Some r) \<and> q \<noteq> r \<and> lookupSenderSTA demo_twice l = Inr (Some r) \<and>
    num_sta l = 2 \<and> \<not> sta_inv 1 l"
proof -
  have "lookupSenderSTA demo_twice demo_doubled = Inr (Some 1)"
    by (simp add: lookupSenderSTA_def find_in_def head_def demo_doubled_def find_from.simps deref_def new_infoSTA_def demo_twice_def)
  moreover have "\<not> sta_inv 1 demo_doubled" by (auto simp: sta_inv_def demo_doubled_def)
  ultimately show ?thesis using demo_callers_run
    by (intro exI [of _ demo_doubled] exI [of _ demo_callers] exI [of _ 0] exI [of _ 1]) (simp add: demo_callers_def, simp add: demo_doubled_def)
qed

end
