(* ===== verification/Ap_System.thy ===== *)
theory Ap_System
  imports Hap_Assoc Ap_Signal Ap_Sta_Threads
begin

text \<open>The access point as a whole: its threads, the event loop of hostapd and the threads that they start, as a step
  relation. A step is a frame from the driver, the outcome of a frame that was sent, a timer, a message of
  the controller, packets of a queue, the events of the directory that Click writes to, or a thread of one of
  the pools, which leaves its pool. The steps are those of the theories below; in the state that
  \<open>controller_conn_init\<close> leaves, and in every state that they reach from it, the tables, lists and counters of the access
  point agree.

  A step is a handler from its beginning to its end, so the relation has the runs in which handlers do not overlap. The code does
  not exclude overlapping: \<open>addSTA\<close> takes the mutex twice (Ap_Sta_Threads has its sections, and what becomes of the station
  list when they interleave), the tests of a station's status and what they lead to are separate sections, and hostapd's stations are
  changed by its event loop and by the thread of the controller without a lock.\<close>

section \<open>Steps\<close>

text \<open>Three rules restrict their input. A frame whose outcome the driver reports has at least 30 bytes, which the
  authentication and association replies of the access point have (\<open>handle_auth_cb\<close> reads 30 bytes before it checks
  the length); a timer is one of a station in the list, since \<open>ap_free_sta\<close> cancels the timers of the station it frees; and
  a packet that libnetfilter_queue delivers carries its header. A step that stops the program has no rule.\<close>

inductive ap_step :: "hap_conf \<Rightarrow> mgmt_conf \<Rightarrow> access_point \<Rightarrow> access_point \<Rightarrow> bool" for conf mc where
  frame: "ieee802_11_mgmt (e :: mgmt_env) conf mc mgmt s = Inr (r, s') \<Longrightarrow> ap_step conf mc s s'"
| sent_frame: "30 \<le> length mgmt \<Longrightarrow> ieee802_11_mgmt_cb (e :: mgmt_env) conf mgmt t ack s = Inr s' \<Longrightarrow> ap_step conf mc s s'"
| sta_timer: "p \<in> set (sta_list (ap_hapd s)) \<Longrightarrow> ap_handle_timer conf te p s = Inr s' \<Longrightarrow> ap_step conf mc s s'"
| notify_timer: "notify_controller_disassoc (e :: mgmt_env) a s = Inr s' \<Longrightarrow> ap_step conf mc s s'"
| report: "sta_msg_threads s = xs @ h # ys \<Longrightarrow> process_sta_msg (e :: of_env) h (s\<lparr>sta_msg_threads := xs @ ys\<rparr>) = Inr s' \<Longrightarrow> ap_step conf mc s s'"
| strength: "sta_data_threads s = xs @ d # ys \<Longrightarrow>
     process_sta_data (e :: of_env) (conf_max_num_sta conf) d (s\<lparr>sta_data_threads := xs @ ys\<rparr>) = Inr s' \<Longrightarrow> ap_step conf mc s s'"
| deauth: "deauth_threads s = xs @ a # ys \<Longrightarrow> handle_deauth_conn (e :: of_env) a (s\<lparr>deauth_threads := xs @ ys\<rparr>) = Inr s' \<Longrightarrow> ap_step conf mc s s'"
| nat_entry: "nat_entry_threads s = xs @ n # ys \<Longrightarrow> send_nat_entry (e :: of_env) n (s\<lparr>nat_entry_threads := xs @ ys\<rparr>) = Inr s' \<Longrightarrow> ap_step conf mc s s'"
| port_entry: "port_entry_threads s = xs @ n # ys \<Longrightarrow>
     send_nat_port_entry (e :: of_env) n (s\<lparr>port_entry_threads := xs @ ys\<rparr>) = Inr s' \<Longrightarrow> ap_step conf mc s s'"
| reinject: "reinject_threads s = xs @ q # ys \<Longrightarrow> reinject_pkt q (s\<lparr>reinject_threads := xs @ ys\<rparr>) = Inr (vs, s') \<Longrightarrow> ap_step conf mc s s'"
| controller: "ap_controller_round (e :: ctl_env) conf ce rx s = Inr s' \<Longrightarrow> ap_step conf mc s s'"
| packets: "poll_ok p \<Longrightarrow> ap_recv_round (e :: ap_env) qh num (p :: ap_nfq_data poll) rv s = Inr (rv', vs, s') \<Longrightarrow> ap_step conf mc s s'"
| click: "rssi_round (e :: signal_env) ev s = Inr s' \<Longrightarrow> ap_step conf mc s s'"

section \<open>What every step keeps\<close>

definition ap_sound :: "hap_conf \<Rightarrow> ip4 \<Rightarrow> access_point \<Rightarrow> bool" where
  "ap_sound conf ip s \<longleftrightarrow> ap_ok conf s \<and> aid_inv (ap_hapd s) \<and> ap_ifIP s = ip"

lemma kept_sound: "ap_sound conf ip s \<Longrightarrow> ap_ok conf s' \<and> ap_kept s s' \<Longrightarrow> ap_sound conf ip s'"
  by (auto simp: ap_sound_def ap_kept_def)

lemma talks_sound: "ap_sound conf ip s \<Longrightarrow> talks (conf_max_num_sta conf) s s' \<Longrightarrow> ap_sound conf ip s'"
  using kept_sound talks_keeps ap_sound_def by blast

lemma sound_up: "ap_sound conf ip s \<Longrightarrow> ap_up (conf_max_num_sta conf) s"
  by (simp add: ap_sound_def ap_ok_def)

lemma thread_sound: "ap_sound conf ip s \<Longrightarrow> (ap_up (conf_max_num_sta conf) s \<Longrightarrow> talks (conf_max_num_sta conf) s s') \<Longrightarrow> ap_sound conf ip s'"
  using talks_sound sound_up by blast

lemma quiet_sound: "ap_sound conf ip s \<Longrightarrow> quiet a s s' \<Longrightarrow> ap_sound conf ip s'"
  using quiet_result [of conf s a s' "{}"] kept_sound by (auto simp: mgmt_result_def ap_sound_def)

text \<open>A thread that leaves its pool, or is put into one, changes nothing else.\<close>

lemma pool_sound [simp]:
  "ap_sound conf ip (s\<lparr>sta_msg_threads := a\<rparr>) = ap_sound conf ip s"
  "ap_sound conf ip (s\<lparr>sta_data_threads := b\<rparr>) = ap_sound conf ip s"
  "ap_sound conf ip (s\<lparr>deauth_threads := c\<rparr>) = ap_sound conf ip s"
  "ap_sound conf ip (s\<lparr>nat_entry_threads := d\<rparr>) = ap_sound conf ip s"
  "ap_sound conf ip (s\<lparr>port_entry_threads := f\<rparr>) = ap_sound conf ip s"
  "ap_sound conf ip (s\<lparr>reinject_threads := g\<rparr>) = ap_sound conf ip s"
  by (simp_all add: ap_sound_def ap_ok_def ap_inv_def ap_up_def)

lemma rssi_events_pool: "rssi_events e buf n p s = Inr s' \<Longrightarrow> s' = s\<lparr>sta_data_threads := sta_data_threads s'\<rparr>"
proof (induction e buf n p s arbitrary: s' rule: rssi_events.induct)
  case (1 e buf n p s)
  show ?case
  proof (cases "p < n")
    case True
    with "1.prems" have "bindE (ld32 buf (p + offsetof inotify_event [''mask''])) (\<lambda>mask.
        bindE (if mask AND IN_CLOSE_WRITE \<noteq> 0 then bindE (string_at buf (p + sizeof inotify_event)) (\<lambda>name. rssi_event e name s) else Inr s) (\<lambda>s.
        bindE (ld32 buf (p + offsetof inotify_event [''len''])) (\<lambda>len.
        rssi_events e buf n (p + sizeof inotify_event + unat len) s))) = Inr s'"
      by (simp only: rssi_events.simps [of e buf n p s] if_True)
    then obtain mask t len where t: "ld32 buf (p + offsetof inotify_event [''mask'']) = Inr mask"
      "(if mask AND IN_CLOSE_WRITE \<noteq> 0 then bindE (string_at buf (p + sizeof inotify_event)) (\<lambda>name. rssi_event e name s) else Inr s) = Inr t"
      "ld32 buf (p + offsetof inotify_event [''len'']) = Inr len" "rssi_events e buf n (p + sizeof inotify_event + unat (len :: u32)) t = Inr s'"
      by (elim bindE_E) blast
    have a: "t = s\<lparr>sta_data_threads := sta_data_threads t\<rparr>"
      using t(2) by (auto simp: rssi_event_def Let_def elim!: bindE_E split: if_splits option.splits)
    have b: "s' = t\<lparr>sta_data_threads := sta_data_threads s'\<rparr>" by (rule "1.IH" [OF True t(4)])
    show ?thesis by (subst b, subst a) simp
  next
    case False
    then have "s' = s" using "1.prems" unfolding rssi_events.simps [of e buf n p s] by simp
    then show ?thesis by simp
  qed
qed

lemma reinject_sound:
  assumes s: "ap_sound conf ip s" and r: "reinject_pkt q s = Inr (vs, s')"
  shows "ap_sound conf ip s'"
proof -
  have inv: "ap_nat_inv (ap_entryList s)" "pq_inv (portQueue s)" using s by (simp_all add: ap_sound_def ap_ok_def ap_inv_def)
  obtain c pq where c: "sweep (reinject_one (item c) (ap_ifIP s)) (AP_HASH_FUNC (am_dst_addr (item c))) (portQueue s) = Inr (vs, pq)"
    "s' = s\<lparr>portQueue := pq\<rparr>" using r by (auto simp: reinject_pkt_def elim!: bindE_E)
  let ?t = "portQueue s"
  have wf: "wf_chains pd_hash ?t" "length (table ?t) = AP_MAXENTRY" "\<forall>h < AP_MAXENTRY. \<forall>pd \<in> set (waiting ?t h). pd_ok pd"
    using inv(2) by (simp_all add: pq_inv_def)
  have h: "AP_HASH_FUNC (am_dst_addr (item c)) < length (table ?t)"
    using c(1) by (auto simp: sweep_def head_def split: if_splits elim!: bindE_E)
  have k: "wf_chains pd_hash pq" "length (table pq) = AP_MAXENTRY" "\<forall>k < AP_MAXENTRY. set (bucket_list pq k) \<subseteq> set (bucket_list ?t k)"
    using sweep_keeps [OF wf(1) h c(1)] wf(2) by auto
  then have "pq_inv pq" using wf(3) by (fastforce simp: pq_inv_def waiting_def)
  then show ?thesis using s c(2) by (simp add: ap_sound_def ap_ok_def ap_inv_def ap_up_def)
qed

lemma packets_sound:
  assumes s: "ap_sound conf ip s" and r: "poll_ok p" "ap_recv_round e qh num p rv s = Inr (rv', vs, s')"
  shows "ap_sound conf ip s'"
proof -
  have "ap_inv s" using s by (simp add: ap_sound_def ap_ok_def)
  then have f: "ap_loop_frame s s'" using ap_round_outcome [OF _ r(1), of s e qh num rv] r(2) by simp
  then show ?thesis using s by (auto simp: ap_loop_frame_def ap_frame_def ap_sound_def ap_ok_def ap_inv_def ap_up_def)
qed

lemma ap_step_sound:
  assumes "ap_step conf mc s s'" "ap_sound conf ip s"
  shows "ap_sound conf ip s'"
  using assms(1)
proof (cases rule: ap_step.cases)
  case (frame e mgmt r)
  then have "mgmt_result conf (frame_sa mgmt) (frame_edges (frame_type mgmt)) s s'"
    using runs_mgmt [of conf s e mgmt mc] assms(2) by (simp add: ap_sound_def)
  then show ?thesis using kept_sound [OF assms(2)] by (simp add: mgmt_result_def)
next
  case (sent_frame mgmt e t ack)
  then have "quiet (frame_da mgmt) s s'"
    using runs_mgmt_cb [OF sent_frame(1), of "conf_max_num_sta conf" s e conf t ack] assms(2) by (simp add: ap_sound_def ap_ok_def)
  then show ?thesis by (rule quiet_sound [OF assms(2)])
next
  case (sta_timer p te)
  have "hap_inv (ap_hapd s)" using assms(2) by (simp add: ap_sound_def ap_ok_def)
  from runs_timer [OF this sta_timer(1), of conf te] show ?thesis using sta_timer(2) quiet_sound [OF assms(2)] by auto
next
  case (notify_timer e a)
  from notify_run [OF sound_up [OF assms(2)] notify_timer] show ?thesis using assms(2) talks_sound [OF assms(2)] by auto
next
  case (report xs h ys e)
  show ?thesis
    by (rule thread_sound [of conf ip "s\<lparr>sta_msg_threads := xs @ ys\<rparr>"], use assms(2) in simp) (rule process_sta_msg_talks [OF _ report(2)])
next
  case (strength xs d ys e)
  show ?thesis
    by (rule thread_sound [of conf ip "s\<lparr>sta_data_threads := xs @ ys\<rparr>"], use assms(2) in simp) (rule process_sta_data_talks [OF _ strength(2)])
next
  case (deauth xs a ys e)
  show ?thesis
    by (rule thread_sound [of conf ip "s\<lparr>deauth_threads := xs @ ys\<rparr>"], use assms(2) in simp) (rule deauth_conn_talks [OF _ deauth(2)])
next
  case (nat_entry xs n ys e)
  show ?thesis
    by (rule thread_sound [of conf ip "s\<lparr>nat_entry_threads := xs @ ys\<rparr>"], use assms(2) in simp) (rule send_nat_talks(1) [OF _ nat_entry(2)])
next
  case (port_entry xs n ys e)
  show ?thesis
    by (rule thread_sound [of conf ip "s\<lparr>port_entry_threads := xs @ ys\<rparr>"], use assms(2) in simp) (rule send_nat_talks(2) [OF _ port_entry(2)])
next
  case (reinject xs q ys vs)
  then show ?thesis using reinject_sound [of conf ip "s\<lparr>reinject_threads := xs @ ys\<rparr>"] assms(2) by simp
next
  case (controller e ce rx)
  then show ?thesis using controller_round_keeps [of conf s e ce rx s'] kept_sound [OF assms(2)] assms(2) by (simp add: ap_sound_def)
next
  case (packets p e qh num rv rv' vs)
  then show ?thesis using packets_sound [OF assms(2)] by blast
next
  case (click e ev)
  then have "s' = s\<lparr>sta_data_threads := sta_data_threads s'\<rparr>"
    by (auto simp: rssi_round_def elim!: bindE_E split: inotify_poll.splits if_splits intro: rssi_events_pool)
  then show ?thesis using assms(2) pool_sound(2) by metis
qed

section \<open>Properties\<close>

text \<open>C19. The handlers of the access point, one after another, keep it in order. From the state that a successful start leaves
  (with memory for the table of flows, and no station in hostapd), after any sequence of frames, acknowledgements, timers,
  messages of the controller, packets, signal strengths and report threads, each handled from its beginning to its end and
  in whatever order: the connection and the station list are there and well formed, the tables of flows and of
  waiting packets are well formed, the chains, the list and the counters of hostapd agree with its stations, no two
  stations share an association id, and the address is the one the program was started with. Nothing is said of handlers that
  overlap, which the code does not exclude; acknowledged frames have at least 30 bytes, timers are those of listed
  stations, and packets carry their header.\<close>

theorem ap_reachable_sound:
  assumes "ap_conn_init (e :: of_env) ie conf s0 = Inr (0, s1)" "calloc_ok e (AP_MAXENTRY * 8)" "ap_hapd s0 = hapd_init w"
    "(ap_step conf mc)\<^sup>*\<^sup>* s1 s"
  shows "ap_inv s \<and> ap_up (conf_max_num_sta conf) s \<and> hap_inv (ap_hapd s) \<and> ap_ifIP s = nat_addr ie \<and>
    (\<forall>a b x y. hap_abs (ap_hapd s) a = Some x \<and> hap_abs (ap_hapd s) b = Some y \<and> sta_aid x \<noteq> 0 \<and> sta_aid x = sta_aid y \<longrightarrow> a = b)"
proof -
  have "ap_sound conf (nat_addr ie) s1"
    using assms(1-3) hap_inv_init [of w] aid_inv_init [of w] stas_ok_init ap_nat_inv_init pq_inv_init
    by (auto simp: ap_conn_init_def ap_sound_def ap_ok_def ap_inv_def ap_up_def ap_connection_init_def conn_inv_def Let_def split: if_splits)
  with assms(4) have "ap_sound conf (nat_addr ie) s"
    by (induction rule: rtranclp_induct) (auto intro: ap_step_sound)
  then show ?thesis by (auto simp: ap_sound_def ap_ok_def aid_inv_def)
qed

definition demo_start :: access_point where
  "demo_start = (demo_access_point (STAList_init 0) (hapd_init 63))\<lparr>ap_controller := Null, staList := Null\<rparr>"

definition demo_of_env :: of_env where
  "demo_of_env = \<lparr>calloc_ok = (\<lambda>_. True), send_ret = (\<lambda>_. 8), rand_ret = 5\<rparr>"

definition demo_init_env :: init_env where
  "demo_init_env = \<lparr>inotify_init_ret = 3, add_watch_ret = 1, nat_ioctl = 0, nat_addr = IP4 10 0 0 2\<rparr>"

theorem ap_reachable_sound_witness:
  "\<exists>s1 s. ap_conn_init demo_of_env demo_init_env demo_conf demo_start = Inr (0, s1) \<and> (ap_step demo_conf demo_mgmt_conf)\<^sup>*\<^sup>* s1 s \<and>
     sta_msg_threads s1 = [] \<and> length (sta_msg_threads s) = 1 \<and> ap_up 255 s \<and> hap_inv (ap_hapd s)"
proof -
  define probe :: buf where "probe = [0x40, 0, 0, 0] @ mac_bytes demo_ap_mac @ mac_bytes demo_addr @ mac_bytes demo_ap_mac @ [0, 0]"
  obtain s1 where s1: "ap_conn_init demo_of_env demo_init_env demo_conf demo_start = Inr (0, s1)" "sta_msg_threads s1 = []"
    by (simp add: ap_conn_init_def demo_of_env_def demo_init_env_def demo_start_def demo_access_point_def Let_def)
  have p: "length probe = 24" "frame_fc probe = Inr 0x40" "mgmt_sa probe = Inr demo_addr" "mgmt_da probe = Inr demo_ap_mac" "mgmt_bssid probe = Inr demo_ap_mac"
    unfolding probe_def by code_simp+
  obtain s where s: "ieee802_11_mgmt (demo_mgmt_env 0) demo_conf demo_mgmt_conf probe s1 = Inr (1, s)" "length (sta_msg_threads s) = 1"
    using s1(2) by (simp add: ieee802_11_mgmt_def p Let_def demo_mgmt_conf_def stype_vals WLAN_FC_GET_STYPE_def WLAN_FC_STYPE_BEACON_def
        start_report_def demo_mgmt_env_def spawn_def emit_ap_def)
  have r: "(ap_step demo_conf demo_mgmt_conf)\<^sup>*\<^sup>* s1 s" using frame [OF s(1)] by blast
  have c: "calloc_ok demo_of_env (AP_MAXENTRY * 8)" "ap_hapd demo_start = hapd_init 63" "conf_max_num_sta demo_conf = 255"
    by (simp_all add: demo_of_env_def demo_start_def demo_access_point_def demo_conf_def)
  from ap_reachable_sound [OF s1(1) c(1,2) r] show ?thesis using s1 s(2) r c(3) by auto
qed

end
