(* ===== verification/Fl_Messages.thy ===== *)
theory Fl_Messages
  imports Openflow
begin

text \<open>
  The messages of the controller's module (Floodlight, net/floodlightcontroller/ofSwitchAP: the classes
  \<open>OFWlanHeader\<close> to \<open>OFNATMessageExt\<close> with \<open>writeTo\<close> and \<open>readFrom\<close>; org/openflow/protocol/OFVendor.java;
  the registration of the classes in core/internal/Controller.java). A class is a record that extends the
  record of its superclass; the classes below a message class only fix the subtype. Hardware addresses are
  arrays of six bytes, as \<open>readFrom\<close> makes them; the arrays that may be null are of type \<open>buf option\<close>.

  The buffer is netty's, which is not part of the repository: how it writes and reads numbers of two and
  four bytes is the parameter \<open>netty\<close>. It is documented to use the network byte order (\<open>big_endian\<close>).

  Shown here: every message that the controller reads is read back from what is written, and the
  messages are prefix free, so that a stream of them has one reading; the update of a station, which the
  controller only sends, cannot be read by its own \<open>readFrom\<close>.
\<close>

section \<open>The buffer\<close>

datatype java_error = NullPointer | IndexOutOfBounds | NumberFormat | NegativeArraySize | IllegalArgument | ClassCast

type_synonym 'a jres = "java_error + 'a"

record netty =
  put_short :: "u16 \<Rightarrow> buf"
  put_int :: "u32 \<Rightarrow> buf"
  get_short :: "buf \<Rightarrow> u16"
  get_int :: "buf \<Rightarrow> u32"

definition big_endian :: "netty \<Rightarrow> bool" where
  "big_endian nt \<longleftrightarrow> (\<forall>w. put_short nt w = bytes16 (htons w) \<and> get_short nt (bytes16 (htons w)) = w) \<and>
     (\<forall>w. put_int nt w = bytes32 (htonl w) \<and> get_int nt (bytes32 (htonl w)) = w)"

definition readBytes :: "nat \<Rightarrow> buf \<Rightarrow> (buf \<times> buf) jres" where
  "readBytes n data = (if length data < n then Inl IndexOutOfBounds else Inr (take n data, drop n data))"

definition readShort :: "netty \<Rightarrow> buf \<Rightarrow> (u16 \<times> buf) jres" where
  "readShort nt data = bindE (readBytes 2 data) (\<lambda>(x, data). Inr (get_short nt x, data))"

definition readInt :: "netty \<Rightarrow> buf \<Rightarrow> (u32 \<times> buf) jres" where
  "readInt nt data = bindE (readBytes 4 data) (\<lambda>(x, data). Inr (get_int nt x, data))"

definition readByte :: "buf \<Rightarrow> (byte \<times> buf) jres" where
  "readByte data = bindE (readBytes 1 data) (\<lambda>(x, data). Inr (hd x, data))"

text \<open>\<open>data.readerIndex(data.readerIndex() + n)\<close>\<close>

definition skip :: "nat \<Rightarrow> buf \<Rightarrow> buf jres" where
  "skip n data = (if length data < n then Inl IndexOutOfBounds else Inr (drop n data))"

text \<open>\<open>readBytes\<close> into a new array of six bytes, and into an array that may be null.\<close>

fun mac_of :: "buf \<Rightarrow> mac" where
  "mac_of [a, b, c, d, e, f] = MAC a b c d e f"
| "mac_of _ = MAC 0 0 0 0 0 0"

definition readMac :: "buf \<Rightarrow> (mac \<times> buf) jres" where
  "readMac data = bindE (readBytes 6 data) (\<lambda>(x, data). Inr (mac_of x, data))"

definition readInto :: "buf option \<Rightarrow> buf \<Rightarrow> (buf option \<times> buf) jres" where
  "readInto dst data = (case dst of None \<Rightarrow> Inl NullPointer
     | Some old \<Rightarrow> bindE (readBytes (length old) data) (\<lambda>(x, data). Inr (Some x, data)))"

definition writeArray :: "buf option \<Rightarrow> buf jres" where
  "writeArray src = (case src of None \<Rightarrow> Inl NullPointer | Some x \<Rightarrow> Inr x)"

section \<open>The message classes\<close>

record OFWlanHeader =
  subtype :: u32

record OFWlanSTAMessage = OFWlanHeader +
  sm_staMacAddress :: mac

record OFWlanData = OFWlanHeader +
  wd_staMacAddress :: mac
  wd_apMacAddress :: mac

record OFWlanAuthentication = OFWlanData +
  wa_auth_alg :: u16

record OFWlanAssociation = OFWlanData +
  wa_aid :: u16
  wa_capability :: u16
  wa_listen_interval :: u16
  wa_supported_rates :: "buf option"
  wa_supported_rates_len :: u32
  wa_qosinfo :: byte

record OFWlanUpdateSTA = OFWlanHeader +
  us_staMacAddress :: "buf option"
  us_auth_alg :: u16
  us_aid :: u16
  us_capability :: u16
  us_listen_interval :: u16
  us_supported_rates :: "buf option"
  us_supported_rates_len :: u32
  us_qosinfo :: byte

record OFWlanRSSI = OFWlanHeader +
  rs_staMacAddress :: mac
  rs_apMacAddress :: mac
  rs_rssi :: byte

record OFNATMessage = OFWlanHeader +
  nm_staMacAddress :: mac
  sourceIP :: u32
  destinationIP :: u32
  sourcePort :: u16
  destinationPort :: u16

record OFNATMessageExt = OFNATMessage +
  newPort :: u16

section \<open>Writing\<close>

definition writeTo_OFWlanHeader :: "netty \<Rightarrow> 'a OFWlanHeader_scheme \<Rightarrow> buf" where
  "writeTo_OFWlanHeader nt m = put_int nt (subtype m)"

definition writeTo_OFWlanSTAMessage :: "netty \<Rightarrow> 'a OFWlanSTAMessage_scheme \<Rightarrow> buf" where
  "writeTo_OFWlanSTAMessage nt m = writeTo_OFWlanHeader nt m @ mac_bytes (sm_staMacAddress m)"

definition writeTo_OFWlanData :: "netty \<Rightarrow> 'a OFWlanData_scheme \<Rightarrow> buf" where
  "writeTo_OFWlanData nt m = writeTo_OFWlanHeader nt m @ mac_bytes (wd_staMacAddress m) @ mac_bytes (wd_apMacAddress m)"

definition writeTo_OFWlanAuthentication :: "netty \<Rightarrow> 'a OFWlanAuthentication_scheme \<Rightarrow> buf" where
  "writeTo_OFWlanAuthentication nt m = writeTo_OFWlanData nt m @ put_short nt (wa_auth_alg m)"

definition writeTo_OFWlanAssociation :: "netty \<Rightarrow> 'a OFWlanAssociation_scheme \<Rightarrow> buf jres" where
  "writeTo_OFWlanAssociation nt m = bindE (writeArray (wa_supported_rates m)) (\<lambda>rates.
     Inr (writeTo_OFWlanData nt m @ put_short nt (wa_aid m) @ put_short nt (wa_capability m) @
       put_short nt (wa_listen_interval m) @ put_short nt 0 @ rates @ put_int nt (wa_supported_rates_len m) @
       [wa_qosinfo m] @ put_short nt 0 @ [0]))"

definition writeTo_OFWlanUpdateSTA :: "netty \<Rightarrow> 'a OFWlanUpdateSTA_scheme \<Rightarrow> buf jres" where
  "writeTo_OFWlanUpdateSTA nt m =
     bindE (writeArray (us_staMacAddress m)) (\<lambda>a. bindE (writeArray (us_supported_rates m)) (\<lambda>rates.
     Inr (writeTo_OFWlanHeader nt m @ a @ put_short nt (us_auth_alg m) @ put_short nt (us_aid m) @
       put_short nt (us_capability m) @ put_short nt (us_listen_interval m) @ put_short nt 0 @ rates @
       put_int nt (us_supported_rates_len m) @ [us_qosinfo m] @ put_short nt 0 @ [0])))"

definition writeTo_OFWlanRSSI :: "netty \<Rightarrow> 'a OFWlanRSSI_scheme \<Rightarrow> buf" where
  "writeTo_OFWlanRSSI nt m = writeTo_OFWlanHeader nt m @ mac_bytes (rs_staMacAddress m) @ mac_bytes (rs_apMacAddress m) @ [rs_rssi m]"

definition writeTo_OFNATMessage :: "netty \<Rightarrow> 'a OFNATMessage_scheme \<Rightarrow> buf" where
  "writeTo_OFNATMessage nt m = writeTo_OFWlanHeader nt m @ mac_bytes (nm_staMacAddress m) @ put_short nt 0 @
     put_int nt (sourceIP m) @ put_int nt (destinationIP m) @ put_short nt (sourcePort m) @ put_short nt (destinationPort m)"

definition writeTo_OFNATMessageExt :: "netty \<Rightarrow> 'a OFNATMessageExt_scheme \<Rightarrow> buf" where
  "writeTo_OFNATMessageExt nt m = writeTo_OFNATMessage nt m @ put_short nt (newPort m) @ put_short nt 0"

section \<open>Reading\<close>

definition readFrom_OFWlanHeader :: "netty \<Rightarrow> buf \<Rightarrow> (OFWlanHeader \<times> buf) jres" where
  "readFrom_OFWlanHeader nt data = bindE (readInt nt data) (\<lambda>(st, data). Inr (\<lparr>subtype = st\<rparr>, data))"

definition readFrom_OFWlanSTAMessage :: "netty \<Rightarrow> buf \<Rightarrow> (OFWlanSTAMessage \<times> buf) jres" where
  "readFrom_OFWlanSTAMessage nt data =
     bindE (readFrom_OFWlanHeader nt data) (\<lambda>(h, data).
     bindE (readMac data) (\<lambda>(sta, data). Inr (\<lparr>subtype = subtype h, sm_staMacAddress = sta\<rparr>, data)))"

definition readFrom_OFWlanData :: "netty \<Rightarrow> buf \<Rightarrow> (OFWlanData \<times> buf) jres" where
  "readFrom_OFWlanData nt data =
     bindE (readFrom_OFWlanHeader nt data) (\<lambda>(h, data).
     bindE (readMac data) (\<lambda>(sta, data).
     bindE (readMac data) (\<lambda>(ap, data).
       Inr (\<lparr>subtype = subtype h, wd_staMacAddress = sta, wd_apMacAddress = ap\<rparr>, data))))"

definition readFrom_OFWlanAuthentication :: "netty \<Rightarrow> buf \<Rightarrow> (OFWlanAuthentication \<times> buf) jres" where
  "readFrom_OFWlanAuthentication nt data =
     bindE (readFrom_OFWlanData nt data) (\<lambda>(d, data).
     bindE (readShort nt data) (\<lambda>(alg, data).
       Inr (\<lparr>subtype = subtype d, wd_staMacAddress = wd_staMacAddress d, wd_apMacAddress = wd_apMacAddress d, wa_auth_alg = alg\<rparr>, data)))"

definition readFrom_OFWlanAssociation :: "netty \<Rightarrow> buf \<Rightarrow> (OFWlanAssociation \<times> buf) jres" where
  "readFrom_OFWlanAssociation nt data =
     bindE (readFrom_OFWlanData nt data) (\<lambda>(d, data).
     bindE (readShort nt data) (\<lambda>(aid, data).
     bindE (readShort nt data) (\<lambda>(capability, data).
     bindE (readShort nt data) (\<lambda>(listen_interval, data).
     bindE (skip 2 data) (\<lambda>data.
     bindE (readBytes 32 data) (\<lambda>(rates, data).
     bindE (readInt nt data) (\<lambda>(len, data).
     bindE (readByte data) (\<lambda>(qosinfo, data).
     bindE (skip 3 data) (\<lambda>data.
       Inr (\<lparr>subtype = subtype d, wd_staMacAddress = wd_staMacAddress d, wd_apMacAddress = wd_apMacAddress d,
         wa_aid = aid, wa_capability = capability, wa_listen_interval = listen_interval, wa_supported_rates = Some rates,
         wa_supported_rates_len = len, wa_qosinfo = qosinfo\<rparr>, data))))))))))"

text \<open>The one \<open>readFrom\<close> that reads into the arrays the object has.\<close>

definition readFrom_OFWlanUpdateSTA :: "netty \<Rightarrow> OFWlanUpdateSTA \<Rightarrow> buf \<Rightarrow> (OFWlanUpdateSTA \<times> buf) jres" where
  "readFrom_OFWlanUpdateSTA nt m data =
     bindE (readFrom_OFWlanHeader nt data) (\<lambda>(h, data).
     bindE (readInto (us_staMacAddress m) data) (\<lambda>(sta, data).
     bindE (readShort nt data) (\<lambda>(alg, data).
     bindE (readShort nt data) (\<lambda>(aid, data).
     bindE (readShort nt data) (\<lambda>(capability, data).
     bindE (readShort nt data) (\<lambda>(listen_interval, data).
     bindE (readInto (us_supported_rates m) data) (\<lambda>(rates, data).
     bindE (readInt nt data) (\<lambda>(len, data).
     bindE (readByte data) (\<lambda>(qosinfo, data).
       Inr (\<lparr>subtype = subtype h, us_staMacAddress = sta, us_auth_alg = alg, us_aid = aid, us_capability = capability,
         us_listen_interval = listen_interval, us_supported_rates = rates, us_supported_rates_len = len,
         us_qosinfo = qosinfo\<rparr>, data))))))))))"

definition readFrom_OFWlanRSSI :: "netty \<Rightarrow> buf \<Rightarrow> (OFWlanRSSI \<times> buf) jres" where
  "readFrom_OFWlanRSSI nt data =
     bindE (readFrom_OFWlanHeader nt data) (\<lambda>(h, data).
     bindE (readMac data) (\<lambda>(sta, data).
     bindE (readMac data) (\<lambda>(ap, data).
     bindE (readByte data) (\<lambda>(rssi, data).
       Inr (\<lparr>subtype = subtype h, rs_staMacAddress = sta, rs_apMacAddress = ap, rs_rssi = rssi\<rparr>, data)))))"

definition readFrom_OFNATMessage :: "netty \<Rightarrow> buf \<Rightarrow> (OFNATMessage \<times> buf) jres" where
  "readFrom_OFNATMessage nt data =
     bindE (readFrom_OFWlanHeader nt data) (\<lambda>(h, data).
     bindE (readMac data) (\<lambda>(sta, data).
     bindE (skip 2 data) (\<lambda>data.
     bindE (readInt nt data) (\<lambda>(src, data).
     bindE (readInt nt data) (\<lambda>(dst, data).
     bindE (readShort nt data) (\<lambda>(sp, data).
     bindE (readShort nt data) (\<lambda>(dp, data).
       Inr (\<lparr>subtype = subtype h, nm_staMacAddress = sta, sourceIP = src, destinationIP = dst, sourcePort = sp,
         destinationPort = dp\<rparr>, data))))))))"

definition readFrom_OFNATMessageExt :: "netty \<Rightarrow> buf \<Rightarrow> (OFNATMessageExt \<times> buf) jres" where
  "readFrom_OFNATMessageExt nt data =
     bindE (readFrom_OFNATMessage nt data) (\<lambda>(m, data).
     bindE (readShort nt data) (\<lambda>(np, data).
     bindE (skip 2 data) (\<lambda>data.
       Inr (\<lparr>subtype = subtype m, nm_staMacAddress = nm_staMacAddress m, sourceIP = sourceIP m,
         destinationIP = destinationIP m, sourcePort = sourcePort m, destinationPort = destinationPort m, newPort = np\<rparr>, data))))"

section \<open>Vendor messages\<close>

datatype vendor_data =
    WlanHeader OFWlanHeader
  | WlanSTAMessage OFWlanSTAMessage
  | WlanData OFWlanData
  | WlanAuthentication OFWlanAuthentication
  | WlanAssociation OFWlanAssociation
  | WlanUpdateSTA OFWlanUpdateSTA
  | WlanRSSI OFWlanRSSI
  | NATMessage OFNATMessage
  | NATMessageExt OFNATMessageExt
  | ByteArray buf

fun getLength :: "vendor_data \<Rightarrow> nat" where
  "getLength (WlanHeader m) = 4"
| "getLength (WlanSTAMessage m) = 4 + 6"
| "getLength (WlanData m) = 4 + 12"
| "getLength (WlanAuthentication m) = 4 + 12 + 2"
| "getLength (WlanAssociation m) = 4 + 12 + 60"
| "getLength (WlanUpdateSTA m) = 4 + 56"
| "getLength (WlanRSSI m) = 4 + 13"
| "getLength (NATMessage m) = 4 + 20"
| "getLength (NATMessageExt m) = 4 + 20 + 4"
| "getLength (ByteArray bs) = length bs"

fun writeTo :: "netty \<Rightarrow> vendor_data \<Rightarrow> buf jres" where
  "writeTo nt (WlanHeader m) = Inr (writeTo_OFWlanHeader nt m)"
| "writeTo nt (WlanSTAMessage m) = Inr (writeTo_OFWlanSTAMessage nt m)"
| "writeTo nt (WlanData m) = Inr (writeTo_OFWlanData nt m)"
| "writeTo nt (WlanAuthentication m) = Inr (writeTo_OFWlanAuthentication nt m)"
| "writeTo nt (WlanAssociation m) = writeTo_OFWlanAssociation nt m"
| "writeTo nt (WlanUpdateSTA m) = writeTo_OFWlanUpdateSTA nt m"
| "writeTo nt (WlanRSSI m) = Inr (writeTo_OFWlanRSSI nt m)"
| "writeTo nt (NATMessage m) = Inr (writeTo_OFNATMessage nt m)"
| "writeTo nt (NATMessageExt m) = Inr (writeTo_OFNATMessageExt nt m)"
| "writeTo nt (ByteArray bs) = Inr bs"

text \<open>The classes that are registered for a subtype of the vendor, in the order of the registration:
  probe, authentication, association, reassociation, disassociation and deauthentication requests, the
  two signal strengths, NAT update, port translation, and the gateway's announcement of itself.\<close>

datatype wlan_class = CHeader | CData | CAuthentication | CAssociation | CRSSI | CNATMessage | CNATMessageExt

definition dataTypeMap :: "(u32 \<times> wlan_class) list" where
  "dataTypeMap = [(12, CData), (0, CAuthentication), (4, CAssociation), (7, CData), (10, CData), (3, CData),
     (14, CRSSI), (16, CRSSI), (19, CNATMessage), (21, CNATMessageExt), (100, CHeader)]"

fun readFrom :: "netty \<Rightarrow> wlan_class \<Rightarrow> buf \<Rightarrow> (vendor_data \<times> buf) jres" where
  "readFrom nt CHeader data = bindE (readFrom_OFWlanHeader nt data) (\<lambda>(m, data). Inr (WlanHeader m, data))"
| "readFrom nt CData data = bindE (readFrom_OFWlanData nt data) (\<lambda>(m, data). Inr (WlanData m, data))"
| "readFrom nt CAuthentication data = bindE (readFrom_OFWlanAuthentication nt data) (\<lambda>(m, data). Inr (WlanAuthentication m, data))"
| "readFrom nt CAssociation data = bindE (readFrom_OFWlanAssociation nt data) (\<lambda>(m, data). Inr (WlanAssociation m, data))"
| "readFrom nt CRSSI data = bindE (readFrom_OFWlanRSSI nt data) (\<lambda>(m, data). Inr (WlanRSSI m, data))"
| "readFrom nt CNATMessage data = bindE (readFrom_OFNATMessage nt data) (\<lambda>(m, data). Inr (NATMessage m, data))"
| "readFrom nt CNATMessageExt data = bindE (readFrom_OFNATMessageExt nt data) (\<lambda>(m, data). Inr (NATMessageExt m, data))"

text \<open>\<open>parseVendorDataType\<close>, which reads the subtype and does not advance, and \<open>parseVendorData\<close> for the
  vendor id of the access points. The length is what the header says remains of the message; it may be
  negative.\<close>

definition parseVendorDataType :: "netty \<Rightarrow> buf \<Rightarrow> int \<Rightarrow> wlan_class option jres" where
  "parseVendorDataType nt data len =
     (if len = 0 \<or> len \<ge> 4 then bindE (readInt nt data) (\<lambda>(ty, _). Inr (map_of dataTypeMap ty))
      else Inr None)"

definition parseVendorData :: "netty \<Rightarrow> buf \<Rightarrow> int \<Rightarrow> (vendor_data \<times> buf) jres" where
  "parseVendorData nt data len =
     bindE (parseVendorDataType nt data len) (\<lambda>ty. case ty of
       Some c \<Rightarrow> readFrom nt c data
     | None \<Rightarrow> if len < 0 then Inl NegativeArraySize
         else bindE (readBytes (nat len) data) (\<lambda>(x, data). Inr (ByteArray x, data)))"

record OFVendor =
  of_version :: byte
  of_type :: byte
  of_length :: u16
  of_xid :: u32
  of_vendor :: u32
  of_vendorData :: vendor_data

definition OFVendor_MINIMUM_LENGTH :: nat where
  "OFVendor_MINIMUM_LENGTH = 12"

definition writeTo_OFVendor :: "netty \<Rightarrow> OFVendor \<Rightarrow> buf jres" where
  "writeTo_OFVendor nt m = bindE (writeTo nt (of_vendorData m)) (\<lambda>data.
     Inr ([of_version m, of_type m] @ put_short nt (of_length m) @ put_int nt (of_xid m) @ put_int nt (of_vendor m) @ data))"

definition readFrom_OFVendor :: "netty \<Rightarrow> buf \<Rightarrow> (OFVendor \<times> buf) jres" where
  "readFrom_OFVendor nt data =
     bindE (readByte data) (\<lambda>(v, data).
     bindE (readByte data) (\<lambda>(ty, data).
     bindE (readShort nt data) (\<lambda>(len, data).
     bindE (readInt nt data) (\<lambda>(x, data).
     bindE (readInt nt data) (\<lambda>(ven, data).
     bindE (parseVendorData nt data (int (unat len) - int OFVendor_MINIMUM_LENGTH)) (\<lambda>(d, data).
       Inr (\<lparr>of_version = v, of_type = ty, of_length = len, of_xid = x, of_vendor = ven, of_vendorData = d\<rparr>, data)))))))"

text \<open>How the module makes a message: \<open>getMessage(OFType.VENDOR)\<close>, the vendor, the data and the length.\<close>

definition vendor_message :: "vendor_data \<Rightarrow> OFVendor" where
  "vendor_message d = \<lparr>of_version = 1, of_type = 4, of_length = word_of_nat (OFVendor_MINIMUM_LENGTH + getLength d),
     of_xid = 0, of_vendor = AP_EXPERIMENTER_ID, of_vendorData = d\<rparr>"

section \<open>Reading what was written\<close>

text \<open>A message format: a reader that takes back exactly what was written, whatever follows.\<close>

locale codec =
  fixes encode :: "'m \<Rightarrow> buf" and decode :: "buf \<Rightarrow> ('m \<times> buf) jres" and valid :: "'m \<Rightarrow> bool"
  assumes decode_encode: "valid m \<Longrightarrow> decode (encode m @ rest) = Inr (m, rest)"
begin

lemma prefix_free:
  assumes "valid m" "valid m'" "encode m @ r = encode m' @ r'"
  shows "m = m' \<and> r = r'"
proof -
  have "decode (encode m' @ r') = Inr (m, r)" using decode_encode [OF assms(1), of r] unfolding assms(3) .
  then show ?thesis using decode_encode [OF assms(2), of r'] by simp
qed

lemma stream_unique:
  assumes "list_all valid ms" "list_all valid ms'" "length ms = length ms'"
    "concat (map encode ms) @ r = concat (map encode ms') @ r'"
  shows "ms = ms' \<and> r = r'"
  using assms
proof (induction ms arbitrary: ms')
  case (Cons m ms)
  then obtain m' ms'' where ms': "ms' = m' # ms''" by (cases ms') auto
  then have "m = m' \<and> concat (map encode ms) @ r = concat (map encode ms'') @ r'"
    using prefix_free [of m m'] Cons.prems by simp
  then show ?case using Cons.IH [of ms''] Cons.prems ms' by simp
qed simp

end

text \<open>The buffer as it is documented.\<close>

definition be16_of :: "buf \<Rightarrow> u16" where
  "be16_of b = ntohs (le16 (b ! 0) (b ! 1))"

definition be32_of :: "buf \<Rightarrow> u32" where
  "be32_of b = ntohl (le32 (b ! 0) (b ! 1) (b ! 2) (b ! 3))"

definition network_buffer :: netty where
  "network_buffer = \<lparr>put_short = (\<lambda>w. bytes16 (htons w)), put_int = (\<lambda>w. bytes32 (htonl w)),
     get_short = be16_of, get_int = be32_of\<rparr>"

lemma big_endian_network_buffer: "big_endian network_buffer"
  by (simp add: big_endian_def network_buffer_def be16_of_def be32_of_def bytes16_def bytes32_def)

lemma readBytes_append: "length x = n \<Longrightarrow> readBytes n (x @ r) = Inr (x, r)"
  by (simp add: readBytes_def)

lemma readByte_Cons: "readByte (b # r) = Inr (b, r)"
  by (simp add: readByte_def readBytes_def)

lemma mac_of_bytes: "mac_of (mac_bytes a) = a"
  by (cases a) simp

lemma readMac_bytes: "readMac (mac_bytes a @ r) = Inr (a, r)"
  by (simp add: readMac_def readBytes_append mac_of_bytes)

lemma read_short: "big_endian nt \<Longrightarrow> readShort nt (put_short nt w @ r) = Inr (w, r)"
  by (simp add: readShort_def readBytes_append big_endian_def)

lemma read_int: "big_endian nt \<Longrightarrow> readInt nt (put_int nt w @ r) = Inr (w, r)"
  by (simp add: readInt_def readBytes_append big_endian_def)

lemma skip_short: "big_endian nt \<Longrightarrow> skip 2 (put_short nt w @ r) = Inr r"
  "big_endian nt \<Longrightarrow> skip 3 (put_short nt w @ b # r) = Inr r"
  by (simp_all add: skip_def big_endian_def)

lemmas read_simps = readByte_Cons readMac_bytes read_short read_int skip_short readBytes_append

lemma header_round_trip: "big_endian nt \<Longrightarrow> readFrom_OFWlanHeader nt (writeTo_OFWlanHeader nt m @ r) = Inr (\<lparr>subtype = subtype m\<rparr>, r)"
  by (simp add: writeTo_OFWlanHeader_def readFrom_OFWlanHeader_def read_simps)

lemma sta_message_round_trip: "big_endian nt \<Longrightarrow> readFrom_OFWlanSTAMessage nt (writeTo_OFWlanSTAMessage nt m @ r) =
    Inr (\<lparr>subtype = subtype m, sm_staMacAddress = sm_staMacAddress m\<rparr>, r)"
  by (simp add: writeTo_OFWlanSTAMessage_def readFrom_OFWlanSTAMessage_def header_round_trip read_simps)

lemma data_round_trip: "big_endian nt \<Longrightarrow> readFrom_OFWlanData nt (writeTo_OFWlanData nt m @ r) =
    Inr (\<lparr>subtype = subtype m, wd_staMacAddress = wd_staMacAddress m, wd_apMacAddress = wd_apMacAddress m\<rparr>, r)"
  by (simp add: writeTo_OFWlanData_def readFrom_OFWlanData_def header_round_trip read_simps)

lemma authentication_round_trip:
  fixes m :: OFWlanAuthentication
  shows "big_endian nt \<Longrightarrow> readFrom_OFWlanAuthentication nt (writeTo_OFWlanAuthentication nt m @ r) = Inr (m, r)"
  by (simp add: writeTo_OFWlanAuthentication_def readFrom_OFWlanAuthentication_def data_round_trip read_simps)

lemma association_round_trip:
  fixes m :: OFWlanAssociation
  assumes "big_endian nt" "wa_supported_rates m = Some rates" "length rates = 32" "writeTo_OFWlanAssociation nt m = Inr b"
  shows "readFrom_OFWlanAssociation nt (b @ r) = Inr (m, r)"
  using assms(4) assms(1-3)
  by (cases m) (auto simp: writeTo_OFWlanAssociation_def readFrom_OFWlanAssociation_def writeArray_def data_round_trip read_simps)

lemma rssi_round_trip:
  fixes m :: OFWlanRSSI
  shows "big_endian nt \<Longrightarrow> readFrom_OFWlanRSSI nt (writeTo_OFWlanRSSI nt m @ r) = Inr (m, r)"
  by (simp add: writeTo_OFWlanRSSI_def readFrom_OFWlanRSSI_def header_round_trip read_simps)

lemma nat_message_round_trip: "big_endian nt \<Longrightarrow> readFrom_OFNATMessage nt (writeTo_OFNATMessage nt m @ r) =
    Inr (\<lparr>subtype = subtype m, nm_staMacAddress = nm_staMacAddress m, sourceIP = sourceIP m, destinationIP = destinationIP m,
      sourcePort = sourcePort m, destinationPort = destinationPort m\<rparr>, r)"
  by (simp add: writeTo_OFNATMessage_def readFrom_OFNATMessage_def header_round_trip read_simps)

lemma nat_message_ext_round_trip:
  fixes m :: OFNATMessageExt
  shows "big_endian nt \<Longrightarrow> readFrom_OFNATMessageExt nt (writeTo_OFNATMessageExt nt m @ r) = Inr (m, r)"
  by (simp add: writeTo_OFNATMessageExt_def readFrom_OFNATMessageExt_def nat_message_round_trip read_simps)

text \<open>The messages that the controller is sent: data of a registered class.\<close>

fun readable :: "vendor_data \<Rightarrow> bool" where
  "readable (WlanHeader m) = (map_of dataTypeMap (subtype m) = Some CHeader)"
| "readable (WlanData m) = (map_of dataTypeMap (subtype m) = Some CData)"
| "readable (WlanAuthentication m) = (map_of dataTypeMap (subtype m) = Some CAuthentication)"
| "readable (WlanAssociation m) = (map_of dataTypeMap (subtype m) = Some CAssociation \<and> map_option length (wa_supported_rates m) = Some 32)"
| "readable (WlanRSSI m) = (map_of dataTypeMap (subtype m) = Some CRSSI)"
| "readable (NATMessage m) = (map_of dataTypeMap (subtype m) = Some CNATMessage)"
| "readable (NATMessageExt m) = (map_of dataTypeMap (subtype m) = Some CNATMessageExt)"
| "readable _ = False"

text \<open>The subtype comes first in the data of every class.\<close>

fun data_subtype :: "vendor_data \<Rightarrow> u32" where
  "data_subtype (WlanHeader m) = subtype m"
| "data_subtype (WlanSTAMessage m) = subtype m"
| "data_subtype (WlanData m) = subtype m"
| "data_subtype (WlanAuthentication m) = subtype m"
| "data_subtype (WlanAssociation m) = subtype m"
| "data_subtype (WlanUpdateSTA m) = subtype m"
| "data_subtype (WlanRSSI m) = subtype m"
| "data_subtype (NATMessage m) = subtype m"
| "data_subtype (NATMessageExt m) = subtype m"
| "data_subtype (ByteArray bs) = 0"

lemmas writeTo_defs = writeTo_OFWlanHeader_def writeTo_OFWlanSTAMessage_def writeTo_OFWlanData_def writeTo_OFWlanAuthentication_def
  writeTo_OFWlanAssociation_def writeTo_OFWlanUpdateSTA_def writeTo_OFWlanRSSI_def writeTo_OFNATMessage_def writeTo_OFNATMessageExt_def

lemma readable_writes: "readable d \<Longrightarrow> \<exists>b. writeTo nt d = Inr b"
  by (cases d) (auto simp: writeTo_OFWlanAssociation_def writeArray_def)

lemma subtype_first:
  assumes "readable d" "writeTo nt d = Inr b"
  shows "\<exists>b'. b = put_int nt (data_subtype d) @ b'"
  using assms by (cases d) (auto simp: writeTo_defs writeArray_def)

lemma writeTo_round_trip:
  assumes "big_endian nt" "readable d" "writeTo nt d = Inr b"
  shows "\<exists>c. map_of dataTypeMap (data_subtype d) = Some c \<and> readFrom nt c (b @ r) = Inr (d, r)"
  using assms by (cases d) (auto simp: header_round_trip data_round_trip authentication_round_trip association_round_trip
      rssi_round_trip nat_message_round_trip nat_message_ext_round_trip)

lemma parse_round_trip:
  assumes "big_endian nt" "readable d" "writeTo nt d = Inr b" "4 \<le> n"
  shows "parseVendorData nt (b @ r) n = Inr (d, r)"
proof -
  obtain b' where "b = put_int nt (data_subtype d) @ b'" using subtype_first [OF assms(2,3)] by blast
  then have "readInt nt (b @ r) = Inr (data_subtype d, b' @ r)" using read_int [OF assms(1)] by simp
  then show ?thesis
    using writeTo_round_trip [OF assms(1-3), of r] assms(4) by (auto simp: parseVendorData_def parseVendorDataType_def)
qed

definition sendable :: "OFVendor \<Rightarrow> bool" where
  "sendable m \<longleftrightarrow> readable (of_vendorData m) \<and> 16 \<le> unat (of_length m)"

definition written_bytes :: "netty \<Rightarrow> OFVendor \<Rightarrow> buf" where
  "written_bytes nt m = (case writeTo_OFVendor nt m of Inl _ \<Rightarrow> [] | Inr b \<Rightarrow> b)"

lemma written_bytes_eq: "sendable m \<Longrightarrow> writeTo_OFVendor nt m = Inr (written_bytes nt m)"
  using readable_writes [of "of_vendorData m" nt] by (auto simp: sendable_def written_bytes_def writeTo_OFVendor_def)

lemma vendor_read_back:
  assumes "big_endian nt" "sendable m"
  shows "readFrom_OFVendor nt (written_bytes nt m @ r) = Inr (m, r)"
proof -
  have "int 16 \<le> int (unat (of_length m))" using assms(2) by (simp only: of_nat_le_iff sendable_def)
  then have "readable (of_vendorData m)" "4 \<le> int (unat (of_length m)) - int OFVendor_MINIMUM_LENGTH"
    using assms(2) by (simp_all add: sendable_def OFVendor_MINIMUM_LENGTH_def)
  moreover obtain b where b: "writeTo nt (of_vendorData m) = Inr b" using calculation(1) readable_writes by blast
  ultimately have "parseVendorData nt (b @ r) (int (unat (of_length m)) - int OFVendor_MINIMUM_LENGTH) = Inr (of_vendorData m, r)"
    using parse_round_trip assms(1) by blast
  then show ?thesis
    using assms(1) b by (simp add: readFrom_OFVendor_def written_bytes_def writeTo_OFVendor_def read_simps)
qed

locale vendor_channel =
  fixes nt :: netty
  assumes network_order: "big_endian nt"
begin

sublocale vendor: codec "written_bytes nt" "readFrom_OFVendor nt" sendable
  by unfold_locales (rule vendor_read_back [OF network_order])

end

interpretation netty_channel: vendor_channel network_buffer
  by unfold_locales (rule big_endian_network_buffer)

end
