(* ===== verification/Fl_Switch.thy ===== *)
theory Fl_Switch
  imports Fl_Messages "HOL-Library.AList"
begin

text \<open>
  The controller's module (Floodlight, net/floodlightcontroller/ofSwitchAP/OFSwitchAP.java), with the two
  library routines it depends on: \<open>HexString.toHexString\<close>, whose texts are the keys of all its maps, and
  \<open>IPv4.toIPv4Address\<close>.

  The state is the class: \<open>STAAPList\<close> is an association list, \<open>STAAPRSSIList\<close>, \<open>natTable\<close> and \<open>portMap\<close>
  are maps, and every message that is written to a switch is logged with the outcome of the write. A switch
  is a number. An object of \<open>STAAPList\<close> is referred to by its key: no object is stored under two keys, so an
  update through a reference is an update at the key, and two references to one object are one key. The
  order in which the entries of a concurrent map are visited is a parameter (\<open>entry_order\<close>), as is whether
  the n-th write fails with an \<open>IOException\<close> (\<open>write_ok\<close>) and the text of the address of a switch's
  peer, which is netty's. A handler that throws leaves the changes it made: it returns the exception with
  the state.
\<close>

section \<open>Texts\<close>

definition hex_digit :: "nat \<Rightarrow> char" where
  "hex_digit n = (if n < 10 then char_of (48 + n) else char_of (87 + n))"

definition hex_byte :: "byte \<Rightarrow> string" where
  "hex_byte b = (if unat b < 16 then ''0'' @ [hex_digit (unat b)] else [hex_digit (unat b div 16), hex_digit (unat b mod 16)])"

fun toHexString :: "buf \<Rightarrow> string" where
  "toHexString [] = ''''"
| "toHexString [b] = hex_byte b"
| "toHexString (b # c # bs) = hex_byte b @ '':'' @ toHexString (c # bs)"

definition mac_string :: "mac \<Rightarrow> string" where
  "mac_string a = toHexString (mac_bytes a)"

text \<open>\<open>String.split\<close> at a character: trailing empty texts are dropped, unless nothing was split.\<close>

fun split_at :: "char \<Rightarrow> string \<Rightarrow> string list" where
  "split_at c [] = [[]]"
| "split_at c (x # xs) = (if x = c then [] # split_at c xs
     else case split_at c xs of [] \<Rightarrow> [[x]] | w # ws \<Rightarrow> (x # w) # ws)"

definition java_split :: "char \<Rightarrow> string \<Rightarrow> string list" where
  "java_split c s = (if c \<notin> set s then [s] else rev (dropWhile (\<lambda>w. w = []) (rev (split_at c s))))"

text \<open>\<open>Integer.valueOf\<close>\<close>

definition digit_of :: "char \<Rightarrow> nat option" where
  "digit_of c = (let n = of_char c in if 48 \<le> n \<and> n < 58 then Some (n - 48) else None)"

fun digits_value :: "int \<Rightarrow> string \<Rightarrow> int option" where
  "digits_value acc [] = Some acc"
| "digits_value acc (c # cs) = (case digit_of c of None \<Rightarrow> None | Some d \<Rightarrow> digits_value (10 * acc + int d) cs)"

definition int_range :: "int \<Rightarrow> u32 jres" where
  "int_range i = (if - (2 ^ 31) \<le> i \<and> i < 2 ^ 31 then Inr (word_of_int i) else Inl NumberFormat)"

definition parse_digits :: "int \<Rightarrow> string \<Rightarrow> u32 jres" where
  "parse_digits sign s = (if s = [] then Inl NumberFormat
     else case digits_value 0 s of None \<Rightarrow> Inl NumberFormat | Some i \<Rightarrow> int_range (sign * i))"

fun Integer_valueOf :: "string \<Rightarrow> u32 jres" where
  "Integer_valueOf [] = Inl NumberFormat"
| "Integer_valueOf (c # cs) = (if c = CHR ''-'' then parse_digits (- 1) cs
     else if c = CHR ''+'' then parse_digits 1 cs else parse_digits 1 (c # cs))"

unbundle bit_operations_syntax

definition toIPv4Address :: "string \<Rightarrow> u32 jres" where
  "toIPv4Address s = (case java_split CHR ''.'' s of
     [a, b, c, d] \<Rightarrow> bindE (Integer_valueOf a) (\<lambda>a. bindE (Integer_valueOf b) (\<lambda>b. bindE (Integer_valueOf c) (\<lambda>c.
       bindE (Integer_valueOf d) (\<lambda>d. Inr (push_bit 24 a OR push_bit 16 b OR push_bit 8 c OR d)))))
   | _ \<Rightarrow> Inl IllegalArgument)"

text \<open>\<open>text.substring(1, text.indexOf(':'))\<close>\<close>

definition peer_text :: "string \<Rightarrow> string jres" where
  "peer_text t = (let n = length (takeWhile (\<lambda>c. c \<noteq> CHR '':'') t) in
     if CHR '':'' \<notin> set t \<or> n < 1 then Inl IndexOutOfBounds else Inr (take (n - 1) (drop 1 t)))"

section \<open>The state of the module\<close>

datatype fl_STAStatus = SELECTED | NOT_AUTHENTICATED | AUTHENTICATED | ASSOCIATED

type_synonym STAAPPair = "string \<times> string"

record STAAPInfo =
  sa_staMacAddress :: string
  sa_apMACAddress :: string
  sa_status :: "fl_STAStatus option"
  isHomeAP :: bool
  sa_sw :: nat
  sa_auth_alg :: u16
  sa_aid :: u16
  sa_capability :: u16
  sa_listen_interval :: u16
  sa_supported_rates :: "buf option"
  sa_supported_rates_len :: u32
  sa_qosinfo :: byte

definition new_STAAPInfo :: "string \<Rightarrow> string \<Rightarrow> fl_STAStatus option \<Rightarrow> bool \<Rightarrow> nat \<Rightarrow> STAAPInfo" where
  "new_STAAPInfo sta ap status home sw = \<lparr>sa_staMacAddress = sta, sa_apMACAddress = ap, sa_status = status, isHomeAP = home, sa_sw = sw,
     sa_auth_alg = 0, sa_aid = 0, sa_capability = 0, sa_listen_interval = 0, sa_supported_rates = None, sa_supported_rates_len = 0,
     sa_qosinfo = 0\<rparr>"

record APInfo =
  ai_apMACAddress :: string
  ai_rssi :: byte
  isSent :: bool
  ai_sw :: nat

record NATMap =
  me_sourceIP :: u32
  me_destinationIP :: u32
  me_sourcePort :: u16
  me_destinationPort :: u16
  me_newPort :: u16

type_synonym PortPair = "u32 \<times> u16"

record fl_state =
  STAAPList :: "(STAAPPair \<times> STAAPInfo) list"
  STAAPRSSIList :: "string \<Rightarrow> APInfo option"
  natTable :: "string \<Rightarrow> NATMap list option"
  gwSwitch :: "nat option"
  portMap :: "PortPair \<Rightarrow> u16 option"
  writes :: "(nat \<times> OFVendor \<times> bool) list"

definition fl_init :: fl_state where
  "fl_init = \<lparr>STAAPList = [], STAAPRSSIList = (\<lambda>_. None), natTable = (\<lambda>_. None), gwSwitch = None, portMap = (\<lambda>_. None), writes = []\<rparr>"

record fl_env =
  entry_order :: "(STAAPPair \<times> STAAPInfo) list \<Rightarrow> (STAAPPair \<times> STAAPInfo) list"
  write_ok :: "nat \<Rightarrow> bool"
  remote_address :: "nat \<Rightarrow> string option"

text \<open>A map's iterator visits every entry.\<close>

definition visits_all :: "fl_env \<Rightarrow> bool" where
  "visits_all e \<longleftrightarrow> (\<forall>l. set (entry_order e l) = set l)"

section \<open>Lookups\<close>

definition findSTAAPPair :: "fl_env \<Rightarrow> string \<Rightarrow> string \<Rightarrow> fl_state \<Rightarrow> bool" where
  "findSTAAPPair e sta ap s = list_ex (\<lambda>((staAdd, apAdd), i). staAdd = sta \<and> apAdd \<noteq> ap \<and> sa_status i = Some SELECTED)
     (entry_order e (STAAPList s))"

definition lookupSenderSTAAP :: "string \<Rightarrow> string \<Rightarrow> fl_state \<Rightarrow> STAAPInfo option" where
  "lookupSenderSTAAP sta ap s = map_of (STAAPList s) (sta, ap)"

definition findSTAAPInfo :: "fl_env \<Rightarrow> string \<Rightarrow> fl_state \<Rightarrow> (STAAPPair \<times> STAAPInfo) option" where
  "findSTAAPInfo e sta s = List.find (\<lambda>((staAdd, apAdd), i). staAdd = sta \<and> sa_status i = Some ASSOCIATED) (entry_order e (STAAPList s))"

definition put_STAAP :: "STAAPPair \<Rightarrow> STAAPInfo \<Rightarrow> fl_state \<Rightarrow> fl_state" where
  "put_STAAP k i s = s\<lparr>STAAPList := AList.update k i (STAAPList s)\<rparr>"

definition mod_STAAP :: "STAAPPair \<Rightarrow> (STAAPInfo \<Rightarrow> STAAPInfo) \<Rightarrow> fl_state \<Rightarrow> fl_state" where
  "mod_STAAP k f s = s\<lparr>STAAPList := AList.map_entry k f (STAAPList s)\<rparr>"

text \<open>\<open>sw.write\<close> of a vendor message; false when it throws an \<open>IOException\<close>.\<close>

definition sw_write :: "fl_env \<Rightarrow> nat \<Rightarrow> vendor_data \<Rightarrow> fl_state \<Rightarrow> bool \<times> fl_state" where
  "sw_write e sw d s = (let ok = write_ok e (length (writes s)) in (ok, s\<lparr>writes := writes s @ [(sw, vendor_message d, ok)]\<rparr>))"

section \<open>Handlers\<close>

definition handleProbeReq :: "fl_env \<Rightarrow> nat \<Rightarrow> OFWlanData \<Rightarrow> fl_state \<Rightarrow> fl_state" where
  "handleProbeReq e sw m s =
     (let staAddress = mac_string (wd_staMacAddress m); apAddress = mac_string (wd_apMacAddress m) in
      if findSTAAPPair e staAddress apAddress s then s
      else if findSTAAPInfo e staAddress s \<noteq> None then s
      else let (first, s) = (case lookupSenderSTAAP staAddress apAddress s of
             None \<Rightarrow> (True, put_STAAP (staAddress, apAddress) (new_STAAPInfo staAddress apAddress None False sw) s)
           | Some staAP \<Rightarrow> (sa_status staAP = Some NOT_AUTHENTICATED, s)) in
        if first then
          let s = mod_STAAP (staAddress, apAddress) (\<lambda>i. i\<lparr>sa_status := Some SELECTED, isHomeAP := True\<rparr>) s in
          snd (sw_write e sw (WlanSTAMessage \<lparr>subtype = 13, sm_staMacAddress = wd_staMacAddress m\<rparr>) s)
        else s)"

definition update_pair :: "mac \<Rightarrow> mac \<Rightarrow> (STAAPInfo \<Rightarrow> STAAPInfo) \<Rightarrow> fl_state \<Rightarrow> fl_state" where
  "update_pair sta ap f s = (case lookupSenderSTAAP (mac_string sta) (mac_string ap) s of
     None \<Rightarrow> s | Some _ \<Rightarrow> mod_STAAP (mac_string sta, mac_string ap) f s)"

definition handleAuthReq :: "OFWlanAuthentication \<Rightarrow> fl_state \<Rightarrow> fl_state" where
  "handleAuthReq m s = update_pair (wd_staMacAddress m) (wd_apMacAddress m)
     (\<lambda>i. i\<lparr>sa_status := Some AUTHENTICATED, sa_auth_alg := wa_auth_alg m\<rparr>) s"

definition handleAssocReq :: "OFWlanAssociation \<Rightarrow> fl_state \<Rightarrow> fl_state" where
  "handleAssocReq m s = update_pair (wd_staMacAddress m) (wd_apMacAddress m)
     (\<lambda>i. i\<lparr>sa_status := Some ASSOCIATED, sa_aid := wa_aid m, sa_capability := wa_capability m, sa_listen_interval := wa_listen_interval m,
        sa_supported_rates_len := wa_supported_rates_len m, sa_supported_rates := wa_supported_rates m\<rparr>) s"

definition handleReassocReq :: "OFWlanData \<Rightarrow> fl_state \<Rightarrow> fl_state" where
  "handleReassocReq m s = update_pair (wd_staMacAddress m) (wd_apMacAddress m) (\<lambda>i. i\<lparr>sa_status := Some ASSOCIATED\<rparr>) s"

definition handleDisassocReq :: "OFWlanData \<Rightarrow> fl_state \<Rightarrow> fl_state" where
  "handleDisassocReq m s =
     (let staAddress = mac_string (wd_staMacAddress m) in
      case lookupSenderSTAAP staAddress (mac_string (wd_apMacAddress m)) s of
        None \<Rightarrow> s
      | Some _ \<Rightarrow> (mod_STAAP (staAddress, mac_string (wd_apMacAddress m)) (\<lambda>i. i\<lparr>sa_status := Some AUTHENTICATED\<rparr>) s)
          \<lparr>STAAPRSSIList := (STAAPRSSIList s)(staAddress := None)\<rparr>)"

definition handleDeauthReq :: "OFWlanData \<Rightarrow> fl_state \<Rightarrow> fl_state" where
  "handleDeauthReq m s = update_pair (wd_staMacAddress m) (wd_apMacAddress m) (\<lambda>i. i\<lparr>sa_status := Some NOT_AUTHENTICATED\<rparr>) s"

definition set_rssi :: "string \<Rightarrow> APInfo \<Rightarrow> fl_state \<Rightarrow> fl_state" where
  "set_rssi sta ap s = s\<lparr>STAAPRSSIList := (STAAPRSSIList s)(sta \<mapsto> ap)\<rparr>"

text \<open>A byte of Java is signed.\<close>

definition strongest :: "APInfo option \<Rightarrow> string \<Rightarrow> byte \<Rightarrow> nat \<Rightarrow> APInfo" where
  "strongest old apAddress rssi sw =
     (let ap = (case old of None \<Rightarrow> \<lparr>ai_apMACAddress = apAddress, ai_rssi = rssi, isSent = False, ai_sw = sw\<rparr> | Some ap \<Rightarrow> ap) in
      if sint (ai_rssi ap) < sint rssi then ap\<lparr>ai_apMACAddress := apAddress, ai_rssi := rssi, ai_sw := sw\<rparr> else ap)"

definition handleLastRSSI :: "fl_env \<Rightarrow> nat \<Rightarrow> OFWlanRSSI \<Rightarrow> fl_state \<Rightarrow> fl_state" where
  "handleLastRSSI e sw m s =
     (let staAddress = mac_string (rs_staMacAddress m); apAddress = mac_string (rs_apMacAddress m);
          ap = strongest (STAAPRSSIList s staAddress) apAddress (rs_rssi m) sw;
          s = set_rssi staAddress ap s in
      if isSent ap then s
      else case findSTAAPInfo e staAddress s of
        None \<Rightarrow> s
      | Some (_, staAP) \<Rightarrow>
          (case sw_write e (sa_sw staAP) (WlanSTAMessage \<lparr>subtype = 15, sm_staMacAddress = rs_staMacAddress m\<rparr>) s of
             (ok, s) \<Rightarrow> if ok then set_rssi staAddress (ap\<lparr>isSent := True\<rparr>) s else s))"

text \<open>The handover.\<close>

definition nat_add :: "mac \<Rightarrow> u32 \<Rightarrow> NATMap \<Rightarrow> vendor_data" where
  "nat_add a src entry = NATMessageExt \<lparr>subtype = 20, nm_staMacAddress = a, sourceIP = src, destinationIP = me_destinationIP entry,
     sourcePort = me_sourcePort entry, destinationPort = me_destinationPort entry, newPort = me_newPort entry\<rparr>"

definition update_sta_add :: "mac \<Rightarrow> STAAPInfo \<Rightarrow> vendor_data" where
  "update_sta_add a staAP = WlanUpdateSTA \<lparr>subtype = 17, us_staMacAddress = Some (mac_bytes a), us_auth_alg = sa_auth_alg staAP,
     us_aid = sa_aid staAP, us_capability = sa_capability staAP, us_listen_interval = sa_listen_interval staAP,
     us_supported_rates = sa_supported_rates staAP, us_supported_rates_len = sa_supported_rates_len staAP, us_qosinfo = sa_qosinfo staAP\<rparr>"

definition copy_STA :: "STAAPInfo \<Rightarrow> STAAPInfo \<Rightarrow> STAAPInfo" where
  "copy_STA staAP staAPNew = staAPNew\<lparr>sa_auth_alg := sa_auth_alg staAP, sa_aid := sa_aid staAP, sa_capability := sa_capability staAP,
     sa_listen_interval := sa_listen_interval staAP, sa_supported_rates_len := sa_supported_rates_len staAP,
     sa_supported_rates := sa_supported_rates staAP\<rparr>"

fun write_all :: "fl_env \<Rightarrow> nat \<Rightarrow> vendor_data list \<Rightarrow> fl_state \<Rightarrow> fl_state" where
  "write_all e sw [] s = s"
| "write_all e sw (d # ds) s = write_all e sw ds (snd (sw_write e sw d s))"

definition peer_address :: "fl_env \<Rightarrow> nat \<Rightarrow> u32 jres" where
  "peer_address e sw = (case remote_address e sw of None \<Rightarrow> Inl NullPointer | Some t \<Rightarrow> bindE (peer_text t) toIPv4Address)"

fun update_gateway :: "fl_env \<Rightarrow> mac \<Rightarrow> nat \<Rightarrow> nat \<Rightarrow> NATMap list \<Rightarrow> fl_state \<Rightarrow> java_error option \<times> fl_state" where
  "update_gateway e a newSw gw [] s = (None, s)"
| "update_gateway e a newSw gw (entry # entries) s = (case peer_address e newSw of
     Inl x \<Rightarrow> (Some x, s)
   | Inr ip \<Rightarrow> update_gateway e a newSw gw entries (snd (sw_write e gw (nat_add a ip entry) s)))"

text \<open>The state changes: the new access point is known and associated, the old one is the alternative.\<close>

definition move_station :: "nat \<Rightarrow> string \<Rightarrow> string \<Rightarrow> APInfo \<Rightarrow> STAAPInfo \<Rightarrow> fl_state \<Rightarrow> fl_state" where
  "move_station sw staAddress apAddress ap staAP s =
     (let new = (staAddress, ai_apMACAddress ap);
          s = (case lookupSenderSTAAP staAddress (ai_apMACAddress ap) s of
                 None \<Rightarrow> put_STAAP new (new_STAAPInfo staAddress (ai_apMACAddress ap) None False (ai_sw ap)) s
               | Some _ \<Rightarrow> s);
          s = mod_STAAP new (copy_STA staAP) s;
          s = set_rssi staAddress (ap\<lparr>ai_apMACAddress := apAddress, ai_rssi := - 128, ai_sw := sw\<rparr>) s;
          s = mod_STAAP (staAddress, apAddress) (\<lambda>i. i\<lparr>sa_status := Some NOT_AUTHENTICATED\<rparr>) s in
      mod_STAAP new (\<lambda>i. i\<lparr>sa_status := Some ASSOCIATED\<rparr>) s)"

definition new_switch :: "string \<Rightarrow> APInfo \<Rightarrow> fl_state \<Rightarrow> nat" where
  "new_switch staAddress ap s = (case lookupSenderSTAAP staAddress (ai_apMACAddress ap) s of None \<Rightarrow> ai_sw ap | Some i \<Rightarrow> sa_sw i)"

definition handleAPRSSI :: "fl_env \<Rightarrow> nat \<Rightarrow> OFWlanRSSI \<Rightarrow> fl_state \<Rightarrow> java_error option \<times> fl_state" where
  "handleAPRSSI e sw m s =
     (let a = rs_staMacAddress m; staAddress = mac_string a; apAddress = mac_string (rs_apMacAddress m) in
      case STAAPRSSIList s staAddress of
        None \<Rightarrow> (None, s)
      | Some ap \<Rightarrow>
          let ap = ap\<lparr>isSent := False\<rparr>; s = set_rssi staAddress ap s in
          case lookupSenderSTAAP staAddress apAddress s of
            None \<Rightarrow> (None, s)
          | Some staAP \<Rightarrow>
              if \<not> sint (ai_rssi ap) > sint (rs_rssi m) then (None, s)
              else let newSw = new_switch staAddress ap s;
                       s = move_station sw staAddress apAddress ap staAP s;
                       entries = natTable s staAddress;
                       s = (case entries of None \<Rightarrow> s | Some es \<Rightarrow> write_all e newSw (map (\<lambda>en. nat_add a (me_sourceIP en) en) es) s) in
                (case sw_write e sw (WlanSTAMessage \<lparr>subtype = 18, sm_staMacAddress = a\<rparr>) s of
                   (False, s) \<Rightarrow> (None, s)
                 | (True, s) \<Rightarrow>
                     let s = snd (sw_write e newSw (update_sta_add a staAP) s) in
                     case (entries, gwSwitch s) of
                       (Some es, Some gw) \<Rightarrow> update_gateway e a newSw gw es s
                     | _ \<Rightarrow> (None, s)))"

text \<open>Translations of addresses and of ports. The second handler is not synchronized.\<close>

definition handleNATUpdate :: "OFNATMessage \<Rightarrow> fl_state \<Rightarrow> fl_state" where
  "handleNATUpdate m s =
     (let sta = mac_string (nm_staMacAddress m);
          entries = (case natTable s sta of None \<Rightarrow> [] | Some es \<Rightarrow> es);
          entry = \<lparr>me_sourceIP = sourceIP m, me_destinationIP = destinationIP m, me_sourcePort = sourcePort m,
            me_destinationPort = destinationPort m, me_newPort = sourcePort m\<rparr> in
      s\<lparr>natTable := (natTable s)(sta \<mapsto> entries @ [entry])\<rparr>)"

definition same_flow :: "OFNATMessageExt \<Rightarrow> NATMap \<Rightarrow> bool" where
  "same_flow m entry \<longleftrightarrow> me_sourceIP entry = sourceIP m \<and> me_sourcePort entry = sourcePort m \<and>
     me_destinationIP entry = destinationIP m \<and> me_destinationPort entry = destinationPort m"

definition next_port :: "PortPair \<Rightarrow> fl_state \<Rightarrow> u16" where
  "next_port k s = (case portMap s k of Some p \<Rightarrow> p | None \<Rightarrow> 49151) + 1"

definition handlePortTranslation :: "fl_env \<Rightarrow> nat \<Rightarrow> OFNATMessageExt \<Rightarrow> fl_state \<Rightarrow> fl_state" where
  "handlePortTranslation e sw m s =
     (let a = nm_staMacAddress m; sta = mac_string a; k = (destinationIP m, destinationPort m);
          entries = (case natTable s sta of None \<Rightarrow> [] | Some es \<Rightarrow> es) in
      case List.find (same_flow m) entries of
        Some entry \<Rightarrow> snd (sw_write e sw (nat_add a (me_sourceIP entry) entry) s)
      | None \<Rightarrow>
          let newPort = next_port k s;
              entry = \<lparr>me_sourceIP = sourceIP m, me_destinationIP = destinationIP m, me_sourcePort = sourcePort m,
                me_destinationPort = destinationPort m, me_newPort = newPort\<rparr>;
              s = s\<lparr>portMap := (portMap s)(k \<mapsto> newPort), natTable := (natTable s)(sta \<mapsto> entries @ [entry])\<rparr> in
          snd (sw_write e sw (nat_add a (me_sourceIP entry) entry) s))"

section \<open>Messages and switches\<close>

datatype command = STOP | CONTINUE

definition cast :: "'m option \<Rightarrow> ('m \<Rightarrow> fl_state \<Rightarrow> java_error option \<times> fl_state) \<Rightarrow> fl_state \<Rightarrow> (java_error + command) \<times> fl_state" where
  "cast m f s = (case m of
     None \<Rightarrow> (Inl ClassCast, s)
   | Some m \<Rightarrow> (case f m s of (None, s) \<Rightarrow> (Inr STOP, s) | (Some x, s) \<Rightarrow> (Inl x, s)))"

definition as_data :: "vendor_data \<Rightarrow> OFWlanData option" where
  "as_data d = (case d of WlanData m \<Rightarrow> Some m | _ \<Rightarrow> None)"

definition as_authentication :: "vendor_data \<Rightarrow> OFWlanAuthentication option" where
  "as_authentication d = (case d of WlanAuthentication m \<Rightarrow> Some m | _ \<Rightarrow> None)"

definition as_association :: "vendor_data \<Rightarrow> OFWlanAssociation option" where
  "as_association d = (case d of WlanAssociation m \<Rightarrow> Some m | _ \<Rightarrow> None)"

definition as_rssi :: "vendor_data \<Rightarrow> OFWlanRSSI option" where
  "as_rssi d = (case d of WlanRSSI m \<Rightarrow> Some m | _ \<Rightarrow> None)"

definition as_nat :: "vendor_data \<Rightarrow> OFNATMessage option" where
  "as_nat d = (case d of NATMessage m \<Rightarrow> Some m | _ \<Rightarrow> None)"

definition as_nat_ext :: "vendor_data \<Rightarrow> OFNATMessageExt option" where
  "as_nat_ext d = (case d of NATMessageExt m \<Rightarrow> Some m | _ \<Rightarrow> None)"

fun is_byte_array :: "vendor_data \<Rightarrow> bool" where
  "is_byte_array (ByteArray bs) = True"
| "is_byte_array _ = False"

definition handle :: "('m \<Rightarrow> fl_state \<Rightarrow> fl_state) \<Rightarrow> 'm \<Rightarrow> fl_state \<Rightarrow> java_error option \<times> fl_state" where
  "handle f m s = (None, f m s)"

definition receive :: "fl_env \<Rightarrow> nat \<Rightarrow> OFVendor \<Rightarrow> fl_state \<Rightarrow> (java_error + command) \<times> fl_state" where
  "receive e sw msg s =
     (if of_vendor msg \<noteq> AP_EXPERIMENTER_ID then (Inr CONTINUE, s)
      else let d = of_vendorData msg; subType = data_subtype d in
         if is_byte_array d then (Inl ClassCast, s)
         else if subType = 12 then cast (as_data d) (handle (handleProbeReq e sw)) s
         else if subType = 0 then cast (as_authentication d) (handle handleAuthReq) s
         else if subType = 4 then cast (as_association d) (handle handleAssocReq) s
         else if subType = 7 then cast (as_data d) (handle handleReassocReq) s
         else if subType = 10 then cast (as_data d) (handle handleDisassocReq) s
         else if subType = 3 then cast (as_data d) (handle handleDeauthReq) s
         else if subType \<in> {13, 18, 17, 15, 20} then (Inr STOP, s)
         else if subType = 14 then cast (as_rssi d) (handle (handleLastRSSI e sw)) s
         else if subType = 16 then cast (as_rssi d) (handleAPRSSI e sw) s
         else if subType = 19 then cast (as_nat d) (handle handleNATUpdate) s
         else if subType = 21 then cast (as_nat_ext d) (handle (handlePortTranslation e sw)) s
         else if subType = 100 then (Inr STOP, s\<lparr>gwSwitch := Some sw\<rparr>)
         else (Inr STOP, s))"

definition removedSwitch :: "nat \<Rightarrow> fl_state \<Rightarrow> fl_state" where
  "removedSwitch sw s =
     (if gwSwitch s \<noteq> Some sw then
        s\<lparr>STAAPList := filter (\<lambda>(k, staAP). sa_sw staAP \<noteq> sw) (STAAPList s),
          STAAPRSSIList := (\<lambda>sta. case STAAPRSSIList s sta of None \<Rightarrow> None | Some ap \<Rightarrow> if ai_sw ap = sw then None else Some ap)\<rparr>
      else s\<lparr>gwSwitch := None\<rparr>)"

section \<open>The keys\<close>

definition unhex :: "char \<Rightarrow> nat" where
  "unhex c = (let n = of_char c in if n < 58 then n - 48 else n - 87)"

lemma unhex_hex_digit: "n < 16 \<Longrightarrow> unhex (hex_digit n) = n"
  by (auto simp: unhex_def hex_digit_def Let_def)

lemma hex_byte_digits: "hex_byte b = [hex_digit (unat b div 16), hex_digit (unat b mod 16)]"
proof -
  have "hex_digit 0 = CHR ''0''" by (simp add: hex_digit_def char_of_def bit_iff_odd)
  then show ?thesis by (simp add: hex_byte_def)
qed

lemma hex_byte_inject: "hex_byte a = hex_byte b \<longleftrightarrow> a = b"
proof
  assume eq: "hex_byte a = hex_byte b"
  have u: "unat x = 16 * unhex (hex_byte x ! 0) + unhex (hex_byte x ! 1)" for x :: byte
  proof -
    have "unat x < 256" using unsigned_less [where w = x] by simp
    then have "unat x div 16 < 16" by linarith
    then show ?thesis by (simp add: hex_byte_digits unhex_hex_digit)
  qed
  show "a = b" using u [of a] u [of b] eq by (simp add: word_unat_eq_iff)
qed simp

text \<open>The texts of two addresses are the same only if the addresses are, so keys are addresses.\<close>

lemma mac_string_inject [simp]: "mac_string a = mac_string b \<longleftrightarrow> a = b"
proof
  have eq: "hex_byte x @ r = hex_byte y @ r' \<longleftrightarrow> x = y \<and> r = r'" for x y r r'
    using hex_byte_inject [of x y] by (auto simp: hex_byte_digits)
  assume "mac_string a = mac_string b"
  then show "a = b" by (cases a; cases b) (simp add: mac_string_def eq hex_byte_inject)
qed simp

end
