(* ===== verification/Fl_Inv.thy ===== *)
theory Fl_Inv
  imports Fl_Switch
begin

text \<open>
  What holds in every state of the controller's module. \<open>fl_reach\<close> has the states that messages and
  departures of switches can lead to, one handler after another. A property that every handler keeps holds
  in all of them (\<open>module_invariant\<close>); it is used for the pairs of stations and access points (at most one
  access point is selected for a station). The handlers that change the pairs on a message are synchronized methods of
  one object; the one that hands out ports is not, and its interleavings are in Fl_Ports.
\<close>

inductive fl_reach :: "(OFVendor \<Rightarrow> bool) \<Rightarrow> nat \<Rightarrow> fl_state \<Rightarrow> bool" for P where
  fl_start: "fl_reach P 0 fl_init"
| fl_received: "fl_reach P n s \<Longrightarrow> visits_all e \<Longrightarrow> P msg \<Longrightarrow> fl_reach P (Suc n) (snd (receive e sw msg s))"
| fl_removed: "fl_reach P n s \<Longrightarrow> fl_reach P (Suc n) (removedSwitch sw s)"

section \<open>What the handlers leave alone\<close>

definition pairs :: "fl_state \<Rightarrow> STAAPPair \<Rightarrow> STAAPInfo option" where
  "pairs s = map_of (STAAPList s)"

lemma pairs_put [simp]: "pairs (put_STAAP k i s) = (pairs s)(k \<mapsto> i)"
  by (simp add: pairs_def put_STAAP_def update_conv')

lemma pairs_mod [simp]: "pairs (mod_STAAP k f s) = (pairs s)(k := map_option f (pairs s k))"
  by (auto simp: pairs_def mod_STAAP_def map_of_map_entry split: option.splits)

lemma lookupSenderSTAAP_pairs: "lookupSenderSTAAP sta ap s = pairs s (sta, ap)"
  by (simp add: lookupSenderSTAAP_def pairs_def)

lemma put_mod_frame [simp]:
  "STAAPRSSIList (put_STAAP k i s) = STAAPRSSIList s" "natTable (put_STAAP k i s) = natTable s" "portMap (put_STAAP k i s) = portMap s"
  "gwSwitch (put_STAAP k i s) = gwSwitch s" "writes (put_STAAP k i s) = writes s"
  "STAAPRSSIList (mod_STAAP k f s) = STAAPRSSIList s" "natTable (mod_STAAP k f s) = natTable s" "portMap (mod_STAAP k f s) = portMap s"
  "gwSwitch (mod_STAAP k f s) = gwSwitch s" "writes (mod_STAAP k f s) = writes s"
  "STAAPList (set_rssi a p s) = STAAPList s" "natTable (set_rssi a p s) = natTable s" "portMap (set_rssi a p s) = portMap s"
  "gwSwitch (set_rssi a p s) = gwSwitch s" "writes (set_rssi a p s) = writes s" "pairs (set_rssi a p s) = pairs s"
  "STAAPRSSIList (set_rssi a p s) = (STAAPRSSIList s)(a \<mapsto> p)"
  by (simp_all add: put_STAAP_def mod_STAAP_def set_rssi_def pairs_def)

text \<open>A step that only writes messages.\<close>

definition only_writes :: "fl_state \<Rightarrow> fl_state \<Rightarrow> bool" where
  "only_writes s s' \<longleftrightarrow> STAAPList s' = STAAPList s \<and> STAAPRSSIList s' = STAAPRSSIList s \<and> natTable s' = natTable s \<and>
     portMap s' = portMap s \<and> gwSwitch s' = gwSwitch s"

lemma only_writes_refl [simp]: "only_writes s s"
  by (simp add: only_writes_def)

lemma only_writes_trans: "only_writes s t \<Longrightarrow> only_writes t u \<Longrightarrow> only_writes s u"
  by (simp add: only_writes_def)

lemma sw_write_only [simp]: "only_writes s (snd (sw_write e sw d s))" "sw_write e sw d s = (ok, s') \<Longrightarrow> only_writes s s'"
  by (auto simp: sw_write_def only_writes_def Let_def)

lemma write_all_only [simp]: "only_writes s (write_all e sw ds s)"
proof (induction ds arbitrary: s)
  case (Cons d ds)
  show ?case by (auto intro: only_writes_trans [OF sw_write_only(1) Cons.IH])
qed simp

lemma update_gateway_only [simp]: "only_writes s (snd (update_gateway e a newSw gw entries s))"
proof (induction entries arbitrary: s)
  case (Cons en entries)
  show ?case
    by (cases "peer_address e newSw") (auto intro: only_writes_trans [OF sw_write_only(1) Cons.IH])
qed simp

lemma only_writes_pairs: "only_writes s s' \<Longrightarrow> pairs s' = pairs s"
  by (simp add: only_writes_def pairs_def)

section \<open>Every handler keeps it\<close>

text \<open>What a message can do.\<close>

lemma as_class:
  "as_data d = Some m \<longleftrightarrow> d = WlanData m" "as_authentication d = Some ma \<longleftrightarrow> d = WlanAuthentication ma"
  "as_association d = Some mo \<longleftrightarrow> d = WlanAssociation mo" "as_rssi d = Some mr \<longleftrightarrow> d = WlanRSSI mr"
  "as_nat d = Some mn \<longleftrightarrow> d = NATMessage mn" "as_nat_ext d = Some mx \<longleftrightarrow> d = NATMessageExt mx"
  by (simp_all add: as_data_def as_authentication_def as_association_def as_rssi_def as_nat_def as_nat_ext_def split: vendor_data.split)

lemma snd_if: "(c \<Longrightarrow> Q (snd x)) \<Longrightarrow> (\<not> c \<Longrightarrow> Q (snd y)) \<Longrightarrow> Q (snd (if c then x else y))"
  by simp

lemma snd_cast: "Q s \<Longrightarrow> (\<And>x. m = Some x \<Longrightarrow> Q (snd (f x s))) \<Longrightarrow> Q (snd (cast m f s))"
proof (cases m)
  case (Some x)
  then show "Q s \<Longrightarrow> (\<And>x. m = Some x \<Longrightarrow> Q (snd (f x s))) \<Longrightarrow> Q (snd (cast m f s))"
    by (cases "f x s"; cases "fst (f x s)") (fastforce simp: cast_def)+
qed (simp add: cast_def)

lemma receive_induct:
  assumes "Q s" "Q (s\<lparr>gwSwitch := Some sw\<rparr>)" "\<And>m. Q (handleProbeReq e sw m s)" "\<And>m. Q (handleAuthReq m s)" "\<And>m. Q (handleAssocReq m s)"
    "\<And>m. Q (handleReassocReq m s)" "\<And>m. Q (handleDisassocReq m s)" "\<And>m. Q (handleDeauthReq m s)" "\<And>m. Q (handleLastRSSI e sw m s)"
    "\<And>m. Q (snd (handleAPRSSI e sw m s))" "\<And>m. of_vendorData msg = NATMessage m \<Longrightarrow> Q (handleNATUpdate m s)"
    "\<And>m. of_vendorData msg = NATMessageExt m \<Longrightarrow> Q (handlePortTranslation e sw m s)"
  shows "Q (snd (receive e sw msg s))"
  unfolding receive_def Let_def
  by (intro snd_if [where Q = Q] snd_cast [where Q = Q]) (simp_all add: assms handle_def as_class)

text \<open>A property of the states, by the number of steps, that every handler keeps under the messages \<open>P\<close>.\<close>

locale module_invariant =
  fixes P :: "OFVendor \<Rightarrow> bool" and I :: "nat \<Rightarrow> fl_state \<Rightarrow> bool"
  assumes I_init: "I 0 fl_init"
    and I_none: "I n s \<Longrightarrow> I (Suc n) s"
    and I_gateway: "I n s \<Longrightarrow> I (Suc n) (s\<lparr>gwSwitch := g\<rparr>)"
    and I_probe: "I n s \<Longrightarrow> visits_all e \<Longrightarrow> I (Suc n) (handleProbeReq e sw probe s)"
    and I_update: "I n s \<Longrightarrow> (\<And>i. sa_status (f i) \<noteq> Some SELECTED \<and> sa_staMacAddress (f i) = sa_staMacAddress i \<and>
        sa_apMACAddress (f i) = sa_apMACAddress i \<and> sa_qosinfo (f i) = sa_qosinfo i) \<Longrightarrow> I (Suc n) (update_pair a b f s)"
    and I_disassoc: "I n s \<Longrightarrow> I (Suc n) (handleDisassocReq disassoc s)"
    and I_rssi: "I n s \<Longrightarrow> visits_all e \<Longrightarrow> I (Suc n) (handleLastRSSI e sw rssi s)"
    and I_ap_rssi: "I n s \<Longrightarrow> I (Suc n) (snd (handleAPRSSI e sw rssi s))"
    and I_nat: "I n s \<Longrightarrow> P msg \<Longrightarrow> of_vendorData msg = NATMessage m \<Longrightarrow> I (Suc n) (handleNATUpdate m s)"
    and I_port: "I n s \<Longrightarrow> I (Suc n) (handlePortTranslation e sw port s)"
    and I_removed: "I n s \<Longrightarrow> I (Suc n) (removedSwitch sw s)"
begin

lemma reach_keeps: "fl_reach P n s \<Longrightarrow> I n s"
proof (induction rule: fl_reach.induct)
  case (fl_received n s e msg sw)
  note I = \<open>I n s\<close>
  show ?case
    by (rule receive_induct [where Q = "I (Suc n)"],
        unfold handleAuthReq_def handleAssocReq_def handleReassocReq_def handleDeauthReq_def)
      (rule I_none [OF I] I_gateway [OF I] I_probe [OF I fl_received(2)] I_disassoc [OF I] I_rssi [OF I fl_received(2)] I_ap_rssi [OF I]
        I_nat [OF I fl_received(3)] I_port [OF I] I_update [OF I] | simp)+
qed (simp_all add: I_init I_removed)

end

section \<open>Stations and access points\<close>

definition pairs_ok :: "fl_state \<Rightarrow> bool" where
  "pairs_ok s \<longleftrightarrow> distinct (map fst (STAAPList s)) \<and>
     (\<forall>a b i. pairs s (a, b) = Some i \<longrightarrow> sa_staMacAddress i = a \<and> sa_apMACAddress i = b \<and> sa_qosinfo i = 0) \<and>
     (\<forall>a b b' i i'. pairs s (a, b) = Some i \<and> pairs s (a, b') = Some i' \<and> sa_status i = Some SELECTED \<and>
        sa_status i' = Some SELECTED \<longrightarrow> b = b')"

lemma pairs_okD:
  "pairs_ok s \<Longrightarrow> distinct (map fst (STAAPList s))"
  "pairs_ok s \<Longrightarrow> pairs s (a, b) = Some i \<Longrightarrow> sa_staMacAddress i = a \<and> sa_apMACAddress i = b \<and> sa_qosinfo i = 0"
  "pairs_ok s \<Longrightarrow> pairs s (a, b) = Some i \<Longrightarrow> pairs s (a, b') = Some i' \<Longrightarrow> sa_status i = Some SELECTED \<Longrightarrow>
     sa_status i' = Some SELECTED \<Longrightarrow> b = b'"
  unfolding pairs_ok_def by blast+

lemma pairs_ok_cong: "STAAPList s' = STAAPList s \<Longrightarrow> pairs_ok s' = pairs_ok s"
  by (simp add: pairs_ok_def pairs_def)

lemma distinct_put_mod: "distinct (map fst (STAAPList s)) \<Longrightarrow> distinct (map fst (STAAPList (put_STAAP k i s)))"
  "distinct (map fst (STAAPList s)) \<Longrightarrow> distinct (map fst (STAAPList (mod_STAAP k f s)))"
  by (simp_all add: put_STAAP_def mod_STAAP_def distinct_update distinct_map_entry)

lemma in_pairs: "pairs_ok s \<Longrightarrow> (k, i) \<in> set (STAAPList s) \<longleftrightarrow> pairs s k = Some i"
  by (simp add: pairs_ok_def pairs_def)

text \<open>One entry changes.\<close>

lemma pairs_ok_upd:
  assumes "pairs_ok s" "distinct (map fst (STAAPList s'))" "pairs s' = (pairs s)((a, b) \<mapsto> i)"
    "sa_staMacAddress i = a" "sa_apMACAddress i = b" "sa_qosinfo i = 0"
    "sa_status i = Some SELECTED \<Longrightarrow> (\<And>b' i'. b' \<noteq> b \<Longrightarrow> pairs s (a, b') = Some i' \<Longrightarrow> sa_status i' \<noteq> Some SELECTED)"
  shows "pairs_ok s'"
  unfolding pairs_ok_def
proof (intro conjI allI impI)
  show "distinct (map fst (STAAPList s'))" by fact
next
  fix a' b' j
  assume "pairs s' (a', b') = Some j"
  then show "sa_staMacAddress j = a'" "sa_apMACAddress j = b'" "sa_qosinfo j = 0"
    using assms(3-6) pairs_okD(2) [OF assms(1)] by (auto split: if_splits)
next
  fix a' b1 b2 i1 i2
  assume h: "pairs s' (a', b1) = Some i1 \<and> pairs s' (a', b2) = Some i2 \<and> sa_status i1 = Some SELECTED \<and> sa_status i2 = Some SELECTED"
  have old: "b1 = b2" if "pairs s (a', b1) = Some i1" "pairs s (a', b2) = Some i2" using pairs_okD(3) [OF assms(1) that] h by blast
  consider "(a', b1) = (a, b)" | "(a', b2) = (a, b)" | "(a', b1) \<noteq> (a, b)" "(a', b2) \<noteq> (a, b)" by blast
  then show "b1 = b2"
  proof cases
    case 1
    then show ?thesis using h assms(3) assms(7) [of b2 i2] by (auto split: if_splits)
  next
    case 2
    then show ?thesis using h assms(3) assms(7) [of b1 i1] by (auto split: if_splits)
  next
    case 3
    then show ?thesis using h assms(3) old by (auto split: if_splits)
  qed
qed

lemma update_pair_ok:
  assumes "pairs_ok s" "\<And>i. sa_status (f i) \<noteq> Some SELECTED \<and> sa_staMacAddress (f i) = sa_staMacAddress i \<and> sa_apMACAddress (f i) = sa_apMACAddress i \<and> sa_qosinfo (f i) = sa_qosinfo i"
  shows "pairs_ok (update_pair a b f s)"
proof (cases "pairs s (mac_string a, mac_string b)")
  case (Some i)
  have u: "pairs (update_pair a b f s) = (pairs s)((mac_string a, mac_string b) \<mapsto> f i)" "distinct (map fst (STAAPList (update_pair a b f s)))"
    using assms(1) Some by (simp_all add: update_pair_def lookupSenderSTAAP_pairs distinct_put_mod pairs_ok_def)
  show ?thesis using assms(2) [of i] pairs_okD(2) [OF assms(1) Some] by (intro pairs_ok_upd [OF assms(1) u(2,1)]) auto
qed (use assms in \<open>simp add: update_pair_def lookupSenderSTAAP_pairs\<close>)

lemma findSTAAPPair_iff:
  assumes "visits_all e" "pairs_ok s"
  shows "findSTAAPPair e sta ap s \<longleftrightarrow> (\<exists>b i. b \<noteq> ap \<and> pairs s (sta, b) = Some i \<and> sa_status i = Some SELECTED)"
proof -
  have "set (entry_order e (STAAPList s)) = set (STAAPList s)" using assms(1) by (simp add: visits_all_def)
  then show ?thesis using in_pairs [OF assms(2)] by (fastforce simp: findSTAAPPair_def list_ex_iff)
qed

lemma findSTAAPInfo_None:
  assumes "visits_all e" "pairs_ok s"
  shows "findSTAAPInfo e sta s = None \<longleftrightarrow> (\<forall>b i. pairs s (sta, b) = Some i \<longrightarrow> sa_status i \<noteq> Some ASSOCIATED)"
proof -
  have "set (entry_order e (STAAPList s)) = set (STAAPList s)" using assms(1) by (simp add: visits_all_def)
  then show ?thesis using in_pairs [OF assms(2)] by (fastforce simp: findSTAAPInfo_def find_None_iff)
qed

lemma findSTAAPInfo_Some:
  assumes "visits_all e" "pairs_ok s" "findSTAAPInfo e sta s = Some (k, i)"
  shows "fst k = sta" "pairs s k = Some i" "sa_status i = Some ASSOCIATED"
proof -
  have "set (entry_order e (STAAPList s)) = set (STAAPList s)" using assms(1) by (simp add: visits_all_def)
  moreover have "(k, i) \<in> set (entry_order e (STAAPList s))" "fst k = sta" "sa_status i = Some ASSOCIATED"
    using find_SomeD [OF assms(3) [unfolded findSTAAPInfo_def]] by (auto split: prod.splits)
  ultimately show "fst k = sta" "pairs s k = Some i" "sa_status i = Some ASSOCIATED" using in_pairs [OF assms(2)] by auto
qed

text \<open>The probe of a station that no other access point is selected for.\<close>

lemma handleProbeReq_ok:
  assumes "pairs_ok s" "visits_all e"
  shows "pairs_ok (handleProbeReq e sw m s)"
proof -
  let ?a = "mac_string (wd_staMacAddress m)" and ?b = "mac_string (wd_apMacAddress m)"
  let ?sel = "\<lambda>i. i\<lparr>sa_status := Some SELECTED, isHomeAP := True\<rparr>"
  have sel: "pairs_ok (mod_STAAP (?a, ?b) ?sel t)"
    if t: "\<not> findSTAAPPair e ?a ?b s" "pairs t = (pairs s)((?a, ?b) \<mapsto> i)" "distinct (map fst (STAAPList t))" "sa_staMacAddress i = ?a" "sa_apMACAddress i = ?b"
      "sa_qosinfo i = 0" for t i
  proof (rule pairs_ok_upd [OF assms(1), where a = ?a and b = ?b and i = "?sel i"])
    fix b' i' assume "b' \<noteq> ?b" "pairs s (?a, b') = Some i'"
    then show "sa_status i' \<noteq> Some SELECTED" using t(1) findSTAAPPair_iff [OF assms(2,1)] by blast
  qed (use t in \<open>simp_all add: distinct_put_mod\<close>)
  show ?thesis
  proof (cases "findSTAAPPair e ?a ?b s \<or> findSTAAPInfo e ?a s \<noteq> None")
    case True
    then show ?thesis using assms(1) by (auto simp: handleProbeReq_def Let_def)
  next
    case False
    have w: "pairs_ok (snd (sw_write e sw d t)) = pairs_ok t" for d t by (rule pairs_ok_cong) (simp add: sw_write_def Let_def)
    show ?thesis
    proof (cases "pairs s (?a, ?b)")
      case None
      have "pairs_ok (mod_STAAP (?a, ?b) ?sel (put_STAAP (?a, ?b) (new_STAAPInfo ?a ?b None False sw) s))"
        using False pairs_okD(1) [OF assms(1)] by (intro sel [of _ "new_STAAPInfo ?a ?b None False sw"]) (simp_all add: distinct_put_mod new_STAAPInfo_def)
      then show ?thesis using False None w by (simp add: handleProbeReq_def Let_def lookupSenderSTAAP_pairs)
    next
      case (Some i)
      have "pairs_ok (mod_STAAP (?a, ?b) ?sel s)"
        using False Some pairs_okD(1) [OF assms(1)] pairs_okD(2) [OF assms(1) Some] by (intro sel [of s i]) (auto simp: fun_upd_idem)
      then show ?thesis using False Some w assms(1) by (simp add: handleProbeReq_def Let_def lookupSenderSTAAP_pairs)
    qed
  qed
qed

lemma handleDisassocReq_ok:
  assumes "pairs_ok s"
  shows "pairs_ok (handleDisassocReq m s)"
proof -
  have "STAAPList (handleDisassocReq m s) =
      STAAPList (update_pair (wd_staMacAddress m) (wd_apMacAddress m) (\<lambda>i. i\<lparr>sa_status := Some AUTHENTICATED\<rparr>) s)"
    by (simp add: handleDisassocReq_def update_pair_def Let_def split: option.split)
  then show ?thesis using update_pair_ok [OF assms] by (subst pairs_ok_cong) auto
qed

lemma handleLastRSSI_list [simp]: "STAAPList (handleLastRSSI e sw m s) = STAAPList s"
  by (auto simp: handleLastRSSI_def Let_def sw_write_def split: option.split)

section \<open>The handover in the lists\<close>

text \<open>What \<open>move_station\<close> does to the pairs, when the access points are two.\<close>

lemma pairs_move_station:
  assumes "pairs s (a, b) = Some staAP" "ai_apMACAddress ap \<noteq> b"
    "i = (case pairs s (a, ai_apMACAddress ap) of None \<Rightarrow> new_STAAPInfo a (ai_apMACAddress ap) None False (ai_sw ap) | Some i \<Rightarrow> i)"
  shows "pairs (move_station sw a b ap staAP s) = (pairs s)((a, ai_apMACAddress ap) \<mapsto> (copy_STA staAP i)\<lparr>sa_status := Some ASSOCIATED\<rparr>,
    (a, b) \<mapsto> staAP\<lparr>sa_status := Some NOT_AUTHENTICATED\<rparr>)"
  using assms by (auto simp: move_station_def Let_def lookupSenderSTAAP_pairs fun_eq_iff split: option.split)

lemma pairs_move_same:
  assumes "pairs s (a, b) = Some staAP" "ai_apMACAddress ap = b"
  shows "pairs (move_station sw a b ap staAP s) = (pairs s)((a, b) \<mapsto> staAP\<lparr>sa_status := Some ASSOCIATED\<rparr>)"
  using assms by (auto simp: move_station_def Let_def lookupSenderSTAAP_pairs copy_STA_def fun_eq_iff)

lemma distinct_move_station:
  "distinct (map fst (STAAPList s)) \<Longrightarrow> distinct (map fst (STAAPList (move_station sw a b ap staAP s)))"
  by (simp add: move_station_def Let_def distinct_put_mod split: option.split)

lemma move_station_ok:
  assumes "pairs_ok s" "pairs s (a, b) = Some staAP"
  shows "pairs_ok (move_station sw a b ap staAP s)"
proof (cases "ai_apMACAddress ap = b")
  case True
  show ?thesis
    by (rule pairs_ok_upd [OF assms(1) distinct_move_station [OF pairs_okD(1) [OF assms(1)]] pairs_move_same [OF assms(2) True]])
      (use pairs_okD(2) [OF assms] in auto)
next
  case False
  let ?b = "ai_apMACAddress ap"
  define i where "i = (case pairs s (a, ?b) of None \<Rightarrow> new_STAAPInfo a ?b None False (ai_sw ap) | Some i \<Rightarrow> i)"
  let ?i = "(copy_STA staAP i)\<lparr>sa_status := Some ASSOCIATED\<rparr>"
  have i: "sa_staMacAddress i = a" "sa_apMACAddress i = ?b" "sa_qosinfo i = 0"
    using pairs_okD(2) [OF assms(1), of a ?b] by (auto simp: i_def new_STAAPInfo_def split: option.split)
  have "pairs_ok (put_STAAP (a, ?b) ?i s)"
    by (rule pairs_ok_upd [OF assms(1) distinct_put_mod(1) [OF pairs_okD(1) [OF assms(1)]] pairs_put]) (simp_all add: i copy_STA_def)
  then show ?thesis
    by (rule pairs_ok_upd [OF _ distinct_move_station [OF pairs_okD(1) [OF assms(1)]], where a = a and b = b and
        i = "staAP\<lparr>sa_status := Some NOT_AUTHENTICATED\<rparr>"])
      (use pairs_move_station [OF assms(2) False i_def] pairs_okD(2) [OF assms] in simp_all)
qed

text \<open>Apart from messages, an answer about a signal strength does nothing or moves the station.\<close>

lemma handleAPRSSI_outcome:
  fixes m :: OFWlanRSSI
  defines "a \<equiv> mac_string (rs_staMacAddress m)" and "b \<equiv> mac_string (rs_apMacAddress m)"
  obtains (stay) t where "only_writes t (snd (handleAPRSSI e sw m s))" "STAAPList t = STAAPList s" "natTable t = natTable s" "portMap t = portMap s"
  | (move) ap staAP where "pairs s (a, b) = Some staAP"
      "only_writes (move_station sw a b ap staAP (set_rssi a ap s)) (snd (handleAPRSSI e sw m s))"
proof (cases "STAAPRSSIList s a")
  case None
  then have "handleAPRSSI e sw m s = (None, s)" by (simp add: handleAPRSSI_def a_def Let_def)
  then show thesis by (intro stay [of s]) simp_all
next
  case (Some ap)
  let ?ap = "ap\<lparr>isSent := False\<rparr>"
  let ?s = "set_rssi a ?ap s"
  show thesis
  proof (cases "\<exists>staAP. pairs s (a, b) = Some staAP \<and> sint (rs_rssi m) < sint (ai_rssi ap)")
    case False
    then have "handleAPRSSI e sw m s = (None, ?s)"
      using Some by (cases "pairs s (a, b)") (simp_all add: handleAPRSSI_def a_def [symmetric] b_def [symmetric] Let_def lookupSenderSTAAP_pairs)
    then show thesis by (intro stay [of ?s]) simp_all
  next
    case True
    then obtain staAP where 2: "pairs s (a, b) = Some staAP" "sint (rs_rssi m) < sint (ai_rssi ap)" by blast
    let ?n = "new_switch a ?ap ?s" and ?t = "move_station sw a b ?ap staAP ?s"
    define u where "u = (case natTable ?t a of None \<Rightarrow> ?t
      | Some es \<Rightarrow> write_all e ?n (map (\<lambda>en. nat_add (rs_staMacAddress m) (me_sourceIP en) en) es) ?t)"
    obtain ok v where v: "sw_write e sw (WlanSTAMessage \<lparr>subtype = 18, sm_staMacAddress = rs_staMacAddress m\<rparr>) u = (ok, v)" by fastforce
    let ?w = "snd (sw_write e ?n (update_sta_add (rs_staMacAddress m) staAP) v)"
    have eq: "handleAPRSSI e sw m s = (if ok then case (natTable ?t a, gwSwitch ?w) of
        (Some es, Some gw) \<Rightarrow> update_gateway e (rs_staMacAddress m) ?n gw es ?w | _ \<Rightarrow> (None, ?w) else (None, v))"
      using 2 Some v by (simp add: handleAPRSSI_def a_def [symmetric] b_def [symmetric] Let_def lookupSenderSTAAP_pairs u_def)
    have o: "only_writes ?t u" "only_writes u v" "only_writes v ?w"
      using sw_write_only(2) [OF v] by (auto simp: u_def split: option.split)
    then have "only_writes ?t v" "only_writes ?t ?w" using only_writes_trans by blast+
    then have "only_writes ?t (snd (handleAPRSSI e sw m s))"
      unfolding eq by (auto split: option.split intro: only_writes_trans [OF _ update_gateway_only])
    then show thesis using 2 by (intro move [of staAP ?ap]) simp_all
  qed
qed

lemma handleAPRSSI_ok: "pairs_ok s \<Longrightarrow> pairs_ok (snd (handleAPRSSI e sw m s))"
proof (rule handleAPRSSI_outcome [of e sw m s])
  fix t
  assume "pairs_ok s" "only_writes t (snd (handleAPRSSI e sw m s))" "STAAPList t = STAAPList s"
  then show ?thesis using pairs_ok_cong [of "snd (handleAPRSSI e sw m s)" s] by (simp add: only_writes_def)
next
  fix ap staAP
  let ?a = "mac_string (rs_staMacAddress m)" and ?b = "mac_string (rs_apMacAddress m)"
  let ?t = "move_station sw ?a ?b ap staAP (set_rssi ?a ap s)"
  assume s: "pairs_ok s" "pairs s (?a, ?b) = Some staAP" and w: "only_writes ?t (snd (handleAPRSSI e sw m s))"
  have "pairs_ok (set_rssi ?a ap s)" using s(1) pairs_ok_cong [of "set_rssi ?a ap s" s] by simp
  then have "pairs_ok ?t" using s(2) by (intro move_station_ok) simp_all
  then show ?thesis using w pairs_ok_cong [of "snd (handleAPRSSI e sw m s)" ?t] by (simp add: only_writes_def)
qed

lemma nat_handlers_list [simp]: "STAAPList (handleNATUpdate m s) = STAAPList s" "STAAPList (handlePortTranslation e sw mx s) = STAAPList s"
  by (simp_all add: handleNATUpdate_def handlePortTranslation_def sw_write_def Let_def split: option.split)

lemma pairs_ok_filter:
  assumes "pairs_ok s" "STAAPList s' = filter Q (STAAPList s)"
  shows "pairs_ok s'"
proof -
  have d: "distinct (map fst (STAAPList s'))" using pairs_okD(1) [OF assms(1)] assms(2) by (simp add: distinct_map_filter)
  have "pairs s k = Some i" if "pairs s' k = Some i" for k i
  proof -
    have "(k, i) \<in> set (STAAPList s')" using that by (simp add: pairs_def map_of_SomeD)
    then show ?thesis using in_pairs [OF assms(1)] assms(2) by simp
  qed
  then show ?thesis using d pairs_okD(2,3) [OF assms(1)] unfolding pairs_ok_def by blast
qed

interpretation pairs_inv: module_invariant P "\<lambda>n. pairs_ok" for P
proof
  show "pairs_ok fl_init" by (simp add: pairs_ok_def pairs_def fl_init_def)
  fix s :: fl_state and g sw and msg :: OFVendor and m :: OFNATMessage and port :: OFNATMessageExt and e
  assume s: "pairs_ok s"
  show "pairs_ok (s\<lparr>gwSwitch := g\<rparr>)" by (subst pairs_ok_cong [of _ s]) (simp_all add: s)
  show "pairs_ok (handleNATUpdate m s)" "pairs_ok (handlePortTranslation e sw port s)"
    by (subst pairs_ok_cong [of _ s], simp, rule s)+
  show "pairs_ok (removedSwitch sw s)"
  proof (cases "gwSwitch s = Some sw")
    case False
    then show ?thesis by (intro pairs_ok_filter [OF s]) (simp add: removedSwitch_def)
  qed (use pairs_ok_cong [of "removedSwitch sw s" s] s in \<open>simp add: removedSwitch_def\<close>)
next
  fix s e sw rssi
  assume "pairs_ok s"
  then show "pairs_ok (handleLastRSSI e sw rssi s)" by (subst pairs_ok_cong [of _ s]) simp_all
qed (auto intro: handleProbeReq_ok update_pair_ok handleDisassocReq_ok handleAPRSSI_ok)

section \<open>Ports\<close>

definition entry_of :: "fl_state \<Rightarrow> string \<Rightarrow> NATMap \<Rightarrow> bool" where
  "entry_of s sta en \<longleftrightarrow> (\<exists>es. natTable s sta = Some es \<and> en \<in> set es)"

definition dest :: "NATMap \<Rightarrow> PortPair" where
  "dest en = (me_destinationIP en, me_destinationPort en)"

lemma tables_frame [simp]:
  "natTable (update_pair a b f s) = natTable s" "portMap (update_pair a b f s) = portMap s"
  "natTable (handleProbeReq e sw probe s) = natTable s" "portMap (handleProbeReq e sw probe s) = portMap s"
  "natTable (handleDisassocReq d s) = natTable s" "portMap (handleDisassocReq d s) = portMap s"
  "natTable (handleLastRSSI e sw r s) = natTable s" "portMap (handleLastRSSI e sw r s) = portMap s"
  "natTable (removedSwitch sw s) = natTable s" "portMap (removedSwitch sw s) = portMap s"
  "natTable (move_station sw sta ap info staAP s) = natTable s" "portMap (move_station sw sta ap info staAP s) = portMap s"
  by (simp_all add: update_pair_def handleProbeReq_def handleDisassocReq_def handleLastRSSI_def removedSwitch_def move_station_def
      sw_write_def Let_def split: option.split)

lemma handleAPRSSI_tables: "natTable (snd (handleAPRSSI e sw m s)) = natTable s \<and> portMap (snd (handleAPRSSI e sw m s)) = portMap s"
  by (rule handleAPRSSI_outcome [of e sw m s]) (simp_all add: only_writes_def)

definition no_nat_update :: "OFVendor \<Rightarrow> bool" where
  "no_nat_update msg \<longleftrightarrow> (case of_vendorData msg of NATMessage m \<Rightarrow> False | _ \<Rightarrow> True)"

section \<open>Properties\<close>

definition demo_fl_env :: fl_env where
  "demo_fl_env = \<lparr>entry_order = (\<lambda>l. l), write_ok = (\<lambda>_. True), remote_address = (\<lambda>sw. Some (''/10.0.0.'' @ [char_of (48 + sw)] @ '':6633''))\<rparr>"

definition demo_station :: mac where
  "demo_station = MAC 2 0 0 0 0 1"

definition demo_port_request :: OFNATMessageExt where
  "demo_port_request = \<lparr>subtype = 21, nm_staMacAddress = demo_station, sourceIP = 0xC0A80502, destinationIP = 0x08080808, sourcePort = 40000,
     destinationPort = 80, newPort = 0\<rparr>"

lemma demo_visits_all: "visits_all demo_fl_env"
  by (simp add: visits_all_def demo_fl_env_def)

lemma receive_port_request:
  assumes "subtype m = 21"
  shows "receive e sw (vendor_message (NATMessageExt m)) s = (Inr STOP, handlePortTranslation e sw m s)"
  using assms by (simp add: receive_def vendor_message_def cast_def handle_def as_nat_ext_def)

lemma port_answer:
  "\<exists>en. entry_of (handlePortTranslation e sw m s) (mac_string (nm_staMacAddress m)) en \<and> same_flow m en \<and>
    writes (handlePortTranslation e sw m s) = writes s @ [(sw, vendor_message (nat_add (nm_staMacAddress m) (sourceIP m) en), write_ok e (length (writes s)))] \<and>
    (let s' = handlePortTranslation e sw m s in
     handlePortTranslation e' sw' m s' = s'\<lparr>writes := writes s' @
       [(sw', vendor_message (nat_add (nm_staMacAddress m) (sourceIP m) en), write_ok e' (length (writes s')))]\<rparr>)"
proof -
  let ?k = "(destinationIP m, destinationPort m)"
  define sta where "sta = mac_string (nm_staMacAddress m)"
  define es where "es = (case natTable s sta of None \<Rightarrow> [] | Some es \<Rightarrow> es)"
  show ?thesis
  proof (cases "List.find (same_flow m) es")
    case (Some en)
    then have en: "en \<in> set es" "same_flow m en" using find_SomeD by metis+
    have s': "handlePortTranslation e sw m s = snd (sw_write e sw (nat_add (nm_staMacAddress m) (sourceIP m) en) s)" 
      if "natTable s sta = Some es" for e sw s
      using that Some en(2) by (simp add: handlePortTranslation_def sta_def [symmetric] es_def [symmetric] Let_def same_flow_def)
    have "natTable s sta = Some es" using en(1) by (cases "natTable s sta") (simp_all add: es_def)
    then show ?thesis using s' en by (intro exI [of _ en]) (simp add: sw_write_def entry_of_def Let_def sta_def [symmetric])
  next
    case None
    define en where "en = \<lparr>me_sourceIP = sourceIP m, me_destinationIP = destinationIP m, me_sourcePort = sourcePort m,
      me_destinationPort = destinationPort m, me_newPort = next_port ?k s\<rparr>"
    let ?t = "s\<lparr>portMap := (portMap s)(?k \<mapsto> next_port ?k s), natTable := (natTable s)(sta \<mapsto> es @ [en])\<rparr>"
    have s': "handlePortTranslation e sw m s = snd (sw_write e sw (nat_add (nm_staMacAddress m) (sourceIP m) en) ?t)"
      using None by (simp add: handlePortTranslation_def sta_def [symmetric] es_def [symmetric] Let_def en_def)
    have f: "same_flow m en" by (simp add: en_def same_flow_def)
    then have "List.find (same_flow m) (es @ [en]) = Some en" using None by (induction es) auto
    then show ?thesis using s' f
      by (intro exI [of _ en])
        (simp add: sw_write_def entry_of_def Let_def handlePortTranslation_def [of e' sw'] sta_def [symmetric] same_flow_def)
  qed
qed

text \<open>C10. At most one access point is selected for a station: in every state the controller can reach, two
  access points that are in state \<open>SELECTED\<close> for the same station are the same, whatever order the map of pairs
  is visited in and whichever messages were sent; and a pair's entry is the one of its own addresses.\<close>

theorem one_access_point_selected:
  assumes "fl_reach P n s" "lookupSenderSTAAP sta ap s = Some i" "sa_status i = Some SELECTED"
    "lookupSenderSTAAP sta ap' s = Some i'" "sa_status i' = Some SELECTED"
  shows "ap = ap' \<and> i = i' \<and> sa_staMacAddress i = sta \<and> sa_apMACAddress i = ap"
proof -
  have ok: "pairs_ok s" using pairs_inv.reach_keeps [OF assms(1)] .
  have p: "pairs s (sta, ap) = Some i" "pairs s (sta, ap') = Some i'" using assms(2,4) by (simp_all add: lookupSenderSTAAP_pairs)
  then have "ap = ap'" using pairs_okD(3) [OF ok] assms(3,5) by blast
  then show ?thesis using p pairs_okD(2) [OF ok p(1)] by simp
qed

definition demo_ap1 :: mac where
  "demo_ap1 = MAC 2 0 0 0 0 17"

definition demo_ap2 :: mac where
  "demo_ap2 = MAC 2 0 0 0 0 18"

definition pair_message :: "u32 \<Rightarrow> mac \<Rightarrow> mac \<Rightarrow> OFVendor" where
  "pair_message st a b = vendor_message (WlanData \<lparr>subtype = st, wd_staMacAddress = a, wd_apMacAddress = b\<rparr>)"

definition auth_message :: "mac \<Rightarrow> mac \<Rightarrow> OFVendor" where
  "auth_message a b = vendor_message (WlanAuthentication \<lparr>subtype = 0, wd_staMacAddress = a, wd_apMacAddress = b, wa_auth_alg = 0\<rparr>)"

definition assoc_message :: "mac \<Rightarrow> mac \<Rightarrow> OFVendor" where
  "assoc_message a b = vendor_message (WlanAssociation \<lparr>subtype = 4, wd_staMacAddress = a, wd_apMacAddress = b, wa_aid = 1, wa_capability = 0x431,
     wa_listen_interval = 10, wa_supported_rates = Some (replicate 32 0), wa_supported_rates_len = 4, wa_qosinfo = 7\<rparr>)"

lemmas receive_simps = receive_def pair_message_def auth_message_def assoc_message_def vendor_message_def cast_def handle_def as_data_def
  as_authentication_def as_association_def as_rssi_def

lemma receive_probe: "receive e sw (pair_message 12 a b) s = (Inr STOP, handleProbeReq e sw \<lparr>subtype = 12, wd_staMacAddress = a, wd_apMacAddress = b\<rparr> s)"
  by (simp add: receive_simps)

lemma receive_auth: "receive e sw (auth_message a b) s = (Inr STOP, update_pair a b (\<lambda>i. i\<lparr>sa_status := Some AUTHENTICATED, sa_auth_alg := 0\<rparr>) s)"
  by (simp add: receive_simps handleAuthReq_def)

lemma receive_assoc: "receive e sw (assoc_message a b) s = (Inr STOP, update_pair a b (\<lambda>i. i\<lparr>sa_status := Some ASSOCIATED, sa_aid := 1,
    sa_capability := 0x431, sa_listen_interval := 10, sa_supported_rates_len := 4, sa_supported_rates := Some (replicate 32 0)\<rparr>) s)"
  by (simp add: receive_simps handleAssocReq_def)

lemma pairs_update_pair: "pairs (update_pair a b f s) = (pairs s)((mac_string a, mac_string b) :=
    map_option f (pairs s (mac_string a, mac_string b)))"
  by (simp add: update_pair_def lookupSenderSTAAP_pairs fun_upd_idem split: option.split)

lemma pairs_probe:
  assumes "visits_all e" "pairs_ok s" "\<And>c i. pairs s (mac_string a, c) = Some i \<Longrightarrow> sa_status i = Some AUTHENTICATED"
    "pairs s (mac_string a, mac_string b) = None"
  shows "pairs (handleProbeReq e sw \<lparr>subtype = 12, wd_staMacAddress = a, wd_apMacAddress = b\<rparr> s) = (pairs s)((mac_string a, mac_string b) \<mapsto>
    (new_STAAPInfo (mac_string a) (mac_string b) (Some SELECTED) True sw))"
proof -
  have "\<not> findSTAAPPair e (mac_string a) (mac_string b) s" "findSTAAPInfo e (mac_string a) s = None"
    using assms(3) findSTAAPPair_iff [OF assms(1,2)] findSTAAPInfo_None [OF assms(1,2)] by fastforce+
  moreover have "pairs (snd (sw_write e sw d t)) = pairs t" for d t by (simp add: only_writes_pairs)
  ultimately show ?thesis using assms(4) by (simp add: handleProbeReq_def Let_def lookupSenderSTAAP_pairs new_STAAPInfo_def)
qed

theorem one_access_point_selected_witness:
  "\<exists>s i. fl_reach (\<lambda>_. True) 1 s \<and> lookupSenderSTAAP (mac_string demo_station) (mac_string demo_ap1) s = Some i \<and>
    sa_status i = Some SELECTED \<and> sa_apMACAddress i = mac_string demo_ap1"
proof -
  let ?s = "snd (receive demo_fl_env 1 (pair_message 12 demo_station demo_ap1) fl_init)"
  have r: "fl_reach (\<lambda>_. True) 1 ?s" using fl_received [OF fl_start demo_visits_all, of "\<lambda>_. True"] by simp
  have "pairs_ok fl_init" "pairs fl_init = (\<lambda>_. None)" using pairs_inv.I_init by (simp_all add: pairs_def fl_init_def)
  then have "pairs ?s (mac_string demo_station, mac_string demo_ap1) = Some (new_STAAPInfo (mac_string demo_station) (mac_string demo_ap1) (Some SELECTED) True 1)"
    using pairs_probe [OF demo_visits_all, where s = fl_init and a = demo_station and b = demo_ap1 and sw = 1] by (simp add: receive_probe)
  then have i: "lookupSenderSTAAP (mac_string demo_station) (mac_string demo_ap1) ?s =
      Some (new_STAAPInfo (mac_string demo_station) (mac_string demo_ap1) (Some SELECTED) True 1)" by (simp add: lookupSenderSTAAP_pairs)
  have "sa_status (new_STAAPInfo a b (Some SELECTED) True 1) = Some SELECTED" for a b by (simp add: new_STAAPInfo_def)
  then show ?thesis using one_access_point_selected [OF r i _ i] r i by blast
qed

text \<open>Two access points can be associated with one station at once: a probe at a second access point
  after the station has authenticated, but not yet associated, at the first selects the second too, and
  the two associations are both recorded.\<close>

theorem two_access_points_associated:
  "\<exists>s i i'. fl_reach (\<lambda>_. True) 5 s \<and> mac_string demo_ap1 \<noteq> mac_string demo_ap2 \<and>
    lookupSenderSTAAP (mac_string demo_station) (mac_string demo_ap1) s = Some i \<and> sa_status i = Some ASSOCIATED \<and>
    lookupSenderSTAAP (mac_string demo_station) (mac_string demo_ap2) s = Some i' \<and> sa_status i' = Some ASSOCIATED"
proof -
  let ?e = demo_fl_env and ?S = demo_station and ?T = "\<lambda>_ :: OFVendor. True"
  let ?k1 = "(mac_string ?S, mac_string demo_ap1)" and ?k2 = "(mac_string ?S, mac_string demo_ap2)"
  note step = fl_received [where P = ?T, OF _ demo_visits_all TrueI]
  define s1 where "s1 = snd (receive ?e 1 (pair_message 12 ?S demo_ap1) fl_init)"
  define s2 where "s2 = snd (receive ?e 1 (auth_message ?S demo_ap1) s1)"
  define s3 where "s3 = snd (receive ?e 2 (pair_message 12 ?S demo_ap2) s2)"
  define s4 where "s4 = snd (receive ?e 1 (assoc_message ?S demo_ap1) s3)"
  define s5 where "s5 = snd (receive ?e 2 (assoc_message ?S demo_ap2) s4)"
  have r: "fl_reach ?T 1 s1" "fl_reach ?T 2 s2" "fl_reach ?T 3 s3" "fl_reach ?T 4 s4" "fl_reach ?T 5 s5"
    using step [OF fl_start, of 1 "pair_message 12 ?S demo_ap1", folded s1_def] step [of 1 s1, folded s2_def] step [of 2 s2, folded s3_def]
      step [of 3 s3, folded s4_def] step [of 4 s4, folded s5_def] unfolding s1_def s2_def s3_def s4_def s5_def
    by (simp_all add: eval_nat_numeral)
  have ok: "pairs_ok fl_init" "pairs_ok s2" "pairs fl_init = (\<lambda>_. None)" and n: "demo_ap1 \<noteq> demo_ap2"
    using pairs_inv.I_init pairs_inv.reach_keeps [OF r(2)] by (simp_all add: pairs_def fl_init_def demo_ap1_def demo_ap2_def)
  have p1: "pairs s1 = [?k1 \<mapsto> new_STAAPInfo (fst ?k1) (snd ?k1) (Some SELECTED) True 1]"
    using pairs_probe [OF demo_visits_all ok(1), where a = ?S and b = demo_ap1 and sw = 1] ok(3) by (simp add: s1_def receive_probe)
  then have p2: "pairs s2 = [?k1 \<mapsto> (new_STAAPInfo (fst ?k1) (snd ?k1) (Some SELECTED) True 1)\<lparr>sa_status := Some AUTHENTICATED, sa_auth_alg := 0\<rparr>]"
    by (simp add: s2_def receive_auth pairs_update_pair)
  then have "sa_status i = Some AUTHENTICATED" if "pairs s2 (mac_string ?S, c) = Some i" for c i using that by (auto split: if_splits)
  then have p3: "pairs s3 = (pairs s2)(?k2 \<mapsto> new_STAAPInfo (fst ?k2) (snd ?k2) (Some SELECTED) True 2)"
    using pairs_probe [OF demo_visits_all ok(2), where a = ?S and b = demo_ap2 and sw = 2] n p2 by (simp add: s3_def receive_probe)
  have "pairs s5 ?k1 \<noteq> None \<and> sa_status (the (pairs s5 ?k1)) = Some ASSOCIATED" "pairs s5 ?k2 \<noteq> None \<and> sa_status (the (pairs s5 ?k2)) = Some ASSOCIATED"
    using n by (simp_all add: s5_def s4_def receive_assoc pairs_update_pair p3 p2)
  then show ?thesis using r(5) n by (auto simp: lookupSenderSTAAP_pairs)
qed

section \<open>The strongest access point\<close>

definition hear :: "fl_env \<times> nat \<times> OFWlanRSSI \<Rightarrow> fl_state \<Rightarrow> fl_state" where
  "hear r s = (case r of (e, sw, m) \<Rightarrow> handleLastRSSI e sw m s)"

lemma handleLastRSSI_entry:
  "\<exists>sent. STAAPRSSIList (handleLastRSSI e sw m s) (mac_string (rs_staMacAddress m)) =
    Some ((strongest (STAAPRSSIList s (mac_string (rs_staMacAddress m))) (mac_string (rs_apMacAddress m)) (rs_rssi m) sw)\<lparr>isSent := sent\<rparr>)"
proof -
  have "\<exists>sent. Some ap = Some (ap\<lparr>isSent := sent\<rparr>)" for ap :: APInfo by (rule exI [of _ "isSent ap"]) simp
  then show ?thesis by (auto simp: handleLastRSSI_def Let_def sw_write_def split: option.split)
qed

text \<open>C36. The controller keeps the strongest alternative: after any reports of access points about a station
  that nothing was known of, the entry of the station is one of the reports, with its access point, strength
  and switch, and none of the reports is stronger, the strengths being compared as signed bytes.\<close>

theorem strongest_tracked:
  assumes "rs \<noteq> []" "\<forall>(e, sw, m) \<in> set rs. rs_staMacAddress m = a" "STAAPRSSIList s (mac_string a) = None"
  shows "\<exists>e sw m ap. (e, sw, m) \<in> set rs \<and> STAAPRSSIList (fold hear rs s) (mac_string a) = Some ap \<and>
    ai_apMACAddress ap = mac_string (rs_apMacAddress m) \<and> ai_rssi ap = rs_rssi m \<and> ai_sw ap = sw \<and>
    (\<forall>(e', sw', m') \<in> set rs. sint (rs_rssi m') \<le> sint (rs_rssi m))"
  using assms(1,2)
proof (induction rs rule: rev_induct)
  case (snoc r rs)
  obtain e sw m where r: "r = (e, sw, m)" by (cases r)
  then have a: "rs_staMacAddress m = a" using snoc.prems by simp
  let ?old = "STAAPRSSIList (fold hear rs s) (mac_string a)"
  obtain sent where sent: "STAAPRSSIList (fold hear (rs @ [r]) s) (mac_string a) =
      Some ((strongest ?old (mac_string (rs_apMacAddress m)) (rs_rssi m) sw)\<lparr>isSent := sent\<rparr>)"
    using handleLastRSSI_entry [of e sw m "fold hear rs s"] by (auto simp: r hear_def a)
  show ?case
  proof (cases "rs = []")
    case True
    then show ?thesis using sent assms(3) r
      by (intro exI [of _ e] exI [of _ sw] exI [of _ m] exI [of _ "(strongest ?old (mac_string (rs_apMacAddress m)) (rs_rssi m) sw)\<lparr>isSent := sent\<rparr>"])
        (simp add: strongest_def)
  next
    case False
    then obtain e' sw' m' ap where IH: "(e', sw', m') \<in> set rs" "?old = Some ap" "ai_apMACAddress ap = mac_string (rs_apMacAddress m')"
      "ai_rssi ap = rs_rssi m'" "ai_sw ap = sw'" "\<forall>(f, w, n) \<in> set rs. sint (rs_rssi n) \<le> sint (rs_rssi m')"
      using snoc.IH snoc.prems by auto
    let ?new = "(strongest ?old (mac_string (rs_apMacAddress m)) (rs_rssi m) sw)\<lparr>isSent := sent\<rparr>"
    show ?thesis
    proof (cases "sint (rs_rssi m') < sint (rs_rssi m)")
      case True
      then show ?thesis using sent IH r
        by (intro exI [of _ e] exI [of _ sw] exI [of _ m] exI [of _ ?new]) (fastforce simp: strongest_def)
    next
      case False
      then show ?thesis using sent IH r
        by (intro exI [of _ e'] exI [of _ sw'] exI [of _ m'] exI [of _ ?new]) (simp add: strongest_def)
    qed
  qed
qed simp

theorem strongest_tracked_witness:
  "\<exists>ap. STAAPRSSIList (fold hear [(demo_fl_env, 1, \<lparr>subtype = 14, rs_staMacAddress = demo_station, rs_apMacAddress = demo_ap1, rs_rssi = 30\<rparr>),
      (demo_fl_env, 2, \<lparr>subtype = 14, rs_staMacAddress = demo_station, rs_apMacAddress = demo_ap2, rs_rssi = 50\<rparr>)] fl_init) (mac_string demo_station) = Some ap \<and>
    ai_apMACAddress ap = mac_string demo_ap2 \<and> ai_rssi ap = 50"
proof -
  let ?m1 = "\<lparr>subtype = 14, rs_staMacAddress = demo_station, rs_apMacAddress = demo_ap1, rs_rssi = 30\<rparr>"
  let ?m2 = "\<lparr>subtype = 14, rs_staMacAddress = demo_station, rs_apMacAddress = demo_ap2, rs_rssi = 50\<rparr>"
  from strongest_tracked [of "[(demo_fl_env, 1, ?m1), (demo_fl_env, 2, ?m2)]" demo_station fl_init]
  show ?thesis by (auto simp: fl_init_def)
qed

section \<open>Subtypes without a class\<close>

text \<open>C37. A message of a subtype that no class is registered for is not ignored: the controller reads its
  data as bytes, and the listener throws a \<open>ClassCastException\<close> before it looks at the subtype. This holds for
  the subtypes the listener lists as messages it only sends (13, 15, 17, 18 and 20) and for all those its default
  branch is meant for; the state does not change.\<close>

theorem unregistered_subtype_throws:
  assumes "big_endian nt" "map_of dataTypeMap st = None" "length body < 2 ^ 15"
  shows "\<exists>m. readFrom_OFVendor nt ([1, 4] @ put_short nt (word_of_nat (16 + length body)) @ put_int nt xid @ put_int nt AP_EXPERIMENTER_ID @
      put_int nt st @ body @ rest) = Inr (m, rest) \<and> receive e sw m s = (Inl ClassCast, s)"
proof -
  let ?l = "word_of_nat (16 + length body) :: u16" and ?d = "put_int nt st @ body"
  have len: "unat ?l = 16 + length body" using assms(3) by (simp add: unat_of_nat del: of_nat_add)
  have d: "length ?d = 4 + length body" using assms(1) by (simp add: big_endian_def)
  have "parseVendorData nt (?d @ rest) (int (4 + length body)) = Inr (ByteArray ?d, rest)"
    using read_int [OF assms(1), of st "body @ rest"] assms(2) d
    by (simp add: parseVendorData_def parseVendorDataType_def readBytes_def)
  moreover have "int (unat ?l) - int OFVendor_MINIMUM_LENGTH = int (4 + length body)"
    unfolding len OFVendor_MINIMUM_LENGTH_def by simp
  ultimately have "readFrom_OFVendor nt ([1, 4] @ put_short nt ?l @ put_int nt xid @ put_int nt AP_EXPERIMENTER_ID @ ?d @ rest) =
      Inr (\<lparr>of_version = 1, of_type = 4, of_length = ?l, of_xid = xid, of_vendor = AP_EXPERIMENTER_ID, of_vendorData = ByteArray ?d\<rparr>, rest)"
    by (simp add: readFrom_OFVendor_def read_short [OF assms(1)] read_int [OF assms(1)] readByte_Cons del: of_nat_add)
  then show ?thesis
    by (intro exI [of _ "\<lparr>of_version = 1, of_type = 4, of_length = ?l, of_xid = xid, of_vendor = AP_EXPERIMENTER_ID, of_vendorData = ByteArray ?d\<rparr>"])
      (simp add: receive_def Let_def)
qed

theorem unregistered_subtype_throws_witness:
  "\<exists>m. readFrom_OFVendor network_buffer ([1, 4] @ put_short network_buffer 22 @ put_int network_buffer 0 @
      put_int network_buffer AP_EXPERIMENTER_ID @ put_int network_buffer 13 @ mac_bytes demo_station) = Inr (m, []) \<and>
    receive demo_fl_env 1 m fl_init = (Inl ClassCast, fl_init)"
  using unregistered_subtype_throws [OF big_endian_network_buffer, of 13 "mac_bytes demo_station" 0 "[]" demo_fl_env 1 fl_init]
  by (simp add: dataTypeMap_def)

end
