(* ===== verification/Fl_Wire.thy ===== *)
theory Fl_Wire
  imports Fl_Messages Ap_Controller
begin

text \<open>
  The two ends of the channel: the classes of the controller (\<open>Fl_Messages\<close>) against the structs of the
  access points (\<open>Openflow\<close>, \<open>Ap_State\<close>, \<open>Ap_Controller\<close>). What the controller writes is what an
  access point reads, member by member, and the other way round, whatever buffer in network byte order
  netty provides. The exception is the report of a reassociation, which the controller reads only the
  first twelve bytes of.
\<close>

section \<open>Bytes\<close>

fun ip_word :: "ip4 \<Rightarrow> u32" where
  "ip_word (IP4 a b c d) = le32 d c b a"

lemma addr_of_ip_word [simp]: "addr_of (ip_word a) = a"
  by (cases a) (simp add: addr_of_def)

lemma network_bytes:
  assumes "big_endian nt"
  shows "put_short nt w = bytes16 (htons w)" "put_int nt v = bytes32 (htonl v)"
  using assms by (simp_all add: big_endian_def)

lemma bytes16_0 [simp]: "bytes16 (htons 0) = [0, 0]"
  by (simp add: bytes16_def htons_def ntohs_def le16_def byte_of_def)

lemma htonl_0 [simp]: "htonl 0 = 0"
  by (simp add: htonl_def ntohl_def le32_def byte_of_def)

lemma ip_word_bytes [simp]: "bytes32 (htonl (ip_word a)) = ip4_bytes a"
  by (cases a) (simp add: bytes32_def htonl_def ntohl_def)

section \<open>The controller writes, an access point reads\<close>

abbreviation wlan_subtype :: "exp_type \<Rightarrow> u32" where
  "wlan_subtype t \<equiv> word_of_nat (enum_val exp_type_vals t)"

lemma enum_val_exp: "enum_val exp_type_vals WLAN_ADD_STA = 13" "enum_val exp_type_vals WLAN_LAST_REC_POW = 15"
  "enum_val exp_type_vals WLAN_REMOVE_STA = 18" "enum_val exp_type_vals WLAN_UPDATE_STA_ADD = 17"
  "enum_val exp_type_vals WLAN_NAT_ADD = 20" "enum_val exp_type_vals WLAN_ASSOC_REQ = 4" "enum_val exp_type_vals WLAN_REASSOC_REQ = 7"
  "enum_val exp_type_vals WLAN_AUTH_REQ = 0" "enum_val exp_type_vals WLAN_PROBE = 12" "enum_val exp_type_vals WLAN_DISASSOC_REQ = 10"
  "enum_val exp_type_vals WLAN_DEAUTH_REQ = 3" "enum_val exp_type_vals WLAN_REC_POW = 14" "enum_val exp_type_vals WLAN_AP_REC_POW = 16"
  "enum_val exp_type_vals WLAN_NAT_UPDATE = 19" "enum_val exp_type_vals WLAN_PORT_TRANSLATION = 21"
  by (simp_all add: enum_val_def exp_type_vals_def)

lemma vendor_message_bytes:
  assumes "big_endian nt" "writeTo nt d = Inr (put_int nt (wlan_subtype t) @ body)" "getLength d = 4 + length body"
  shows "writeTo_OFVendor nt (vendor_message d) = Inr (wlan_request t 0 body)"
  using assms by (simp add: writeTo_OFVendor_def vendor_message_def wlan_request_def of_msg_def network_bytes
      OFVendor_MINIMUM_LENGTH_def enum_val_def ofp_type_vals_def OFP_VERSION_def)

lemma sta_request_bytes:
  assumes "big_endian nt"
  shows "writeTo_OFVendor nt (vendor_message (WlanSTAMessage \<lparr>subtype = wlan_subtype t, sm_staMacAddress = a\<rparr>)) =
    Inr (wlan_request t 0 (mac_bytes a))"
  by (rule vendor_message_bytes [OF assms]) (simp_all add: writeTo_defs)

lemma update_request_bytes:
  assumes "big_endian nt" "length rates = 32"
  shows "writeTo_OFVendor nt (vendor_message (WlanUpdateSTA \<lparr>subtype = wlan_subtype WLAN_UPDATE_STA_ADD,
      us_staMacAddress = Some (mac_bytes a), us_auth_alg = alg, us_aid = aid, us_capability = cap, us_listen_interval = li,
      us_supported_rates = Some rates, us_supported_rates_len = n, us_qosinfo = q\<rparr>)) =
    Inr (wlan_request WLAN_UPDATE_STA_ADD 0 (update_body a \<lparr>up_auth_alg = alg, up_aid = aid, up_capability = cap,
      up_listen_interval = li, up_rates = rates, up_rates_len = n, up_qosinfo = q\<rparr>))"
  by (rule vendor_message_bytes [OF assms(1)])
    (use assms in \<open>simp_all add: writeTo_defs writeArray_def update_body_def network_bytes\<close>)

lemma nat_request_bytes:
  assumes "big_endian nt"
  shows "writeTo_OFVendor nt (vendor_message (NATMessageExt \<lparr>subtype = wlan_subtype WLAN_NAT_ADD, nm_staMacAddress = a,
      sourceIP = ip_word src, destinationIP = ip_word dst, sourcePort = ntohs sp, destinationPort = ntohs dp, newPort = ntohs np\<rparr>)) =
    Inr (wlan_request WLAN_NAT_ADD 0 (nat_body a (src, sp, dst, dp) np))"
  by (rule vendor_message_bytes [OF assms]) (use assms in \<open>simp_all add: writeTo_defs nat_body_def network_bytes\<close>)

section \<open>An access point writes, the controller reads\<close>

text \<open>The report of a request for a port.\<close>


text \<open>The header of a message as the controller reads it.\<close>

definition ap_vendor :: "'e of_env_scheme \<Rightarrow> nat \<Rightarrow> vendor_data \<Rightarrow> OFVendor" where
  "ap_vendor e n d = \<lparr>of_version = 1, of_type = 4, of_length = word_of_nat (16 + n), of_xid = ntohl (ucast (htons (ucast (rand_ret e)))),
     of_vendor = AP_EXPERIMENTER_ID, of_vendorData = d\<rparr>"

lemma ap_msg_read:
  assumes "big_endian nt" "readable d" "writeTo nt d = Inr (put_int nt (wlan_subtype t) @ body)" "length body + length tail_bytes < 2 ^ 15"
  shows "readFrom_OFVendor nt (ap_msg e t (body @ tail_bytes) @ r) = Inr (ap_vendor e (length body + length tail_bytes) d, tail_bytes @ r)"
proof -
  let ?m = "ap_vendor e (length body + length tail_bytes) d"
  have "unat (of_length ?m) = 16 + (length body + length tail_bytes)"
    using assms(4) by (simp add: ap_vendor_def unat_of_nat del: of_nat_add)
  then have "sendable ?m" using assms(2) by (simp add: sendable_def) (simp add: ap_vendor_def)
  moreover have "ap_msg e t (body @ tail_bytes) @ r = written_bytes nt ?m @ (tail_bytes @ r)"
    using assms(3) by (simp add: written_bytes_def writeTo_OFVendor_def ap_vendor_def ap_msg_def of_msg_def network_bytes [OF assms(1)]
        OFP_VERSION_def enum_val_def ofp_type_vals_def add.commute add.left_commute)
  ultimately show ?thesis using vendor_read_back [OF assms(1)] by simp
qed

text \<open>What each report says.\<close>

definition assoc_data :: "mac \<Rightarrow> mac \<Rightarrow> sta_info \<Rightarrow> OFWlanAssociation" where
  "assoc_data a m x = (let rates = take (nat (sta_supported_rates_len x)) (sta_supported_rates x) in
     \<lparr>subtype = wlan_subtype WLAN_ASSOC_REQ, wd_staMacAddress = a, wd_apMacAddress = m, wa_aid = sta_aid x, wa_capability = sta_capability x,
      wa_listen_interval = sta_listen_interval x, wa_supported_rates = Some (rates @ zeroed (32 - length rates)),
      wa_supported_rates_len = word_of_int (sta_supported_rates_len x), wa_qosinfo = sta_qosinfo x\<rparr>)"

lemmas report_simps = writeTo_defs writeArray_def network_bytes dataTypeMap_def enum_val_exp

lemma assoc_read:
  assumes "big_endian nt" "length (sta_supported_rates x) = 32" "0 \<le> sta_supported_rates_len x" "sta_supported_rates_len x \<le> 32"
  shows "readFrom_OFVendor nt (ap_msg e WLAN_ASSOC_REQ (assoc_body a m x) @ r) =
    Inr (ap_vendor e 60 (WlanAssociation (assoc_data a m x)), r)"
  using ap_msg_read [of nt "WlanAssociation (assoc_data a m x)" WLAN_ASSOC_REQ "assoc_body a m x" "[]" e r] assms
  by (simp add: report_simps assoc_data_def assoc_body_def Let_def)

lemma auth_read:
  assumes "big_endian nt"
  shows "readFrom_OFVendor nt (ap_msg e WLAN_AUTH_REQ (mac_bytes a @ mac_bytes m @ bytes16 (htons g)) @ r) =
    Inr (ap_vendor e 14 (WlanAuthentication \<lparr>subtype = wlan_subtype WLAN_AUTH_REQ, wd_staMacAddress = a, wd_apMacAddress = m,
      wa_auth_alg = g\<rparr>), r)"
  using ap_msg_read [of nt "WlanAuthentication \<lparr>subtype = wlan_subtype WLAN_AUTH_REQ, wd_staMacAddress = a, wd_apMacAddress = m,
      wa_auth_alg = g\<rparr>" WLAN_AUTH_REQ "mac_bytes a @ mac_bytes m @ bytes16 (htons g)" "[]" e r] assms
  by (simp add: report_simps)

lemma rssi_read:
  assumes "big_endian nt" "t \<in> {WLAN_REC_POW, WLAN_AP_REC_POW}"
  shows "readFrom_OFVendor nt (ap_msg e t (mac_bytes a @ mac_bytes m @ [g]) @ r) =
    Inr (ap_vendor e 13 (WlanRSSI \<lparr>subtype = wlan_subtype t, rs_staMacAddress = a, rs_apMacAddress = m, rs_rssi = g\<rparr>), r)"
  using ap_msg_read [of nt "WlanRSSI \<lparr>subtype = wlan_subtype t, rs_staMacAddress = a, rs_apMacAddress = m, rs_rssi = g\<rparr>"
      t "mac_bytes a @ mac_bytes m @ [g]" "[]" e r] assms
  by (auto simp: report_simps)

text \<open>A message of a station and an access point, with what the controller does not read.\<close>

lemma pair_read:
  assumes "big_endian nt" "t \<in> {WLAN_PROBE, WLAN_DISASSOC_REQ, WLAN_DEAUTH_REQ, WLAN_REASSOC_REQ}" "length rest < 2 ^ 14"
  shows "readFrom_OFVendor nt (ap_msg e t (mac_bytes a @ mac_bytes m @ rest) @ r) =
    Inr (ap_vendor e (12 + length rest) (WlanData \<lparr>subtype = wlan_subtype t, wd_staMacAddress = a, wd_apMacAddress = m\<rparr>), rest @ r)"
  using ap_msg_read [of nt "WlanData \<lparr>subtype = wlan_subtype t, wd_staMacAddress = a, wd_apMacAddress = m\<rparr>"
      t "mac_bytes a @ mac_bytes m" rest e r] assms
  by (auto simp: report_simps)

lemma port_read:
  assumes "big_endian nt"
  shows "readFrom_OFVendor nt (ap_msg e WLAN_PORT_TRANSLATION (nat_body a (src, sp, dst, dp) np) @ r) =
    Inr (ap_vendor e 24 (NATMessageExt \<lparr>subtype = wlan_subtype WLAN_PORT_TRANSLATION, nm_staMacAddress = a,
      sourceIP = ip_word src, destinationIP = ip_word dst, sourcePort = ntohs sp, destinationPort = ntohs dp, newPort = ntohs np\<rparr>), r)"
  using ap_msg_read [of nt "NATMessageExt \<lparr>subtype = wlan_subtype WLAN_PORT_TRANSLATION, nm_staMacAddress = a,
      sourceIP = ip_word src, destinationIP = ip_word dst, sourcePort = ntohs sp, destinationPort = ntohs dp, newPort = ntohs np\<rparr>"
      WLAN_PORT_TRANSLATION "nat_body a (src, sp, dst, dp) np" "[]" e r] assms
  by (simp add: report_simps nat_body_def)

lemma send_nat_port_entry_eq:
  assumes "ap_controller s = Live c" "calloc_ok e = (\<lambda>_. True)"
  shows "send_nat_port_entry e nr s = Inr (s\<lparr>ap_controller := Live (reply e (ap_msg e WLAN_PORT_TRANSLATION
      (nat_body (nr_mac nr) (nr_src nr, nr_sport nr, nr_dst nr, nr_dport nr) 0)) c)\<rparr>)"
proof -
  have "put_body (ap_msg e WLAN_PORT_TRANSLATION (zeroed 24)) [(0, mac_bytes (nr_mac nr)), (8, ip4_bytes (nr_src nr)), (12, ip4_bytes (nr_dst nr)),
      (16, bytes16 (nr_sport nr)), (18, bytes16 (nr_dport nr))] =
    Inr (ap_msg e WLAN_PORT_TRANSLATION (nat_body (nr_mac nr) (nr_src nr, nr_sport nr, nr_dst nr, nr_dport nr) 0))"
    by (cases "nr_mac nr"; cases "nr_src nr"; cases "nr_dst nr") (simp add: nat_body_def splice_def zeroed_def numeral_eq_Suc bytes16_def byte_of_def)
  then show ?thesis
    using assms send_whole_ap_msg [of "nat_body (nr_mac nr) (nr_src nr, nr_sport nr, nr_dst nr, nr_dport nr) 0" e e WLAN_PORT_TRANSLATION c]
    by (simp add: send_nat_port_entry_def with_wlan_msg_eq layout_simps on_ctl_def nat_body_def)
qed

section \<open>Associations reach the controller\<close>

text \<open>C17. An association that an access point reports reaches the controller complete: the controller
  reads from the message exactly the addresses, the association id, the capabilities, the listen interval,
  the rates and the QoS information that hostapd recorded, and is then at the end of the message. A
  reassociation does not: the access point sends it with the same 60 bytes of body, the controller's class
  reads 12 of them, and 48 bytes are left in the stream in front of the next message.\<close>

theorem association_reaches_controller:
  assumes "big_endian nt" "ap_controller s = Live c" "conn_mac c = Some m" "staList s = Live l" "stas_ok n l" "calloc_ok e = (\<lambda>_. True)"
    "24 \<le> length (mh_mgmt h)" "frame_type (mh_mgmt h) = Some t" "t \<in> {WLAN_FC_STYPE_ASSOC_REQ, WLAN_FC_STYPE_REASSOC_REQ}"
    "sta_abs l (frame_sa (mh_mgmt h)) = Some i" "mh_sta h = Some p" "sta_at p (ap_hapd s) = Inr x"
    "length (sta_supported_rates x) = 32" "0 \<le> sta_supported_rates_len x" "sta_supported_rates_len x \<le> 32"
  shows "\<exists>b l'. process_sta_msg e h s = Inr (s\<lparr>staList := Live l', ap_controller := Live (reply e b c)\<rparr>) \<and>
    (if t = WLAN_FC_STYPE_ASSOC_REQ
     then readFrom_OFVendor nt (b @ r) = Inr (ap_vendor e 60 (WlanAssociation (assoc_data (frame_sa (mh_mgmt h)) m x)), r)
     else \<exists>left_over. length left_over = 48 \<and> readFrom_OFVendor nt (b @ r) = Inr (ap_vendor e 60 (WlanData
       \<lparr>subtype = wlan_subtype WLAN_REASSOC_REQ, wd_staMacAddress = frame_sa (mh_mgmt h), wd_apMacAddress = m\<rparr>), left_over @ r))"
proof -
  define sub where "sub = (if t = WLAN_FC_STYPE_ASSOC_REQ then WLAN_ASSOC_REQ else WLAN_REASSOC_REQ)"
  have t: "t = WLAN_FC_STYPE_ASSOC_REQ \<and> sub = WLAN_ASSOC_REQ \<or> t = WLAN_FC_STYPE_REASSOC_REQ \<and> sub = WLAN_REASSOC_REQ"
    using assms(9) by (auto simp: sub_def)
  let ?a = "frame_sa (mh_mgmt h)"
  obtain l' where l': "process_sta_msg e h s = Inr (s\<lparr>staList := Live l', ap_controller := Live (reply e (ap_msg e sub (assoc_body ?a m x)) c)\<rparr>)"
    using process_sta_msg_assoc [OF assms(2-8) t assms(10-15)] by blast
  define w where "w = drop 12 (assoc_body ?a m x)"
  have w: "assoc_body ?a m x = mac_bytes ?a @ mac_bytes m @ w" "length w = 48"
    using assms(13-15) by (simp_all add: w_def assoc_body_def Let_def)
  show ?thesis
    using l' t assoc_read [OF assms(1,13-15), of e ?a m r] pair_read [OF assms(1), of WLAN_REASSOC_REQ w e ?a m r] w
    by (intro exI [of _ "ap_msg e sub (assoc_body ?a m x)"] exI [of _ l']) auto
qed

theorem association_reaches_controller_witness:
  "\<exists>b l'. process_sta_msg demo_ap_env \<lparr>mh_mgmt = demo_assoc_frame, mh_len = 24, mh_sta = Some 0\<rparr> (demo_access_point demo_list demo_hapd) =
     Inr ((demo_access_point l' demo_hapd)\<lparr>ap_controller := Live (reply demo_ap_env b demo_ap_conn)\<rparr>) \<and>
     readFrom_OFVendor network_buffer b = Inr (ap_vendor demo_ap_env 60 (WlanAssociation (assoc_data demo_addr demo_ap_mac (hap_new demo_addr))), [])"
proof -
  let ?s = "demo_access_point demo_list demo_hapd" and ?h = "\<lparr>mh_mgmt = demo_assoc_frame, mh_len = 24, mh_sta = Some 0\<rparr>"
  have c: "ap_controller ?s = Live demo_ap_conn" "conn_mac demo_ap_conn = Some demo_ap_mac" "staList ?s = Live demo_list"
    "calloc_ok demo_ap_env = (\<lambda>_. True)" "sta_at 0 (ap_hapd ?s) = Inr (hap_new demo_addr)"
    by (simp_all add: demo_access_point_def demo_ap_conn_def demo_ap_env_def demo_hapd_at)
  have f: "24 \<le> length (mh_mgmt ?h)" "frame_type (mh_mgmt ?h) = Some WLAN_FC_STYPE_ASSOC_REQ" "frame_sa (mh_mgmt ?h) = demo_addr"
    by code_simp+
  have i: "sta_abs demo_list (frame_sa (mh_mgmt ?h)) = Some (new_infoSTA demo_addr)" using demo_list_ok(2) f(3) by simp
  from association_reaches_controller [OF big_endian_network_buffer c(1-3) demo_list_ok(1) c(4) f(1,2) _ i _ c(5) hap_new_rates(1-3), of "[]"]
  show ?thesis using f(3) by (auto simp: demo_access_point_def)
qed

end
