(* ===== verification/Fl_Handover.thy ===== *)
theory Fl_Handover
  imports Fl_Inv Fl_Wire
begin

text \<open>
  The decision of the controller: what \<open>handleAPRSSI\<close> writes to whom and what it records, on every branch,
  and the texts of addresses it depends on.
\<close>

section \<open>Addresses\<close>

lemma split_at_none: "c \<notin> set w \<Longrightarrow> split_at c w = [w]"
  by (induction w) auto

lemma split_at_sep: "c \<notin> set w \<Longrightarrow> split_at c (w @ c # r) = w # split_at c r"
  by (induction w) auto

lemma java_split_dots:
  assumes "c \<notin> set w1" "c \<notin> set w2" "c \<notin> set w3" "c \<notin> set w4" "w4 \<noteq> []"
  shows "java_split c (w1 @ c # w2 @ c # w3 @ c # w4) = [w1, w2, w3, w4]"
  using assms by (simp add: java_split_def split_at_sep split_at_none)

lemma digits_value_append: "digits_value acc (xs @ ys) = (case digits_value acc xs of None \<Rightarrow> None | Some v \<Rightarrow> digits_value v ys)"
  by (induction xs arbitrary: acc) (auto split: option.split)

lemma digit_of_dec: "n < 10 \<Longrightarrow> digit_of (char_of (48 + n)) = Some n"
  by (simp add: digit_of_def Let_def)

lemma digits_value_dec: "digits_value 0 (dec n) = Some (int n)"
proof (induction n rule: dec.induct)
  case (1 n)
  show ?case
  proof (cases "n < 10")
    case True
    then show ?thesis by (subst dec.simps) (simp add: digit_of_dec)
  next
    case False
    have "10 * int (n div 10) + int (n mod 10) = int n" by presburger
    then show ?thesis using 1 [OF False] False by (subst dec.simps) (simp add: digits_value_append digit_of_dec)
  qed
qed

lemma Integer_valueOf_dec:
  assumes "n < 2 ^ 31"
  shows "Integer_valueOf (dec n) = Inr (word_of_nat n)"
proof -
  obtain c cs where d: "dec n = c # cs" using dec_not_Nil [of n] by (cases "dec n") auto
  have "digit_of c \<noteq> None" using digits_value_dec [of n] d by (auto split: option.splits)
  then have "c \<noteq> CHR ''-''" "c \<noteq> CHR ''+''" by (auto simp: digit_of_def)
  then have "Integer_valueOf (dec n) = parse_digits 1 (dec n)" by (simp add: d)
  also have "\<dots> = Inr (word_of_int (int n))" using assms by (simp add: parse_digits_def digits_value_dec int_range_def)
  finally show ?thesis by simp
qed

lemma toIPv4Address_dotted: "toIPv4Address (dotted4 x) = Inr (ip_word x)"
proof (cases x)
  case (IP4 a b c d)
  have lt: "unat y < 2 ^ 31" for y :: byte
  proof -
    have "unat y < 256" using unsigned_less [where w = y] by simp
    then show ?thesis by (rule less_trans) simp
  qed
  have w: "word_of_nat (unat y) = (ucast y :: u32)" for y :: byte by simp
  have "java_split CHR ''.'' (dotted4 x) = [dec (unat a), dec (unat b), dec (unat c), dec (unat d)]"
    by (simp add: IP4 java_split_dots)
  then show ?thesis
    unfolding toIPv4Address_def using lt by (simp add: Integer_valueOf_dec IP4 le32_def ac_simps)
qed

text \<open>The text of a peer's address, as netty gives it: a slash, the address, a colon and the port.\<close>

lemma peer_address_eq:
  assumes "remote_address e sw = Some (''/'' @ dotted4 x @ '':'' @ port)"
  shows "peer_address e sw = Inr (ip_word x)"
proof -
  have dec: "CHR '':'' \<notin> set (dec n)" for n
  proof (induction n rule: dec.induct)
    case (1 n)
    have "CHR '':'' \<noteq> char_of (48 + k)" if "k < 10" for k :: nat
      using that by (auto dest: arg_cong [where f = "of_char :: char \<Rightarrow> nat"] simp: of_char_of)
    with 1 show ?case by (subst dec.simps) auto
  qed
  have c: "CHR '':'' \<notin> set (dotted4 x)" by (cases x) (simp add: dec)
  then have "takeWhile (\<lambda>c. c \<noteq> CHR '':'') (''/'' @ dotted4 x @ '':'' @ port) = ''/'' @ dotted4 x"
    by (subst append_assoc [symmetric], subst takeWhile_append2) auto
  then have "peer_text (''/'' @ dotted4 x @ '':'' @ port) = Inr (dotted4 x)" by (simp add: peer_text_def)
  then show ?thesis by (simp add: peer_address_def assms toIPv4Address_dotted)
qed

section \<open>The messages of a handover\<close>

definition remove_sta :: "mac \<Rightarrow> vendor_data" where
  "remove_sta a = WlanSTAMessage \<lparr>subtype = 18, sm_staMacAddress = a\<rparr>"

definition handover_messages :: "mac \<Rightarrow> nat \<Rightarrow> nat \<Rightarrow> (nat \<times> u32) option \<Rightarrow> NATMap list \<Rightarrow> STAAPInfo \<Rightarrow> (nat \<times> vendor_data) list" where
  "handover_messages a sw newSw gw es staAP =
     map (\<lambda>en. (newSw, nat_add a (me_sourceIP en) en)) es @ [(sw, remove_sta a), (newSw, update_sta_add a staAP)] @
     (case gw of None \<Rightarrow> [] | Some (g, ip) \<Rightarrow> map (\<lambda>en. (g, nat_add a ip en)) es)"

definition log :: "(nat \<times> vendor_data) list \<Rightarrow> (nat \<times> OFVendor \<times> bool) list" where
  "log ms = map (\<lambda>(sw, d). (sw, vendor_message d, True)) ms"

lemma sw_write_eq: "write_ok e = (\<lambda>_. True) \<Longrightarrow> sw_write e sw d s = (True, s\<lparr>writes := writes s @ log [(sw, d)]\<rparr>)"
  by (simp add: sw_write_def log_def Let_def)

lemma write_all_eq: "write_ok e = (\<lambda>_. True) \<Longrightarrow> write_all e sw ds s = s\<lparr>writes := writes s @ log (map (\<lambda>d. (sw, d)) ds)\<rparr>"
  by (induction ds arbitrary: s) (simp_all add: sw_write_eq log_def)

lemma update_gateway_eq:
  "write_ok e = (\<lambda>_. True) \<Longrightarrow> peer_address e newSw = Inr ip \<Longrightarrow>
     update_gateway e a newSw gw es s = (None, s\<lparr>writes := writes s @ log (map (\<lambda>en. (gw, nat_add a ip en)) es)\<rparr>)"
  by (induction es arbitrary: s) (simp_all add: sw_write_eq log_def)

lemma move_station_frame [simp]:
  "gwSwitch (move_station sw a b ap staAP s) = gwSwitch s" "writes (move_station sw a b ap staAP s) = writes s"
  "STAAPRSSIList (move_station sw a b ap staAP s) = (STAAPRSSIList s)(a \<mapsto> ap\<lparr>ai_apMACAddress := b, ai_rssi := - 128, ai_sw := sw\<rparr>)"
  by (simp_all add: move_station_def Let_def split: option.split)

lemma handover_eq:
  assumes "STAAPRSSIList s (mac_string (rs_staMacAddress m)) = Some ap"
    "lookupSenderSTAAP (mac_string (rs_staMacAddress m)) (mac_string (rs_apMacAddress m)) s = Some staAP"
    "sint (rs_rssi m) < sint (ai_rssi ap)" "write_ok e = (\<lambda>_. True)"
    "es = (case natTable s (mac_string (rs_staMacAddress m)) of None \<Rightarrow> [] | Some es \<Rightarrow> es)"
    "newSw = new_switch (mac_string (rs_staMacAddress m)) ap s"
    "case gwSwitch s of None \<Rightarrow> gw = None | Some g \<Rightarrow> \<exists>ip. gw = Some (g, ip) \<and> peer_address e newSw = Inr ip"
  shows "handleAPRSSI e sw m s = (None,
    let a = mac_string (rs_staMacAddress m); b = mac_string (rs_apMacAddress m); ap = ap\<lparr>isSent := False\<rparr>;
        t = move_station sw a b ap staAP (set_rssi a ap s) in
    t\<lparr>writes := writes s @ log (handover_messages (rs_staMacAddress m) sw newSw gw es staAP)\<rparr>)"
proof -
  let ?a = "mac_string (rs_staMacAddress m)" and ?b = "mac_string (rs_apMacAddress m)" and ?ap = "ap\<lparr>isSent := False\<rparr>"
  let ?t = "move_station sw ?a ?b ?ap staAP (set_rssi ?a ?ap s)"
  have n: "new_switch ?a ?ap (set_rssi ?a ?ap s) = newSw"
    using assms(6) by (simp add: new_switch_def lookupSenderSTAAP_pairs split: option.split)
  note w = sw_write_eq [OF assms(4)] write_all_eq [OF assms(4)]
  have b: "lookupSenderSTAAP ?a ?b (set_rssi ?a ?ap s) = Some staAP" using assms(2) by (simp add: lookupSenderSTAAP_pairs)
  show ?thesis
  proof (cases "gwSwitch s")
    case None
    then show ?thesis using assms(1,3,5,7) b
      by (simp add: handleAPRSSI_def Let_def n w handover_messages_def log_def remove_sta_def comp_def split: option.split)
  next
    case (Some g)
    then obtain ip where gw: "gw = Some (g, ip)" "peer_address e newSw = Inr ip" using assms(7) by auto
    show ?thesis using assms(1,3,5) b Some
      by (simp add: handleAPRSSI_def Let_def n w update_gateway_eq [OF assms(4) gw(2)] gw(1) handover_messages_def log_def remove_sta_def comp_def
          split: option.split)
  qed
qed

text \<open>C3. The decision. When the access point of a station answers how well it receives the station and another
  access point reported it more strongly, the controller moves the station: it announces the station's
  translations to the new access point, tells the old one to remove the station, sends the new one what the old
  one reported at the association, announces the translations to the gateway with the address of the new access
  point, in this order and to exactly these switches, and records the station as associated with the new access
  point, with the same data, and no longer authenticated at the old one, which becomes the alternative, with
  the weakest strength. The QoS information it sends is always 0: it is not recorded. Otherwise nothing is
  sent, and the request for an answer counts as done.\<close>

theorem handover_decided:
  assumes "fl_reach P n s" "STAAPRSSIList s (mac_string (rs_staMacAddress m)) = Some ap"
    "lookupSenderSTAAP (mac_string (rs_staMacAddress m)) (mac_string (rs_apMacAddress m)) s = Some staAP"
    "ai_apMACAddress ap \<noteq> mac_string (rs_apMacAddress m)" "write_ok e = (\<lambda>_. True)"
    "es = (case natTable s (mac_string (rs_staMacAddress m)) of None \<Rightarrow> [] | Some es \<Rightarrow> es)"
    "newSw = new_switch (mac_string (rs_staMacAddress m)) ap s"
    "case gwSwitch s of None \<Rightarrow> gw = None | Some g \<Rightarrow> \<exists>ip. gw = Some (g, ip) \<and> peer_address e newSw = Inr ip"
  shows "if sint (rs_rssi m) < sint (ai_rssi ap) then
      \<exists>s' new. handleAPRSSI e sw m s = (None, s') \<and>
        writes s' = writes s @ log (handover_messages (rs_staMacAddress m) sw newSw gw es staAP) \<and> sa_qosinfo staAP = 0 \<and>
        pairs s' = (pairs s)((mac_string (rs_staMacAddress m), ai_apMACAddress ap) \<mapsto> new,
          (mac_string (rs_staMacAddress m), mac_string (rs_apMacAddress m)) \<mapsto> staAP\<lparr>sa_status := Some fl_STAStatus.NOT_AUTHENTICATED\<rparr>) \<and>
        sa_status new = Some fl_STAStatus.ASSOCIATED \<and> sa_sw new = newSw \<and> sa_auth_alg new = sa_auth_alg staAP \<and> sa_aid new = sa_aid staAP \<and>
        sa_capability new = sa_capability staAP \<and> sa_listen_interval new = sa_listen_interval staAP \<and>
        sa_supported_rates new = sa_supported_rates staAP \<and> sa_supported_rates_len new = sa_supported_rates_len staAP \<and>
        STAAPRSSIList s' = (STAAPRSSIList s)(mac_string (rs_staMacAddress m) \<mapsto>
          \<lparr>ai_apMACAddress = mac_string (rs_apMacAddress m), ai_rssi = - 128, isSent = False, ai_sw = sw\<rparr>)
    else handleAPRSSI e sw m s = (None, set_rssi (mac_string (rs_staMacAddress m)) (ap\<lparr>isSent := False\<rparr>) s)"
proof (cases "sint (rs_rssi m) < sint (ai_rssi ap)")
  case True
  let ?a = "mac_string (rs_staMacAddress m)" and ?b = "mac_string (rs_apMacAddress m)" and ?ap = "ap\<lparr>isSent := False\<rparr>"
  let ?t = "move_station sw ?a ?b ?ap staAP (set_rssi ?a ?ap s)"
  define i where "i = (case pairs s (?a, ai_apMACAddress ap) of None \<Rightarrow> new_STAAPInfo ?a (ai_apMACAddress ap) None False (ai_sw ap) | Some i \<Rightarrow> i)"
  define s' where "s' = ?t\<lparr>writes := writes s @ log (handover_messages (rs_staMacAddress m) sw newSw gw es staAP)\<rparr>"
  have p: "pairs s (?a, ?b) = Some staAP" using assms(3) by (simp add: lookupSenderSTAAP_pairs)
  have i: "i = (case pairs (set_rssi ?a ?ap s) (?a, ai_apMACAddress ?ap) of
      None \<Rightarrow> new_STAAPInfo ?a (ai_apMACAddress ?ap) None False (ai_sw ?ap) | Some i \<Rightarrow> i)"
    by (simp add: i_def split: option.split)
  have "pairs ?t = (pairs s)((?a, ai_apMACAddress ap) \<mapsto> (copy_STA staAP i)\<lparr>sa_status := Some fl_STAStatus.ASSOCIATED\<rparr>,
      (?a, ?b) \<mapsto> staAP\<lparr>sa_status := Some fl_STAStatus.NOT_AUTHENTICATED\<rparr>)"
    using pairs_move_station [of "set_rssi ?a ?ap s" ?a ?b staAP ?ap i sw] p assms(4) i by simp
  then have "pairs s' = (pairs s)((?a, ai_apMACAddress ap) \<mapsto> (copy_STA staAP i)\<lparr>sa_status := Some fl_STAStatus.ASSOCIATED\<rparr>,
      (?a, ?b) \<mapsto> staAP\<lparr>sa_status := Some fl_STAStatus.NOT_AUTHENTICATED\<rparr>)" by (simp add: s'_def pairs_def)
  moreover have "handleAPRSSI e sw m s = (None, s')" using handover_eq [OF assms(2,3) True assms(5-8), of sw] by (simp add: s'_def Let_def)
  moreover have "sa_qosinfo staAP = 0" using pairs_okD(2) [OF pairs_inv.reach_keeps [OF assms(1)] p] by simp
  moreover have "sa_sw i = newSw" using assms(7) by (simp add: i_def new_switch_def lookupSenderSTAAP_pairs new_STAAPInfo_def split: option.split)
  moreover have "writes s' = writes s @ log (handover_messages (rs_staMacAddress m) sw newSw gw es staAP)" by (simp add: s'_def)
  moreover have "STAAPRSSIList s' = (STAAPRSSIList s)(?a \<mapsto> \<lparr>ai_apMACAddress = ?b, ai_rssi = - 128, isSent = False, ai_sw = sw\<rparr>)"
    by (cases ap) (simp add: s'_def)
  ultimately show ?thesis using True
    by (simp only: if_True, intro exI [of _ s'] exI [of _ "(copy_STA staAP i)\<lparr>sa_status := Some fl_STAStatus.ASSOCIATED\<rparr>"])
      (simp add: copy_STA_def)
next
  case False
  then show ?thesis using assms(2,3) by (simp add: handleAPRSSI_def Let_def lookupSenderSTAAP_pairs)
qed

text \<open>When the message to the old access point cannot be written, the station is recorded as moved, and the new
  access point is told nothing.\<close>

lemma handover_lost:
  assumes "STAAPRSSIList s (mac_string (rs_staMacAddress m)) = Some ap"
    "lookupSenderSTAAP (mac_string (rs_staMacAddress m)) (mac_string (rs_apMacAddress m)) s = Some staAP"
    "sint (rs_rssi m) < sint (ai_rssi ap)" "natTable s (mac_string (rs_staMacAddress m)) = None" "\<not> write_ok e (length (writes s))"
  shows "handleAPRSSI e sw m s = (None, let a = mac_string (rs_staMacAddress m); ap = ap\<lparr>isSent := False\<rparr> in
    (move_station sw a (mac_string (rs_apMacAddress m)) ap staAP (set_rssi a ap s))
      \<lparr>writes := writes s @ [(sw, vendor_message (remove_sta (rs_staMacAddress m)), False)]\<rparr>)"
  using assms by (simp add: handleAPRSSI_def Let_def lookupSenderSTAAP_pairs sw_write_def remove_sta_def)

lemma receive_rssi: "receive e sw (vendor_message (WlanRSSI \<lparr>subtype = 14, rs_staMacAddress = a, rs_apMacAddress = b, rs_rssi = r\<rparr>)) s =
    (Inr STOP, handleLastRSSI e sw \<lparr>subtype = 14, rs_staMacAddress = a, rs_apMacAddress = b, rs_rssi = r\<rparr> s)"
  by (simp add: receive_simps)

text \<open>A station associated with the first access point, whom the second hears better.\<close>

lemma demo_heard:
  assumes "b \<noteq> c"
  obtains s ap i where "fl_reach (\<lambda>_. True) 4 s" "STAAPRSSIList s (mac_string a) = Some ap" "ai_rssi ap = 50" "ai_sw ap = 2"
    "ai_apMACAddress ap = mac_string c" "pairs s = [(mac_string a, mac_string b) \<mapsto> i]" "sa_status i = Some fl_STAStatus.ASSOCIATED"
    "sa_auth_alg i = 0" "sa_capability i = 0x431" "sa_supported_rates i = Some (replicate 32 0)" "sa_supported_rates_len i = 4" "gwSwitch s = None" "natTable s = (\<lambda>_. None)"
    "portMap s = (\<lambda>_. None)"
proof -
  let ?e = demo_fl_env and ?S = a and ?T = "\<lambda>_ :: OFVendor. True"
  let ?m = "\<lparr>subtype = 14, rs_staMacAddress = ?S, rs_apMacAddress = c, rs_rssi = 50\<rparr>"
  note step = fl_received [where P = ?T, OF _ demo_visits_all TrueI]
  define s1 where "s1 = snd (receive ?e 1 (pair_message 12 ?S b) fl_init)"
  define s2 where "s2 = snd (receive ?e 1 (auth_message ?S b) s1)"
  define s3 where "s3 = snd (receive ?e 1 (assoc_message ?S b) s2)"
  define s4 where "s4 = snd (receive ?e 2 (vendor_message (WlanRSSI ?m)) s3)"
  have "fl_reach ?T 1 s1" "fl_reach ?T 2 s2" "fl_reach ?T 3 s3" "fl_reach ?T 4 s4"
    using step [OF fl_start, of 1 "pair_message 12 ?S b", folded s1_def] step [of 1 s1, folded s2_def] step [of 2 s2, folded s3_def]
      step [of 3 s3, folded s4_def] unfolding s1_def s2_def s3_def s4_def by (simp_all add: eval_nat_numeral)
  moreover have "pairs_ok fl_init" "pairs fl_init = (\<lambda>_. None)" using pairs_inv.I_init by (simp_all add: pairs_def fl_init_def)
  then have "pairs s1 = [(mac_string ?S, mac_string b) \<mapsto> new_STAAPInfo (mac_string ?S) (mac_string b) (Some fl_STAStatus.SELECTED) True 1]"
    using pairs_probe [OF demo_visits_all, where s = fl_init and a = ?S and b = b and sw = 1] by (simp add: s1_def receive_probe)
  then have "pairs s3 = [(mac_string ?S, mac_string b) \<mapsto> (new_STAAPInfo (mac_string ?S) (mac_string b) (Some fl_STAStatus.SELECTED) True 1)
      \<lparr>sa_auth_alg := 0, sa_status := Some fl_STAStatus.ASSOCIATED, sa_aid := 1, sa_capability := 0x431, sa_listen_interval := 10,
        sa_supported_rates_len := 4, sa_supported_rates := Some (replicate 32 0)\<rparr>]" (is "_ = [_ \<mapsto> ?i]")
    by (simp add: s3_def s2_def receive_assoc receive_auth pairs_update_pair)
  moreover have "sa_status ?i = Some fl_STAStatus.ASSOCIATED" "sa_auth_alg ?i = 0" "sa_capability ?i = 0x431" "sa_supported_rates ?i = Some (replicate 32 0)"
    "sa_supported_rates_len ?i = 4" by simp_all
  moreover have r: "STAAPRSSIList s3 = (\<lambda>_. None)" "gwSwitch s3 = None" "natTable s3 = (\<lambda>_. None)" "portMap s3 = (\<lambda>_. None)"
    by (simp_all add: s3_def s2_def s1_def receive_assoc receive_auth receive_probe update_pair_def handleProbeReq_def sw_write_def fl_init_def Let_def split: option.split)
  moreover have "gwSwitch s4 = gwSwitch s3" "pairs s4 = pairs s3" "natTable s4 = natTable s3" "portMap s4 = portMap s3"
    by (simp_all add: s4_def receive_rssi pairs_def handleLastRSSI_def sw_write_def set_rssi_def Let_def split: option.split)
  moreover obtain ap where "STAAPRSSIList s4 (mac_string ?S) = Some ap" "ai_rssi ap = 50" "ai_sw ap = 2" "ai_apMACAddress ap = mac_string c"
    using handleLastRSSI_entry [of ?e 2 ?m s3] r(1) by (auto simp: s4_def receive_rssi strongest_def)
  ultimately show thesis using that [of s4 ap ?i] by simp
qed

theorem handover_decided_witness:
  "\<exists>s s' ap i. fl_reach (\<lambda>_. True) 4 s \<and>
    handleAPRSSI demo_fl_env 1 \<lparr>subtype = 16, rs_staMacAddress = demo_station, rs_apMacAddress = demo_ap1, rs_rssi = 30\<rparr> s = (None, s') \<and>
    writes s' = writes s @ log [(1, remove_sta demo_station), (2, update_sta_add demo_station i)] \<and> sa_capability i = 0x431"
proof -
  let ?m = "\<lparr>subtype = 16, rs_staMacAddress = demo_station, rs_apMacAddress = demo_ap1, rs_rssi = 30\<rparr>"
  obtain s ap i where s: "fl_reach (\<lambda>_. True) 4 s" "STAAPRSSIList s (mac_string demo_station) = Some ap" "ai_rssi ap = 50" "ai_sw ap = 2"
    "ai_apMACAddress ap = mac_string demo_ap2" "pairs s = [(mac_string demo_station, mac_string demo_ap1) \<mapsto> i]"
    "sa_capability i = 0x431" "gwSwitch s = None" "natTable s = (\<lambda>_. None)"
    using demo_heard [of demo_ap1 demo_ap2 demo_station thesis] by (auto simp: demo_ap1_def demo_ap2_def)
  have n: "demo_ap2 \<noteq> demo_ap1" by (simp add: demo_ap1_def demo_ap2_def)
  have "new_switch (mac_string demo_station) ap s = 2" using s n by (simp add: new_switch_def lookupSenderSTAAP_pairs)
  then have "handover_messages demo_station 1 (new_switch (mac_string demo_station) ap s) None [] i =
      [(1, remove_sta demo_station), (2, update_sta_add demo_station i)]" by (simp add: handover_messages_def)
  moreover have "sint (30 :: byte) < sint (50 :: byte)" by simp
  moreover have "write_ok demo_fl_env = (\<lambda>_. True)" by (simp add: demo_fl_env_def)
  ultimately show ?thesis
    using handover_decided [OF s(1), where m = ?m and ap = ap and staAP = i and e = demo_fl_env and es = "[]" and gw = None and sw = 1 and
        newSw = "new_switch (mac_string demo_station) ap s"] s n
    by (simp add: lookupSenderSTAAP_pairs) blast
qed

section \<open>The answer of an access point\<close>

text \<open>The bytes of the answer make the controller write the messages of the handover.\<close>

lemma answer_moves_station:
  assumes "big_endian nt" "STAAPRSSIList s (mac_string a) = Some ap" "lookupSenderSTAAP (mac_string a) (mac_string b) s = Some staAP"
    "write_ok e = (\<lambda>_. True)" "newSw = new_switch (mac_string a) ap s" "gwSwitch s \<noteq> None \<longrightarrow> peer_address e newSw = Inr ip" "sint r < sint (ai_rssi ap)"
    "es = (case natTable s (mac_string a) of None \<Rightarrow> [] | Some es \<Rightarrow> es)"
  obtains msg s' where "readFrom_OFVendor nt (ap_msg eo exp_type.WLAN_AP_REC_POW (mac_bytes a @ mac_bytes b @ [r])) = Inr (msg, [])"
    "receive e sw msg s = (Inr STOP, s')"
    "writes s' = writes s @ log (handover_messages a sw newSw (map_option (\<lambda>g. (g, ip)) (gwSwitch s)) es staAP)"
proof -
  define m where "m = \<lparr>subtype = 16, rs_staMacAddress = a, rs_apMacAddress = b, rs_rssi = r\<rparr>"
  define gw where "gw = map_option (\<lambda>g. (g, ip)) (gwSwitch s)"
  have 1: "readFrom_OFVendor nt (ap_msg eo exp_type.WLAN_AP_REC_POW (mac_bytes a @ mac_bytes b @ [r])) = Inr (ap_vendor eo 13 (WlanRSSI m), [])"
    using rssi_read [OF assms(1), of exp_type.WLAN_AP_REC_POW eo a b r "[]"] by (simp add: m_def enum_val_exp)
  have g: "case gwSwitch s of None \<Rightarrow> gw = None | Some g \<Rightarrow> \<exists>ip. gw = Some (g, ip) \<and> peer_address e newSw = Inr ip"
    using assms(6) by (auto simp: gw_def split: option.split)
  obtain s' where s': "handleAPRSSI e sw m s = (None, s')" "writes s' = writes s @ log (handover_messages a sw newSw gw es staAP)"
    using handover_eq [where s = s and m = m and e = e and sw = sw and gw = gw and es = es and newSw = newSw, OF _ _ _ assms(4) _ _ g]
      assms(2,3,5,7,8) by (simp add: m_def Let_def)
  then have "receive e sw (ap_vendor eo 13 (WlanRSSI m)) s = (Inr STOP, s')"
    by (simp add: receive_def cast_def as_rssi_def ap_vendor_def m_def)
  then show thesis using 1 that s'(2) unfolding gw_def by blast
qed

lemma remove_sta_bytes:
  "big_endian nt \<Longrightarrow> writeTo_OFVendor nt (vendor_message (remove_sta a)) = Inr (wlan_request exp_type.WLAN_REMOVE_STA 0 (mac_bytes a))"
  using sta_request_bytes [of nt exp_type.WLAN_REMOVE_STA a] by (simp add: remove_sta_def enum_val_exp)

definition update_of :: "STAAPInfo \<Rightarrow> buf \<Rightarrow> sta_update" where
  "update_of staAP rates = \<lparr>up_auth_alg = sa_auth_alg staAP, up_aid = sa_aid staAP, up_capability = sa_capability staAP,
    up_listen_interval = sa_listen_interval staAP, up_rates = rates, up_rates_len = sa_supported_rates_len staAP, up_qosinfo = sa_qosinfo staAP\<rparr>"

lemma update_sta_bytes:
  assumes "big_endian nt" "sa_supported_rates staAP = Some rates" "length rates = 32"
  shows "writeTo_OFVendor nt (vendor_message (update_sta_add a staAP)) = Inr (wlan_request exp_type.WLAN_UPDATE_STA_ADD 0 (update_body a (update_of staAP rates)))"
  using update_request_bytes [OF assms(1,3), of a "sa_auth_alg staAP" "sa_aid staAP" "sa_capability staAP" "sa_listen_interval staAP"
      "sa_supported_rates_len staAP" "sa_qosinfo staAP"] by (simp add: update_sta_add_def enum_val_exp update_of_def assms(2))

lemma nat_add_bytes:
  assumes "big_endian nt" "me_destinationIP en = ip_word dst"
  shows "writeTo_OFVendor nt (vendor_message (nat_add a (ip_word src) en)) = Inr (wlan_request exp_type.WLAN_NAT_ADD 0
    (nat_body a (src, htons (me_sourcePort en), dst, htons (me_destinationPort en)) (htons (me_newPort en))))"
  using nat_request_bytes [OF assms(1), of a src dst "htons (me_sourcePort en)" "htons (me_destinationPort en)" "htons (me_newPort en)"]
  by (simp add: nat_add_def enum_val_exp assms(2))

end
