(* ===== verification/Fl_Ports.thy ===== *)
theory Fl_Ports
  imports Fl_Handover
begin

text \<open>
  The ports that the controller hands out, under concurrent requests. \<open>handlePortTranslation\<close> (OFSwitchAP.java) is
  not synchronized, and the messages of different switches are handled by different threads, so the
  accesses that it makes to the two tables interleave with those of other requests and with the other
  handlers. The thread of a switch handles one message after another: its program counter is between two accesses of its
  request, or \<open>Idle\<close>.

  One step is one operation of a concurrent map or of a list: the lookup of the station's list, with the walk through it;
  \<open>natTable.put\<close> of a new list; the read of the port counter; \<open>portMap.put\<close>; \<open>entries.add\<close>, with the
  answer. A list is an object: a request that found none puts its own, and goes on using it although another
  may have replaced it since. \<open>list_no\<close> numbers the lists that were put for a station, so that an entry which is
  added to a replaced list is lost, as in the code. What lists do under simultaneous access
  (the iterator's exception, a lost \<open>add\<close>) is not modelled. The other handlers are whole steps, and those that announce
  translations (\<open>handleNATUpdate\<close>) are left out by the properties.
\<close>

section \<open>The sections of a request\<close>

definition sta_key :: "OFNATMessageExt \<Rightarrow> string" where
  "sta_key m = mac_string (nm_staMacAddress m)"

definition port_key :: "OFNATMessageExt \<Rightarrow> PortPair" where
  "port_key m = (destinationIP m, destinationPort m)"

definition new_entry :: "OFNATMessageExt \<Rightarrow> u16 \<Rightarrow> NATMap" where
  "new_entry m p = \<lparr>me_sourceIP = sourceIP m, me_destinationIP = destinationIP m, me_sourcePort = sourcePort m,
     me_destinationPort = destinationPort m, me_newPort = p\<rparr>"

definition answer_port :: "fl_env \<Rightarrow> nat \<Rightarrow> OFNATMessageExt \<Rightarrow> NATMap \<Rightarrow> fl_state \<Rightarrow> fl_state" where
  "answer_port e sw m en s = snd (sw_write e sw (nat_add (nm_staMacAddress m) (me_sourceIP en) en) s)"

datatype port_pc = Idle | Asked OFNATMessageExt | Listed OFNATMessageExt nat | Fetched OFNATMessageExt nat u16 | Stored OFNATMessageExt nat u16

record fl_threads =
  th_fl :: fl_state
  pcs :: "nat \<Rightarrow> port_pc"
  list_no :: "string \<Rightarrow> nat"

definition at_pc :: "nat \<Rightarrow> port_pc \<Rightarrow> fl_threads \<Rightarrow> fl_threads" where
  "at_pc sw pc t = t\<lparr>pcs := (pcs t)(sw := pc)\<rparr>"

definition put_list :: "string \<Rightarrow> fl_threads \<Rightarrow> fl_threads" where
  "put_list sta t = t\<lparr>th_fl := (th_fl t)\<lparr>natTable := (natTable (th_fl t))(sta \<mapsto> [])\<rparr>, list_no := (list_no t)(sta := Suc (list_no t sta))\<rparr>"

definition put_port :: "PortPair \<Rightarrow> u16 \<Rightarrow> fl_threads \<Rightarrow> fl_threads" where
  "put_port k p t = t\<lparr>th_fl := (th_fl t)\<lparr>portMap := (portMap (th_fl t))(k \<mapsto> p)\<rparr>\<rparr>"

definition add_entry :: "string \<Rightarrow> nat \<Rightarrow> NATMap \<Rightarrow> fl_threads \<Rightarrow> fl_threads" where
  "add_entry sta v en t = (if list_no t sta = v
     then t\<lparr>th_fl := (th_fl t)\<lparr>natTable := (natTable (th_fl t))(sta := map_option (\<lambda>es. es @ [en]) (natTable (th_fl t) sta))\<rparr>\<rparr> else t)"

text \<open>The number of a step is the number of ports that it assigns.\<close>

inductive port_step :: "(OFVendor \<Rightarrow> bool) \<Rightarrow> nat \<Rightarrow> fl_threads \<Rightarrow> fl_threads \<Rightarrow> bool" for P where
  known: "pcs t sw = Idle \<Longrightarrow> natTable (th_fl t) (sta_key m) = Some es \<Longrightarrow> List.find (same_flow m) es = Some en \<Longrightarrow>
     port_step P 0 t (t\<lparr>th_fl := answer_port e sw m en (th_fl t)\<rparr>)"
| unknown: "pcs t sw = Idle \<Longrightarrow> natTable (th_fl t) (sta_key m) = Some es \<Longrightarrow> List.find (same_flow m) es = None \<Longrightarrow>
     port_step P 0 t (at_pc sw (Listed m (list_no t (sta_key m))) t)"
| no_list: "pcs t sw = Idle \<Longrightarrow> natTable (th_fl t) (sta_key m) = None \<Longrightarrow> port_step P 0 t (at_pc sw (Asked m) t)"
| new_list: "pcs t sw = Asked m \<Longrightarrow>
     port_step P 0 t (at_pc sw (Listed m (Suc (list_no t (sta_key m)))) (put_list (sta_key m) t))"
| get_port: "pcs t sw = Listed m v \<Longrightarrow> port_step P 0 t (at_pc sw (Fetched m v (next_port (port_key m) (th_fl t))) t)"
| set_port: "pcs t sw = Fetched m v p \<Longrightarrow> port_step P 1 t (at_pc sw (Stored m v p) (put_port (port_key m) p t))"
| answer: "pcs t sw = Stored m v p \<Longrightarrow> u = add_entry (sta_key m) v (new_entry m p) t \<Longrightarrow>
     port_step P 0 t (at_pc sw Idle (u\<lparr>th_fl := answer_port e sw m (new_entry m p) (th_fl u)\<rparr>))"
| message: "pcs t sw = Idle \<Longrightarrow> P msg \<Longrightarrow> visits_all e \<Longrightarrow> (\<And>m. of_vendorData msg \<noteq> NATMessageExt m) \<Longrightarrow>
     port_step P 0 t (t\<lparr>th_fl := snd (receive e sw msg (th_fl t))\<rparr>)"
| departure: "port_step P 0 t (t\<lparr>th_fl := removedSwitch sw (th_fl t)\<rparr>)"

text \<open>The states of runs that assigned \<open>n\<close> ports and whose states all satisfy \<open>X\<close>.\<close>

definition threads_init :: fl_threads where
  "threads_init = \<lparr>th_fl = fl_init, pcs = (\<lambda>_. Idle), list_no = (\<lambda>_. 0)\<rparr>"

inductive port_run :: "(fl_threads \<Rightarrow> bool) \<Rightarrow> (OFVendor \<Rightarrow> bool) \<Rightarrow> nat \<Rightarrow> fl_threads \<Rightarrow> bool" for X P where
  run_start: "port_run X P 0 threads_init"
| run_step: "port_run X P n t \<Longrightarrow> port_step P d t t' \<Longrightarrow> X t' \<Longrightarrow> port_run X P (n + d) t'"

definition later :: "(OFVendor \<Rightarrow> bool) \<Rightarrow> fl_threads \<Rightarrow> fl_threads \<Rightarrow> bool" where
  "later P = (\<lambda>t t'. \<exists>d. port_step P d t t')\<^sup>*\<^sup>*"

text \<open>No two requests for one destination are between the read of its counter and the write.\<close>

definition exclusive :: "fl_threads \<Rightarrow> bool" where
  "exclusive t \<longleftrightarrow> (\<forall>sw sw' m v p m' v' p'. pcs t sw = Fetched m v p \<and> pcs t sw' = Fetched m' v' p' \<and> port_key m = port_key m' \<longrightarrow> sw = sw')"

lemmas step_defs = at_pc_def put_list_def put_port_def add_entry_def answer_port_def sw_write_def Let_def

lemma laterI: "port_step P d t t' \<Longrightarrow> later P t' u \<Longrightarrow> later P t u"
  unfolding later_def by (rule converse_rtranclp_into_rtranclp) auto

lemma later_refl [simp]: "later P t t"
  by (simp add: later_def)

text \<open>Without interference, the sections are the handler.\<close>

lemma listed_finishes:
  assumes "pcs u sw = Listed m v" "q = next_port (port_key m) (th_fl u)"
    "w = add_entry (sta_key m) v (new_entry m q) (at_pc sw (Stored m v q) (put_port (port_key m) q u))"
  shows "later P u (at_pc sw Idle (w\<lparr>th_fl := answer_port e sw m (new_entry m q) (th_fl w)\<rparr>))"
proof -
  let ?u1 = "at_pc sw (Fetched m v q) u" and ?u2 = "at_pc sw (Stored m v q) (put_port (port_key m) q u)"
  have 1: "port_step P 0 u ?u1" using get_port [OF assms(1), where P = P] assms(2) by simp
  have "port_step P 1 ?u1 (at_pc sw (Stored m v q) (put_port (port_key m) q ?u1))" by (rule set_port) (simp add: at_pc_def)
  then have 2: "port_step P 1 ?u1 ?u2" by (simp add: at_pc_def put_port_def)
  have 3: "port_step P 0 ?u2 (at_pc sw Idle (w\<lparr>th_fl := answer_port e sw m (new_entry m q) (th_fl w)\<rparr>))"
    by (rule answer [OF _ assms(3)]) (simp add: at_pc_def)
  show ?thesis by (rule laterI [OF 1 laterI [OF 2 laterI [OF 3 later_refl]]])
qed

lemma handler_new:
  assumes "natTable s (sta_key m) = es" "List.find (same_flow m) (case es of None \<Rightarrow> [] | Some l \<Rightarrow> l) = None" "p = next_port (port_key m) s"
  shows "handlePortTranslation e sw m s = answer_port e sw m (new_entry m p) (s\<lparr>portMap := (portMap s)(port_key m \<mapsto> p),
    natTable := (natTable s)(sta_key m \<mapsto> (case es of None \<Rightarrow> [] | Some l \<Rightarrow> l) @ [new_entry m p])\<rparr>)"
  using assms by (simp add: handlePortTranslation_def Let_def sta_key_def port_key_def new_entry_def answer_port_def)

lemma handler_known:
  assumes "natTable s (sta_key m) = Some es" "List.find (same_flow m) es = Some en"
  shows "handlePortTranslation e sw m s = answer_port e sw m en s"
  using assms by (simp add: handlePortTranslation_def Let_def sta_key_def answer_port_def)

lemma request_sections:
  assumes "pcs t sw = Idle"
  shows "\<exists>l. later P t (t\<lparr>list_no := l, th_fl := handlePortTranslation e sw m (th_fl t)\<rparr>)"
proof -
  let ?h = "handlePortTranslation e sw m (th_fl t)" and ?p = "next_port (port_key m) (th_fl t)"
  have pcs: "(pcs t)(sw := Idle) = pcs t" using assms by auto
  consider "natTable (th_fl t) (sta_key m) = None" | es where "natTable (th_fl t) (sta_key m) = Some es" "List.find (same_flow m) es = None"
    | es en where "natTable (th_fl t) (sta_key m) = Some es" "List.find (same_flow m) es = Some en" by (meson option.exhaust)
  then show ?thesis
  proof cases
    case 1
    let ?u = "at_pc sw (Asked m) t" and ?v = "Suc (list_no t (sta_key m))"
    let ?w = "at_pc sw (Listed m ?v) (put_list (sta_key m) ?u)"
    have a: "port_step P 0 t ?u" using assms 1 by (rule no_list)
    have b: "port_step P 0 ?u ?w" using new_list [of ?u sw m P] by (simp add: at_pc_def)
    have q: "?p = next_port (port_key m) (th_fl ?w)" by (simp add: at_pc_def put_list_def next_port_def)
    show ?thesis
      using laterI [OF a laterI [OF b listed_finishes [of ?w sw m ?v ?p, OF _ q refl]]] handler_new [OF 1, of ?p e sw] pcs
      by (intro exI [of _ "(list_no t)(sta_key m := ?v)"]) (simp add: step_defs)
  next
    case (2 es)
    let ?v = "list_no t (sta_key m)"
    let ?w = "at_pc sw (Listed m ?v) t"
    have a: "port_step P 0 t ?w" using assms 2 by (rule unknown)
    have q: "?p = next_port (port_key m) (th_fl ?w)" by (simp add: at_pc_def next_port_def)
    show ?thesis
      using laterI [OF a listed_finishes [of ?w sw m ?v ?p, OF _ q refl]] handler_new [OF 2(1), of ?p e sw] 2 pcs
      by (intro exI [of _ "list_no t"]) (simp add: step_defs)
  next
    case (3 es en)
    have "port_step P 0 t (t\<lparr>list_no := list_no t, th_fl := ?h\<rparr>)"
      using known [OF assms 3, where P = P and e = e] handler_known [OF 3, of e sw] by simp
    then show ?thesis using laterI later_refl by blast
  qed
qed

lemma other_messages:
  assumes "no_nat_update msg" "\<And>m. of_vendorData msg \<noteq> NATMessageExt m"
  shows "natTable (snd (receive e sw msg s)) = natTable s \<and> portMap (snd (receive e sw msg s)) = portMap s"
  by (rule receive_induct [where Q = "\<lambda>s'. natTable s' = natTable s \<and> portMap s' = portMap s"])
    (use assms handleAPRSSI_tables in \<open>auto simp: no_nat_update_def handleAuthReq_def handleAssocReq_def handleReassocReq_def handleDeauthReq_def\<close>)

section \<open>Ports of one destination\<close>

text \<open>Ports are counted from the first that is handed out.\<close>

definition port_no :: "u16 \<Rightarrow> nat" where
  "port_no p = unat (p - 49152)"

lemma port_no_next: "port_no p + 1 < 65536 \<Longrightarrow> port_no (p + 1) = port_no p + 1"
proof -
  assume "port_no p + 1 < 65536"
  moreover have "p + 1 - 49152 = (p - 49152) + 1" by simp
  ultimately show ?thesis unfolding port_no_def by (simp only:) (subst unat_add_lem [THEN iffD1]; simp)
qed

text \<open>A port belongs to a station, in whose list it is, or to the thread that has taken it and not yet entered it.\<close>

definition owns :: "fl_threads \<Rightarrow> string + nat \<Rightarrow> NATMap \<Rightarrow> bool" where
  "owns t x en \<longleftrightarrow> (case x of Inl sta \<Rightarrow> entry_of (th_fl t) sta en | Inr sw \<Rightarrow> \<exists>m v p. pcs t sw = Stored m v p \<and> en = new_entry m p)"

definition ports_ok :: "nat \<Rightarrow> fl_threads \<Rightarrow> bool" where
  "ports_ok n t \<longleftrightarrow> (\<forall>k q. portMap (th_fl t) k = Some q \<longrightarrow> port_no q < n) \<and>
     (\<forall>x en. owns t x en \<longrightarrow> (\<exists>q. portMap (th_fl t) (dest en) = Some q \<and> port_no (me_newPort en) \<le> port_no q)) \<and>
     (\<forall>x en y en'. owns t x en \<and> owns t y en' \<and> dest en = dest en' \<and> me_newPort en = me_newPort en' \<longrightarrow> x = y \<and> en = en') \<and>
     (\<forall>sw m v p. pcs t sw = Fetched m v p \<longrightarrow> p = next_port (port_key m) (th_fl t))"

lemma ports_okD:
  assumes "ports_ok n t"
  shows "portMap (th_fl t) k = Some q \<Longrightarrow> port_no q < n"
    "owns t x en \<Longrightarrow> \<exists>q. portMap (th_fl t) (dest en) = Some q \<and> port_no (me_newPort en) \<le> port_no q"
    "owns t x en \<Longrightarrow> owns t y en' \<Longrightarrow> dest en = dest en' \<Longrightarrow> me_newPort en = me_newPort en' \<Longrightarrow> x = y \<and> en = en'"
    "pcs t sw = Fetched m v p \<Longrightarrow> p = next_port (port_key m) (th_fl t)"
  using assms unfolding ports_ok_def by blast+

lemma new_entry_simps [simp]: "dest (new_entry m p) = port_key m" "me_newPort (new_entry m p) = p" "same_flow m (new_entry m p)"
  by (simp_all add: dest_def new_entry_def port_key_def same_flow_def)

text \<open>A step that takes no port and gives none to another owner.\<close>

lemma ports_ok_sub:
  assumes "ports_ok n t" "portMap (th_fl t') = portMap (th_fl t)" "\<And>x en. owns t' x en \<Longrightarrow> owns t x en"
    "\<And>sw m v p. pcs t' sw = Fetched m v p \<Longrightarrow> pcs t sw = Fetched m v p \<or> p = next_port (port_key m) (th_fl t)"
  shows "ports_ok n t'"
proof -
  have "next_port k (th_fl t') = next_port k (th_fl t)" for k by (simp add: next_port_def assms(2))
  then have "p = next_port (port_key m) (th_fl t')" if "pcs t' sw = Fetched m v p" for sw m v p
    using assms(4) [OF that] ports_okD(4) [OF assms(1)] by auto
  then show ?thesis using ports_okD(1-3) [OF assms(1)] assms(3) unfolding ports_ok_def assms(2) by blast
qed

text \<open>The port a thread is about to take is above all that were taken.\<close>

lemma port_fresh:
  assumes "ports_ok n t" "n < 65536" "p = next_port k (th_fl t)"
  shows "port_no p \<le> n" "owns t x en \<Longrightarrow> dest en = k \<Longrightarrow> port_no (me_newPort en) < port_no p"
proof -
  consider "portMap (th_fl t) k = None" | q where "portMap (th_fl t) k = Some q" by blast
  then have "port_no p \<le> n \<and> (owns t x en \<and> dest en = k \<longrightarrow> port_no (me_newPort en) < port_no p)"
  proof cases
    case 1
    then have "port_no p = 0" using assms(3) by (simp add: next_port_def port_no_def)
    then show ?thesis using 1 ports_okD(2) [OF assms(1)] by fastforce
  next
    case (2 q)
    have "port_no q < n" by (rule ports_okD(1) [OF assms(1) 2])
    then have "port_no p = port_no q + 1" using 2 assms(2,3) by (simp add: next_port_def port_no_next)
    then show ?thesis using \<open>port_no q < n\<close> 2 ports_okD(2) [OF assms(1)] by fastforce
  qed
  then show "port_no p \<le> n" "owns t x en \<Longrightarrow> dest en = k \<Longrightarrow> port_no (me_newPort en) < port_no p" by auto
qed

lemma set_port_ok:
  assumes "ports_ok n t" "exclusive t" "n < 65536" "pcs t sw = Fetched m v p"
  shows "ports_ok (Suc n) (at_pc sw (Stored m v p) (put_port (port_key m) p t))" (is "ports_ok _ ?t")
proof -
  have p: "p = next_port (port_key m) (th_fl t)" by (rule ports_okD(4) [OF assms(1,4)])
  note fresh = port_fresh [OF assms(1,3) p]
  have own: "owns ?t x en \<longleftrightarrow> owns t x en \<or> x = Inr sw \<and> en = new_entry m p" for x en
    using assms(4) by (auto simp: owns_def step_defs entry_of_def split: sum.split)
  have map: "portMap (th_fl ?t) = (portMap (th_fl t))(port_key m \<mapsto> p)" by (simp add: step_defs)
  have new: False if "owns t x en" "dest en = port_key m" "me_newPort en = p" for x en
    using fresh(2) [OF that(1,2)] that(3) by simp
  show ?thesis
    unfolding ports_ok_def
  proof (intro conjI allI impI)
    show "port_no q < Suc n" if "portMap (th_fl ?t) k = Some q" for k q
      using that fresh(1) ports_okD(1) [OF assms(1), of k q] by (auto simp: map split: if_splits)
    show "\<exists>q. portMap (th_fl ?t) (dest en) = Some q \<and> port_no (me_newPort en) \<le> port_no q" if "owns ?t x en" for x en
      using that fresh(2) [of x en] ports_okD(2) [OF assms(1), of x en] unfolding own map by (cases "dest en = port_key m") (auto intro: less_imp_le)
    show "x = y" "en = en'" if "owns ?t x en \<and> owns ?t y en' \<and> dest en = dest en' \<and> me_newPort en = me_newPort en'" for x y en en'
      using that new ports_okD(3) [OF assms(1), of x en y en'] unfolding own by (metis new_entry_simps(1,2))+
    show "p' = next_port (port_key m') (th_fl ?t)" if r: "pcs ?t sw' = Fetched m' v' p'" for sw' m' v' p'
    proof -
      have r': "pcs t sw' = Fetched m' v' p'" "sw' \<noteq> sw" using r by (auto simp: step_defs split: if_splits)
      then have "port_key m' \<noteq> port_key m" using assms(2,4) unfolding exclusive_def by metis
      then show ?thesis using ports_okD(4) [OF assms(1) r'(1)] by (simp add: next_port_def map)
    qed
  qed
qed

lemma answer_ok:
  assumes "ports_ok n t" "pcs t sw = Stored m v p" "u = add_entry (sta_key m) v (new_entry m p) t"
  shows "ports_ok n (at_pc sw Idle (u\<lparr>th_fl := answer_port e sw m (new_entry m p) (th_fl u)\<rparr>))" (is "ports_ok _ ?t")
proof -
  have e: "owns t (Inr sw) (new_entry m p)" using assms(2) by (auto simp: owns_def)
  have own: "owns t x en \<and> x \<noteq> Inr sw \<or> x = Inl (sta_key m) \<and> en = new_entry m p" if "owns ?t x en" for x en
    using that by (auto simp: owns_def step_defs entry_of_def assms(3) split: sum.splits if_splits)
  have map: "portMap (th_fl ?t) = portMap (th_fl t)" by (simp add: step_defs assms(3))
  have pc: "pcs ?t = (pcs t)(sw := Idle)" by (simp add: step_defs assms(3))
  show ?thesis
    unfolding ports_ok_def
  proof (intro conjI allI impI)
    show "port_no q < n" if "portMap (th_fl ?t) k = Some q" for k q using that ports_okD(1) [OF assms(1)] by (simp add: map)
    show "\<exists>q. portMap (th_fl ?t) (dest en) = Some q \<and> port_no (me_newPort en) \<le> port_no q" if "owns ?t x en" for x en
      using own [OF that] e ports_okD(2) [OF assms(1)] unfolding map by blast
    show "x = y" "en = en'" if "owns ?t x en \<and> owns ?t y en' \<and> dest en = dest en' \<and> me_newPort en = me_newPort en'" for x y en en'
      using that own [of x en] own [of y en'] e ports_okD(3) [OF assms(1)] by blast+
    show "q = next_port (port_key m') (th_fl ?t)" if "pcs ?t sw' = Fetched m' v' q" for sw' m' v' q
      using that ports_okD(4) [OF assms(1), of sw' m' v' q] by (auto simp: pc next_port_def map split: if_splits)
  qed
qed

lemma ports_ok_step:
  assumes "port_step no_nat_update d t t'" "ports_ok n t" "exclusive t" "n + d \<le> 65536"
  shows "ports_ok (n + d) t'"
  using assms
proof (cases rule: port_step.cases)
  case (set_port sw m v p)
  then show ?thesis using set_port_ok [OF assms(2,3), of sw m v p] assms(4) by simp
next
  case (answer sw m v p u e)
  then show ?thesis using answer_ok [OF assms(2), of sw m v p u e] by simp
next
  case (message sw msg e)
  note f = other_messages [OF message(4) message(6), of e sw "th_fl t"]
  show ?thesis unfolding message(1,2) add_0_right
    by (rule ports_ok_sub [OF assms(2)]) (use f in \<open>auto simp: owns_def entry_of_def split: sum.splits\<close>)
next
  case (new_list sw m)
  show ?thesis unfolding new_list(1,2) add_0_right
    by (rule ports_ok_sub [OF assms(2)]) (auto simp: owns_def entry_of_def step_defs split: sum.splits if_splits)
qed ((simp, rule ports_ok_sub [OF assms(2)]); auto simp: owns_def entry_of_def step_defs split: sum.splits if_splits)+

lemma ports_ok_run:
  assumes "port_run exclusive no_nat_update n t" "n \<le> 65536"
  shows "ports_ok n t \<and> exclusive t"
  using assms
proof (induction rule: port_run.induct)
  case run_start
  show ?case by (simp add: ports_ok_def exclusive_def owns_def entry_of_def threads_init_def fl_init_def split: sum.split)
next
  case (run_step n t d t')
  then show ?case using ports_ok_step [of d t t' n] by simp
qed

section \<open>The port of a flow\<close>










section \<open>Properties\<close>

text \<open>C9. Ports tell flows apart, as long as requests for one destination do not overlap: in every state of a run of the
  controller in which at most 65536 ports were assigned, whatever the order in which the sections of concurrent requests
  and the other handlers ran, two flows to the same destination, of whatever stations, have different
  ports; provided that no two requests for one destination were ever between the read and the write of the
  destination's counter at once (nothing in the code prevents it) and that no access point announced
  translations of its own. As long as at most 16384 ports were assigned, every port is from 49152 on. (After
  that the counter, a short, passes 65535 and goes on at 0.)\<close>

theorem ports_unique:
  assumes "port_run exclusive no_nat_update n t" "n \<le> 65536" "entry_of (th_fl t) sta en"
  shows "(n \<le> 16384 \<longrightarrow> 49152 \<le> unat (me_newPort en)) \<and>
    (\<forall>sta' en'. entry_of (th_fl t) sta' en' \<and> dest en' = dest en \<and> me_newPort en' = me_newPort en \<longrightarrow> sta' = sta \<and> en' = en)"
proof -
  have ok: "ports_ok n t" using ports_ok_run [OF assms(1,2)] by simp
  have own: "owns t (Inl b) x \<longleftrightarrow> entry_of (th_fl t) b x" for b x by (simp add: owns_def)
  obtain q where q: "portMap (th_fl t) (dest en) = Some q" "port_no (me_newPort en) \<le> port_no q"
    using ports_okD(2) [OF ok, of "Inl sta" en] assms(3) own by blast
  have "port_no q < n" by (rule ports_okD(1) [OF ok q(1)])
  then have "49152 \<le> unat (me_newPort en)" if "n \<le> 16384"
  proof -
    have "unat (me_newPort en - 49152) < 16384" using \<open>port_no q < n\<close> that q(2) by (simp add: port_no_def)
    then have "unat ((me_newPort en - 49152) + 49152) = unat (me_newPort en - 49152) + 49152"
      by (subst unat_add_lem [THEN iffD1]) simp_all
    then show ?thesis by simp
  qed
  moreover have "sta' = sta \<and> en' = en" if "entry_of (th_fl t) sta' en'" "dest en' = dest en" "me_newPort en' = me_newPort en" for sta' en'
    using ports_okD(3) [OF ok, of "Inl sta'" en' "Inl sta" en] that assms(3) own by simp
  ultimately show ?thesis by blast
qed

text \<open>Two stations at two access points start a flow to one destination, and both requests have found no list and made one.\<close>

definition demo_station2 :: mac where
  "demo_station2 = MAC 2 0 0 0 0 2"

definition demo_port_request2 :: OFNATMessageExt where
  "demo_port_request2 = demo_port_request\<lparr>nm_staMacAddress := demo_station2, sourceIP := 0xC0A80503\<rparr>"

lemma demo_requests [simp]:
  "sta_key demo_port_request = mac_string demo_station" "sta_key demo_port_request2 = mac_string demo_station2"
  "demo_station \<noteq> demo_station2" "demo_station2 \<noteq> demo_station"
  "port_key demo_port_request = (0x08080808, 80)" "port_key demo_port_request2 = (0x08080808, 80)"
  "me_sourceIP (new_entry demo_port_request p) = 0xC0A80502" "me_sourceIP (new_entry demo_port_request2 p) = 0xC0A80503"
  by (simp_all add: sta_key_def port_key_def new_entry_def demo_port_request_def demo_port_request2_def demo_station_def demo_station2_def)

lemma overlapping_requests:
  assumes "\<And>t. (\<forall>sw m v p. pcs t sw \<noteq> Fetched m v p) \<Longrightarrow> X t"
  obtains t where "port_run X no_nat_update 0 t" "pcs t = (\<lambda>_. Idle)(1 := Listed demo_port_request 1, 2 := Listed demo_port_request2 1)"
    "natTable (th_fl t) = [mac_string demo_station \<mapsto> [], mac_string demo_station2 \<mapsto> []]" "portMap (th_fl t) = (\<lambda>_. None)"
    "list_no t (mac_string demo_station) = 1" "list_no t (mac_string demo_station2) = 1"
proof -
  define t1 where "t1 = at_pc 1 (Asked demo_port_request) threads_init"
  define t2 where "t2 = at_pc 2 (Asked demo_port_request2) t1"
  define t3 where "t3 = at_pc 1 (Listed demo_port_request (Suc (list_no t2 (sta_key demo_port_request)))) (put_list (sta_key demo_port_request) t2)"
  define t4 where "t4 = at_pc 2 (Listed demo_port_request2 (Suc (list_no t3 (sta_key demo_port_request2)))) (put_list (sta_key demo_port_request2) t3)"
  note d = t1_def t2_def t3_def t4_def threads_init_def fl_init_def step_defs
  have "port_step no_nat_update 0 threads_init t1" unfolding t1_def by (rule no_list) (simp_all add: d)
  moreover have "port_step no_nat_update 0 t1 t2" unfolding t2_def by (rule no_list) (simp_all add: d)
  moreover have "port_step no_nat_update 0 t2 t3" unfolding t3_def by (rule new_list) (simp add: d)
  moreover have "port_step no_nat_update 0 t3 t4" unfolding t4_def by (rule new_list) (simp add: d)
  moreover have "X t1" "X t2" "X t3" "X t4" by (rule assms; simp add: d)+
  ultimately have "port_run X no_nat_update 0 t4" using run_start [of X no_nat_update] run_step [where X = X and P = no_nat_update and n = 0 and d = 0] by simp metis
  then show thesis by (rule that) (simp_all add: d)
qed

theorem ports_unique_witness:
  "\<exists>t en en'. port_run exclusive no_nat_update 2 t \<and> entry_of (th_fl t) (mac_string demo_station) en \<and> entry_of (th_fl t) (mac_string demo_station2) en' \<and>
    dest en = dest en' \<and> me_newPort en = 49152 \<and> me_newPort en' \<noteq> 49152 \<and> 49152 \<le> unat (me_newPort en')"
proof -
  obtain t where t: "port_run exclusive no_nat_update 0 t" "pcs t = (\<lambda>_. Idle)(1 := Listed demo_port_request 1, 2 := Listed demo_port_request2 1)"
    "natTable (th_fl t) = [mac_string demo_station \<mapsto> [], mac_string demo_station2 \<mapsto> []]" "portMap (th_fl t) = (\<lambda>_. None)"
    "list_no t (mac_string demo_station) = 1" "list_no t (mac_string demo_station2) = 1"
    by (rule overlapping_requests [of exclusive]) (auto simp: exclusive_def)
  define t1 where "t1 = at_pc 1 (Fetched demo_port_request 1 49152) t"
  define t2 where "t2 = at_pc 1 (Stored demo_port_request 1 49152) (put_port (port_key demo_port_request) 49152 t1)"
  define t3 where "t3 = at_pc 2 (Fetched demo_port_request2 1 49153) t2"
  define t4 where "t4 = at_pc 2 (Stored demo_port_request2 1 49153) (put_port (port_key demo_port_request2) 49153 t3)"
  define u1 where "u1 = add_entry (sta_key demo_port_request) 1 (new_entry demo_port_request 49152) t4"
  define t5 where "t5 = at_pc 1 Idle (u1\<lparr>th_fl := answer_port demo_fl_env 1 demo_port_request (new_entry demo_port_request 49152) (th_fl u1)\<rparr>)"
  define u2 where "u2 = add_entry (sta_key demo_port_request2) 1 (new_entry demo_port_request2 49153) t5"
  define t6 where "t6 = at_pc 2 Idle (u2\<lparr>th_fl := answer_port demo_fl_env 2 demo_port_request2 (new_entry demo_port_request2 49153) (th_fl u2)\<rparr>)"
  note d = t1_def t2_def t3_def t4_def t5_def t6_def u1_def u2_def step_defs t(2-6)
  have x: "exclusive t1" "exclusive t2" "exclusive t3" "exclusive t4" "exclusive t5" "exclusive t6" by (auto simp: exclusive_def d split: if_splits)
  have "port_step no_nat_update 0 t t1" using get_port [of t 1 demo_port_request 1 no_nat_update] by (simp add: t1_def t(2,4) next_port_def)
  from run_step [OF t(1) this x(1)] have 1: "port_run exclusive no_nat_update 0 t1" by simp
  have "port_step no_nat_update 1 t1 t2" unfolding t2_def by (rule set_port) (simp add: t1_def at_pc_def)
  from run_step [OF 1 this x(2)] have 2: "port_run exclusive no_nat_update 1 t2" by simp
  have "port_step no_nat_update 0 t2 t3" using get_port [of t2 2 demo_port_request2 1 no_nat_update] by (simp add: t3_def) (simp add: d next_port_def)
  from run_step [OF 2 this x(3)] have 3: "port_run exclusive no_nat_update 1 t3" by simp
  have "port_step no_nat_update 1 t3 t4" unfolding t4_def by (rule set_port) (simp add: t3_def at_pc_def)
  from run_step [OF 3 this x(4)] have 4: "port_run exclusive no_nat_update 2 t4" by (simp add: numeral_2_eq_2)
  have "port_step no_nat_update 0 t4 t5" unfolding t5_def by (rule answer [OF _ u1_def]) (simp add: d)
  from run_step [OF 4 this x(5)] have 5: "port_run exclusive no_nat_update 2 t5" by simp
  have "port_step no_nat_update 0 t5 t6" unfolding t6_def by (rule answer [OF _ u2_def]) (simp add: d)
  from run_step [OF 5 this x(6)] have r: "port_run exclusive no_nat_update 2 t6" by simp
  let ?en = "new_entry demo_port_request 49152" and ?en' = "new_entry demo_port_request2 49153"
  have e: "entry_of (th_fl t6) (mac_string demo_station) ?en" "entry_of (th_fl t6) (mac_string demo_station2) ?en'" by (simp_all add: entry_of_def d)
  from ports_unique [OF r _ e(2)] show ?thesis using r e by (intro exI [of _ t6] exI [of _ ?en] exI [of _ ?en']) auto
qed

text \<open>Overlapping requests can give one port to two flows. \<open>handlePortTranslation\<close> is not synchronized: when the requests
  of two stations at two access points for one destination both read the counter before either writes it,
  both flows are entered with the same port, and both access points are told so.\<close>

theorem ports_collide:
  "\<exists>t en en'. port_run (\<lambda>_. True) no_nat_update 2 t \<and> (\<forall>sw. pcs t sw = Idle) \<and> demo_station \<noteq> demo_station2 \<and>
    entry_of (th_fl t) (mac_string demo_station) en \<and> entry_of (th_fl t) (mac_string demo_station2) en' \<and>
    dest en = dest en' \<and> me_newPort en = 49152 \<and> me_newPort en' = 49152 \<and>
    {(1, vendor_message (nat_add demo_station 0xC0A80502 en), True), (2, vendor_message (nat_add demo_station2 0xC0A80503 en'), True)} \<subseteq> set (writes (th_fl t))"
proof -
  let ?A = demo_port_request and ?B = demo_port_request2
  obtain t where t: "port_run (\<lambda>_. True) no_nat_update 0 t" "pcs t = (\<lambda>_. Idle)(1 := Listed ?A 1, 2 := Listed ?B 1)"
    "natTable (th_fl t) = [mac_string demo_station \<mapsto> [], mac_string demo_station2 \<mapsto> []]" "portMap (th_fl t) = (\<lambda>_. None)"
    "list_no t (mac_string demo_station) = 1" "list_no t (mac_string demo_station2) = 1"
    by (rule overlapping_requests [of "\<lambda>_. True"]) auto
  define t1 where "t1 = at_pc 1 (Fetched ?A 1 49152) t"
  define t2 where "t2 = at_pc 2 (Fetched ?B 1 49152) t1"
  define t3 where "t3 = at_pc 1 (Stored ?A 1 49152) (put_port (port_key ?A) 49152 t2)"
  define t4 where "t4 = at_pc 2 (Stored ?B 1 49152) (put_port (port_key ?B) 49152 t3)"
  define u1 where "u1 = add_entry (sta_key ?A) 1 (new_entry ?A 49152) t4"
  define t5 where "t5 = at_pc 1 Idle (u1\<lparr>th_fl := answer_port demo_fl_env 1 ?A (new_entry ?A 49152) (th_fl u1)\<rparr>)"
  define u2 where "u2 = add_entry (sta_key ?B) 1 (new_entry ?B 49152) t5"
  define t6 where "t6 = at_pc 2 Idle (u2\<lparr>th_fl := answer_port demo_fl_env 2 ?B (new_entry ?B 49152) (th_fl u2)\<rparr>)"
  note d = t1_def t2_def t3_def t4_def t5_def t6_def u1_def u2_def step_defs t(2-6)
  note run = run_step [where X = "\<lambda>_. True", OF _ _ TrueI]
  have "port_step no_nat_update 0 t t1" using get_port [of t 1 ?A 1 no_nat_update] by (simp add: t1_def t(2,4) next_port_def)
  from run [OF t(1) this] have 1: "port_run (\<lambda>_. True) no_nat_update 0 t1" by simp
  have "port_step no_nat_update 0 t1 t2" using get_port [of t1 2 ?B 1 no_nat_update] by (simp add: t2_def) (simp add: d next_port_def)
  from run [OF 1 this] have 2: "port_run (\<lambda>_. True) no_nat_update 0 t2" by simp
  have "port_step no_nat_update 1 t2 t3" unfolding t3_def by (rule set_port) (simp add: d)
  from run [OF 2 this] have 3: "port_run (\<lambda>_. True) no_nat_update 1 t3" by simp
  have "port_step no_nat_update 1 t3 t4" unfolding t4_def by (rule set_port) (simp add: d)
  from run [OF 3 this] have 4: "port_run (\<lambda>_. True) no_nat_update 2 t4" by (simp add: numeral_2_eq_2)
  have "port_step no_nat_update 0 t4 t5" unfolding t5_def by (rule answer [OF _ u1_def]) (simp add: d)
  from run [OF 4 this] have 5: "port_run (\<lambda>_. True) no_nat_update 2 t5" by simp
  have "port_step no_nat_update 0 t5 t6" unfolding t6_def by (rule answer [OF _ u2_def]) (simp add: d)
  from run [OF 5 this] have r: "port_run (\<lambda>_. True) no_nat_update 2 t6" by simp
  moreover have "\<forall>sw. pcs t6 sw = Idle" "demo_station \<noteq> demo_station2" by (simp_all add: d demo_station_def demo_station2_def)
  moreover have "entry_of (th_fl t6) (mac_string demo_station) (new_entry ?A 49152)" "entry_of (th_fl t6) (mac_string demo_station2) (new_entry ?B 49152)"
    by (simp_all add: entry_of_def d)
  moreover have "nm_staMacAddress ?A = demo_station" "nm_staMacAddress ?B = demo_station2" by (simp_all add: demo_port_request2_def demo_port_request_def)
  then have "{(1, vendor_message (nat_add demo_station 0xC0A80502 (new_entry ?A 49152)), True),
      (2, vendor_message (nat_add demo_station2 0xC0A80503 (new_entry ?B 49152)), True)} \<subseteq> set (writes (th_fl t6))"
    by (simp add: d) (simp add: demo_fl_env_def)
  ultimately show ?thesis by (intro exI [of _ t6] exI [of _ "new_entry ?A 49152"] exI [of _ "new_entry ?B 49152"]) simp
qed



end
