(* ===== verification/Spec2Isabelle.thy ===== *)
theory Spec2Isabelle
  imports Gw_Controller Ap_System Fl_Ports
begin

text \<open>
  Handover: a wireless network whose handovers an OpenFlow controller decides. A station that moves is taken from
  one access point to another without a new association, and its flows keep their translated ports.

  \<^bold>\<open>Parts.\<close> The gateway (src/Gateway/gatewayNAT.c) translates between the network and the outside and learns at
  which access point a flow is. The access points run a changed hostapd (src/hostapd-2.8): ofSwitchAP/controller_interface.c
  translates the packets of the stations to ports that the controller assigns, keeps a list of the stations it hears, reports to
  the controller, and carries out its messages; ap/ieee802_11.c and ap/sta_info.c keep the stations of hostapd itself. A Click
  element (src/click/elements/wifi/PrintSignalStrength.cc) tells hostapd how strongly stations are heard. The controller is a
  module of Floodlight (net/floodlightcontroller/ofSwitchAP, with the vendor messages of org/openflow/protocol). They talk by
  OpenFlow vendor messages, and the model composes them in bytes.

  \<^bold>\<open>Conventions.\<close> C code is a function of its state with a result \<open>'a res\<close>: \<open>Inl\<close> is how it stops (an access out of bounds, a
  null or freed pointer, \<open>exit\<close>, a loop that does not end), \<open>Inr\<close> its value. Java code has its exceptions in the same
  place. Loops over pointers are partial functions, whose end is a lemma; the other loops are total functions. Memory is byte
  lists with checked reads and writes, words have their width, host order is little-endian. The endless loops of threads are
  functions of the list of what their iterations meet. Heap lists are chains of cells (Chains). What the C library,
  the kernel, libnetfilter_queue, the sockets or the netty buffer decide is an argument, in an environment record or a
  parameter; a property that relies on the netty buffer assumes \<open>big_endian\<close>, that it writes network order, and its
  witness has the concrete \<open>network_buffer\<close>. Threads that were started are in pools of the state, and run when a
  step runs them.

  \<^bold>\<open>Concurrency.\<close> A handler is a function, and in the step relations \<open>gw_step\<close>, \<open>ap_step\<close> and \<open>fl_reach\<close> a whole run of it is one
  step. That is what the code does where a handler holds the lock of what it changes, as the synchronized handlers of the
  controller's module do. It is a restriction where the code has no such lock, and there the properties say that they
  are about handlers that do not overlap: hostapd's stations are changed by its event loop and by the thread of the
  controller without a lock, and \<open>process_sta_data\<close> and the handlers of frames test the status of a station and act on it in separate
  critical sections. Three routines whose sections are too short for their purpose are also modelled section by
  section, under every interleaving, with what remains true and what can go wrong: \<open>addEntry\<close> of the gateway (Gw_Nat: a flow can be entered
  twice), \<open>addSTA\<close> of the access point (Ap_Sta_Threads: a station can be entered twice, and the limit be passed) and
  \<open>handlePortTranslation\<close> of the controller, which is not synchronized (Fl_Ports: two flows can get one port).

  \<^bold>\<open>Shared theories.\<close> Prelude (results, words, byte order, buffers, addresses); Chains, Keyed_Table, Chain_Sweep, Chain_Mset
  (chained hash tables: what a chain represents, lookup and insertion as a locale over a key, the sweep that unlinks while it
  walks, the multiset of the items); Layout (the layout of C structs by the ABI, and that it is sound); Openflow (every
  struct and enumeration of openflow.h, nicira-ext.h, nicira-new.h and ofSwitchAP.h, with the size assertions they make); Checksum and
  Packet (header fields, checksums, the rewriting of addresses); Netfilter (what the packet queues promise).

  \<^bold>\<open>Gateway.\<close> Gw_Nat: the table (\<open>lookupNatMap\<close>, \<open>addEntry\<close>, the learning of a flow), a refinement of a finite map, and the
  interleavings of \<open>addEntry\<close>. Gw_Packet: \<open>handle_pkt\<close> and \<open>recvPkt\<close>; a reply goes to the access point that the flow
  was learned at. Of_Channel: the connection to the controller, shared with the access points. Gw_Controller: the handlers,
  \<open>main\<close> and the threads, with the invariant of every reachable state.

  \<^bold>\<open>Access point.\<close> Ap_Nat, Port_Rewrite and Ap_Packet: the tables of flows and ports, the packet path, the packets that wait
  for a port and their reinjection. Ap_Sta: the station list; Ap_Sta_Threads: concurrent calls of \<open>addSTA\<close>. Hap_Sta and Hap_Inv: the stations of hostapd, \<open>add_STA\<close> and
  \<open>remove_STA\<close>, and the invariant that ties its counters to them. Ap_State: the state of an access point and the messages it
  starts. Ap_Report: the threads that report frames and strengths. Ap_Flow: flow modifications and tunnels. Ap_Signal: the
  Click element and \<open>data_frames_rssi\<close>. Ap_Controller: the messages of the controller, start and end. Hap_Elems: the elements
  of an association request and their checks. Hap_Frames: the handlers of management frames, from the frame to the report
  they start, the acknowledgements and the inactivity timer. Hap_Mgmt: what each handler may do and what may stop it, as
  lemmas on outcomes (\<open>runs\<close>), up to the edges along which a frame moves the status of its sender. Hap_Assoc: an association
  from the elements to the report, and where the station list and hostapd part. Ap_System: all of these as one step relation, and
  the invariant of every state it reaches, handlers running one after another.

  \<^bold>\<open>Controller.\<close> Fl_Messages: the message classes and the vendor messages, as codecs (a locale, interpreted for every
  class). Fl_Wire: what the C programs write is what these classes read, and the reverse. Fl_Switch: the module. Fl_Inv:
  invariants of its reachable states (a locale \<open>module_invariant\<close>, interpreted for the pairs). Fl_Handover: when a handover
  is decided and what is sent. Fl_Ports: concurrent requests for ports, when flows have different ports, and that a flow keeps its port.

  \<^bold>\<open>This theory\<close> composes them: a handover end to end in bytes, why the gateway does not follow it, a flow that gets its port,
  and a strength that reaches the controller.

  \<^bold>\<open>Bounds.\<close> There is no fuel. The loop over a buffer of events and the walk over actions end by a measure or are shown to end
  for well-formed input (the latter does not at an action of length 0). Tables have the 255 heads of the code, so that an index of
  255 is an access out of bounds and a hypothesis of properties that need it not to happen. Counters of ports wrap at 16 bits, and
  the property about them says for how many assigned ports they do not.

  \<^bold>\<open>Not modelled.\<close> The rest of hostapd (drivers, EAP, RADIUS, WPA, configuration, the event loop), of Floodlight and of Click is
  third-party code that the handover does not change; where a modelled function calls it, the call is an event in
  a log, and its result a field of the environment. In the module of the controller, \<open>sendFlowModMessage\<close> and \<open>findHomeAP\<close> have
  no callers. Buffers and timers that \<open>ap_free_sta\<close> releases beside the station, and logging, have no counterpart.
  Management frames are those of the build of hostapd/.config with the configuration of hostapd/hostapd.conf, without WPA: of
  beacons, probe requests and action frames only that they arrive is modelled, of the association response
  only that it is sent and with which status, and the callbacks of deauthentications that the command line starts are left out. The
  reports run as single steps, so that a report whose station was freed before it ran is a step that does not end (a read of
  freed memory). What Java's lists do under simultaneous access (an exception of the iterator, a lost \<open>add\<close>), and what C programs do in
  a data race, is not modelled. The scripts that configure interfaces and start the programs are not modelled.
\<close>

section \<open>A handover, end to end\<close>

text \<open>C1. A handover, end to end and in bytes, whether or not a gateway is connected. The old access point answers the
  controller's question about a station; the controller reads the answer, finds that the alternative it knows hears
  the station better, and writes, in this order, the station's translations to the new access point, the order
  to remove the station to the old one, the station's data to the new one and, when a gateway is connected, the
  translations with the address of the new access point to the gateway, and nothing else. The message to the
  old access point makes it forget the station and remove it from hostapd; the message to the new one makes it record
  the station as associated and admit it to hostapd, authenticated and associated, with the capabilities, listen interval
  and rates that the station was associated with before.

  It is assumed that the controller's writes succeed and, when a gateway is connected, that the text of the new access
  point's address is one the controller can read (otherwise the handler throws before it writes to the gateway); that the
  controller has the rates of the station's association, 32 bytes of which at most 32 are used; that both access
  points are connected and know the station, with station lists and hostapd tables in order; that the old one has
  memory for its answer; and that the new one has the station's authentication algorithm enabled and either has
  the station in hostapd or can add it.\<close>

theorem handover_complete:
  assumes "big_endian nt" "STAAPRSSIList s (mac_string a) = Some ap" "lookupSenderSTAAP (mac_string a) (mac_string b) s = Some staAP"
    "write_ok e = (\<lambda>_. True)" "newSw = new_switch (mac_string a) ap s" "gwSwitch s \<noteq> None \<longrightarrow> peer_address e newSw = Inr ip"
    "es = (case natTable s (mac_string a) of None \<Rightarrow> [] | Some es \<Rightarrow> es)"
    "sa_supported_rates staAP = Some rates" "length rates = 32" "unat (sa_supported_rates_len staAP) \<le> 32"
    and old: "ap_controller so = Live co" "conn_mac co = Some b" "staList so = Live lo" "stas_ok no lo" "calloc_ok eo = (\<lambda>_. True)" "MAC_HASH a < no"
      "sta_abs lo a = Some io" "hap_inv (ap_hapd so)" "sint (lastReceivedSignalStrength io) < sint (ai_rssi ap)"
    and new: "ap_controller sn = Live cn" "staList sn = Live ln" "stas_ok nn ln" "hap_inv (ap_hapd sn)" "sta_abs ln a = Some i"
      "auth_alg_ok conf (sa_auth_alg staAP)" "drv_sta_add_ret (hap_results en) = 0"
      "hap_abs (ap_hapd sn) a \<noteq> None \<or>
         hap_num_sta (ap_hapd sn) < int (conf_max_num_sta conf) \<and> zalloc_ok (hap_results en) \<and> accounting_id (hap_results en) \<ge> 0"
  shows "\<exists>ans so1 msg s' rem upd lo' ho ln' hn x.
     ap_process_controller_msg eo conf' (wlan_request exp_type.WLAN_LAST_REC_POW xid (mac_bytes a) @ ro) so = Inr so1 \<and>
     so1 = so\<lparr>ap_controller := Live (reply eo ans co)\<rparr> \<and>
     readFrom_OFVendor nt ans = Inr (msg, []) \<and> receive e sw msg s = (Inr STOP, s') \<and>
     writes s' = writes s @ map (\<lambda>en. (newSw, vendor_message (nat_add a (me_sourceIP en) en), True)) es @
       [(sw, vendor_message (remove_sta a), True), (newSw, vendor_message (update_sta_add a staAP), True)] @
       (case gwSwitch s of None \<Rightarrow> [] | Some gw \<Rightarrow> map (\<lambda>en. (gw, vendor_message (nat_add a ip en), True)) es) \<and>
     writeTo_OFVendor nt (vendor_message (remove_sta a)) = Inr rem \<and>
     ap_process_controller_msg eo conf' (rem @ ro) so1 = Inr (so1\<lparr>staList := Live lo', ap_hapd := ho\<rparr>) \<and>
     map_option si_status (sta_abs lo' a) = Some STAStatus.NOT_AUTHENTICATED \<and> hap_abs ho a = None \<and>
     writeTo_OFVendor nt (vendor_message (update_sta_add a staAP)) = Inr upd \<and>
     ap_process_controller_msg en conf (upd @ rn) sn = Inr (sn\<lparr>staList := Live ln', ap_hapd := hn\<rparr>) \<and>
     map_option si_status (sta_abs ln' a) = Some STAStatus.ASSOCIATED \<and> hap_abs hn a = Some x \<and>
     bit (sta_flags x) 0 \<and> bit (sta_flags x) 1 \<and> bit (sta_flags x) 15 \<and>
     sta_capability x = sa_capability staAP \<and> sta_listen_interval x = sa_listen_interval staAP \<and>
     take (unat (sa_supported_rates_len staAP)) (sta_supported_rates x) = take (unat (sa_supported_rates_len staAP)) rates"
proof -
  let ?ans = "ap_msg eo exp_type.WLAN_AP_REC_POW (mac_bytes a @ mac_bytes b @ [lastReceivedSignalStrength io])" and ?u = "update_of staAP rates"
  define so1 where "so1 = so\<lparr>ap_controller := Live (reply eo ?ans co)\<rparr>"
  have 1: "ap_process_controller_msg eo conf' (wlan_request exp_type.WLAN_LAST_REC_POW xid (mac_bytes a) @ ro) so = Inr so1"
    using rssi_answer [OF old(1-6)] old(7) by (simp add: wlan_request_dispatch sta_body_reads so1_def)
  obtain msg s' where 2: "readFrom_OFVendor nt ?ans = Inr (msg, [])" "receive e sw msg s = (Inr STOP, s')"
    "writes s' = writes s @ log (handover_messages a sw newSw (map_option (\<lambda>g. (g, ip)) (gwSwitch s)) es staAP)"
    by (rule answer_moves_station [OF assms(1-6) old(9) assms(7)])
  have w: "writes s' = writes s @ map (\<lambda>en. (newSw, vendor_message (nat_add a (me_sourceIP en) en), True)) es @
       [(sw, vendor_message (remove_sta a), True), (newSw, vendor_message (update_sta_add a staAP), True)] @
       (case gwSwitch s of None \<Rightarrow> [] | Some gw \<Rightarrow> map (\<lambda>en. (gw, vendor_message (nat_add a ip en), True)) es)"
    unfolding 2(3) by (simp add: handover_messages_def log_def comp_def split: option.split)
  obtain lo' ho where 3: "ap_process_controller_msg eo conf' (wlan_request exp_type.WLAN_REMOVE_STA 0 (mac_bytes a) @ ro) so1 =
      Inr (so1\<lparr>staList := Live lo', ap_hapd := ho\<rparr>)" "map_option si_status (sta_abs lo' a) = Some STAStatus.NOT_AUTHENTICATED" "hap_abs ho a = None"
    using lets_go [of so1 "reply eo ?ans co" lo no a eo conf' 0 ro] old(3,4,6-8) by (auto simp: so1_def)
  have u: "length (up_rates ?u) = 32" "unat (up_rates_len ?u) \<le> 32" "up_auth_alg ?u = sa_auth_alg staAP"
    using assms(9,10) by (simp_all add: update_of_def)
  obtain ln' hn x where 4: "ap_process_controller_msg en conf (wlan_request exp_type.WLAN_UPDATE_STA_ADD 0 (update_body a ?u) @ rn) sn =
      Inr (sn\<lparr>staList := Live ln', ap_hapd := hn\<rparr>)" "sta_abs ln' a = Some (updated ?u i)" "hap_abs hn a = Some x" "admitted (updated ?u i) x"
    using takes_over [OF new(1-5) u(1,2), of conf en 0 rn] new(6-8) u(3) by auto
  obtain q where "info_ok i" by (rule known_sta [OF new(3,5)])
  then have "take (unat (sa_supported_rates_len staAP)) (si_supported_rates (updated ?u i)) = take (unat (sa_supported_rates_len staAP)) rates"
    using assms(9,10) by (simp add: updated_def update_of_def info_ok_def splice_def)
  then have 5: "sta_capability x = sa_capability staAP \<and> sta_listen_interval x = sa_listen_interval staAP \<and>
      take (unat (sa_supported_rates_len staAP)) (sta_supported_rates x) = take (unat (sa_supported_rates_len staAP)) rates"
    "bit (sta_flags x) 0" "bit (sta_flags x) 1" "bit (sta_flags x) 15"
    using 4(4) by (simp_all add: admitted_def) (simp_all add: updated_def update_of_def)
  have "map_option si_status (sta_abs ln' a) = Some STAStatus.ASSOCIATED" using 4(2) by (simp add: updated_def set_status_def)
  then show ?thesis
    using 1 2(1,2) w 3 4(1,3) 5 remove_sta_bytes [OF assms(1), of a] update_sta_bytes [OF assms(1,8,9), of a] unfolding so1_def by blast
qed

text \<open>A gateway is connected, and the station has a flow with a port.\<close>

lemma demo_gateway_connected:
  obtains s ap i en where "fl_reach (\<lambda>_. True) 6 s" "STAAPRSSIList s (mac_string demo_addr) = Some ap" "ai_rssi ap = 50"
    "lookupSenderSTAAP (mac_string demo_addr) (mac_string demo_ap_mac) s = Some i" "new_switch (mac_string demo_addr) ap s = 2"
    "sa_auth_alg i = 0" "sa_capability i = 0x431" "sa_supported_rates i = Some (replicate 32 0)" "sa_supported_rates_len i = 4"
    "gwSwitch s = Some 9" "natTable s (mac_string demo_addr) = Some [en]" "me_newPort en = 49152"
proof -
  let ?m = "demo_port_request\<lparr>nm_staMacAddress := demo_addr\<rparr>"
  have ne: "demo_ap_mac \<noteq> demo_ap2" by (simp add: demo_ap_mac_def demo_ap2_def)
  obtain s0 ap i where s: "fl_reach (\<lambda>_. True) 4 s0" "STAAPRSSIList s0 (mac_string demo_addr) = Some ap" "ai_rssi ap = 50" "ai_sw ap = 2"
    "ai_apMACAddress ap = mac_string demo_ap2" "pairs s0 = [(mac_string demo_addr, mac_string demo_ap_mac) \<mapsto> i]" "sa_auth_alg i = 0" "sa_capability i = 0x431"
    "sa_supported_rates i = Some (replicate 32 0)" "sa_supported_rates_len i = 4" "natTable s0 = (\<lambda>_. None)" "portMap s0 = (\<lambda>_. None)"
    using demo_heard [OF ne, of demo_addr thesis] by blast
  define s1 where "s1 = s0\<lparr>gwSwitch := Some 9\<rparr>"
  define s2 where "s2 = handlePortTranslation demo_fl_env 1 ?m s1"
  note step = fl_received [where P = "\<lambda>_. True", OF _ demo_visits_all TrueI]
  have "snd (receive demo_fl_env 9 (vendor_message (WlanSTAMessage \<lparr>subtype = 100, sm_staMacAddress = demo_addr\<rparr>)) s0) = s1"
    by (simp add: receive_def vendor_message_def s1_def)
  then have "fl_reach (\<lambda>_. True) 5 s1" using step [OF s(1), of 9 "vendor_message (WlanSTAMessage \<lparr>subtype = 100, sm_staMacAddress = demo_addr\<rparr>)"] by simp
  moreover have "subtype ?m = 21" by (simp add: demo_port_request_def)
  ultimately have r: "fl_reach (\<lambda>_. True) 6 s2"
    using step [of 5 s1 1 "vendor_message (NATMessageExt ?m)"] by (simp add: receive_port_request s2_def)
  let ?en = "new_entry ?m 49152"
  have "natTable s2 (mac_string demo_addr) = Some [?en]" "gwSwitch s2 = Some 9" "STAAPRSSIList s2 = STAAPRSSIList s0" "pairs s2 = pairs s0"
    by (simp_all add: s2_def s1_def handlePortTranslation_def s(11,12) sw_write_def pairs_def next_port_def new_entry_def Let_def)
  moreover have "new_switch (mac_string demo_addr) ap s2 = 2" using s(4-6) calculation(4) ne by (simp add: new_switch_def lookupSenderSTAAP_pairs)
  ultimately show thesis using that [of s2 ap i ?en] r s by (simp add: lookupSenderSTAAP_pairs)
qed

theorem handover_complete_witness:
  "\<exists>ans so1 msg s s' rem upd lo' ho ln' hn x i en. fl_reach (\<lambda>_. True) 6 s \<and> gwSwitch s = Some 9 \<and> me_newPort en = 49152 \<and>
     ap_process_controller_msg demo_ctl_env demo_conf (wlan_request exp_type.WLAN_LAST_REC_POW 7 (mac_bytes demo_addr) @ zeroed 78)
       (demo_access_point demo_list (hapd_init 63)) = Inr so1 \<and>
     readFrom_OFVendor network_buffer ans = Inr (msg, []) \<and> receive demo_fl_env 1 msg s = (Inr STOP, s') \<and>
     writes s' = writes s @ [(2, vendor_message (nat_add demo_addr (me_sourceIP en) en), True), (1, vendor_message (remove_sta demo_addr), True),
       (2, vendor_message (update_sta_add demo_addr i), True), (9, vendor_message (nat_add demo_addr (ip_word (IP4 10 0 0 2)) en), True)] \<and>
     writeTo_OFVendor network_buffer (vendor_message (remove_sta demo_addr)) = Inr rem \<and>
     ap_process_controller_msg demo_ctl_env demo_conf (rem @ zeroed 78) so1 = Inr (so1\<lparr>staList := Live lo', ap_hapd := ho\<rparr>) \<and> hap_abs ho demo_addr = None \<and>
     writeTo_OFVendor network_buffer (vendor_message (update_sta_add demo_addr i)) = Inr upd \<and>
     ap_process_controller_msg demo_ctl_env demo_conf (upd @ zeroed 28) (demo_access_point demo_list (hapd_init 63)) =
       Inr ((demo_access_point demo_list (hapd_init 63))\<lparr>staList := Live ln', ap_hapd := hn\<rparr>) \<and>
     map_option si_status (sta_abs ln' demo_addr) = Some STAStatus.ASSOCIATED \<and> hap_abs hn demo_addr = Some x \<and> sta_capability x = 0x431"
proof -
  let ?s = "demo_access_point demo_list (hapd_init 63)"
  obtain s ap i en where s: "fl_reach (\<lambda>_. True) 6 s" "STAAPRSSIList s (mac_string demo_addr) = Some ap" "ai_rssi ap = 50"
    "lookupSenderSTAAP (mac_string demo_addr) (mac_string demo_ap_mac) s = Some i" "new_switch (mac_string demo_addr) ap s = 2"
    "sa_auth_alg i = 0" "sa_capability i = 0x431" "sa_supported_rates i = Some (replicate 32 0)" "sa_supported_rates_len i = 4"
    "gwSwitch s = Some 9" "natTable s (mac_string demo_addr) = Some [en]" "me_newPort en = 49152"
    by (rule demo_gateway_connected)
  have p: "gwSwitch s \<noteq> None \<longrightarrow> peer_address demo_fl_env 2 = Inr (ip_word (IP4 10 0 0 2))"
    by (rule impI, rule peer_address_eq [where port = "''6633''"]) code_simp
  have w: "write_ok demo_fl_env = (\<lambda>_. True)" "unat (sa_supported_rates_len i) \<le> 32" "length (replicate 32 (0 :: byte)) = 32"
    by (simp_all add: demo_fl_env_def s(9))
  have o: "ap_controller ?s = Live demo_ap_conn" "conn_mac demo_ap_conn = Some demo_ap_mac" "staList ?s = Live demo_list"
    "calloc_ok demo_ctl_env = (\<lambda>_. True)" "MAC_HASH demo_addr < 255" "hap_inv (ap_hapd ?s)" "ap_hapd ?s = hapd_init 63"
    using hap_inv_init by (simp_all add: demo_access_point_def demo_ap_conn_def demo_addr_def demo_ctl_env_def)
  have r: "sint (lastReceivedSignalStrength (new_infoSTA demo_addr)) < sint (ai_rssi ap)" by (simp add: s(3) new_infoSTA_def)
  have a: "auth_alg_ok demo_conf (sa_auth_alg i)" "drv_sta_add_ret (hap_results demo_ctl_env) = 0"
    "hap_abs (ap_hapd ?s) demo_addr \<noteq> None \<or> hap_num_sta (ap_hapd ?s) < int (conf_max_num_sta demo_conf) \<and> zalloc_ok (hap_results demo_ctl_env) \<and>
     accounting_id (hap_results demo_ctl_env) \<ge> 0"
    unfolding o(7) by (simp_all add: s(6) demo_conf_def demo_ctl_env_def demo_hap_env_def auth_alg_ok_def WLAN_AUTH_OPEN_def hapd_init_def)
  from handover_complete [OF big_endian_network_buffer s(2,4) w(1) s(5) [symmetric] p refl s(8) w(3,2) o(1-3) demo_list_ok(1) o(4,5) demo_list_ok(2) o(6) r
      o(1,3) demo_list_ok(1) o(6) demo_list_ok(2) a, of demo_conf 7 "zeroed 78" 1 "zeroed 28"]
  show ?thesis using s(1,7,12) unfolding s(10,11) by (elim exE conjE) (intro exI conjI; assumption?; simp add: s(10))
qed

text \<open>C8. The gateway keeps sending a moved station's traffic to the old access point. The announcement that the
  controller sends it for a translation of the station, with the address of the new access point, leaves
  the flow as the gateway sees it (from the translated port to the remote port), and the flow as the station sees it,
  where they were, whenever the station's port differs from the remote one: it records the new address for a flow
  from the station's port to the same port at the remote host.\<close>

theorem gateway_keeps_old_access_point:
  assumes "big_endian nt" "me_destinationIP en = ip_word dst" "me_sourcePort en \<noteq> me_destinationPort en"
    "nat_inv (entryList g)" "calloc_ok e sizeof_natMap" "HASH_FUNC dst \<noteq> 255" "length rest = 60"
  shows "\<exists>msg t. writeTo_OFVendor nt (vendor_message (nat_add a (ip_word new) en)) = Inr msg \<and>
    process_controller_msg e (msg @ rest) g = Inr (g\<lparr>entryList := t\<rparr>) \<and> nat_inv t \<and>
    (\<forall>p. nat_abs t (p, dst, htons (me_destinationPort en)) = nat_abs (entryList g) (p, dst, htons (me_destinationPort en))) \<and>
    nat_abs t (htons (me_sourcePort en), dst, htons (me_sourcePort en)) = Some new"
proof -
  let ?sp = "htons (me_sourcePort en)" and ?dp = "htons (me_destinationPort en)" and ?np = "htons (me_newPort en)"
  define oh where "oh = wlan_request exp_type.WLAN_NAT_ADD 0 (nat_body a (new, ?sp, dst, ?dp) ?np) @ rest"
  have len: "length oh = STR_LEN" using assms(7) by (simp add: oh_def nat_body_def STR_LEN_def)
  have add: "is_nat_add oh"
    by (simp add: oh_def wlan_request_def of_msg_def is_nat_add_def vendor_of_def subtype_of_def bytes_expand enum_val_exp)
  have sl: "slice oh k n = slice (nat_body a (new, ?sp, dst, ?dp) ?np @ rest) (k - 16) n" if "16 \<le> k" for k n
  proof -
    have "drop k oh = drop (k - 16) (drop 16 oh)" using that by simp
    then show ?thesis by (simp add: slice_def oh_def drop_wlan_request del: drop_append drop_drop)
  qed
  have f: "slice oh 24 4 = ip4_bytes new" "slice oh 28 4 = ip4_bytes dst" "slice oh 32 2 = bytes16 ?sp" "slice oh 34 2 = bytes16 ?dp"
    by (simp_all add: sl) (simp_all add: nat_body_def slice_def)
  from nat_add_effect [OF len add assms(4,5) f(1,2) assms(6) f(3,4)]
  obtain t where t: "process_controller_msg e oh g = Inr (g\<lparr>entryList := t\<rparr>)" "nat_inv t" "nat_abs t = (nat_abs (entryList g))((?sp, dst, ?sp) \<mapsto> new)"
    by blast
  have "?sp \<noteq> ?dp" using assms(3) by (simp add: htons_def)
  then have "\<forall>p. nat_abs t (p, dst, ?dp) = nat_abs (entryList g) (p, dst, ?dp)" "nat_abs t (?sp, dst, ?sp) = Some new" using t(3) by auto
  then show ?thesis using t(1,2) nat_add_bytes [OF assms(1,2), of a new] unfolding oh_def by blast
qed

theorem gateway_keeps_old_access_point_witness:
  "\<exists>msg t. writeTo_OFVendor network_buffer (vendor_message (nat_add demo_addr (ip_word (IP4 10 0 0 2))
      \<lparr>me_sourceIP = ip_word (IP4 192 168 5 2), me_destinationIP = ip_word (IP4 8 8 8 8), me_sourcePort = 40000, me_destinationPort = 53,
       me_newPort = 49152\<rparr>)) = Inr msg \<and>
    process_controller_msg demo_of_env (msg @ zeroed 60) demo_gateway = Inr (demo_gateway\<lparr>entryList := t\<rparr>) \<and>
    nat_abs t (htons 49152, IP4 8 8 8 8, htons 53) = None \<and> nat_abs t (htons 40000, IP4 8 8 8 8, htons 40000) = Some (IP4 10 0 0 2)"
proof -
  let ?en = "\<lparr>me_sourceIP = ip_word (IP4 192 168 5 2), me_destinationIP = ip_word (IP4 8 8 8 8), me_sourcePort = 40000, me_destinationPort = 53,
    me_newPort = 49152\<rparr>"
  have g: "nat_inv (entryList demo_gateway)" "calloc_ok demo_of_env sizeof_natMap" "nat_abs (entryList demo_gateway) k = None" for k
    by (simp_all add: demo_gateway_def nat_inv_init nat_abs_init demo_of_env_def)
  have "me_destinationIP ?en = ip_word (IP4 8 8 8 8)" "me_sourcePort ?en \<noteq> me_destinationPort ?en" "HASH_FUNC (IP4 8 8 8 8) \<noteq> 255"
    "length (zeroed 60) = 60" by simp_all
  from gateway_keeps_old_access_point [OF big_endian_network_buffer this(1,2) g(1,2) this(3,4), of demo_addr "IP4 10 0 0 2"]
  show ?thesis using g(3) by (simp del: ip_word.simps) blast
qed

section \<open>A flow gets its port\<close>

text \<open>The controller answers the request of an access point, as bytes.\<close>

lemma request_answered:
  assumes "big_endian nt"
  obtains m fl' en where
    "readFrom_OFVendor nt (ap_msg e exp_type.WLAN_PORT_TRANSLATION (nat_body a (src, sp, dst, dp) np)) = Inr (m, [])"
    "receive fe sw m fl = (Inr STOP, fl')" "entry_of fl' (mac_string a) en"
    "writes fl' = writes fl @ [(sw, vendor_message (nat_add a (ip_word src) en), write_ok fe (length (writes fl)))]"
    "writeTo_OFVendor nt (vendor_message (nat_add a (ip_word src) en)) =
       Inr (wlan_request exp_type.WLAN_NAT_ADD 0 (nat_body a (src, sp, dst, dp) (htons (me_newPort en))))"
proof -
  define d where "d = \<lparr>subtype = wlan_subtype exp_type.WLAN_PORT_TRANSLATION, nm_staMacAddress = a, sourceIP = ip_word src,
    destinationIP = ip_word dst, sourcePort = ntohs sp, destinationPort = ntohs dp, newPort = ntohs np\<rparr>"
  have 1: "readFrom_OFVendor nt (ap_msg e exp_type.WLAN_PORT_TRANSLATION (nat_body a (src, sp, dst, dp) np)) =
      Inr (ap_vendor e 24 (NATMessageExt d), [])"
    using port_read [OF assms, of e a src sp dst dp np "[]"] by (simp add: d_def)
  have 2: "receive fe sw (ap_vendor e 24 (NATMessageExt d)) fl = (Inr STOP, handlePortTranslation fe sw d fl)"
    by (simp add: receive_def cast_def handle_def as_nat_ext_def ap_vendor_def d_def enum_val_exp)
  obtain en where en: "entry_of (handlePortTranslation fe sw d fl) (mac_string a) en" "same_flow d en"
    "writes (handlePortTranslation fe sw d fl) = writes fl @ [(sw, vendor_message (nat_add a (ip_word src) en), write_ok fe (length (writes fl)))]"
    using port_answer [of fe sw d fl] by (auto simp: d_def)
  then have f: "me_destinationIP en = ip_word dst" "htons (me_sourcePort en) = sp" "htons (me_destinationPort en) = dp"
    by (simp_all add: same_flow_def d_def)
  show thesis using that [OF 1 2 en(1,3)] nat_add_bytes [OF assms f(1), of a src] f(2,3) by simp
qed

text \<open>The access point enters the port, and the packet leaves when the thread runs.\<close>

lemma port_entered:
  fixes tb :: "'p ap_nfq_data_scheme"
  assumes "ap_inv s" "whole_packet tb" "in_subnet (ap_subnet s) (src_of (pkt tb))" "AP_HASH_FUNC (dst_of (pkt tb)) \<noteq> 255"
    "waiting (portQueue s) (AP_HASH_FUNC (dst_of (pkt tb))) = pd_of qh tb # ws"
    "\<forall>pd \<in> set ws. pd_flow pd = flow4_at (pkt tb) \<longrightarrow> wf_packet (pd_packet pd)" "calloc_ok e = (\<lambda>_. True)" "pthread_ok e"
  obtains s3 q v vs s4 where
    "ap_process_controller_msg e conf (wlan_request exp_type.WLAN_NAT_ADD 0 (nat_body a (flow4_at (pkt tb)) np) @ rest) s = Inr s3"
    "reinject_threads s3 = reinject_threads s @ [q]" "reinject_pkt q s3 = Inr ((qh, v) # vs, s4)"
    "accepts_translated 0 np 12 (ap_ifIP s) tb v"
    "\<forall>k < AP_MAXENTRY. \<forall>pd \<in> set (waiting (portQueue s4) k). pd_flow pd \<noteq> flow4_at (pkt tb)"
proof -
  let ?p = "pkt tb"
  obtain q t x n where t: "assign_port e (sport_of ?p) (src_of ?p) (dport_of ?p) (dst_of ?p) np (ap_entryList s) = Inr (Some q, t)"
    "ap_nat_inv t" "port_abs t = (port_abs (ap_entryList s))(flow4_at ?p \<mapsto> np)"
    "deref t q = Inr (Cell x n)" "flow4_of x = flow4_at ?p" "am_new_port x = np"
    using assign_port_outcome [where t = "ap_entryList s" and e = e and sp = "sport_of ?p" and s = "src_of ?p" and dp = "dport_of ?p"
        and d = "dst_of ?p" and np = np] assms(1,4,7) by (auto simp: ap_inv_def flow4_at_def split: sum.splits)
  define s3 where "s3 = s\<lparr>ap_entryList := t, reinject_threads := reinject_threads s @ [q]\<rparr>"
  have 1: "ap_process_controller_msg e conf (wlan_request exp_type.WLAN_NAT_ADD 0 (nat_body a (flow4_at ?p) np) @ rest) s = Inr s3"
    using assms(8) by (simp add: flow4_at_def handle_nat_add_eq t(1) s3_def spawn_def)
  have f: "ap_inv s3" "in_subnet (ap_subnet s3) (src_of ?p)" "deref (ap_entryList s3) q = Inr (Cell x n)"
    "port_abs (ap_entryList s3) (flow4_at ?p) = Some (am_new_port x)"
    "waiting (portQueue s3) (AP_HASH_FUNC (dst_of ?p)) = pd_of qh tb # ws" "ap_ifIP s3 = ap_ifIP s" "reinject_threads s3 = reinject_threads s @ [q]"
    using t(2-4,6) assms(1,3,5) by (simp_all add: s3_def ap_inv_def)
  show thesis
    by (rule waiting_leaves [OF f(1) assms(2) f(2) assms(4) f(3) t(5) f(4,5) assms(6), of e, unfolded f(6)])
      (rule that [OF 1 f(7)], assumption, simp add: t(6), assumption)
qed

text \<open>C2. A flow that starts at an access point gets its port, and the packet that started it leaves. The packet is held
  back and a thread is started; when it runs, it sends a request that the controller reads whole; the controller
  records a port for the flow and answers with one message to the access point that asked; its bytes make the access point
  enter that port and start another thread; and when that runs, the packet leaves with the access point's
  address and the port, and no packet of the flow waits any longer. This holds in every state of the controller, and of an
  access point whose tables are in order.\<close>

theorem port_assigned:
  assumes "big_endian nt" "ap_inv s" "ap_controller s = Live c" "whole_packet tb" "nfad_hw tb = Some hw"
    "in_subnet (ap_subnet s) (src_of (pkt tb))" "AP_HASH_FUNC (dst_of (pkt tb)) \<noteq> 255"
    "port_abs (ap_entryList s) (flow4_at (pkt tb)) = None"
    "\<forall>pd \<in> set (waiting (portQueue s) (AP_HASH_FUNC (dst_of (pkt tb)))). pd_flow pd = flow4_at (pkt tb) \<longrightarrow> wf_packet (pd_packet pd)"
    "calloc_ok e = (\<lambda>_. True)" "pthread_ok e"
  shows "\<exists>s1 s2 req m fl' en ans msg s3 q v vs s4.
    ap_handle_pkt e tb 0 qh s = Inr (None, s1) \<and> port_entry_threads s1 = port_entry_threads s @ [request_of hw (pkt tb)] \<and>
    send_nat_port_entry e (request_of hw (pkt tb)) s1 = Inr s2 \<and> ap_controller s2 = Live (reply e req c) \<and>
    readFrom_OFVendor nt req = Inr (m, []) \<and> receive fe sw m fl = (Inr STOP, fl') \<and> entry_of fl' (mac_string hw) en \<and>
    writes fl' = writes fl @ [(sw, ans, write_ok fe (length (writes fl)))] \<and> writeTo_OFVendor nt ans = Inr msg \<and>
    ap_process_controller_msg e conf (msg @ rest) s2 = Inr s3 \<and> reinject_threads s3 = reinject_threads s @ [q] \<and>
    reinject_pkt q s3 = Inr ((qh, v) # vs, s4) \<and> accepts_translated 0 (htons (me_newPort en)) 12 (ap_ifIP s) tb v \<and>
    (\<forall>k < AP_MAXENTRY. \<forall>pd \<in> set (waiting (portQueue s4) k). pd_flow pd \<noteq> flow4_at (pkt tb))"
proof -
  let ?p = "pkt tb" and ?h = "AP_HASH_FUNC (dst_of (pkt tb))"
  let ?k = "(src_of ?p, sport_of ?p, dst_of ?p, dport_of ?p)"
  have h: "?h < AP_MAXENTRY" using assms(7) AP_HASH_FUNC_bound by simp
  have pw: "payload_wf tb" "nfad_len tb \<le> int MAX_PACKET_SIZE" using assms(4) by (simp_all add: whole_packet_def)
  obtain pq where pq: "ap_handle_pkt e tb 0 qh s = Inr (None, s\<lparr>portQueue := pq,
      port_entry_threads := port_entry_threads s @ [request_of hw ?p]\<rparr>)" "pq_inv pq"
    "\<forall>k < AP_MAXENTRY. waiting pq k = (if k = ?h then pd_of qh tb # waiting (portQueue s) k else waiting (portQueue s) k)"
    using ap_out_new [OF pw(1) whole_packetD(2) [OF assms(4)] pw(2) assms(2,6) h assms(8) _ _ assms(5), of e qh] assms(10,11)
    by (auto simp: spawn_def)
  define s1 where "s1 = s\<lparr>portQueue := pq, port_entry_threads := port_entry_threads s @ [request_of hw ?p]\<rparr>"
  define req where "req = ap_msg e exp_type.WLAN_PORT_TRANSLATION (nat_body hw ?k 0)"
  define s2 where "s2 = s1\<lparr>ap_controller := Live (reply e req c)\<rparr>"
  have 2: "send_nat_port_entry e (request_of hw ?p) s1 = Inr s2"
    using send_nat_port_entry_eq [of s1 c e "request_of hw ?p"] assms(3,10) by (simp add: s1_def s2_def req_def request_of_def)
  obtain m fl' en where 3: "readFrom_OFVendor nt req = Inr (m, [])" "receive fe sw m fl = (Inr STOP, fl')" "entry_of fl' (mac_string hw) en"
    "writes fl' = writes fl @ [(sw, vendor_message (nat_add hw (ip_word (src_of ?p)) en), write_ok fe (length (writes fl)))]"
    "writeTo_OFVendor nt (vendor_message (nat_add hw (ip_word (src_of ?p)) en)) =
       Inr (wlan_request exp_type.WLAN_NAT_ADD 0 (nat_body hw ?k (htons (me_newPort en))))"
    unfolding req_def by (rule request_answered [OF assms(1)])
  have k: "flow4_at ?p = ?k" by (simp add: flow4_at_def)
  have f: "ap_inv s2" "in_subnet (ap_subnet s2) (src_of ?p)" "waiting (portQueue s2) ?h = pd_of qh tb # waiting (portQueue s) ?h"
    "ap_ifIP s2 = ap_ifIP s" "reinject_threads s2 = reinject_threads s"
    using assms(2,6) pq(2,3) h by (simp_all add: s1_def s2_def ap_inv_def)
  obtain s3 q v vs s4 where 4: "ap_process_controller_msg e conf
      (wlan_request exp_type.WLAN_NAT_ADD 0 (nat_body hw ?k (htons (me_newPort en))) @ rest) s2 = Inr s3"
    "reinject_threads s3 = reinject_threads s @ [q]" "reinject_pkt q s3 = Inr ((qh, v) # vs, s4)"
    "accepts_translated 0 (htons (me_newPort en)) 12 (ap_ifIP s) tb v"
    "\<forall>k < AP_MAXENTRY. \<forall>pd \<in> set (waiting (portQueue s4) k). pd_flow pd \<noteq> flow4_at ?p"
    unfolding k [symmetric] by (rule port_entered [OF f(1) assms(4) f(2) assms(7) f(3) assms(9-11), unfolded f(4,5)])
  have "port_entry_threads s1 = port_entry_threads s @ [request_of hw ?p]" "ap_controller s2 = Live (reply e req c)"
    by (simp_all add: s1_def s2_def)
  then show ?thesis using pq(1) [folded s1_def] 2 3 4 by blast
qed

theorem port_assigned_witness:
  "\<exists>s1 s2 m fl' en ans msg s3 q v vs s4.
    ap_handle_pkt demo_ctl_env (demo_ap_tb demo_query) 0 5 (demo_access_point demo_list (hapd_init 63)) = Inr (None, s1) \<and>
    send_nat_port_entry demo_ctl_env (request_of (MAC 2 0 0 0 0 1) demo_query) s1 = Inr s2 \<and>
    receive demo_fl_env 1 m fl_init = (Inr STOP, fl') \<and> entry_of fl' (mac_string (MAC 2 0 0 0 0 1)) en \<and> writes fl' = [(1, ans, True)] \<and>
    writeTo_OFVendor network_buffer ans = Inr msg \<and> ap_process_controller_msg demo_ctl_env demo_conf (msg @ zeroed 60) s2 = Inr s3 \<and>
    reinject_threads s3 = [q] \<and> reinject_pkt q s3 = Inr ((5, v) # vs, s4) \<and>
    accepts_translated 0 (htons (me_newPort en)) 12 (IP4 10 0 0 2) (demo_ap_tb demo_query) v"
proof -
  let ?s = "demo_access_point demo_list (hapd_init 63)" and ?tb = "demo_ap_tb demo_query"
  have p: "pkt ?tb = demo_query" "nfad_hw ?tb = Some (MAC 2 0 0 0 0 1)" by (simp_all add: demo_ap_tb_def)
  have n: "in_subnet (dotted3 (IP4 192 168 5 0)) (IP4 192 168 5 2)" by code_simp
  have s: "ap_inv ?s" "ap_controller ?s = Live demo_ap_conn" "in_subnet (ap_subnet ?s) (src_of (pkt ?tb))"
    "AP_HASH_FUNC (dst_of (pkt ?tb)) \<noteq> 255" "port_abs (ap_entryList ?s) (flow4_at (pkt ?tb)) = None" "ap_ifIP ?s = IP4 10 0 0 2"
    "reinject_threads ?s = []" "port_entry_threads ?s = []"
    using n by (simp_all add: demo_access_point_def ap_inv_def ap_nat_inv_init pq_inv_init port_abs_init demo_ap_addrs p)
  have w: "\<forall>pd \<in> set (waiting (portQueue ?s) (AP_HASH_FUNC (dst_of (pkt ?tb)))).
      pd_flow pd = flow4_at (pkt ?tb) \<longrightarrow> wf_packet (pd_packet pd)"
    by (simp add: demo_access_point_def waiting_def AP_MAXENTRY_def demo_ap_addrs p)
  have e: "calloc_ok demo_ctl_env = (\<lambda>_. True)" "pthread_ok demo_ctl_env" "writes fl_init = []" "write_ok demo_fl_env = (\<lambda>_. True)"
    by (simp_all add: demo_ctl_env_def fl_init_def demo_fl_env_def)
  from port_assigned [OF big_endian_network_buffer s(1,2) demo_ap_whole(1) p(2) s(3-5) w e(1,2), of 5 demo_fl_env 1 fl_init demo_conf "zeroed 60",
      unfolded s(6-8) e(3,4) p(1)]
  show ?thesis by (elim exE conjE) (intro exI conjI; assumption?; simp)
qed

section \<open>A station is heard\<close>

text \<open>C6. The strength of a data frame reaches the controller. Click writes the strength of a frame that a station sends to this
  access point to a file; the event of the file makes hostapd start a thread; when it runs, and the station is not associated
  here and was never heard as strongly, the access point reports exactly that strength, from exactly that station; and the
  controller, reading the report, takes this access point for the best alternative of the station, unless it
  knows one at least as strong, the strengths being compared as signed bytes there.\<close>

theorem signal_reaches_controller:
  assumes "big_endian nt" "ld8 (p_data p) 1 = Inr fc" "fc AND 3 = 1" "ld_mac (p_data p) 4 = Inr addr" "ld_mac (p_data p) 10 = Inr a"
    and s: "ap_controller s = Live c" "conn_mac c = Some b" "staList s = Live l" "stas_ok n l" "MAC_HASH a < n"
      "sta_abs l a \<noteq> None \<or> num_sta l < int n" "i = (case sta_abs l a of None \<Rightarrow> first_seen a | Some i \<Rightarrow> i)"
      "si_status i \<noteq> STAStatus.ASSOCIATED" "lastReceivedSignalStrength i < p_rssi p"
    and v: "ev_name v = unparse_dash a" "ev_mask v AND IN_CLOSE_WRITE \<noteq> 0" "1 \<le> ev_pad v" "ev_pad v \<le> 255"
    and e: "calloc_ok e = (\<lambda>_. True)" "pthread_ok e"
  shows "\<exists>fs' s1 l' s2 ans msg fl' ap. simple_action addr (\<lambda>_. True) p fs = Inr fs' \<and>
    rssi_round (e\<lparr>fopen_r := fs'\<rparr>) (Read (int (length (event_bytes v))) (event_bytes v @ post)) s = Inr s1 \<and>
    s1 = s\<lparr>sta_data_threads := sta_data_threads s @ [\<lparr>rh_rssi = p_rssi p, rh_mac = a\<rparr>]\<rparr> \<and>
    process_sta_data e n \<lparr>rh_rssi = p_rssi p, rh_mac = a\<rparr> s1 = Inr s2 \<and>
    s2 = s1\<lparr>staList := Live l', ap_controller := Live (reply e ans c)\<rparr> \<and>
    sta_abs l' = (sta_abs l)(a \<mapsto> i\<lparr>lastReceivedSignalStrength := p_rssi p\<rparr>) \<and>
    readFrom_OFVendor nt ans = Inr (msg, []) \<and> receive fe sw msg fl = (Inr STOP, fl') \<and>
    STAAPRSSIList fl' (mac_string a) = Some ap \<and>
    (case STAAPRSSIList fl (mac_string a) of
       Some old \<Rightarrow> if sint (ai_rssi old) < sint (p_rssi p)
         then ai_apMACAddress ap = mac_string b \<and> ai_rssi ap = p_rssi p \<and> ai_sw ap = sw
         else ai_apMACAddress ap = ai_apMACAddress old \<and> ai_rssi ap = ai_rssi old \<and> ai_sw ap = ai_sw old
     | None \<Rightarrow> ai_apMACAddress ap = mac_string b \<and> ai_rssi ap = p_rssi p \<and> ai_sw ap = sw)"
proof -
  let ?r = "p_rssi p" and ?f = "''signal/'' @ unparse_dash a"
  define fs' where "fs' = fs(?f \<mapsto> dec_width2 (unat ?r) @ [CHR 0x0A])"
  define s1 where "s1 = s\<lparr>sta_data_threads := sta_data_threads s @ [\<lparr>rh_rssi = ?r, rh_mac = a\<rparr>]\<rparr>"
  define ans where "ans = ap_msg e exp_type.WLAN_REC_POW (mac_bytes a @ mac_bytes b @ [?r])"
  define d where "d = \<lparr>subtype = wlan_subtype exp_type.WLAN_REC_POW, rs_staMacAddress = a, rs_apMacAddress = b, rs_rssi = ?r\<rparr>"
  have 1: "simple_action addr (\<lambda>_. True) p fs = Inr fs'" unfolding fs'_def by (rule signal_written [OF assms(2-5)]) simp
  have h: "handle_of (e\<lparr>fopen_r := fs'\<rparr>) v = [\<lparr>rh_rssi = ?r, rh_mac = a\<rparr>]"
    by (rule signal_thread) (simp_all add: fs'_def closed_def v(1,2))
  note ok = event_ok_text [OF v(1,3,4)]
  have 2: "rssi_round (e\<lparr>fopen_r := fs'\<rparr>) (Read (int (length (event_bytes v))) (event_bytes v @ post)) s = Inr s1"
    using rssi_round_eq [of "[v]" s c "e\<lparr>fopen_r := fs'\<rparr>" post] ok s(1) e h by (simp add: s1_def)
  have r: "reports i ?r" "heard i ?r = i\<lparr>lastReceivedSignalStrength := ?r\<rparr>" using s(8,9) by (simp_all add: reports_def heard_def)
  have k: "i = (case sta_abs l (rh_mac \<lparr>rh_rssi = ?r, rh_mac = a\<rparr>) of None \<Rightarrow> first_seen (rh_mac \<lparr>rh_rssi = ?r, rh_mac = a\<rparr>) | Some i \<Rightarrow> i)"
    using s(7) by (simp cong: option.case_cong)
  obtain l' where 3: "process_sta_data e n \<lparr>rh_rssi = ?r, rh_mac = a\<rparr> s1 = Inr (s1\<lparr>staList := Live l', ap_controller := Live (reply e ans c)\<rparr>)"
    "sta_abs l' = (sta_abs l)(a \<mapsto> i\<lparr>lastReceivedSignalStrength := ?r\<rparr>)"
    using process_sta_data_eq [of s1 c b l n e "\<lparr>rh_rssi = ?r, rh_mac = a\<rparr>" i, OF _ s(2) _ s(4) e(1)] s(1,3,5,6) k r
    by (auto simp: s1_def ans_def)
  have 4: "readFrom_OFVendor nt ans = Inr (ap_vendor e 13 (WlanRSSI d), [])"
    using rssi_read [OF assms(1), of exp_type.WLAN_REC_POW e a b ?r "[]"] by (simp add: ans_def d_def)
  have 5: "receive fe sw (ap_vendor e 13 (WlanRSSI d)) fl = (Inr STOP, handleLastRSSI fe sw d fl)"
    by (simp add: receive_def cast_def handle_def as_rssi_def ap_vendor_def d_def enum_val_exp)
  obtain sent where "STAAPRSSIList (handleLastRSSI fe sw d fl) (mac_string a) =
      Some ((strongest (STAAPRSSIList fl (mac_string a)) (mac_string b) ?r sw)\<lparr>isSent := sent\<rparr>)"
    using handleLastRSSI_entry [of fe sw d fl] by (auto simp: d_def)
  then show ?thesis using 1 2 3 4 5 unfolding s1_def
    by (intro exI conjI; assumption?) (auto simp: strongest_def split: option.split)
qed

theorem signal_reaches_controller_witness:
  "\<exists>fs' s1 s2 msg fl' ap. simple_action demo_ap_mac (\<lambda>_. True) \<lparr>p_data = [8, 1, 0, 0] @ mac_bytes demo_ap_mac @ mac_bytes demo_addr @ zeroed 8, p_rssi = 40\<rparr>
      Map.empty = Inr fs' \<and>
    rssi_round (demo_signal_env fs') (Read (int (length (event_bytes demo_event))) (event_bytes demo_event @ zeroed 16))
      (demo_access_point demo_list (hapd_init 63)) = Inr s1 \<and>
    process_sta_data (demo_signal_env Map.empty) 255 \<lparr>rh_rssi = 40, rh_mac = demo_addr\<rparr> s1 = Inr s2 \<and>
    receive demo_fl_env 1 msg fl_init = (Inr STOP, fl') \<and> STAAPRSSIList fl' (mac_string demo_addr) = Some ap \<and>
    ai_apMACAddress ap = mac_string demo_ap_mac \<and> ai_rssi ap = 40 \<and> ai_sw ap = 1"
proof -
  let ?p = "\<lparr>p_data = [8, 1, 0, 0] @ mac_bytes demo_ap_mac @ mac_bytes demo_addr @ zeroed 8, p_rssi = 40\<rparr>"
  let ?s = "demo_access_point demo_list (hapd_init 63)" and ?e = "demo_signal_env Map.empty"
  have f: "ld8 (p_data ?p) 1 = Inr 1" "(1 :: byte) AND 3 = 1" "ld_mac (p_data ?p) 4 = Inr demo_ap_mac" "ld_mac (p_data ?p) 10 = Inr demo_addr"
    by (simp_all add: ld8_def ld_mac_def demo_ap_mac_def demo_addr_def)
  have s: "ap_controller ?s = Live demo_ap_conn" "conn_mac demo_ap_conn = Some demo_ap_mac" "staList ?s = Live demo_list" "MAC_HASH demo_addr < 255"
    by (simp_all add: demo_access_point_def demo_ap_conn_def demo_addr_def)
  have i: "sta_abs demo_list demo_addr \<noteq> None \<or> num_sta demo_list < int 255"
    "new_infoSTA demo_addr = (case sta_abs demo_list demo_addr of None \<Rightarrow> first_seen demo_addr | Some i \<Rightarrow> i)"
    "si_status (new_infoSTA demo_addr) \<noteq> STAStatus.ASSOCIATED" "lastReceivedSignalStrength (new_infoSTA demo_addr) < p_rssi ?p"
    by (simp_all add: demo_list_ok(2) new_infoSTA_def)
  have v: "ev_name demo_event = unparse_dash demo_addr" "ev_mask demo_event AND IN_CLOSE_WRITE \<noteq> 0" "1 \<le> ev_pad demo_event" "ev_pad demo_event \<le> 255"
    by (simp_all add: demo_event_def IN_CLOSE_WRITE_def)
  have e: "calloc_ok ?e = (\<lambda>_. True)" "pthread_ok ?e" "?e\<lparr>fopen_r := fs'\<rparr> = demo_signal_env fs'" "STAAPRSSIList fl_init (mac_string demo_addr) = None" for fs'
    by (simp_all add: demo_signal_env_def fl_init_def)
  from signal_reaches_controller [OF big_endian_network_buffer f s(1-3) demo_list_ok(1) s(4) i v e(1,2), of Map.empty "zeroed 16" demo_fl_env 1 fl_init,
      unfolded e(3,4)]
  show ?thesis by (elim exE conjE) (intro exI conjI; assumption?; simp)
qed

end
